(* ===== verification/Prelude.thy ===== *)
theory Prelude
  imports Main "HOL-Library.Char_ord" "HOL-Library.List_Lexorder"
begin

text \<open>
  Shared vocabulary of the development.

  A Go \<open>string\<close> is an immutable byte sequence; it is modelled as \<^typ>\<open>string\<close>, a list of
  8-bit characters, so \<open>len(s)\<close> is \<^const>\<open>length\<close>, comparison is bytewise, and
  \<open>sort.Strings\<close> is \<^const>\<open>sort\<close> at the lexicographic order of bytes (Go's order on
  strings).  This theory holds the part of \<open>strings\<close>, \<open>strconv\<close> and \<open>unicode\<close> the program
  uses, the error-or-value type, and the generic facts about them.

  A Go function that returns \<open>(T, error)\<close> is a value of the sum \<open>'e + 'a\<close>: \<^const>\<open>Inl\<close> is
  the error, \<^const>\<open>Inr\<close> the value.
\<close>

named_theorems go_simps \<open>evaluation rules of the modelled Go library functions\<close>
named_theorems keeps \<open>facts of the form: an operation preserves an invariant\<close>

section \<open>Errors as values\<close>

definition rbind :: "'e + 'a \<Rightarrow> ('a \<Rightarrow> 'e + 'b) \<Rightarrow> 'e + 'b" where
  "rbind r f = (case r of Inl e \<Rightarrow> Inl e | Inr a \<Rightarrow> f a)"

lemma rbind_Inl [simp]: "rbind (Inl e) f = Inl e"
  and rbind_Inr [simp]: "rbind (Inr a) f = f a"
  by (simp_all add: rbind_def)

lemma rbind_eq_Inr: "rbind r f = Inr b \<longleftrightarrow> (\<exists>a. r = Inr a \<and> f a = Inr b)"
  by (cases r) auto

lemma rbind_eq_Inl: "rbind r f = Inl e \<longleftrightarrow> r = Inl e \<or> (\<exists>a. r = Inr a \<and> f a = Inl e)"
  by (cases r) auto

definition is_ok :: "'e + 'a \<Rightarrow> bool" where
  "is_ok r = (case r of Inl _ \<Rightarrow> False | Inr _ \<Rightarrow> True)"

lemma is_ok_Inl [simp]: "\<not> is_ok (Inl e)"
  and is_ok_Inr [simp]: "is_ok (Inr a)"
  by (simp_all add: is_ok_def)

lemma is_ok_iff: "is_ok r \<longleftrightarrow> (\<exists>a. r = Inr a)"
  by (cases r) auto

section \<open>Prefixes, suffixes, substrings\<close>

text \<open>\<open>strings.HasPrefix\<close> and \<open>strings.CutPrefix\<close>.\<close>

fun strip_prefix :: "string \<Rightarrow> string \<Rightarrow> string option" where
  "strip_prefix [] s = Some s"
| "strip_prefix (p # ps) [] = None"
| "strip_prefix (p # ps) (c # cs) = (if p = c then strip_prefix ps cs else None)"

definition has_prefix :: "string \<Rightarrow> string \<Rightarrow> bool" where
  "has_prefix s p = (strip_prefix p s \<noteq> None)"

definition trim_prefix :: "string \<Rightarrow> string \<Rightarrow> string" where
  "trim_prefix s p = (case strip_prefix p s of None \<Rightarrow> s | Some r \<Rightarrow> r)"

definition has_suffix :: "string \<Rightarrow> string \<Rightarrow> bool" where
  "has_suffix s p = has_prefix (rev s) (rev p)"

text \<open>\<open>strings.Contains\<close>.\<close>

fun contains :: "string \<Rightarrow> string \<Rightarrow> bool" where
  "contains [] p = (p = [])"
| "contains (c # cs) p = (has_prefix (c # cs) p \<or> contains cs p)"

lemma strip_prefix_Some: "strip_prefix p s = Some r \<longleftrightarrow> s = p @ r"
  by (induction p s rule: strip_prefix.induct) auto

lemma strip_prefix_append [simp]: "strip_prefix p (p @ r) = Some r"
  by (simp add: strip_prefix_Some)

lemma has_prefix_iff: "has_prefix s p \<longleftrightarrow> (\<exists>r. s = p @ r)"
  by (auto simp: has_prefix_def simp flip: strip_prefix_Some)

lemma has_prefix_append [simp]: "has_prefix (p @ r) p"
  by (auto simp: has_prefix_iff)

lemma has_prefix_Nil [simp]: "has_prefix s []"
  by (auto simp: has_prefix_iff)

lemma has_prefix_Cons [simp]: "has_prefix (c # cs) (p # ps) \<longleftrightarrow> p = c \<and> has_prefix cs ps"
  by (auto simp: has_prefix_def)

lemma has_prefix_empty [simp]: "has_prefix [] (p # ps) \<longleftrightarrow> False"
  by (simp add: has_prefix_def)

lemma trim_prefix_append [simp]: "trim_prefix (p @ r) p = r"
  by (simp add: trim_prefix_def)

lemma has_suffix_iff: "has_suffix s p \<longleftrightarrow> (\<exists>r. s = r @ p)"
proof -
  have "has_suffix s p \<longleftrightarrow> (\<exists>r. rev s = rev p @ r)"
    by (simp add: has_suffix_def has_prefix_iff)
  also have "\<dots> \<longleftrightarrow> (\<exists>r. s = r @ p)"
    by (metis rev_append rev_rev_ident)
  finally show ?thesis .
qed

lemma contains_iff: "contains s p \<longleftrightarrow> (\<exists>a b. s = a @ p @ b)"
proof (induction s)
  case Nil
  then show ?case by auto
next
  case (Cons c cs)
  have "(\<exists>a b. c # cs = a @ p @ b) \<longleftrightarrow> (\<exists>b. c # cs = p @ b) \<or> (\<exists>a b. cs = a @ p @ b)"
  proof
    assume "\<exists>a b. c # cs = a @ p @ b"
    then obtain a b where "c # cs = a @ p @ b" by blast
    then show "(\<exists>b. c # cs = p @ b) \<or> (\<exists>a b. cs = a @ p @ b)"
      by (cases a) auto
  next
    assume "(\<exists>b. c # cs = p @ b) \<or> (\<exists>a b. cs = a @ p @ b)"
    then show "\<exists>a b. c # cs = a @ p @ b"
    proof
      assume "\<exists>b. c # cs = p @ b"
      then show ?thesis by (metis append_Nil)
    next
      assume "\<exists>a b. cs = a @ p @ b"
      then show ?thesis by (metis append_Cons)
    qed
  qed
  with Cons.IH show ?case by (simp only: contains.simps has_prefix_iff)
qed

lemma contains_set: "contains s p \<Longrightarrow> set p \<subseteq> set s"
  by (auto simp: contains_iff)

lemma has_suffix_set: "has_suffix s p \<Longrightarrow> set p \<subseteq> set s"
  by (auto simp: has_suffix_iff)

text \<open>\<open>strings.Cut\<close>, at a one-byte separator.\<close>

fun cut_at :: "char \<Rightarrow> string \<Rightarrow> (string \<times> string) option" where
  "cut_at sep [] = None"
| "cut_at sep (c # cs) =
     (if c = sep then Some ([], cs)
      else case cut_at sep cs of None \<Rightarrow> None | Some (a, b) \<Rightarrow> Some (c # a, b))"

lemma cut_at_sound: "cut_at sep s = Some (a, b) \<Longrightarrow> s = a @ sep # b \<and> sep \<notin> set a"
proof (induction s arbitrary: a)
  case (Cons c cs)
  show ?case
  proof (cases "c = sep")
    case False
    with Cons.prems obtain a' where "cut_at sep cs = Some (a', b)" and a: "a = c # a'"
      by (auto split: option.splits)
    from Cons.IH [OF this(1)] False a show ?thesis by simp
  qed (use Cons.prems in simp)
qed simp

lemma cut_at_complete: "sep \<notin> set a \<Longrightarrow> cut_at sep (a @ sep # b) = Some (a, b)"
  by (induction a) auto

lemma cut_at_Some: "cut_at sep s = Some (a, b) \<longleftrightarrow> s = a @ sep # b \<and> sep \<notin> set a"
  using cut_at_sound cut_at_complete by blast

lemma cut_at_append [simp]: "sep \<notin> set a \<Longrightarrow> cut_at sep (a @ sep # b) = Some (a, b)"
  by (simp add: cut_at_Some)

text \<open>\<open>strings.Split\<close>, at a one-byte separator: always at least one component.\<close>

fun split_at :: "char \<Rightarrow> string \<Rightarrow> string list" where
  "split_at sep [] = [[]]"
| "split_at sep (c # cs) =
     (if c = sep then [] # split_at sep cs
      else case split_at sep cs of [] \<Rightarrow> [[c]] | w # ws \<Rightarrow> (c # w) # ws)"

lemma split_at_ne [simp]: "split_at sep s \<noteq> []"
  by (induction s) (auto split: list.splits)

lemma split_at_none: "sep \<notin> set s \<Longrightarrow> split_at sep s = [s]"
  by (induction s) auto

text \<open>\<open>strings.Join\<close>.\<close>

fun join :: "string \<Rightarrow> string list \<Rightarrow> string" where
  "join sep [] = []"
| "join sep [x] = x"
| "join sep (x # y # ys) = x @ sep @ join sep (y # ys)"

lemma join_split_at: "join [sep] (split_at sep s) = s"
proof (induction s)
  case (Cons c cs)
  obtain w ws where w: "split_at sep cs = w # ws"
    by (cases "split_at sep cs") auto
  with Cons.IH have "join [sep] (w # ws) = cs" by simp
  with w show ?case by (cases ws) auto
qed simp

lemma join_eq_Nil: "join sep xs = [] \<longleftrightarrow> (\<forall>x \<in> set xs. x = []) \<and> (length xs \<le> 1 \<or> sep = [])"
  by (induction sep xs rule: join.induct) auto

section \<open>White space\<close>

text \<open>
  \<open>strings.TrimSpace\<close> strips the runes with the Unicode property \<open>White_Space\<close>.  On bytes
  that is: strip, at either end, the UTF-8 encodings listed here.  UTF-8 is
  self-synchronising, so looking for an encoding as a prefix or as a suffix finds exactly
  the first or last rune.
\<close>

definition space_runes :: "string list" where
  "space_runes =
     [[CHR 0x09], [CHR 0x0A], [CHR 0x0B], [CHR 0x0C], [CHR 0x0D], [CHR 0x20],
      [CHR 0xC2, CHR 0x85], [CHR 0xC2, CHR 0xA0], [CHR 0xE1, CHR 0x9A, CHR 0x80],
      [CHR 0xE2, CHR 0x80, CHR 0x80], [CHR 0xE2, CHR 0x80, CHR 0x81],
      [CHR 0xE2, CHR 0x80, CHR 0x82], [CHR 0xE2, CHR 0x80, CHR 0x83],
      [CHR 0xE2, CHR 0x80, CHR 0x84], [CHR 0xE2, CHR 0x80, CHR 0x85],
      [CHR 0xE2, CHR 0x80, CHR 0x86], [CHR 0xE2, CHR 0x80, CHR 0x87],
      [CHR 0xE2, CHR 0x80, CHR 0x88], [CHR 0xE2, CHR 0x80, CHR 0x89],
      [CHR 0xE2, CHR 0x80, CHR 0x8A], [CHR 0xE2, CHR 0x80, CHR 0xA8],
      [CHR 0xE2, CHR 0x80, CHR 0xA9], [CHR 0xE2, CHR 0x80, CHR 0xAF],
      [CHR 0xE2, CHR 0x81, CHR 0x9F], [CHR 0xE3, CHR 0x80, CHR 0x80]]"

fun strip_any :: "string list \<Rightarrow> string \<Rightarrow> string option" where
  "strip_any [] s = None"
| "strip_any (p # ps) s = (case strip_prefix p s of Some r \<Rightarrow> Some r | None \<Rightarrow> strip_any ps s)"

fun trim_left_of :: "string list \<Rightarrow> string \<Rightarrow> string" where
  "trim_left_of ps s =
     (case strip_any ps s of
        None \<Rightarrow> s
      | Some r \<Rightarrow> if length r < length s then trim_left_of ps r else s)"

declare trim_left_of.simps [simp del]

definition trim_left_space :: "string \<Rightarrow> string" where
  "trim_left_space s = trim_left_of space_runes s"

definition trim_right_space :: "string \<Rightarrow> string" where
  "trim_right_space s = rev (trim_left_of (map rev space_runes) (rev s))"

definition trim_space :: "string \<Rightarrow> string" where
  "trim_space s = trim_right_space (trim_left_space s)"

text \<open>A string that is white space only; the program asks it as \<open>TrimSpace(s) == ""\<close>.\<close>

definition blank :: "string \<Rightarrow> bool" where
  "blank s = (trim_space s = [])"

text \<open>\<open>strings.ToLower\<close>, on ASCII text.\<close>

definition lower_char :: "char \<Rightarrow> char" where
  "lower_char c =
     (if 65 \<le> (of_char c :: nat) \<and> (of_char c :: nat) \<le> 90 then char_of ((of_char c :: nat) + 32)
      else c)"

lemma trim_left_of_stop: "strip_any ps s = None \<Longrightarrow> trim_left_of ps s = s"
  by (simp add: trim_left_of.simps)

lemma strip_any_Nil_None: "[] \<notin> set ps \<Longrightarrow> strip_any ps [] = None"
proof (induction ps)
  case (Cons p ps)
  then show ?case by (cases p) auto
qed simp

lemma strip_any_head: "(\<And>p. p \<in> set ps \<Longrightarrow> p \<noteq> [] \<and> hd p \<noteq> c) \<Longrightarrow> strip_any ps (c # cs) = None"
proof (induction ps)
  case (Cons p ps)
  have "p \<noteq> [] \<and> hd p \<noteq> c" using Cons.prems by simp
  moreover have "strip_any ps (c # cs) = None" using Cons by simp
  ultimately show ?case by (cases p) auto
qed simp

text \<open>The bytes that begin, or end, the encoding of a white-space rune.\<close>

definition space_heads :: "char list" where
  "space_heads = map hd space_runes"

definition space_lasts :: "char list" where
  "space_lasts = map last space_runes"

lemma space_runes_ne: "p \<in> set space_runes \<Longrightarrow> p \<noteq> []"
  by (auto simp: space_runes_def)

lemma trim_left_space_id: "c \<notin> set space_heads \<Longrightarrow> trim_left_space (c # cs) = c # cs"
  unfolding trim_left_space_def
  by (rule trim_left_of_stop, rule strip_any_head)
    (auto simp: space_heads_def dest: space_runes_ne)

lemma trim_right_space_id: "c \<notin> set space_lasts \<Longrightarrow> trim_right_space (cs @ [c]) = cs @ [c]"
proof -
  assume "c \<notin> set space_lasts"
  then have "strip_any (map rev space_runes) (c # rev cs) = None"
    by (intro strip_any_head)
      (auto simp: space_lasts_def hd_rev dest: space_runes_ne)
  then show ?thesis by (simp add: trim_right_space_def trim_left_of_stop)
qed

lemma trim_space_Nil [simp]: "trim_space [] = []"
proof -
  have "strip_any space_runes [] = None" and "strip_any (map rev space_runes) [] = None"
    by (auto intro!: strip_any_Nil_None simp: dest: space_runes_ne)
  then show ?thesis
    by (simp add: trim_space_def trim_left_space_def trim_right_space_def trim_left_of_stop)
qed

lemma blank_Nil [simp]: "blank []"
  by (simp add: blank_def)

text \<open>A string whose bytes neither begin nor end a white-space rune is not trimmed.\<close>

lemma trim_space_id:
  assumes "set s \<inter> (set space_heads \<union> set space_lasts) = {}"
  shows "trim_space s = s"
proof (cases s)
  case Nil
  then show ?thesis by simp
next
  case (Cons c cs)
  with assms have l: "trim_left_space s = s" by (simp add: trim_left_space_id)
  obtain ds d where d: "s = ds @ [d]" using Cons by (metis append_butlast_last_id list.distinct(1))
  with assms have "trim_right_space s = s" by (simp add: trim_right_space_id)
  with l show ?thesis by (simp add: trim_space_def)
qed

section \<open>UTF-8\<close>

text \<open>\<open>utf8.ValidString\<close>: the well-formed byte sequences, surrogates and overlong forms excluded.\<close>

definition byte_in :: "nat \<Rightarrow> nat \<Rightarrow> char \<Rightarrow> bool" where
  "byte_in lo hi c = (lo \<le> of_char c \<and> of_char c \<le> hi)"

fun valid_utf8 :: "string \<Rightarrow> bool" where
  "valid_utf8 [] = True"
| "valid_utf8 (c # cs) =
     (if byte_in 0 127 c then valid_utf8 cs
      else if byte_in 194 223 c then
        (case cs of c1 # r \<Rightarrow> byte_in 128 191 c1 \<and> valid_utf8 r | _ \<Rightarrow> False)
      else if byte_in 224 239 c then
        (case cs of
           c1 # c2 # r \<Rightarrow>
             (if byte_in 224 224 c then byte_in 160 191 c1
              else if byte_in 237 237 c then byte_in 128 159 c1
              else byte_in 128 191 c1) \<and> byte_in 128 191 c2 \<and> valid_utf8 r
         | _ \<Rightarrow> False)
      else if byte_in 240 244 c then
        (case cs of
           c1 # c2 # c3 # r \<Rightarrow>
             (if byte_in 240 240 c then byte_in 144 191 c1
              else if byte_in 244 244 c then byte_in 128 143 c1
              else byte_in 128 191 c1) \<and>
             byte_in 128 191 c2 \<and> byte_in 128 191 c3 \<and> valid_utf8 r
         | _ \<Rightarrow> False)
      else False)"

section \<open>Decimal rendering\<close>

text \<open>\<open>strconv.Itoa\<close>.\<close>

definition digit_char :: "nat \<Rightarrow> char" where
  "digit_char d = char_of (48 + d)"

definition char_digit :: "char \<Rightarrow> nat" where
  "char_digit c = of_char c - 48"

definition is_digit :: "char \<Rightarrow> bool" where
  "is_digit c = (48 \<le> (of_char c :: nat) \<and> (of_char c :: nat) \<le> 57)"

fun itoa_nat :: "nat \<Rightarrow> string" where
  "itoa_nat n = (if n < 10 then [digit_char n] else itoa_nat (n div 10) @ [digit_char (n mod 10)])"

declare itoa_nat.simps [simp del]

definition itoa :: "int \<Rightarrow> string" where
  "itoa n = (if n < 0 then ''-'' @ itoa_nat (nat (- n)) else itoa_nat (nat n))"

text \<open>The value of a digit string, read most significant digit first.\<close>

definition digits_value :: "string \<Rightarrow> nat" where
  "digits_value s = foldl (\<lambda>v c. 10 * v + char_digit c) 0 s"

lemma of_char_digit_char: "d < 10 \<Longrightarrow> (of_char (digit_char d) :: nat) = 48 + d"
  by (simp add: digit_char_def)

lemma is_digit_digit_char: "d < 10 \<Longrightarrow> is_digit (digit_char d)"
  by (simp add: is_digit_def of_char_digit_char)

lemma char_digit_digit_char: "d < 10 \<Longrightarrow> char_digit (digit_char d) = d"
  by (simp add: char_digit_def of_char_digit_char)

lemma digit_char_eval [go_simps]:
  "digit_char 0 = CHR ''0''" "digit_char (Suc 0) = CHR ''1''" "digit_char 2 = CHR ''2''"
  "digit_char 3 = CHR ''3''" "digit_char 4 = CHR ''4''" "digit_char 5 = CHR ''5''"
  "digit_char 6 = CHR ''6''" "digit_char 7 = CHR ''7''" "digit_char 8 = CHR ''8''"
  "digit_char 9 = CHR ''9''"
  by code_simp+

lemma itoa_nat_digits: "c \<in> set (itoa_nat n) \<Longrightarrow> is_digit c"
proof (induction n rule: itoa_nat.induct)
  case (1 n)
  then show ?case
    by (cases "n < 10") (auto simp: itoa_nat.simps [of n] is_digit_digit_char)
qed

lemma itoa_nat_ne [simp]: "itoa_nat n \<noteq> []"
  by (subst itoa_nat.simps) simp

lemma digits_value_snoc: "digits_value (s @ [c]) = 10 * digits_value s + char_digit c"
  by (simp add: digits_value_def)

lemma digits_value_itoa_nat [simp]: "digits_value (itoa_nat n) = n"
proof (induction n rule: itoa_nat.induct)
  case (1 n)
  show ?case
  proof (cases "n < 10")
    case True
    then show ?thesis
      by (simp add: itoa_nat.simps [of n] digits_value_def char_digit_digit_char)
  next
    case False
    with 1 have "digits_value (itoa_nat (n div 10)) = n div 10" by simp
    with False show ?thesis
      by (simp add: itoa_nat.simps [of n] digits_value_snoc char_digit_digit_char)
  qed
qed

text \<open>The newline, which string literals of the logic do not show.\<close>

definition nl :: string where
  "nl = [CHR 0x0A]"

text \<open>The double quote.\<close>

definition dq :: string where
  "dq = [CHR 0x22]"

text \<open>
  \<open>strconv.Quote\<close>, which \<open>%q\<close> prints: quotes and backslashes are escaped, control characters are
  written out, and bytes above 127 are taken to be part of printable characters, which stay.
\<close>

definition hex_digit :: "nat \<Rightarrow> char" where
  "hex_digit n = (if n < 10 then char_of (48 + n) else char_of (87 + n))"

definition quote_char :: "char \<Rightarrow> string" where
  "quote_char c =
     (if c = CHR 0x22 then [CHR 0x5C, CHR 0x22]
      else if c = CHR 0x5C then [CHR 0x5C, CHR 0x5C]
      else if c = CHR 0x07 then [CHR 0x5C, CHR ''a'']
      else if c = CHR 0x08 then [CHR 0x5C, CHR ''b'']
      else if c = CHR 0x0C then [CHR 0x5C, CHR ''f'']
      else if c = CHR 0x0A then [CHR 0x5C, CHR ''n'']
      else if c = CHR 0x0D then [CHR 0x5C, CHR ''r'']
      else if c = CHR 0x09 then [CHR 0x5C, CHR ''t'']
      else if c = CHR 0x0B then [CHR 0x5C, CHR ''v'']
      else if of_char c < (32 :: nat) \<or> of_char c = (127 :: nat) then
        [CHR 0x5C, CHR ''x'', hex_digit (of_char c div 16), hex_digit (of_char c mod 16)]
      else [c])"

definition quoted :: "string \<Rightarrow> string" where
  "quoted s = dq @ concat (map quote_char s) @ dq"

text \<open>
  Runes of a valid UTF-8 string: one per byte that does not continue one.  The control characters
  are the bytes below 0x20, 0x7F, and the two-byte encodings of U+0080 to U+009F; the byte order
  mark is U+FEFF.
\<close>

definition rune_count :: "string \<Rightarrow> nat" where
  "rune_count s = length (filter (\<lambda>c. \<not> byte_in 128 191 c) s)"

definition has_control :: "string \<Rightarrow> bool" where
  "has_control s =
     (list_ex (\<lambda>c. byte_in 0 31 c \<or> byte_in 127 127 c) s \<or>
      list_ex (\<lambda>k. contains s [CHR 0xC2, char_of k]) [128..<160])"

section \<open>Sorting\<close>

text \<open>\<open>sort.Strings\<close> sorts a copy or in place; either way the result is this.\<close>

abbreviation sort_strings :: "string list \<Rightarrow> string list" where
  "sort_strings \<equiv> sort"

section \<open>Maps\<close>

text \<open>Reading a missing key of a Go map gives the zero value of its element type.\<close>

definition lookup_or :: "'v \<Rightarrow> ('k \<rightharpoonup> 'v) \<Rightarrow> 'k \<Rightarrow> 'v" where
  "lookup_or z m k = (case m k of None \<Rightarrow> z | Some v \<Rightarrow> v)"

lemma lookup_or_upd [simp]: "lookup_or z (m(k \<mapsto> v)) k' = (if k' = k then v else lookup_or z m k')"
  by (simp add: lookup_or_def)

lemma lookup_or_empty [simp]: "lookup_or z Map.empty k = z"
  by (simp add: lookup_or_def)

end
