(* ===== verification/Fleet_Graph.thy ===== *)
theory Fleet_Graph
  imports Prelude
begin

text \<open>
  The dependency graph of a fleet plan (\<open>internal/fleet/domain.go\<close>): the plan's data, its
  validation, the depth-first cycle search with its colour map and path stack, the
  grouping into dependency layers by memoised depth, and the branches nodes develop on.

  \<^item> \<open>find_cycle\<close> follows the closure \<open>visit\<close>: one recursion over the dependencies still to be
    scanned, whose nested calls grey a node, push it on the stack, and pop and blacken it
    when its dependencies are done.  Its termination proof needs that a finished call never
    turns a node white again.
  \<^item> \<open>topo_layers\<close> follows the closure \<open>compute\<close>, which would not return on a cyclic plan: it
    is a partial function, \<^const>\<open>None\<close> meaning that it does not return, and its totality on
    validated plans is a theorem.

  The link between the two is a rank function: a plan the search accepts has a rank that
  decreases along every dependency.
\<close>

section \<open>Data\<close>

record fleet_node =
  fn_id :: string
  fn_prompt :: string
  fn_depends_on :: "string list"

record fleet_plan =
  fp_goal :: string
  fp_nodes :: "fleet_node list"

datatype plan_error =
    NoNodes
  | EmptyNodeId
  | BadNodeId string
  | DuplicateNodeId string
  | EmptyNodePrompt string
  | DependsOnItself string
  | UnknownDependency string string
  | DependencyCycle string

abbreviation plan_ids :: "fleet_plan \<Rightarrow> string list" where
  "plan_ids plan \<equiv> map fn_id (fp_nodes plan)"

text \<open>The pattern \<open>^[A-Za-z0-9_-]+$\<close> of a node ID.\<close>

definition slug_char :: "char \<Rightarrow> bool" where
  "slug_char c =
     (let k = of_char c :: nat in
      65 \<le> k \<and> k \<le> 90 \<or> 97 \<le> k \<and> k \<le> 122 \<or> 48 \<le> k \<and> k \<le> 57 \<or> k = 95 \<or> k = 45)"

definition node_id_pattern :: "string \<Rightarrow> bool" where
  "node_id_pattern s = (s \<noteq> [] \<and> list_all slug_char s)"

section \<open>The cycle search\<close>

text \<open>\<open>deps[n.ID] = n.DependsOn\<close>, over the nodes in order: a later node overwrites.\<close>

definition deps_map :: "fleet_plan \<Rightarrow> string \<rightharpoonup> string list" where
  "deps_map plan = foldl (\<lambda>m n. m(fn_id n \<mapsto> fn_depends_on n)) Map.empty (fp_nodes plan)"

definition deps_of :: "fleet_plan \<Rightarrow> string \<Rightarrow> string list" where
  "deps_of plan nid = lookup_or [] (deps_map plan) nid"

datatype color = White | Gray | Black

record dfs =
  color_of :: "string \<Rightarrow> color"
  dfs_stack :: "string list"

definition dfs_init :: dfs where
  "dfs_init = \<lparr>color_of = (\<lambda>_. White), dfs_stack = []\<rparr>"

text \<open>The first and the last two statements of \<open>visit\<close>.\<close>

definition dfs_enter :: "string \<Rightarrow> dfs \<Rightarrow> dfs" where
  "dfs_enter nid st =
     st\<lparr>color_of := (color_of st)(nid := Gray), dfs_stack := dfs_stack st @ [nid]\<rparr>"

definition dfs_leave :: "string \<Rightarrow> dfs \<Rightarrow> dfs" where
  "dfs_leave nid st =
     st\<lparr>color_of := (color_of st)(nid := Black), dfs_stack := butlast (dfs_stack st)\<rparr>"

text \<open>
  The loop over \<open>deps[id]\<close>.  A grey dependency closes a cycle, rendered from where the
  dependency first appears on the stack; were it not on the stack the loop would go on.
\<close>

function visit_deps :: "fleet_plan \<Rightarrow> string list \<Rightarrow> dfs \<Rightarrow> string list option \<times> dfs" where
  "visit_deps plan [] st = (None, st)"
| "visit_deps plan (d # ds) st =
     (case color_of st d of
        Gray \<Rightarrow>
          (case dropWhile (\<lambda>s. s \<noteq> d) (dfs_stack st) of
             [] \<Rightarrow> visit_deps plan ds st
           | s # ss \<Rightarrow> (Some ((s # ss) @ [d]), st))
      | White \<Rightarrow>
          (case visit_deps plan (deps_of plan d) (dfs_enter d st) of
             (Some c, st') \<Rightarrow> (Some c, st')
           | (None, st') \<Rightarrow> visit_deps plan ds (dfs_leave d st'))
      | Black \<Rightarrow> visit_deps plan ds st)"
  by pat_completeness auto

definition visit :: "fleet_plan \<Rightarrow> string \<Rightarrow> dfs \<Rightarrow> string list option \<times> dfs" where
  "visit plan nid st =
     (case visit_deps plan (deps_of plan nid) (dfs_enter nid st) of
        (Some c, st') \<Rightarrow> (Some c, st')
      | (None, st') \<Rightarrow> (None, dfs_leave nid st'))"

text \<open>The outer loop, in the plan's node order.\<close>

fun visit_nodes :: "fleet_plan \<Rightarrow> string list \<Rightarrow> dfs \<Rightarrow> string list option" where
  "visit_nodes plan [] st = None"
| "visit_nodes plan (n # ns) st =
     (if color_of st n = White then
        (case visit plan n st of
           (Some c, st') \<Rightarrow> Some c
         | (None, st') \<Rightarrow> visit_nodes plan ns st')
      else visit_nodes plan ns st)"

definition find_cycle :: "fleet_plan \<Rightarrow> string" where
  "find_cycle plan =
     (case visit_nodes plan (plan_ids plan) dfs_init of
        None \<Rightarrow> []
      | Some c \<Rightarrow> join '' -> '' c)"

section \<open>Validation\<close>

text \<open>The first loop; \<open>seen\<close> grows as IDs are accepted.\<close>

fun check_nodes :: "fleet_node list \<Rightarrow> string set \<Rightarrow> plan_error + string set" where
  "check_nodes [] seen = Inr seen"
| "check_nodes (n # ns) seen =
     (if trim_space (fn_id n) = [] then Inl EmptyNodeId
      else if \<not> node_id_pattern (fn_id n) then Inl (BadNodeId (fn_id n))
      else if fn_id n \<in> seen then Inl (DuplicateNodeId (fn_id n))
      else if trim_space (fn_prompt n) = [] then Inl (EmptyNodePrompt (fn_id n))
      else check_nodes ns (insert (fn_id n) seen))"

fun check_deps :: "string set \<Rightarrow> string \<Rightarrow> string list \<Rightarrow> plan_error + unit" where
  "check_deps seen nid [] = Inr ()"
| "check_deps seen nid (d # ds) =
     (if d = nid then Inl (DependsOnItself nid)
      else if d \<notin> seen then Inl (UnknownDependency nid d)
      else check_deps seen nid ds)"

fun check_edges :: "string set \<Rightarrow> fleet_node list \<Rightarrow> plan_error + unit" where
  "check_edges seen [] = Inr ()"
| "check_edges seen (n # ns) =
     rbind (check_deps seen (fn_id n) (fn_depends_on n)) (\<lambda>_. check_edges seen ns)"

definition validate_plan :: "fleet_plan \<Rightarrow> plan_error + unit" where
  "validate_plan plan =
     (if fp_nodes plan = [] then Inl NoNodes
      else rbind (check_nodes (fp_nodes plan) {}) (\<lambda>seen.
           rbind (check_edges seen (fp_nodes plan)) (\<lambda>_.
             if find_cycle plan \<noteq> [] then Inl (DependencyCycle (find_cycle plan))
             else Inr ())))"

section \<open>Layers\<close>

text \<open>
  The loop of \<open>compute\<close> over \<open>deps[id]\<close>, carrying \<open>max\<close> and the memo \<open>depth\<close>.  \<^const>\<open>None\<close>
  is a call that does not return.
\<close>

partial_function (option) depth_deps ::
  "fleet_plan \<Rightarrow> string list \<Rightarrow> int \<Rightarrow> (string \<rightharpoonup> int) \<Rightarrow> (int \<times> (string \<rightharpoonup> int)) option" where
  "depth_deps plan ds mx memo =
     (case ds of
        [] \<Rightarrow> Some (mx, memo)
      | d # ds' \<Rightarrow>
          (case memo d of
             Some v \<Rightarrow> depth_deps plan ds' (if v > mx then v else mx) memo
           | None \<Rightarrow>
               Option.bind (depth_deps plan (deps_of plan d) (- 1) memo) (\<lambda>(m, memo').
                 depth_deps plan ds' (if m + 1 > mx then m + 1 else mx) (memo'(d \<mapsto> m + 1)))))"

declare depth_deps.simps [code]

definition compute_depth ::
  "fleet_plan \<Rightarrow> string \<Rightarrow> (string \<rightharpoonup> int) \<Rightarrow> (int \<times> (string \<rightharpoonup> int)) option" where
  "compute_depth plan nid memo =
     (case memo nid of
        Some d \<Rightarrow> Some (d, memo)
      | None \<Rightarrow>
          Option.bind (depth_deps plan (deps_of plan nid) (- 1) memo) (\<lambda>(m, memo').
            Some (m + 1, memo'(nid \<mapsto> m + 1))))"

fun compute_all ::
  "fleet_plan \<Rightarrow> string list \<Rightarrow> int \<Rightarrow> (string \<rightharpoonup> int) \<Rightarrow> (int \<times> (string \<rightharpoonup> int)) option" where
  "compute_all plan [] mx memo = Some (mx, memo)"
| "compute_all plan (n # ns) mx memo =
     Option.bind (compute_depth plan n memo) (\<lambda>(d, memo').
       compute_all plan ns (if d > mx then d else mx) memo')"

definition place_node ::
  "(string \<rightharpoonup> int) \<Rightarrow> string list list \<Rightarrow> string \<Rightarrow> string list list" where
  "place_node depth layers nid =
     (let d = nat (lookup_or 0 depth nid) in layers[d := layers ! d @ [nid]])"

definition topo_layers :: "fleet_plan \<Rightarrow> (plan_error + string list list) option" where
  "topo_layers plan =
     (case validate_plan plan of
        Inl e \<Rightarrow> Some (Inl e)
      | Inr _ \<Rightarrow>
          Option.bind (compute_all plan (plan_ids plan) 0 Map.empty) (\<lambda>(max_depth, depth).
            Some (Inr (map sort_strings
              (foldl (place_node depth) (replicate (nat (max_depth + 1)) []) (plan_ids plan))))))"

section \<open>Branches\<close>

definition node_branch :: "string \<Rightarrow> string \<Rightarrow> string" where
  "node_branch fleet_id nid = fleet_id @ ''-'' @ nid"

definition dependency_branches :: "string \<Rightarrow> fleet_node \<Rightarrow> string list" where
  "dependency_branches fleet_id n = map (node_branch fleet_id) (sort_strings (fn_depends_on n))"

section \<open>Termination of the search\<close>

text \<open>Every ID the search can reach from a non-empty dependency list.\<close>

definition universe :: "fleet_plan \<Rightarrow> string set" where
  "universe plan = set (plan_ids plan)"

lemma foldl_upd_dom:
  "dom (foldl (\<lambda>m n. m(fn_id n \<mapsto> fn_depends_on n)) m0 ns) = dom m0 \<union> fn_id ` set ns"
  by (induction ns arbitrary: m0) auto

lemma deps_of_unknown: "d \<notin> universe plan \<Longrightarrow> deps_of plan d = []"
proof -
  assume "d \<notin> universe plan"
  then have "d \<notin> dom (deps_map plan)" by (simp add: deps_map_def foldl_upd_dom universe_def)
  then have "deps_map plan d = None" by blast
  then show ?thesis by (simp add: deps_of_def lookup_or_def)
qed

definition whites :: "fleet_plan \<Rightarrow> dfs \<Rightarrow> string set" where
  "whites plan st = {d \<in> universe plan. color_of st d = White}"

lemma finite_whites [simp]: "finite (whites plan st)"
  by (simp add: whites_def universe_def)

lemma color_enter [simp]: "color_of (dfs_enter nid st) = (color_of st)(nid := Gray)"
  and stack_enter [simp]: "dfs_stack (dfs_enter nid st) = dfs_stack st @ [nid]"
  and color_leave [simp]: "color_of (dfs_leave nid st) = (color_of st)(nid := Black)"
  and stack_leave [simp]: "dfs_stack (dfs_leave nid st) = butlast (dfs_stack st)"
  by (simp_all add: dfs_enter_def dfs_leave_def)

lemma visit_deps_whites:
  "visit_deps_dom (plan, ds, st) \<Longrightarrow> color_of (snd (visit_deps plan ds st)) d = White \<Longrightarrow>
   color_of st d = White"
proof (induction plan ds st arbitrary: d rule: visit_deps.pinduct)
  case (1 plan st)
  then show ?case by (simp add: visit_deps.psimps)
next
  case (2 plan e es st)
  note unfold = visit_deps.psimps(2) [OF 2(1)]
  show ?case
  proof (cases "color_of st e")
    case White
    obtain r st' where v: "visit_deps plan (deps_of plan e) (dfs_enter e st) = (r, st')"
      by (cases "visit_deps plan (deps_of plan e) (dfs_enter e st)")
    have enter: "color_of st x = White" if "color_of st' x = White" for x
      using 2(2) [OF White, of x] that v by (auto split: if_splits)
    show ?thesis
    proof (cases r)
      case None
      have "color_of (dfs_leave e st') d = White"
        using 2(3) [OF White v [symmetric]] 2(6) v White None unfold by simp
      then show ?thesis using enter by (auto split: if_splits)
    next
      case (Some c)
      then show ?thesis using 2(6) v White unfold enter by simp
    qed
  next
    case Gray
    then show ?thesis
      using 2(4) [OF Gray] 2(6) unfold by (auto split: list.splits)
  next
    case Black
    then show ?thesis using 2(5) [OF Black] 2(6) unfold by simp
  qed
qed

lemma visit_deps_shrinks:
  assumes "visit_deps_dom (plan, deps_of plan d, dfs_enter d st)"
  shows "whites plan (dfs_leave d (snd (visit_deps plan (deps_of plan d) (dfs_enter d st))))
         \<subseteq> whites plan st"
  by (auto simp: whites_def split: if_splits dest!: visit_deps_whites [OF assms])

termination visit_deps
proof (relation "(\<lambda>(plan, ds, st). card (whites plan st)) <*mlex*>
    measure (\<lambda>(plan, ds, st). length ds)", goal_cases)
  case 1
  then show ?case by (simp add: wf_mlex)
next
  case (2 plan d ds st)
  show ?case
  proof (cases "d \<in> universe plan")
    case True
    have "whites plan (dfs_enter d st) \<subset> whites plan st"
      using True 2 by (auto simp: whites_def)
    then show ?thesis by (auto simp: mlex_iff intro: psubset_card_mono)
  next
    case False
    then have "whites plan (dfs_enter d st) = whites plan st"
      by (auto simp: whites_def)
    with False show ?thesis by (simp add: mlex_iff deps_of_unknown)
  qed
next
  case (3 plan d ds st r st')
  then have "whites plan (dfs_leave d st') \<subseteq> whites plan st"
    using visit_deps_shrinks by (metis snd_conv)
  from card_mono [OF finite_whites this] show ?case by (auto simp: mlex_iff)
next
  case (4 plan d ds st)
  then show ?case by (simp add: mlex_iff)
next
  case (5 plan d ds st)
  then show ?case by (simp add: mlex_iff)
qed

section \<open>Correctness of the search\<close>

definition edge :: "fleet_plan \<Rightarrow> string \<Rightarrow> string \<Rightarrow> bool" where
  "edge plan x d = (d \<in> set (deps_of plan x))"

text \<open>A closed walk along dependencies, as the search reports it.\<close>

definition dep_cycle :: "fleet_plan \<Rightarrow> string list \<Rightarrow> bool" where
  "dep_cycle plan c = (2 \<le> length c \<and> hd c = last c \<and> successively (edge plan) c)"

text \<open>A set closed under dependencies on which some rank decreases along every edge.\<close>

definition ranked :: "fleet_plan \<Rightarrow> string set \<Rightarrow> bool" where
  "ranked plan B =
     (\<exists>r :: string \<Rightarrow> nat. \<forall>b \<in> B. \<forall>d. edge plan b d \<longrightarrow> d \<in> B \<and> r d < r b)"

lemma ranked_empty [simp]: "ranked plan {}"
  by (simp add: ranked_def)

lemma ranked_insert:
  assumes "ranked plan B" and deps: "\<And>d. edge plan x d \<Longrightarrow> d \<in> B"
  shows "ranked plan (insert x B)"
proof (cases "x \<in> B")
  case True
  with assms(1) show ?thesis by (simp add: insert_absorb)
next
  case False
  obtain r :: "string \<Rightarrow> nat"
    where r: "\<And>b d. b \<in> B \<Longrightarrow> edge plan b d \<Longrightarrow> d \<in> B \<and> r d < r b"
    using assms(1) unfolding ranked_def by blast
  let ?r = "r(x := Suc (sum_list (map r (deps_of plan x))))"
  have "?r d < ?r x" if "edge plan x d" for d
    using that deps [OF that] False
    by (auto simp: edge_def less_Suc_eq_le intro: member_le_sum_list)
  moreover have "?r d < ?r b" if "b \<in> B" "edge plan b d" for b d
    using r [OF that] that False by auto
  ultimately have "d \<in> insert x B \<and> ?r d < ?r b" if "b \<in> insert x B" "edge plan b d" for b d
    using that deps r by blast
  then show ?thesis unfolding ranked_def by blast
qed

definition blacks :: "dfs \<Rightarrow> string set" where
  "blacks st = {x. color_of st x = Black}"

definition dfs_ok :: "fleet_plan \<Rightarrow> dfs \<Rightarrow> bool" where
  "dfs_ok plan st =
     (distinct (dfs_stack st) \<and> set (dfs_stack st) = {x. color_of st x = Gray} \<and>
      successively (edge plan) (dfs_stack st) \<and> ranked plan (blacks st))"

lemma dfs_ok_init: "dfs_ok plan dfs_init"
  by (simp add: dfs_ok_def dfs_init_def blacks_def)

lemma dfs_ok_enter [keeps]:
  assumes "dfs_ok plan st" "color_of st d = White"
    and "dfs_stack st \<noteq> [] \<Longrightarrow> edge plan (last (dfs_stack st)) d"
  shows "dfs_ok plan (dfs_enter d st)"
proof -
  have "d \<notin> set (dfs_stack st)" using assms by (auto simp: dfs_ok_def)
  moreover have "blacks (dfs_enter d st) = blacks st"
    using assms(2) by (auto simp: blacks_def)
  ultimately show ?thesis
    using assms by (auto simp: dfs_ok_def successively_append_iff)
qed

lemma dfs_ok_leave [keeps]:
  assumes "dfs_ok plan st" "dfs_stack st = stk @ [d]"
    and "\<And>e. edge plan d e \<Longrightarrow> color_of st e = Black"
  shows "dfs_ok plan (dfs_leave d st)"
proof -
  have "blacks (dfs_leave d st) = insert d (blacks st)"
    by (auto simp: blacks_def)
  moreover have "ranked plan (insert d (blacks st))"
    using assms by (intro ranked_insert) (auto simp: dfs_ok_def blacks_def)
  moreover have "set stk = {x. color_of (dfs_leave d st) x = Gray}"
    using assms(1,2) by (auto simp: dfs_ok_def set_eq_iff split: if_splits)
  ultimately show ?thesis
    using assms(1,2) by (simp add: dfs_ok_def successively_append_iff)
qed

text \<open>A grey dependency of the top of the stack closes a cycle.\<close>

lemma gray_closes:
  assumes "dfs_ok plan st" "color_of st d = Gray" "edge plan (last (dfs_stack st)) d"
  obtains s ss where "dropWhile (\<lambda>s. s \<noteq> d) (dfs_stack st) = s # ss"
    and "dep_cycle plan ((s # ss) @ [d])"
proof -
  let ?p = "takeWhile (\<lambda>s. s \<noteq> d) (dfs_stack st)"
  have "d \<in> set (dfs_stack st)" using assms by (auto simp: dfs_ok_def)
  then have ne: "dropWhile (\<lambda>s. s \<noteq> d) (dfs_stack st) \<noteq> []" by auto
  then obtain s ss where c: "dropWhile (\<lambda>s. s \<noteq> d) (dfs_stack st) = s # ss"
    by (cases "dropWhile (\<lambda>s. s \<noteq> d) (dfs_stack st)") auto
  have s: "s = d" using hd_dropWhile [OF ne] c by simp
  have stk: "dfs_stack st = ?p @ s # ss" using c by (metis takeWhile_dropWhile_id)
  have "successively (edge plan) (s # ss)"
    using assms(1) stk by (metis dfs_ok_def successively_append_iff)
  moreover have "last (s # ss) = last (dfs_stack st)" using stk by (metis last_appendR list.distinct(1))
  ultimately have "successively (edge plan) ((s # ss) @ [d])"
    using assms(3) by (subst successively_append_iff) auto
  with s c that show ?thesis by (simp add: dep_cycle_def)
qed

text \<open>
  What a scan of \<open>ds\<close> achieves: a reported list is a cycle; otherwise the path is as
  before, everything black stays black, and every scanned dependency is black.
\<close>

definition scanned :: "fleet_plan \<Rightarrow> string list \<Rightarrow> dfs \<Rightarrow> string list option \<Rightarrow> dfs \<Rightarrow> bool" where
  "scanned plan ds st r st' =
     (case r of
        Some c \<Rightarrow> dep_cycle plan c
      | None \<Rightarrow> dfs_ok plan st' \<and> dfs_stack st' = dfs_stack st \<and> blacks st \<subseteq> blacks st' \<and>
          (\<forall>d \<in> set ds. color_of st' d = Black))"

lemma scanned_Some [simp]: "scanned plan ds st (Some c) st' = dep_cycle plan c"
  by (simp add: scanned_def)

lemma scanned_leave:
  assumes "scanned plan (deps_of plan d) (dfs_enter d st) None st'" "color_of st d = White"
  shows "dfs_ok plan (dfs_leave d st')" "dfs_stack (dfs_leave d st') = dfs_stack st"
    "insert d (blacks st) \<subseteq> blacks (dfs_leave d st')"
proof -
  show "dfs_ok plan (dfs_leave d st')"
    using assms by (auto simp: scanned_def edge_def intro!: dfs_ok_leave)
  show "dfs_stack (dfs_leave d st') = dfs_stack st"
    using assms by (simp add: scanned_def)
  have "blacks (dfs_enter d st) = blacks st"
    using assms(2) by (auto simp: blacks_def)
  then have "blacks st \<subseteq> blacks st'" using assms(1) by (simp add: scanned_def)
  then show "insert d (blacks st) \<subseteq> blacks (dfs_leave d st')"
    by (auto simp: blacks_def)
qed

lemma visit_deps_scans:
  assumes "dfs_ok plan st" "dfs_stack st \<noteq> []"
    and "\<forall>d \<in> set ds. edge plan (last (dfs_stack st)) d"
  shows "scanned plan ds st (fst (visit_deps plan ds st)) (snd (visit_deps plan ds st))"
  using assms
proof (induction plan ds st rule: visit_deps.induct)
  case (1 plan st)
  then show ?case by (simp add: scanned_def)
next
  case (2 plan d ds st)
  show ?case
  proof (cases "color_of st d")
    case White
    obtain r st' where v: "visit_deps plan (deps_of plan d) (dfs_enter d st) = (r, st')"
      by (cases "visit_deps plan (deps_of plan d) (dfs_enter d st)")
    have s: "scanned plan (deps_of plan d) (dfs_enter d st) r st'"
      using 2(1) [OF White] 2(5,6,7) White v by (simp add: dfs_ok_enter edge_def)
    show ?thesis
    proof (cases r)
      case None
      note l = scanned_leave [OF s [unfolded None] White]
      have "scanned plan ds (dfs_leave d st') (fst (visit_deps plan ds (dfs_leave d st')))
              (snd (visit_deps plan ds (dfs_leave d st')))"
        using 2(2) [OF White v [symmetric] None l(1)] l(2) 2(6,7) by simp
      then show ?thesis
        using White v None l by (auto simp: scanned_def blacks_def split: option.splits)
    qed (use s White v in simp)
  next
    case Gray
    then show ?thesis
      using gray_closes [of plan st d] 2(5,7) by fastforce
  next
    case Black
    then show ?thesis
      using 2(4) [OF Black] 2(5,6,7)
      by (auto simp: scanned_def blacks_def split: option.splits)
  qed
qed

lemma visit_scans:
  assumes "dfs_ok plan st" "dfs_stack st = []" "color_of st d = White"
  shows "case visit plan d st of
           (Some c, st') \<Rightarrow> dep_cycle plan c
         | (None, st') \<Rightarrow> dfs_ok plan st' \<and> dfs_stack st' = [] \<and>
             insert d (blacks st) \<subseteq> blacks st'"
proof -
  obtain r st' where v: "visit_deps plan (deps_of plan d) (dfs_enter d st) = (r, st')"
    by (cases "visit_deps plan (deps_of plan d) (dfs_enter d st)")
  have s: "scanned plan (deps_of plan d) (dfs_enter d st) r st'"
    using visit_deps_scans [of plan "dfs_enter d st" "deps_of plan d"] assms v
    by (simp add: dfs_ok_enter edge_def)
  show ?thesis
  proof (cases r)
    case None
    from scanned_leave [OF s [unfolded None] assms(3)] show ?thesis
      using v None assms(2) by (simp add: visit_def)
  qed (use s v in \<open>simp add: visit_def\<close>)
qed

text \<open>Over the plan's nodes: a cycle, or a ranked set holding every visited node.\<close>

lemma visit_nodes_scans:
  assumes "dfs_ok plan st" "dfs_stack st = []"
  shows "case visit_nodes plan ns st of
           Some c \<Rightarrow> dep_cycle plan c
         | None \<Rightarrow> \<exists>B. ranked plan B \<and> blacks st \<union> set ns \<subseteq> B"
  using assms
proof (induction ns arbitrary: st)
  case Nil
  then show ?case by (auto simp: dfs_ok_def)
next
  case (Cons n ns)
  show ?case
  proof (cases "color_of st n = White")
    case True
    obtain r st' where v: "visit plan n st = (r, st')" by (cases "visit plan n st")
    show ?thesis
      using visit_scans [OF Cons.prems True] v True Cons.IH [of st']
      by (cases r) (force split: option.splits)+
  next
    case False
    then have "n \<in> blacks st"
      using Cons.prems by (cases "color_of st n") (auto simp: dfs_ok_def blacks_def)
    then show ?thesis using False Cons.IH [OF Cons.prems] by (auto split: option.splits)
  qed
qed

lemma join_ne: "2 \<le> length c \<Longrightarrow> sep \<noteq> [] \<Longrightarrow> join sep c \<noteq> []"
  by (simp add: join_eq_Nil)

lemma find_cycle_reports:
  "find_cycle plan \<noteq> [] \<Longrightarrow> \<exists>c. dep_cycle plan c \<and> find_cycle plan = join '' -> '' c"
  using visit_nodes_scans [OF dfs_ok_init, of plan "plan_ids plan"]
  by (auto simp: find_cycle_def dfs_init_def split: option.splits)

lemma find_cycle_none:
  assumes "find_cycle plan = []"
  obtains B where "ranked plan B" "set (plan_ids plan) \<subseteq> B"
proof -
  have "visit_nodes plan (plan_ids plan) dfs_init = None"
    using visit_nodes_scans [OF dfs_ok_init, of plan "plan_ids plan"] assms join_ne
    by (force simp: find_cycle_def dfs_init_def dep_cycle_def split: option.splits)
  then show ?thesis
    using visit_nodes_scans [OF dfs_ok_init, of plan "plan_ids plan"] that
    by (force simp: dfs_init_def)
qed

text \<open>A ranked plan has no closed walk.\<close>

lemma ranked_walk:
  assumes r: "\<And>b d. b \<in> B \<Longrightarrow> edge plan b d \<Longrightarrow> d \<in> B \<and> (r d :: nat) < r b"
  shows "successively (edge plan) (x # xs) \<Longrightarrow> x \<in> B \<Longrightarrow> xs \<noteq> [] \<Longrightarrow> r (last xs) < r x"
proof (induction xs arbitrary: x)
  case (Cons y ys)
  then have y: "y \<in> B \<and> r y < r x" using r by simp
  show ?case
  proof (cases "ys = []")
    case False
    with Cons.IH [of y] Cons.prems y have "r (last ys) < r y" by simp
    with y False show ?thesis by simp
  qed (use y in simp)
qed simp

lemma ranked_no_cycle:
  assumes "ranked plan B" "dep_cycle plan c" shows "hd c \<notin> B"
proof
  assume h: "hd c \<in> B"
  obtain x xs where c: "c = x # xs" and ne: "xs \<noteq> []"
    using assms(2) by (cases c; cases "tl c") (auto simp: dep_cycle_def)
  from assms(1) obtain r :: "string \<Rightarrow> nat"
    where "\<And>b d. b \<in> B \<Longrightarrow> edge plan b d \<Longrightarrow> d \<in> B \<and> r d < r b"
    unfolding ranked_def by blast
  from ranked_walk [where x = x and xs = xs, OF this] c ne h assms(2)
  show False by (auto simp: dep_cycle_def)
qed

definition dep_rel :: "fleet_plan \<Rightarrow> (string \<times> string) set" where
  "dep_rel plan = {(x, d). edge plan x d}"

lemma walk_trancl:
  "successively (edge plan) (x # xs) \<Longrightarrow> xs \<noteq> [] \<Longrightarrow> (x, last xs) \<in> (dep_rel plan)\<^sup>+"
proof (induction xs arbitrary: x)
  case (Cons y ys)
  then have e: "(x, y) \<in> dep_rel plan" by (simp add: dep_rel_def)
  show ?case
  proof (cases "ys = []")
    case False
    with Cons have "(y, last ys) \<in> (dep_rel plan)\<^sup>+" by simp
    with e False show ?thesis by (simp add: trancl_into_trancl2)
  qed (use e in simp)
qed simp

lemma cycle_not_acyclic: "dep_cycle plan c \<Longrightarrow> \<not> acyclic (dep_rel plan)"
proof
  assume c: "dep_cycle plan c" and a: "acyclic (dep_rel plan)"
  obtain x xs where "c = x # xs" "xs \<noteq> []"
    using c by (cases c; cases "tl c") (auto simp: dep_cycle_def)
  then have "last xs = x" and "successively (edge plan) (x # xs)"
    using c by (auto simp: dep_cycle_def)
  with walk_trancl [of plan x xs] \<open>xs \<noteq> []\<close> have "(x, x) \<in> (dep_rel plan)\<^sup>+" by simp
  with a show False by (simp add: acyclic_def)
qed

lemma edge_source: "edge plan x d \<Longrightarrow> x \<in> set (plan_ids plan)"
  using deps_of_unknown [of x plan] by (cases "x \<in> universe plan") (auto simp: edge_def universe_def)

lemma ranked_acyclic: "ranked plan B \<Longrightarrow> set (plan_ids plan) \<subseteq> B \<Longrightarrow> acyclic (dep_rel plan)"
proof -
  assume "ranked plan B" and B: "set (plan_ids plan) \<subseteq> B"
  then obtain r :: "string \<Rightarrow> nat"
    where r: "\<And>b d. b \<in> B \<Longrightarrow> edge plan b d \<Longrightarrow> d \<in> B \<and> r d < r b"
    unfolding ranked_def by blast
  have "r d < r x" if "(x, d) \<in> dep_rel plan" for x d
    using that r [of x d] B edge_source [of plan x d] by (auto simp: dep_rel_def)
  then show ?thesis by (rule acyclicI_order)
qed

lemma find_cycle_iff: "find_cycle plan = [] \<longleftrightarrow> acyclic (dep_rel plan)"
  using find_cycle_none ranked_acyclic find_cycle_reports cycle_not_acyclic by metis

section \<open>Well-formed plans\<close>

lemma deps_of_node:
  assumes "distinct (plan_ids plan)" "n \<in> set (fp_nodes plan)"
  shows "deps_of plan (fn_id n) = fn_depends_on n"
proof -
  have "foldl (\<lambda>m n. m(fn_id n \<mapsto> fn_depends_on n)) m0 ns (fn_id n) = Some (fn_depends_on n)"
    if "distinct (map fn_id ns)" "n \<in> set ns" for ns m0
    using that
  proof (induction ns arbitrary: m0)
    case (Cons k ks)
    show ?case
    proof (cases "n \<in> set ks")
      case False
      then have k: "n = k" and nin: "fn_id k \<notin> fn_id ` set ks" using Cons.prems by auto
      have "foldl (\<lambda>m n. m(fn_id n \<mapsto> fn_depends_on n)) m ks x = m x"
        if "x \<notin> fn_id ` set ks" for x m
        using that by (induction ks arbitrary: m) auto
      from this [OF nin] k show ?thesis by (simp del: fun_upd_apply) simp
    qed (use Cons in simp)
  qed simp
  from this [OF assms] show ?thesis by (simp add: deps_of_def deps_map_def lookup_or_def)
qed

text \<open>
  The contract of validation, stated on the nodes themselves: at least one node, unique
  slugs, a prompt for each, every dependency a node of the plan, and no cycle.
\<close>

definition well_formed :: "fleet_plan \<Rightarrow> bool" where
  "well_formed plan =
     (fp_nodes plan \<noteq> [] \<and> distinct (plan_ids plan) \<and>
      (\<forall>n \<in> set (fp_nodes plan).
         node_id_pattern (fn_id n) \<and> \<not> blank (fn_prompt n) \<and>
         set (fn_depends_on n) \<subseteq> set (plan_ids plan)) \<and>
      acyclic {(fn_id n, d) |n d. n \<in> set (fp_nodes plan) \<and> d \<in> set (fn_depends_on n)})"

lemma slug_not_space: "slug_char c \<Longrightarrow> c \<notin> set space_heads \<union> set space_lasts"
proof -
  have "\<forall>c \<in> set (space_heads @ space_lasts). \<not> slug_char c" by code_simp
  then show "slug_char c \<Longrightarrow> c \<notin> set space_heads \<union> set space_lasts" by auto
qed

lemma node_id_trim: "node_id_pattern s \<Longrightarrow> trim_space s = s"
  using slug_not_space by (intro trim_space_id) (auto simp: node_id_pattern_def list_all_iff)

lemma check_nodes_ok:
  "check_nodes ns seen = Inr seen' \<longleftrightarrow>
   seen' = seen \<union> fn_id ` set ns \<and> distinct (map fn_id ns) \<and> seen \<inter> fn_id ` set ns = {} \<and>
   (\<forall>n \<in> set ns. node_id_pattern (fn_id n) \<and> \<not> blank (fn_prompt n))"
proof (induction ns arbitrary: seen)
  case (Cons n ns)
  have "node_id_pattern (fn_id n) \<Longrightarrow> trim_space (fn_id n) \<noteq> []"
    using node_id_trim by (auto simp: node_id_pattern_def)
  with Cons.IH [of "insert (fn_id n) seen"] show ?case
    by (auto simp: blank_def)
qed auto

lemma check_deps_ok: "check_deps seen nid ds = Inr u \<longleftrightarrow> nid \<notin> set ds \<and> set ds \<subseteq> seen"
  by (induction ds) auto

lemma check_edges_ok:
  "check_edges seen ns = Inr u \<longleftrightarrow>
   (\<forall>n \<in> set ns. fn_id n \<notin> set (fn_depends_on n) \<and> set (fn_depends_on n) \<subseteq> seen)"
  by (induction ns) (auto simp: rbind_eq_Inr check_deps_ok)

lemma dep_rel_nodes:
  assumes d: "distinct (plan_ids plan)"
  shows "dep_rel plan = {(fn_id n, d) |n d. n \<in> set (fp_nodes plan) \<and> d \<in> set (fn_depends_on n)}"
    (is "_ = ?R")
proof
  show "dep_rel plan \<subseteq> ?R"
  proof
    fix p assume "p \<in> dep_rel plan"
    then obtain x e where p: "p = (x, e)" and e: "edge plan x e" by (auto simp: dep_rel_def)
    from edge_source [OF e] obtain n where n: "n \<in> set (fp_nodes plan)" "x = fn_id n" by auto
    with e deps_of_node [OF d n(1)] p show "p \<in> ?R" by (auto simp: edge_def)
  qed
  show "?R \<subseteq> dep_rel plan"
    using deps_of_node [OF d] by (auto simp: dep_rel_def edge_def)
qed

lemma validate_plan_iff: "validate_plan plan = Inr () \<longleftrightarrow> well_formed plan"
proof (cases "distinct (plan_ids plan)")
  case True
  have self: "acyclic (dep_rel plan) \<Longrightarrow> n \<in> set (fp_nodes plan) \<Longrightarrow> fn_id n \<notin> set (fn_depends_on n)"
    for n using dep_rel_nodes [OF True] by (auto simp: acyclic_def)
  show ?thesis
    using True self dep_rel_nodes [OF True]
    by (auto simp: validate_plan_def well_formed_def rbind_eq_Inr check_nodes_ok check_edges_ok
        find_cycle_iff)
next
  case False
  then show ?thesis
    by (auto simp: validate_plan_def well_formed_def rbind_eq_Inr check_nodes_ok)
qed

section \<open>Depths\<close>

text \<open>The loop's running maximum, once the memo knows every dependency.\<close>

definition dmax :: "(string \<rightharpoonup> int) \<Rightarrow> int \<Rightarrow> string list \<Rightarrow> int" where
  "dmax memo mx ds = foldl (\<lambda>m d. max m (lookup_or 0 memo d)) mx ds"

lemma dmax_simps [simp]:
  "dmax memo mx [] = mx" "dmax memo mx (d # ds) = dmax memo (max mx (lookup_or 0 memo d)) ds"
  by (simp_all add: dmax_def)

lemma dmax_cong: "(\<And>d. d \<in> set ds \<Longrightarrow> memo d = memo' d) \<Longrightarrow> dmax memo mx ds = dmax memo' mx ds"
  by (induction ds arbitrary: mx) (auto simp: lookup_or_def)

lemma dmax_ge: "mx \<le> dmax memo mx ds"
proof (induction ds arbitrary: mx)
  case (Cons d ds)
  from Cons.IH [of "max mx (lookup_or 0 memo d)"] show ?case by simp
qed simp

lemma dmax_upper: "d \<in> set ds \<Longrightarrow> lookup_or 0 memo d \<le> dmax memo mx ds"
  by (induction ds arbitrary: mx) (auto intro: order_trans [OF _ dmax_ge])

lemma dmax_attained: "dmax memo mx ds = mx \<or> (\<exists>d \<in> set ds. dmax memo mx ds = lookup_or 0 memo d)"
proof (induction ds arbitrary: mx)
  case (Cons d ds)
  from Cons.IH [of "max mx (lookup_or 0 memo d)"] show ?case
    by (auto simp: max_def split: if_splits)
qed simp

lemma if_max [simp]: "(if v > mx then v else mx) = max mx (v :: int)"
  by (simp add: max_def)

text \<open>Every memoised ID has its dependencies memoised, and one more than their maximum.\<close>

definition memo_ok :: "fleet_plan \<Rightarrow> (string \<rightharpoonup> int) \<Rightarrow> bool" where
  "memo_ok plan memo =
     (\<forall>x v. memo x = Some v \<longrightarrow>
        set (deps_of plan x) \<subseteq> dom memo \<and> v = dmax memo (- 1) (deps_of plan x) + 1)"

lemma memo_ok_empty [simp]: "memo_ok plan Map.empty"
  by (simp add: memo_ok_def)

lemma memo_ok_add:
  assumes ok: "memo_ok plan memo" and dom: "set (deps_of plan d) \<subseteq> dom memo"
    and nself: "d \<notin> set (deps_of plan d)"
    and m: "m = dmax memo (- 1) (deps_of plan d)"
  shows "memo_ok plan (memo(d \<mapsto> m + 1))" and "memo \<subseteq>\<^sub>m memo(d \<mapsto> m + 1)"
proof -
  have "memo_ok plan (memo(d \<mapsto> m + 1)) \<and> memo \<subseteq>\<^sub>m memo(d \<mapsto> m + 1)"
  proof (cases "memo d")
    case (Some w)
    with ok m have "w = m + 1" by (auto simp: memo_ok_def)
    with Some have "memo(d \<mapsto> m + 1) = memo" by auto
    with ok show ?thesis by (simp only: map_le_refl)
  next
    case None
    have nd: "d \<notin> set (deps_of plan x)" if "memo x = Some v \<or> x = d" for x v
      using that ok None nself unfolding memo_ok_def by blast
    have "dmax (memo(d \<mapsto> m + 1)) (- 1) (deps_of plan x) = dmax memo (- 1) (deps_of plan x)"
      if "memo x = Some v \<or> x = d" for x v
      using nd [OF that] by (intro dmax_cong) auto
    then have "memo_ok plan (memo(d \<mapsto> m + 1))"
      using ok dom m by (fastforce simp: memo_ok_def)
    moreover have "memo \<subseteq>\<^sub>m memo(d \<mapsto> m + 1)"
      using None by (auto simp: map_le_def)
    ultimately show ?thesis ..
  qed
  then show "memo_ok plan (memo(d \<mapsto> m + 1))" "memo \<subseteq>\<^sub>m memo(d \<mapsto> m + 1)" by auto
qed

lemma depth_deps_returns:
  assumes r: "\<forall>b d. edge plan b d \<longrightarrow> (r d :: nat) < r b"
  shows "(\<forall>d \<in> set ds. r d < n) \<Longrightarrow> memo_ok plan memo \<Longrightarrow>
    \<exists>memo'. depth_deps plan ds mx memo = Some (dmax memo' mx ds, memo') \<and> memo \<subseteq>\<^sub>m memo' \<and>
      memo_ok plan memo' \<and> set ds \<subseteq> dom memo'"
proof (induction n arbitrary: ds mx memo rule: less_induct)
  case (less n)
  from less.prems show ?case
  proof (induction ds arbitrary: mx memo)
    case Nil
    then show ?case by (simp add: depth_deps.simps)
  next
    case (Cons d ds)
    obtain memo1 where step: "depth_deps plan (d # ds) mx memo =
          depth_deps plan ds (max mx (lookup_or 0 memo1 d)) memo1"
      and le1: "memo \<subseteq>\<^sub>m memo1" and ok1: "memo_ok plan memo1" and d1: "d \<in> dom memo1"
    proof (cases "memo d")
      case (Some v)
      then show ?thesis
        using that [of memo] Cons.prems by (simp add: depth_deps.simps [of _ "d # ds"] lookup_or_def domI)
    next
      case None
      have rd: "r d < n" using Cons.prems by simp
      have "\<forall>e \<in> set (deps_of plan d). r e < r d" using r by (simp add: edge_def)
      from less.IH [OF rd this Cons.prems(2), of "- 1"] obtain memo'
        where c: "depth_deps plan (deps_of plan d) (- 1) memo =
              Some (dmax memo' (- 1) (deps_of plan d), memo')"
          and le: "memo \<subseteq>\<^sub>m memo'" and ok: "memo_ok plan memo'"
          and dom: "set (deps_of plan d) \<subseteq> dom memo'"
        by blast
      let ?m = "dmax memo' (- 1) (deps_of plan d)"
      have ns: "d \<notin> set (deps_of plan d)" using r by (auto simp: edge_def)
      note add = memo_ok_add [OF ok dom ns refl]
      show ?thesis
        using that [of "memo'(d \<mapsto> ?m + 1)"] None c add map_le_trans [OF le add(2)]
        by (simp add: depth_deps.simps [of _ "d # ds"] lookup_or_def domI)
    qed
    have "\<forall>d \<in> set ds. r d < n" using Cons.prems by simp
    from Cons.IH [OF this ok1, of "max mx (lookup_or 0 memo1 d)"] obtain memo2
      where c2: "depth_deps plan ds (max mx (lookup_or 0 memo1 d)) memo1 =
            Some (dmax memo2 (max mx (lookup_or 0 memo1 d)) ds, memo2)"
        and le2: "memo1 \<subseteq>\<^sub>m memo2" and ok2: "memo_ok plan memo2" and dom2: "set ds \<subseteq> dom memo2"
      by blast
    from d1 le2 have "memo2 d = memo1 d" by (auto simp: map_le_def dom_def)
    then have "lookup_or 0 memo2 d = lookup_or 0 memo1 d" "d \<in> dom memo2"
      using d1 by (auto simp: lookup_or_def)
    then show ?case
      using step c2 map_le_trans [OF le1 le2] ok2 dom2 by auto
  qed
qed

lemma compute_depth_returns:
  assumes r: "\<forall>b d. edge plan b d \<longrightarrow> (r d :: nat) < r b" and ok: "memo_ok plan memo"
  shows "\<exists>memo'. compute_depth plan x memo = Some (lookup_or 0 memo' x, memo') \<and>
    memo \<subseteq>\<^sub>m memo' \<and> memo_ok plan memo' \<and> x \<in> dom memo'"
proof (cases "memo x")
  case (Some v)
  with ok show ?thesis by (auto simp: compute_depth_def lookup_or_def)
next
  case None
  have "\<forall>e \<in> set (deps_of plan x). r e < r x" using r by (simp add: edge_def)
  from depth_deps_returns [of plan r, OF r this ok, of "- 1"] obtain memo'
    where c: "depth_deps plan (deps_of plan x) (- 1) memo =
          Some (dmax memo' (- 1) (deps_of plan x), memo')"
      and le: "memo \<subseteq>\<^sub>m memo'" and ok': "memo_ok plan memo'"
      and dom: "set (deps_of plan x) \<subseteq> dom memo'"
    by blast
  have ns: "x \<notin> set (deps_of plan x)" using r by (auto simp: edge_def)
  note add = memo_ok_add [OF ok' dom ns refl]
  show ?thesis
    using None c add map_le_trans [OF le add(2)]
    by (intro exI [of _ "memo'(x \<mapsto> dmax memo' (- 1) (deps_of plan x) + 1)"])
      (simp add: compute_depth_def lookup_or_def domI)
qed

lemma compute_all_returns:
  assumes r: "\<forall>b d. edge plan b d \<longrightarrow> (r d :: nat) < r b"
  shows "memo_ok plan memo \<Longrightarrow>
    \<exists>memo'. compute_all plan ns mx memo = Some (dmax memo' mx ns, memo') \<and>
      memo \<subseteq>\<^sub>m memo' \<and> memo_ok plan memo' \<and> set ns \<subseteq> dom memo'"
proof (induction ns arbitrary: mx memo)
  case (Cons n ns)
  from compute_depth_returns [of plan r, OF r Cons.prems, where x = n] obtain memo1
    where c1: "compute_depth plan n memo = Some (lookup_or 0 memo1 n, memo1)"
      and le1: "memo \<subseteq>\<^sub>m memo1" and ok1: "memo_ok plan memo1" and d1: "n \<in> dom memo1"
    by blast
  from Cons.IH [OF ok1, of "max mx (lookup_or 0 memo1 n)"] obtain memo2
    where c2: "compute_all plan ns (max mx (lookup_or 0 memo1 n)) memo1 =
          Some (dmax memo2 (max mx (lookup_or 0 memo1 n)) ns, memo2)"
      and le2: "memo1 \<subseteq>\<^sub>m memo2" and ok2: "memo_ok plan memo2" and dom2: "set ns \<subseteq> dom memo2"
    by blast
  from d1 le2 have "memo2 n = memo1 n" by (auto simp: map_le_def dom_def)
  then show ?case
    using c1 c2 d1 map_le_trans [OF le1 le2] ok2 dom2
    by (intro exI [of _ memo2]) (auto simp: lookup_or_def)
qed simp

text \<open>Placing the IDs fills each layer with the IDs of its depth, in the plan's order.\<close>

lemma place_nodes:
  assumes "\<forall>x \<in> set ns. nat (lookup_or 0 depth x) < length ls"
  shows "length (foldl (place_node depth) ls ns) = length ls \<and>
    (\<forall>i < length ls. foldl (place_node depth) ls ns ! i =
       ls ! i @ filter (\<lambda>x. nat (lookup_or 0 depth x) = i) ns)"
  using assms
proof (induction ns arbitrary: ls)
  case (Cons n ns)
  then have "length (place_node depth ls n) = length ls"
    by (simp add: place_node_def Let_def)
  with Cons.IH [of "place_node depth ls n"] Cons.prems show ?case
    by (auto simp: place_node_def Let_def nth_list_update)
qed simp

text \<open>The layering of a plan from a table of depths, without the loop.\<close>

definition depth_layers :: "(string \<rightharpoonup> int) \<Rightarrow> nat \<Rightarrow> string list \<Rightarrow> string list list" where
  "depth_layers depth k ids =
     map (\<lambda>i. sort (filter (\<lambda>x. nat (lookup_or 0 depth x) = i) ids)) [0..<k]"

lemma topo_layers_depths:
  assumes "well_formed plan"
  obtains depth where
    "memo_ok plan depth" "set (plan_ids plan) \<subseteq> dom depth"
    "topo_layers plan =
       Some (Inr (depth_layers depth (nat (dmax depth 0 (plan_ids plan) + 1)) (plan_ids plan)))"
proof -
  have v: "validate_plan plan = Inr ()" using assms by (simp add: validate_plan_iff)
  then have c: "find_cycle plan = []"
    by (auto simp: validate_plan_def rbind_eq_Inr split: if_splits)
  obtain B where B: "ranked plan B" "set (plan_ids plan) \<subseteq> B" using find_cycle_none [OF c] .
  then obtain r :: "string \<Rightarrow> nat"
    where "\<And>b d. b \<in> B \<Longrightarrow> edge plan b d \<Longrightarrow> d \<in> B \<and> r d < r b"
    unfolding ranked_def by blast
  with B(2) have r: "\<forall>b d. edge plan b d \<longrightarrow> r d < r b" using edge_source by blast
  obtain depth where d: "compute_all plan (plan_ids plan) 0 Map.empty =
        Some (dmax depth 0 (plan_ids plan), depth)"
      "memo_ok plan depth" "set (plan_ids plan) \<subseteq> dom depth"
    using compute_all_returns [of plan r, OF r memo_ok_empty, where mx = 0 and ns = "plan_ids plan"] by blast
  let ?k = "nat (dmax depth 0 (plan_ids plan) + 1)"
  have "\<forall>x \<in> set (plan_ids plan). nat (lookup_or 0 depth x) < ?k"
    using dmax_upper [of _ "plan_ids plan" depth 0] dmax_ge [of 0 depth "plan_ids plan"]
    by fastforce
  then have "map sort_strings (foldl (place_node depth) (replicate ?k []) (plan_ids plan)) =
        depth_layers depth ?k (plan_ids plan)"
    using place_nodes [of "plan_ids plan" depth "replicate ?k []"]
    by (intro nth_equalityI) (auto simp: depth_layers_def)
  with d v that show ?thesis by (simp add: topo_layers_def)
qed

lemma length_depth_layers [simp]: "length (depth_layers depth k ids) = k"
  by (simp add: depth_layers_def)

lemma set_depth_layer:
  "i < k \<Longrightarrow> set (depth_layers depth k ids ! i) = {x \<in> set ids. nat (lookup_or 0 depth x) = i}"
  by (auto simp: depth_layers_def)

lemma set_concat_depth_layers:
  "set (concat (depth_layers depth k ids)) = {x \<in> set ids. nat (lookup_or 0 depth x) < k}"
  by (induction k) (auto simp: depth_layers_def less_Suc_eq)

lemma distinct_depth_layers: "distinct ids \<Longrightarrow> distinct (concat (depth_layers depth k ids))"
proof (induction k)
  case (Suc k)
  have "depth_layers depth (Suc k) ids = depth_layers depth k ids @
          [sort (filter (\<lambda>x. nat (lookup_or 0 depth x) = k) ids)]"
    by (simp add: depth_layers_def)
  moreover have "set (concat (depth_layers depth k ids)) \<inter>
      set (filter (\<lambda>x. nat (lookup_or 0 depth x) = k) ids) = {}"
    by (auto simp only: set_concat_depth_layers set_filter)
  ultimately show ?case using Suc by (simp del: set_concat)
qed (simp add: depth_layers_def)

text \<open>A memoised depth is above those of the dependencies, by exactly one for the deepest.\<close>

lemma memo_depth:
  assumes "memo_ok plan depth" "x \<in> dom depth"
  shows "0 \<le> lookup_or 0 depth x"
    and "edge plan x d \<Longrightarrow> d \<in> dom depth \<and> lookup_or 0 depth d < lookup_or 0 depth x"
    and "0 < lookup_or 0 depth x \<Longrightarrow>
      \<exists>d. edge plan x d \<and> lookup_or 0 depth d = lookup_or 0 depth x - 1"
proof -
  have v: "lookup_or 0 depth x = dmax depth (- 1) (deps_of plan x) + 1"
    and dom: "set (deps_of plan x) \<subseteq> dom depth"
    using assms by (auto simp: memo_ok_def lookup_or_def)
  show "0 \<le> lookup_or 0 depth x"
    using v dmax_ge [of "- 1" depth "deps_of plan x"] by simp
  show "edge plan x d \<Longrightarrow> d \<in> dom depth \<and> lookup_or 0 depth d < lookup_or 0 depth x"
    using v dom dmax_upper [of d "deps_of plan x" depth "- 1"] by (auto simp: edge_def)
  show "0 < lookup_or 0 depth x \<Longrightarrow>
      \<exists>d. edge plan x d \<and> lookup_or 0 depth d = lookup_or 0 depth x - 1"
    using v dmax_attained [of depth "- 1" "deps_of plan x"] by (auto simp: edge_def)
qed

lemma layer_step:
  assumes ok: "memo_ok plan depth" and dom: "set (plan_ids plan) \<subseteq> dom depth"
    and deps: "\<forall>x d. edge plan x d \<longrightarrow> d \<in> set (plan_ids plan)"
    and x: "x \<in> set (depth_layers depth k (plan_ids plan) ! i)" and i: "i < k"
  shows "edge plan x d \<Longrightarrow> \<exists>j < i. d \<in> set (depth_layers depth k (plan_ids plan) ! j)"
    and "i \<noteq> 0 \<Longrightarrow> \<exists>d. edge plan x d \<and> d \<in> set (depth_layers depth k (plan_ids plan) ! (i - 1))"
proof -
  from x i have xs: "x \<in> set (plan_ids plan)" "nat (lookup_or 0 depth x) = i"
    using set_depth_layer [of i k depth "plan_ids plan"] by auto
  with dom have xd: "x \<in> dom depth" by auto
  note mx = memo_depth [OF ok xd]
  { assume e: "edge plan x d"
    with mx(2) dom memo_depth(1) [OF ok, of d] deps
    have "nat (lookup_or 0 depth d) < i" "d \<in> set (plan_ids plan)"
      using xs(2) by fastforce+
    with i show "\<exists>j < i. d \<in> set (depth_layers depth k (plan_ids plan) ! j)"
      by (intro exI [of _ "nat (lookup_or 0 depth d)"]) (simp add: set_depth_layer) }
  { assume "i \<noteq> 0"
    with xs(2) have "0 < lookup_or 0 depth x" by simp
    from mx(3) [OF this] obtain e where "edge plan x e"
        "lookup_or 0 depth e = lookup_or 0 depth x - 1" by blast
    with deps xs(2) have "edge plan x e" "nat (lookup_or 0 depth e) = i - 1" "e \<in> set (plan_ids plan)"
      by auto
    with i show "\<exists>d. edge plan x d \<and> d \<in> set (depth_layers depth k (plan_ids plan) ! (i - 1))"
      by (auto simp: set_depth_layer) }
qed

lemma topo_layers_layers:
  assumes wf: "well_formed plan"
  shows "\<exists>layers. topo_layers plan = Some (Inr layers) \<and>
    distinct (concat layers) \<and> set (concat layers) = set (plan_ids plan) \<and>
    (\<forall>l \<in> set layers. sorted l) \<and>
    (\<forall>i < length layers. \<forall>x \<in> set (layers ! i).
       (\<forall>d \<in> set (deps_of plan x). \<exists>j < i. d \<in> set (layers ! j)) \<and>
       (i \<noteq> 0 \<longrightarrow> (\<exists>d \<in> set (deps_of plan x). d \<in> set (layers ! (i - 1)))))"
proof -
  from topo_layers_depths [OF wf] obtain depth where ok: "memo_ok plan depth"
    and dom: "set (plan_ids plan) \<subseteq> dom depth"
    and t: "topo_layers plan =
       Some (Inr (depth_layers depth (nat (dmax depth 0 (plan_ids plan) + 1)) (plan_ids plan)))" .
  let ?k = "nat (dmax depth 0 (plan_ids plan) + 1)"
  let ?ls = "depth_layers depth ?k (plan_ids plan)"
  have d: "distinct (plan_ids plan)" using wf by (simp add: well_formed_def)
  have known: "\<forall>x d. edge plan x d \<longrightarrow> d \<in> set (plan_ids plan)"
  proof (intro allI impI)
    fix x d assume e: "edge plan x d"
    from edge_source [OF e] obtain n where n: "n \<in> set (fp_nodes plan)" "x = fn_id n" by auto
    with e deps_of_node [OF d n(1)] wf show "d \<in> set (plan_ids plan)" by (auto simp: edge_def well_formed_def)
  qed
  have "nat (lookup_or 0 depth x) < ?k" if "x \<in> set (plan_ids plan)" for x
    using dmax_upper [OF that, of depth 0] dmax_ge [of 0 depth "plan_ids plan"] by linarith
  then have "set (concat ?ls) = set (plan_ids plan)"
    unfolding set_concat_depth_layers by blast
  moreover have "distinct (concat ?ls)" using d by (rule distinct_depth_layers)
  moreover have "\<forall>l \<in> set ?ls. sorted l" by (auto simp: depth_layers_def)
  moreover have "\<forall>i < length ?ls. \<forall>x \<in> set (?ls ! i).
       (\<forall>d \<in> set (deps_of plan x). \<exists>j < i. d \<in> set (?ls ! j)) \<and>
       (i \<noteq> 0 \<longrightarrow> (\<exists>d \<in> set (deps_of plan x). d \<in> set (?ls ! (i - 1))))"
  proof (intro allI impI ballI conjI)
    fix i x assume "i < length ?ls" and x: "x \<in> set (?ls ! i)"
    then have i: "i < ?k" by simp
    note step = layer_step [of plan depth x ?k i, OF ok dom known x i]
    show "\<exists>j < i. d \<in> set (?ls ! j)" if "d \<in> set (deps_of plan x)" for d
      using step(1) [of d] that by (simp add: edge_def)
    show "\<exists>d \<in> set (deps_of plan x). d \<in> set (?ls ! (i - 1))" if "i \<noteq> 0"
      using step(2) that by (auto simp: edge_def)
  qed
  ultimately show ?thesis using t by blast
qed

section \<open>Properties\<close>

text \<open>
  C1: Validation accepts exactly the well-formed plans: at least one node, unique slug IDs,
  a non-blank prompt for each, every dependency a node of the plan, and an acyclic
  dependency relation.
\<close>

theorem validate_plan_exact: "validate_plan plan = Inr () \<longleftrightarrow> well_formed plan"
  by (rule validate_plan_iff)

text \<open>
  The depth-first search decides acyclicity of the dependency relation of any plan
  (unvalidated ones included), and when it reports a cycle the report is the rendering of
  a real closed walk along dependencies.
\<close>

theorem find_cycle_exact:
  "(find_cycle plan = [] \<longleftrightarrow> acyclic (dep_rel plan)) \<and>
   (find_cycle plan = [] \<or> (\<exists>c. dep_cycle plan c \<and> find_cycle plan = join '' -> '' c))"
  using find_cycle_iff find_cycle_reports by blast

text \<open>
  C2: On a plan that validates, the layering returns layers that together hold every node
  exactly once, each sorted; every dependency of a node lies in an earlier layer, and a
  node that is not in the first layer has a dependency in the layer right before its own.
\<close>

theorem topo_layers_correct:
  assumes "validate_plan plan = Inr ()"
  shows "\<exists>layers. topo_layers plan = Some (Inr layers) \<and>
    distinct (concat layers) \<and> set (concat layers) = set (plan_ids plan) \<and>
    (\<forall>l \<in> set layers. sorted l) \<and>
    (\<forall>i < length layers. \<forall>x \<in> set (layers ! i).
       (\<forall>d \<in> set (deps_of plan x). \<exists>j < i. d \<in> set (layers ! j)) \<and>
       (i \<noteq> 0 \<longrightarrow> (\<exists>d \<in> set (deps_of plan x). d \<in> set (layers ! (i - 1)))))"
  using assms by (intro topo_layers_layers) (simp add: validate_plan_iff)

definition diamond :: fleet_plan where
  "diamond =
     \<lparr>fp_goal = ''g'',
      fp_nodes =
        [\<lparr>fn_id = ''d'', fn_prompt = ''D'', fn_depends_on = [''c'', ''b'']\<rparr>,
         \<lparr>fn_id = ''c'', fn_prompt = ''C'', fn_depends_on = [''a'']\<rparr>,
         \<lparr>fn_id = ''b'', fn_prompt = ''B'', fn_depends_on = [''a'']\<rparr>,
         \<lparr>fn_id = ''a'', fn_prompt = ''A'', fn_depends_on = []\<rparr>]\<rparr>"

lemma diamond_layers: "topo_layers diamond = Some (Inr [[''a''], [''b'', ''c''], [''d'']])"
  by code_simp

theorem topo_layers_correct_witness:
  "validate_plan diamond = Inr () \<and> distinct (concat [[''a''], [''b'', ''c''], [''d'']]) \<and>
   set (concat [[''a''], [''b'', ''c''], [''d'']]) = set (plan_ids diamond)"
proof -
  have "validate_plan diamond = Inr ()" by code_simp
  with topo_layers_correct [of diamond] show ?thesis by (simp only: diamond_layers) blast
qed

text \<open>
  C38: The memoised depth recursion of the layering returns for every plan: an invalid plan
  is refused before it starts, and a validated one has no cycle to follow.
\<close>

theorem topo_layers_returns: "topo_layers plan \<noteq> None"
proof (cases "well_formed plan")
  case True
  from topo_layers_layers [OF this] show ?thesis by auto
next
  case False
  then show ?thesis
    using validate_plan_iff [of plan]
    by (cases "validate_plan plan") (auto simp: topo_layers_def)
qed

end
