(* ===== verification/Branch_Names.thy ===== *)
theory Branch_Names
  imports Fleet_Graph
begin

text \<open>
  Branch names and worktree paths: \<open>ValidateBranchName\<close>, \<open>validateGitRefName\<close>,
  \<open>FormatBranchAlias\<close>, \<open>RandomBranchAlias\<close> and \<open>planWorktree\<close> of
  \<open>internal/codereview/domain.go\<close>, and the \<open>filepath.Join\<close> they guard.

  The runes the validation looks for are ASCII, and no byte of a longer rune is, so the scan
  over runes is a scan over bytes.  The random source and the clock are the arguments of the
  alias.  Paths are those of a Unix host, where the separator is the slash.
\<close>

section \<open>Paths\<close>

text \<open>\<open>filepath.IsAbs\<close>, \<open>filepath.Clean\<close> and \<open>filepath.Join\<close> of two elements.\<close>

definition is_abs :: "string \<Rightarrow> bool" where
  "is_abs p = has_prefix p ''/''"

text \<open>The components kept so far, last first.\<close>

definition clean_step :: "bool \<Rightarrow> string list \<Rightarrow> string \<Rightarrow> string list" where
  "clean_step rooted kept c =
     (if c = [] \<or> c = ''.'' then kept
      else if c = ''..'' then
        (case kept of
           [] \<Rightarrow> if rooted then [] else [''..'']
         | k # ks \<Rightarrow> if k = ''..'' then ''..'' # kept else ks)
      else c # kept)"

definition path_parts :: "string \<Rightarrow> string list" where
  "path_parts p = rev (foldl (clean_step (is_abs p)) [] (split_at (CHR ''/'') p))"

definition path_clean :: "string \<Rightarrow> string" where
  "path_clean p =
     (let s = (if is_abs p then ''/'' else []) @ join ''/'' (path_parts p)
      in if s = [] then ''.'' else s)"

definition path_join :: "string \<Rightarrow> string \<Rightarrow> string" where
  "path_join a b =
     (if a = [] \<and> b = [] then []
      else if a = [] then path_clean b
      else if b = [] then path_clean a
      else path_clean (a @ ''/'' @ b))"

section \<open>Validation\<close>

datatype branch_error =
    LeadingDash | AbsolutePath | EdgeSlash | DoubleSlash | TrailingDot | DotDot | AtBrace
  | SingleAt | ControlChar | SpecialChar char | EmptyComponent | DotComponent string
  | LockComponent string

definition special_chars :: "char list" where
  "special_chars =
     [CHR '' '', CHR ''~'', CHR ''^'', CHR '':'', CHR ''?'', CHR ''*'', CHR ''['', CHR 0x5C]"

definition control_char :: "char \<Rightarrow> bool" where
  "control_char c = ((of_char c :: nat) < 32 \<or> (of_char c :: nat) = 127)"

fun check_chars :: "string \<Rightarrow> branch_error + unit" where
  "check_chars [] = Inr ()"
| "check_chars (c # cs) =
     (if control_char c then Inl ControlChar
      else if c \<in> set special_chars then Inl (SpecialChar c)
      else check_chars cs)"

fun check_components :: "string list \<Rightarrow> branch_error + unit" where
  "check_components [] = Inr ()"
| "check_components (c # cs) =
     (if c = [] then Inl EmptyComponent
      else if has_prefix c ''.'' then Inl (DotComponent c)
      else if has_suffix c ''.lock'' then Inl (LockComponent c)
      else check_components cs)"

definition validate_git_ref_name :: "string \<Rightarrow> branch_error + unit" where
  "validate_git_ref_name b =
     (if has_prefix b ''/'' \<or> has_suffix b ''/'' then Inl EdgeSlash
      else if contains b ''//'' then Inl DoubleSlash
      else if has_suffix b ''.'' then Inl TrailingDot
      else if contains b ''..'' then Inl DotDot
      else if contains b [CHR ''@'', CHR 0x7B] then Inl AtBrace
      else if b = ''@'' then Inl SingleAt
      else rbind (check_chars b) (\<lambda>_. check_components (split_at (CHR ''/'') b)))"

definition validate_branch_name :: "string \<Rightarrow> branch_error + unit" where
  "validate_branch_name b =
     (if b = [] then Inr ()
      else if has_prefix b ''-'' then Inl LeadingDash
      else if is_abs b then Inl AbsolutePath
      else validate_git_ref_name b)"

section \<open>Generated aliases\<close>

definition branch_adjectives :: "string list" where
  "branch_adjectives =
     [''dramatic'', ''squishy'', ''jittery'', ''befuddled'', ''overcaffeinated'',
      ''wonky'', ''peculiar'', ''sneezy'', ''bumbling'', ''ridiculous'',
      ''flabbergasted'', ''flaming'', ''waddling'', ''grumpy'', ''sparkly'']"

definition branch_animals :: "string list" where
  "branch_animals =
     [''badger'', ''pangolin'', ''ferret'', ''octopus'', ''capybara'',
      ''gecko'', ''raven'', ''narwhal'', ''mongoose'', ''yak'',
      ''salamander'', ''fox'', ''moose'', ''jellyfish'', ''duck'']"

text \<open>\<open>date.Format("2006-Jan-02")\<close>: the year to four digits, the month's short name, the day to two.\<close>

record date =
  dt_year :: nat
  dt_month :: nat
  dt_day :: nat

definition month_names :: "string list" where
  "month_names = [''Jan'', ''Feb'', ''Mar'', ''Apr'', ''May'', ''Jun'', ''Jul'', ''Aug'', ''Sep'',
     ''Oct'', ''Nov'', ''Dec'']"

definition zero_pad :: "nat \<Rightarrow> nat \<Rightarrow> string" where
  "zero_pad w n = replicate (w - length (itoa_nat n)) (CHR ''0'') @ itoa_nat n"

definition format_date :: "date \<Rightarrow> string" where
  "format_date d = zero_pad 4 (dt_year d) @ ''-'' @ month_names ! (dt_month d - 1) @ ''-'' @
     zero_pad 2 (dt_day d)"

definition format_branch_alias :: "string \<Rightarrow> string \<Rightarrow> date \<Rightarrow> string" where
  "format_branch_alias adjective animal d =
     adjective @ ''-'' @ animal @ ''-'' @ map lower_char (format_date d)"

text \<open>The two draws \<open>rand.Intn\<close> makes are arguments.\<close>

definition random_branch_alias :: "nat \<Rightarrow> nat \<Rightarrow> date \<Rightarrow> string" where
  "random_branch_alias i j d = format_branch_alias (branch_adjectives ! i) (branch_animals ! j) d"

section \<open>The step a worktree needs\<close>

datatype worktree_step = CreateWorktreeStep | AdoptWorktreeStep | RejectWorktreeStep

definition plan_worktree :: "bool \<Rightarrow> nat \<Rightarrow> bool \<Rightarrow> worktree_step" where
  "plan_worktree adoptable attempt_no exists =
     (if \<not> adoptable \<or> \<not> exists then CreateWorktreeStep
      else if attempt_no > 1 then AdoptWorktreeStep
      else RejectWorktreeStep)"

section \<open>Facts\<close>

lemma split_at_append: "split_at sep (a @ sep # b) = split_at sep a @ split_at sep b"
proof (induction a)
  case (Cons c cs)
  obtain w ws where "split_at sep cs = w # ws"
    using split_at_ne by (cases "split_at sep cs") blast+
  with Cons show ?case by simp
qed simp

lemma split_at_parts: "w \<in> set (split_at sep s) \<Longrightarrow> sep \<notin> set w"
proof (induction s arbitrary: w)
  case (Cons c cs)
  obtain v vs where v: "split_at sep cs = v # vs" by (cases "split_at sep cs") auto
  with Cons.IH have "\<And>u. u \<in> set (v # vs) \<Longrightarrow> sep \<notin> set u" by simp
  with Cons.prems v show ?case by (auto split: if_splits)
qed simp

lemma split_join:
  "xs \<noteq> [] \<Longrightarrow> \<forall>x \<in> set xs. sep \<notin> set x \<Longrightarrow> split_at sep (join [sep] xs) = xs"
proof (induction xs rule: list_nonempty_induct)
  case (single x)
  then show ?case by (simp add: split_at_none)
next
  case (cons x xs)
  then obtain y ys where y: "xs = y # ys" by (cases xs) auto
  have "join [sep] (x # xs) = x @ sep # join [sep] xs" using y by simp
  then have "split_at sep (join [sep] (x # xs)) = split_at sep x @ split_at sep (join [sep] xs)"
    by (simp add: split_at_append)
  then show ?case using cons by (simp add: split_at_none)
qed

lemma check_components_ok:
  "check_components cs = Inr u \<longleftrightarrow>
   (\<forall>c \<in> set cs. c \<noteq> [] \<and> \<not> has_prefix c ''.'' \<and> \<not> has_suffix c ''.lock'')"
  by (induction cs) auto

lemma check_chars_ok:
  "check_chars s = Inr u \<longleftrightarrow> (\<forall>c \<in> set s. \<not> control_char c \<and> c \<notin> set special_chars)"
  by (induction s) auto

text \<open>A component that the cleaning keeps as it is.\<close>

definition plain_part :: "string \<Rightarrow> bool" where
  "plain_part c = (c \<noteq> [] \<and> \<not> has_prefix c ''.'')"

lemma clean_plain: "\<forall>c \<in> set cs. plain_part c \<Longrightarrow> foldl (clean_step r) ks cs = rev cs @ ks"
proof (induction cs arbitrary: ks)
  case (Cons c cs)
  have "clean_step r ks c = c # ks"
    using Cons.prems by (auto simp: clean_step_def plain_part_def)
  with Cons show ?case by simp
qed simp

lemma clean_step_free:
  "sep \<notin> set c \<Longrightarrow> \<forall>k \<in> set ks. sep \<notin> set k \<Longrightarrow> sep \<noteq> CHR ''.'' \<Longrightarrow>
   k \<in> set (clean_step r ks c) \<Longrightarrow> sep \<notin> set k"
  by (auto simp: clean_step_def split: if_splits list.splits)

lemma clean_free:
  "\<forall>c \<in> set cs. sep \<notin> set c \<Longrightarrow> \<forall>k \<in> set ks. sep \<notin> set k \<Longrightarrow> sep \<noteq> CHR ''.'' \<Longrightarrow>
   \<forall>k \<in> set (foldl (clean_step r) ks cs). sep \<notin> set k"
proof (induction cs arbitrary: ks)
  case (Cons c cs)
  have "\<forall>k \<in> set (clean_step r ks c). sep \<notin> set k"
    using clean_step_free [of sep c ks] Cons.prems by auto
  with Cons show ?case by simp
qed simp

lemma path_parts_free: "\<forall>k \<in> set (path_parts p). CHR ''/'' \<notin> set k"
  unfolding path_parts_def using clean_free [of "split_at (CHR ''/'') p" "CHR ''/''" "[]"]
  by (auto dest: split_at_parts)

lemma is_abs_append: "a \<noteq> [] \<Longrightarrow> is_abs (a @ b) = is_abs a"
  by (cases a) (simp_all add: is_abs_def)

lemma path_parts_append:
  assumes "a \<noteq> []" "\<forall>c \<in> set (split_at (CHR ''/'') b). plain_part c"
  shows "path_parts (a @ ''/'' @ b) = path_parts a @ split_at (CHR ''/'') b"
proof -
  have "split_at (CHR ''/'') (a @ ''/'' @ b) = split_at (CHR ''/'') a @ split_at (CHR ''/'') b"
    using split_at_append [of "CHR ''/''" a b] by simp
  then show ?thesis using assms by (simp add: path_parts_def clean_plain is_abs_append)
qed

lemma valid_branch_parts:
  assumes "validate_branch_name b = Inr u" "b \<noteq> []"
  shows "\<forall>c \<in> set (split_at (CHR ''/'') b). plain_part c"
  using assms
  by (auto simp: validate_branch_name_def validate_git_ref_name_def rbind_eq_Inr
      check_components_ok plain_part_def split: if_splits)

lemma join_parts_ne: "xs \<noteq> [] \<Longrightarrow> \<forall>x \<in> set xs. x \<noteq> [] \<Longrightarrow> join sep xs \<noteq> []"
  by (auto simp: join_eq_Nil)

lemma worktree_path:
  assumes v: "validate_branch_name b = Inr u" and ne: "b \<noteq> []" "base \<noteq> []"
  shows "path_join base b =
    (if is_abs base then ''/'' else []) @ join ''/'' (path_parts base @ split_at (CHR ''/'') b)"
proof -
  have p: "path_parts (base @ ''/'' @ b) = path_parts base @ split_at (CHR ''/'') b"
    using path_parts_append [OF ne(2) valid_branch_parts [OF v ne(1)]] .
  have "join ''/'' (path_parts base @ split_at (CHR ''/'') b) \<noteq> []"
  proof
    assume "join ''/'' (path_parts base @ split_at (CHR ''/'') b) = []"
    then have "\<forall>x \<in> set (split_at (CHR ''/'') b). x = []" by (simp add: join_eq_Nil)
    moreover have "\<forall>x \<in> set (split_at (CHR ''/'') b). x \<noteq> []"
      using valid_branch_parts [OF v ne(1)] by (auto simp: plain_part_def)
    ultimately show False using split_at_ne [of "CHR ''/''" b] by (metis list.set_intros(1) neq_Nil_conv)
  qed
  then show ?thesis using ne p by (simp add: path_join_def path_clean_def is_abs_append)
qed

text \<open>Names made of slug bytes, with no dash in front, pass every check.\<close>

lemma slug_allowed:
  assumes "slug_char c"
  shows "\<not> control_char c" "c \<notin> set special_chars" "c \<noteq> CHR ''/''" "c \<noteq> CHR ''.''" "c \<noteq> CHR ''@''"
    "c \<noteq> CHR ''{''"
proof -
  have "control_char c \<Longrightarrow> \<not> slug_char c"
    by (auto simp: slug_char_def control_char_def Let_def)
  with assms show "\<not> control_char c" by blast
  have "\<forall>d \<in> set ([CHR ''/'', CHR ''.'', CHR ''@'', CHR ''{''] @ special_chars). \<not> slug_char d"
    by code_simp
  with assms show "c \<notin> set special_chars" "c \<noteq> CHR ''/''" "c \<noteq> CHR ''.''" "c \<noteq> CHR ''@''"
    "c \<noteq> CHR ''{''" by auto
qed

lemma slug_no:
  assumes "list_all slug_char s" "d \<in> {CHR ''/'', CHR ''.'', CHR ''@'', CHR ''{''}"
  shows "d \<notin> set s"
proof
  assume "d \<in> set s"
  with assms(1) have "slug_char d" by (simp add: list_all_iff)
  from slug_allowed(3-6) [OF this] assms(2) show False by auto
qed

lemma slug_name_valid:
  assumes s: "list_all slug_char s" and h: "\<not> has_prefix s ''-''"
  shows "validate_branch_name s = Inr ()"
proof (cases "s = []")
  case True
  then show ?thesis by (simp add: validate_branch_name_def)
next
  case ne: False
  note no = slug_no [OF s]
  have no': "CHR ''/'' \<notin> set s" "CHR ''.'' \<notin> set s" "CHR ''@'' \<notin> set s" using no by simp_all
  have pre: "\<And>c p. c \<notin> set s \<Longrightarrow> \<not> has_prefix s (c # p)" by (auto simp: has_prefix_iff)
  have p: "\<not> has_prefix s ''/''" "\<not> has_prefix s ''.''" using pre no' by blast+
  have sf: "\<And>c p. c \<notin> set s \<Longrightarrow> \<not> has_suffix s (c # p)" by (auto simp: has_suffix_iff)
  have suf: "\<not> has_suffix s ''/''" "\<not> has_suffix s ''.''" "\<not> has_suffix s ''.lock''"
    using sf no' by blast+
  have cn: "\<And>c p. c \<notin> set s \<Longrightarrow> \<not> contains s (c # p)" by (auto simp: contains_iff)
  have con: "\<not> contains s ''//''" "\<not> contains s ''..''" "\<not> contains s [CHR ''@'', CHR 0x7B]" "s \<noteq> ''@''"
    using cn no' by (blast, blast, blast) (use no' in auto)
  have "split_at (CHR ''/'') s = [s]" using no by (simp add: split_at_none)
  then have "check_components (split_at (CHR ''/'') s) = Inr ()" using ne p suf by simp
  moreover have "check_chars s = Inr ()"
    using s slug_allowed by (auto simp: check_chars_ok list_all_iff)
  ultimately have "validate_git_ref_name s = Inr ()"
    using p suf con by (simp add: validate_git_ref_name_def)
  then show ?thesis using ne h p by (simp add: validate_branch_name_def is_abs_def)
qed

lemma slug_digit: "is_digit c \<Longrightarrow> slug_char c"
  by (auto simp: slug_char_def is_digit_def Let_def)

lemma slug_lower: "slug_char c \<Longrightarrow> slug_char (lower_char c)"
  by (auto simp: slug_char_def lower_char_def Let_def)

lemma slug_zero_pad: "list_all slug_char (zero_pad w n)"
proof -
  have "slug_char (CHR ''0'')" by code_simp
  then show ?thesis
    by (auto simp: zero_pad_def list_all_iff intro: slug_digit dest: itoa_nat_digits)
qed

lemma slug_dash: "list_all slug_char ''-''"
  by code_simp

lemma slug_date: "0 < dt_month d \<Longrightarrow> dt_month d \<le> 12 \<Longrightarrow> list_all slug_char (format_date d)"
proof -
  assume "0 < dt_month d" "dt_month d \<le> 12"
  then have "month_names ! (dt_month d - 1) \<in> set month_names"
    by (intro nth_mem) (simp add: month_names_def)
  moreover have "\<forall>m \<in> set month_names. list_all slug_char m" by code_simp
  ultimately have "list_all slug_char (month_names ! (dt_month d - 1))" by blast
  then show ?thesis
    unfolding format_date_def list_all_append using slug_dash slug_zero_pad by blast
qed

section \<open>Properties\<close>

text \<open>
  C31: A worktree cannot leave its base directory.  For every branch name the validation lets
  through, the path \<open>filepath.Join(base, branch)\<close> is the cleaned base followed by exactly the
  branch's own components: none is dropped, resolved or collapsed.
\<close>

theorem worktree_path_contained:
  assumes "validate_branch_name b = Inr ()" "b \<noteq> []" "base \<noteq> []"
  shows "path_join base b =
    (if is_abs base then ''/'' else []) @ join ''/'' (path_parts base @ split_at (CHR ''/'') b)"
  by (rule worktree_path [OF assms])

theorem worktree_path_contained_witness:
  "path_join ''/w/./trees'' ''feat/x'' = ''/w/trees/feat/x''"
proof -
  have v: "validate_branch_name ''feat/x'' = Inr ()" by code_simp
  have "path_join ''/w/./trees'' ''feat/x'' =
      (if is_abs ''/w/./trees'' then ''/'' else []) @
      join ''/'' (path_parts ''/w/./trees'' @ split_at (CHR ''/'') ''feat/x'')"
    by (rule worktree_path_contained) (use v in simp_all)
  also have "\<dots> = ''/w/trees/feat/x''" by code_simp
  finally show ?thesis .
qed

text \<open>
  Two branch names the validation lets through never share a worktree path, so a worktree
  found at a branch's path was made for that branch.
\<close>

theorem worktree_paths_distinct:
  assumes "validate_branch_name b = Inr ()" "b \<noteq> []" "validate_branch_name b' = Inr ()" "b' \<noteq> []"
    and "base \<noteq> []" "path_join base b = path_join base b'"
  shows "b = b'"
proof -
  let ?j = "\<lambda>x. join ''/'' (path_parts base @ split_at (CHR ''/'') x)"
  have u: "split_at (CHR ''/'') (?j x) = path_parts base @ split_at (CHR ''/'') x" for x
  proof (rule split_join)
    show "\<forall>k \<in> set (path_parts base @ split_at (CHR ''/'') x). CHR ''/'' \<notin> set k"
      unfolding set_append ball_Un
      by (intro conjI path_parts_free ballI) (rule split_at_parts)
  qed simp
  have "(if is_abs base then ''/'' else []) @ ?j b = (if is_abs base then ''/'' else []) @ ?j b'"
    using worktree_path [OF assms(1,2,5)] worktree_path [OF assms(3,4,5)] assms(6) by (simp only:)
  then have "?j b = ?j b'" by (simp only: same_append_eq)
  then have "split_at (CHR ''/'') (?j b) = split_at (CHR ''/'') (?j b')" by (simp only:)
  then have "split_at (CHR ''/'') b = split_at (CHR ''/'') b'" by (simp only: u same_append_eq)
  then have "join ''/'' (split_at (CHR ''/'') b) = join ''/'' (split_at (CHR ''/'') b')" by (simp only:)
  then show ?thesis by (simp only: join_split_at)
qed

theorem worktree_paths_distinct_witness:
  "path_join ''/w/trees'' ''feat/x'' \<noteq> path_join ''/w/trees'' ''feat-x''"
proof
  have v: "validate_branch_name ''feat/x'' = Inr ()" "validate_branch_name ''feat-x'' = Inr ()"
    by code_simp+
  assume "path_join ''/w/trees'' ''feat/x'' = path_join ''/w/trees'' ''feat-x''"
  from worktree_paths_distinct [OF v(1) _ v(2) _ _ this] show False by simp
qed

text \<open>
  Every alias the generator can draw, for any adjective, animal and date, is a name the
  branch validation accepts.
\<close>

theorem aliases_are_valid:
  assumes "i < length branch_adjectives" "j < length branch_animals"
    and "0 < dt_month d" "dt_month d \<le> 12"
  shows "validate_branch_name (random_branch_alias i j d) = Inr ()"
proof -
  let ?a = "branch_adjectives ! i"
  have "\<forall>a \<in> set branch_adjectives. list_all slug_char a \<and> a \<noteq> [] \<and> \<not> has_prefix a ''-''"
    by code_simp
  with assms(1) have a: "list_all slug_char ?a" "?a \<noteq> []" "\<not> has_prefix ?a ''-''"
    using nth_mem by blast+
  have "\<forall>a \<in> set branch_animals. list_all slug_char a" by code_simp
  with assms(2) have b: "list_all slug_char (branch_animals ! j)" using nth_mem by blast
  have c: "list_all slug_char (map lower_char (format_date d))"
    using slug_date [OF assms(3,4)] slug_lower by (auto simp: list_all_iff)
  have "list_all slug_char (random_branch_alias i j d)"
    unfolding random_branch_alias_def format_branch_alias_def list_all_append
    using a(1) b c slug_dash by blast
  moreover have "\<not> has_prefix (random_branch_alias i j d) ''-''"
    using a(2,3) by (cases ?a) (simp_all add: random_branch_alias_def format_branch_alias_def)
  ultimately show ?thesis by (rule slug_name_valid)
qed

theorem aliases_are_valid_witness:
  "validate_branch_name ''flaming-duck-2026-jul-29'' = Inr ()"
proof -
  let ?d = "\<lparr>dt_year = 2026, dt_month = 7, dt_day = 29\<rparr>"
  have "random_branch_alias 11 14 ?d = ''flaming-duck-2026-jul-29''" by code_simp
  moreover have "validate_branch_name (random_branch_alias 11 14 ?d) = Inr ()"
    by (rule aliases_are_valid) (simp_all add: branch_adjectives_def branch_animals_def)
  ultimately show ?thesis by simp
qed

text \<open>
  The branch the fleet names for a node of a validated plan is a name the develop flow
  accepts, when the fleet's own ID is made of letters, digits, underscores and dashes and does
  not begin with a dash.
\<close>

theorem node_branches_are_valid:
  assumes "validate_plan plan = Inr ()" "n \<in> set (fp_nodes plan)"
    and "node_id_pattern fleet_id" "\<not> has_prefix fleet_id ''-''"
  shows "validate_branch_name (node_branch fleet_id (fn_id n)) = Inr ()"
proof (rule slug_name_valid)
  have "list_all slug_char (fn_id n)"
    using assms(1,2) by (auto simp: validate_plan_iff well_formed_def node_id_pattern_def)
  then show "list_all slug_char (node_branch fleet_id (fn_id n))"
    unfolding node_branch_def list_all_append
    using assms(3) slug_dash by (auto simp: node_id_pattern_def)
  show "\<not> has_prefix (node_branch fleet_id (fn_id n)) ''-''"
    using assms(3,4) by (cases fleet_id) (auto simp: node_branch_def node_id_pattern_def)
qed

theorem node_branches_are_valid_witness:
  "validate_branch_name (node_branch ''fleet-7'' ''d'') = Inr ()"
proof -
  have "validate_plan diamond = Inr ()" by code_simp
  moreover have "hd (fp_nodes diamond) \<in> set (fp_nodes diamond)" "fn_id (hd (fp_nodes diamond)) = ''d''"
    by (simp_all add: diamond_def)
  moreover have "node_id_pattern ''fleet-7''" "\<not> has_prefix ''fleet-7'' ''-''" by code_simp+
  ultimately show ?thesis
    using node_branches_are_valid [of diamond "hd (fp_nodes diamond)" "''fleet-7''"] by simp
qed

end
