(* ===== verification/Fleet_Text.thy ===== *)
theory Fleet_Text
  imports Fleet_Graph
begin

text \<open>
  The text the fleet reads and writes (\<open>internal/fleet/domain.go\<close>): token totals parsed out
  of a child's summary, thousands grouping, the pull-request link of a summary, the JSON
  object in an agent's answer, and the run's aggregated summary.

  Each regular expression is a hand-written matcher tried at every position from the left.
  In the token pattern every repetition is followed by a character its class excludes, so
  there is no backtracking; in the link pattern the greedy middle part gives back characters
  until \<open>/pull/\<close> and a digit follow, which is the search from the longest candidate down.

  Go's \<open>int\<close> is modelled by \<^typ>\<open>int\<close>; the one place where its range decides a result,
  \<open>strconv.Atoi\<close>, checks it.
\<close>

section \<open>Results of nodes\<close>

datatype node_status = NodeSucceeded | NodeFailed | NodeBlocked | NodeSkipped

fun node_status_text :: "node_status \<Rightarrow> string" where
  "node_status_text NodeSucceeded = ''succeeded''"
| "node_status_text NodeFailed = ''failed''"
| "node_status_text NodeBlocked = ''blocked''"
| "node_status_text NodeSkipped = ''skipped''"

record node_result =
  nr_id :: string
  nr_status :: node_status
  nr_detail :: string
  nr_tokens :: int

section \<open>Token totals\<close>

text \<open>The class \<open>\s\<close> of Go's regular expressions.\<close>

definition re_space :: "char \<Rightarrow> bool" where
  "re_space c = (c \<in> {CHR 0x09, CHR 0x0A, CHR 0x0C, CHR 0x0D, CHR 0x20})"

definition digit_or_comma :: "char \<Rightarrow> bool" where
  "digit_or_comma c = (is_digit c \<or> c = CHR '','')"

definition match_token_total :: "string \<Rightarrow> string option" where
  "match_token_total s =
     (case strip_prefix ''token usage'' s of
        None \<Rightarrow> None
      | Some r \<Rightarrow>
          (case dropWhile (\<lambda>c. c \<noteq> CHR '':'') r of
             [] \<Rightarrow> None
           | _ # t \<Rightarrow>
               (let t = dropWhile re_space t;
                    d = takeWhile digit_or_comma t;
                    t = dropWhile re_space (dropWhile digit_or_comma t)
                in if d \<noteq> [] \<and> has_prefix t ''tokens'' then Some d else None)))"

fun find_token_total :: "string \<Rightarrow> string option" where
  "find_token_total [] = match_token_total []"
| "find_token_total (c # cs) =
     (case match_token_total (c # cs) of Some d \<Rightarrow> Some d | None \<Rightarrow> find_token_total cs)"

text \<open>\<open>strconv.Atoi\<close> on a string of digits.\<close>

definition max_int64 :: nat where
  "max_int64 = 9223372036854775807"

definition atoi_digits :: "string \<Rightarrow> int option" where
  "atoi_digits s =
     (if s = [] then None
      else if digits_value s > max_int64 then None
      else Some (int (digits_value s)))"

definition parse_token_total :: "string \<Rightarrow> int" where
  "parse_token_total summary =
     (case find_token_total summary of
        None \<Rightarrow> 0
      | Some d \<Rightarrow>
          (case atoi_digits (filter (\<lambda>c. c \<noteq> CHR '','') d) of
             None \<Rightarrow> 0
           | Some n \<Rightarrow> n))"

definition group_digits :: "string \<Rightarrow> string" where
  "group_digits s =
     concat (map (\<lambda>i. (if 0 < i \<and> (length s - i) mod 3 = 0 then '','' else []) @ [s ! i])
       [0..<length s])"

definition group_thousands :: "int \<Rightarrow> string" where
  "group_thousands n =
     (let s = itoa n;
          (neg, s) = (if n < 0 then (''-'', tl s) else ([], s))
      in neg @ group_digits s)"

section \<open>The pull-request link\<close>

definition url_char :: "char \<Rightarrow> bool" where
  "url_char c = (\<not> re_space c \<and> c \<noteq> CHR '')'')"

definition pull_follows :: "string \<Rightarrow> bool" where
  "pull_follows t =
     (case strip_prefix ''/pull/'' t of
        None \<Rightarrow> False
      | Some r \<Rightarrow> (case r of [] \<Rightarrow> False | d # _ \<Rightarrow> is_digit d))"

definition match_pr_url :: "string \<Rightarrow> string option" where
  "match_pr_url s =
     (case strip_prefix ''https://github.com/'' s of
        None \<Rightarrow> None
      | Some t \<Rightarrow>
          (case find (\<lambda>i. pull_follows (drop i t)) (rev [1..<Suc (length (takeWhile url_char t))]) of
             None \<Rightarrow> None
           | Some i \<Rightarrow> Some (''https://github.com/'' @ take i t @ ''/pull/'' @
               takeWhile is_digit (drop (i + 6) t))))"

fun extract_pr_url :: "string \<Rightarrow> string" where
  "extract_pr_url [] = []"
| "extract_pr_url (c # cs) =
     (case match_pr_url (c # cs) of Some u \<Rightarrow> u | None \<Rightarrow> extract_pr_url cs)"

section \<open>The run's summary\<close>

definition result_line :: "node_result \<Rightarrow> string" where
  "result_line r =
     ''  - '' @ nr_id r @ '': '' @ node_status_text (nr_status r) @
     (if nr_status r = NodeSkipped \<and> trim_space (nr_detail r) \<noteq> [] then
        '' ('' @ trim_space (trim_prefix (trim_space (nr_detail r)) ''skipped:'') @ '')''
      else
        (let url = extract_pr_url (nr_detail r) in
         if url \<noteq> [] then '' ('' @ url @ '')'' else [])) @ nl"

definition count_status :: "node_status \<Rightarrow> node_result list \<Rightarrow> int" where
  "count_status st rs = int (length (filter (\<lambda>r. nr_status r = st) rs))"

definition summarize_fleet :: "string \<Rightarrow> node_result list \<Rightarrow> string" where
  "summarize_fleet goal rs =
     ''Fleet run complete.'' @ nl @
     (let g = trim_space goal in if g \<noteq> [] then ''Goal: '' @ g @ nl else []) @
     nl @ ''Per-node status:'' @ nl @ concat (map result_line rs) @
     nl @ itoa (int (length rs)) @ '' node(s): '' @
     itoa (count_status NodeSucceeded rs) @ '' succeeded, '' @
     itoa (count_status NodeFailed rs) @ '' failed, '' @
     itoa (count_status NodeBlocked rs) @ '' blocked, '' @
     itoa (count_status NodeSkipped rs) @ '' skipped.'' @ nl @
     ''Develop-step token usage across all nodes: '' @
     group_thousands (sum_list (map nr_tokens rs)) @
     '' tokens. The review and pilot stages report their own token totals separately.''"

section \<open>The plan in an agent's answer\<close>

text \<open>
  The loop of \<open>extractJSONObject\<close> from the first brace: the text up to the brace that brings
  the depth back to zero, braces inside JSON strings not counted.
\<close>

fun json_end :: "int \<Rightarrow> bool \<Rightarrow> bool \<Rightarrow> string \<Rightarrow> string option" where
  "json_end depth in_string escaped [] = None"
| "json_end depth in_string escaped (c # cs) =
     (if in_string then
        (if escaped then map_option ((#) c) (json_end depth True False cs)
         else if c = CHR 0x5C then map_option ((#) c) (json_end depth True True cs)
         else if c = CHR 0x22 then map_option ((#) c) (json_end depth False False cs)
         else map_option ((#) c) (json_end depth True False cs))
      else if c = CHR 0x22 then map_option ((#) c) (json_end depth True escaped cs)
      else if c = CHR ''{'' then map_option ((#) c) (json_end (depth + 1) False escaped cs)
      else if c = CHR ''}'' then
        (if depth - 1 = 0 then Some [c]
         else map_option ((#) c) (json_end (depth - 1) False escaped cs))
      else map_option ((#) c) (json_end depth False escaped cs))"

definition extract_json_object :: "string \<Rightarrow> string" where
  "extract_json_object s =
     (case dropWhile (\<lambda>c. c \<noteq> CHR ''{'') s of
        [] \<Rightarrow> []
      | t \<Rightarrow> (case json_end 0 False False t of None \<Rightarrow> [] | Some r \<Rightarrow> r))"

section \<open>Facts\<close>

subsection \<open>Thousands grouping\<close>

lemma filter_group_digits: "CHR '','' \<notin> set s \<Longrightarrow> filter (\<lambda>c. c \<noteq> CHR '','') (group_digits s) = s"
proof -
  assume "CHR '','' \<notin> set s"
  then have "s ! i \<noteq> CHR '',''" if "i < length s" for i using that nth_mem by metis
  then have "map (\<lambda>i. filter (\<lambda>c. c \<noteq> CHR '','')
          ((if 0 < i \<and> (length s - i) mod 3 = 0 then '','' else []) @ [s ! i])) [0..<length s] =
        map (\<lambda>i. [s ! i]) [0..<length s]"
    by (intro map_cong) auto
  then have "filter (\<lambda>c. c \<noteq> CHR '','') (group_digits s) = concat (map (\<lambda>i. [s ! i]) [0..<length s])"
    by (simp only: group_digits_def filter_concat map_map comp_def)
  also have "\<dots> = map ((!) s) [0..<length s]" by (induction "[0..<length s]") auto
  finally show ?thesis by (simp add: map_nth)
qed

lemma set_group_digits: "set (group_digits s) \<subseteq> insert (CHR '','') (set s)"
  by (auto simp: group_digits_def split: if_splits)

lemma comma_not_digit: "\<not> is_digit (CHR '','')"
  by (simp add: is_digit_def)

lemma group_digits_class: "\<forall>c \<in> set s. is_digit c \<Longrightarrow> \<forall>c \<in> set (group_digits s). digit_or_comma c"
  using set_group_digits [of s] by (auto simp: digit_or_comma_def)

lemma itoa_nat_no_comma: "CHR '','' \<notin> set (itoa_nat n)"
  using itoa_nat_digits comma_not_digit by blast

lemma group_thousands_nat:
  "0 \<le> n \<Longrightarrow> group_thousands n = group_digits (itoa_nat (nat n))"
  by (simp add: group_thousands_def itoa_def)

lemma atoi_itoa: "n \<le> max_int64 \<Longrightarrow> atoi_digits (itoa_nat n) = Some (int n)"
  by (simp add: atoi_digits_def)

subsection \<open>The token line\<close>

text \<open>The literal of the pattern has no border, so it cannot straddle the start of itself.\<close>

lemma prefix_within: "u @ x = w @ r \<Longrightarrow> length w \<le> length u \<Longrightarrow> \<exists>t. u = w @ t"
  by (metis append_eq_append_conv_if append_take_drop_id)

lemma first_char_only_first:
  "0 < i \<Longrightarrow> i < length ''token usage'' \<Longrightarrow> ''token usage'' ! i \<noteq> CHR ''t''"
proof -
  have "\<forall>i \<in> {1..<11}. ''token usage'' ! i \<noteq> CHR ''t''" by code_simp
  then show "0 < i \<Longrightarrow> i < length ''token usage'' \<Longrightarrow> ''token usage'' ! i \<noteq> CHR ''t''" by simp
qed

lemma no_straddle:
  assumes "has_prefix (u @ ''token usage'' @ v) ''token usage''" "u \<noteq> []"
  shows "contains u ''token usage''"
proof -
  define w where "w = ''token usage''"
  obtain r where r: "u @ w @ v = w @ r"
    using assms(1) by (auto simp: has_prefix_iff w_def)
  have "length w \<le> length u"
  proof (rule ccontr)
    assume l: "\<not> length w \<le> length u"
    have "(u @ w @ v) ! length u = CHR ''t''" by (simp add: nth_append w_def)
    then have "w ! length u = CHR ''t''" using l by (simp only: r nth_append) simp
    with l assms(2) show False
      unfolding w_def using first_char_only_first [of "length u"] by auto
  qed
  from prefix_within [OF r this] obtain t where "u = w @ t" ..
  then have "u = [] @ w @ t" by simp
  then show ?thesis unfolding w_def contains_iff by blast
qed

lemma match_token_total_prefix: "match_token_total s = Some d \<Longrightarrow> has_prefix s ''token usage''"
  by (auto simp: match_token_total_def has_prefix_def split: option.splits)

lemma match_token_total_line:
  assumes "CHR '':'' \<notin> set mid" "ds \<noteq> []" "\<forall>c \<in> set ds. digit_or_comma c"
  shows "match_token_total (''token usage'' @ mid @ '': '' @ ds @ '' tokens'' @ post) = Some ds"
proof -
  have m: "dropWhile (\<lambda>c. c \<noteq> CHR '':'') (mid @ '': '' @ ds @ '' tokens'' @ post) =
        '': '' @ ds @ '' tokens'' @ post"
    using assms(1) by (induction mid) auto
  have n: "\<not> re_space (hd ds)" "\<not> digit_or_comma (CHR '' '')"
    using assms(2,3) by (auto simp: re_space_def digit_or_comma_def is_digit_def neq_Nil_conv)
  have t: "takeWhile digit_or_comma (ds @ '' tokens'' @ post) = ds"
    "dropWhile digit_or_comma (ds @ '' tokens'' @ post) = '' tokens'' @ post"
    using assms(3) n(2) by (simp_all add: takeWhile_append2 dropWhile_append2)
  have d: "dropWhile re_space ('' '' @ ds @ '' tokens'' @ post) = ds @ '' tokens'' @ post"
    using n(1) assms(2) by (cases ds) (auto simp: re_space_def)
  show ?thesis
    using m t d assms(2)
    by (simp add: match_token_total_def Let_def re_space_def)
qed

lemma find_token_total_skip:
  assumes "\<not> contains pre ''token usage''" "match_token_total (''token usage'' @ v) = Some d"
  shows "find_token_total (pre @ ''token usage'' @ v) = Some d"
  using assms(1)
proof (induction pre)
  case Nil
  then show ?case using assms(2) by simp
next
  case (Cons c cs)
  have "match_token_total (c # cs @ ''token usage'' @ v) = None"
  proof (rule ccontr)
    assume "match_token_total (c # cs @ ''token usage'' @ v) \<noteq> None"
    then obtain e where "match_token_total ((c # cs) @ ''token usage'' @ v) = Some e"
      by (auto simp only: append_Cons)
    from no_straddle [OF match_token_total_prefix [OF this]] Cons.prems show False by blast
  qed
  moreover have "\<not> contains cs ''token usage''" using Cons.prems by simp
  ultimately show ?case using Cons.IH by simp
qed

lemma parse_token_line:
  assumes "\<not> contains pre ''token usage''" "CHR '':'' \<notin> set mid" "0 \<le> n" "n \<le> int max_int64"
  shows "parse_token_total (pre @ ''token usage'' @ mid @ '': '' @ group_thousands n @ '' tokens'' @ post)
         = n"
proof -
  let ?g = "group_digits (itoa_nat (nat n))"
  have "filter (\<lambda>c. c \<noteq> CHR '','') ?g = itoa_nat (nat n)"
    by (rule filter_group_digits [OF itoa_nat_no_comma])
  moreover from this have "?g \<noteq> []" by (metis filter.simps(1) itoa_nat_ne)
  moreover have "\<forall>c \<in> set ?g. digit_or_comma c"
    using itoa_nat_digits by (intro group_digits_class) blast
  ultimately show ?thesis
    using assms find_token_total_skip [OF assms(1) match_token_total_line [OF assms(2)]]
    by (simp add: parse_token_total_def group_thousands_nat atoi_itoa)
qed

subsection \<open>The JSON object\<close>

text \<open>The characters outside JSON string literals, and the brace depth they leave.\<close>

fun json_outside :: "bool \<Rightarrow> bool \<Rightarrow> string \<Rightarrow> string" where
  "json_outside in_string escaped [] = []"
| "json_outside True escaped (c # cs) =
     (if escaped then json_outside True False cs
      else if c = CHR 0x5C then json_outside True True cs
      else if c = CHR 0x22 then json_outside False False cs
      else json_outside True False cs)"
| "json_outside False escaped (c # cs) =
     (if c = CHR 0x22 then json_outside True escaped cs
      else c # json_outside False escaped cs)"

definition brace_count :: "string \<Rightarrow> int" where
  "brace_count s = int (count_list s (CHR ''{'')) - int (count_list s (CHR ''}''))"

definition json_depth :: "bool \<Rightarrow> bool \<Rightarrow> string \<Rightarrow> int" where
  "json_depth ins esc s = brace_count (json_outside ins esc s)"

text \<open>An object: it opens with a brace, and its depth returns to zero exactly at its end.\<close>

definition balanced_object :: "string \<Rightarrow> bool" where
  "balanced_object r =
     (has_prefix r ''{'' \<and> json_depth False False r = 0 \<and>
      (\<forall>p q. r = p @ q \<and> p \<noteq> [] \<and> q \<noteq> [] \<longrightarrow> 0 < json_depth False False p))"

lemma json_depth_Nil [simp]: "json_depth ins esc [] = 0"
  by (simp add: json_depth_def brace_count_def)

lemma json_depth_string:
  "json_depth True esc (c # cs) =
     (if esc then json_depth True False cs
      else if c = CHR 0x5C then json_depth True True cs
      else if c = CHR 0x22 then json_depth False False cs
      else json_depth True False cs)"
  by (simp add: json_depth_def)

lemma json_depth_outside:
  "json_depth False esc (c # cs) =
     (if c = CHR 0x22 then json_depth True esc cs
      else (if c = CHR ''{'' then 1 else if c = CHR ''}'' then - 1 else 0) + json_depth False esc cs)"
  by (simp add: json_depth_def brace_count_def)

definition closes :: "int \<Rightarrow> bool \<Rightarrow> bool \<Rightarrow> string \<Rightarrow> bool" where
  "closes d ins esc r =
     (d + json_depth ins esc r = 0 \<and>
      (\<forall>p q. r = p @ q \<longrightarrow> q \<noteq> [] \<longrightarrow> 0 < d + json_depth ins esc p))"

lemma closes_Nil [simp]: "0 < d \<Longrightarrow> \<not> closes d ins esc []"
  by (simp add: closes_def)

lemma closes_Cons:
  assumes "0 < d" and depth: "\<And>p. json_depth ins esc (c # p) = k + json_depth ins' esc' p"
  shows "closes d ins esc (c # r) \<longleftrightarrow>
    (if d + k = 0 then r = [] else 0 < d + k \<and> closes (d + k) ins' esc' r)"
proof -
  define above where "above = (\<forall>p q. r = p @ q \<longrightarrow> q \<noteq> [] \<longrightarrow> 0 < d + k + json_depth ins' esc' p)"
  have "(\<forall>p q. c # r = p @ q \<longrightarrow> q \<noteq> [] \<longrightarrow> 0 < d + json_depth ins esc p) \<longleftrightarrow> above"
    (is "?l \<longleftrightarrow> _")
  proof
    assume ?l
    show above
      unfolding above_def
    proof (intro allI impI)
      fix p q assume "r = p @ q" "q \<noteq> []"
      then have "c # r = (c # p) @ q" by simp
      with \<open>?l\<close> \<open>q \<noteq> []\<close> have "0 < d + json_depth ins esc (c # p)" by blast
      then show "0 < d + k + json_depth ins' esc' p" by (simp add: depth)
    qed
  next
    assume above
    show ?l
    proof (intro allI impI)
      fix p q assume "c # r = p @ q" "q \<noteq> []"
      then show "0 < d + json_depth ins esc p"
        using \<open>above\<close> assms by (cases p) (auto simp: algebra_simps above_def)
    qed
  qed
  then have l: "closes d ins esc (c # r) \<longleftrightarrow> d + k + json_depth ins' esc' r = 0 \<and> above"
    by (simp add: closes_def depth add.assoc)
  have r: "closes (d + k) ins' esc' r \<longleftrightarrow> d + k + json_depth ins' esc' r = 0 \<and> above"
    by (simp add: closes_def above_def)
  have here: "above \<Longrightarrow> r \<noteq> [] \<Longrightarrow> 0 < d + k"
    unfolding above_def by (drule spec [of _ "[]"]) simp
  have empty: "r = [] \<Longrightarrow> above" by (simp add: above_def)
  show ?thesis
    unfolding l r using here empty by (cases "r = []") auto
qed

lemma json_end_step:
  assumes e: "json_end d ins esc (c # cs) =
      (if d + k = 0 then Some [c] else map_option ((#) c) (json_end (d + k) ins' esc' cs))"
    and depth: "\<And>p. json_depth ins esc (c # p) = k + json_depth ins' esc' p"
    and IH: "\<And>r. 0 < d + k \<Longrightarrow> json_end (d + k) ins' esc' cs = Some r \<longleftrightarrow>
      (\<exists>post. cs = r @ post) \<and> closes (d + k) ins' esc' r"
    and d: "0 < d" "0 \<le> d + k"
  shows "json_end d ins esc (c # cs) = Some r \<longleftrightarrow>
    (\<exists>post. c # cs = r @ post) \<and> closes d ins esc r"
proof (cases r)
  case Nil
  then show ?thesis unfolding e using d by simp
next
  case (Cons x xs)
  have pre: "(\<exists>post. c # cs = (x # xs) @ post) \<longleftrightarrow> x = c \<and> (\<exists>post. cs = xs @ post)" by auto
  note cl = closes_Cons [OF d(1) depth, of xs]
  show ?thesis
  proof (cases "d + k = 0")
    case True
    then show ?thesis unfolding e Cons pre using cl by (cases xs) auto
  next
    case False
    then have "0 < d + k" using d(2) by simp
    then show ?thesis unfolding e Cons pre using False cl IH [of xs] by auto
  qed
qed

lemma json_end_closes:
  "0 < d \<Longrightarrow> json_end d ins esc t = Some r \<longleftrightarrow> (\<exists>post. t = r @ post) \<and> closes d ins esc r"
proof (induction d ins esc t arbitrary: r rule: json_end.induct)
  case (1 d ins esc)
  then show ?case by auto
next
  case (2 d ins esc c cs)
  note step = json_end_step [where c = c and cs = cs and d = d and ins = ins and esc = esc]
  consider (esc) "ins" "esc" | (backslash) "ins" "\<not> esc" "c = CHR 0x5C"
    | (unquote) "ins" "\<not> esc" "c = CHR 0x22"
    | (plain) "ins" "\<not> esc" "c \<noteq> CHR 0x5C" "c \<noteq> CHR 0x22"
    | (quote) "\<not> ins" "c = CHR 0x22" | (obrace) "\<not> ins" "c = CHR ''{''"
    | (cbrace) "\<not> ins" "c = CHR ''}''"
    | (other) "\<not> ins" "c \<notin> {CHR 0x22, CHR ''{'', CHR ''}''}" by blast
  then show ?case
  proof cases
    case esc
    then show ?thesis using 2 by (intro step [where k = 0]) (auto simp: json_depth_string)
  next
    case backslash
    then show ?thesis using 2 by (intro step [where k = 0]) (auto simp: json_depth_string)
  next
    case unquote
    then show ?thesis using 2 by (intro step [where k = 0]) (auto simp: json_depth_string)
  next
    case plain
    then show ?thesis using 2 by (intro step [where k = 0]) (auto simp: json_depth_string)
  next
    case quote
    then show ?thesis using 2 by (intro step [where k = 0]) (auto simp: json_depth_outside)
  next
    case obrace
    then show ?thesis using 2 by (intro step [where k = 1]) (auto simp: json_depth_outside)
  next
    case cbrace
    then show ?thesis using 2 by (intro step [where k = "- 1"]) (auto simp: json_depth_outside)
  next
    case other
    then show ?thesis using 2 by (intro step [where k = 0]) (auto simp: json_depth_outside)
  qed
qed

lemma balanced_object_closes:
  "balanced_object r \<longleftrightarrow> (\<exists>r'. r = CHR ''{'' # r' \<and> closes 1 False False r')"
proof -
  have depth: "json_depth False False (CHR ''{'' # p) = 1 + json_depth False False p" for p
    by (simp add: json_depth_outside)
  have "balanced_object (CHR ''{'' # r') \<longleftrightarrow> closes 1 False False r'" for r'
  proof -
    have "(\<forall>p q. CHR ''{'' # r' = p @ q \<and> p \<noteq> [] \<and> q \<noteq> [] \<longrightarrow> 0 < json_depth False False p) \<longleftrightarrow>
          (\<forall>p q. r' = p @ q \<longrightarrow> q \<noteq> [] \<longrightarrow> 0 < 1 + json_depth False False p)"
      (is "?l \<longleftrightarrow> ?r")
    proof
      assume ?l
      show ?r
      proof (intro allI impI)
        fix p q assume "r' = p @ q" "q \<noteq> []"
        then have "CHR ''{'' # r' = (CHR ''{'' # p) @ q" by simp
        with \<open>?l\<close> \<open>q \<noteq> []\<close> have "0 < json_depth False False (CHR ''{'' # p)" by blast
        then show "0 < 1 + json_depth False False p" by (simp only: depth)
      qed
    qed (auto simp: Cons_eq_append_conv depth)
    then show ?thesis by (simp add: balanced_object_def closes_def depth)
  qed
  moreover have "balanced_object r \<Longrightarrow> \<exists>r'. r = CHR ''{'' # r'"
    by (auto simp: balanced_object_def has_prefix_iff)
  ultimately show ?thesis by metis
qed

lemma extract_json_object_nonempty:
  "extract_json_object s = r \<and> r \<noteq> [] \<longleftrightarrow>
   (\<exists>cs post r'. dropWhile (\<lambda>c. c \<noteq> CHR ''{'') s = CHR ''{'' # cs \<and> r = CHR ''{'' # r' \<and>
      cs = r' @ post \<and> closes 1 False False r')"
proof (cases "dropWhile (\<lambda>c. c \<noteq> CHR ''{'') s")
  case Nil
  have "extract_json_object s = []" unfolding extract_json_object_def Nil by simp
  then show ?thesis unfolding Nil by blast
next
  case (Cons c cs)
  then have c: "c = CHR ''{''" using hd_dropWhile [of "\<lambda>c. c \<noteq> CHR ''{''" s] by simp
  have e: "extract_json_object s =
      (case json_end 1 False False cs of None \<Rightarrow> [] | Some r' \<Rightarrow> CHR ''{'' # r')"
    using Cons c by (simp add: extract_json_object_def split: option.split)
  have j: "json_end 1 False False cs = Some r' \<longleftrightarrow>
      (\<exists>post. cs = r' @ post) \<and> closes 1 False False r'" for r'
    by (rule json_end_closes) simp
  have "extract_json_object s = r \<and> r \<noteq> [] \<longleftrightarrow>
      (\<exists>r'. r = CHR ''{'' # r' \<and> json_end 1 False False cs = Some r')"
    unfolding e by (cases "json_end 1 False False cs") auto
  then show ?thesis unfolding j Cons c by blast
qed

section \<open>Properties\<close>

text \<open>
  The scan of an agent's answer returns a non-empty text exactly when the answer is some
  prose without an opening brace, then a balanced object (braces in JSON strings, with their
  escapes, not counted), then anything; and the text returned is that object, whole.
\<close>

theorem extract_json_object_exact:
  "extract_json_object s = r \<and> r \<noteq> [] \<longleftrightarrow>
   (\<exists>pre post. s = pre @ r @ post \<and> CHR ''{'' \<notin> set pre \<and> balanced_object r)"
proof
  assume "extract_json_object s = r \<and> r \<noteq> []"
  then obtain cs post r' where d: "dropWhile (\<lambda>c. c \<noteq> CHR ''{'') s = CHR ''{'' # cs"
      and r: "r = CHR ''{'' # r'" "cs = r' @ post" "closes 1 False False r'"
    unfolding extract_json_object_nonempty by blast
  let ?pre = "takeWhile (\<lambda>c. c \<noteq> CHR ''{'') s"
  have "s = ?pre @ r @ post" using d r by (metis append_Cons takeWhile_dropWhile_id)
  moreover have "CHR ''{'' \<notin> set ?pre" by (auto dest: set_takeWhileD)
  ultimately show "\<exists>pre post. s = pre @ r @ post \<and> CHR ''{'' \<notin> set pre \<and> balanced_object r"
    using r balanced_object_closes by blast
next
  assume "\<exists>pre post. s = pre @ r @ post \<and> CHR ''{'' \<notin> set pre \<and> balanced_object r"
  then obtain pre post r' where s: "s = pre @ r @ post" "CHR ''{'' \<notin> set pre"
      and r: "r = CHR ''{'' # r'" "closes 1 False False r'"
    unfolding balanced_object_closes by blast
  have "dropWhile (\<lambda>c. c \<noteq> CHR ''{'') s = CHR ''{'' # r' @ post"
    using s r(1) by (subst s(1), subst dropWhile_append2) auto
  with r show "extract_json_object s = r \<and> r \<noteq> []"
    unfolding extract_json_object_nonempty by blast
qed

text \<open>
  A total rendered with thousands separators in a summary's token line is read back
  exactly, wherever the line stands, as long as the text before it does not itself speak of
  token usage and the total fits Go's \<open>int\<close>.
\<close>

theorem parse_token_total_roundtrip:
  assumes "\<not> contains pre ''token usage''" "CHR '':'' \<notin> set mid" "0 \<le> n" "n \<le> int max_int64"
  shows "parse_token_total (pre @ ''token usage'' @ mid @ '': '' @ group_thousands n @ '' tokens'' @ post)
         = n"
  using assms by (rule parse_token_line)

theorem parse_token_total_roundtrip_witness:
  "group_thousands 1234567 = ''1,234,567'' \<and>
   parse_token_total (''Done. Total '' @ ''token usage'' @ '' across all sessions'' @ '': '' @
     group_thousands 1234567 @ '' tokens'' @ ''.'') = 1234567"
proof
  show "group_thousands 1234567 = ''1,234,567''"
    by (simp add: group_thousands_def itoa_def itoa_nat.simps go_simps group_digits_def upt_rec)
  have "\<not> contains ''Done. Total '' ''token usage''" by code_simp
  moreover have "CHR '':'' \<notin> set '' across all sessions''" by code_simp
  moreover have "(1234567 :: int) \<le> int max_int64" by (simp add: max_int64_def)
  ultimately show "parse_token_total (''Done. Total '' @ ''token usage'' @ '' across all sessions'' @ '': '' @
     group_thousands 1234567 @ '' tokens'' @ ''.'') = 1234567"
    by (intro parse_token_total_roundtrip) simp_all
qed

end
