(* ===== verification/Scoped_Config.thy ===== *)
theory Scoped_Config
  imports Prelude
begin

text \<open>
  Per-place configuration (\<open>internal/scoped\<close>): the chain of scopes, the rule that decides
  which stored value wins, and the append-only versioned store behind it.

  The ports \<open>Reader\<close>, \<open>Writer\<close> and \<open>Publisher\<close> are the locale \<open>scoped_store\<close>: its laws are
  what their comments promise, and the facts the catalogues need (what wins after a save, a
  reset, a publication) are proved from the laws alone.  The Postgres adapter
  (\<open>scopedpg/scopedpg.go\<close>) is modelled on its two tables and interprets the locale.  A write
  runs in one transaction under a lock per key, so it is one step on the tables; \<open>fault\<close> is
  the error Postgres answers with, if any, and the transaction is then rolled back.

  SHA-256 only labels records here, so the content hash is a parameter.
\<close>

section \<open>Scopes\<close>

definition global_scope :: string where
  "global_scope = ''global''"

definition factory_scope :: string where
  "factory_scope = ''factory''"

definition directory_scope :: "string \<Rightarrow> string" where
  "directory_scope directory = (if directory = [] then [] else ''directory:'' @ directory)"

definition scope_kind :: "string \<Rightarrow> string" where
  "scope_kind s =
     (if s = global_scope then ''global''
      else if s = factory_scope then ''factory''
      else if has_prefix s ''directory:'' then ''directory''
      else ''unknown'')"

definition chain :: "string \<Rightarrow> string \<Rightarrow> string list" where
  "chain directory repository =
     (if directory \<noteq> [] then [directory_scope directory] else []) @
     (if repository \<noteq> [] \<and> repository \<noteq> directory then [directory_scope repository] else []) @
     [global_scope, factory_scope]"

section \<open>Records and the winner rule\<close>

record scoped_record =
  sr_key :: string
  sr_scope :: string
  sr_version :: nat
  sr_text :: string
  sr_hash :: string
  sr_saved_by :: string

definition record_for :: "string \<Rightarrow> string \<Rightarrow> scoped_record \<Rightarrow> bool" where
  "record_for key scope r = (sr_key r = key \<and> sr_scope r = scope)"

fun winner :: "scoped_record list \<Rightarrow> string \<Rightarrow> string list \<Rightarrow> scoped_record option" where
  "winner records key [] = None"
| "winner records key (s # ss) =
     (case find (record_for key s) records of
        Some r \<Rightarrow> Some r
      | None \<Rightarrow> winner records key ss)"

section \<open>The Postgres store\<close>

text \<open>The tables \<open>scoped_values\<close> and \<open>scoped_pointers\<close>.\<close>

record scoped_db =
  db_values :: "scoped_record list"
  db_pointers :: "string \<times> string \<Rightarrow> nat option"

definition pg_current :: "scoped_db \<Rightarrow> string list \<Rightarrow> string list \<Rightarrow> scoped_record list" where
  "pg_current db keys scopes =
     (if keys = [] \<or> scopes = [] then []
      else filter (\<lambda>v. sr_key v \<in> set keys \<and> sr_scope v \<in> set scopes \<and>
             db_pointers db (sr_key v, sr_scope v) = Some (sr_version v)) (db_values db))"

datatype store_error =
    StoreFault string
  | NoSuchVersion string string nat
  | StoreNotConfigured

definition pg_stored :: "scoped_db \<Rightarrow> string \<Rightarrow> string \<Rightarrow> nat \<Rightarrow> scoped_record option" where
  "pg_stored db key scope version =
     find (\<lambda>v. sr_key v = key \<and> sr_scope v = scope \<and> sr_version v = version) (db_values db)"

definition pg_version ::
  "string option \<Rightarrow> scoped_db \<Rightarrow> string \<Rightarrow> string \<Rightarrow> nat \<Rightarrow> store_error + scoped_record" where
  "pg_version fault db key scope version =
     (case fault of
        Some e \<Rightarrow> Inl (StoreFault e)
      | None \<Rightarrow>
          (case pg_stored db key scope version of
             None \<Rightarrow> Inl (NoSuchVersion key scope version)
           | Some r \<Rightarrow> Inr r))"

text \<open>\<open>COALESCE(MAX(version), 0) + 1\<close> over the rows of one (key, scope).\<close>

definition next_version :: "scoped_db \<Rightarrow> string \<Rightarrow> string \<Rightarrow> nat" where
  "next_version db key scope =
     foldr max (map sr_version (filter (record_for key scope) (db_values db))) 0 + 1"

definition append_and_point ::
  "(string \<Rightarrow> string) \<Rightarrow> scoped_db \<Rightarrow> string \<Rightarrow> string \<Rightarrow> string \<Rightarrow> string \<Rightarrow>
   scoped_record \<times> scoped_db" where
  "append_and_point hash db key scope txt saved_by =
     (let r = \<lparr>sr_key = key, sr_scope = scope, sr_version = next_version db key scope,
               sr_text = txt, sr_hash = hash txt, sr_saved_by = saved_by\<rparr>
      in (r, db\<lparr>db_values := db_values db @ [r],
               db_pointers := (db_pointers db)((key, scope) \<mapsto> sr_version r)\<rparr>))"

definition pg_set ::
  "(string \<Rightarrow> string) \<Rightarrow> string option \<Rightarrow> string \<Rightarrow> string \<Rightarrow> string \<Rightarrow> string \<Rightarrow> scoped_db \<Rightarrow>
   (store_error + scoped_record) \<times> scoped_db" where
  "pg_set hash fault key scope txt saved_by db =
     (case fault of
        Some e \<Rightarrow> (Inl (StoreFault e), db)
      | None \<Rightarrow>
          (let (r, db') = append_and_point hash db key scope txt saved_by in (Inr r, db')))"

definition pg_reset ::
  "string option \<Rightarrow> string \<Rightarrow> string \<Rightarrow> scoped_db \<Rightarrow> (store_error + unit) \<times> scoped_db" where
  "pg_reset fault key scope db =
     (case fault of
        Some e \<Rightarrow> (Inl (StoreFault e), db)
      | None \<Rightarrow> (Inr (), db\<lparr>db_pointers := (db_pointers db)((key, scope) := None)\<rparr>))"

text \<open>What a scope points at: the join of the two tables at one (key, scope).\<close>

definition pg_point :: "scoped_db \<Rightarrow> string \<Rightarrow> string \<Rightarrow> scoped_record option" where
  "pg_point db key scope =
     (case db_pointers db (key, scope) of
        None \<Rightarrow> None
      | Some v \<Rightarrow> pg_stored db key scope v)"

text \<open>A no-op when the factory already points at this text.\<close>

definition pg_publish_factory ::
  "(string \<Rightarrow> string) \<Rightarrow> string option \<Rightarrow> string \<Rightarrow> string \<Rightarrow> scoped_db \<Rightarrow>
   (store_error + scoped_record) \<times> scoped_db" where
  "pg_publish_factory hash fault key txt db =
     (case fault of
        Some e \<Rightarrow> (Inl (StoreFault e), db)
      | None \<Rightarrow>
          (let fresh = (let (r, db') = append_and_point hash db key factory_scope txt [] in (Inr r, db'))
           in case pg_point db key factory_scope of
                Some r \<Rightarrow> if sr_text r = txt \<and> 0 < sr_version r then (Inr r, db) else fresh
              | None \<Rightarrow> fresh))"

definition publish_default ::
  "(string \<Rightarrow> string) \<Rightarrow> string option \<Rightarrow> string \<Rightarrow> string \<Rightarrow> scoped_db \<Rightarrow>
   (store_error + unit) \<times> scoped_db" where
  "publish_default hash fault key txt db =
     (case pg_publish_factory hash fault key txt db of
        (Inl e, db') \<Rightarrow> (Inl e, db')
      | (Inr r, db') \<Rightarrow> (Inr (), db'))"

section \<open>The port\<close>

text \<open>
  \<open>point db k s\<close> is the record a scope points at and \<open>stored db k s v\<close> one stored version.
  A save appends a version and moves the pointer; nothing stored is ever rewritten.
\<close>

locale scoped_store =
  fixes inv :: "'db \<Rightarrow> bool"
    and current :: "'db \<Rightarrow> string list \<Rightarrow> string list \<Rightarrow> scoped_record list"
    and point :: "'db \<Rightarrow> string \<Rightarrow> string \<Rightarrow> scoped_record option"
    and stored :: "'db \<Rightarrow> string \<Rightarrow> string \<Rightarrow> nat \<Rightarrow> scoped_record option"
    and put :: "string \<Rightarrow> string \<Rightarrow> string \<Rightarrow> string \<Rightarrow> 'db \<Rightarrow> (store_error + scoped_record) \<times> 'db"
    and reset :: "string \<Rightarrow> string \<Rightarrow> 'db \<Rightarrow> (store_error + unit) \<times> 'db"
    and publish :: "string \<Rightarrow> string \<Rightarrow> 'db \<Rightarrow> (store_error + scoped_record) \<times> 'db"
  assumes current_iff: "inv db \<Longrightarrow>
      r \<in> set (current db ks ss) \<longleftrightarrow> (\<exists>k \<in> set ks. \<exists>s \<in> set ss. point db k s = Some r)"
    and point_for: "inv db \<Longrightarrow> point db k s = Some r \<Longrightarrow> record_for k s r"
    and put_ok: "inv db \<Longrightarrow> put k s t u db = (Inr r, db') \<Longrightarrow>
      inv db' \<and> sr_text r = t \<and> sr_saved_by r = u \<and>
      (\<forall>k' s'. point db' k' s' = (if k' = k \<and> s' = s then Some r else point db k' s')) \<and>
      stored db k s (sr_version r) = None \<and> stored db' k s (sr_version r) = Some r"
    and put_error: "put k s t u db = (Inl e, db') \<Longrightarrow> db' = db"
    and put_keeps: "inv db \<Longrightarrow> put k s t u db = (x, db') \<Longrightarrow>
      stored db k' s' v = Some r' \<Longrightarrow> stored db' k' s' v = Some r'"
    and reset_ok: "inv db \<Longrightarrow> reset k s db = (Inr y, db') \<Longrightarrow>
      inv db' \<and> (\<forall>k' s'. point db' k' s' = (if k' = k \<and> s' = s then None else point db k' s'))"
    and reset_error: "reset k s db = (Inl e, db') \<Longrightarrow> db' = db"
    and reset_keeps: "reset k s db = (z, db') \<Longrightarrow> stored db' = stored db"
    and publish_ok: "inv db \<Longrightarrow> publish k t db = (Inr r, db') \<Longrightarrow>
      inv db' \<and> point db' k factory_scope = Some r \<and> sr_text r = t \<and>
      (\<forall>k' s'. (k', s') \<noteq> (k, factory_scope) \<longrightarrow> point db' k' s' = point db k' s')"
    and publish_again: "inv db \<Longrightarrow> publish k t db = (Inr r, db') \<Longrightarrow>
      publish k t db' = (Inr r, db')"
begin

text \<open>The winner is what the first pointed-at scope of the chain points at.\<close>

lemma winner_first:
  assumes "inv db" "key \<in> set keys" "set scopes \<subseteq> set all"
  shows "winner (current db keys all) key scopes =
    (case find (\<lambda>s. point db key s \<noteq> None) scopes of
       None \<Rightarrow> None
     | Some s \<Rightarrow> point db key s)"
  using assms(3)
proof (induction scopes)
  case (Cons s ss)
  show ?case
  proof (cases "point db key s")
    case None
    have "\<not> record_for key s r" if "r \<in> set (current db keys all)" for r
    proof
      assume f: "record_for key s r"
      from that obtain k s' where p: "point db k s' = Some r"
        using current_iff [OF assms(1)] by auto
      with point_for [OF assms(1) p] f None show False by (auto simp: record_for_def)
    qed
    then have "find (record_for key s) (current db keys all) = None"
      by (simp add: find_None_iff)
    with None Cons show ?thesis by simp
  next
    case (Some r)
    have r: "r \<in> set (current db keys all)"
      using current_iff [OF assms(1)] Some assms(2) Cons.prems by auto
    have "find (record_for key s) (current db keys all) = Some r"
    proof -
      have "find (record_for key s) (current db keys all) \<noteq> None"
        using r point_for [OF assms(1) Some] by (auto simp: find_None_iff)
      then obtain r' where f: "find (record_for key s) (current db keys all) = Some r'" by auto
      then have r': "r' \<in> set (current db keys all)" "record_for key s r'"
        by (auto simp: find_Some_iff)
      then obtain k s' where p: "point db k s' = Some r'"
        using current_iff [OF assms(1)] by auto
      with point_for [OF assms(1) p] r'(2) Some have "r' = r" by (auto simp: record_for_def)
      with f show ?thesis by simp
    qed
    with Some show ?thesis by simp
  qed
qed simp

lemma winner_after_put:
  assumes "inv db" "put k s t u db = (Inr r, db')" "k \<in> set keys"
  shows "winner (current db' keys (s # ss)) k (s # ss) = Some r"
proof -
  have "inv db'" "point db' k s = Some r" using put_ok [OF assms(1,2)] by auto
  then show ?thesis using winner_first [of db' k keys "s # ss" "s # ss"] assms(3) by simp
qed

lemma winner_same:
  assumes "inv db" "inv db'" "k \<in> set keys" "set ss \<subseteq> set all" "set ss \<subseteq> set all'"
    and p: "\<And>s. s \<in> set ss \<Longrightarrow> point db' k s = point db k s"
  shows "winner (current db' keys all') k ss = winner (current db keys all) k ss"
proof -
  have f: "find (\<lambda>s. point db' k s \<noteq> None) ss = find (\<lambda>s. point db k s \<noteq> None) ss"
    using p by (intro find_cong) auto
  have "point db' k s = point db k s" if "find (\<lambda>s. point db k s \<noteq> None) ss = Some s" for s
    using that p by (metis find_Some_iff nth_mem)
  then show ?thesis
    unfolding winner_first [OF assms(2,3,5)] winner_first [OF assms(1,3,4)] f
    by (simp split: option.split)
qed

lemma winner_after_reset:
  assumes "inv db" "reset k s db = (Inr y, db')" "k \<in> set keys" "s \<notin> set ss"
  shows "winner (current db' keys (s # ss)) k (s # ss) = winner (current db keys ss) k ss"
proof -
  have i: "inv db'" and p: "point db' k s = None"
    and q: "\<And>s'. s' \<in> set ss \<Longrightarrow> point db' k s' = point db k s'"
    using reset_ok [OF assms(1,2)] assms(4) by auto
  have sub: "set ss \<subseteq> set (s # ss)" by auto
  have "winner (current db' keys (s # ss)) k (s # ss) = winner (current db' keys (s # ss)) k ss"
    using winner_first [OF i assms(3) order_refl, of "s # ss"]
      winner_first [OF i assms(3) sub] p by (simp del: winner.simps)
  also have "\<dots> = winner (current db keys ss) k ss"
    using q by (intro winner_same) (use assms i in auto)
  finally show ?thesis .
qed

text \<open>A save at one (key, scope) leaves what every other key resolves to.\<close>

lemma winner_other_key:
  assumes "inv db" "put k s t u db = (Inr r, db')" "k' \<noteq> k" "k' \<in> set keys" "set ss \<subseteq> set all"
  shows "winner (current db' keys all) k' ss = winner (current db keys all) k' ss"
  using put_ok [OF assms(1,2)] assms by (intro winner_same) auto

end

section \<open>The adapter keeps the port's promises\<close>

text \<open>
  Rows are identified by (key, scope, version), versions start at 1, and every pointer
  names a stored row (the tables' primary and foreign keys).
\<close>

definition row_id :: "scoped_record \<Rightarrow> string \<times> string \<times> nat" where
  "row_id r = (sr_key r, sr_scope r, sr_version r)"

definition db_inv :: "scoped_db \<Rightarrow> bool" where
  "db_inv db =
     (distinct (map row_id (db_values db)) \<and>
      (\<forall>r \<in> set (db_values db). 0 < sr_version r) \<and>
      (\<forall>k s v. db_pointers db (k, s) = Some v \<longrightarrow> pg_stored db k s v \<noteq> None))"

lemma pg_stored_Some:
  "distinct (map row_id (db_values db)) \<Longrightarrow>
   pg_stored db k s v = Some r \<longleftrightarrow> r \<in> set (db_values db) \<and> row_id r = (k, s, v)"
proof -
  assume d: "distinct (map row_id (db_values db))"
  have "find (\<lambda>x. sr_key x = k \<and> sr_scope x = s \<and> sr_version x = v) vs = Some r \<longleftrightarrow>
        r \<in> set vs \<and> row_id r = (k, s, v)" if "distinct (map row_id vs)" for vs
    using that by (induction vs) (auto simp: row_id_def)
  from this [OF d] show ?thesis by (simp add: pg_stored_def)
qed

lemma pg_stored_None:
  "pg_stored db k s v = None \<longleftrightarrow> (\<forall>r \<in> set (db_values db). row_id r \<noteq> (k, s, v))"
  by (auto simp: pg_stored_def find_None_iff row_id_def)

lemma foldr_max_ge: "(x :: nat) \<in> set xs \<Longrightarrow> x \<le> foldr max xs 0"
  by (induction xs) auto

lemma next_version_fresh:
  "r \<in> set (db_values db) \<Longrightarrow> record_for k s r \<Longrightarrow> sr_version r < next_version db k s"
  unfolding next_version_def
  using foldr_max_ge [of "sr_version r" "map sr_version (filter (record_for k s) (db_values db))"]
  by (simp add: image_iff less_Suc_eq_le) blast

lemma pg_current_iff:
  assumes "db_inv db"
  shows "r \<in> set (pg_current db ks ss) \<longleftrightarrow> (\<exists>k \<in> set ks. \<exists>s \<in> set ss. pg_point db k s = Some r)"
proof -
  have d: "distinct (map row_id (db_values db))" using assms by (simp add: db_inv_def)
  have "pg_point db k s = Some r \<longleftrightarrow>
      r \<in> set (db_values db) \<and> record_for k s r \<and> db_pointers db (k, s) = Some (sr_version r)" for k s
    by (auto simp: pg_point_def record_for_def pg_stored_Some [OF d] row_id_def split: option.splits)
  then show ?thesis
    by (auto simp: pg_current_def record_for_def)
qed

lemma pg_point_for: "db_inv db \<Longrightarrow> pg_point db k s = Some r \<Longrightarrow> record_for k s r"
  by (auto simp: pg_point_def db_inv_def pg_stored_Some row_id_def record_for_def split: option.splits)

lemma append_and_point_facts:
  assumes inv: "db_inv db" and a: "append_and_point hash db k s t u = (r, db')"
  shows "db_inv db'" "sr_text r = t" "sr_saved_by r = u" "0 < sr_version r"
    "pg_stored db k s (sr_version r) = None" "pg_stored db' k s (sr_version r) = Some r"
    "pg_stored db k' s' v = Some r' \<Longrightarrow> pg_stored db' k' s' v = Some r'"
    "pg_point db' k' s' = (if k' = k \<and> s' = s then Some r else pg_point db k' s')"
proof -
  have r: "row_id r = (k, s, next_version db k s)" "sr_version r = next_version db k s"
      "sr_text r = t" "sr_saved_by r = u"
    and vals: "db_values db' = db_values db @ [r]"
    and ptr: "db_pointers db' = (db_pointers db)((k, s) \<mapsto> sr_version r)"
    using a by (auto simp: append_and_point_def Let_def row_id_def)
  show "sr_text r = t" "sr_saved_by r = u" using r by auto
  show pos: "0 < sr_version r" using r by (simp add: next_version_def)
  have fresh: "row_id x \<noteq> row_id r" if "x \<in> set (db_values db)" for x
    using next_version_fresh [OF that, of k s] r by (auto simp: row_id_def record_for_def)
  then have "row_id r \<notin> row_id ` set (db_values db)" by (metis imageE)
  then have d: "distinct (map row_id (db_values db'))"
    using inv vals by (simp add: db_inv_def)
  have d0: "distinct (map row_id (db_values db))" using inv by (simp add: db_inv_def)
  show old: "pg_stored db' k' s' v = Some r'" if "pg_stored db k' s' v = Some r'" for k' s' v r'
    using that vals by (simp add: pg_stored_Some [OF d] pg_stored_Some [OF d0])
  show new: "pg_stored db' k s (sr_version r) = Some r"
    using vals r by (simp add: pg_stored_Some [OF d])
  show "pg_stored db k s (sr_version r) = None"
    using fresh r by (auto simp: pg_stored_None)
  show "db_inv db'"
    using inv vals ptr d pos new old unfolding db_inv_def
    by (auto split: if_splits) (metis not_Some_eq old)+
  show "pg_point db' k' s' = (if k' = k \<and> s' = s then Some r else pg_point db k' s')"
  proof (cases "k' = k \<and> s' = s")
    case True
    then show ?thesis using ptr new by (simp add: pg_point_def)
  next
    case False
    then have p: "db_pointers db' (k', s') = db_pointers db (k', s')" using ptr by auto
    show ?thesis
    proof (cases "db_pointers db (k', s')")
      case (Some v)
      then obtain x where "pg_stored db k' s' v = Some x"
        using inv unfolding db_inv_def by (metis not_None_eq)
      with old Some p False show ?thesis by (auto simp: pg_point_def)
    qed (use p False in \<open>simp add: pg_point_def\<close>)
  qed
qed

lemma pg_set_ok:
  "db_inv db \<Longrightarrow> pg_set hash fault k s t u db = (Inr r, db') \<Longrightarrow>
   append_and_point hash db k s t u = (r, db')"
  by (auto simp: pg_set_def split: option.splits prod.splits)

lemma pg_publish_ok:
  assumes "db_inv db" "pg_publish_factory hash fault k t db = (Inr r, db')"
  shows "fault = None \<and>
    ((db' = db \<and> pg_point db k factory_scope = Some r \<and> sr_text r = t \<and> 0 < sr_version r) \<or>
     append_and_point hash db k factory_scope t [] = (r, db'))"
  using assms by (auto simp: pg_publish_factory_def Let_def split: option.splits prod.splits if_splits)

interpretation pg: scoped_store db_inv pg_current pg_point pg_stored "pg_set hash fault"
  "pg_reset fault" "pg_publish_factory hash fault"
  for hash fault
proof (unfold_locales, goal_cases)
  case (1 db r ks ss)
  then show ?case by (rule pg_current_iff)
next
  case (2 db k s r)
  then show ?case by (rule pg_point_for)
next
  case (3 db k s t u r db')
  from append_and_point_facts [OF 3(1) pg_set_ok [OF 3]] show ?case by auto
next
  case (4 k s t u db e db')
  then show ?case by (auto simp: pg_set_def split: option.splits prod.splits)
next
  case (5 db k s t u x db' k' s' v r')
  show ?case
  proof (cases x)
    case (Inr r)
    from append_and_point_facts(7) [OF 5(1) pg_set_ok [OF 5(1)]] 5 Inr show ?thesis by auto
  next
    case (Inl e)
    with 5 show ?thesis by (auto simp: pg_set_def split: option.splits prod.splits)
  qed
next
  case (6 db k s y db')
  then have db': "db' = db\<lparr>db_pointers := (db_pointers db)((k, s) := None)\<rparr>"
    by (auto simp: pg_reset_def split: option.splits)
  then have st: "pg_stored db' = pg_stored db" by (auto simp: pg_stored_def fun_eq_iff)
  show ?case
    using 6(1) st unfolding db' by (auto simp: db_inv_def pg_point_def split: if_splits option.splits)
next
  case (7 k s db e db')
  then show ?case by (auto simp: pg_reset_def split: option.splits)
next
  case (8 k s db z db')
  then show ?case by (auto simp: pg_reset_def pg_stored_def fun_eq_iff split: option.splits)
next
  case (9 db k t r db')
  from pg_publish_ok [OF 9] 9(1) append_and_point_facts(1,2,8) [OF 9(1)] show ?case by auto
next
  case (10 db k t r db')
  have "pg_point db' k factory_scope = Some r" "sr_text r = t" "0 < sr_version r" "fault = None"
    using pg_publish_ok [OF 10] append_and_point_facts [OF 10(1)] by auto
  then show ?case by (simp add: pg_publish_factory_def)
qed

section \<open>Properties\<close>

text \<open>
  Saving a value at a scope makes it win for every chain that starts at that scope, and
  clearing it again makes the chain resolve exactly as its remaining scopes did before.
\<close>

theorem save_then_reset:
  assumes "db_inv db" "pg_set hash fault k s t u db = (Inr r, db')"
    and "pg_reset fault' k s db' = (Inr (), db'')" "k \<in> set keys" "s \<notin> set ss"
  shows "winner (pg_current db' keys (s # ss)) k (s # ss) = Some r \<and> sr_text r = t \<and>
    winner (pg_current db'' keys (s # ss)) k (s # ss) = winner (pg_current db keys ss) k ss"
proof -
  have i: "db_inv db'" and t: "sr_text r = t"
    and p: "\<And>k' s'. pg_point db' k' s' = (if k' = k \<and> s' = s then Some r else pg_point db k' s')"
    using pg.put_ok [OF assms(1,2)] by auto
  have "winner (pg_current db' keys ss) k ss = winner (pg_current db keys ss) k ss"
    using p assms(1,4,5) i by (intro pg.winner_same) auto
  then show ?thesis
    using pg.winner_after_put [OF assms(1,2,4)] pg.winner_after_reset [OF i assms(3,4,5)] t by simp
qed

definition empty_db :: scoped_db where
  "empty_db = \<lparr>db_values = [], db_pointers = Map.empty\<rparr>"

lemma empty_db_inv: "db_inv empty_db"
  by (simp add: db_inv_def empty_db_def)

theorem save_then_reset_witness:
  "\<exists>r db' db''. pg_set (\<lambda>t. t) None ''k'' ''global'' ''v'' ''u'' empty_db = (Inr r, db') \<and>
     pg_reset None ''k'' ''global'' db' = (Inr (), db'') \<and>
     winner (pg_current db' [''k''] [''global'', ''factory'']) ''k'' [''global'', ''factory''] = Some r \<and>
     winner (pg_current db'' [''k''] [''global'', ''factory'']) ''k'' [''global'', ''factory''] = None"
proof -
  obtain r db' where s: "pg_set (\<lambda>t. t) None ''k'' ''global'' ''v'' ''u'' empty_db = (Inr r, db')"
    by (simp add: pg_set_def append_and_point_def Let_def)
  obtain db'' where z: "pg_reset None ''k'' ''global'' db' = (Inr (), db'')"
    by (simp add: pg_reset_def)
  have "winner (pg_current empty_db [''k''] [''factory'']) ''k'' [''factory''] = None"
    by (simp add: pg_current_def empty_db_def)
  with save_then_reset [OF empty_db_inv s z, of "[''k'']" "[''factory'']"] s z show ?thesis by auto
qed

text \<open>
  No write ever rewrites a stored version: whatever (key, scope, version) an execution
  recorded reads back the same record after any later save, reset or publication, and a save
  always gets a version number that was never stored before.
\<close>

theorem versions_are_immutable:
  assumes "db_inv db" "pg_stored db k' s' v = Some r'"
  shows "pg_stored (snd (pg_set hash fault k s t u db)) k' s' v = Some r' \<and>
    pg_stored (snd (pg_reset fault k s db)) k' s' v = Some r' \<and>
    pg_stored (snd (pg_publish_factory hash fault k t db)) k' s' v = Some r'"
proof (intro conjI)
  show "pg_stored (snd (pg_set hash fault k s t u db)) k' s' v = Some r'"
    using pg.put_keeps [OF assms(1) _ assms(2), of hash fault k s t u] by (metis prod.collapse)
  show "pg_stored (snd (pg_reset fault k s db)) k' s' v = Some r'"
    using pg.reset_keeps [of fault k s db] assms(2) by (metis prod.collapse)
  obtain x db' where p: "pg_publish_factory hash fault k t db = (x, db')" by fastforce
  show "pg_stored (snd (pg_publish_factory hash fault k t db)) k' s' v = Some r'"
  proof (cases x)
    case (Inl e)
    then have "db' = db"
      using p by (auto simp: pg_publish_factory_def Let_def split: option.splits prod.splits if_splits)
    with p assms(2) show ?thesis by simp
  next
    case (Inr r)
    then show ?thesis
      using pg_publish_ok [OF assms(1), of hash fault k t r db'] p assms(2)
        append_and_point_facts(7) [OF assms(1), of hash k factory_scope t "[]" r db' k' s' v r']
      by auto
  qed
qed

theorem versions_are_immutable_witness:
  "\<exists>r db. pg_stored db ''k'' ''global'' 1 = Some r \<and>
     pg_stored (snd (pg_set (\<lambda>t. t) None ''k'' ''global'' ''w'' ''u'' db)) ''k'' ''global'' 1 = Some r"
proof -
  obtain r db where s: "pg_set (\<lambda>t. t) None ''k'' ''global'' ''v'' ''u'' empty_db = (Inr r, db)"
    by (simp add: pg_set_def append_and_point_def Let_def)
  have v: "sr_version r = 1"
    using s by (auto simp: pg_set_def append_and_point_def next_version_def empty_db_def Let_def)
  have "db_inv db" "pg_stored db ''k'' ''global'' 1 = Some r"
    using pg.put_ok [OF empty_db_inv s] v by auto
  with versions_are_immutable show ?thesis by blast
qed

end
