(* ===== verification/Effects.thy ===== *)
theory Effects
  imports Prelude
begin

text \<open>
  Code that calls ports and activities.

  The program's workflows and activities reach the outside only through calls (git, GitHub,
  the agent, the store, Temporal) whose answers the program does not determine.  Such code is
  a function on the log of the events so far: it returns its result, an error or a value,
  and the log with its own events appended.  An event holds a call together with the answer
  it got; the answer is a function of the log before the call, given by the environment of
  the component, so nothing is assumed of it and a repeated call may answer differently.

  \<open>wp m Q l\<close> says that \<open>m\<close>, run from log \<open>l\<close>, ends in a result and a log that satisfy \<open>Q\<close>;
  its rules reduce a program to conditions on the answers.
\<close>

type_synonym ('ev, 'e, 'a) eff = "'ev list \<Rightarrow> ('e + 'a) \<times> 'ev list"

definition ret :: "'a \<Rightarrow> ('ev, 'e, 'a) eff" where
  "ret x l = (Inr x, l)"

definition fail :: "'e \<Rightarrow> ('ev, 'e, 'a) eff" where
  "fail e l = (Inl e, l)"

definition lift :: "'e + 'a \<Rightarrow> ('ev, 'e, 'a) eff" where
  "lift r l = (r, l)"

text \<open>Sequencing, with the early return of an error.\<close>

definition andthen :: "('ev, 'e, 'a) eff \<Rightarrow> ('a \<Rightarrow> ('ev, 'e, 'b) eff) \<Rightarrow> ('ev, 'e, 'b) eff" where
  "andthen m f l = (case m l of (Inl e, l') \<Rightarrow> (Inl e, l') | (Inr x, l') \<Rightarrow> f x l')"

text \<open>A call whose answer may be an error, which ends the code unless it is attempted.\<close>

definition perform :: "('ev list \<Rightarrow> 'e + 'a) \<Rightarrow> ('e + 'a \<Rightarrow> 'ev) \<Rightarrow> ('ev, 'e, 'a) eff" where
  "perform ans ev l = (ans l, l @ [ev (ans l)])"

text \<open>Running code to look at its error, instead of returning it.\<close>

definition attempt :: "('ev, 'e, 'a) eff \<Rightarrow> ('ev, 'f, 'e + 'a) eff" where
  "attempt m l = (case m l of (r, l') \<Rightarrow> (Inr r, l'))"

text \<open>Replacing the error, as in \<open>fmt.Errorf("...: %w", err)\<close>.\<close>

definition on_error :: "('e \<Rightarrow> 'f) \<Rightarrow> ('ev, 'e, 'a) eff \<Rightarrow> ('ev, 'f, 'a) eff" where
  "on_error g m l =
     (case m l of (Inl e, l') \<Rightarrow> (Inl (g e), l') | (Inr x, l') \<Rightarrow> (Inr x, l'))"

text \<open>\<open>defer\<close>: code run on every way out, which sees the result and cannot change it.\<close>

definition deferring :: "('e + 'a \<Rightarrow> ('ev, 'f, unit) eff) \<Rightarrow> ('ev, 'e, 'a) eff \<Rightarrow> ('ev, 'e, 'a) eff" where
  "deferring d m l = (case m l of (r, l') \<Rightarrow> (r, snd (d r l')))"

text \<open>A value the outside gives without its being an event (the clock, the run's identity).\<close>

definition asking :: "('ev list \<Rightarrow> 'a) \<Rightarrow> ('ev, 'e, 'a) eff" where
  "asking f l = (Inr (f l), l)"

text \<open>A loop that carries a state and stops at the first error.\<close>

fun for_each :: "('x \<Rightarrow> 's \<Rightarrow> ('ev, 'e, 's) eff) \<Rightarrow> 'x list \<Rightarrow> 's \<Rightarrow> ('ev, 'e, 's) eff" where
  "for_each f [] s = ret s"
| "for_each f (x # xs) s = andthen (f x s) (for_each f xs)"

section \<open>Weakest preconditions\<close>

named_theorems wp_rules \<open>equations that reduce wp to conditions on answers\<close>

definition wp :: "('ev, 'e, 'a) eff \<Rightarrow> ('e + 'a \<Rightarrow> 'ev list \<Rightarrow> bool) \<Rightarrow> 'ev list \<Rightarrow> bool" where
  "wp m Q l = (case m l of (r, l') \<Rightarrow> Q r l')"

lemma wp_mono: "wp m Q l \<Longrightarrow> (\<And>r l'. Q r l' \<Longrightarrow> R r l') \<Longrightarrow> wp m R l"
  by (auto simp: wp_def split: prod.splits)

lemma wp_run: "wp m Q l \<longleftrightarrow> Q (fst (m l)) (snd (m l))"
  by (simp add: wp_def split: prod.split)

lemma wp_conj: "wp m (\<lambda>r l'. Q r l' \<and> R r l') l \<longleftrightarrow> wp m Q l \<and> wp m R l"
  by (simp add: wp_run)

lemma wp_ret [wp_rules]: "wp (ret x) Q l \<longleftrightarrow> Q (Inr x) l"
  and wp_fail [wp_rules]: "wp (fail e) Q l \<longleftrightarrow> Q (Inl e) l"
  and wp_lift [wp_rules]: "wp (lift r) Q l \<longleftrightarrow> Q r l"
  and wp_asking [wp_rules]: "wp (asking f) Q l \<longleftrightarrow> Q (Inr (f l)) l"
  and wp_perform [wp_rules]: "wp (perform ans ev) Q l \<longleftrightarrow> Q (ans l) (l @ [ev (ans l)])"
  by (simp_all add: wp_run ret_def fail_def lift_def perform_def asking_def)

lemma wp_andthen [wp_rules]:
  "wp (andthen m f) Q l \<longleftrightarrow>
   wp m (\<lambda>r l'. case r of Inl e \<Rightarrow> Q (Inl e) l' | Inr x \<Rightarrow> wp (f x) Q l') l"
  by (auto simp: wp_def andthen_def split: prod.splits sum.splits)

lemma wp_attempt [wp_rules]: "wp (attempt m) Q l \<longleftrightarrow> wp m (\<lambda>r l'. Q (Inr r) l') l"
  by (auto simp: wp_def attempt_def split: prod.splits)

lemma wp_on_error [wp_rules]:
  "wp (on_error g m) Q l \<longleftrightarrow>
   wp m (\<lambda>r l'. case r of Inl e \<Rightarrow> Q (Inl (g e)) l' | Inr x \<Rightarrow> Q (Inr x) l') l"
  by (auto simp: wp_def on_error_def split: prod.splits sum.splits)

lemma wp_deferring [wp_rules]:
  "wp (deferring d m) Q l \<longleftrightarrow> wp m (\<lambda>r l'. wp (d r) (\<lambda>_ l''. Q r l'') l') l"
  by (auto simp: wp_def deferring_def split: prod.splits)

lemma wp_for_each:
  assumes "\<And>x s l. x \<in> set xs \<Longrightarrow> I s l \<Longrightarrow>
      wp (f x s) (\<lambda>r l'. case r of Inl e \<Rightarrow> Q (Inl e) l' | Inr s' \<Rightarrow> I s' l') l"
    and "\<And>s l. I s l \<Longrightarrow> Q (Inr s) l" and "I s l"
  shows "wp (for_each f xs s) Q l"
  using assms
proof (induction xs arbitrary: s l)
  case Nil
  then show ?case by (simp add: wp_ret)
next
  case (Cons x xs)
  have "wp (f x s) (\<lambda>r l'. case r of Inl e \<Rightarrow> Q (Inl e) l' | Inr s' \<Rightarrow> I s' l') l"
    using Cons.prems by simp
  then have "wp (f x s) (\<lambda>r l'. case r of Inl e \<Rightarrow> Q (Inl e) l'
      | Inr s' \<Rightarrow> wp (for_each f xs s') Q l') l"
    by (rule wp_mono) (auto split: sum.splits intro!: Cons.IH intro: Cons.prems)
  then show ?case by (simp add: wp_andthen)
qed

section \<open>Code only appends to the log\<close>

definition extends :: "'ev list \<Rightarrow> 'ev list \<Rightarrow> bool" where
  "extends l l' = (\<exists>d. l' = l @ d)"

lemma extends_refl [simp]: "extends l l"
  by (simp add: extends_def)

lemma extends_append [simp]: "extends l (l @ d)"
  by (simp add: extends_def)

lemma extends_trans: "extends l l' \<Longrightarrow> extends l' l'' \<Longrightarrow> extends l l''"
  by (auto simp: extends_def)

lemma extends_set: "extends l l' \<Longrightarrow> x \<in> set l \<Longrightarrow> x \<in> set l'"
  by (auto simp: extends_def)

text \<open>\<open>appends m\<close>: code that keeps the log it starts from.\<close>

definition appends :: "('ev, 'e, 'a) eff \<Rightarrow> bool" where
  "appends m = (\<forall>l. extends l (snd (m l)))"

lemma appends_basic [intro!]:
  "appends (ret x)" "appends (fail e)" "appends (lift r)" "appends (perform ans ev)"
  "appends (asking f)"
  by (simp_all add: appends_def ret_def fail_def lift_def perform_def asking_def)

lemma appends_andthen [intro!]: "appends m \<Longrightarrow> (\<And>x. appends (f x)) \<Longrightarrow> appends (andthen m f)"
  unfolding appends_def andthen_def
  by (auto split: prod.splits sum.splits) (metis extends_trans snd_conv)+

lemma appends_attempt [intro!]: "appends m \<Longrightarrow> appends (attempt m)"
  by (simp add: appends_def attempt_def split: prod.splits) (metis snd_conv)

lemma appends_on_error [intro!]: "appends m \<Longrightarrow> appends (on_error g m)"
  unfolding appends_def on_error_def
  by (auto split: prod.splits sum.splits) (metis snd_conv)+

lemma appends_deferring [intro!]: "appends m \<Longrightarrow> (\<And>r. appends (d r)) \<Longrightarrow> appends (deferring d m)"
  unfolding appends_def deferring_def
  by (auto split: prod.splits) (metis extends_trans snd_conv)

lemma appends_for_each [intro!]: "(\<And>x s. appends (f x s)) \<Longrightarrow> appends (for_each f xs s)"
  by (induction xs arbitrary: s) auto

lemma appends_wp: "appends m \<Longrightarrow> wp m (\<lambda>r l'. extends l l') l"
  by (simp add: appends_def wp_run)

end
