(* ===== verification/Exec_Record.thy ===== *)
theory Exec_Record
  imports Prelude
begin

text \<open>
  What the durable execution record holds and how free text is prepared for it: the kinds,
  statuses and limits of \<open>internal/execstore/execstore.go\<close>, and the redaction and capping of
  \<open>internal/wfrecord/wfrecord.go\<close>.

  The two patterns of the redaction are matched by hand.  In both, every repetition is
  followed by a character its class excludes, so Go's leftmost-first matching and the greedy
  runs used here find the same matches.
\<close>

section \<open>Kinds, statuses, limits\<close>

datatype exec_status = RunningStatus | SucceededStatus | FailedStatus | SkippedStatus

definition kinds :: "string list" where
  "kinds = [''run'', ''develop'', ''review'', ''pilot'', ''fleet'', ''fleet-plan'', ''steering'']"

definition valid_kind :: "string \<Rightarrow> bool" where
  "valid_kind k = list_ex (\<lambda>known. k = known) kinds"

definition max_list_limit :: int where
  "max_list_limit = 1000"

definition effective_limit :: "int \<Rightarrow> int \<Rightarrow> int" where
  "effective_limit n def_n =
     (let n = (if n \<le> 0 then def_n else n) in
      if n > max_list_limit then max_list_limit else n)"

definition max_plan_document :: nat where
  "max_plan_document = 1048576"

section \<open>Redaction\<close>

definition between :: "nat \<Rightarrow> nat \<Rightarrow> char \<Rightarrow> bool" where
  "between lo hi c = (lo \<le> of_char c \<and> of_char c \<le> hi)"

definition is_letter :: "char \<Rightarrow> bool" where
  "is_letter c = (between 97 122 c \<or> between 65 90 c)"

definition is_alnum :: "char \<Rightarrow> bool" where
  "is_alnum c = (is_letter c \<or> is_digit c)"

text \<open>The classes \<open>[a-zA-Z0-9+.-]\<close>, \<open>[^/\s@]\<close> and \<open>\w\<close>.\<close>

definition scheme_char :: "char \<Rightarrow> bool" where
  "scheme_char c = (is_alnum c \<or> c \<in> set ''+.-'')"

definition user_char :: "char \<Rightarrow> bool" where
  "user_char c = (c \<notin> {CHR ''/'', CHR ''@'', CHR 0x09, CHR 0x0A, CHR 0x0C, CHR 0x0D, CHR 0x20})"

definition word_char :: "char \<Rightarrow> bool" where
  "word_char c = (is_alnum c \<or> c = CHR ''_'')"

text \<open>A match of the URL-credential pattern here: the group kept, and what follows it.\<close>

definition match_url_cred :: "string \<Rightarrow> (string \<times> string) option" where
  "match_url_cred s =
     (case s of
        [] \<Rightarrow> None
      | c # cs \<Rightarrow>
          if is_letter c then
            (case strip_prefix ''://'' (dropWhile scheme_char cs) of
               None \<Rightarrow> None
             | Some r \<Rightarrow>
                 if takeWhile user_char r \<noteq> [] \<and> has_prefix (dropWhile user_char r) ''@''
                 then Some (c # takeWhile scheme_char cs @ ''://'', tl (dropWhile user_char r))
                 else None)
          else None)"

lemma match_url_cred_shorter: "match_url_cred s = Some (k, r) \<Longrightarrow> length r < length s"
proof -
  assume m: "match_url_cred s = Some (k, r)"
  then obtain c cs q where s: "s = c # cs" and q: "dropWhile scheme_char cs = ''://'' @ q"
      and r: "r = tl (dropWhile user_char q)"
    by (auto simp: match_url_cred_def strip_prefix_Some split: list.splits if_splits option.splits)
  have "length r \<le> length q" using r length_dropWhile_le [of user_char q] by simp
  also have "\<dots> < length (dropWhile scheme_char cs)" using q by simp
  also have "\<dots> \<le> length cs" by (rule length_dropWhile_le)
  finally show ?thesis using s by simp
qed

function redact_urls :: "string \<Rightarrow> string" where
  "redact_urls [] = []"
| "redact_urls (c # cs) =
     (case match_url_cred (c # cs) of
        Some (k, r) \<Rightarrow> k @ ''REDACTED@'' @ redact_urls r
      | None \<Rightarrow> c # redact_urls cs)"
  by pat_completeness auto
termination
  by (relation "measure length") (auto dest: match_url_cred_shorter)

text \<open>\<open>gh[pousr]_[A-Za-z0-9]{16,}\<close>, tried first, and \<open>github_pat_[A-Za-z0-9_]{16,}\<close>.\<close>

definition token_run :: "(char \<Rightarrow> bool) \<Rightarrow> string \<Rightarrow> string option" where
  "token_run p s = (if 16 \<le> length (takeWhile p s) then Some (dropWhile p s) else None)"

definition match_bare_token :: "string \<Rightarrow> string option" where
  "match_bare_token s =
     (case strip_any [''ghp_'', ''gho_'', ''ghu_'', ''ghs_'', ''ghr_''] s of
        Some r \<Rightarrow> token_run is_alnum r
      | None \<Rightarrow>
          (case strip_prefix ''github_pat_'' s of
             Some r \<Rightarrow> token_run word_char r
           | None \<Rightarrow> None))"

lemma strip_any_shorter:
  "strip_any ps s = Some r \<Longrightarrow> [] \<notin> set ps \<Longrightarrow> length r < length s"
proof (induction ps)
  case (Cons p ps)
  then show ?case
    by (cases "strip_prefix p s") (auto simp: strip_prefix_Some)
qed simp

lemma token_run_le: "token_run p s = Some r \<Longrightarrow> length r \<le> length s"
  by (auto simp: token_run_def length_dropWhile_le split: if_splits)

lemma match_bare_token_shorter: "match_bare_token s = Some r \<Longrightarrow> length r < length s"
  by (auto simp: match_bare_token_def strip_prefix_Some split: option.splits
      dest!: token_run_le strip_any_shorter)

text \<open>\<open>\b\<close> before the token: the byte before it is not a word character.\<close>

function redact_tokens :: "bool \<Rightarrow> string \<Rightarrow> string" where
  "redact_tokens prev_word [] = []"
| "redact_tokens prev_word (c # cs) =
     (case (if prev_word then None else match_bare_token (c # cs)) of
        Some r \<Rightarrow> ''REDACTED'' @ redact_tokens True r
      | None \<Rightarrow> c # redact_tokens (word_char c) cs)"
  by pat_completeness auto
termination
  by (relation "measure (\<lambda>(b, s). length s)")
    (auto dest: match_bare_token_shorter split: if_splits)

section \<open>Capping\<close>

definition max_detail_text :: nat where
  "max_detail_text = 8192"

definition truncation_marker :: string where
  "truncation_marker = [CHR 0xE2, CHR 0x80, CHR 0xA6] @ '' [truncated]''"

definition rune_start :: "char \<Rightarrow> bool" where
  "rune_start c = ((of_char c :: nat) div 64 \<noteq> 2)"

fun cut_back :: "string \<Rightarrow> nat \<Rightarrow> nat" where
  "cut_back text 0 = 0"
| "cut_back text (Suc n) = (if rune_start (text ! Suc n) then Suc n else cut_back text n)"

definition trim_right_set :: "char list \<Rightarrow> string \<Rightarrow> string" where
  "trim_right_set cutset s = rev (dropWhile (\<lambda>c. c \<in> set cutset) (rev s))"

definition cap_text :: "string \<Rightarrow> string" where
  "cap_text text =
     (if length text \<le> max_detail_text then text
      else
        let cut = cut_back text max_detail_text;
            dropped = length text - cut
        in trim_right_set [CHR 0x20, CHR 0x09, CHR 0x0D, CHR 0x0A] (take cut text) @
           [CHR 0x0A] @ truncation_marker @ '' '' @ itoa (int dropped) @ '' more byte(s)'')"

definition sanitize :: "string \<Rightarrow> string" where
  "sanitize text =
     (if text = [] then [] else cap_text (redact_tokens False (redact_urls text)))"

section \<open>Facts\<close>

lemma cut_back_le: "cut_back s n \<le> n"
  by (induction s n rule: cut_back.induct) auto

lemma cut_back_start: "cut_back s n = 0 \<or> rune_start (s ! cut_back s n)"
  by (induction s n rule: cut_back.induct) auto

lemma trim_right_set_prefix: "\<exists>t. s = trim_right_set cutset s @ t \<and> set t \<subseteq> set cutset"
proof -
  let ?p = "\<lambda>c. c \<in> set cutset"
  have "rev s = takeWhile ?p (rev s) @ dropWhile ?p (rev s)" by simp
  then have "s = rev (dropWhile ?p (rev s)) @ rev (takeWhile ?p (rev s))"
    by (metis rev_append rev_rev_ident)
  moreover have "set (rev (takeWhile ?p (rev s))) \<subseteq> set cutset"
    by (auto dest: set_takeWhileD)
  ultimately show ?thesis unfolding trim_right_set_def by blast
qed

lemma length_itoa_nat: "length (itoa_nat n) \<le> Suc n"
proof (induction n rule: itoa_nat.induct)
  case (1 n)
  show ?case
  proof (cases "n < 10")
    case False
    with 1 have "length (itoa_nat (n div 10)) \<le> Suc (n div 10)" by simp
    moreover have "Suc (n div 10) < Suc n" using False by simp
    ultimately show ?thesis using False by (simp add: itoa_nat.simps [of n])
  qed (simp add: itoa_nat.simps [of n])
qed

section \<open>Properties\<close>

text \<open>
  However long the text, its capped form keeps a prefix of it that ends on a rune
  boundary and is at most the byte budget long, up to trailing blanks, followed by the
  marker and the exact number of bytes after the cut; a text within the budget is unchanged.
\<close>

theorem cap_text_keeps_head:
  "(length text \<le> max_detail_text \<and> cap_text text = text) \<or>
   (\<exists>cut h. cut \<le> max_detail_text \<and> (cut = 0 \<or> rune_start (text ! cut)) \<and>
      (\<exists>t. take cut text = h @ t \<and> set t \<subseteq> {CHR 0x20, CHR 0x09, CHR 0x0D, CHR 0x0A}) \<and>
      cap_text text = h @ [CHR 0x0A] @ truncation_marker @ '' '' @
        itoa (int (length text - cut)) @ '' more byte(s)'')"
proof (cases "length text \<le> max_detail_text")
  case False
  let ?c = "cut_back text max_detail_text"
  let ?b = "[CHR 0x20, CHR 0x09, CHR 0x0D, CHR 0x0A]"
  have c: "?c \<le> max_detail_text" by (rule cut_back_le)
  moreover have "?c = 0 \<or> rune_start (text ! ?c)" by (rule cut_back_start)
  moreover obtain t where "take ?c text = trim_right_set ?b (take ?c text) @ t" "set t \<subseteq> set ?b"
    using trim_right_set_prefix by blast
  ultimately show ?thesis
    using False unfolding cap_text_def Let_def
    by (intro disjI2 exI [of _ ?c] exI [of _ "trim_right_set ?b (take ?c text)"]) auto
qed (simp add: cap_text_def)

end
