(* ===== verification/Workflow_Base.thy ===== *)
theory Workflow_Base
  imports Effects Exec_Record
begin

text \<open>
  What every workflow shares: the errors Temporal carries, the best-effort notifications of
  \<open>internal/wfnotify/wfnotify.go\<close>, the recording policy of \<open>internal/wfrecord/wfrecord.go\<close>
  and the location probe of \<open>internal/wfplace/wfplace.go\<close>.

  An error is the chain \<open>errors.As\<close> walks: \<open>Wrapped\<close> is a link that adds text to its cause.
  The continue-as-new signal is an error that carries the next run's input.  How Temporal
  renders an error as text is not the program's code, so it is a parameter wherever the
  program uses the text.

  The workflow options (timeouts, retry counts) only decide when Temporal gives up on a
  call, so they are part of the answer a call gets.  The logger is not modelled.
\<close>

section \<open>Errors\<close>

datatype 'n wf_error =
    AppErr string string
  | CanceledErr
  | ContinueAsNew 'n
  | PlainErr string
  | Wrapped string "'n wf_error"

text \<open>\<open>errors.As\<close> to an application error, reading its type.\<close>

fun app_type :: "'n wf_error \<Rightarrow> string option" where
  "app_type (AppErr t m) = Some t"
| "app_type (Wrapped s e) = app_type e"
| "app_type CanceledErr = None"
| "app_type (ContinueAsNew n) = None"
| "app_type (PlainErr s) = None"

fun is_canceled :: "'n wf_error \<Rightarrow> bool" where
  "is_canceled CanceledErr = True"
| "is_canceled (Wrapped s e) = is_canceled e"
| "is_canceled (AppErr t m) = False"
| "is_canceled (ContinueAsNew n) = False"
| "is_canceled (PlainErr s) = False"

fun is_continue_as_new :: "'n wf_error \<Rightarrow> bool" where
  "is_continue_as_new (ContinueAsNew n) = True"
| "is_continue_as_new (Wrapped s e) = is_continue_as_new e"
| "is_continue_as_new (AppErr t m) = False"
| "is_continue_as_new CanceledErr = False"
| "is_continue_as_new (PlainErr s) = False"

definition err_of :: "'e + 'a \<Rightarrow> 'e option" where
  "err_of r = (case r of Inl e \<Rightarrow> Some e | Inr _ \<Rightarrow> None)"

lemma err_of_simps [simp]: "err_of (Inl e) = Some e" "err_of (Inr x) = None"
  by (simp_all add: err_of_def)

section \<open>Notifications\<close>

record notice =
  nt_id :: string
  nt_kind :: string
  nt_recipient :: string
  nt_session :: string
  nt_created :: nat
  nt_title :: string
  nt_body :: string
  nt_url :: string
  nt_webhook_body :: string

definition plain_notice :: "string \<Rightarrow> string \<Rightarrow> notice" where
  "plain_notice title body =
     \<lparr>nt_id = [], nt_kind = [], nt_recipient = [], nt_session = [], nt_created = 0,
      nt_title = title, nt_body = body, nt_url = [], nt_webhook_body = []\<rparr>"

text \<open>A failed delivery is dropped.\<close>

definition notify_best_effort ::
  "(notice \<Rightarrow> ('ev, 'e, unit) eff) \<Rightarrow> notice \<Rightarrow> ('ev, 'f, unit) eff" where
  "notify_best_effort send n = andthen (attempt (send n)) (\<lambda>_. ret ())"

definition notify_failure_with ::
  "(notice \<Rightarrow> ('ev, 'e, unit) eff) \<Rightarrow> ('n wf_error \<Rightarrow> string) \<Rightarrow> string \<Rightarrow> 'n wf_error option \<Rightarrow>
   (notice \<Rightarrow> ('ev, 'f, notice) eff) option \<Rightarrow> ('ev, 'f, unit) eff" where
  "notify_failure_with send error_text title err enrich =
     (case err of
        None \<Rightarrow> ret ()
      | Some e \<Rightarrow>
          if is_continue_as_new e then ret ()
          else
            (let n = plain_notice title (error_text e) in
             andthen (case enrich of None \<Rightarrow> ret n | Some f \<Rightarrow> f n) (notify_best_effort send)))"

definition notify_failure ::
  "(notice \<Rightarrow> ('ev, 'e, unit) eff) \<Rightarrow> ('n wf_error \<Rightarrow> string) \<Rightarrow> string \<Rightarrow> 'n wf_error option \<Rightarrow>
   ('ev, 'f, unit) eff" where
  "notify_failure send error_text title err = notify_failure_with send error_text title err None"

section \<open>Recording\<close>

text \<open>The correlation handles; Temporal's execution info gives the parameters.\<close>

record wf_info =
  wi_workflow_id :: string
  wi_run_id :: string
  wi_first_run_id :: string
  wi_parent :: "string option"

record wf_identity =
  id_workflow :: string
  id_run :: string
  id_first_run :: string
  id_parent :: string

definition identity_of :: "wf_info \<Rightarrow> wf_identity" where
  "identity_of info =
     \<lparr>id_workflow = wi_workflow_id info, id_run = wi_run_id info,
      id_first_run = (if wi_first_run_id info = [] then wi_run_id info else wi_first_run_id info),
      id_parent = (case wi_parent info of None \<Rightarrow> [] | Some p \<Rightarrow> p)\<rparr>"

definition status_of :: "'n wf_error option \<Rightarrow> exec_status" where
  "status_of err =
     (case err of
        None \<Rightarrow> SucceededStatus
      | Some e \<Rightarrow> if is_continue_as_new e then SucceededStatus else FailedStatus)"

definition failure_text :: "('n wf_error \<Rightarrow> string) \<Rightarrow> 'n wf_error option \<Rightarrow> string" where
  "failure_text error_text err =
     (case err of
        None \<Rightarrow> []
      | Some e \<Rightarrow> if is_continue_as_new e then [] else sanitize (error_text e))"

definition terminal_write_failed ::
  "(notice \<Rightarrow> ('ev, 'e, unit) eff) \<Rightarrow> ('n wf_error \<Rightarrow> string) \<Rightarrow> string \<Rightarrow> string \<Rightarrow>
   'n wf_error option \<Rightarrow> 'n wf_error \<Rightarrow> ('ev, 'f, unit) eff" where
  "terminal_write_failed send error_text what result outcome write_err =
     (let result' = (case outcome of
                       Some e \<Rightarrow> if is_continue_as_new e then result else []
                     | None \<Rightarrow> result)
      in if result' = [] then ret ()
         else notify_best_effort send
           (plain_notice (''Record not written: '' @ what)
             (''The '' @ what @
              '' finished, but its terminal record could not be written, so it stays '' @
              [CHR 0x22] @ ''running'' @ [CHR 0x22] @ '' in history.'' @ [CHR 0x0A, CHR 0x0A] @
              ''record error: '' @ error_text write_err @ [CHR 0x0A, CHR 0x0A] @
              ''result:'' @ [CHR 0x0A] @ result')))"

section \<open>The location probe\<close>

record place_facts =
  pl_directory :: string
  pl_repository :: string

definition no_place :: place_facts where
  "no_place = \<lparr>pl_directory = [], pl_repository = []\<rparr>"

definition established :: "place_facts \<Rightarrow> bool" where
  "established f = (pl_directory f \<noteq> [])"

definition probe_place ::
  "bool \<Rightarrow> (string \<Rightarrow> ('ev, 'e, place_facts) eff) \<Rightarrow> string \<Rightarrow> ('ev, 'f, place_facts) eff" where
  "probe_place enabled probe dir =
     (if \<not> enabled then ret no_place
      else if dir = [] then ret no_place
      else andthen (attempt (probe dir)) (\<lambda>r.
        ret (case r of Inl _ \<Rightarrow> no_place | Inr facts \<Rightarrow> facts)))"

section \<open>Facts\<close>

lemma notify_best_effort_result: "fst (notify_best_effort send n l) = Inr ()"
  by (simp add: notify_best_effort_def andthen_def attempt_def ret_def split: prod.split)

lemma wp_notify_best_effort [wp_rules]:
  "wp (notify_best_effort send n) Q l \<longleftrightarrow> wp (send n) (\<lambda>_ l'. Q (Inr ()) l') l"
  by (simp add: notify_best_effort_def wp_rules)

lemma appends_notify_best_effort [intro!]:
  "appends (send n) \<Longrightarrow> appends (notify_best_effort send n)"
  unfolding notify_best_effort_def by (intro appends_andthen appends_attempt appends_basic)

lemma status_of_succeeded:
  "status_of err = SucceededStatus \<longleftrightarrow> (\<forall>e. err = Some e \<longrightarrow> is_continue_as_new e)"
  by (auto simp: status_of_def split: option.splits)

end
