(* ===== verification/Settings.thy ===== *)
theory Settings
  imports Scoped_Config Workflow_Base
begin

text \<open>
  The settings catalogue (\<open>internal/setting\<close>) and its workflow side
  (\<open>internal/wfsetting/wfsetting.go\<close>): the one switch there is, its stored text, and the
  resolution that answers what it is for a place and where the answer came from.
\<close>

section \<open>The catalogue\<close>

record setting_spec =
  ss_key :: string
  ss_factory :: bool

datatype setting_error =
    UnknownSetting string
  | InvalidValue string string
  | UnreadableValue string string nat setting_error
  | SettingStoreError store_error
  | SettingsNotConfigured

definition key_steering_enabled :: string where
  "key_steering_enabled = ''steering.enabled''"

definition setting_specs :: "setting_spec list" where
  "setting_specs = [\<lparr>ss_key = key_steering_enabled, ss_factory = True\<rparr>]"

definition setting_keys :: "string list" where
  "setting_keys = map ss_key setting_specs"

definition setting_spec_for :: "string \<Rightarrow> setting_spec option" where
  "setting_spec_for key = find (\<lambda>s. ss_key s = key) setting_specs"

definition setting_format :: "bool \<Rightarrow> string" where
  "setting_format enabled = (if enabled then ''true'' else ''false'')"

definition setting_parse :: "setting_spec \<Rightarrow> string \<Rightarrow> setting_error + bool" where
  "setting_parse spec txt =
     (if trim_space txt = ''true'' then Inr True
      else if trim_space txt = ''false'' then Inr False
      else Inl (InvalidValue (ss_key spec) txt))"

definition setting_validate :: "setting_spec \<Rightarrow> string \<Rightarrow> setting_error + unit" where
  "setting_validate spec txt = rbind (setting_parse spec txt) (\<lambda>_. Inr ())"

section \<open>Resolution\<close>

record setting_value =
  sv_key :: string
  sv_enabled :: bool
  sv_scope :: string
  sv_version :: nat
  sv_hash :: string

type_synonym setting_resolution = "setting_value list"

definition setting_inherited :: "setting_value \<Rightarrow> string \<Rightarrow> bool" where
  "setting_inherited v directory = (sv_scope v \<noteq> directory_scope directory \<or> directory = [])"

definition resolution_value :: "setting_resolution \<Rightarrow> string \<Rightarrow> setting_value option" where
  "resolution_value r key = find (\<lambda>v. sv_key v = key) r"

definition resolution_enabled :: "setting_resolution \<Rightarrow> string \<Rightarrow> bool" where
  "resolution_enabled r key =
     (case resolution_value r key of
        Some v \<Rightarrow> sv_enabled v
      | None \<Rightarrow> (case setting_spec_for key of Some s \<Rightarrow> ss_factory s | None \<Rightarrow> False))"

definition setting_resolve_one ::
  "(string \<Rightarrow> string) \<Rightarrow> setting_spec \<Rightarrow> string list \<Rightarrow> scoped_record list \<Rightarrow>
   setting_error + setting_value" where
  "setting_resolve_one hash spec scopes records =
     (case winner records (ss_key spec) scopes of
        None \<Rightarrow>
          Inr \<lparr>sv_key = ss_key spec, sv_enabled = ss_factory spec, sv_scope = factory_scope,
               sv_version = 0, sv_hash = hash (setting_format (ss_factory spec))\<rparr>
      | Some r \<Rightarrow>
          (case setting_parse spec (sr_text r) of
             Inl e \<Rightarrow> Inl (UnreadableValue (ss_key spec) (sr_scope r) (sr_version r) e)
           | Inr enabled \<Rightarrow>
               Inr \<lparr>sv_key = ss_key spec, sv_enabled = enabled, sv_scope = sr_scope r,
                    sv_version = sr_version r, sv_hash = sr_hash r\<rparr>))"

text \<open>A loop that stops at the first error, collecting the results in order.\<close>

fun collect :: "('a \<Rightarrow> 'e + 'b) \<Rightarrow> 'a list \<Rightarrow> 'e + 'b list" where
  "collect f [] = Inr []"
| "collect f (x # xs) =
     (case f x of
        Inl e \<Rightarrow> Inl e
      | Inr y \<Rightarrow> (case collect f xs of Inl e \<Rightarrow> Inl e | Inr ys \<Rightarrow> Inr (y # ys)))"

definition spec_or_unknown :: "string \<Rightarrow> setting_error + setting_spec" where
  "spec_or_unknown key =
     (case setting_spec_for key of None \<Rightarrow> Inl (UnknownSetting key) | Some s \<Rightarrow> Inr s)"

record setting_request =
  rq_keys :: "string list"
  rq_scopes :: "string list"

text \<open>\<open>read\<close> is the store's \<open>Current\<close>, or \<^const>\<open>None\<close> for a process wired without one.\<close>

type_synonym scoped_reader = "string list \<Rightarrow> string list \<Rightarrow> store_error + scoped_record list"

definition pg_reader :: "string option \<Rightarrow> scoped_db \<Rightarrow> scoped_reader" where
  "pg_reader fault db keys scopes =
     (case fault of Some e \<Rightarrow> Inl (StoreFault e) | None \<Rightarrow> Inr (pg_current db keys scopes))"

definition setting_resolve ::
  "(string \<Rightarrow> string) \<Rightarrow> scoped_reader option \<Rightarrow> setting_request \<Rightarrow>
   setting_error + setting_resolution" where
  "setting_resolve hash store req =
     (case store of
        None \<Rightarrow> Inl SettingsNotConfigured
      | Some read \<Rightarrow>
          (let keys = (if rq_keys req = [] then setting_keys else rq_keys req);
               scopes = (if rq_scopes req = [] then chain [] [] else rq_scopes req)
           in rbind (collect spec_or_unknown keys) (\<lambda>specs.
                case read keys scopes of
                  Inl e \<Rightarrow> Inl (SettingStoreError e)
                | Inr records \<Rightarrow>
                    collect (\<lambda>spec. setting_resolve_one hash spec scopes records) specs)))"

definition settings_everywhere ::
  "(string \<Rightarrow> string) \<Rightarrow> scoped_reader option \<Rightarrow> setting_error + setting_resolution" where
  "settings_everywhere hash store = setting_resolve hash store \<lparr>rq_keys = [], rq_scopes = []\<rparr>"

text \<open>Publication stops at the first shipped setting the store refuses.\<close>

fun publish_settings ::
  "(string \<Rightarrow> string) \<Rightarrow> string option \<Rightarrow> setting_spec list \<Rightarrow> scoped_db \<Rightarrow>
   (store_error + unit) \<times> scoped_db" where
  "publish_settings hash fault [] db = (Inr (), db)"
| "publish_settings hash fault (s # ss) db =
     (case publish_default hash fault (ss_key s) (setting_format (ss_factory s)) db of
        (Inl e, db') \<Rightarrow> (Inl e, db')
      | (Inr _, db') \<Rightarrow> publish_settings hash fault ss db')"

section \<open>The workflow side\<close>

text \<open>\<open>Ensure\<close>: resolve once, and carry what was resolved.\<close>

definition ensure_settings ::
  "bool \<Rightarrow> (setting_request \<Rightarrow> ('ev, 'n wf_error, setting_resolution) eff) \<Rightarrow>
   setting_resolution \<Rightarrow> place_facts \<Rightarrow> string list \<Rightarrow>
   ('ev, 'n wf_error, setting_resolution) eff" where
  "ensure_settings enabled resolve resolved at keys =
     (if \<not> enabled then ret []
      else if resolved \<noteq> [] then ret resolved
      else on_error (Wrapped ''resolve the settings this work runs under: '')
        (resolve \<lparr>rq_keys = keys, rq_scopes = chain (pl_directory at) (pl_repository at)\<rparr>))"

section \<open>Facts\<close>

lemma trim_true: "trim_space ''true'' = ''true''"
  and trim_false: "trim_space ''false'' = ''false''"
  by code_simp+

lemma setting_parse_format [simp]: "setting_parse spec (setting_format b) = Inr b"
  by (simp add: setting_parse_def setting_format_def trim_true trim_false)

lemma steering_known: "setting_spec_for key_steering_enabled =
    Some \<lparr>ss_key = key_steering_enabled, ss_factory = True\<rparr>"
  by (simp add: setting_spec_for_def setting_specs_def)

section \<open>Properties\<close>

text \<open>
  A switch saved at a place is what work there resolves to, on the first read after the
  save and with the place as its source, whatever the installation or any other place says.
\<close>

theorem saved_switch_applies:
  assumes "db_inv db" "d \<noteq> []"
    and "pg_set hash None key_steering_enabled (directory_scope d) (setting_format b) u db = (Inr r, db')"
  shows "setting_resolve hash (Some (pg_reader None db'))
      \<lparr>rq_keys = [key_steering_enabled], rq_scopes = chain d rep\<rparr> =
    Inr [\<lparr>sv_key = key_steering_enabled, sv_enabled = b, sv_scope = directory_scope d,
          sv_version = sr_version r, sv_hash = sr_hash r\<rparr>]"
proof -
  obtain ss where ch: "chain d rep = directory_scope d # ss" using assms(2) by (simp add: chain_def)
  have w: "winner (pg_current db' [key_steering_enabled] (chain d rep)) key_steering_enabled (chain d rep) = Some r"
    unfolding ch by (rule pg.winner_after_put [OF assms(1,3)]) simp
  have p: "inv \<longrightarrow> pg_point db' key_steering_enabled (directory_scope d) = Some r" for inv
    using pg.put_ok [OF assms(1,3)] by simp
  have "db_inv db'" and t: "sr_text r = setting_format b" using pg.put_ok [OF assms(1,3)] by auto
  then have s: "sr_scope r = directory_scope d"
    using pg.point_for [of db' key_steering_enabled "directory_scope d" r] p by (simp add: record_for_def)
  show ?thesis
    using w s t ch [THEN arg_cong, of "\<lambda>xs. xs = []"]
    by (simp del: winner.simps add: setting_resolve_def pg_reader_def spec_or_unknown_def steering_known
        setting_resolve_one_def Let_def)
qed

theorem saved_switch_applies_witness:
  "\<exists>db (r :: scoped_record). setting_resolve (\<lambda>t. t) (Some (pg_reader None db))
      \<lparr>rq_keys = [key_steering_enabled], rq_scopes = chain ''/w'' ''/r''\<rparr> =
    Inr [\<lparr>sv_key = key_steering_enabled, sv_enabled = False, sv_scope = ''directory:/w'',
          sv_version = sr_version r, sv_hash = sr_hash r\<rparr>]"
proof -
  obtain r db where s: "pg_set (\<lambda>t. t) None key_steering_enabled (directory_scope ''/w'')
      (setting_format False) ''u'' empty_db = (Inr r, db)"
    by (simp add: pg_set_def append_and_point_def Let_def)
  from saved_switch_applies [OF empty_db_inv _ s, of "''/r''"]
  have "setting_resolve (\<lambda>t. t) (Some (pg_reader None db))
      \<lparr>rq_keys = [key_steering_enabled], rq_scopes = chain ''/w'' ''/r''\<rparr> =
    Inr [\<lparr>sv_key = key_steering_enabled, sv_enabled = False, sv_scope = ''directory:/w'',
          sv_version = sr_version r, sv_hash = sr_hash r\<rparr>]"
    by (simp add: directory_scope_def)
  then show ?thesis by blast
qed

end
