(* ===== verification/Instructions.thy ===== *)
theory Instructions
  imports Settings
begin

text \<open>
  The instructions the agent is given (\<open>internal/instruction\<close>): the catalogue with its
  shipped texts and declared inserts, the checks an override must pass, rendering, resolution
  of a text and its paired model, and the configuration surface that saves and clears
  overrides on the scoped store.  \<open>internal/wfinstruction\<close> is the workflow side.

  An override is a Go template.  Which template actions exist is the template engine's
  business, so the engine is a parameter: it parses and executes a text, or says which of the
  two failed.  \<open>field_engine\<close> is that engine on the texts the program itself ships, whose
  only actions are \<open>{{.Name}}\<close>.
\<close>

section \<open>The catalogue\<close>

record insert =
  in_name :: string
  in_purpose :: string
  in_required :: bool

record instruction_spec =
  is_key :: string
  is_purpose :: string
  is_factory :: string
  is_factory_model :: string
  is_inserts :: "insert list"
  is_system :: string
  is_advanced :: bool

definition insert_action :: "insert \<Rightarrow> string" where
  "insert_action i = ''{{.'' @ in_name i @ ''}}''"

definition key_review_perform :: string where
  "key_review_perform = ''review.perform''"

definition key_review_implement :: string where
  "key_review_implement = ''review.implement''"

definition key_pilot_address :: string where
  "key_pilot_address = ''pilot.address''"

definition key_steering_question :: string where
  "key_steering_question = ''steering.question''"

definition model_key :: "string \<Rightarrow> string" where
  "model_key key = key @ ''.model''"

definition max_text_length :: nat where
  "max_text_length = 16384"

definition max_model_length :: nat where
  "max_model_length = 256"

definition factory_review_implement :: string where
  "factory_review_implement =
     ''Implement the actionable changes called for by the code review below. '' @
     ''Read the referenced code for context and make the changes. Confirm '' @
     ''lint/typecheck/build (and synth, if infra) pass, then commit all your work. '' @
     ''If nothing in the review requires a code change, do not commit anything.'' @ nl @ nl @
     ''{{.Review}}''"

definition factory_pilot_address :: string where
  "factory_pilot_address =
     ''- For each comment below, read the referenced code for context, then fix it. '' @
     ''Read the code and relevant in-repo documentation to decide on the solution.'' @ nl @
     ''- Confirm lint/typecheck/build (and synth, if infra) pass first.'' @ nl @
     ''- Commit all the fixes.'' @ nl @
     ''- Summarize your work once you are done explaining WHAT changed (not HOW)''"

definition factory_steering_question :: string where
  "factory_steering_question =
     ''Answer only the question the operator asked about the review material.'' @ nl @
     ''Keep the answer concise and focused. Do not ask the operator questions.'' @ nl @
     ''Do not propose or make repository changes.'' @ nl @
     ''When asked to finish, return only a self-contained guidance draft, not an explanation.''"

definition instruction_specs :: "instruction_spec list" where
  "instruction_specs =
     [\<lparr>is_key = key_review_perform, is_purpose = ''How the agent reviews the current branch.'',
       is_factory = ''Perform a thorough code review of the current branch'',
       is_factory_model = [], is_inserts = [], is_system = [], is_advanced = False\<rparr>,
      \<lparr>is_key = key_review_implement,
       is_purpose = ''How the agent acts on a review's findings.'',
       is_factory = factory_review_implement, is_factory_model = [],
       is_inserts = [\<lparr>in_name = ''Review'',
         in_purpose = ''The previous pass's raw review output.'', in_required = True\<rparr>],
       is_system = [], is_advanced = False\<rparr>,
      \<lparr>is_key = key_pilot_address,
       is_purpose = ''How the agent addresses the unresolved review comments on a pull request.'',
       is_factory = factory_pilot_address, is_factory_model = [],
       is_inserts = [\<lparr>in_name = ''Comments'',
         in_purpose = ''The pull request's description and its unresolved comment threads.'',
         in_required = False\<rparr>],
       is_system = nl @ ''{{.Comments}}'', is_advanced = True\<rparr>,
      \<lparr>is_key = key_steering_question,
       is_purpose =
         ''How the read-only agent answers operator questions about one review round.'',
       is_factory = factory_steering_question, is_factory_model = [],
       is_inserts = [\<lparr>in_name = ''Material'',
         in_purpose = ''The review material the operator is deciding about.'',
         in_required = False\<rparr>],
       is_system = nl @ nl @ ''Review material:'' @ nl @ ''{{.Material}}'', is_advanced = True\<rparr>]"

definition instruction_keys :: "string list" where
  "instruction_keys = map is_key instruction_specs"

definition instruction_spec_for :: "string \<Rightarrow> instruction_spec option" where
  "instruction_spec_for key = find (\<lambda>s. is_key s = key) instruction_specs"

section \<open>Validation and rendering\<close>

datatype instruction_error =
    UnknownInstruction string
  | InvalidModelText string
  | ModelNotOnePattern string
  | ModelWhitespace string
  | EmptyInstruction string
  | InstructionNotText string
  | InstructionTooLong string nat
  | NotATemplate string string
  | NotRenderable string string
  | MissingInsert string string
  | SystemInsert string string
  | InvalidTarget string
  | InstructionStoreError store_error
  | UnusableDefault string instruction_error
  | InstructionsNotConfigured

datatype template_result = ParseFailed string | ExecFailed string | Rendered string

type_synonym template_data = "string \<rightharpoonup> string"
type_synonym template_engine = "string \<Rightarrow> template_data \<Rightarrow> template_result"

definition validate_model :: "instruction_spec \<Rightarrow> string \<Rightarrow> instruction_error + unit" where
  "validate_model spec model =
     (if \<not> valid_utf8 model \<or> length model > max_model_length then Inl (InvalidModelText (is_key spec))
      else if \<exists>c \<in> set model. c \<in> {CHR 0x0D, CHR 0x0A, CHR 0x00} then
        Inl (ModelNotOnePattern (is_key spec))
      else if model \<noteq> trim_space model then Inl (ModelWhitespace (is_key spec))
      else Inr ())"

definition spec_insert :: "instruction_spec \<Rightarrow> string \<Rightarrow> insert option" where
  "spec_insert spec name = find (\<lambda>i. in_name i = name) (is_inserts spec)"

definition sentinel :: "string \<Rightarrow> string" where
  "sentinel name = [CHR 0x00] @ ''insert:'' @ name @ [CHR 0x00]"

definition sentinels :: "instruction_spec \<Rightarrow> template_data" where
  "sentinels spec = foldl (\<lambda>m i. m(in_name i \<mapsto> sentinel (in_name i))) Map.empty (is_inserts spec)"

definition render_part ::
  "template_engine \<Rightarrow> instruction_spec \<Rightarrow> string \<Rightarrow> template_data \<Rightarrow> instruction_error + string" where
  "render_part engine spec txt data =
     (case engine txt data of
        ParseFailed e \<Rightarrow> Inl (NotATemplate (is_key spec) e)
      | ExecFailed e \<Rightarrow> Inl (NotRenderable (is_key spec) e)
      | Rendered out \<Rightarrow> Inr out)"

definition render ::
  "template_engine \<Rightarrow> instruction_spec \<Rightarrow> string \<Rightarrow> template_data \<Rightarrow> instruction_error + string" where
  "render engine spec txt data = render_part engine spec (txt @ is_system spec) data"

fun check_inserts ::
  "instruction_spec \<Rightarrow> string \<Rightarrow> insert list \<Rightarrow> instruction_error + unit" where
  "check_inserts spec rendered [] = Inr ()"
| "check_inserts spec rendered (i # is) =
     (let present = contains rendered (sentinel (in_name i)) in
      if in_required i \<and> \<not> present then Inl (MissingInsert (is_key spec) (in_name i))
      else if \<not> in_required i \<and> contains (is_system spec) (insert_action i) \<and> present then
        Inl (SystemInsert (is_key spec) (in_name i))
      else check_inserts spec rendered is)"

definition validate_instruction ::
  "template_engine \<Rightarrow> instruction_spec \<Rightarrow> string \<Rightarrow> instruction_error + unit" where
  "validate_instruction engine spec txt =
     (if trim_space txt = [] then Inl (EmptyInstruction (is_key spec))
      else if \<not> valid_utf8 txt then Inl (InstructionNotText (is_key spec))
      else if length txt > max_text_length then
        Inl (InstructionTooLong (is_key spec) (length txt))
      else rbind (render_part engine spec txt (sentinels spec)) (\<lambda>rendered.
        check_inserts spec rendered (is_inserts spec)))"

text \<open>The engine on texts whose only actions are \<open>{{.Name}}\<close>, with \<open>missingkey=error\<close>.\<close>

fun field_exec :: "nat \<Rightarrow> string \<Rightarrow> template_data \<Rightarrow> template_result" where
  "field_exec 0 s data = ParseFailed ''''"
| "field_exec (Suc n) s data =
     (case s of
        [] \<Rightarrow> Rendered []
      | c # cs \<Rightarrow>
          (case strip_prefix ''{{.'' s of
             Some r \<Rightarrow>
               (let name = takeWhile is_alnum r in
                case strip_prefix ''}}'' (dropWhile is_alnum r) of
                  Some r' \<Rightarrow>
                    if name = [] then ParseFailed s
                    else (case data name of
                            None \<Rightarrow> ExecFailed name
                          | Some v \<Rightarrow>
                              (case field_exec n r' data of Rendered t \<Rightarrow> Rendered (v @ t) | e \<Rightarrow> e))
                | None \<Rightarrow> ParseFailed s)
           | None \<Rightarrow>
               if has_prefix s ''{{'' then ParseFailed s
               else (case field_exec n cs data of Rendered t \<Rightarrow> Rendered (c # t) | e \<Rightarrow> e)))"

definition field_engine :: template_engine where
  "field_engine txt data = field_exec (Suc (length txt)) txt data"

section \<open>Resolution\<close>

record model_value =
  mv_text :: string
  mv_scope :: string
  mv_version :: nat
  mv_hash :: string

record instruction_value =
  iv_key :: string
  iv_text :: string
  iv_scope :: string
  iv_version :: nat
  iv_hash :: string
  iv_model :: model_value

type_synonym instruction_resolution = "instruction_value list"

definition instruction_value_of ::
  "instruction_resolution \<Rightarrow> string \<Rightarrow> instruction_value option" where
  "instruction_value_of r key = find (\<lambda>v. iv_key v = key) r"

definition instruction_text :: "instruction_resolution \<Rightarrow> string \<Rightarrow> string" where
  "instruction_text r key =
     (case instruction_value_of r key of
        Some v \<Rightarrow> iv_text v
      | None \<Rightarrow> (case instruction_spec_for key of Some s \<Rightarrow> is_factory s | None \<Rightarrow> []))"

definition instruction_model :: "instruction_resolution \<Rightarrow> string \<Rightarrow> string" where
  "instruction_model r key =
     (case instruction_value_of r key of Some v \<Rightarrow> mv_text (iv_model v) | None \<Rightarrow> [])"

definition render_key ::
  "template_engine \<Rightarrow> instruction_resolution \<Rightarrow> string \<Rightarrow> template_data \<Rightarrow>
   instruction_error + string" where
  "render_key engine r key data =
     (case instruction_spec_for key of
        None \<Rightarrow> Inl (UnknownInstruction key)
      | Some spec \<Rightarrow> render engine spec (instruction_text r key) data)"

definition no_model :: model_value where
  "no_model = \<lparr>mv_text = [], mv_scope = [], mv_version = 0, mv_hash = []\<rparr>"

definition instruction_resolve_one ::
  "(string \<Rightarrow> string) \<Rightarrow> instruction_spec \<Rightarrow> string list \<Rightarrow> scoped_record list \<Rightarrow> instruction_value" where
  "instruction_resolve_one hash spec scopes records =
     (case winner records (is_key spec) scopes of
        Some r \<Rightarrow> \<lparr>iv_key = is_key spec, iv_text = sr_text r, iv_scope = sr_scope r,
                  iv_version = sr_version r, iv_hash = sr_hash r, iv_model = no_model\<rparr>
      | None \<Rightarrow> \<lparr>iv_key = is_key spec, iv_text = is_factory spec, iv_scope = factory_scope,
                 iv_version = 0, iv_hash = hash (is_factory spec), iv_model = no_model\<rparr>)"

definition resolve_model ::
  "(string \<Rightarrow> string) \<Rightarrow> instruction_spec \<Rightarrow> string list \<Rightarrow> scoped_record list \<Rightarrow> model_value" where
  "resolve_model hash spec scopes records =
     (case winner records (model_key (is_key spec)) scopes of
        Some r \<Rightarrow> \<lparr>mv_text = sr_text r, mv_scope = sr_scope r, mv_version = sr_version r,
                  mv_hash = sr_hash r\<rparr>
      | None \<Rightarrow> \<lparr>mv_text = is_factory_model spec, mv_scope = factory_scope, mv_version = 0,
                 mv_hash = hash (is_factory_model spec)\<rparr>)"

definition instruction_spec_or_unknown :: "string \<Rightarrow> instruction_error + instruction_spec" where
  "instruction_spec_or_unknown key =
     (case instruction_spec_for key of
        None \<Rightarrow> Inl (UnknownInstruction key)
      | Some s \<Rightarrow> Inr s)"

definition resolve_instructions ::
  "(string \<Rightarrow> string) \<Rightarrow> scoped_reader option \<Rightarrow> setting_request \<Rightarrow>
   instruction_error + instruction_resolution" where
  "resolve_instructions hash store req =
     (case store of
        None \<Rightarrow> Inl InstructionsNotConfigured
      | Some read \<Rightarrow>
          rbind (collect instruction_spec_or_unknown (rq_keys req)) (\<lambda>specs.
            (let scopes = (if rq_scopes req = [] then chain [] [] else rq_scopes req);
                 keys = concat (map (\<lambda>k. [k, model_key k]) (rq_keys req))
             in case read keys scopes of
                  Inl e \<Rightarrow> Inl (InstructionStoreError e)
                | Inr records \<Rightarrow>
                    Inr (map (\<lambda>spec. (instruction_resolve_one hash spec scopes records)
                           \<lparr>iv_model := resolve_model hash spec scopes records\<rparr>) specs))))"

definition ensure_instructions ::
  "bool \<Rightarrow> (setting_request \<Rightarrow> ('ev, 'n wf_error, instruction_resolution) eff) \<Rightarrow>
   instruction_resolution \<Rightarrow> place_facts \<Rightarrow> string list \<Rightarrow>
   ('ev, 'n wf_error, instruction_resolution) eff" where
  "ensure_instructions enabled resolve resolved at keys =
     (if \<not> enabled then ret []
      else if resolved \<noteq> [] then ret resolved
      else on_error (Wrapped ''resolve the instructions this work runs under: '')
        (resolve \<lparr>rq_keys = keys, rq_scopes = chain (pl_directory at) (pl_repository at)\<rparr>))"

section \<open>Publication\<close>

fun publish_instructions ::
  "template_engine \<Rightarrow> (string \<Rightarrow> string) \<Rightarrow> string option \<Rightarrow> instruction_spec list \<Rightarrow> scoped_db \<Rightarrow>
   (instruction_error + unit) \<times> scoped_db" where
  "publish_instructions engine hash fault [] db = (Inr (), db)"
| "publish_instructions engine hash fault (s # ss) db =
     (case validate_instruction engine s (is_factory s) of
        Inl e \<Rightarrow> (Inl (UnusableDefault (is_key s) e), db)
      | Inr _ \<Rightarrow>
          (case validate_model s (is_factory_model s) of
             Inl e \<Rightarrow> (Inl (UnusableDefault (is_key s) e), db)
           | Inr _ \<Rightarrow>
               (case publish_default hash fault (is_key s) (is_factory s) db of
                  (Inl e, db1) \<Rightarrow> (Inl (InstructionStoreError e), db1)
                | (Inr _, db1) \<Rightarrow>
                    (case publish_default hash fault (model_key (is_key s)) (is_factory_model s) db1 of
                       (Inl e, db2) \<Rightarrow> (Inl (InstructionStoreError e), db2)
                     | (Inr _, db2) \<Rightarrow> publish_instructions engine hash fault ss db2))))"

section \<open>Configuration\<close>

record target =
  tg_scope :: string
  tg_scopes :: "string list"

definition global_target :: target where
  "global_target = \<lparr>tg_scope = global_scope, tg_scopes = [global_scope, factory_scope]\<rparr>"

definition place_target :: "string \<Rightarrow> string \<Rightarrow> target" where
  "place_target directory repository =
     \<lparr>tg_scope = directory_scope directory, tg_scopes = chain directory repository\<rparr>"

definition validate_target :: "target \<Rightarrow> instruction_error + unit" where
  "validate_target t =
     (if tg_scope t = [] \<or> tg_scope t = factory_scope \<or> length (tg_scopes t) < 2 \<or>
         tg_scopes t ! 0 \<noteq> tg_scope t
      then Inl (InvalidTarget ''the target must be global or an established directory place'')
      else if tg_scope t \<noteq> global_scope \<and> scope_kind (tg_scope t) \<noteq> ''directory'' then
        Inl (InvalidTarget (tg_scope t @ '' cannot be edited''))
      else if last (tg_scopes t) \<noteq> factory_scope then
        Inl (InvalidTarget ''the target has no factory fallback'')
      else Inr ())"

record configured =
  cf_spec :: instruction_spec
  cf_effective :: instruction_value
  cf_inherited :: instruction_value
  cf_overridden :: bool
  cf_effective_model :: model_value
  cf_inherited_model :: model_value
  cf_model_overridden :: bool

definition configured_item ::
  "(string \<Rightarrow> string) \<Rightarrow> target \<Rightarrow> scoped_record list \<Rightarrow> instruction_spec \<Rightarrow> configured" where
  "configured_item hash t records spec =
     (let inherited_scopes = tl (tg_scopes t);
          effective = instruction_resolve_one hash spec (tg_scopes t) records;
          effective_model = resolve_model hash spec (tg_scopes t) records
      in \<lparr>cf_spec = spec, cf_effective = effective,
          cf_inherited = instruction_resolve_one hash spec inherited_scopes records,
          cf_overridden = (iv_scope effective = tg_scope t),
          cf_effective_model = effective_model,
          cf_inherited_model = resolve_model hash spec inherited_scopes records,
          cf_model_overridden = (mv_scope effective_model = tg_scope t)\<rparr>)"

text \<open>The record keys the catalogue reads: every key and its model key.\<close>

definition catalogue_keys :: "string list" where
  "catalogue_keys = concat (map (\<lambda>k. [k, model_key k]) instruction_keys)"

definition config_catalogue ::
  "bool \<Rightarrow> (string \<Rightarrow> string) \<Rightarrow> string option \<Rightarrow> target \<Rightarrow> scoped_db \<Rightarrow>
   instruction_error + configured list" where
  "config_catalogue wired hash fault t db =
     (if \<not> wired then Inl InstructionsNotConfigured
      else rbind (validate_target t) (\<lambda>_.
        case pg_reader fault db catalogue_keys (tg_scopes t) of
          Inl e \<Rightarrow> Inl (InstructionStoreError e)
        | Inr records \<Rightarrow> Inr (map (configured_item hash t records) instruction_specs)))"

definition catalogue_value :: "configured list \<Rightarrow> string \<Rightarrow> configured option" where
  "catalogue_value c key = find (\<lambda>i. is_key (cf_spec i) = key) c"

definition store_result ::
  "(store_error + 'a) \<times> scoped_db \<Rightarrow> (instruction_error + 'a) \<times> scoped_db" where
  "store_result r =
     (case r of (Inl e, db) \<Rightarrow> (Inl (InstructionStoreError e), db) | (Inr x, db) \<Rightarrow> (Inr x, db))"

text \<open>The guards every mutation starts with.\<close>

definition config_guard :: "bool \<Rightarrow> target \<Rightarrow> string \<Rightarrow> instruction_error + instruction_spec" where
  "config_guard wired t key =
     (if \<not> wired then Inl InstructionsNotConfigured
      else rbind (validate_target t) (\<lambda>_. instruction_spec_or_unknown key))"

definition config_set ::
  "bool \<Rightarrow> template_engine \<Rightarrow> (string \<Rightarrow> string) \<Rightarrow> string option \<Rightarrow> target \<Rightarrow> string \<Rightarrow> string \<Rightarrow>
   string \<Rightarrow> scoped_db \<Rightarrow> (instruction_error + scoped_record) \<times> scoped_db" where
  "config_set wired engine hash fault t key txt saved_by db =
     (case rbind (config_guard wired t key) (\<lambda>spec. validate_instruction engine spec txt) of
        Inl e \<Rightarrow> (Inl e, db)
      | Inr _ \<Rightarrow> store_result (pg_set hash fault key (tg_scope t) txt saved_by db))"

definition config_set_model ::
  "bool \<Rightarrow> (string \<Rightarrow> string) \<Rightarrow> string option \<Rightarrow> target \<Rightarrow> string \<Rightarrow> string \<Rightarrow>
   string \<Rightarrow> scoped_db \<Rightarrow> (instruction_error + scoped_record) \<times> scoped_db" where
  "config_set_model wired hash fault t key model saved_by db =
     (case rbind (config_guard wired t key) (\<lambda>spec. validate_model spec model) of
        Inl e \<Rightarrow> (Inl e, db)
      | Inr _ \<Rightarrow> store_result (pg_set hash fault (model_key key) (tg_scope t) model saved_by db))"

definition config_reset ::
  "bool \<Rightarrow> string option \<Rightarrow> target \<Rightarrow> string \<Rightarrow> scoped_db \<Rightarrow> (instruction_error + unit) \<times> scoped_db" where
  "config_reset wired fault t key db =
     (case config_guard wired t key of
        Inl e \<Rightarrow> (Inl e, db)
      | Inr _ \<Rightarrow> store_result (pg_reset fault key (tg_scope t) db))"

definition config_reset_model ::
  "bool \<Rightarrow> string option \<Rightarrow> target \<Rightarrow> string \<Rightarrow> scoped_db \<Rightarrow> (instruction_error + unit) \<times> scoped_db" where
  "config_reset_model wired fault t key db =
     (case config_guard wired t key of
        Inl e \<Rightarrow> (Inl e, db)
      | Inr _ \<Rightarrow> store_result (pg_reset fault (model_key key) (tg_scope t) db))"

section \<open>Facts\<close>

lemma spec_for_in: "instruction_spec_for key = Some spec \<Longrightarrow> spec \<in> set instruction_specs \<and> is_key spec = key"
  by (auto simp: instruction_spec_for_def find_Some_iff)

lemma spec_key_in_catalogue:
  "spec \<in> set instruction_specs \<Longrightarrow> is_key spec \<in> set catalogue_keys"
  by (auto simp: catalogue_keys_def instruction_keys_def)

lemma store_result_Inr: "store_result x = (Inr r, db') \<Longrightarrow> x = (Inr r, db')"
  by (auto simp: store_result_def split: prod.splits sum.splits)

lemma config_set_ok:
  "config_set wired engine hash fault t key txt u db = (Inr r, db') \<Longrightarrow>
   \<exists>spec. validate_target t = Inr () \<and> instruction_spec_for key = Some spec \<and>
     validate_instruction engine spec txt = Inr () \<and>
     pg_set hash fault key (tg_scope t) txt u db = (Inr r, db')"
  by (auto simp: config_set_def config_guard_def instruction_spec_or_unknown_def rbind_eq_Inr
      split: sum.splits if_splits option.splits dest!: store_result_Inr)

lemma config_reset_ok:
  "config_reset wired fault t key db = (Inr y, db') \<Longrightarrow>
   \<exists>spec. validate_target t = Inr () \<and> instruction_spec_for key = Some spec \<and>
     pg_reset fault key (tg_scope t) db = (Inr (), db')"
  by (auto simp: config_reset_def config_guard_def instruction_spec_or_unknown_def rbind_eq_Inr
      split: sum.splits if_splits option.splits dest!: store_result_Inr)

lemma catalogue_value_map:
  "instruction_spec_for key = Some spec \<Longrightarrow>
   catalogue_value (map (configured_item hash t records) instruction_specs) key =
     Some (configured_item hash t records spec)"
proof -
  have "find (\<lambda>i. is_key (cf_spec i) = key) (map (configured_item hash t records) ss) =
      map_option (configured_item hash t records) (find (\<lambda>s. is_key s = key) ss)" for ss
    by (induction ss) (auto simp: configured_item_def Let_def)
  then show "instruction_spec_for key = Some spec \<Longrightarrow> ?thesis"
    by (simp add: catalogue_value_def instruction_spec_for_def)
qed

lemma config_catalogue_value:
  "validate_target t = Inr () \<Longrightarrow> instruction_spec_for key = Some spec \<Longrightarrow>
   \<exists>c. config_catalogue True hash None t db = Inr c \<and>
     catalogue_value c key = Some (configured_item hash t (pg_current db catalogue_keys (tg_scopes t)) spec)"
  using catalogue_value_map by (simp add: config_catalogue_def pg_reader_def)

text \<open>A chain never repeats the scope it starts at.\<close>

definition operator_target :: "target \<Rightarrow> bool" where
  "operator_target t =
     (t = global_target \<or> (\<exists>d rep. d \<noteq> [] \<and> t = place_target d rep))"

lemma operator_target_shape:
  assumes "operator_target t"
  obtains ss where "tg_scopes t = tg_scope t # ss" "tg_scope t \<notin> set ss" "validate_target t = Inr ()"
proof -
  have fixed: "global_scope \<noteq> factory_scope" "factory_scope \<noteq> []" "global_scope \<noteq> []"
      "\<not> has_prefix global_scope ''directory:''" "\<not> has_prefix factory_scope ''directory:''"
    by (simp_all add: global_scope_def factory_scope_def)
  from assms consider (global) "t = global_target"
    | (place) d rep where "d \<noteq> []" "t = place_target d rep"
    by (auto simp: operator_target_def)
  then show thesis
  proof cases
    case global
    then show thesis
      using that [of "[factory_scope]"] fixed
      by (simp add: global_target_def validate_target_def)
  next
    case (place d rep)
    have k: "directory_scope d = ''directory:'' @ d" using place by (simp add: directory_scope_def)
    have dp: "has_prefix (directory_scope d) ''directory:''" unfolding k by (rule has_prefix_append)
    then have ne: "directory_scope d \<noteq> global_scope" "directory_scope d \<noteq> factory_scope"
        "directory_scope d \<noteq> []"
      using fixed(4,5) dp k by (metis, metis, simp)
    obtain ss where ss: "chain d rep = directory_scope d # ss"
        "set ss \<subseteq> {directory_scope rep, global_scope, factory_scope}"
        "rep = d \<longrightarrow> directory_scope rep \<notin> set ss" "last ss = factory_scope" "ss \<noteq> []"
      using place ne by (auto simp: chain_def)
    have "rep \<noteq> d \<Longrightarrow> directory_scope rep \<noteq> directory_scope d"
      by (auto simp: directory_scope_def place)
    then have "directory_scope d \<notin> set ss" using ss ne by auto
    moreover have "scope_kind (directory_scope d) = ''directory''"
      using ne dp by (simp add: scope_kind_def)
    ultimately show thesis
      using that [of ss] place ss ne
      by (cases ss) (auto simp: place_target_def validate_target_def)
  qed
qed

lemma validate_target_editable: "validate_target t = Inr () \<Longrightarrow> tg_scope t \<noteq> factory_scope"
  by (auto simp: validate_target_def split: if_splits)

lemma config_guard_ok:
  "config_guard wired t key = Inr spec \<Longrightarrow>
   wired \<and> validate_target t = Inr () \<and> instruction_spec_for key = Some spec"
  by (auto simp: config_guard_def instruction_spec_or_unknown_def rbind_eq_Inr
      split: if_splits option.splits)

lemma snd_store_result: "snd (store_result x) = snd x"
  by (auto simp: store_result_def split: prod.splits sum.splits)

lemma set_elsewhere:
  assumes "db_inv db" "s \<noteq> s'"
  shows "pg_point (snd (pg_set hash fault k s txt u db)) k' s' = pg_point db k' s'"
proof (cases "pg_set hash fault k s txt u db")
  case (Pair x db')
  then show ?thesis
  proof (cases x)
    case (Inl e)
    with Pair have "db' = db" by (auto dest: pg.put_error)
    with Pair show ?thesis by simp
  next
    case (Inr r)
    with Pair pg.put_ok [OF assms(1), of hash fault k s "txt" u r db'] assms(2) show ?thesis by auto
  qed
qed

lemma reset_elsewhere:
  assumes "db_inv db" "s \<noteq> s'"
  shows "pg_point (snd (pg_reset fault k s db)) k' s' = pg_point db k' s'"
proof (cases "pg_reset fault k s db")
  case (Pair x db')
  then show ?thesis
  proof (cases x)
    case (Inl e)
    with Pair have "db' = db" by (auto dest: pg.reset_error)
    with Pair show ?thesis by simp
  next
    case (Inr r)
    with Pair pg.reset_ok [OF assms(1), of fault k s r db'] assms(2) show ?thesis by auto
  qed
qed

section \<open>Properties\<close>

text \<open>
  An instruction override an operator saves at the installation or at a place is what the
  catalogue then reports as effective and overridden there, next to the same inherited value
  as before; clearing it makes the effective value the inherited one again.
\<close>

theorem override_then_reset:
  assumes "db_inv db" "operator_target t"
    and "config_set True engine hash None t key txt u db = (Inr r, db')"
    and "config_reset True None t key db' = (Inr (), db'')"
  shows "\<exists>c0 c1 c2 i0 i1 i2.
    config_catalogue True hash None t db = Inr c0 \<and> catalogue_value c0 key = Some i0 \<and>
    config_catalogue True hash None t db' = Inr c1 \<and> catalogue_value c1 key = Some i1 \<and>
    config_catalogue True hash None t db'' = Inr c2 \<and> catalogue_value c2 key = Some i2 \<and>
    iv_text (cf_effective i1) = txt \<and> cf_overridden i1 \<and> cf_inherited i1 = cf_inherited i0 \<and>
    cf_effective i2 = cf_inherited i0"
proof -
  obtain ss where sc: "tg_scopes t = tg_scope t # ss" "tg_scope t \<notin> set ss"
      and vt: "validate_target t = Inr ()"
    using operator_target_shape [OF assms(2)] .
  obtain spec where sp: "instruction_spec_for key = Some spec"
      and st: "pg_set hash None key (tg_scope t) txt u db = (Inr r, db')"
    using config_set_ok [OF assms(3)] by metis
  have rs: "pg_reset None key (tg_scope t) db' = (Inr (), db'')"
    using config_reset_ok [OF assms(4)] by metis
  have key: "is_key spec = key" "key \<in> set catalogue_keys"
    using spec_for_in [OF sp] spec_key_in_catalogue by auto
  have put: "db_inv db'" "sr_text r = txt" "record_for key (tg_scope t) r"
    "\<And>s'. pg_point db' key s' = (if s' = tg_scope t then Some r else pg_point db key s')"
    using pg.put_ok [OF assms(1) st] pg.point_for [of db' key "tg_scope t" r] by auto
  let ?R = "\<lambda>db. pg_current db catalogue_keys (tg_scopes t)"
  have w1: "winner (?R db') key (tg_scopes t) = Some r"
    unfolding sc(1) by (rule pg.winner_after_put [OF assms(1) st key(2)])
  have sub: "set ss \<subseteq> set (tg_scopes t)" using sc(1) by auto
  have i1: "winner (?R db') key ss = winner (?R db) key ss"
    using put sc(2) assms(1) key(2) sub by (intro pg.winner_same) auto
  have "winner (?R db'') key (tg_scopes t) = winner (pg_current db' catalogue_keys ss) key ss"
    unfolding sc(1) by (rule pg.winner_after_reset [OF put(1) rs key(2) sc(2)])
  also have "\<dots> = winner (?R db) key ss"
    using put sc(2) assms(1) key(2) sub by (intro pg.winner_same) auto
  finally have w2: "winner (?R db'') key (tg_scopes t) = winner (?R db) key ss" .
  have tl: "tl (tg_scopes t) = ss" using sc(1) by simp
  note item = configured_item_def instruction_resolve_one_def Let_def key(1) tl
  obtain c0 c1 c2 where
    "config_catalogue True hash None t db = Inr c0" "catalogue_value c0 key = Some (configured_item hash t (?R db) spec)"
    "config_catalogue True hash None t db' = Inr c1" "catalogue_value c1 key = Some (configured_item hash t (?R db') spec)"
    "config_catalogue True hash None t db'' = Inr c2" "catalogue_value c2 key = Some (configured_item hash t (?R db'') spec)"
    using config_catalogue_value [OF vt sp] by metis
  moreover have "iv_text (cf_effective (configured_item hash t (?R db') spec)) = txt"
    "cf_overridden (configured_item hash t (?R db') spec)"
    using put w1 by (auto simp: item record_for_def)
  moreover have "cf_inherited (configured_item hash t (?R db') spec) = cf_inherited (configured_item hash t (?R db) spec)"
    using i1 by (simp add: item)
  moreover have "cf_effective (configured_item hash t (?R db'') spec) = cf_inherited (configured_item hash t (?R db) spec)"
    using w2 by (simp add: item)
  ultimately show ?thesis by blast
qed

theorem override_then_reset_witness:
  "\<exists>r db' c1 i1.
    config_set True field_engine (\<lambda>t. t) None global_target key_review_perform ''Look.'' ''u'' empty_db
      = (Inr r, db') \<and>
    config_catalogue True (\<lambda>t. t) None global_target db' = Inr c1 \<and>
    catalogue_value c1 key_review_perform = Some i1 \<and> iv_text (cf_effective i1) = ''Look.''"
proof -
  have g: "operator_target global_target" by (simp add: operator_target_def)
  have vt: "validate_target global_target = Inr ()" by code_simp
  obtain spec where sp: "instruction_spec_for key_review_perform = Some spec"
    by (simp add: instruction_spec_for_def instruction_specs_def)
  have "rbind (config_guard True global_target key_review_perform)
      (\<lambda>spec. validate_instruction field_engine spec ''Look.'') = Inr ()"
    by code_simp
  then obtain r db' where s: "config_set True field_engine (\<lambda>t. t) None global_target key_review_perform
      ''Look.'' ''u'' empty_db = (Inr r, db')"
    by (simp add: config_set_def pg_set_def append_and_point_def store_result_def Let_def)
  obtain db'' where z: "config_reset True None global_target key_review_perform db' = (Inr (), db'')"
    by (simp add: config_reset_def config_guard_def instruction_spec_or_unknown_def vt sp
        pg_reset_def store_result_def)
  from override_then_reset [OF empty_db_inv g s z] s show ?thesis by blast
qed

text \<open>
  Nothing an operator does through the configuration surface, whatever the target, key or
  text, changes what the factory scope points at: the shipped default stays what the build
  published.
\<close>

theorem config_keeps_factory:
  assumes "db_inv db"
  shows "pg_point (snd (config_set w engine hash f t key txt u db)) k factory_scope = pg_point db k factory_scope \<and>
    pg_point (snd (config_set_model w hash f t key txt u db)) k factory_scope = pg_point db k factory_scope \<and>
    pg_point (snd (config_reset w f t key db)) k factory_scope = pg_point db k factory_scope \<and>
    pg_point (snd (config_reset_model w f t key db)) k factory_scope = pg_point db k factory_scope"
proof (cases "config_guard w t key")
  case (Inl e)
  then show ?thesis
    by (simp add: config_set_def config_set_model_def config_reset_def config_reset_model_def)
next
  case (Inr spec)
  then have ne: "tg_scope t \<noteq> factory_scope"
    using config_guard_ok validate_target_editable by blast
  show ?thesis
    using Inr set_elsewhere [OF assms ne] reset_elsewhere [OF assms ne]
    by (auto simp: config_set_def config_set_model_def config_reset_def config_reset_model_def
        snd_store_result split: sum.split)
qed

theorem config_keeps_factory_witness:
  "pg_point (snd (config_reset True None global_target key_review_perform empty_db))
     key_review_perform factory_scope = None"
  using config_keeps_factory [OF empty_db_inv, where k = key_review_perform]
  by (simp add: pg_point_def empty_db_def)

end
