(* ===== verification/Steering_Store.thy ===== *)
theory Steering_Store
  imports Workflow_Base
begin

text \<open>
  Steering: the vocabulary of a decision (\<open>internal/steering/steering.go\<close>,
  \<open>session.go\<close>, the rounds of \<open>workflow.go\<close>), and the durable store of waiting sessions
  (\<open>steeringpg/steeringpg.go\<close>), whose SQL statements are functions on the three tables.

  The port \<open>SessionStore\<close> is the locale \<open>session_store\<close>.  Its central law is the port's:
  recording a decision against a session that carries one returns the session unchanged.

  Choices, rounds and states are the strings the code keeps, because they arrive from the
  outside unchecked.  A time is a number, 0 being the zero time.
\<close>

section \<open>Decisions\<close>

record decision =
  dc_choice :: string
  dc_guidance :: string
  dc_principal :: string

definition no_decision :: decision where
  "no_decision = \<lparr>dc_choice = [], dc_guidance = [], dc_principal = []\<rparr>"

text \<open>The choices and the states of a session.\<close>

definition choice_guide :: string where
  "choice_guide = ''guide''"

definition choice_skip :: string where
  "choice_skip = ''skip''"

definition choice_stop :: string where
  "choice_stop = ''stop''"

definition choice_continue :: string where
  "choice_continue = ''continue''"

definition choice_accept :: string where
  "choice_accept = ''accept''"

definition state_waiting :: string where
  "state_waiting = ''waiting''"

definition state_decided :: string where
  "state_decided = ''decided''"

definition state_abandoned :: string where
  "state_abandoned = ''abandoned''"

lemma choice_ne [simp]:
  "choice_guide \<noteq> []" "choice_skip \<noteq> []" "choice_stop \<noteq> []" "choice_continue \<noteq> []"
  "choice_accept \<noteq> []"
  by (simp_all add: choice_guide_def choice_skip_def choice_stop_def choice_continue_def
      choice_accept_def)

lemma choice_distinct [simp]:
  "choice_guide \<noteq> choice_skip" "choice_skip \<noteq> choice_guide"
  "choice_guide \<noteq> choice_stop" "choice_stop \<noteq> choice_guide"
  "choice_guide \<noteq> choice_continue" "choice_continue \<noteq> choice_guide"
  "choice_guide \<noteq> choice_accept" "choice_accept \<noteq> choice_guide"
  "choice_skip \<noteq> choice_stop" "choice_stop \<noteq> choice_skip"
  by (simp_all add: choice_guide_def choice_skip_def choice_stop_def choice_continue_def
      choice_accept_def)

lemma state_distinct [simp]:
  "state_waiting \<noteq> state_decided" "state_decided \<noteq> state_waiting"
  "state_waiting \<noteq> state_abandoned" "state_abandoned \<noteq> state_waiting"
  "state_decided \<noteq> state_abandoned" "state_abandoned \<noteq> state_decided"
  by (simp_all add: state_waiting_def state_decided_def state_abandoned_def)

definition choices :: "string list" where
  "choices = [choice_guide, choice_skip, choice_stop, choice_continue, choice_accept]"

definition valid_choice :: "string \<Rightarrow> bool" where
  "valid_choice c = list_ex (\<lambda>known. known = c) choices"

definition max_guidance_length :: nat where
  "max_guidance_length = 8192"

definition made :: "decision \<Rightarrow> bool" where
  "made d = (dc_choice d \<noteq> [])"

definition proceeds :: "decision \<Rightarrow> bool" where
  "proceeds d = (dc_choice d = choice_guide \<or> dc_choice d = choice_skip)"

datatype steering_error =
    UnknownChoice string
  | UnexpectedGuidance string
  | MissingGuidance
  | GuidanceNotText
  | GuidanceTooLong nat
  | NotAPassLimitDecision string
  | NotAReviewDecision string
  | DecisionWithoutSession
  | NoSuchSession string
  | UnknownRole string
  | MessageWithoutSession
  | EmptyTurn
  | NoLongerWaiting
  | SessionWithoutIdentity
  | SteeringFault string
  | SteeringUnavailable string steering_error
  | NotDelivered string
  | IncompleteQuestion
  | AnonymousQuestion
  | QuestioningUnavailable string

definition validate_decision :: "decision \<Rightarrow> steering_error + unit" where
  "validate_decision d =
     (if \<not> valid_choice (dc_choice d) then Inl (UnknownChoice (dc_choice d))
      else
        (let guidance = trim_space (dc_guidance d) in
         if dc_choice d \<noteq> choice_guide then
           (if guidance \<noteq> [] then Inl (UnexpectedGuidance (dc_choice d)) else Inr ())
         else if guidance = [] then Inl MissingGuidance
         else if \<not> valid_utf8 (dc_guidance d) then Inl GuidanceNotText
         else if length (dc_guidance d) > max_guidance_length then
           Inl (GuidanceTooLong (length (dc_guidance d)))
         else Inr ()))"

text \<open>The fenced block, and the block in front of the material it applies to.\<close>

definition guidance_block :: "string \<Rightarrow> string" where
  "guidance_block guidance =
     (let t = trim_space guidance in
      if t = [] then []
      else ''--- Operator guidance ---'' @ nl @ t @ nl @ ''--- End of operator guidance ---'')"

definition with_guidance :: "string \<Rightarrow> string \<Rightarrow> string" where
  "with_guidance guidance material =
     (let block = guidance_block guidance in
      if block = [] then material else block @ nl @ material)"

section \<open>Rounds\<close>

definition round_local_review :: string where
  "round_local_review = ''local-review''"

definition round_remote_comments :: string where
  "round_remote_comments = ''remote-comments''"

definition round_pass_limit :: string where
  "round_pass_limit = ''pass-limit''"

definition round_validate :: "string \<Rightarrow> decision \<Rightarrow> steering_error + unit" where
  "round_validate round d =
     rbind (validate_decision d) (\<lambda>_.
       if round = round_pass_limit then
         (if dc_choice d \<in> {choice_continue, choice_accept, choice_stop} then Inr ()
          else Inl (NotAPassLimitDecision (dc_choice d)))
       else if dc_choice d \<in> {choice_guide, choice_skip, choice_stop} then Inr ()
       else Inl (NotAReviewDecision (dc_choice d)))"

section \<open>Sessions and messages\<close>

record session =
  se_id :: string
  se_item :: string
  se_round :: string
  se_material :: string
  se_place :: place_facts
  se_guidance :: string
  se_opened :: nat
  se_state :: string
  se_decision :: decision
  se_decided_at :: nat

definition session_waiting :: "session \<Rightarrow> bool" where
  "session_waiting s = (se_state s = state_waiting)"

record message =
  ms_session :: string
  ms_sequence :: nat
  ms_role :: string
  ms_author :: string
  ms_text :: string
  ms_tokens :: int
  ms_at :: nat

record steering_event =
  ev_sequence :: nat
  ev_type :: string
  ev_session :: string
  ev_item :: string
  ev_at :: nat

definition validate_message :: "message \<Rightarrow> steering_error + unit" where
  "validate_message m =
     (if ms_role m \<noteq> ''operator'' \<and> ms_role m \<noteq> ''agent'' then Inl (UnknownRole (ms_role m))
      else if trim_space (ms_session m) = [] then Inl MessageWithoutSession
      else if trim_space (ms_text m) = [] then Inl EmptyTurn
      else Inr ())"

record conversation =
  cv_session :: session
  cv_messages :: "message list"

definition conversation_tokens :: "conversation \<Rightarrow> int" where
  "conversation_tokens c = sum_list (map ms_tokens (cv_messages c))"

definition add_contributor :: "string list \<Rightarrow> string \<Rightarrow> string list" where
  "add_contributor acc who =
     (let p = trim_space who in
      if p = [] \<or> p \<in> set acc then acc else acc @ [p])"

definition contributors :: "conversation \<Rightarrow> string list" where
  "contributors c =
     add_contributor (foldl add_contributor [] (map ms_author (cv_messages c)))
       (dc_principal (se_decision (cv_session c)))"

section \<open>The tables\<close>

record session_row =
  sw_id :: string
  sw_item :: string
  sw_round :: string
  sw_material :: string
  sw_directory :: string
  sw_repository :: string
  sw_guidance :: string
  sw_opened :: nat
  sw_state :: string
  sw_choice :: string
  sw_principal :: string
  sw_decided_at :: "nat option"

record steering_db =
  sd_sessions :: "session_row list"
  sd_messages :: "message list"
  sd_events :: "steering_event list"

definition scan_session :: "session_row \<Rightarrow> session" where
  "scan_session r =
     \<lparr>se_id = sw_id r, se_item = sw_item r, se_round = sw_round r, se_material = sw_material r,
      se_place = \<lparr>pl_directory = sw_directory r, pl_repository = sw_repository r\<rparr>,
      se_guidance = sw_guidance r, se_opened = sw_opened r, se_state = sw_state r,
      se_decision = \<lparr>dc_choice = sw_choice r,
        dc_guidance = (if sw_choice r = choice_guide then sw_guidance r else []),
        dc_principal = sw_principal r\<rparr>,
      se_decided_at = (case sw_decided_at r of None \<Rightarrow> 0 | Some t \<Rightarrow> t)\<rparr>"

definition find_row :: "steering_db \<Rightarrow> string \<Rightarrow> session_row option" where
  "find_row db sid = find (\<lambda>r. sw_id r = sid) (sd_sessions db)"

definition update_row :: "string \<Rightarrow> (session_row \<Rightarrow> session_row) \<Rightarrow> steering_db \<Rightarrow> steering_db" where
  "update_row sid f db =
     db\<lparr>sd_sessions := map (\<lambda>r. if sw_id r = sid then f r else r) (sd_sessions db)\<rparr>"

text \<open>\<open>bigserial\<close>: the next event number is one past the largest given.\<close>

definition add_event :: "string \<Rightarrow> string \<Rightarrow> string \<Rightarrow> nat \<Rightarrow> steering_db \<Rightarrow> steering_db" where
  "add_event ty sid item at db =
     db\<lparr>sd_events := sd_events db @
       [\<lparr>ev_sequence = Suc (foldr max (map ev_sequence (sd_events db)) 0), ev_type = ty,
         ev_session = sid, ev_item = item, ev_at = at\<rparr>]\<rparr>"

definition read_session :: "string option \<Rightarrow> string \<Rightarrow> steering_db \<Rightarrow> steering_error + session" where
  "read_session fault sid db =
     (case fault of
        Some e \<Rightarrow> Inl (SteeringFault e)
      | None \<Rightarrow>
          (case find_row db sid of
             None \<Rightarrow> Inl (NoSuchSession sid)
           | Some r \<Rightarrow> Inr (scan_session r)))"

section \<open>The statements\<close>

definition open_session ::
  "string option \<Rightarrow> nat \<Rightarrow> session \<Rightarrow> steering_db \<Rightarrow> (steering_error + session) \<times> steering_db" where
  "open_session fault now s db =
     (if trim_space (se_id s) = [] then (Inl SessionWithoutIdentity, db)
      else case fault of
        Some e \<Rightarrow> (Inl (SteeringFault e), db)
      | None \<Rightarrow>
          (let opened = (if se_opened s = 0 then now else se_opened s);
               row = \<lparr>sw_id = se_id s, sw_item = se_item s, sw_round = se_round s,
                 sw_material = se_material s, sw_directory = pl_directory (se_place s),
                 sw_repository = pl_repository (se_place s), sw_guidance = [],
                 sw_opened = opened, sw_state = state_waiting, sw_choice = [], sw_principal = [],
                 sw_decided_at = None\<rparr>;
               db' = (case find_row db (se_id s) of
                        Some _ \<Rightarrow> db
                      | None \<Rightarrow> add_event ''session-waiting'' (se_id s) (se_item s) opened
                          (db\<lparr>sd_sessions := sd_sessions db @ [row]\<rparr>))
           in (read_session None (se_id s) db', db')))"

definition settle_row :: "decision \<Rightarrow> nat \<Rightarrow> session_row \<Rightarrow> session_row" where
  "settle_row d at r =
     r\<lparr>sw_state := (if sw_choice r \<noteq> [] \<or> dc_choice d \<noteq> [] then state_decided else state_abandoned),
       sw_choice := (if sw_choice r = [] then dc_choice d else sw_choice r),
       sw_guidance := (if sw_choice r = [] \<and> dc_guidance d \<noteq> [] then dc_guidance d else sw_guidance r),
       sw_principal := (if sw_choice r = [] then dc_principal d else sw_principal r),
       sw_decided_at :=
         (if sw_choice r \<noteq> [] \<or> dc_choice d \<noteq> []
          then (case sw_decided_at r of None \<Rightarrow> Some at | Some t \<Rightarrow> Some t)
          else sw_decided_at r)\<rparr>"

definition close_session ::
  "string option \<Rightarrow> string \<Rightarrow> decision \<Rightarrow> nat \<Rightarrow> steering_db \<Rightarrow>
   (steering_error + unit) \<times> steering_db" where
  "close_session fault sid d at db =
     (case fault of
        Some e \<Rightarrow> (Inl (SteeringFault e), db)
      | None \<Rightarrow>
          (case find_row db sid of
             None \<Rightarrow> (Inl (NoSuchSession sid), db)
           | Some r \<Rightarrow>
               if sw_state r = state_waiting then
                 (Inr (), add_event ''session-decided'' sid (sw_item r) at
                    (update_row sid (settle_row d at) db))
               else (Inr (), db)))"

definition decide_row :: "decision \<Rightarrow> nat \<Rightarrow> session_row \<Rightarrow> session_row" where
  "decide_row d at r =
     r\<lparr>sw_state := state_decided, sw_choice := dc_choice d,
       sw_guidance := (if dc_guidance d \<noteq> [] then dc_guidance d else sw_guidance r),
       sw_principal := dc_principal d, sw_decided_at := Some at\<rparr>"

definition record_decision ::
  "string option \<Rightarrow> string \<Rightarrow> decision \<Rightarrow> nat \<Rightarrow> steering_db \<Rightarrow>
   (steering_error + session) \<times> steering_db" where
  "record_decision fault sid d at db =
     (case fault of
        Some e \<Rightarrow> (Inl (SteeringFault e), db)
      | None \<Rightarrow>
          (case find_row db sid of
             None \<Rightarrow> (Inl (NoSuchSession sid), db)
           | Some r \<Rightarrow>
               if sw_choice r = [] then
                 (Inr (scan_session (decide_row d at r)),
                  add_event ''session-decided'' sid (sw_item r) at (update_row sid (decide_row d at) db))
               else (Inr (scan_session r), db)))"

definition set_guidance ::
  "string option \<Rightarrow> string \<Rightarrow> string \<Rightarrow> steering_db \<Rightarrow> (steering_error + unit) \<times> steering_db" where
  "set_guidance fault sid guidance db =
     (case validate_decision \<lparr>dc_choice = choice_guide, dc_guidance = guidance, dc_principal = []\<rparr> of
        Inl e \<Rightarrow> (Inl e, db)
      | Inr _ \<Rightarrow>
          (case fault of
             Some e \<Rightarrow> (Inl (SteeringFault e), db)
           | None \<Rightarrow>
               (case find_row db sid of
                  None \<Rightarrow> (Inl (NoSuchSession sid), db)
                | Some r \<Rightarrow>
                    if sw_state r = state_waiting then
                      (Inr (), update_row sid (\<lambda>r. r\<lparr>sw_guidance := guidance\<rparr>) db)
                    else (Inl NoLongerWaiting, db))))"

text \<open>One turn appended under the session's lock; the foreign key refuses an unknown session.\<close>

definition append_message ::
  "string option \<Rightarrow> nat \<Rightarrow> message \<Rightarrow> steering_db \<Rightarrow> (steering_error + message) \<times> steering_db" where
  "append_message fault now m db =
     (case validate_message m of
        Inl e \<Rightarrow> (Inl e, db)
      | Inr _ \<Rightarrow>
          (case fault of
             Some e \<Rightarrow> (Inl (SteeringFault e), db)
           | None \<Rightarrow>
               (case find_row db (ms_session m) of
                  None \<Rightarrow> (Inl (NoSuchSession (ms_session m)), db)
                | Some r \<Rightarrow>
                    (let prior = filter (\<lambda>x. ms_session x = ms_session m) (sd_messages db);
                         m' = m\<lparr>ms_sequence := Suc (foldr max (map ms_sequence prior) 0),
                                ms_at := (if ms_at m = 0 then now else ms_at m)\<rparr>
                     in (Inr m', db\<lparr>sd_messages := sd_messages db @ [m']\<rparr>)))))"

definition read_messages ::
  "string option \<Rightarrow> string \<Rightarrow> nat \<Rightarrow> steering_db \<Rightarrow> steering_error + message list" where
  "read_messages fault sid after db =
     rbind (read_session fault sid db) (\<lambda>_.
       Inr (sort_key ms_sequence
         (filter (\<lambda>m. ms_session m = sid \<and> after < ms_sequence m) (sd_messages db))))"

definition waiting_sessions :: "string option \<Rightarrow> steering_db \<Rightarrow> steering_error + session list" where
  "waiting_sessions fault db =
     (case fault of
        Some e \<Rightarrow> Inl (SteeringFault e)
      | None \<Rightarrow> Inr (map scan_session
          (sort_key sw_opened (sort_key sw_id
            (filter (\<lambda>r. sw_state r = state_waiting) (sd_sessions db))))))"

definition read_events ::
  "string option \<Rightarrow> nat \<Rightarrow> int \<Rightarrow> steering_db \<Rightarrow> steering_error + steering_event list" where
  "read_events fault after limit db =
     (let limit = (if limit \<le> 0 \<or> 200 < limit then 100 else limit) in
      case fault of
        Some e \<Rightarrow> Inl (SteeringFault e)
      | None \<Rightarrow> Inr (take (nat limit)
          (sort_key ev_sequence (filter (\<lambda>e. after < ev_sequence e) (sd_events db)))))"

section \<open>The port\<close>

text \<open>What a stored decision reads back as: only guiding carries text.\<close>

definition stored_form :: "decision \<Rightarrow> decision" where
  "stored_form d = (if dc_choice d = choice_guide then d else d\<lparr>dc_guidance := []\<rparr>)"

definition keeps_decisions ::
  "('db \<Rightarrow> string \<Rightarrow> session option) \<Rightarrow> 'db \<Rightarrow> 'db \<Rightarrow> bool" where
  "keeps_decisions look db db' =
     (\<forall>i s. look db i = Some s \<longrightarrow>
        (\<exists>s'. look db' i = Some s' \<and> se_round s' = se_round s \<and>
           (made (se_decision s) \<longrightarrow> se_decision s' = se_decision s)))"

lemma keeps_decisions_refl [simp]: "keeps_decisions look db db"
  by (simp add: keeps_decisions_def)

lemma keeps_decisions_trans:
  "keeps_decisions look db db' \<Longrightarrow> keeps_decisions look db' db'' \<Longrightarrow> keeps_decisions look db db''"
  unfolding keeps_decisions_def by (metis (no_types, lifting))

locale session_store =
  fixes inv :: "'db \<Rightarrow> bool"
    and look :: "'db \<Rightarrow> string \<Rightarrow> session option"
    and record_op :: "string \<Rightarrow> decision \<Rightarrow> nat \<Rightarrow> 'db \<Rightarrow> (steering_error + session) \<times> 'db"
    and close_op :: "string \<Rightarrow> decision \<Rightarrow> nat \<Rightarrow> 'db \<Rightarrow> (steering_error + unit) \<times> 'db"
    and guide_op :: "string \<Rightarrow> string \<Rightarrow> 'db \<Rightarrow> (steering_error + unit) \<times> 'db"
    and open_op :: "session \<Rightarrow> 'db \<Rightarrow> (steering_error + session) \<times> 'db"
    and append_op :: "message \<Rightarrow> 'db \<Rightarrow> (steering_error + message) \<times> 'db"
  assumes record_ok: "inv db \<Longrightarrow> record_op i d at db = (Inr s, db') \<Longrightarrow>
      look db' i = Some s \<and>
      (\<exists>s0. look db i = Some s0 \<and>
         (made (se_decision s0) \<longrightarrow> s = s0) \<and>
         (\<not> made (se_decision s0) \<and> is_ok (validate_decision d) \<longrightarrow> se_decision s = stored_form d))"
    and record_keeps: "inv db \<Longrightarrow> record_op i d at db = (x, db') \<Longrightarrow>
      inv db' \<and> keeps_decisions look db db'"
    and close_keeps: "inv db \<Longrightarrow> close_op i d at db = (u, db') \<Longrightarrow>
      inv db' \<and> keeps_decisions look db db'"
    and guide_keeps: "inv db \<Longrightarrow> guide_op i g db = (u, db') \<Longrightarrow>
      inv db' \<and> keeps_decisions look db db'"
    and open_keeps: "inv db \<Longrightarrow> open_op new db = (y, db') \<Longrightarrow>
      inv db' \<and> keeps_decisions look db db'"
    and append_keeps: "inv db \<Longrightarrow> append_op m db = (z, db') \<Longrightarrow>
      inv db' \<and> keeps_decisions look db db'"
begin

text \<open>Whatever happened since, recording again returns the decision that was recorded first.\<close>

lemma first_decision_wins:
  assumes "inv db" "look db i = Some s" "made (se_decision s)"
    and "keeps_decisions look db db1" "inv db1"
    and "record_op i d at db1 = (Inr s', db2)"
  shows "se_decision s' = se_decision s"
proof -
  obtain s1 where s1: "look db1 i = Some s1" "se_decision s1 = se_decision s"
    using assms(2-4) by (auto simp: keeps_decisions_def)
  with record_ok [OF assms(5,6)] assms(3) show ?thesis by auto
qed

lemma recorded_is_made:
  assumes "inv db" "record_op i d at db = (Inr s, db')" "is_ok (validate_decision d)" "made d"
  shows "look db' i = Some s \<and> made (se_decision s)"
proof -
  from record_ok [OF assms(1,2)] obtain s0 where "look db' i = Some s"
      "made (se_decision s0) \<longrightarrow> s = s0" "\<not> made (se_decision s0) \<longrightarrow> se_decision s = stored_form d"
    using assms(3) by auto
  moreover have "made (stored_form d)" using assms(4) by (simp add: stored_form_def made_def)
  ultimately show ?thesis by (cases "made (se_decision s0)") auto
qed

end

section \<open>The adapter keeps the port's promises\<close>

text \<open>A row that carries a choice is decided, so a waiting row carries none.\<close>

definition row_ok :: "session_row \<Rightarrow> bool" where
  "row_ok r = (sw_choice r \<noteq> [] \<longrightarrow> sw_state r = state_decided)"

definition steering_inv :: "steering_db \<Rightarrow> bool" where
  "steering_inv db =
     (distinct (map sw_id (sd_sessions db)) \<and> (\<forall>r \<in> set (sd_sessions db). row_ok r))"

definition pg_look :: "steering_db \<Rightarrow> string \<Rightarrow> session option" where
  "pg_look db sid = map_option scan_session (find_row db sid)"

lemma find_row_add_event [simp]: "find_row (add_event ty sid item at db) i = find_row db i"
  by (simp add: find_row_def add_event_def)

lemma sessions_add_event [simp]: "sd_sessions (add_event ty sid item at db) = sd_sessions db"
  by (simp add: add_event_def)

lemma inv_add_event [simp]: "steering_inv (add_event ty sid item at db) = steering_inv db"
  by (simp add: steering_inv_def)

lemma find_row_update:
  assumes "\<And>r. sw_id (f r) = sw_id r"
  shows "find_row (update_row sid f db) i =
    (if i = sid then map_option f (find_row db i) else find_row db i)"
proof -
  have "find (\<lambda>r. sw_id r = i) (map (\<lambda>r. if sw_id r = sid then f r else r) rs) =
      (if i = sid then map_option f (find (\<lambda>r. sw_id r = i) rs) else find (\<lambda>r. sw_id r = i) rs)" for rs
    using assms by (induction rs) auto
  then show ?thesis by (simp add: find_row_def update_row_def)
qed

lemma find_row_id: "find_row db i = Some r \<Longrightarrow> sw_id r = i \<and> r \<in> set (sd_sessions db)"
  by (auto simp: find_row_def find_Some_iff)

lemma inv_update:
  assumes "steering_inv db" "\<And>r. sw_id (f r) = sw_id r" "\<And>r. row_ok r \<Longrightarrow> row_ok (f r)"
  shows "steering_inv (update_row sid f db)"
proof -
  have "map sw_id (sd_sessions (update_row sid f db)) = map sw_id (sd_sessions db)"
    using assms(2) by (auto simp: update_row_def)
  moreover have "\<forall>r \<in> set (sd_sessions (update_row sid f db)). row_ok r"
    using assms by (auto simp: steering_inv_def update_row_def)
  ultimately show ?thesis using assms(1) by (simp only: steering_inv_def)
qed

lemma keeps_update:
  assumes id: "\<And>r. sw_id (f r) = sw_id r" and f: "\<And>r. sw_round (f r) = sw_round r"
    and r: "find_row db sid = Some r" "sw_choice r = []"
  shows "keeps_decisions pg_look db (update_row sid f db)"
  unfolding keeps_decisions_def
proof (intro allI impI)
  fix i s assume s: "pg_look db i = Some s"
  show "\<exists>s'. pg_look (update_row sid f db) i = Some s' \<and> se_round s' = se_round s \<and>
      (made (se_decision s) \<longrightarrow> se_decision s' = se_decision s)"
  proof (cases "i = sid")
    case True
    then have "s = scan_session r" using s r by (simp add: pg_look_def)
    then have "\<not> made (se_decision s)" using r by (simp add: scan_session_def made_def)
    with True r f show ?thesis
      by (simp add: pg_look_def find_row_update [OF id] \<open>s = scan_session r\<close> scan_session_def)
  next
    case False
    then have "pg_look (update_row sid f db) i = pg_look db i"
      by (simp add: pg_look_def find_row_update [OF id])
    with s show ?thesis by auto
  qed
qed

lemma keeps_add_event [simp]:
  "keeps_decisions pg_look db (add_event ty sid item at db') = keeps_decisions pg_look db db'"
  by (simp add: keeps_decisions_def pg_look_def)

lemma decide_row_fields:
  "sw_id (decide_row d at r) = sw_id r" "sw_round (decide_row d at r) = sw_round r"
  "row_ok (decide_row d at r)"
  by (simp_all add: decide_row_def row_ok_def)

lemma settle_row_fields:
  "sw_id (settle_row d at r) = sw_id r" "sw_round (settle_row d at r) = sw_round r"
  "row_ok (settle_row d at r)"
  by (simp_all add: settle_row_def row_ok_def)

lemma waiting_undecided:
  "steering_inv db \<Longrightarrow> find_row db sid = Some r \<Longrightarrow> sw_state r = state_waiting \<Longrightarrow> sw_choice r = []"
  by (auto simp: steering_inv_def row_ok_def dest!: find_row_id)

lemma scan_decided:
  assumes "is_ok (validate_decision d)"
  shows "se_decision (scan_session (decide_row d at r)) = stored_form d"
proof (cases "dc_choice d = choice_guide")
  case True
  then have "trim_space (dc_guidance d) \<noteq> []"
    using assms by (auto simp: validate_decision_def Let_def split: if_splits)
  then have "dc_guidance d \<noteq> []" by auto
  with True show ?thesis by (simp add: scan_session_def decide_row_def stored_form_def)
qed (simp add: scan_session_def decide_row_def stored_form_def)

lemma pg_record_keeps:
  assumes "steering_inv db" "record_decision fault i d at db = (x, db')"
  shows "steering_inv db' \<and> keeps_decisions pg_look db db'"
proof (cases fault)
  case None
  show ?thesis
  proof (cases "find_row db i")
    case (Some r)
    have "steering_inv (update_row i (decide_row d at) db)"
      by (intro inv_update assms(1)) (simp_all add: decide_row_fields)
    moreover have "sw_choice r = [] \<Longrightarrow> keeps_decisions pg_look db (update_row i (decide_row d at) db)"
      by (rule keeps_update [OF _ _ Some]) (simp_all add: decide_row_fields)
    ultimately show ?thesis
      using assms None Some by (auto simp: record_decision_def split: if_splits)
  qed (use assms None in \<open>auto simp: record_decision_def\<close>)
qed (use assms in \<open>auto simp: record_decision_def\<close>)

lemma pg_close_keeps:
  assumes "steering_inv db" "close_session fault i d at db = (x, db')"
  shows "steering_inv db' \<and> keeps_decisions pg_look db db'"
proof (cases fault)
  case None
  show ?thesis
  proof (cases "find_row db i")
    case (Some r)
    have "steering_inv (update_row i (settle_row d at) db)"
      by (intro inv_update assms(1)) (simp_all add: settle_row_fields)
    moreover have "sw_state r = state_waiting \<Longrightarrow>
        keeps_decisions pg_look db (update_row i (settle_row d at) db)"
      using waiting_undecided [OF assms(1) Some]
      by (intro keeps_update [OF _ _ Some]) (simp_all add: settle_row_fields)
    ultimately show ?thesis
      using assms None Some by (auto simp: close_session_def split: if_splits)
  qed (use assms None in \<open>auto simp: close_session_def\<close>)
qed (use assms in \<open>auto simp: close_session_def\<close>)

lemma pg_guide_keeps:
  assumes "steering_inv db" "set_guidance fault i g db = (x, db')"
  shows "steering_inv db' \<and> keeps_decisions pg_look db db'"
proof (cases "find_row db i")
  case None
  with assms show ?thesis by (auto simp: set_guidance_def split: sum.splits option.splits)
next
  case (Some r)
  have "steering_inv (update_row i (\<lambda>r. r\<lparr>sw_guidance := g\<rparr>) db)"
    by (intro inv_update assms(1)) (simp_all add: row_ok_def)
  moreover have "sw_state r = state_waiting \<Longrightarrow>
      keeps_decisions pg_look db (update_row i (\<lambda>r. r\<lparr>sw_guidance := g\<rparr>) db)"
    using waiting_undecided [OF assms(1) Some] by (intro keeps_update [OF _ _ Some]) simp_all
  ultimately show ?thesis
    using assms Some by (auto simp: set_guidance_def split: sum.splits option.splits if_splits)
qed

lemma pg_open_keeps:
  assumes "steering_inv db" "open_session fault now new db = (x, db')"
  shows "steering_inv db' \<and> keeps_decisions pg_look db db'"
proof (cases "find_row db (se_id new)")
  case (Some r)
  with assms show ?thesis by (auto simp: open_session_def Let_def split: if_splits option.splits)
next
  case None
  have fresh: "se_id new \<notin> sw_id ` set (sd_sessions db)"
    using None by (auto simp: find_row_def find_None_iff)
  have inv: "steering_inv (db\<lparr>sd_sessions := sd_sessions db @ [row]\<rparr>)"
    if "sw_id row = se_id new" "sw_choice row = []" for row
    using assms(1) fresh that by (auto simp: steering_inv_def row_ok_def)
  have keep: "keeps_decisions pg_look db (db\<lparr>sd_sessions := sd_sessions db @ [row]\<rparr>)" for row
  proof -
    have "find_row db i = Some r \<Longrightarrow> find_row (db\<lparr>sd_sessions := sd_sessions db @ [row]\<rparr>) i = Some r"
      for i r
    proof -
      have "find p rs = Some r \<Longrightarrow> find p (rs @ qs) = Some r" for p and rs qs :: "session_row list"
        by (induction rs) (auto split: if_splits)
      then show "find_row db i = Some r \<Longrightarrow> find_row (db\<lparr>sd_sessions := sd_sessions db @ [row]\<rparr>) i = Some r"
        by (simp add: find_row_def)
    qed
    then show ?thesis by (auto simp: keeps_decisions_def pg_look_def)
  qed
  from assms None show ?thesis
    by (auto simp: open_session_def Let_def inv keep split: if_splits option.splits)
qed

lemma pg_append_keeps:
  assumes "steering_inv db" "append_message fault now m db = (x, db')"
  shows "steering_inv db' \<and> keeps_decisions pg_look db db'"
proof -
  have "sd_sessions db' = sd_sessions db"
    using assms(2) by (auto simp: append_message_def Let_def split: sum.splits option.splits)
  then have "steering_inv db' = steering_inv db" "pg_look db' = pg_look db"
    by (simp_all add: steering_inv_def pg_look_def find_row_def fun_eq_iff)
  then show ?thesis using assms(1) by (auto simp: keeps_decisions_def)
qed

interpretation ps: session_store steering_inv pg_look "record_decision fault" "close_session fault"
  "set_guidance fault" "open_session fault now" "append_message fault now"
  for fault now
proof (unfold_locales, goal_cases)
  case (1 db i d at s db')
  then obtain r where f: "fault = None" "find_row db i = Some r"
    by (auto simp: record_decision_def split: option.splits)
  show ?case
  proof (cases "sw_choice r = []")
    case True
    have "\<not> made (se_decision (scan_session r))" using True by (simp add: scan_session_def made_def)
    moreover have "s = scan_session (decide_row d at r)"
      and "db' = add_event ''session-decided'' i (sw_item r) at (update_row i (decide_row d at) db)"
      using 1 f True by (auto simp: record_decision_def)
    ultimately show ?thesis
      using f scan_decided by (simp add: pg_look_def find_row_update decide_row_fields)
  next
    case False
    have "made (se_decision (scan_session r))" using False by (simp add: scan_session_def made_def)
    with 1 f False show ?thesis by (auto simp: record_decision_def pg_look_def)
  qed
qed (fact pg_record_keeps pg_close_keeps pg_guide_keeps pg_open_keeps pg_append_keeps)+

end
