(* ===== verification/Review_Data.thy ===== *)
theory Review_Data
  imports Branch_Names Fleet_Text Instructions Steering_Store
begin

text \<open>
  The data of the review loops and of the develop flow: the inputs, outcomes and prompt text of
  \<open>internal/codereview/domain.go\<close>.  The token counts are \<open>int\<close>, the pass counters \<open>nat\<close>: the
  program only ever increments them from zero.  Worktree and branch rules are in
  \<^theory_text>\<open>Branch_Names\<close>; the template engine is the parameter of \<^theory_text>\<open>Instructions\<close>.
\<close>

section \<open>Inputs and outcomes\<close>

datatype prompt_mode = PromptDefault | PromptAppend | PromptReplace

record pilot_input =
  pi_initiator :: string
  pi_work_dir :: string
  pi_mode :: prompt_mode
  pi_text :: string
  pi_chain :: bool
  pi_tokens :: int
  pi_summary :: bool
  pi_chain_summary :: string
  pi_instructions :: instruction_resolution
  pi_settings :: setting_resolution

record pull_request =
  pr_number :: int
  pr_url :: string
  pr_owner :: string
  pr_repo :: string
  pr_head :: string
  pr_body :: string

record review_thread =
  th_id :: string
  th_path :: string
  th_line :: int
  th_author :: string
  th_body :: string

record checkpoint =
  cp_head :: string
  cp_stashed :: bool

text \<open>The checkpoint variable before anything was checkpointed.\<close>

definition no_checkpoint :: checkpoint where
  "no_checkpoint = \<lparr>cp_head = [], cp_stashed = False\<rparr>"

definition max_review_passes :: nat where
  "max_review_passes = 5"

record review_input =
  ri_initiator :: string
  ri_detached :: bool
  ri_work_dir :: string
  ri_payload :: string
  ri_resets :: nat
  ri_pass :: nat
  ri_tokens :: int
  ri_summary :: bool
  ri_instructions :: instruction_resolution
  ri_settings :: setting_resolution

text \<open>\<open>EndingNone\<close> is the empty \<open>Ending\<close> of a record that has not settled.\<close>

datatype ending =
  EndingNone | EndingConverged | EndingOperatorAccepted | EndingOperatorStopped | EndingPassCap

definition converged :: "ending \<Rightarrow> bool" where
  "converged e = (e = EndingConverged)"

record review_outcome =
  ro_summary :: string
  ro_converged :: bool
  ro_ending :: ending

definition ended_by :: "ending \<Rightarrow> string \<Rightarrow> review_outcome" where
  "ended_by e s = \<lparr>ro_summary = s, ro_converged = converged e, ro_ending = e\<rparr>"

record develop_input =
  di_initiator :: string
  di_work_dir :: string
  di_branch :: string
  di_worktrees_dir :: string
  di_start_point :: string
  di_merge_branches :: "string list"
  di_prompt :: string
  di_summary :: bool
  di_with_remote :: bool
  di_await_review :: bool
  di_settings :: setting_resolution

record open_pr_result =
  op_summary :: string
  op_url :: string

section \<open>Text\<close>

definition format_thread :: "nat \<Rightarrow> review_thread \<Rightarrow> string" where
  "format_thread n t =
     ''--- Comment '' @ itoa (int n) @
     (if th_path t \<noteq> [] then
        '' ('' @ th_path t @ (if th_line t > 0 then '':'' @ itoa (th_line t) else []) @ '')''
      else []) @
     (if th_author t \<noteq> [] then '' by @'' @ th_author t else []) @
     '' ---'' @ nl @ trim_space (th_body t) @ nl"

fun format_threads :: "nat \<Rightarrow> review_thread list \<Rightarrow> string" where
  "format_threads n [] = []"
| "format_threads n (t # ts) = nl @ format_thread n t @ format_threads (Suc n) ts"

definition format_comments :: "string \<Rightarrow> review_thread list \<Rightarrow> string" where
  "format_comments description threads =
     (let d = trim_space description in
      (if d \<noteq> [] then nl @ ''--- Pull request description ---'' @ nl @ d @ nl else [])) @
     format_threads 1 threads"

record pilot_prompt =
  pp_instructions :: instruction_resolution
  pp_mode :: prompt_mode
  pp_text :: string
  pp_description :: string
  pp_threads :: "review_thread list"
  pp_guidance :: string

definition pilot_base :: "pilot_prompt \<Rightarrow> string" where
  "pilot_base p =
     (let base = instruction_text (pp_instructions p) key_pilot_address;
          t = trim_space (pp_text p)
      in case pp_mode p of
           PromptReplace \<Rightarrow> t
         | PromptAppend \<Rightarrow> if t \<noteq> [] then base @ nl @ nl @ t else base
         | PromptDefault \<Rightarrow> base)"

definition build_pilot_prompt :: "template_engine \<Rightarrow> pilot_prompt \<Rightarrow> instruction_error + string" where
  "build_pilot_prompt engine p =
     (case instruction_spec_for key_pilot_address of
        None \<Rightarrow> Inl (UnknownInstruction key_pilot_address)
      | Some spec \<Rightarrow>
          render engine spec (pilot_base p)
            [''Comments'' \<mapsto>
               with_guidance (pp_guidance p) (format_comments (pp_description p) (pp_threads p))])"

text \<open>\<open>groupThousands\<close> is the copy in this package of \<^const>\<open>group_thousands\<close>, letter for letter.\<close>

definition format_token_total :: "int \<Rightarrow> string" where
  "format_token_total n =
     ''Total token usage across all sessions: '' @ group_thousands n @ '' tokens.''"

definition with_token_total :: "string \<Rightarrow> int \<Rightarrow> string" where
  "with_token_total summary n = summary @ nl @ nl @ format_token_total n"

definition with_develop_step_tokens :: "string \<Rightarrow> int \<Rightarrow> string" where
  "with_develop_step_tokens summary n =
     summary @ nl @ nl @ ''Develop step token usage: '' @ group_thousands n @
     '' tokens. The review and pilot stages report their own token totals separately.''"

definition format_reply_body :: "string list \<Rightarrow> string" where
  "format_reply_body shas = join '' + '' shas"

definition summarize_prompt :: string where
  "summarize_prompt =
     ''Summarize the work performed in this session in a few sentences: what changed and why, at a high level. Do not make any further code changes.''"

definition build_develop_prompt :: "string \<Rightarrow> string" where
  "build_develop_prompt prompt =
     ''Implement the task described below. Read the referenced code and relevant in-repo documentation for context, then make the changes. Confirm lint/typecheck/build (and synth, if infra) pass, then commit all your work.'' @
     nl @ nl @ trim_space prompt"

definition build_merge_conflict_prompt :: "string \<Rightarrow> string" where
  "build_merge_conflict_prompt branch =
     ''A git merge of the branch '' @ dq @ branch @ dq @
     '' into the current branch has stopped with conflicts. Resolve every conflict by reconciling both sides' intent (do not discard either side's changes), keep lint/typecheck/build (and synth, if infra) passing, then stage the resolved files and commit to complete the merge. Do not push and do not abort the merge.''"

section \<open>Properties\<close>

text \<open>A line of the program put between the summary and the marker does not make a marker.\<close>

lemma contains_prefix: "contains u p \<Longrightarrow> contains (u @ v) p"
  by (auto simp: contains_iff) (metis append.assoc)

lemma append_overlap:
  assumes "s @ t = a @ p @ b" "\<not> contains s p" "p \<noteq> []"
  shows "\<exists>q r. p = q @ r \<and> r \<noteq> [] \<and> (q = [] \<and> contains t p \<or> q \<noteq> [] \<and> has_prefix t r \<or>
    (\<exists>r'. r = t @ r' \<and> q \<noteq> []))"
proof (cases "length s \<le> length a")
  case True
  then obtain a' where "a = s @ a'" using assms(1)
    by (metis append_eq_append_conv_if append_take_drop_id)
  then have "t = a' @ p @ b" using assms(1) by simp
  then have "contains t p" unfolding contains_iff by blast
  then show ?thesis using assms(3) by (intro exI [of _ "[]"] exI [of _ p]) simp
next
  case False
  then obtain q where q: "s = a @ q" "q \<noteq> []" using assms(1)
    by (metis append_eq_append_conv_if append_take_drop_id append_Nil2 order_refl)
  then have e: "q @ t = p @ b" using assms(1) by simp
  have "length q < length p"
  proof (rule ccontr)
    assume "\<not> length q < length p"
    with e obtain c where "q = p @ c" by (metis append_eq_append_conv_if append_take_drop_id leI)
    then have "s = a @ p @ c" using q by simp
    with assms(2) show False unfolding contains_iff by blast
  qed
  with e obtain r where r: "p = q @ r"
    by (metis append_eq_append_conv_if append_take_drop_id less_imp_le)
  with \<open>length q < length p\<close> have "r \<noteq> []" by auto
  moreover from e r have "t = r @ b" by simp
  ultimately show ?thesis using r q(2) by (auto simp: has_prefix_iff)
qed

text \<open>The marker holds no newline, so a text that begins with one cannot complete it.\<close>

lemma no_marker_after_newline:
  assumes "\<not> contains s ''token usage''" "\<not> contains t ''token usage''" "has_prefix t nl"
  shows "\<not> contains (s @ t) ''token usage''"
proof
  assume "contains (s @ t) ''token usage''"
  then obtain a b where ab: "s @ t = a @ ''token usage'' @ b" unfolding contains_iff by blast
  have no: "CHR 0x0A \<notin> set ''token usage''" by code_simp
  obtain t' where t: "t = CHR 0x0A # t'" using assms(3) by (auto simp: has_prefix_iff nl_def)
  from append_overlap [OF ab assms(1)] obtain q r where qr: "''token usage'' = q @ r" "r \<noteq> []"
    and c: "q = [] \<and> contains t ''token usage'' \<or> q \<noteq> [] \<and> has_prefix t r \<or> (\<exists>r'. r = t @ r' \<and> q \<noteq> [])"
    by blast
  have "CHR 0x0A \<in> set r"
    using c assms(2) t qr(2) by (cases r) (auto simp: has_prefix_iff)
  moreover have "set r \<subseteq> set ''token usage''" unfolding qr(1) by simp
  ultimately show False using no by blast
qed

text \<open>
  What one stage reports, the next reads: from the result text of a review or pilot loop,
  and from that of a develop step, the fleet's token parser reads back exactly the number the
  stage put in, for every summary that does not itself speak of token usage.
\<close>

theorem reported_tokens_are_read_back:
  assumes "\<not> contains summary ''token usage''" "0 \<le> n" "n \<le> int max_int64"
  shows "parse_token_total (with_token_total summary n) = n \<and>
    parse_token_total (with_develop_step_tokens summary n) = n"
proof
  have a: "\<not> contains (nl @ nl @ ''Total '') ''token usage''"
      "\<not> contains (nl @ nl @ ''Develop step '') ''token usage''" by code_simp+
  have b: "\<not> contains (summary @ nl @ nl @ ''Total '') ''token usage''"
      "\<not> contains (summary @ nl @ nl @ ''Develop step '') ''token usage''"
    by (rule no_marker_after_newline [OF assms(1)], use a in simp_all)+
  have c: "CHR '':'' \<notin> set '' across all sessions''" by code_simp
  have e: "with_token_total summary n = (summary @ nl @ nl @ ''Total '') @ ''token usage'' @
      '' across all sessions'' @ '': '' @ group_thousands n @ '' tokens'' @ ''.''"
    by (simp add: with_token_total_def format_token_total_def)
  show "parse_token_total (with_token_total summary n) = n"
    unfolding e by (rule parse_token_line [OF b(1) c assms(2,3)])
  have e: "with_develop_step_tokens summary n = (summary @ nl @ nl @ ''Develop step '') @
      ''token usage'' @ [] @ '': '' @ group_thousands n @ '' tokens'' @
      ''. The review and pilot stages report their own token totals separately.''"
    by (simp add: with_develop_step_tokens_def)
  show "parse_token_total (with_develop_step_tokens summary n) = n"
    unfolding e by (rule parse_token_line [OF b(2) _ assms(2,3)]) simp
qed

theorem reported_tokens_are_read_back_witness:
  "parse_token_total (with_token_total ''Review stopped after 5 pass(es).'' 1234567) = 1234567"
proof -
  have "\<not> contains ''Review stopped after 5 pass(es).'' ''token usage''" by code_simp
  then show ?thesis
    using reported_tokens_are_read_back [of "''Review stopped after 5 pass(es).''" 1234567]
    by (simp add: max_int64_def)
qed

end
