(* ===== verification/Review_Activities.thy ===== *)
theory Review_Activities
  imports Review_Data Effects
begin

text \<open>
  The activities of \<open>internal/codereview/activities.go\<close> over the three ports of
  \<open>internal/codereview/ports.go\<close>: git, the pull requests and the agent.

  A port call is an event that holds its arguments and the answer it got.  \<open>ports\<close> gives the
  answers, as functions of everything that happened before, so nothing is assumed of git,
  GitHub or the agent.  It also gives what Temporal tells an activity: the attempt number and
  the heartbeat details an earlier attempt left (\<^const>\<open>None\<close> where there are none that decode).
  \<open>pt_alias\<close> is the next draw of \<open>RandomBranchAlias\<close>.
\<close>

section \<open>Ports\<close>

text \<open>\<open>PortExists\<close> is an error that wraps \<open>ErrBranchOrWorktreeExists\<close>.\<close>

datatype port_error = PortExists string | PortError string

type_synonym 'a answer = "port_error + 'a"

datatype port_ev =
    GitCurrentBranch string "string answer"
  | GitCreateBranch string string string "unit answer"
  | GitAddWorktree string string string string "unit answer"
  | GitHead string "string answer"
  | GitHasChanges string "bool answer"
  | GitStash string "unit answer"
  | GitStashPop string "unit answer"
  | GitCommitsSince string string "string list answer"
  | GitPush string string "unit answer"
  | GitMergeBranch string string "unit answer"
  | GitAbortMerge string "unit answer"
  | GitHasConflicts string "bool answer"
  | GitIsAncestor string string string "bool answer"
  | PrFindOpen string string "pull_request answer"
  | PrEnsureOpen string string "pull_request answer"
  | PrReviewOngoing pull_request "bool answer"
  | PrUnresolvedThreads pull_request "review_thread list answer"
  | PrReply pull_request string string "unit answer"
  | PrResolve pull_request string "unit answer"
  | PrRequestCopilot pull_request "unit answer"
  | AgentRun string string string "(string \<times> int) answer"
  | Heartbeat string

type_synonym 'a ask = "port_ev list \<Rightarrow> 'a answer"

record ports =
  pt_current_branch :: "string \<Rightarrow> string ask"
  pt_create_branch :: "string \<Rightarrow> string \<Rightarrow> string \<Rightarrow> unit ask"
  pt_add_worktree :: "string \<Rightarrow> string \<Rightarrow> string \<Rightarrow> string \<Rightarrow> unit ask"
  pt_head :: "string \<Rightarrow> string ask"
  pt_has_changes :: "string \<Rightarrow> bool ask"
  pt_stash :: "string \<Rightarrow> unit ask"
  pt_stash_pop :: "string \<Rightarrow> unit ask"
  pt_commits_since :: "string \<Rightarrow> string \<Rightarrow> string list ask"
  pt_push :: "string \<Rightarrow> string \<Rightarrow> unit ask"
  pt_merge_branch :: "string \<Rightarrow> string \<Rightarrow> unit ask"
  pt_abort_merge :: "string \<Rightarrow> unit ask"
  pt_has_conflicts :: "string \<Rightarrow> bool ask"
  pt_is_ancestor :: "string \<Rightarrow> string \<Rightarrow> string \<Rightarrow> bool ask"
  pt_find_open :: "string \<Rightarrow> string \<Rightarrow> pull_request ask"
  pt_ensure_open :: "string \<Rightarrow> string \<Rightarrow> pull_request ask"
  pt_review_ongoing :: "pull_request \<Rightarrow> bool ask"
  pt_unresolved_threads :: "pull_request \<Rightarrow> review_thread list ask"
  pt_reply :: "pull_request \<Rightarrow> string \<Rightarrow> string \<Rightarrow> unit ask"
  pt_resolve :: "pull_request \<Rightarrow> string \<Rightarrow> unit ask"
  pt_request_copilot :: "pull_request \<Rightarrow> unit ask"
  pt_agent :: "string \<Rightarrow> string \<Rightarrow> string \<Rightarrow> (string \<times> int) ask"
  pt_attempt :: nat
  pt_saved_alias :: "string option"
  pt_alias :: "port_ev list \<Rightarrow> string"

text \<open>
  What an activity fails with: a port's error, with or without text in front, an error of its
  own, or an application error that forbids retrying and has a type.
\<close>

datatype act_error =
    ActPort port_error
  | ActWrapped string port_error
  | ActText string
  | ActInstruction instruction_error
  | ActNonRetryable string string

type_synonym 'a activity = "(port_ev, act_error, 'a) eff"

definition err_no_advance :: string where "err_no_advance = ''NoCommits''"
definition err_dirty_worktree :: string where "err_dirty_worktree = ''DirtyWorktree''"
definition err_branch_exists :: string where "err_branch_exists = ''BranchExists''"
definition err_invalid_branch :: string where "err_invalid_branch = ''InvalidBranch''"

text \<open>A port call whose error is returned as it is, or with text in front of it.\<close>

definition port :: "'a ask \<Rightarrow> ('a answer \<Rightarrow> port_ev) \<Rightarrow> 'a activity" where
  "port ans ev = on_error ActPort (perform ans ev)"

definition port_or :: "string \<Rightarrow> 'a ask \<Rightarrow> ('a answer \<Rightarrow> port_ev) \<Rightarrow> 'a activity" where
  "port_or msg ans ev = on_error (ActWrapped msg) (perform ans ev)"

definition heartbeat :: "string \<Rightarrow> (port_ev, 'e, unit) eff" where
  "heartbeat detail l = (Inr (), l @ [Heartbeat detail])"

record agent_result =
  ag_output :: string
  ag_tokens :: int

text \<open>\<open>Agent.Run\<close>, with its two values put in the result.\<close>

definition agent :: "ports \<Rightarrow> string \<Rightarrow> string \<Rightarrow> string \<Rightarrow> agent_result activity" where
  "agent ps prompt dir model =
     andthen (port (pt_agent ps prompt dir model) (AgentRun prompt dir model)) (\<lambda>(out, tokens).
       ret \<lparr>ag_output = out, ag_tokens = tokens\<rparr>)"

section \<open>Creating the branch\<close>

record create_branch_request =
  cb_work_dir :: string
  cb_branch :: string
  cb_worktrees_dir :: string
  cb_start_point :: string

record create_branch_result =
  br_branch :: string
  br_work_dir :: string
  br_base :: string

definition generated_alias :: "ports \<Rightarrow> (string \<times> bool) activity" where
  "generated_alias ps =
     (case pt_saved_alias ps of
        Some saved \<Rightarrow>
          if saved \<noteq> [] then ret (saved, True)
          else andthen (asking (pt_alias ps)) (\<lambda>alias.
            andthen (heartbeat alias) (\<lambda>_. ret (alias, False)))
      | None \<Rightarrow> andthen (asking (pt_alias ps)) (\<lambda>alias.
            andthen (heartbeat alias) (\<lambda>_. ret (alias, False))))"

definition replace_generated_alias :: "ports \<Rightarrow> unit activity" where
  "replace_generated_alias ps = andthen (asking (pt_alias ps)) heartbeat"

text \<open>The name to use, and whether an earlier attempt chose it.\<close>

definition chosen_branch :: "ports \<Rightarrow> string \<Rightarrow> (string \<times> bool) activity" where
  "chosen_branch ps requested =
     (if requested = [] then generated_alias ps else ret (requested, False))"

definition read_head :: "ports \<Rightarrow> string \<Rightarrow> string activity" where
  "read_head ps dir = port_or ''read HEAD: '' (pt_head ps dir) (GitHead dir)"

definition at_head :: "ports \<Rightarrow> string \<Rightarrow> string \<Rightarrow> create_branch_result activity" where
  "at_head ps branch dir =
     andthen (read_head ps dir) (\<lambda>head.
       ret \<lparr>br_branch = branch, br_work_dir = dir, br_base = head\<rparr>)"

text \<open>
  What a failed creation is turned into: an existing name is replaced when it was made up and
  refused for good when the caller chose it; any other failure is worth a retry.
\<close>

definition creation_failed :: "ports \<Rightarrow> bool \<Rightarrow> string \<Rightarrow> string \<Rightarrow> port_error \<Rightarrow> 'a activity" where
  "creation_failed ps generated subject failing e =
     (case e of
        PortExists _ \<Rightarrow>
          if generated then
            andthen (replace_generated_alias ps) (\<lambda>_.
              fail (ActText (''generated '' @ subject @ '' already exists; retrying with a new name'')))
          else fail (ActNonRetryable err_branch_exists
            (subject @ '' already exists; choose a new branch name''))
      | PortError _ \<Rightarrow> fail (ActWrapped failing e))"

definition create_worktree :: "ports \<Rightarrow> create_branch_request \<Rightarrow> create_branch_result activity" where
  "create_worktree ps req =
     (let generated = (cb_branch req = []) in
      andthen (chosen_branch ps (cb_branch req)) (\<lambda>(branch, recovered).
        let path = path_join (cb_worktrees_dir req) branch;
            stable = (\<not> generated \<or> recovered)
        in andthen
            (if stable then
               andthen (attempt (perform (pt_current_branch ps path) (GitCurrentBranch path))) (\<lambda>r.
                 ret (case r of Inr current \<Rightarrow> current = branch | Inl (_ :: port_error) \<Rightarrow> False))
             else ret False)
            (\<lambda>exists.
              case plan_worktree stable (pt_attempt ps) exists of
                AdoptWorktreeStep \<Rightarrow> at_head ps branch path
              | RejectWorktreeStep \<Rightarrow>
                  fail (ActNonRetryable err_branch_exists
                    (''branch '' @ branch @ '' already has a worktree at '' @ path @
                     ''; choose a new branch name''))
              | CreateWorktreeStep \<Rightarrow>
                  andthen (attempt (perform
                      (pt_add_worktree ps (cb_work_dir req) path branch (cb_start_point req))
                      (GitAddWorktree (cb_work_dir req) path branch (cb_start_point req)))) (\<lambda>r.
                    case r of
                      Inl e \<Rightarrow> creation_failed ps generated
                        (''branch '' @ branch @ '' or worktree path '' @ path)
                        (''create worktree for branch '' @ branch @ '': '') e
                    | Inr _ \<Rightarrow> at_head ps branch path))))"

definition create_in_place :: "ports \<Rightarrow> create_branch_request \<Rightarrow> create_branch_result activity" where
  "create_in_place ps req =
     (let generated = (cb_branch req = []); dir = cb_work_dir req in
      andthen (chosen_branch ps (cb_branch req)) (\<lambda>(branch, recovered).
      andthen (port_or ''determine current branch: '' (pt_current_branch ps dir) (GitCurrentBranch dir))
        (\<lambda>current.
        if current = branch then
          if generated \<and> \<not> recovered then
            andthen (replace_generated_alias ps) (\<lambda>_.
              fail (ActText (''generated branch '' @ branch @
                '' is already checked out; retrying with a new name'')))
          else if \<not> generated \<and> pt_attempt ps \<le> 1 then
            fail (ActNonRetryable err_branch_exists
              (''branch '' @ branch @ '' is already checked out; choose a new branch name''))
          else at_head ps branch dir
        else
          andthen (port_or ''check for local changes: '' (pt_has_changes ps dir) (GitHasChanges dir))
            (\<lambda>dirty.
            if dirty then
              fail (ActNonRetryable err_dirty_worktree
                ''working tree has local changes; commit or stash them first'')
            else
              andthen (attempt (perform (pt_create_branch ps dir branch (cb_start_point req))
                  (GitCreateBranch dir branch (cb_start_point req)))) (\<lambda>r.
                case r of
                  Inl e \<Rightarrow> creation_failed ps generated (''branch '' @ branch)
                    (''create branch '' @ branch @ '': '') e
                | Inr _ \<Rightarrow> at_head ps branch dir)))))"

text \<open>How the validation error reads is not modelled: the type of the failure is.\<close>

definition create_branch :: "ports \<Rightarrow> create_branch_request \<Rightarrow> create_branch_result activity" where
  "create_branch ps req =
     (case validate_branch_name (cb_branch req) of
        Inl _ \<Rightarrow> fail (ActNonRetryable err_invalid_branch [])
      | Inr _ \<Rightarrow>
          if cb_worktrees_dir req \<noteq> [] then create_worktree ps req else create_in_place ps req)"

section \<open>Developing and merging\<close>

definition run_develop_agent :: "ports \<Rightarrow> string \<Rightarrow> string \<Rightarrow> agent_result activity" where
  "run_develop_agent ps dir prompt = agent ps (build_develop_prompt prompt) dir []"

definition has_changes_or :: "string \<Rightarrow> ports \<Rightarrow> string \<Rightarrow> bool activity" where
  "has_changes_or msg ps dir = port_or msg (pt_has_changes ps dir) (GitHasChanges dir)"

definition commits_since :: "ports \<Rightarrow> string \<Rightarrow> string \<Rightarrow> string list activity" where
  "commits_since ps dir sha = port_or (''list commits since '' @ sha @ '': '')
     (pt_commits_since ps dir sha) (GitCommitsSince dir sha)"

definition no_commits :: act_error where
  "no_commits = ActNonRetryable err_no_advance ''agent produced no new commits''"

definition ensure_developed :: "ports \<Rightarrow> string \<Rightarrow> string \<Rightarrow> string list activity" where
  "ensure_developed ps dir base =
     andthen (commits_since ps dir base) (\<lambda>commits.
       if commits = [] then fail no_commits
       else andthen (has_changes_or ''check for local changes: '' ps dir) (\<lambda>dirty.
         if dirty then fail (ActNonRetryable err_dirty_worktree ''agent left uncommitted changes'')
         else ret commits))"

record merge_result =
  mg_conflicted :: bool
  mg_head :: string

definition merge_dependency :: "ports \<Rightarrow> string \<Rightarrow> string \<Rightarrow> merge_result activity" where
  "merge_dependency ps dir branch =
     andthen (attempt (perform (pt_merge_branch ps dir branch) (GitMergeBranch dir branch))) (\<lambda>r.
       case r of
         Inl e \<Rightarrow>
           andthen (attempt (perform (pt_has_conflicts ps dir) (GitHasConflicts dir))) (\<lambda>c.
             case c of
               Inl (_ :: port_error) \<Rightarrow>
                 fail (ActWrapped (''merge dependency '' @ quoted branch @ '': '') e)
             | Inr conflicted \<Rightarrow>
                 if conflicted then ret \<lparr>mg_conflicted = True, mg_head = []\<rparr>
                 else fail (ActWrapped (''merge dependency '' @ quoted branch @ '': '') e))
       | Inr _ \<Rightarrow>
           andthen (port_or (''read head after merging '' @ quoted branch @ '': '')
               (pt_head ps dir) (GitHead dir)) (\<lambda>head.
             ret \<lparr>mg_conflicted = False, mg_head = head\<rparr>))"

record resolve_result =
  rs_head :: string
  rs_tokens :: int

definition resolve_merge_conflict :: "ports \<Rightarrow> string \<Rightarrow> string \<Rightarrow> resolve_result activity" where
  "resolve_merge_conflict ps dir branch =
     andthen (port_or ''run conflict-resolution agent: ''
         (pt_agent ps (build_merge_conflict_prompt branch) dir [])
         (AgentRun (build_merge_conflict_prompt branch) dir [])) (\<lambda>(out, tokens).
     andthen (port_or ''check for conflicts after resolution: ''
         (pt_has_conflicts ps dir) (GitHasConflicts dir)) (\<lambda>conflicted.
     if conflicted then fail (ActText (''merge of '' @ quoted branch @ '' still has unresolved conflicts''))
     else andthen (has_changes_or ''check for uncommitted changes after resolution: '' ps dir) (\<lambda>dirty.
     if dirty then fail (ActText (''merge of '' @ quoted branch @ '' resolved but not committed''))
     else andthen (port_or (''verify '' @ quoted branch @ '' merged into HEAD: '')
         (pt_is_ancestor ps dir branch ''HEAD'') (GitIsAncestor dir branch ''HEAD'')) (\<lambda>merged.
     if \<not> merged then fail (ActText (''merge of '' @ quoted branch @ '' was not applied to HEAD''))
     else andthen (port_or ''read head after resolution: '' (pt_head ps dir) (GitHead dir)) (\<lambda>head.
     ret \<lparr>rs_head = head, rs_tokens = tokens\<rparr>)))))"

definition abort_merge :: "ports \<Rightarrow> string \<Rightarrow> unit activity" where
  "abort_merge ps dir = port_or ''abort merge: '' (pt_abort_merge ps dir) (GitAbortMerge dir)"

section \<open>The pull request\<close>

definition current_branch :: "ports \<Rightarrow> string \<Rightarrow> string activity" where
  "current_branch ps dir =
     port_or ''determine current branch: '' (pt_current_branch ps dir) (GitCurrentBranch dir)"

definition open_pr :: "ports \<Rightarrow> string \<Rightarrow> pull_request activity" where
  "open_pr ps dir =
     andthen (current_branch ps dir) (\<lambda>branch.
     andthen (port_or (''push branch '' @ branch @ '': '') (pt_push ps dir branch) (GitPush dir branch)) (\<lambda>_.
     port (pt_ensure_open ps dir branch) (PrEnsureOpen dir branch)))"

definition determine_pr :: "ports \<Rightarrow> pilot_input \<Rightarrow> pull_request activity" where
  "determine_pr ps i =
     andthen (current_branch ps (pi_work_dir i)) (\<lambda>branch.
       port (pt_find_open ps (pi_work_dir i) branch) (PrFindOpen (pi_work_dir i) branch))"

definition check_ongoing_review :: "ports \<Rightarrow> pull_request \<Rightarrow> bool activity" where
  "check_ongoing_review ps pr =
     port_or ''check ongoing review: '' (pt_review_ongoing ps pr) (PrReviewOngoing pr)"

definition load_unresolved_comments :: "ports \<Rightarrow> pull_request \<Rightarrow> review_thread list activity" where
  "load_unresolved_comments ps pr =
     port_or ''load unresolved comments: '' (pt_unresolved_threads ps pr) (PrUnresolvedThreads pr)"

definition push_branch :: "ports \<Rightarrow> string \<Rightarrow> string \<Rightarrow> unit activity" where
  "push_branch ps dir branch =
     port_or (''push to '' @ branch @ '': '') (pt_push ps dir branch) (GitPush dir branch)"

fun reply_each :: "ports \<Rightarrow> pull_request \<Rightarrow> string \<Rightarrow> review_thread list \<Rightarrow> unit activity" where
  "reply_each ps pr body [] = ret ()"
| "reply_each ps pr body (t # ts) =
     andthen (port_or (''reply to thread '' @ th_id t @ '': '')
         (pt_reply ps pr (th_id t) body) (PrReply pr (th_id t) body)) (\<lambda>_.
     andthen (port_or (''resolve thread '' @ th_id t @ '': '')
         (pt_resolve ps pr (th_id t)) (PrResolve pr (th_id t))) (\<lambda>_.
     andthen (heartbeat (th_id t)) (\<lambda>_. reply_each ps pr body ts)))"

definition reply_and_resolve ::
  "ports \<Rightarrow> pull_request \<Rightarrow> review_thread list \<Rightarrow> string list \<Rightarrow> unit activity" where
  "reply_and_resolve ps pr threads shas = reply_each ps pr (format_reply_body shas) threads"

definition request_copilot_review :: "ports \<Rightarrow> pull_request \<Rightarrow> unit activity" where
  "request_copilot_review ps pr =
     port_or ''request Copilot review: '' (pt_request_copilot ps pr) (PrRequestCopilot pr)"

section \<open>The agent passes\<close>

definition mark_head_and_stash :: "ports \<Rightarrow> string \<Rightarrow> checkpoint activity" where
  "mark_head_and_stash ps dir =
     andthen (read_head ps dir) (\<lambda>head.
     andthen (has_changes_or ''check for local changes: '' ps dir) (\<lambda>dirty.
     if dirty then
       andthen (port_or ''stash local changes: '' (pt_stash ps dir) (GitStash dir)) (\<lambda>_.
         ret \<lparr>cp_head = head, cp_stashed = True\<rparr>)
     else ret \<lparr>cp_head = head, cp_stashed = False\<rparr>))"

definition ensure_head_advanced :: "ports \<Rightarrow> string \<Rightarrow> checkpoint \<Rightarrow> string list activity" where
  "ensure_head_advanced ps dir cp =
     andthen (commits_since ps dir (cp_head cp)) (\<lambda>commits.
       if commits = [] then
         andthen (if cp_stashed cp then
                    port_or ''restore stash after no commits: '' (pt_stash_pop ps dir) (GitStashPop dir)
                  else ret ()) (\<lambda>_. fail no_commits)
       else ret commits)"

definition restore_stash :: "ports \<Rightarrow> string \<Rightarrow> bool \<Rightarrow> unit activity" where
  "restore_stash ps dir stashed =
     (if \<not> stashed then ret ()
      else port_or ''restore stash: '' (pt_stash_pop ps dir) (GitStashPop dir))"

text \<open>A prompt that does not render ends the activity before the agent runs.\<close>

definition rendered :: "instruction_error + string \<Rightarrow> string activity" where
  "rendered r = (case r of Inl e \<Rightarrow> fail (ActInstruction e) | Inr prompt \<Rightarrow> ret prompt)"

definition run_agent ::
  "template_engine \<Rightarrow> ports \<Rightarrow> pilot_input \<Rightarrow> pull_request \<Rightarrow> review_thread list \<Rightarrow> string \<Rightarrow>
   agent_result activity" where
  "run_agent engine ps i pr threads guidance =
     andthen (rendered (build_pilot_prompt engine
         \<lparr>pp_instructions = pi_instructions i, pp_mode = pi_mode i, pp_text = pi_text i,
          pp_description = pr_body pr, pp_threads = threads, pp_guidance = guidance\<rparr>)) (\<lambda>prompt.
       agent ps prompt (pi_work_dir i) (instruction_model (pi_instructions i) key_pilot_address))"

definition run_review_agent :: "template_engine \<Rightarrow> ports \<Rightarrow> review_input \<Rightarrow> agent_result activity" where
  "run_review_agent engine ps i =
     andthen (rendered (render_key engine (ri_instructions i) key_review_perform Map.empty)) (\<lambda>prompt.
       agent ps prompt (ri_work_dir i) (instruction_model (ri_instructions i) key_review_perform))"

definition run_implement_agent ::
  "template_engine \<Rightarrow> ports \<Rightarrow> string \<Rightarrow> string \<Rightarrow> instruction_resolution \<Rightarrow> string \<Rightarrow>
   agent_result activity" where
  "run_implement_agent engine ps dir payload instructions guidance =
     andthen (rendered (render_key engine instructions key_review_implement
         [''Review'' \<mapsto> with_guidance guidance payload])) (\<lambda>prompt.
       agent ps prompt dir (instruction_model instructions key_review_implement))"

definition summarize_last_run :: "ports \<Rightarrow> string \<Rightarrow> string activity" where
  "summarize_last_run ps dir =
     andthen (agent ps summarize_prompt dir []) (\<lambda>r. ret (ag_output r))"

section \<open>Facts\<close>

lemma wp_port [wp_rules]:
  "wp (port ans ev) Q l \<longleftrightarrow>
   Q (case ans l of Inl e \<Rightarrow> Inl (ActPort e) | Inr x \<Rightarrow> Inr x) (l @ [ev (ans l)])"
  by (simp add: port_def wp_rules split: sum.split)

lemma wp_port_or [wp_rules]:
  "wp (port_or msg ans ev) Q l \<longleftrightarrow>
   Q (case ans l of Inl e \<Rightarrow> Inl (ActWrapped msg e) | Inr x \<Rightarrow> Inr x) (l @ [ev (ans l)])"
  by (simp add: port_or_def wp_rules split: sum.split)

lemma wp_heartbeat [wp_rules]: "wp (heartbeat d) Q l \<longleftrightarrow> Q (Inr ()) (l @ [Heartbeat d])"
  by (simp add: wp_run heartbeat_def)

lemmas act_run =
  andthen_def on_error_def perform_def attempt_def ret_def fail_def asking_def port_def port_or_def
  heartbeat_def

text \<open>The events of one thread answered in full.\<close>

definition answered :: "pull_request \<Rightarrow> string \<Rightarrow> review_thread \<Rightarrow> port_ev list" where
  "answered pr body t =
     [PrReply pr (th_id t) body (Inr ()), PrResolve pr (th_id t) (Inr ()), Heartbeat (th_id t)]"

lemma reply_each_ok:
  "reply_each ps pr body ts l = (Inr u, l') \<Longrightarrow> l' = l @ concat (map (answered pr body) ts)"
proof (induction ts arbitrary: l)
  case Nil
  then show ?case by (simp add: ret_def)
next
  case (Cons t ts)
  have "reply_each ps pr body ts (l @ answered pr body t) = (Inr u, l')"
    using Cons.prems by (auto simp: act_run answered_def split: sum.splits prod.splits)
  from Cons.IH [OF this] show ?case by simp
qed

lemma reply_each_failed:
  "reply_each ps pr body ts l = (Inl e, l') \<Longrightarrow>
   \<exists>front t rest d. ts = front @ t # rest \<and> l' = l @ concat (map (answered pr body) front) @ d \<and>
     ((\<exists>x. d = [PrReply pr (th_id t) body (Inl x)]) \<or>
      (\<exists>x. d = [PrReply pr (th_id t) body (Inr ()), PrResolve pr (th_id t) (Inl x)]))"
proof (induction ts arbitrary: l)
  case Nil
  then show ?case by (simp add: ret_def)
next
  case (Cons t ts)
  let ?l1 = "l @ [PrReply pr (th_id t) body (pt_reply ps pr (th_id t) body l)]"
  let ?l2 = "?l1 @ [PrResolve pr (th_id t) (pt_resolve ps pr (th_id t) ?l1)]"
  show ?case
  proof (cases "pt_reply ps pr (th_id t) body l")
    case (Inl x)
    with Cons.prems have "l' = l @ [PrReply pr (th_id t) body (Inl x)]" by (simp add: act_run)
    then show ?thesis
      by (intro exI [of _ "[]"] exI [of _ t] exI [of _ ts]
          exI [of _ "[PrReply pr (th_id t) body (Inl x)]"]) simp
  next
    case reply: (Inr u)
    show ?thesis
    proof (cases "pt_resolve ps pr (th_id t) ?l1")
      case (Inl x)
      with reply Cons.prems have "l' = ?l1 @ [PrResolve pr (th_id t) (Inl x)]" by (simp add: act_run)
      with reply show ?thesis
        by (intro exI [of _ "[]"] exI [of _ t] exI [of _ ts]
            exI [of _ "[PrReply pr (th_id t) body (Inr ()), PrResolve pr (th_id t) (Inl x)]"]) simp
    next
      case (Inr v)
      with reply Cons.prems
      have "reply_each ps pr body ts (l @ answered pr body t) = (Inl e, l')"
        by (simp add: act_run answered_def)
      from Cons.IH [OF this] obtain front t' rest d where *: "ts = front @ t' # rest"
        "l' = (l @ answered pr body t) @ concat (map (answered pr body) front) @ d"
        "(\<exists>x. d = [PrReply pr (th_id t') body (Inl x)]) \<or>
         (\<exists>x. d = [PrReply pr (th_id t') body (Inr ()), PrResolve pr (th_id t') (Inl x)])" by blast
      then show ?thesis
        by (intro exI [of _ "t # front"] exI [of _ t'] exI [of _ rest] exI [of _ d]) simp
    qed
  qed
qed

text \<open>Ports that always answer well, from a clean checkout of main.\<close>

definition quiet_ports :: ports where
  "quiet_ports =
     \<lparr>pt_current_branch = (\<lambda>_ _. Inr ''main''), pt_create_branch = (\<lambda>_ _ _ _. Inr ()),
      pt_add_worktree = (\<lambda>_ _ _ _ _. Inr ()), pt_head = (\<lambda>_ _. Inr ''h0''),
      pt_has_changes = (\<lambda>_ _. Inr False), pt_stash = (\<lambda>_ _. Inr ()),
      pt_stash_pop = (\<lambda>_ _. Inr ()), pt_commits_since = (\<lambda>_ _ _. Inr []),
      pt_push = (\<lambda>_ _ _. Inr ()), pt_merge_branch = (\<lambda>_ _ _. Inr ()),
      pt_abort_merge = (\<lambda>_ _. Inr ()), pt_has_conflicts = (\<lambda>_ _. Inr False),
      pt_is_ancestor = (\<lambda>_ _ _ _. Inr True), pt_find_open = (\<lambda>_ _ _. Inl (PortError [])),
      pt_ensure_open = (\<lambda>_ _ _. Inl (PortError [])), pt_review_ongoing = (\<lambda>_ _. Inr False),
      pt_unresolved_threads = (\<lambda>_ _. Inr []), pt_reply = (\<lambda>_ _ _ _. Inr ()),
      pt_resolve = (\<lambda>_ _ _. Inr ()), pt_request_copilot = (\<lambda>_ _. Inr ()),
      pt_agent = (\<lambda>_ _ _ _. Inr (''ok'', 7)), pt_attempt = 1, pt_saved_alias = None,
      pt_alias = (\<lambda>_. ''flaming-duck-2026-jul-29'')\<rparr>"

text \<open>The same, with a tree that is dirty until it is stashed.\<close>

definition dirty_ports :: "string \<Rightarrow> ports" where
  "dirty_ports dir = quiet_ports\<lparr>pt_has_changes := \<lambda>_ l. Inr (GitStash dir (Inr ()) \<notin> set l)\<rparr>"

definition feature_request :: "string \<Rightarrow> create_branch_request" where
  "feature_request worktrees =
     \<lparr>cb_work_dir = ''/w'', cb_branch = ''feature'', cb_worktrees_dir = worktrees, cb_start_point = []\<rparr>"

section \<open>Properties\<close>

text \<open>
  Asked for a branch by name, the first attempt gives it only as a new branch cut in a
  clean tree: it succeeds exactly through a check of the current branch (another one), a check
  for local changes (none), the creation, and a reading of the HEAD it reports.
\<close>

theorem fresh_branch_from_clean_tree:
  assumes "create_branch ps req l = (Inr r, l')" "cb_branch req \<noteq> []" "cb_worktrees_dir req = []"
    and "pt_attempt ps \<le> 1"
  shows "\<exists>c. c \<noteq> cb_branch req \<and> validate_branch_name (cb_branch req) = Inr () \<and>
    l' = l @ [GitCurrentBranch (cb_work_dir req) (Inr c), GitHasChanges (cb_work_dir req) (Inr False),
      GitCreateBranch (cb_work_dir req) (cb_branch req) (cb_start_point req) (Inr ()),
      GitHead (cb_work_dir req) (Inr (br_base r))] \<and>
    br_branch r = cb_branch req \<and> br_work_dir r = cb_work_dir req"
proof -
  have v: "validate_branch_name (cb_branch req) = Inr ()"
    using assms(1) by (cases "validate_branch_name (cb_branch req)") (auto simp: create_branch_def fail_def)
  have "create_in_place ps req l = (Inr r, l')"
    using assms(1,3) v by (simp add: create_branch_def)
  then show ?thesis
    using assms(2,4) v
    by (auto simp: create_in_place_def chosen_branch_def Let_def act_run at_head_def read_head_def
        creation_failed_def split: sum.splits if_splits port_error.splits prod.splits)
qed

theorem fresh_branch_from_clean_tree_witness:
  "\<exists>r l'. create_branch quiet_ports (feature_request []) [] = (Inr r, l') \<and>
     GitHasChanges ''/w'' (Inr False) \<in> set l'"
proof -
  have "is_ok (fst (create_branch quiet_ports (feature_request []) []))" by code_simp
  then obtain r l' where r: "create_branch quiet_ports (feature_request []) [] = (Inr r, l')"
    by (cases "create_branch quiet_ports (feature_request []) []") (auto simp: is_ok_iff)
  from fresh_branch_from_clean_tree [OF r] r show ?thesis
    by (auto simp: feature_request_def quiet_ports_def)
qed

text \<open>
  In worktree mode the caller's own checkout is never read or written: a branch asked for
  by name comes back at its own path under the worktrees directory, either as a worktree added
  by this call or, on a retry only, as one found there on that very branch.
\<close>

theorem worktree_created_or_adopted:
  assumes "create_branch ps req l = (Inr r, l')" "cb_branch req \<noteq> []" "cb_worktrees_dir req \<noteq> []"
  shows "br_branch r = cb_branch req \<and>
    br_work_dir r = path_join (cb_worktrees_dir req) (cb_branch req) \<and>
    ((\<exists>c. l' = l @ [GitCurrentBranch (br_work_dir r) c,
        GitAddWorktree (cb_work_dir req) (br_work_dir r) (cb_branch req) (cb_start_point req) (Inr ()),
        GitHead (br_work_dir r) (Inr (br_base r))] \<and> c \<noteq> Inr (cb_branch req)) \<or>
     1 < pt_attempt ps \<and>
     l' = l @ [GitCurrentBranch (br_work_dir r) (Inr (cb_branch req)),
        GitHead (br_work_dir r) (Inr (br_base r))])"
proof -
  have "create_worktree ps req l = (Inr r, l')"
    using assms(1,3)
    by (cases "validate_branch_name (cb_branch req)") (auto simp: create_branch_def fail_def)
  then show ?thesis
    using assms(2)
    by (auto simp: create_worktree_def chosen_branch_def Let_def act_run at_head_def read_head_def
        creation_failed_def plan_worktree_def
        split: sum.splits if_splits port_error.splits prod.splits worktree_step.splits)
qed

theorem worktree_created_or_adopted_witness:
  "\<exists>r l'. create_branch quiet_ports (feature_request ''/t'') [] = (Inr r, l') \<and>
     br_work_dir r = ''/t/feature'' \<and> GitHead ''/w'' (Inr (br_base r)) \<notin> set l'"
proof -
  have "is_ok (fst (create_branch quiet_ports (feature_request ''/t'') []))" by code_simp
  then obtain r l' where r: "create_branch quiet_ports (feature_request ''/t'') [] = (Inr r, l')"
    by (cases "create_branch quiet_ports (feature_request ''/t'') []") (auto simp: is_ok_iff)
  have p: "path_join ''/t'' ''feature'' = ''/t/feature''" by code_simp
  from worktree_created_or_adopted [OF r] r p show ?thesis
    by (auto simp: feature_request_def quiet_ports_def)
qed

text \<open>
  A resolved merge is proven, not believed: the activity succeeds only when, after the
  agent, git reported no conflicts, no local changes and the dependency branch an ancestor of
  HEAD, in that order, and it reports the HEAD read last.
\<close>

theorem resolved_merge_is_proven:
  assumes "resolve_merge_conflict ps dir branch l = (Inr r, l')"
  shows "\<exists>out. l' = l @ [AgentRun (build_merge_conflict_prompt branch) dir [] (Inr (out, rs_tokens r)),
      GitHasConflicts dir (Inr False), GitHasChanges dir (Inr False),
      GitIsAncestor dir branch ''HEAD'' (Inr True), GitHead dir (Inr (rs_head r))]"
  using assms
  by (auto simp: resolve_merge_conflict_def has_changes_or_def act_run
      split: sum.splits if_splits prod.splits)

theorem resolved_merge_is_proven_witness:
  "\<exists>r l'. resolve_merge_conflict quiet_ports ''/w'' ''dep'' [] = (Inr r, l') \<and>
     GitIsAncestor ''/w'' ''dep'' ''HEAD'' (Inr True) \<in> set l'"
proof -
  have "is_ok (fst (resolve_merge_conflict quiet_ports ''/w'' ''dep'' []))"
    by (simp add: resolve_merge_conflict_def has_changes_or_def act_run quiet_ports_def)
  then obtain r l' where r: "resolve_merge_conflict quiet_ports ''/w'' ''dep'' [] = (Inr r, l')"
    by (cases "resolve_merge_conflict quiet_ports ''/w'' ''dep'' []") (auto simp: is_ok_iff)
  from resolved_merge_is_proven [OF r] r show ?thesis by auto
qed

text \<open>
  Every thread is replied to before it is resolved, with the same commit hashes, in order:
  a success answered all of them, and a failure answered a prefix of them in full and then
  stopped at a refused reply or a refused resolve.
\<close>

theorem threads_answered_in_order:
  "reply_and_resolve ps pr ts shas l = (Inr (), l @ concat (map (answered pr (format_reply_body shas)) ts)) \<or>
   (\<exists>e front t rest d. ts = front @ t # rest \<and>
     reply_and_resolve ps pr ts shas l =
       (Inl e, l @ concat (map (answered pr (format_reply_body shas)) front) @ d) \<and>
     ((\<exists>x. d = [PrReply pr (th_id t) (format_reply_body shas) (Inl x)]) \<or>
      (\<exists>x. d = [PrReply pr (th_id t) (format_reply_body shas) (Inr ()), PrResolve pr (th_id t) (Inl x)])))"
proof (cases "reply_and_resolve ps pr ts shas l")
  case (Pair r l')
  show ?thesis
  proof (cases r)
    case (Inl e)
    then show ?thesis
      using Pair reply_each_failed [of ps pr "format_reply_body shas" ts l e l']
      by (auto simp: reply_and_resolve_def)
  next
    case (Inr u)
    then show ?thesis
      using Pair reply_each_ok [of ps pr "format_reply_body shas" ts l u l']
      by (auto simp: reply_and_resolve_def)
  qed
qed

text \<open>
  A pass that made no commits gives the developer's changes back before it says so: the
  no-commits error comes out only after a stash taken by the checkpoint was popped.
\<close>

theorem no_commits_restores_stash:
  assumes "ensure_head_advanced ps dir cp l = (Inl no_commits, l')"
  shows "l' = l @ [GitCommitsSince dir (cp_head cp) (Inr [])] @
    (if cp_stashed cp then [GitStashPop dir (Inr ())] else [])"
  using assms
  by (auto simp: ensure_head_advanced_def commits_since_def no_commits_def act_run
      split: sum.splits if_splits)

theorem no_commits_restores_stash_witness:
  "\<exists>l'. ensure_head_advanced quiet_ports ''/w'' \<lparr>cp_head = ''h0'', cp_stashed = True\<rparr> [] = (Inl no_commits, l') \<and>
     GitStashPop ''/w'' (Inr ()) \<in> set l'"
proof -
  obtain l' where r: "ensure_head_advanced quiet_ports ''/w'' \<lparr>cp_head = ''h0'', cp_stashed = True\<rparr> [] =
      (Inl no_commits, l')"
    by (simp add: ensure_head_advanced_def commits_since_def act_run quiet_ports_def)
  from no_commits_restores_stash [OF r] r show ?thesis by simp
qed

text \<open>
  The checkpoint is not safe to retry.  In a tree that is dirty until it is stashed, a
  second run of the checkpoint, as when the first one's answer was lost, reports nothing
  stashed, and the restoring step, told so, leaves the developer's changes in the stash.
\<close>

theorem retried_checkpoint_forgets_stash:
  assumes "\<forall>l. pt_head ps dir l = Inr h" "\<forall>l. pt_stash ps dir l = Inr ()"
    and "\<forall>l. pt_has_changes ps dir l = Inr (GitStash dir (Inr ()) \<notin> set l)"
    and "GitStash dir (Inr ()) \<notin> set l"
  shows "\<exists>l1 l2. mark_head_and_stash ps dir l = (Inr \<lparr>cp_head = h, cp_stashed = True\<rparr>, l1) \<and>
    mark_head_and_stash ps dir l1 = (Inr \<lparr>cp_head = h, cp_stashed = False\<rparr>, l2) \<and>
    restore_stash ps dir False l2 = (Inr (), l2) \<and> GitStash dir (Inr ()) \<in> set l2"
  using assms
  by (simp add: mark_head_and_stash_def read_head_def has_changes_or_def restore_stash_def act_run)

theorem retried_checkpoint_forgets_stash_witness:
  "\<exists>l1 l2. mark_head_and_stash (dirty_ports ''/w'') ''/w'' [] =
      (Inr \<lparr>cp_head = ''h0'', cp_stashed = True\<rparr>, l1) \<and>
    mark_head_and_stash (dirty_ports ''/w'') ''/w'' l1 = (Inr \<lparr>cp_head = ''h0'', cp_stashed = False\<rparr>, l2)"
proof -
  have "\<forall>l. pt_head (dirty_ports ''/w'') ''/w'' l = Inr ''h0''"
      "\<forall>l. pt_stash (dirty_ports ''/w'') ''/w'' l = Inr ()"
      "\<forall>l. pt_has_changes (dirty_ports ''/w'') ''/w'' l = Inr (GitStash ''/w'' (Inr ()) \<notin> set l)"
    by (simp_all add: dirty_ports_def quiet_ports_def)
  from retried_checkpoint_forgets_stash [OF this, of "[]"] show ?thesis by auto
qed

end
