(* ===== verification/Workflow_Vars.thy ===== *)
theory Workflow_Vars
  imports Workflow_Base
begin

text \<open>
  Workflow bodies with local variables that a deferred function reads.

  A body is a function on its variables and on the log, so that the variables survive an early
  return.  \<open>with_vars\<close> runs a body and then its deferred code, which sees the result and the
  variables as they were when the body returned, and cannot change the result.  \<open>vwp\<close> is the
  weakest precondition of a body.

  A failed call (an activity or a child workflow, after Temporal's retries) fails with an
  application error, a cancellation, or something else (a timeout, a lost worker); it never
  carries the continue-as-new signal, which is a workflow's own return value.
\<close>

datatype call_error = CallApp string string | CallCanceled | CallOther string

fun fault :: "call_error \<Rightarrow> 'n wf_error" where
  "fault (CallApp t m) = AppErr t m"
| "fault CallCanceled = CanceledErr"
| "fault (CallOther m) = PlainErr m"

lemma fault_not_continue [simp]: "\<not> is_continue_as_new (fault e)"
  by (cases e) auto

lemma fault_ne_continue [simp]: "fault e \<noteq> ContinueAsNew n" "ContinueAsNew n \<noteq> fault e"
  by (cases e; simp)+

lemma app_type_fault [simp]: "app_type (fault e) = Some t \<longleftrightarrow> (\<exists>m. e = CallApp t m)"
  by (cases e) auto

lemma canceled_fault [simp]: "is_canceled (fault e) \<longleftrightarrow> e = CallCanceled"
  by (cases e) auto

type_synonym 'a outcome = "call_error + 'a"

text \<open>A call whose failure ends the workflow, unless it is attempted.\<close>

definition call :: "('ev list \<Rightarrow> 'a outcome) \<Rightarrow> ('a outcome \<Rightarrow> 'ev) \<Rightarrow> ('ev, 'n wf_error, 'a) eff" where
  "call ans ev = on_error fault (perform ans ev)"

lemma wp_call [wp_rules]:
  "wp (call ans ev) Q l \<longleftrightarrow>
   Q (case ans l of Inl e \<Rightarrow> Inl (fault e) | Inr x \<Rightarrow> Inr x) (l @ [ev (ans l)])"
  by (simp add: call_def wp_rules split: sum.split)

lemma appends_call [intro!]: "appends (call ans ev)"
  unfolding call_def by auto

section \<open>Bodies with variables\<close>

type_synonym ('ev, 's, 'e, 'a) body = "'s \<Rightarrow> 'ev list \<Rightarrow> ('e + 'a) \<times> 's \<times> 'ev list"

definition vret :: "'a \<Rightarrow> ('ev, 's, 'e, 'a) body" where
  "vret x s l = (Inr x, s, l)"

definition vfail :: "'e \<Rightarrow> ('ev, 's, 'e, 'a) body" where
  "vfail e s l = (Inl e, s, l)"

definition vthen ::
  "('ev, 's, 'e, 'a) body \<Rightarrow> ('a \<Rightarrow> ('ev, 's, 'e, 'b) body) \<Rightarrow> ('ev, 's, 'e, 'b) body" where
  "vthen m f s l =
     (case m s l of (Inl e, s', l') \<Rightarrow> (Inl e, s', l') | (Inr x, s', l') \<Rightarrow> f x s' l')"

text \<open>Code that does not touch the variables.\<close>

definition vdo :: "('ev, 'e, 'a) eff \<Rightarrow> ('ev, 's, 'e, 'a) body" where
  "vdo m s l = (case m l of (r, l') \<Rightarrow> (r, s, l'))"

definition vget :: "('ev, 's, 'e, 's) body" where
  "vget s l = (Inr s, s, l)"

definition vset :: "('s \<Rightarrow> 's) \<Rightarrow> ('ev, 's, 'e, unit) body" where
  "vset g s l = (Inr (), g s, l)"

definition with_vars ::
  "'s \<Rightarrow> ('ev, 's, 'e, 'a) body \<Rightarrow> ('e + 'a \<Rightarrow> 's \<Rightarrow> ('ev, 'f, unit) eff) \<Rightarrow> ('ev, 'e, 'a) eff" where
  "with_vars s m d l = (case m s l of (r, s', l') \<Rightarrow> (r, snd (d r s' l')))"

definition vwp ::
  "('ev, 's, 'e, 'a) body \<Rightarrow> ('e + 'a \<Rightarrow> 's \<Rightarrow> 'ev list \<Rightarrow> bool) \<Rightarrow> 's \<Rightarrow> 'ev list \<Rightarrow> bool" where
  "vwp m Q s l = (case m s l of (r, s', l') \<Rightarrow> Q r s' l')"

lemma vwp_mono: "vwp m Q s l \<Longrightarrow> (\<And>r s' l'. Q r s' l' \<Longrightarrow> R r s' l') \<Longrightarrow> vwp m R s l"
  by (auto simp: vwp_def split: prod.splits)

lemma vwp_ret [wp_rules]: "vwp (vret x) Q s l \<longleftrightarrow> Q (Inr x) s l"
  and vwp_fail [wp_rules]: "vwp (vfail e) Q s l \<longleftrightarrow> Q (Inl e) s l"
  by (simp_all add: vwp_def vret_def vfail_def)

lemma vwp_get [wp_rules]: "vwp vget Q s l \<longleftrightarrow> Q (Inr s) s l"
  by (simp add: vwp_def vget_def)

lemma vwp_set [wp_rules]: "vwp (vset g) Q s l \<longleftrightarrow> Q (Inr ()) (g s) l"
  by (simp add: vwp_def vset_def)

lemma vwp_do [wp_rules]: "vwp (vdo m) Q s l \<longleftrightarrow> wp m (\<lambda>r l'. Q r s l') l"
  by (simp add: vwp_def wp_def vdo_def split: prod.split)

lemma vwp_then [wp_rules]:
  "vwp (vthen m f) Q s l \<longleftrightarrow>
   vwp m (\<lambda>r s' l'. case r of Inl e \<Rightarrow> Q (Inl e) s' l' | Inr x \<Rightarrow> vwp (f x) Q s' l') s l"
  by (auto simp: vwp_def vthen_def split: prod.splits sum.splits)

lemma wp_with_vars [wp_rules]:
  "wp (with_vars s m d) Q l \<longleftrightarrow> vwp m (\<lambda>r s' l'. wp (d r s') (\<lambda>_ l''. Q r l'') l') s l"
  by (auto simp: vwp_def wp_def with_vars_def split: prod.splits)

text \<open>Bodies only append to the log too.\<close>

definition vappends :: "('ev, 's, 'e, 'a) body \<Rightarrow> bool" where
  "vappends m = (\<forall>s l. extends l (snd (snd (m s l))))"

lemma vappends_basic [intro!]: "vappends (vret x)" "vappends (vfail e)"
  by (simp_all add: vappends_def vret_def vfail_def)

lemma vappends_get [intro!]: "vappends vget"
  by (simp add: vappends_def vget_def)

lemma vappends_set [intro!]: "vappends (vset g)"
  by (simp add: vappends_def vset_def)

lemma vappends_do [intro!]: "appends m \<Longrightarrow> vappends (vdo m)"
  by (simp add: vappends_def appends_def vdo_def split: prod.split) (metis snd_conv)

lemma vappends_then [intro!]: "vappends m \<Longrightarrow> (\<And>x. vappends (f x)) \<Longrightarrow> vappends (vthen m f)"
  unfolding vappends_def vthen_def
  by (auto split: prod.splits sum.splits) (metis extends_trans snd_conv)+

lemma appends_with_vars [intro!]:
  "vappends m \<Longrightarrow> (\<And>r s. appends (d r s)) \<Longrightarrow> appends (with_vars s m d)"
  unfolding vappends_def appends_def with_vars_def
  by (auto split: prod.splits) (metis extends_trans snd_conv)

text \<open>Replacing the error of a body, and running a body to look at its error.\<close>

definition vmap_error :: "('e \<Rightarrow> 'f) \<Rightarrow> ('ev, 's, 'e, 'a) body \<Rightarrow> ('ev, 's, 'f, 'a) body" where
  "vmap_error g m s l = (case m s l of (Inl e, s', l') \<Rightarrow> (Inl (g e), s', l') | (Inr x, s', l') \<Rightarrow> (Inr x, s', l'))"

definition vlook :: "('ev, 's, 'e, 'a) body \<Rightarrow> ('ev, 's, 'f, 'e + 'a) body" where
  "vlook m s l = (case m s l of (r, s', l') \<Rightarrow> (Inr r, s', l'))"

lemma vwp_map_error [wp_rules]:
  "vwp (vmap_error g m) Q s l \<longleftrightarrow> vwp m (\<lambda>r. Q (case r of Inl e \<Rightarrow> Inl (g e) | Inr x \<Rightarrow> Inr x)) s l"
  by (auto simp: vwp_def vmap_error_def split: prod.splits sum.splits)

lemma vwp_look [wp_rules]: "vwp (vlook m) Q s l \<longleftrightarrow> vwp m (\<lambda>r. Q (Inr r)) s l"
  by (auto simp: vwp_def vlook_def split: prod.splits)

lemma vappends_map_error [intro!]: "vappends m \<Longrightarrow> vappends (vmap_error g m)"
  unfolding vappends_def vmap_error_def by (auto split: prod.splits sum.splits) (metis snd_conv)+

lemma vappends_look [intro!]: "vappends m \<Longrightarrow> vappends (vlook m)"
  unfolding vappends_def vlook_def by (auto split: prod.splits) (metis snd_conv)

end
