(* ===== verification/Exec_Rows.thy ===== *)
theory Exec_Rows
  imports Exec_Record Instructions
begin

text \<open>
  The row of the durable execution history (\<open>Execution\<close> and \<open>Detail\<close> of
  \<open>internal/execstore/execstore.go\<close>).  A time is a number of clock ticks and 0 is the zero time;
  a pointer that may be nil is an option.  \<open>no_detail\<close> is the zero value a row starts from, so
  that a kind of row names only the fields it has.
\<close>

record instruction_use =
  iu_key :: string
  iu_scope :: string
  iu_version :: nat
  iu_hash :: string
  iu_model_scope :: string
  iu_model_version :: nat
  iu_model_hash :: string

record node_outcome =
  nd_id :: string
  nd_status :: string
  nd_detail :: string
  nd_tokens :: int

record exec_detail =
  ed_detached :: bool
  ed_branch :: string
  ed_pr_url :: string
  ed_converged :: "bool option"
  ed_ending :: string
  ed_waiting_since :: "nat option"
  ed_waiting_session :: string
  ed_round :: string
  ed_decision :: string
  ed_principal :: string
  ed_addressed :: "bool option"
  ed_pass :: nat
  ed_resets :: nat
  ed_nodes :: "node_outcome list"
  ed_plan_id :: string
  ed_plan_nodes :: nat
  ed_error :: string
  ed_directory :: string
  ed_repository :: string
  ed_instructions :: "instruction_use list"

record execution =
  ex_workflow :: string
  ex_run :: string
  ex_first_run :: string
  ex_kind :: string
  ex_prompt :: string
  ex_started :: nat
  ex_ended :: nat
  ex_status :: exec_status
  ex_tokens :: int
  ex_schedule :: string
  ex_parent :: string
  ex_detail :: exec_detail

definition no_detail :: exec_detail where
  "no_detail =
     \<lparr>ed_detached = False, ed_branch = [], ed_pr_url = [], ed_converged = None, ed_ending = [],
      ed_waiting_since = None, ed_waiting_session = [], ed_round = [], ed_decision = [],
      ed_principal = [], ed_addressed = None, ed_pass = 0, ed_resets = 0, ed_nodes = [],
      ed_plan_id = [], ed_plan_nodes = 0, ed_error = [], ed_directory = [], ed_repository = [],
      ed_instructions = []\<rparr>"

definition ex_running :: "execution \<Rightarrow> bool" where
  "ex_running e = (ex_status e = RunningStatus)"

definition ex_duration :: "execution \<Rightarrow> int" where
  "ex_duration e = (if ex_ended e = 0 then 0 else int (ex_ended e) - int (ex_started e))"

text \<open>\<open>instructionUses\<close>: which version of each instruction a run used, never its text.\<close>

definition instruction_uses :: "instruction_resolution \<Rightarrow> instruction_use list" where
  "instruction_uses = map (\<lambda>v.
     \<lparr>iu_key = iv_key v, iu_scope = iv_scope v, iu_version = iv_version v, iu_hash = iv_hash v,
      iu_model_scope = mv_scope (iv_model v), iu_model_version = mv_version (iv_model v),
      iu_model_hash = mv_hash (iv_model v)\<rparr>)"

text \<open>\<open>waitingSince\<close>.\<close>

definition waiting_since :: "nat \<Rightarrow> nat option" where
  "waiting_since t = (if t = 0 then None else Some t)"

end
