(* ===== verification/Review_Flow.thy ===== *)
theory Review_Flow
  imports Review_Activities Workflow_Vars Exec_Rows
begin

text \<open>
  What the review, pilot, open-PR and develop workflows share: their events and environment,
  their recording (\<open>internal/codereview/recording.go\<close>), the notifications and summaries at the top
  of \<open>internal/codereview/workflow.go\<close>, and the pause for an operator
  (\<open>internal/codereview/steering.go\<close> and \<open>Ask\<close> of \<open>internal/steering/workflow.go\<close>).

  An event is a call of an activity or of a child workflow, with its arguments and its outcome
  after Temporal's retries.  \<open>flow_env\<close> gives the outcomes, as functions of everything before,
  and what Temporal tells a run: its identity, the clock, and which versioned changes its
  history has.  The call options are not modelled; they shape the outcomes only.
\<close>

section \<open>Recorded states\<close>

record develop_state =
  dv_workflow :: string
  dv_run :: string
  dv_parent :: string
  dv_prompt :: string
  dv_branch :: string
  dv_pr_url :: string
  dv_started :: nat
  dv_ended :: nat
  dv_status :: exec_status
  dv_tokens :: int
  dv_place :: place_facts
  dv_error :: string

record review_state =
  rv_workflow :: string
  rv_run :: string
  rv_detached :: bool
  rv_parent :: string
  rv_pass :: nat
  rv_resets :: nat
  rv_started :: nat
  rv_ended :: nat
  rv_status :: exec_status
  rv_tokens :: int
  rv_converged :: "bool option"
  rv_ending :: ending
  rv_waiting_since :: nat
  rv_waiting_session :: string
  rv_place :: place_facts
  rv_instructions :: instruction_resolution
  rv_error :: string

record pilot_state =
  pv_workflow :: string
  pv_run :: string
  pv_parent :: string
  pv_pr_url :: string
  pv_started :: nat
  pv_ended :: nat
  pv_status :: exec_status
  pv_tokens :: int
  pv_addressed :: "bool option"
  pv_ending :: ending
  pv_waiting_since :: nat
  pv_waiting_session :: string
  pv_place :: place_facts
  pv_instructions :: instruction_resolution
  pv_error :: string

fun ending_text :: "ending \<Rightarrow> string" where
  "ending_text EndingNone = []"
| "ending_text EndingConverged = ''converged''"
| "ending_text EndingOperatorAccepted = ''operator-accepted''"
| "ending_text EndingOperatorStopped = ''operator-stopped''"
| "ending_text EndingPassCap = ''pass-cap''"

text \<open>The rows the persistence activities save.\<close>

definition develop_row :: "develop_state \<Rightarrow> execution" where
  "develop_row s =
     \<lparr>ex_workflow = dv_workflow s, ex_run = dv_run s, ex_first_run = [], ex_kind = ''develop'',
      ex_prompt = sanitize (dv_prompt s), ex_started = dv_started s, ex_ended = dv_ended s,
      ex_status = dv_status s, ex_tokens = dv_tokens s, ex_schedule = [], ex_parent = dv_parent s,
      ex_detail = no_detail\<lparr>ed_branch := dv_branch s, ed_pr_url := dv_pr_url s,
        ed_error := dv_error s, ed_directory := pl_directory (dv_place s),
        ed_repository := pl_repository (dv_place s)\<rparr>\<rparr>"

definition review_row :: "review_state \<Rightarrow> execution" where
  "review_row s =
     \<lparr>ex_workflow = rv_workflow s, ex_run = rv_run s, ex_first_run = [], ex_kind = ''review'',
      ex_prompt = [], ex_started = rv_started s, ex_ended = rv_ended s, ex_status = rv_status s,
      ex_tokens = rv_tokens s, ex_schedule = [], ex_parent = rv_parent s,
      ex_detail = no_detail\<lparr>ed_detached := rv_detached s, ed_pass := rv_pass s,
        ed_resets := rv_resets s, ed_converged := rv_converged s,
        ed_ending := ending_text (rv_ending s), ed_error := rv_error s,
        ed_waiting_since := waiting_since (rv_waiting_since s),
        ed_waiting_session := rv_waiting_session s, ed_directory := pl_directory (rv_place s),
        ed_repository := pl_repository (rv_place s),
        ed_instructions := instruction_uses (rv_instructions s)\<rparr>\<rparr>"

definition pilot_row :: "pilot_state \<Rightarrow> execution" where
  "pilot_row s =
     \<lparr>ex_workflow = pv_workflow s, ex_run = pv_run s, ex_first_run = [], ex_kind = ''pilot'',
      ex_prompt = [], ex_started = pv_started s, ex_ended = pv_ended s, ex_status = pv_status s,
      ex_tokens = pv_tokens s, ex_schedule = [], ex_parent = pv_parent s,
      ex_detail = no_detail\<lparr>ed_pr_url := pv_pr_url s, ed_addressed := pv_addressed s,
        ed_ending := ending_text (pv_ending s), ed_error := pv_error s,
        ed_waiting_since := waiting_since (pv_waiting_since s),
        ed_waiting_session := pv_waiting_session s, ed_directory := pl_directory (pv_place s),
        ed_repository := pl_repository (pv_place s),
        ed_instructions := instruction_uses (pv_instructions s)\<rparr>\<rparr>"

section \<open>Events and environment\<close>

record session_input =
  si_item :: string
  si_recipient :: string
  si_round :: string
  si_place :: place_facts

datatype next_run = NextReview review_input | NextPilot pilot_input

type_synonym flow_error = "next_run wf_error"

datatype flow_ev =
    EvProbe string "place_facts outcome"
  | EvSave execution "unit outcome"
  | EvResolveInstructions setting_request "instruction_resolution outcome"
  | EvResolveSettings setting_request "setting_resolution outcome"
  | EvNotify notice "unit outcome"
  | EvSummarize string "string outcome"
  | EvOpenSession session "unit outcome"
  | EvSession string session_input "decision outcome"
  | EvDeterminePR pilot_input "pull_request outcome"
  | EvCheckReview pull_request "bool outcome"
  | EvSleep "unit outcome"
  | EvLoadComments pull_request "review_thread list outcome"
  | EvMark string "checkpoint outcome"
  | EvRunAgent pilot_input pull_request "review_thread list" string "agent_result outcome"
  | EvImplement string string instruction_resolution string "agent_result outcome"
  | EvReview string instruction_resolution "agent_result outcome"
  | EvHeadAdvanced string checkpoint "string list outcome"
  | EvPush string string "unit outcome"
  | EvReply pull_request "review_thread list" "string list" "unit outcome"
  | EvRequestReview pull_request "unit outcome"
  | EvRestore string "unit outcome"
  | EvOpenPR string "pull_request outcome"
  | EvCreateBranch create_branch_request "create_branch_result outcome"
  | EvMerge string string "merge_result outcome"
  | EvResolveMerge string string "resolve_result outcome"
  | EvAbortMerge string "unit outcome"
  | EvDevelop string string "agent_result outcome"
  | EvEnsureDeveloped string string "string list outcome"
  | EvReviewChild string review_input "review_outcome outcome"
  | EvReviewStarted string review_input "unit outcome"
  | EvOpenPRChild string string "open_pr_result outcome"
  | EvPilotChild string pilot_input "string outcome"

type_synonym 'a reply = "flow_ev list \<Rightarrow> 'a outcome"

record flow_env =
  en_info :: wf_info
  en_now :: "flow_ev list \<Rightarrow> nat"
  en_error_text :: "flow_error \<Rightarrow> string"
  en_recording :: bool
  en_placing :: bool
  en_instructing :: bool
  en_setting :: bool
  en_version_summarize :: bool
  en_version_detached :: bool
  en_version_open_pr :: bool
  en_probe :: "string \<Rightarrow> place_facts reply"
  en_save :: "execution \<Rightarrow> unit reply"
  en_instructions :: "setting_request \<Rightarrow> instruction_resolution reply"
  en_settings :: "setting_request \<Rightarrow> setting_resolution reply"
  en_notify :: "notice \<Rightarrow> unit reply"
  en_summarize :: "string \<Rightarrow> string reply"
  en_open_session :: "session \<Rightarrow> unit reply"
  en_session :: "string \<Rightarrow> session_input \<Rightarrow> decision reply"
  en_determine_pr :: "pilot_input \<Rightarrow> pull_request reply"
  en_check_review :: "pull_request \<Rightarrow> bool reply"
  en_sleep :: "unit reply"
  en_load_comments :: "pull_request \<Rightarrow> review_thread list reply"
  en_mark :: "string \<Rightarrow> checkpoint reply"
  en_run_agent :: "pilot_input \<Rightarrow> pull_request \<Rightarrow> review_thread list \<Rightarrow> string \<Rightarrow> agent_result reply"
  en_implement :: "string \<Rightarrow> string \<Rightarrow> instruction_resolution \<Rightarrow> string \<Rightarrow> agent_result reply"
  en_review :: "string \<Rightarrow> instruction_resolution \<Rightarrow> agent_result reply"
  en_head_advanced :: "string \<Rightarrow> checkpoint \<Rightarrow> string list reply"
  en_push :: "string \<Rightarrow> string \<Rightarrow> unit reply"
  en_reply :: "pull_request \<Rightarrow> review_thread list \<Rightarrow> string list \<Rightarrow> unit reply"
  en_request_review :: "pull_request \<Rightarrow> unit reply"
  en_restore :: "string \<Rightarrow> unit reply"
  en_open_pr :: "string \<Rightarrow> pull_request reply"
  en_create_branch :: "create_branch_request \<Rightarrow> create_branch_result reply"
  en_merge :: "string \<Rightarrow> string \<Rightarrow> merge_result reply"
  en_resolve_merge :: "string \<Rightarrow> string \<Rightarrow> resolve_result reply"
  en_abort_merge :: "string \<Rightarrow> unit reply"
  en_develop :: "string \<Rightarrow> string \<Rightarrow> agent_result reply"
  en_ensure_developed :: "string \<Rightarrow> string \<Rightarrow> string list reply"
  en_review_child :: "string \<Rightarrow> review_input \<Rightarrow> review_outcome reply"
  en_review_started :: "string \<Rightarrow> review_input \<Rightarrow> unit reply"
  en_open_pr_child :: "string \<Rightarrow> string \<Rightarrow> open_pr_result reply"
  en_pilot_child :: "string \<Rightarrow> pilot_input \<Rightarrow> string reply"

type_synonym 'a step = "(flow_ev, flow_error, 'a) eff"

section \<open>Calls every flow makes\<close>

definition send :: "flow_env \<Rightarrow> notice \<Rightarrow> unit step" where
  "send env n = call (en_notify env n) (EvNotify n)"

definition save_row :: "flow_env \<Rightarrow> execution \<Rightarrow> unit step" where
  "save_row env row = call (en_save env row) (EvSave row)"

definition probe :: "flow_env \<Rightarrow> string \<Rightarrow> place_facts step" where
  "probe env = probe_place (en_placing env) (\<lambda>d. call (en_probe env d) (EvProbe d) :: place_facts step)"

definition ensure_run_instructions ::
  "flow_env \<Rightarrow> instruction_resolution \<Rightarrow> place_facts \<Rightarrow> string list \<Rightarrow> instruction_resolution step" where
  "ensure_run_instructions env =
     ensure_instructions (en_instructing env) (\<lambda>q. call (en_instructions env q) (EvResolveInstructions q))"

definition ensure_run_settings ::
  "flow_env \<Rightarrow> setting_resolution \<Rightarrow> place_facts \<Rightarrow> string list \<Rightarrow> setting_resolution step" where
  "ensure_run_settings env =
     ensure_settings (en_setting env) (\<lambda>q. call (en_settings env q) (EvResolveSettings q))"

definition summarize_for_webhook :: "flow_env \<Rightarrow> bool \<Rightarrow> bool \<Rightarrow> string \<Rightarrow> string step" where
  "summarize_for_webhook env enabled agent_ran dir =
     (if \<not> enabled \<or> \<not> agent_ran then ret []
      else andthen (attempt (call (en_summarize env dir) (EvSummarize dir) :: string step)) (\<lambda>r.
        case r of
          Inl e \<Rightarrow> if is_canceled e then fail e else ret []
        | Inr summary \<Rightarrow> ret summary))"

definition notify_complete ::
  "flow_env \<Rightarrow> bool \<Rightarrow> bool \<Rightarrow> string \<Rightarrow> notice \<Rightarrow> string \<Rightarrow> unit step" where
  "notify_complete env enabled agent_ran dir n carried =
     andthen (summarize_for_webhook env enabled agent_ran dir) (\<lambda>body.
       notify_best_effort (send env)
         (n\<lparr>nt_webhook_body := (if body = [] then carried else body)\<rparr>))"

definition notify_run_failure ::
  "flow_env \<Rightarrow> string \<Rightarrow> string \<Rightarrow> bool \<Rightarrow> bool \<Rightarrow> flow_error option \<Rightarrow> unit step" where
  "notify_run_failure env title dir enabled agent_ran err =
     notify_failure_with (send env) (en_error_text env) title err (Some (\<lambda>n.
       andthen (attempt (summarize_for_webhook env enabled agent_ran dir)) (\<lambda>r.
         ret (n\<lparr>nt_webhook_body := (case r of Inl (_ :: flow_error) \<Rightarrow> [] | Inr body \<Rightarrow> body)\<rparr>))))"

section \<open>Recording a run\<close>

definition no_review_state :: review_state where
  "no_review_state =
     \<lparr>rv_workflow = [], rv_run = [], rv_detached = False, rv_parent = [], rv_pass = 0, rv_resets = 0,
      rv_started = 0, rv_ended = 0, rv_status = RunningStatus, rv_tokens = 0, rv_converged = None,
      rv_ending = EndingNone, rv_waiting_since = 0, rv_waiting_session = [], rv_place = no_place,
      rv_instructions = [], rv_error = []\<rparr>"

definition no_pilot_state :: pilot_state where
  "no_pilot_state =
     \<lparr>pv_workflow = [], pv_run = [], pv_parent = [], pv_pr_url = [], pv_started = 0, pv_ended = 0,
      pv_status = RunningStatus, pv_tokens = 0, pv_addressed = None, pv_ending = EndingNone,
      pv_waiting_since = 0, pv_waiting_session = [], pv_place = no_place, pv_instructions = [],
      pv_error = []\<rparr>"

definition no_develop_state :: develop_state where
  "no_develop_state =
     \<lparr>dv_workflow = [], dv_run = [], dv_parent = [], dv_prompt = [], dv_branch = [], dv_pr_url = [],
      dv_started = 0, dv_ended = 0, dv_status = RunningStatus, dv_tokens = 0, dv_place = no_place,
      dv_error = []\<rparr>"

definition start_review_state :: "flow_env \<Rightarrow> review_input \<Rightarrow> review_state step" where
  "start_review_state env i =
     (if \<not> en_recording env then ret no_review_state
      else andthen (asking (en_now env)) (\<lambda>now.
           andthen (probe env (ri_work_dir i)) (\<lambda>place.
             let who = identity_of (en_info env);
                 st = no_review_state\<lparr>rv_workflow := id_workflow who, rv_run := id_run who,
                   rv_detached := ri_detached i, rv_parent := id_parent who, rv_pass := ri_pass i,
                   rv_resets := ri_resets i, rv_started := now, rv_place := place,
                   rv_instructions := ri_instructions i\<rparr>
             in andthen (on_error (Wrapped ''record the review pass as started: '')
                  (save_row env (review_row st))) (\<lambda>_. ret st))))"

definition start_pilot_state :: "flow_env \<Rightarrow> pilot_input \<Rightarrow> pilot_state step" where
  "start_pilot_state env i =
     (if \<not> en_recording env then ret no_pilot_state
      else andthen (asking (en_now env)) (\<lambda>now.
           andthen (probe env (pi_work_dir i)) (\<lambda>place.
             let who = identity_of (en_info env);
                 st = no_pilot_state\<lparr>pv_workflow := id_workflow who, pv_run := id_run who,
                   pv_parent := id_parent who, pv_started := now, pv_place := place,
                   pv_instructions := pi_instructions i\<rparr>
             in andthen (on_error (Wrapped ''record the pilot pass as started: '')
                  (save_row env (pilot_row st))) (\<lambda>_. ret st))))"

definition start_develop_state :: "flow_env \<Rightarrow> develop_input \<Rightarrow> develop_state step" where
  "start_develop_state env i =
     (if \<not> en_recording env then ret no_develop_state
      else andthen (asking (en_now env)) (\<lambda>now.
             let who = identity_of (en_info env);
                 st = no_develop_state\<lparr>dv_workflow := id_workflow who, dv_run := id_run who,
                   dv_parent := id_parent who, dv_prompt := di_prompt i, dv_branch := di_branch i,
                   dv_started := now\<rparr>
             in andthen (on_error (Wrapped ''record the develop run as started: '')
                  (save_row env (develop_row st))) (\<lambda>_. ret st)))"

text \<open>Best-effort writes while a run is under way.\<close>

definition record_quietly :: "flow_env \<Rightarrow> execution \<Rightarrow> unit step" where
  "record_quietly env row =
     (if \<not> en_recording env then ret ()
      else andthen (attempt (save_row env row)) (\<lambda>r. case r of Inl (_ :: flow_error) \<Rightarrow> ret () | Inr _ \<Rightarrow> ret ()))"

definition record_develop_place :: "flow_env \<Rightarrow> develop_state \<Rightarrow> string \<Rightarrow> develop_state step" where
  "record_develop_place env st dir =
     andthen (probe env dir) (\<lambda>place.
       let st' = st\<lparr>dv_place := place\<rparr>
       in if \<not> en_recording env \<or> \<not> established place then ret st'
          else andthen (record_quietly env (develop_row st')) (\<lambda>_. ret st'))"

text \<open>The terminal state of a run, as a function of how the run ended and of the clock.\<close>

definition finished_review :: "flow_env \<Rightarrow> review_state \<Rightarrow> flow_error option \<Rightarrow> nat \<Rightarrow> review_state" where
  "finished_review env st err now =
     st\<lparr>rv_ended := now, rv_status := status_of err, rv_error := failure_text (en_error_text env) err,
       rv_waiting_since := 0, rv_waiting_session := []\<rparr>"

definition finished_pilot :: "flow_env \<Rightarrow> pilot_state \<Rightarrow> flow_error option \<Rightarrow> nat \<Rightarrow> pilot_state" where
  "finished_pilot env st err now =
     st\<lparr>pv_ended := now, pv_status := status_of err, pv_error := failure_text (en_error_text env) err,
       pv_waiting_since := 0, pv_waiting_session := []\<rparr>"

definition finished_develop :: "flow_env \<Rightarrow> develop_state \<Rightarrow> flow_error option \<Rightarrow> nat \<Rightarrow> develop_state" where
  "finished_develop env st err now =
     st\<lparr>dv_ended := now, dv_status := status_of err, dv_error := failure_text (en_error_text env) err\<rparr>"

text \<open>The deferred settling of a record: the terminal write, and what is said when it fails.\<close>

definition settle ::
  "flow_env \<Rightarrow> string \<Rightarrow> string \<Rightarrow> (nat \<Rightarrow> execution) \<Rightarrow> string \<Rightarrow> flow_error option \<Rightarrow> unit step" where
  "settle env what msg row result err =
     (if \<not> en_recording env then ret ()
      else andthen (asking (en_now env)) (\<lambda>now.
           andthen (attempt (on_error (Wrapped msg) (save_row env (row now)))) (\<lambda>r.
             case r of
               Inl e \<Rightarrow> terminal_write_failed (send env) (en_error_text env) what result err e
             | Inr _ \<Rightarrow> ret ())))"

section \<open>Pausing for the operator\<close>

definition steered :: "setting_resolution \<Rightarrow> bool" where
  "steered settings = (settings \<noteq> [] \<and> resolution_enabled settings key_steering_enabled)"

definition session_id_for :: "string \<Rightarrow> string \<Rightarrow> string" where
  "session_id_for run_id round =
     ''steering-'' @ run_id @ (if round = round_pass_limit then ''-pass-limit'' else [])"

definition open_waiting_session ::
  "flow_env \<Rightarrow> string \<Rightarrow> string \<Rightarrow> place_facts \<Rightarrow> string \<Rightarrow> unit step" where
  "open_waiting_session env sid round place material =
     andthen (asking (en_now env)) (\<lambda>now.
       let s = \<lparr>se_id = sid, se_item = wi_workflow_id (en_info env), se_round = round,
                se_material = material, se_place = place, se_guidance = [], se_opened = now,
                se_state = [], se_decision = no_decision, se_decided_at = 0\<rparr>
       in on_error (Wrapped (''open the steering session for the '' @ round @ '' round: ''))
            (call (en_open_session env s) (EvOpenSession s)))"

definition ask_operator ::
  "flow_env \<Rightarrow> string \<Rightarrow> string \<Rightarrow> place_facts \<Rightarrow> string \<Rightarrow> decision step" where
  "ask_operator env recipient round place material =
     (let sid = session_id_for (wi_run_id (en_info env)) round;
          inp = \<lparr>si_item = wi_workflow_id (en_info env), si_recipient = recipient, si_round = round,
                 si_place = place\<rparr>
      in andthen (open_waiting_session env sid round place material) (\<lambda>_.
           on_error (Wrapped (''wait for the operator's decision on the '' @ round @ '' round: ''))
             (call (en_session env sid inp) (EvSession sid inp))))"

text \<open>
  \<open>waiting\<close> is told when the wait began and in which session, and again with nothing once it is
  over, failed waits included.
\<close>

definition pause ::
  "flow_env \<Rightarrow> string \<Rightarrow> place_facts \<Rightarrow> string \<Rightarrow> string \<Rightarrow>
   (nat \<Rightarrow> string \<Rightarrow> (flow_ev, 's, flow_error, unit) body) \<Rightarrow> (flow_ev, 's, flow_error, decision) body" where
  "pause env round place material recipient waiting =
     vthen (vdo (asking (en_now env))) (\<lambda>now.
     vthen (waiting now (session_id_for (wi_run_id (en_info env)) round)) (\<lambda>_.
     vthen (vdo (attempt (ask_operator env recipient round place material))) (\<lambda>r.
     vthen (waiting 0 []) (\<lambda>_.
     vdo (lift r)))))"

text \<open>The local variables the deferred functions of a looping workflow read.\<close>

record 'r run_vars =
  va_started :: bool
  va_rec :: 'r
  va_agent_ran :: bool

end
