(* ===== verification/Flow_Events.thy ===== *)
theory Flow_Events
  imports Review_Flow
begin

text \<open>
  Reasoning about what a flow did from its events.

  \<open>emits P m\<close>: every event \<open>m\<close> adds satisfies \<open>P\<close>.  The events that only record, announce, probe
  or resolve are \<open>neutral\<close>: they move nothing the properties speak of.  The monitors read a log:
  \<open>spent\<close> is the tokens its agents reported, \<open>holding\<close> whether a checkpoint's stash is out,
  \<open>asks_freely\<close> whether every wait for an operator happened with no stash out.
\<close>

section \<open>What code emits\<close>

definition emits :: "('ev \<Rightarrow> bool) \<Rightarrow> ('ev, 'e, 'a) eff \<Rightarrow> bool" where
  "emits P m = (\<forall>l. \<exists>d. snd (m l) = l @ d \<and> list_all P d)"

lemma emits_basic [intro!]:
  "emits P (ret x)" "emits P (fail e)" "emits P (lift r)" "emits P (asking f)"
  by (simp_all add: emits_def ret_def fail_def lift_def asking_def)

lemma emits_perform [intro]: "(\<And>a. P (ev a)) \<Longrightarrow> emits P (perform ans ev)"
  by (simp add: emits_def perform_def)

lemma emits_andthen [intro!]: "emits P m \<Longrightarrow> (\<And>x. emits P (f x)) \<Longrightarrow> emits P (andthen m f)"
proof -
  assume m: "emits P m" and f: "\<And>x. emits P (f x)"
  show ?thesis
    unfolding emits_def
  proof
    fix l
    obtain r d where d: "m l = (r, l @ d)" "list_all P d"
      using m unfolding emits_def by (metis prod.collapse)
    show "\<exists>d. snd (andthen m f l) = l @ d \<and> list_all P d"
    proof (cases r)
      case (Inl e)
      with d show ?thesis by (simp add: andthen_def)
    next
      case (Inr x)
      obtain d' where "snd (f x (l @ d)) = (l @ d) @ d'" "list_all P d'"
        using f [of x] unfolding emits_def by blast
      with Inr d show ?thesis by (intro exI [of _ "d @ d'"]) (simp add: andthen_def)
    qed
  qed
qed

lemma emits_attempt [intro!]: "emits P m \<Longrightarrow> emits P (attempt m)"
  by (simp add: emits_def attempt_def split: prod.splits) (metis snd_conv)

lemma emits_on_error [intro!]: "emits P m \<Longrightarrow> emits P (on_error g m)"
  unfolding emits_def on_error_def
  by (auto split: prod.splits sum.splits) (metis snd_conv)+

lemma emits_call [intro]: "(\<And>a. P (ev a)) \<Longrightarrow> emits P (call ans ev)"
  unfolding call_def by (intro emits_on_error emits_perform)

lemma emits_wp: "emits P m \<Longrightarrow> (\<And>r d. list_all P d \<Longrightarrow> Q r (l @ d)) \<Longrightarrow> wp m Q l"
  unfolding emits_def wp_run by metis

text \<open>The same for a step whose result is known not to matter.\<close>

lemma emits_notify [intro!]: "emits P (m n) \<Longrightarrow> emits P (notify_best_effort m n)"
  unfolding notify_best_effort_def by (intro emits_andthen emits_attempt emits_basic)

section \<open>Neutral events\<close>

fun neutral :: "flow_ev \<Rightarrow> bool" where
  "neutral (EvProbe a b) = True"
| "neutral (EvSave a b) = True"
| "neutral (EvResolveInstructions a b) = True"
| "neutral (EvResolveSettings a b) = True"
| "neutral (EvNotify a b) = True"
| "neutral (EvSummarize a b) = True"
| "neutral e = False"

abbreviation quiet :: "(flow_ev, 'e, 'a) eff \<Rightarrow> bool" where
  "quiet \<equiv> emits neutral"

lemma quiet_send [intro!]: "quiet (send env n)"
  unfolding send_def by (rule emits_call) simp

lemma quiet_save [intro!]: "quiet (save_row env row)"
  unfolding save_row_def by (rule emits_call) simp

lemma quiet_probe [intro!]: "quiet (probe env dir)"
  unfolding probe_def probe_place_def
  by (auto intro!: emits_call)

lemma quiet_ensure_instructions [intro!]: "quiet (ensure_run_instructions env a b c)"
  unfolding ensure_run_instructions_def ensure_instructions_def
  by (auto intro!: emits_call)

lemma quiet_ensure_settings [intro!]: "quiet (ensure_run_settings env a b c)"
  unfolding ensure_run_settings_def ensure_settings_def
  by (auto intro!: emits_call)

lemma quiet_summarize [intro!]: "quiet (summarize_for_webhook env a b c)"
  unfolding summarize_for_webhook_def
  by (auto intro!: emits_call split: sum.splits)

lemma quiet_complete [intro!]: "quiet (notify_complete env a b c n d)"
  unfolding notify_complete_def by (intro emits_andthen quiet_summarize emits_notify quiet_send)

lemma quiet_failure [intro!]: "quiet (notify_run_failure env a b c d e)"
  unfolding notify_run_failure_def notify_failure_with_def Let_def
  by (auto intro!: emits_notify split: option.splits)

lemma quiet_record [intro!]: "quiet (record_quietly env row)"
  unfolding record_quietly_def by (auto split: sum.splits)

lemma quiet_start [intro!]:
  "quiet (start_review_state env i)" "quiet (start_pilot_state env p)" "quiet (start_develop_state env v)"
  unfolding start_review_state_def start_pilot_state_def start_develop_state_def Let_def by auto

lemma quiet_develop_place [intro!]: "quiet (record_develop_place env st dir)"
  unfolding record_develop_place_def Let_def by auto

lemma quiet_write_failed [intro!]: "quiet (terminal_write_failed (send env) a b c d e)"
  unfolding terminal_write_failed_def Let_def by (auto intro!: emits_notify)

lemma quiet_settle [intro!]: "quiet (settle env a b c d e)"
  unfolding settle_def by (auto split: sum.splits)

section \<open>Monitors\<close>

fun ev_tokens :: "flow_ev \<Rightarrow> int" where
  "ev_tokens (EvImplement a b c d (Inr r)) = ag_tokens r"
| "ev_tokens (EvReview a b (Inr r)) = ag_tokens r"
| "ev_tokens (EvRunAgent a b c d (Inr r)) = ag_tokens r"
| "ev_tokens (EvDevelop a b (Inr r)) = ag_tokens r"
| "ev_tokens (EvResolveMerge a b (Inr r)) = rs_tokens r"
| "ev_tokens e = 0"

definition spent :: "flow_ev list \<Rightarrow> int" where
  "spent l = sum_list (map ev_tokens l)"

fun hold_step :: "flow_ev \<Rightarrow> bool \<Rightarrow> bool" where
  "hold_step (EvMark a (Inr cp)) h = (h \<or> cp_stashed cp)"
| "hold_step (EvRestore a b) h = False"
| "hold_step e h = h"

definition holding :: "flow_ev list \<Rightarrow> bool" where
  "holding l = fold hold_step l False"

text \<open>An event that waits for, or opens a wait for, an operator.\<close>

fun asks :: "flow_ev \<Rightarrow> bool" where
  "asks (EvOpenSession a b) = True"
| "asks (EvSession a b c) = True"
| "asks e = False"

definition asks_freely :: "flow_ev list \<Rightarrow> bool" where
  "asks_freely l = (\<forall>a e b. l = a @ e # b \<longrightarrow> asks e \<longrightarrow> \<not> holding a)"

lemma spent_simps [simp]: "spent [] = 0" "spent (l @ d) = spent l + spent d" "spent (e # l) = ev_tokens e + spent l"
  by (simp_all add: spent_def)

lemma holding_simps [simp]: "holding [] = False" "holding (l @ [e]) = hold_step e (holding l)"
  by (simp_all add: holding_def)

lemma asks_freely_Nil [simp]: "asks_freely []"
  by (simp add: asks_freely_def)

lemma asks_freely_snoc [simp]: "asks_freely (l @ [e]) \<longleftrightarrow> asks_freely l \<and> (asks e \<longrightarrow> \<not> holding l)"
proof
  assume a: "asks_freely (l @ [e])"
  have "asks_freely l"
    unfolding asks_freely_def
  proof (intro allI impI)
    fix x y z assume "l = x @ y # z" "asks y"
    then have "l @ [e] = x @ y # (z @ [e])" by simp
    with a \<open>asks y\<close> show "\<not> holding x" unfolding asks_freely_def by blast
  qed
  moreover have "asks e \<longrightarrow> \<not> holding l" using a unfolding asks_freely_def by blast
  ultimately show "asks_freely l \<and> (asks e \<longrightarrow> \<not> holding l)" ..
next
  assume a: "asks_freely l \<and> (asks e \<longrightarrow> \<not> holding l)"
  show "asks_freely (l @ [e])"
    unfolding asks_freely_def
  proof (intro allI impI)
    fix x y z assume e: "l @ [e] = x @ y # z" "asks y"
    show "\<not> holding x"
    proof (cases z rule: rev_cases)
      case Nil
      then show ?thesis using e a by simp
    next
      case (snoc z' w)
      then have "l = x @ y # z'" using e by simp
      then show ?thesis using a e(2) unfolding asks_freely_def by blast
    qed
  qed
qed

lemma neutral_tokens: "neutral e \<Longrightarrow> ev_tokens e = 0"
  and neutral_hold: "neutral e \<Longrightarrow> hold_step e h = h"
  and neutral_asks: "neutral e \<Longrightarrow> \<not> asks e"
  by (cases e; simp)+

lemma neutral_spent [simp]: "list_all neutral d \<Longrightarrow> spent d = 0"
  by (induction d) (auto simp: neutral_tokens)

lemma neutral_holding [simp]: "list_all neutral d \<Longrightarrow> holding (l @ d) = holding l"
  by (induction d arbitrary: l rule: rev_induct)
    (simp_all add: neutral_hold flip: append_assoc del: append_assoc)

lemma neutral_asks_freely [simp]: "list_all neutral d \<Longrightarrow> asks_freely (l @ d) = asks_freely l"
  by (induction d arbitrary: l rule: rev_induct)
    (simp_all add: neutral_asks flip: append_assoc del: append_assoc)

section \<open>Steps that fail plainly\<close>

text \<open>A step's error is never the continue-as-new signal.\<close>

definition plain :: "(flow_ev, flow_error, 'a) eff \<Rightarrow> bool" where
  "plain m = (\<forall>l e. fst (m l) = Inl e \<longrightarrow> \<not> is_continue_as_new e)"

lemma plain_basic [intro!]:
  "plain (ret x)" "plain (asking f)" "plain (attempt m)"
  by (simp_all add: plain_def ret_def asking_def attempt_def split: prod.split)

lemma plain_fail [intro]: "\<not> is_continue_as_new e \<Longrightarrow> plain (fail e)"
  by (simp add: plain_def fail_def)

lemma plain_call [intro!]: "plain (call ans ev)"
  by (auto simp: plain_def call_def on_error_def perform_def split: sum.splits)

lemma plain_andthen [intro!]: "plain m \<Longrightarrow> (\<And>x. plain (f x)) \<Longrightarrow> plain (andthen m f)"
  unfolding plain_def andthen_def by (auto split: prod.splits sum.splits) (metis fst_conv)+

lemma plain_wrapped [intro!]: "plain m \<Longrightarrow> plain (on_error (Wrapped t) m)"
  unfolding plain_def on_error_def by (auto split: prod.splits sum.splits) (metis fst_conv)+

lemma plain_notify [intro!]: "plain (notify_best_effort m n)"
  unfolding notify_best_effort_def by auto

lemma plain_steps [intro!]:
  "plain (send env n)" "plain (save_row env row)" "plain (probe env dir)"
  "plain (ensure_run_instructions env a b c)" "plain (ensure_run_settings env a' b c)"
  "plain (record_quietly env row)"
  unfolding send_def save_row_def probe_def probe_place_def ensure_run_instructions_def
    ensure_instructions_def ensure_run_settings_def ensure_settings_def record_quietly_def
  by (auto split: sum.splits)

lemma plain_summarize [intro!]: "plain (summarize_for_webhook env a b c)"
proof -
  have "is_canceled e \<Longrightarrow> \<not> is_continue_as_new e" for e :: flow_error
    by (induction e) auto
  then show ?thesis
    unfolding summarize_for_webhook_def by (auto split: sum.splits intro!: plain_fail)
qed

lemma plain_complete [intro!]: "plain (notify_complete env a b c n d)"
  unfolding notify_complete_def by auto

lemma plain_start [intro!]:
  "plain (start_review_state env i)" "plain (start_pilot_state env p)" "plain (start_develop_state env v)"
  unfolding start_review_state_def start_pilot_state_def start_develop_state_def Let_def by auto

lemma plain_develop_place [intro!]: "plain (record_develop_place env st dir)"
  unfolding record_develop_place_def Let_def by auto

lemma plain_open [intro!]: "plain (open_waiting_session env sid round place material)"
  unfolding open_waiting_session_def Let_def by auto

lemma plain_ask [intro!]: "plain (ask_operator env recipient round place material)"
  unfolding ask_operator_def Let_def by auto

text \<open>A quiet, plain step: its events are neutral and its error no signal.\<close>

lemma quiet_wp:
  assumes "quiet m" "plain m"
    and "\<And>r d. list_all neutral d \<Longrightarrow> (\<And>e. r = Inl e \<Longrightarrow> \<not> is_continue_as_new e) \<Longrightarrow> Q r (l @ d)"
  shows "wp m Q l"
proof -
  obtain d where d: "snd (m l) = l @ d" "list_all neutral d"
    using assms(1) unfolding emits_def by blast
  have "\<And>e. fst (m l) = Inl e \<Longrightarrow> \<not> is_continue_as_new e"
    using assms(2) unfolding plain_def by blast
  with assms(3) d show ?thesis by (simp add: wp_run)
qed

section \<open>The deferred functions\<close>

text \<open>What follows the terminal write: only announcements.\<close>

fun announces :: "flow_ev \<Rightarrow> bool" where
  "announces (EvNotify a b) = True"
| "announces (EvSummarize a b) = True"
| "announces e = False"

lemma announces_neutral: "announces e \<Longrightarrow> neutral e"
  by (cases e) auto

lemma announces_send [intro!]: "emits announces (send env n)"
  unfolding send_def by (rule emits_call) simp

lemma announces_summarize [intro!]: "emits announces (summarize_for_webhook env a b c)"
  unfolding summarize_for_webhook_def by (auto intro!: emits_call split: sum.splits)

lemma announces_failure [intro!]: "emits announces (notify_run_failure env a b c d e)"
  unfolding notify_run_failure_def notify_failure_with_def Let_def
  by (auto intro!: emits_notify split: option.splits)

lemma announces_write_failed [intro!]: "emits announces (terminal_write_failed (send env) a b c d e)"
  unfolding terminal_write_failed_def Let_def by (auto intro!: emits_notify)

lemma emits_run: "emits P m \<Longrightarrow> \<exists>d. snd (m l) = l @ d \<and> list_all P d"
  unfolding emits_def by blast

text \<open>The terminal write, then announcements.\<close>

lemma settle_run:
  assumes "en_recording env"
  shows "\<exists>now a d. snd (settle env what msg row result err l) = l @ EvSave (row now) a # d \<and> list_all announces d"
proof -
  let ?row = "row (en_now env l)" let ?e = "EvSave ?row (en_save env ?row l)"
  show ?thesis
  proof (cases "en_save env ?row l")
    case (Inl x)
    obtain d where "snd ((terminal_write_failed (send env) (en_error_text env) what result err
        (Wrapped msg (fault x)) :: unit step) (l @ [?e])) = (l @ [?e]) @ d" "list_all announces d"
      using emits_run [OF announces_write_failed] by blast
    with Inl assms
    have "snd (settle env what msg row result err l) = l @ EvSave ?row (Inl x) # d" "list_all announces d"
      by (simp_all add: settle_def save_row_def call_def andthen_def asking_def attempt_def on_error_def
          perform_def)
    then show ?thesis by blast
  next
    case (Inr x)
    with assms have "snd (settle env what msg row result err l) = l @ EvSave ?row (Inr x) # []"
      by (simp add: settle_def save_row_def call_def andthen_def asking_def attempt_def on_error_def
          perform_def ret_def)
    then show ?thesis by (intro exI [of _ "en_now env l"] exI [of _ "Inr x"] exI [of _ "[]"]) simp
  qed
qed

text \<open>The deferred functions of a recorded run: the terminal write, then announcements.\<close>

lemma settle_ok: "is_ok (fst (settle env what msg row result err l))"
  by (auto simp: settle_def andthen_def asking_def attempt_def ret_def
      terminal_write_failed_def Let_def notify_best_effort_result split: prod.splits sum.splits)

lemma settled_run:
  assumes "en_recording env"
  shows "\<exists>now a d. snd (andthen (settle env what msg row result err)
      (\<lambda>_. notify_run_failure env title dir summary agented err) l) = l @ EvSave (row now) a # d \<and>
    list_all announces d"
proof -
  let ?m = "settle env what msg row result err" and ?f = "notify_run_failure env title dir summary agented err"
  obtain now a d1 where d1: "snd (?m l) = l @ EvSave (row now) a # d1" "list_all announces d1"
    using settle_run [OF assms] by blast
  obtain d2 where d2: "snd (?f (snd (?m l))) = snd (?m l) @ d2" "list_all announces d2"
    using emits_run [OF announces_failure] by blast
  have "snd (andthen ?m (\<lambda>_. ?f) l) = l @ EvSave (row now) a # d1 @ d2"
    using d1(1) d2(1) settle_ok [of env what msg row result err l]
    by (auto simp: andthen_def is_ok_iff split: prod.splits)
  with d1(2) d2(2) show ?thesis by auto
qed

section \<open>An environment to run in\<close>

text \<open>Everything answers, the agents take 10 and 7 tokens, and nothing is stashed or steered.\<close>

definition demo_pr :: pull_request where
  "demo_pr = \<lparr>pr_number = 4, pr_url = ''u'', pr_owner = [], pr_repo = [], pr_head = ''b'', pr_body = []\<rparr>"

definition demo_env :: flow_env where
  "demo_env =
     \<lparr>en_info = \<lparr>wi_workflow_id = ''w'', wi_run_id = ''r'', wi_first_run_id = [], wi_parent = None\<rparr>,
      en_now = length, en_error_text = (\<lambda>_. []), en_recording = True, en_placing = False,
      en_instructing = False, en_setting = False, en_version_summarize = True,
      en_version_detached = True, en_version_open_pr = True, en_probe = (\<lambda>_ _. Inr no_place),
      en_save = (\<lambda>_ _. Inr ()), en_instructions = (\<lambda>_ _. Inr []), en_settings = (\<lambda>_ _. Inr []),
      en_notify = (\<lambda>_ _. Inr ()), en_summarize = (\<lambda>_ _. Inr []), en_open_session = (\<lambda>_ _. Inr ()),
      en_session = (\<lambda>_ _ _. Inr no_decision), en_determine_pr = (\<lambda>_ _. Inr demo_pr),
      en_check_review = (\<lambda>_ _. Inr False), en_sleep = (\<lambda>_. Inr ()), en_load_comments = (\<lambda>_ _. Inr []),
      en_mark = (\<lambda>_ _. Inr \<lparr>cp_head = ''h'', cp_stashed = False\<rparr>),
      en_run_agent = (\<lambda>_ _ _ _ _. Inr \<lparr>ag_output = ''ok'', ag_tokens = 10\<rparr>),
      en_implement = (\<lambda>_ _ _ _ _. Inr \<lparr>ag_output = ''ok'', ag_tokens = 10\<rparr>),
      en_review = (\<lambda>_ _ _. Inr \<lparr>ag_output = ''fix it'', ag_tokens = 7\<rparr>),
      en_head_advanced = (\<lambda>_ _ _. Inl (CallApp err_no_advance [])), en_push = (\<lambda>_ _ _. Inr ()),
      en_reply = (\<lambda>_ _ _ _. Inr ()), en_request_review = (\<lambda>_ _. Inr ()), en_restore = (\<lambda>_ _. Inr ()),
      en_open_pr = (\<lambda>_ _. Inr demo_pr),
      en_create_branch = (\<lambda>q _. Inr \<lparr>br_branch = cb_branch q, br_work_dir = cb_work_dir q, br_base = ''h''\<rparr>),
      en_merge = (\<lambda>_ _ _. Inr \<lparr>mg_conflicted = True, mg_head = []\<rparr>),
      en_resolve_merge = (\<lambda>_ _ _. Inl (CallOther [])), en_abort_merge = (\<lambda>_ _. Inr ()),
      en_develop = (\<lambda>_ _ _. Inr \<lparr>ag_output = ''ok'', ag_tokens = 10\<rparr>),
      en_ensure_developed = (\<lambda>_ _ _. Inr [''c'']),
      en_review_child = (\<lambda>_ _ _. Inr (ended_by EndingPassCap [])), en_review_started = (\<lambda>_ _ _. Inr ()),
      en_open_pr_child = (\<lambda>_ _ _. Inr \<lparr>op_summary = [], op_url = ''u''\<rparr>),
      en_pilot_child = (\<lambda>_ _ _. Inr [])\<rparr>"

end
