(* ===== verification/Review_Loop.thy ===== *)
theory Review_Loop
  imports Flow_Events
begin

text \<open>
  \<open>ReviewWorkflow\<close> of \<open>internal/codereview/workflow.go\<close>: one pass of the local review loop.

  A pass is one run of \<open>review_workflow\<close>; the loop is the chain of runs Temporal makes of the
  continue-as-new errors.  The pass is split where the code has its phases: \<open>implement_phase\<close>
  (with a payload: pause, checkpoint, implement, check HEAD), \<open>review_phase\<close> (review, give the
  stash back) and \<open>next_phase\<close> (the pass cap, the operator's checkpoint there, the next pass).
  A phase that ends the loop gives \<^const>\<open>Inl\<close> its outcome.
\<close>

type_synonym 'a review_step = "(flow_ev, review_state run_vars, flow_error, 'a) body"

definition set_rec :: "('r \<Rightarrow> 'r) \<Rightarrow> (flow_ev, 'r run_vars, flow_error, unit) body" where
  "set_rec f = vset (\<lambda>v. v\<lparr>va_rec := f (va_rec v)\<rparr>)"

definition agent_has_run :: "(flow_ev, 'r run_vars, flow_error, unit) body" where
  "agent_has_run = vset (\<lambda>v. v\<lparr>va_agent_ran := True\<rparr>)"

definition review_waiting :: "flow_env \<Rightarrow> nat \<Rightarrow> string \<Rightarrow> unit review_step" where
  "review_waiting env since session =
     vthen (set_rec (\<lambda>r. r\<lparr>rv_waiting_since := since, rv_waiting_session := session\<rparr>)) (\<lambda>_.
     vthen vget (\<lambda>v. vdo (record_quietly env (review_row (va_rec v)))))"

definition name_ending :: "ending \<Rightarrow> unit review_step" where
  "name_ending e = set_rec (\<lambda>r. r\<lparr>rv_converged := Some (converged e), rv_ending := e\<rparr>)"

text \<open>An ending that is announced: named in the record, notified, and returned.\<close>

definition end_loop ::
  "flow_env \<Rightarrow> review_input \<Rightarrow> ending \<Rightarrow> string \<Rightarrow> string \<Rightarrow> review_outcome review_step" where
  "end_loop env i e title summary =
     vthen (name_ending e) (\<lambda>_.
     vthen vget (\<lambda>v.
     vthen (vdo (notify_complete env (ri_summary i) (va_agent_ran v) (ri_work_dir i)
         (plain_notice title summary) [])) (\<lambda>_.
     vret (ended_by e summary))))"

definition review_pause :: "flow_env \<Rightarrow> review_input \<Rightarrow> string \<Rightarrow> string \<Rightarrow> decision review_step" where
  "review_pause env i round material =
     vthen vget (\<lambda>v.
       pause env round (rv_place (va_rec v)) material (ri_initiator i) (review_waiting env))"

text \<open>The guidance of an operator who lets the pass go on, or the loop stopped by them.\<close>

definition guided :: "flow_env \<Rightarrow> review_input \<Rightarrow> (review_outcome + string) review_step" where
  "guided env i =
     (if \<not> steered (ri_settings i) then vret (Inr [])
      else vthen (review_pause env i round_local_review (ri_payload i)) (\<lambda>d.
        if \<not> proceeds d then
          vthen (end_loop env i EndingOperatorStopped ''Local review chain stopped''
            (with_token_total
              ''Review stopped by the operator before the review's findings were implemented.''
              (ri_tokens i))) (\<lambda>oc. vret (Inl oc))
        else vret (Inr (dc_guidance d))))"

definition agent_pass :: "agent_result step \<Rightarrow> agent_result review_step" where
  "agent_pass m =
     vthen (vdo m) (\<lambda>r.
     vthen agent_has_run (\<lambda>_.
     vthen (set_rec (\<lambda>s. s\<lparr>rv_tokens := rv_tokens s + ag_tokens r\<rparr>)) (\<lambda>_. vret r)))"

definition implement_with ::
  "flow_env \<Rightarrow> review_input \<Rightarrow> string \<Rightarrow> (review_outcome + checkpoint \<times> int) review_step" where
  "implement_with env i guidance =
     vthen (vdo (call (en_mark env (ri_work_dir i)) (EvMark (ri_work_dir i)))) (\<lambda>cp.
     vthen (agent_pass (call
         (en_implement env (ri_work_dir i) (ri_payload i) (ri_instructions i) guidance)
         (EvImplement (ri_work_dir i) (ri_payload i) (ri_instructions i) guidance))) (\<lambda>r.
     vthen (vdo (attempt (call (en_head_advanced env (ri_work_dir i) cp)
         (EvHeadAdvanced (ri_work_dir i) cp) :: string list step))) (\<lambda>adv.
     case adv of
       Inl e \<Rightarrow>
         if app_type e = Some err_no_advance then
           vthen (end_loop env i EndingConverged ''Local review chain complete''
             (with_token_total ''Review complete; the implement pass found nothing to commit.''
               (ri_tokens i + ag_tokens r))) (\<lambda>oc. vret (Inl oc))
         else vfail e
     | Inr commits \<Rightarrow> vret (Inr (cp, ri_tokens i + ag_tokens r)))))"

definition implement_phase ::
  "flow_env \<Rightarrow> review_input \<Rightarrow> (review_outcome + checkpoint \<times> int) review_step" where
  "implement_phase env i =
     (if trim_space (ri_payload i) = [] then vret (Inr (no_checkpoint, ri_tokens i))
      else vthen (guided env i) (\<lambda>g.
        case g of Inl outcome \<Rightarrow> vret (Inl outcome) | Inr guidance \<Rightarrow> implement_with env i guidance))"

definition review_phase ::
  "flow_env \<Rightarrow> review_input \<Rightarrow> checkpoint \<Rightarrow> int \<Rightarrow> (string \<times> int) review_step" where
  "review_phase env i cp tokens =
     vthen (agent_pass (call (en_review env (ri_work_dir i) (ri_instructions i))
         (EvReview (ri_work_dir i) (ri_instructions i)))) (\<lambda>r.
     vthen (if cp_stashed cp then
              vdo (andthen (attempt (call (en_restore env (ri_work_dir i)) (EvRestore (ri_work_dir i))
                  :: unit step)) (\<lambda>_. ret ()))
            else vret ()) (\<lambda>_.
     vret (ag_output r, tokens + ag_tokens r)))"

text \<open>\<open>MaxReviewPasses\<close> as \<open>%d\<close> prints it.\<close>

definition max_passes_text :: string where
  "max_passes_text = itoa (int max_review_passes)"

definition limit_material :: "review_input \<Rightarrow> int \<Rightarrow> string \<Rightarrow> string" where
  "limit_material i tokens output =
     ''The autonomous review budget is exhausted after '' @ max_passes_text @ '' passes and '' @
     itoa (int (ri_resets i)) @ '' reset(s). Accumulated token cost: '' @ itoa tokens @ ''.'' @
     nl @ nl @ output"

definition next_phase :: "flow_env \<Rightarrow> review_input \<Rightarrow> string \<Rightarrow> int \<Rightarrow> review_outcome review_step" where
  "next_phase env i output tokens =
     (let next_pass = ri_pass i + 1 in
      if next_pass \<ge> max_review_passes then
        if steered (ri_settings i) then
          vthen (review_pause env i round_pass_limit (limit_material i tokens output)) (\<lambda>d.
            if dc_choice d = choice_continue then
              vfail (ContinueAsNew (NextReview (i\<lparr>ri_payload := output, ri_pass := 0,
                ri_resets := ri_resets i + 1, ri_tokens := tokens\<rparr>)))
            else if dc_choice d = choice_accept then
              end_loop env i EndingOperatorAccepted ''Local review accepted''
                (with_token_total (''Review accepted by the operator after '' @
                  itoa (int (ri_resets i)) @ '' budget reset(s).'') tokens)
            else
              vthen (name_ending EndingOperatorStopped) (\<lambda>_.
                vret (ended_by EndingOperatorStopped
                  (with_token_total ''Review stopped by the operator at the pass limit.'' tokens))))
        else
          end_loop env i EndingPassCap ''Local review chain complete''
            (with_token_total (''Review stopped after '' @ max_passes_text @ '' pass(es).'') tokens)
      else
        vfail (ContinueAsNew (NextReview (i\<lparr>ri_payload := output, ri_pass := next_pass,
          ri_tokens := tokens\<rparr>))))"

definition review_work :: "flow_env \<Rightarrow> review_input \<Rightarrow> review_outcome review_step" where
  "review_work env i =
     vthen (implement_phase env i) (\<lambda>p.
       case p of
         Inl outcome \<Rightarrow> vret outcome
       | Inr (cp, tokens) \<Rightarrow>
           vthen (review_phase env i cp tokens) (\<lambda>(output, tokens'). next_phase env i output tokens'))"

definition review_body :: "flow_env \<Rightarrow> review_input \<Rightarrow> review_outcome review_step" where
  "review_body env i =
     vthen (vdo (start_review_state env i)) (\<lambda>st.
     vthen (vset (\<lambda>v. v\<lparr>va_started := True, va_rec := st\<rparr>)) (\<lambda>_.
     vthen (vdo (ensure_run_instructions env (ri_instructions i) (rv_place st)
         [key_review_perform, key_review_implement])) (\<lambda>instructions.
     vthen (set_rec (\<lambda>r. r\<lparr>rv_instructions := instructions\<rparr>)) (\<lambda>_.
     vthen (vdo (ensure_run_settings env (ri_settings i) (rv_place st) [key_steering_enabled]))
       (\<lambda>settings.
     review_work env (i\<lparr>ri_instructions := instructions, ri_settings := settings\<rparr>))))))"

text \<open>The deferred functions: the record is settled first, then a failure is announced.\<close>

definition review_deferred ::
  "flow_env \<Rightarrow> review_input \<Rightarrow> flow_error + review_outcome \<Rightarrow> review_state run_vars \<Rightarrow> unit step" where
  "review_deferred env i r v =
     andthen
       (if va_started v then
          settle env ''review pass'' ''record the review pass's terminal state: ''
            (\<lambda>now. review_row (finished_review env (va_rec v) (err_of r) now))
            (case r of Inl _ \<Rightarrow> [] | Inr outcome \<Rightarrow> ro_summary outcome) (err_of r)
        else ret ())
       (\<lambda>_. notify_run_failure env ''Local review chain failed'' (ri_work_dir i) (ri_summary i)
         (va_agent_ran v) (err_of r))"

definition review_workflow :: "flow_env \<Rightarrow> review_input \<Rightarrow> review_outcome step" where
  "review_workflow env i =
     with_vars \<lparr>va_started = False, va_rec = no_review_state, va_agent_ran = False\<rparr>
       (review_body env i) (review_deferred env i)"

section \<open>What the phases do\<close>

definition kept :: "review_state run_vars \<Rightarrow> review_state run_vars \<Rightarrow> bool" where
  "kept v v' = (va_started v' = va_started v \<and> rv_tokens (va_rec v') = rv_tokens (va_rec v) \<and>
     rv_run (va_rec v') = rv_run (va_rec v))"

lemma kept_refl [simp]: "kept v v"
  by (simp add: kept_def)

text \<open>What the monitors show of a step that spends nothing.\<close>

definition calm :: "flow_ev list \<Rightarrow> flow_ev list \<Rightarrow> bool" where
  "calm l l' = (spent l' = spent l \<and> holding l' = holding l \<and> set l \<subseteq> set l' \<and>
     (asks_freely l \<longrightarrow> \<not> holding l \<longrightarrow> asks_freely l'))"

lemma calm_refl [simp]: "calm l l"
  by (simp add: calm_def)

lemma calm_trans: "calm l l' \<Longrightarrow> calm l' l'' \<Longrightarrow> calm l l''"
  by (auto simp: calm_def)

lemma calm_neutral [simp]: "list_all neutral d \<Longrightarrow> calm l (l @ d)"
  by (simp add: calm_def)

definition answered_by :: "string \<Rightarrow> (decision \<Rightarrow> bool) \<Rightarrow> flow_ev list \<Rightarrow> bool" where
  "answered_by round P l = (\<exists>s inp d. EvSession s inp (Inr d) \<in> set l \<and> si_round inp = round \<and> P d)"

definition pause_post ::
  "string \<Rightarrow> review_state run_vars \<Rightarrow> flow_ev list \<Rightarrow> flow_error + decision \<Rightarrow>
   review_state run_vars \<Rightarrow> flow_ev list \<Rightarrow> bool" where
  "pause_post round v l r v' l' =
     (kept v v' \<and> calm l l' \<and>
      (case r of Inl e \<Rightarrow> \<not> is_continue_as_new e | Inr d \<Rightarrow> answered_by round (\<lambda>x. x = d) l'))"

lemma record_quietly_wp:
  assumes "\<And>d. list_all neutral d \<Longrightarrow> Q (Inr ()) (l @ d)"
  shows "wp (record_quietly env row) Q l"
  using assms [of "[]"] assms [of "[EvSave row (en_save env row l)]"]
  by (auto simp: record_quietly_def save_row_def wp_rules split: sum.split)

lemma review_waiting_wp:
  assumes "\<And>d v'. list_all neutral d \<Longrightarrow> kept v v' \<Longrightarrow> Q (Inr ()) v' (l @ d)"
  shows "vwp (review_waiting env since session) Q v l"
  unfolding review_waiting_def set_rec_def
  by (simp add: wp_rules, rule record_quietly_wp, rule assms) (simp_all add: kept_def)

lemma ask_operator_wp:
  assumes "\<And>r d. (\<exists>s x. d = [EvOpenSession s (Inl x)] \<and> (\<exists>e. r = Inl e \<and> \<not> is_continue_as_new e)) \<or>
      (\<exists>s sid inp a. d = [EvOpenSession s (Inr ()), EvSession sid inp a] \<and> si_round inp = round \<and>
        (case r of Inl e \<Rightarrow> \<not> is_continue_as_new e | Inr x \<Rightarrow> a = Inr x)) \<Longrightarrow> Q r (l @ d)"
  shows "wp (ask_operator env recipient round place material) Q l"
  unfolding ask_operator_def open_waiting_session_def Let_def
  by (simp add: wp_rules split: sum.split) (auto intro!: assms)

lemma asks_freely_two: "asks_freely (l @ [e, f]) \<longleftrightarrow>
    asks_freely l \<and> (asks e \<longrightarrow> \<not> holding l) \<and> (asks f \<longrightarrow> \<not> holding (l @ [e]))"
  using asks_freely_snoc [of "l @ [e]" f] by simp

lemma calm_asking:
  assumes "(\<exists>s x. d = [EvOpenSession s x]) \<or> (\<exists>s x sid inp a. d = [EvOpenSession s x, EvSession sid inp a])"
  shows "calm l (l @ d)"
  using assms by (auto simp: calm_def asks_freely_two holding_def)

lemma review_pause_spec: "vwp (review_pause env i round material) (pause_post round v l) v l"
  unfolding review_pause_def pause_def
proof (simp add: wp_rules, rule review_waiting_wp, goal_cases)
  case (1 d1 v1)
  note d1 = 1
  show ?case
  proof (simp add: wp_rules, rule ask_operator_wp, rule review_waiting_wp, goal_cases)
    case (1 r d2 d3 v2)
    have "kept v v2" using d1(2) 1(3) by (simp add: kept_def)
    moreover have "calm (l @ d1) ((l @ d1) @ d2)"
      using 1(1) by (intro calm_asking) blast
    then have "calm l (l @ d1 @ d2 @ d3)"
      using calm_neutral [OF d1(1), of l] calm_neutral [OF 1(2), of "l @ d1 @ d2"] calm_trans by fastforce
    moreover have "\<And>x. r = Inr x \<Longrightarrow> answered_by round (\<lambda>y. y = x) (l @ d1 @ d2 @ d3)"
      using 1(1) by (auto simp: answered_by_def) blast+
    ultimately show ?case
      using 1(1) by (cases r) (auto simp: pause_post_def wp_rules)
  qed
qed

lemma end_loop_spec:
  "vwp (end_loop env i e title summary) (\<lambda>r v' l'. kept v v' \<and> calm l l' \<and>
     (case r of Inl err \<Rightarrow> \<not> is_continue_as_new err | Inr oc \<Rightarrow> oc = ended_by e summary)) v l"
  unfolding end_loop_def name_ending_def set_rec_def
  by (simp add: wp_rules, rule quiet_wp [OF quiet_complete plain_complete])
    (auto simp: kept_def wp_rules split: sum.split)

definition stopped_at :: "string \<Rightarrow> (decision \<Rightarrow> bool) \<Rightarrow> flow_ev list \<Rightarrow> review_outcome \<Rightarrow> bool" where
  "stopped_at round P l oc =
     (ro_ending oc = EndingOperatorStopped \<and> \<not> ro_converged oc \<and> answered_by round P l)"

lemma answered_by_mono: "answered_by round P l \<Longrightarrow> set l \<subseteq> set l' \<Longrightarrow> (\<And>d. P d \<Longrightarrow> R d) \<Longrightarrow> answered_by round R l'"
  unfolding answered_by_def by blast

lemma guided_spec:
  "vwp (guided env i) (\<lambda>r v' l'. kept v v' \<and> calm l l' \<and>
     (case r of
        Inl err \<Rightarrow> \<not> is_continue_as_new err
      | Inr (Inl oc) \<Rightarrow> stopped_at round_local_review (\<lambda>d. \<not> proceeds d) l' oc
      | Inr (Inr g) \<Rightarrow> True)) v l"
proof (cases "steered (ri_settings i)")
  case False
  then show ?thesis by (simp add: guided_def wp_rules)
next
  case True
  show ?thesis
    unfolding guided_def
  proof (simp only: True not_True_eq_False if_False vwp_then, rule vwp_mono [OF review_pause_spec], goal_cases)
    case (1 r v1 l1)
    show ?case
    proof (cases r)
      case (Inl e)
      with 1 show ?thesis by (simp add: pause_post_def)
    next
      case (Inr d)
      show ?thesis
      proof (cases "proceeds d")
        case True
        with 1 Inr show ?thesis by (simp add: pause_post_def wp_rules)
      next
        case False
        with 1 Inr have p: "kept v v1" "calm l l1" "answered_by round_local_review (\<lambda>d. \<not> proceeds d) l1"
          by (auto simp: pause_post_def elim!: answered_by_mono)
        show ?thesis
          using Inr False
          apply (simp add: vwp_then)
          apply (rule vwp_mono [OF end_loop_spec])
          using p by (auto simp: wp_rules stopped_at_def ended_by_def converged_def kept_def calm_def
              intro: calm_trans elim!: answered_by_mono split: sum.split)
      qed
    qed
  qed
qed

text \<open>The tokens booked in the record and those the agents reported move together.\<close>

definition booked ::
  "review_state run_vars \<Rightarrow> flow_ev list \<Rightarrow> review_state run_vars \<Rightarrow> flow_ev list \<Rightarrow> bool" where
  "booked v l v' l' = (va_started v' = va_started v \<and> set l \<subseteq> set l' \<and> asks_freely l' \<and>
     rv_run (va_rec v') = rv_run (va_rec v) \<and>
     rv_tokens (va_rec v') + spent l = rv_tokens (va_rec v) + spent l')"

text \<open>Why a loop that ended early did: what must be in its log.\<close>

definition head_stayed :: "flow_ev list \<Rightarrow> bool" where
  "head_stayed l = (\<exists>dir cp m. EvHeadAdvanced dir cp (Inl (CallApp err_no_advance m)) \<in> set l)"

definition implement_post ::
  "review_input \<Rightarrow> review_state run_vars \<Rightarrow> flow_ev list \<Rightarrow>
   flow_error + (review_outcome + checkpoint \<times> int) \<Rightarrow> review_state run_vars \<Rightarrow> flow_ev list \<Rightarrow> bool" where
  "implement_post i v l r v' l' =
     (booked v l v' l' \<and>
      (case r of
         Inl err \<Rightarrow> \<not> is_continue_as_new err
       | Inr (Inl oc) \<Rightarrow> stopped_at round_local_review (\<lambda>d. \<not> proceeds d) l' oc \<or>
           ro_ending oc = EndingConverged \<and> ro_converged oc \<and> head_stayed l'
       | Inr (Inr (cp, tokens)) \<Rightarrow>
           tokens + spent l = ri_tokens i + spent l' \<and> (holding l' \<longrightarrow> cp_stashed cp)))"

lemma calm_booked: "kept v v' \<Longrightarrow> calm l l' \<Longrightarrow> asks_freely l \<Longrightarrow> \<not> holding l \<Longrightarrow> booked v l v' l'"
  by (simp add: booked_def kept_def calm_def)

text \<open>Announcing an ending after the agent ran: the loop asks nobody any more.\<close>

lemma end_loop_booked:
  assumes b: "booked v0 l0 v l"
  shows "vwp (end_loop env i e title summary) (\<lambda>r v' l'. booked v0 l0 v' l' \<and> set l \<subseteq> set l' \<and>
     (case r of Inl err \<Rightarrow> \<not> is_continue_as_new err | Inr oc \<Rightarrow> oc = ended_by e summary)) v l"
  unfolding end_loop_def name_ending_def set_rec_def
  using b
  by (simp add: wp_rules, intro quiet_wp [OF quiet_complete plain_complete])
    (auto simp: booked_def wp_rules split: sum.split)

lemma vwp_call:
  assumes "\<And>e. ans l = Inl e \<Longrightarrow> Q (Inl (fault e)) v (l @ [ev (Inl e)])"
    and "\<And>x. ans l = Inr x \<Longrightarrow> Q (Inr x) v (l @ [ev (Inr x)])"
  shows "vwp (vdo (call ans ev)) Q v l"
  using assms by (cases "ans l") (auto simp: wp_rules)

lemma vwp_attempt_call:
  assumes "\<And>e. ans l = Inl e \<Longrightarrow> Q (Inr (Inl (fault e))) v (l @ [ev (Inl e)])"
    and "\<And>x. ans l = Inr x \<Longrightarrow> Q (Inr (Inr x)) v (l @ [ev (Inr x)])"
  shows "vwp (vdo (attempt (call ans ev))) Q v l"
  using assms by (cases "ans l") (auto simp: wp_rules)

text \<open>After an agent pass: its tokens are in the record.\<close>

definition charged :: "int \<Rightarrow> review_state run_vars \<Rightarrow> review_state run_vars" where
  "charged n v = v\<lparr>va_agent_ran := True, va_rec := (va_rec v)\<lparr>rv_tokens := rv_tokens (va_rec v) + n\<rparr>\<rparr>"

lemma charged_simps [simp]:
  "va_started (charged n v) = va_started v"
  "rv_tokens (va_rec (charged n v)) = rv_tokens (va_rec v) + n"
  "rv_run (va_rec (charged n v)) = rv_run (va_rec v)"
  by (simp_all add: charged_def)

lemma vwp_agent_pass:
  assumes "\<And>e. Q (Inl (fault e)) v (l @ [ev (Inl e)])"
    and "\<And>r. Q (Inr r) (charged (ag_tokens r) v) (l @ [ev (Inr r)])"
  shows "vwp (agent_pass (call ans ev)) Q v l"
  using assms
  by (cases "ans l") (auto simp: wp_rules agent_pass_def agent_has_run_def set_rec_def charged_def)

lemma booked_step:
  "booked v0 l0 v l \<Longrightarrow> \<not> asks e \<Longrightarrow> ev_tokens e = 0 \<Longrightarrow> booked v0 l0 v (l @ [e])"
  by (auto simp: booked_def)

lemma booked_agent:
  "booked v0 l0 v l \<Longrightarrow> \<not> asks e \<Longrightarrow> booked v0 l0 (charged (ev_tokens e) v) (l @ [e])"
  by (auto simp: booked_def)

lemma implement_with_spec:
  assumes b: "booked v0 l0 v l" and h: "\<not> holding l" "spent l = spent l0"
  shows "vwp (implement_with env i guidance) (implement_post i v0 l0) v l"
  unfolding implement_with_def
proof (simp only: vwp_then, rule vwp_call, goal_cases)
  case (1 e)
  from booked_step [OF b] show ?case by (simp add: implement_post_def)
next
  case (2 cp)
  let ?m = "EvMark (ri_work_dir i) (Inr cp)"
  have bm: "booked v0 l0 v (l @ [?m])" by (rule booked_step [OF b]) simp_all
  show ?case
  proof (simp only: sum.case vwp_then, rule vwp_agent_pass, goal_cases)
    case (1 e)
    from booked_step [OF bm] show ?case by (simp add: implement_post_def)
  next
    case (2 r)
    let ?e = "EvImplement (ri_work_dir i) (ri_payload i) (ri_instructions i) guidance (Inr r)"
    let ?l = "(l @ [?m]) @ [?e]" and ?v = "charged (ag_tokens r) v"
    have ba: "booked v0 l0 ?v ?l" using booked_agent [OF bm, of ?e] by simp
    have sp: "spent ?l = spent l0 + ag_tokens r" and ho: "holding ?l \<longrightarrow> cp_stashed cp"
      using h by (simp_all only: holding_simps spent_simps) simp_all
    show ?case
    proof (simp only: sum.case vwp_then, rule vwp_attempt_call, goal_cases)
      case (1 e)
      let ?l1 = "?l @ [EvHeadAdvanced (ri_work_dir i) cp (Inl e)]"
      have b1: "booked v0 l0 ?v ?l1" by (rule booked_step [OF ba]) simp_all
      show ?case
      proof (cases "app_type (fault e :: flow_error) = Some err_no_advance")
        case True
        then have hs: "head_stayed ?l1" by (auto simp: head_stayed_def)
        show ?thesis
          unfolding sum.case if_P [OF True] vwp_then
        proof (rule vwp_mono [OF end_loop_booked [OF b1]], goal_cases)
          case (1 r' v' l')
          with hs have "head_stayed l'" by (auto simp: head_stayed_def)
          with 1 show ?case
            by (cases r') (auto simp: implement_post_def wp_rules ended_by_def converged_def)
        qed
      next
        case False
        with b1 show ?thesis by (simp add: wp_rules implement_post_def)
      qed
    next
      case (2 commits)
      let ?l1 = "?l @ [EvHeadAdvanced (ri_work_dir i) cp (Inr commits)]"
      have "booked v0 l0 ?v ?l1" by (rule booked_step [OF ba]) simp_all
      moreover have "holding ?l1 \<longrightarrow> cp_stashed cp" "spent ?l1 = spent l0 + ag_tokens r"
        using ho sp by (simp_all only: holding_simps spent_simps) simp_all
      ultimately show ?case by (simp only: sum.case vwp_ret implement_post_def prod.case) simp
    qed
  qed
qed

lemma implement_phase_spec:
  assumes l: "asks_freely l" "\<not> holding l"
  shows "vwp (implement_phase env i) (implement_post i v l) v l"
proof (cases "trim_space (ri_payload i) = []")
  case True
  with l show ?thesis
    by (simp add: implement_phase_def wp_rules implement_post_def booked_def)
next
  case False
  show ?thesis
    unfolding implement_phase_def
  proof (simp only: False if_False vwp_then, rule vwp_mono [OF guided_spec], goal_cases)
    case (1 r v1 l1)
    then have b: "booked v l v1 l1" and nh: "\<not> holding l1" and s: "spent l1 = spent l"
      using l by (auto intro: calm_booked simp: calm_def)
    show ?case
    proof (cases r)
      case (Inl e)
      with 1 b show ?thesis by (simp add: implement_post_def)
    next
      case (Inr g)
      show ?thesis
      proof (cases g)
        case (Inl oc)
        with 1 b Inr show ?thesis by (simp add: implement_post_def wp_rules)
      next
        case guide: (Inr guidance)
        show ?thesis
          using Inr guide implement_with_spec [OF b nh s] by simp
      qed
    qed
  qed
qed

definition reviewed :: "string \<Rightarrow> flow_ev list \<Rightarrow> bool" where
  "reviewed output l = (\<exists>dir ins r. EvReview dir ins (Inr r) \<in> set l \<and> ag_output r = output)"

definition review_post ::
  "int \<Rightarrow> review_state run_vars \<Rightarrow> flow_ev list \<Rightarrow> review_state run_vars \<Rightarrow> flow_ev list \<Rightarrow>
   flow_error + (string \<times> int) \<Rightarrow> review_state run_vars \<Rightarrow> flow_ev list \<Rightarrow> bool" where
  "review_post tokens v0 l0 v l r v' l' =
     (booked v0 l0 v' l' \<and>
      (case r of
         Inl err \<Rightarrow> \<not> is_continue_as_new err
       | Inr (output, tokens') \<Rightarrow>
           tokens' + spent l = tokens + spent l' \<and> \<not> holding l' \<and> reviewed output l'))"

lemma review_phase_spec:
  assumes b: "booked v0 l0 v l" and h: "holding l \<longrightarrow> cp_stashed cp"
  shows "vwp (review_phase env i cp tokens) (review_post tokens v0 l0 v l) v l"
  unfolding review_phase_def
proof (simp only: vwp_then, rule vwp_agent_pass, goal_cases)
  case (1 e)
  from booked_step [OF b] show ?case by (simp add: review_post_def)
next
  case (2 r)
  let ?e = "EvReview (ri_work_dir i) (ri_instructions i) (Inr r)"
  have b1: "booked v0 l0 (charged (ag_tokens r) v) (l @ [?e])" using booked_agent [OF b, of ?e] by simp
  have rv: "reviewed (ag_output r) (l @ [?e])" by (auto simp: reviewed_def)
  show ?case
  proof (cases "cp_stashed cp")
    case False
    with b1 rv h show ?thesis by (simp add: wp_rules review_post_def)
  next
    case True
    let ?r = "EvRestore (ri_work_dir i)
      (en_restore env (ri_work_dir i) (l @ [?e]))"
    have "booked v0 l0 (charged (ag_tokens r) v) ((l @ [?e]) @ [?r])"
      by (rule booked_step [OF b1]) simp_all
    moreover have "\<not> holding ((l @ [?e]) @ [?r])" by (simp only: holding_simps) simp
    moreover have "reviewed (ag_output r) ((l @ [?e]) @ [?r])" using rv by (auto simp: reviewed_def)
    ultimately show ?thesis using True by (simp add: wp_rules review_post_def)
  qed
qed

text \<open>Why a loop ended: the events its ending must have behind it.\<close>

definition earned :: "review_input \<Rightarrow> flow_ev list \<Rightarrow> review_outcome \<Rightarrow> bool" where
  "earned i l oc =
     (ro_converged oc = (ro_ending oc = EndingConverged) \<and>
      (case ro_ending oc of
         EndingNone \<Rightarrow> False
       | EndingConverged \<Rightarrow> head_stayed l
       | EndingOperatorAccepted \<Rightarrow> answered_by round_pass_limit (\<lambda>d. dc_choice d = choice_accept) l
       | EndingOperatorStopped \<Rightarrow>
           answered_by round_local_review (\<lambda>d. \<not> proceeds d) l \<or>
           answered_by round_pass_limit (\<lambda>d. dc_choice d \<notin> {choice_continue, choice_accept}) l
       | EndingPassCap \<Rightarrow> max_review_passes \<le> ri_pass i + 1 \<and> \<not> steered (ri_settings i)))"

text \<open>What the next pass of a loop is given.\<close>

definition follows :: "review_input \<Rightarrow> int \<Rightarrow> flow_ev list \<Rightarrow> review_input \<Rightarrow> bool" where
  "follows i tokens l n =
     (reviewed (ri_payload n) l \<and>
      (n = i\<lparr>ri_payload := ri_payload n, ri_pass := ri_pass i + 1, ri_tokens := tokens\<rparr> \<and>
         ri_pass n < max_review_passes \<or>
       n = i\<lparr>ri_payload := ri_payload n, ri_pass := 0, ri_resets := ri_resets i + 1, ri_tokens := tokens\<rparr> \<and>
         max_review_passes \<le> ri_pass i + 1 \<and>
         answered_by round_pass_limit (\<lambda>d. dc_choice d = choice_continue) l))"

definition next_post ::
  "review_input \<Rightarrow> int \<Rightarrow> review_state run_vars \<Rightarrow> flow_ev list \<Rightarrow>
   flow_error + review_outcome \<Rightarrow> review_state run_vars \<Rightarrow> flow_ev list \<Rightarrow> bool" where
  "next_post i tokens v0 l0 r v' l' =
     (booked v0 l0 v' l' \<and>
      (case r of
         Inl err \<Rightarrow> is_continue_as_new err \<longrightarrow>
           (\<exists>n. err = ContinueAsNew (NextReview n) \<and> follows i tokens l' n)
       | Inr oc \<Rightarrow> earned i l' oc))"

lemma reviewed_mono: "reviewed out l \<Longrightarrow> set l \<subseteq> set l' \<Longrightarrow> reviewed out l'"
  unfolding reviewed_def by blast

lemma booked_calm: "booked v0 l0 v l \<Longrightarrow> kept v v' \<Longrightarrow> calm l l' \<Longrightarrow> \<not> holding l \<Longrightarrow> booked v0 l0 v' l'"
  by (auto simp: booked_def kept_def calm_def)

lemma next_phase_spec:
  assumes b: "booked v0 l0 v l" and h: "\<not> holding l" and rv: "reviewed output l"
  shows "vwp (next_phase env i output tokens) (\<lambda>r v' l'. next_post i tokens v0 l0 r v' l' \<and> spent l' = spent l) v l"
proof -
  consider (next_pass) "ri_pass i + 1 < max_review_passes"
    | (cap) "max_review_passes \<le> ri_pass i + 1" "\<not> steered (ri_settings i)"
    | (limit) "max_review_passes \<le> ri_pass i + 1" "steered (ri_settings i)"
    by linarith
  then show ?thesis
  proof cases
    case next_pass
    with b rv show ?thesis
      by (auto simp: next_phase_def Let_def wp_rules next_post_def follows_def)
  next
    case cap
    have d: "next_phase env i output tokens =
        end_loop env i EndingPassCap ''Local review chain complete''
          (with_token_total (''Review stopped after '' @ max_passes_text @ '' pass(es).'') tokens)"
      using cap by (simp add: next_phase_def Let_def)
    show ?thesis
      unfolding d
    proof (rule vwp_mono [OF end_loop_spec], goal_cases)
      case (1 r v' l')
      with booked_calm [OF b _ _ h] cap show ?case
        by (cases r) (auto simp: next_post_def earned_def ended_by_def converged_def calm_def)
    qed
  next
    case limit
    let ?m = "limit_material i tokens output"
    have c: "\<not> ri_pass i + 1 < max_review_passes" using limit by simp
    show ?thesis
      unfolding next_phase_def Let_def
    proof (simp only: limit if_True vwp_then, rule vwp_mono [OF review_pause_spec], goal_cases)
      case (1 r v1 l1)
      then have k: "kept v v1" "calm l l1" by (auto simp: pause_post_def)
      have b1: "booked v0 l0 v1 l1" by (rule booked_calm [OF b k h])
      have h1: "\<not> holding l1" and s1: "spent l1 = spent l" and rv1: "reviewed output l1"
        using k h rv by (auto simp: calm_def elim: reviewed_mono)
      show ?case
      proof (cases r)
        case (Inl e)
        with 1 b1 s1 show ?thesis by (simp add: next_post_def pause_post_def)
      next
        case (Inr d)
        then have a: "answered_by round_pass_limit (\<lambda>x. x = d) l1" using 1 by (simp add: pause_post_def)
        consider "dc_choice d = choice_continue" | "dc_choice d = choice_accept"
          | "dc_choice d \<notin> {choice_continue, choice_accept}" by blast
        then show ?thesis
        proof cases
          case 1
          then have "answered_by round_pass_limit (\<lambda>x. dc_choice x = choice_continue) l1"
            using a by (auto elim!: answered_by_mono)
          with 1 b1 s1 rv1 limit Inr show ?thesis
            by (auto simp: wp_rules next_post_def follows_def)
        next
          case 2
          then have acc: "answered_by round_pass_limit (\<lambda>x. dc_choice x = choice_accept) l1"
            using a by (auto elim!: answered_by_mono)
          have ne: "choice_accept \<noteq> choice_continue" by (simp add: choice_accept_def choice_continue_def)
          have "vwp (end_loop env i EndingOperatorAccepted ''Local review accepted''
              (with_token_total (''Review accepted by the operator after '' @
                itoa (int (ri_resets i)) @ '' budget reset(s).'') tokens))
            (\<lambda>r v' l'. next_post i tokens v0 l0 r v' l' \<and> spent l' = spent l) v1 l1"
          proof (rule vwp_mono [OF end_loop_spec], goal_cases)
            case (1 r v' l')
            then have "answered_by round_pass_limit (\<lambda>x. dc_choice x = choice_accept) l'"
              using acc by (auto simp: calm_def elim!: answered_by_mono)
            with 1 booked_calm [OF b1 _ _ h1] s1 show ?case
              by (cases r) (auto simp: next_post_def earned_def ended_by_def converged_def calm_def)
          qed
          then show ?thesis by (simp only: Inr sum.case 2 if_not_P [OF ne] if_P [OF refl])
        next
          case 3
          then have "answered_by round_pass_limit (\<lambda>x. dc_choice x \<notin> {choice_continue, choice_accept}) l1"
            using a by (auto elim!: answered_by_mono)
          with 3 b1 s1 Inr show ?thesis
            by (auto simp: wp_rules name_ending_def set_rec_def next_post_def earned_def ended_by_def
                converged_def booked_def)
        qed
      qed
    qed
  qed
qed

text \<open>The whole of a pass after its instructions and settings are known, from an untouched log.\<close>

definition work_post ::
  "review_input \<Rightarrow> review_state run_vars \<Rightarrow> flow_ev list \<Rightarrow>
   flow_error + review_outcome \<Rightarrow> review_state run_vars \<Rightarrow> flow_ev list \<Rightarrow> bool" where
  "work_post i v0 l0 r v' l' =
     (booked v0 l0 v' l' \<and>
      (case r of
         Inl err \<Rightarrow> is_continue_as_new err \<longrightarrow>
           (\<exists>n. err = ContinueAsNew (NextReview n) \<and>
              follows i (ri_tokens i + spent l' - spent l0) l' n)
       | Inr oc \<Rightarrow> earned i l' oc))"

lemma review_work_spec:
  assumes l: "asks_freely l" "\<not> holding l"
  shows "vwp (review_work env i) (work_post i v l) v l"
  unfolding review_work_def
proof (simp only: vwp_then, rule vwp_mono [OF implement_phase_spec [OF l]], goal_cases)
  case (1 r v1 l1)
  then have b: "booked v l v1 l1" by (simp add: implement_post_def)
  show ?case
  proof (cases r)
    case (Inl e)
    with 1 show ?thesis by (simp add: implement_post_def work_post_def)
  next
    case (Inr p)
    show ?thesis
    proof (cases p)
      case (Inl oc)
      have "earned i l1 oc"
        using 1 Inr Inl by (auto simp: implement_post_def earned_def stopped_at_def)
      with b Inr Inl show ?thesis by (simp add: wp_rules work_post_def)
    next
      case go: (Inr ct)
      obtain cp tokens where ct: "ct = (cp, tokens)" by fastforce
      have t: "tokens + spent l = ri_tokens i + spent l1" and h: "holding l1 \<longrightarrow> cp_stashed cp"
        using 1 Inr go ct by (simp_all add: implement_post_def)
      show ?thesis
        unfolding Inr go ct sum.case prod.case vwp_then
      proof (rule vwp_mono [OF review_phase_spec [OF b h]], goal_cases)
        case (1 r2 v2 l2)
        then have b2: "booked v l v2 l2" by (simp add: review_post_def)
        show ?case
        proof (cases r2)
          case (Inl e)
          with 1 b2 show ?thesis by (simp add: work_post_def review_post_def)
        next
          case out: (Inr ot)
          obtain outp tokens2 where ot: "ot = (outp, tokens2)" by fastforce
          have p: "tokens2 + spent l1 = tokens + spent l2" "\<not> holding l2" "reviewed outp l2"
            using 1 out ot by (simp_all add: review_post_def)
          show ?thesis
            unfolding out ot sum.case prod.case
          proof (rule vwp_mono [OF next_phase_spec [OF b2 p(2,3)]], goal_cases)
            case (1 r3 v3 l3)
            have "tokens2 = ri_tokens i + spent l3 - spent l" using 1 t p(1) by simp
            with 1 show ?case by (cases r3) (auto simp: next_post_def work_post_def)
          qed
        qed
      qed
    qed
  qed
qed

lemma start_review_wp:
  assumes "\<And>e d. list_all neutral d \<Longrightarrow> \<not> is_continue_as_new e \<Longrightarrow> Q (Inl e) (l @ d)"
    and "\<And>st d. list_all neutral d \<Longrightarrow> rv_tokens st = 0 \<Longrightarrow>
      (en_recording env \<Longrightarrow> rv_run st = wi_run_id (en_info env)) \<Longrightarrow> Q (Inr st) (l @ d)"
  shows "wp (start_review_state env i) Q l"
proof -
  have "wp (start_review_state env i) (\<lambda>r l'. case r of Inl e \<Rightarrow> True
      | Inr st \<Rightarrow> rv_tokens st = 0 \<and> (en_recording env \<longrightarrow> rv_run st = wi_run_id (en_info env))) l"
    by (simp add: start_review_state_def Let_def wp_rules save_row_def no_review_state_def
        identity_of_def probe_def probe_place_def split: sum.split)
  moreover have "wp (start_review_state env i) (\<lambda>r l'. (\<exists>d. l' = l @ d \<and> list_all neutral d) \<and>
      (\<forall>e. r = Inl e \<longrightarrow> \<not> is_continue_as_new e)) l"
    by (rule quiet_wp) auto
  ultimately show ?thesis
    using assms by (auto simp: wp_run split: sum.splits)
qed

text \<open>The input as the pass runs it: a loop keeps the resolutions it was given.\<close>

definition resolved_input :: "flow_env \<Rightarrow> review_input \<Rightarrow> review_input \<Rightarrow> bool" where
  "resolved_input env i j =
     (\<exists>ins sets. j = i\<lparr>ri_instructions := ins, ri_settings := sets\<rparr> \<and>
        (en_instructing env \<and> ri_instructions i \<noteq> [] \<longrightarrow> ins = ri_instructions i) \<and>
        (en_setting env \<and> ri_settings i \<noteq> [] \<longrightarrow> sets = ri_settings i))"

definition body_post ::
  "flow_env \<Rightarrow> review_input \<Rightarrow> flow_error + review_outcome \<Rightarrow> review_state run_vars \<Rightarrow>
   flow_ev list \<Rightarrow> bool" where
  "body_post env i r v' l' =
     (asks_freely l' \<and>
      (if va_started v' then
         rv_tokens (va_rec v') = spent l' \<and> (en_recording env \<longrightarrow> rv_run (va_rec v') = wi_run_id (en_info env))
       else list_all neutral l' \<and> \<not> is_ok r) \<and>
      (case r of
         Inl err \<Rightarrow> is_continue_as_new err \<longrightarrow>
           (\<exists>j n. resolved_input env i j \<and> err = ContinueAsNew (NextReview n) \<and>
              follows j (ri_tokens i + spent l') l' n)
       | Inr oc \<Rightarrow> \<exists>j. resolved_input env i j \<and> earned j l' oc))"

lemma ensure_instructions_wp:
  assumes "\<And>e d. list_all neutral d \<Longrightarrow> \<not> is_continue_as_new e \<Longrightarrow> Q (Inl e) (l @ d)"
    and "\<And>x d. list_all neutral d \<Longrightarrow> (en_instructing env \<Longrightarrow> ins \<noteq> [] \<Longrightarrow> x = ins) \<Longrightarrow> Q (Inr x) (l @ d)"
  shows "wp (ensure_run_instructions env ins place ks) Q l"
  using assms(2) [of "[]"] assms(1) assms(2)
  by (auto simp: ensure_run_instructions_def ensure_instructions_def wp_rules split: sum.split)

lemma ensure_settings_wp:
  assumes "\<And>e d. list_all neutral d \<Longrightarrow> \<not> is_continue_as_new e \<Longrightarrow> Q (Inl e) (l @ d)"
    and "\<And>x d. list_all neutral d \<Longrightarrow> (en_setting env \<Longrightarrow> sets \<noteq> [] \<Longrightarrow> x = sets) \<Longrightarrow> Q (Inr x) (l @ d)"
  shows "wp (ensure_run_settings env sets place ks) Q l"
  using assms(2) [of "[]"] assms(1) assms(2)
  by (auto simp: ensure_run_settings_def ensure_settings_def wp_rules split: sum.split)

abbreviation fresh_vars :: "review_state run_vars" where
  "fresh_vars \<equiv> \<lparr>va_started = False, va_rec = no_review_state, va_agent_ran = False\<rparr>"

lemma neutral_calm: "list_all neutral l \<Longrightarrow> asks_freely l \<and> \<not> holding l \<and> spent l = 0"
  using neutral_asks_freely [of l "[]"] neutral_holding [of l "[]"] by simp

lemma review_body_spec: "vwp (review_body env i) (body_post env i) fresh_vars []"
  unfolding review_body_def
proof (simp only: vwp_then vwp_do, rule start_review_wp, goal_cases)
  case (1 e d)
  with neutral_calm [of d] show ?case by (simp add: body_post_def)
next
  case (2 st d1)
  note st = 2
  let ?v = "\<lparr>va_started = True, va_rec = st, va_agent_ran = False\<rparr>"
  show ?case
  proof (simp add: wp_rules, rule ensure_instructions_wp, goal_cases)
    case (1 e d2)
    then show ?case using st neutral_calm [of "d1 @ d2"] by (simp add: body_post_def)
  next
    case (2 ins d2)
    note ins = 2
    let ?v2 = "?v\<lparr>va_rec := st\<lparr>rv_instructions := ins\<rparr>\<rparr>"
    show ?case
    proof (simp add: wp_rules set_rec_def, rule ensure_settings_wp, goal_cases)
      case (1 e d3)
      then show ?case using st ins neutral_calm [of "d1 @ d2 @ d3"] by (simp add: body_post_def)
    next
      case (2 sets d3)
      let ?j = "i\<lparr>ri_instructions := ins, ri_settings := sets\<rparr>" and ?l = "d1 @ d2 @ d3"
      have l: "asks_freely ?l" "\<not> holding ?l" "spent ?l = 0"
        using neutral_calm [of ?l] st ins 2 by simp_all
      have j: "resolved_input env i ?j"
        unfolding resolved_input_def using ins(2) 2(2) by blast
      have "vwp (review_work env ?j) (body_post env i) ?v2 ?l"
      proof (rule vwp_mono [OF review_work_spec [OF l(1,2)]], goal_cases)
        case (1 r v' l')
        then show ?case
          using j l(3) st unfolding work_post_def body_post_def booked_def
          by (auto split: sum.splits)
      qed
      then show ?case by simp
    qed
  qed
qed

section \<open>The deferred functions\<close>

text \<open>A pass from its own empty history, as its body and what its deferred functions add.\<close>

lemma review_run:
  assumes "review_workflow env i [] = (r, l')"
  obtains v d e where "body_post env i r v d" "l' = d @ e" "list_all neutral e"
    and "en_recording env \<Longrightarrow> va_started v \<Longrightarrow>
      \<exists>now a rest. e = EvSave (review_row (finished_review env (va_rec v) (err_of r) now)) a # rest \<and>
        list_all announces rest"
proof -
  obtain v d where b: "review_body env i fresh_vars [] = (r, v, d)"
      and l': "l' = snd (review_deferred env i r v d)"
    using assms by (auto simp: review_workflow_def with_vars_def split: prod.splits)
  have p: "body_post env i r v d" using review_body_spec [of env i] b by (simp add: vwp_def)
  let ?m = "settle env ''review pass'' ''record the review pass's terminal state: ''
      (\<lambda>now. review_row (finished_review env (va_rec v) (err_of r) now))
      (case r of Inl _ \<Rightarrow> [] | Inr outcome \<Rightarrow> ro_summary outcome) (err_of r) :: unit step"
  let ?f = "notify_run_failure env ''Local review chain failed'' (ri_work_dir i) (ri_summary i)
         (va_agent_ran v) (err_of r)"
  have q: "quiet (review_deferred env i r v)"
    unfolding review_deferred_def by (intro emits_andthen) auto
  obtain e where e: "l' = d @ e" "list_all neutral e"
    using emits_run [OF q, of d] l' by auto
  show thesis
  proof (rule that [OF p e])
    assume rec: "en_recording env" and s: "va_started v"
    obtain now a rest where
        "snd (andthen ?m (\<lambda>_. ?f) d) = d @ EvSave (review_row (finished_review env (va_rec v) (err_of r) now)) a # rest"
        "list_all announces rest"
      using settled_run [OF rec, of "''review pass''"] by blast
    with l' s e(1)
    show "\<exists>now a rest. e = EvSave (review_row (finished_review env (va_rec v) (err_of r) now)) a # rest \<and>
        list_all announces rest" by (auto simp: review_deferred_def)
  qed
qed

section \<open>Two passes, run\<close>

lemmas body_run =
  vthen_def vdo_def vget_def vset_def vret_def vfail_def with_vars_def act_run call_def lift_def

lemma probe_off: "\<not> en_placing env \<Longrightarrow> probe env d = ret no_place"
  by (auto simp: probe_def probe_place_def)

text \<open>A first pass, which only reviews, and the second, whose implement pass finds nothing to do.\<close>

definition first_pass :: review_input where
  "first_pass = \<lparr>ri_initiator = [], ri_detached = False, ri_work_dir = ''d'', ri_payload = [],
     ri_resets = 0, ri_pass = 0, ri_tokens = 5, ri_summary = False, ri_instructions = [], ri_settings = []\<rparr>"

definition second_pass :: review_input where
  "second_pass = first_pass\<lparr>ri_payload := ''fix it'', ri_pass := 1, ri_tokens := 12\<rparr>"

lemmas review_defs =
  review_workflow_def review_body_def review_work_def implement_phase_def implement_with_def guided_def
  review_phase_def next_phase_def end_loop_def name_ending_def set_rec_def agent_pass_def
  agent_has_run_def start_review_state_def probe_off save_row_def ensure_run_instructions_def
  ensure_instructions_def ensure_run_settings_def ensure_settings_def no_checkpoint_def
  max_review_passes_def

lemma first_pass_continues:
  "fst (review_workflow demo_env first_pass []) = Inl (ContinueAsNew (NextReview second_pass))"
  by (simp add: review_defs body_run demo_env_def first_pass_def second_pass_def Let_def)

lemma second_pass_converges:
  "\<exists>oc. fst (review_workflow demo_env second_pass []) = Inr oc \<and> ro_converged oc"
proof -
  have t: "trim_space ''fix it'' \<noteq> []" by code_simp
  have s: "\<not> steered []" by (simp add: steered_def)
  show ?thesis
    by (simp add: review_defs body_run demo_env_def first_pass_def second_pass_def Let_def t s
        notify_complete_def summarize_for_webhook_def notify_best_effort_def send_def ended_by_def converged_def)
qed

section \<open>Properties\<close>

lemma earned_mono: "earned i l oc \<Longrightarrow> set l \<subseteq> set l' \<Longrightarrow> earned i l' oc"
proof -
  assume e: "earned i l oc" and s: "set l \<subseteq> set l'"
  have a: "\<And>r P. answered_by r P l \<Longrightarrow> answered_by r P l'"
    using s unfolding answered_by_def by blast
  have h: "head_stayed l \<Longrightarrow> head_stayed l'" using s unfolding head_stayed_def by blast
  from e a h show ?thesis unfolding earned_def by (cases "ro_ending oc") auto
qed

lemma follows_mono: "follows i t l n \<Longrightarrow> set l \<subseteq> set l' \<Longrightarrow> follows i t l' n"
  unfolding follows_def reviewed_def answered_by_def by blast

lemma continued_run:
  assumes "review_workflow env i [] = (Inl err, l')" "is_continue_as_new err"
  shows "\<exists>j n. resolved_input env i j \<and> err = ContinueAsNew (NextReview n) \<and>
    follows j (ri_tokens i + spent l') l' n"
proof -
  obtain v d e where p: "body_post env i (Inl err) v d" "l' = d @ e" "list_all neutral e"
    using review_run [OF assms(1)] by blast
  then obtain j n where "resolved_input env i j" "err = ContinueAsNew (NextReview n)"
      "follows j (ri_tokens i + spent d) d n"
    using assms(2) by (auto simp: body_post_def)
  moreover have "follows j (ri_tokens i + spent l') l' n"
    using follows_mono [OF calculation(3), of l'] p(2,3) by simp
  ultimately show ?thesis by blast
qed

text \<open>One run of the loop hands over to the next.\<close>

definition continues :: "review_input \<Rightarrow> review_input \<Rightarrow> bool" where
  "continues i n = (\<exists>env l. review_workflow env i [] = (Inl (ContinueAsNew (NextReview n)), l))"

definition rank :: "review_input \<Rightarrow> nat" where
  "rank i = max_review_passes * ri_resets i + ri_pass i"

lemma continues_rank:
  assumes "continues i n" "ri_pass i < max_review_passes"
  shows "ri_pass n < max_review_passes \<and> rank n = Suc (rank i)"
proof -
  obtain env l where "review_workflow env i [] = (Inl (ContinueAsNew (NextReview n)), l)"
    using assms(1) unfolding continues_def by blast
  from continued_run [OF this] obtain j where j: "resolved_input env i j"
      "follows j (ri_tokens i + spent l) l n" by auto
  then have "ri_pass j = ri_pass i" "ri_resets j = ri_resets i" by (auto simp: resolved_input_def)
  moreover have "\<exists>p t. n = j\<lparr>ri_payload := p, ri_pass := ri_pass j + 1, ri_tokens := t\<rparr> \<and>
        ri_pass n < max_review_passes \<or>
      n = j\<lparr>ri_payload := p, ri_pass := 0, ri_resets := ri_resets j + 1, ri_tokens := t\<rparr> \<and>
        max_review_passes \<le> ri_pass j + 1"
    using j(2) unfolding follows_def by blast
  ultimately show ?thesis using assms(2) by (auto simp: rank_def max_review_passes_def)
qed

lemma chain_rank:
  "successively continues (i # xs) \<Longrightarrow> ri_pass i < max_review_passes \<Longrightarrow>
   ri_pass (last (i # xs)) < max_review_passes \<and> rank (last (i # xs)) = rank i + length xs"
proof (induction xs arbitrary: i)
  case (Cons n xs)
  then have "continues i n" by simp
  from continues_rank [OF this Cons.prems(2)] Cons.IH [of n] Cons.prems(1) show ?case by auto
qed simp

text \<open>
  C8: The review loop is bounded.  However the agents and the operator answer, a chain of
  passes that starts with a fresh budget has at most five passes for the first budget and five
  for each time an operator chose to renew it: an unattended loop ends within five passes.
\<close>

theorem review_loop_is_bounded:
  assumes "successively continues (i # xs)" "ri_pass i = 0"
  shows "length (i # xs) \<le> max_review_passes * (ri_resets (last (i # xs)) - ri_resets i + 1)"
proof -
  have "ri_pass i < max_review_passes" using assms(2) by (simp add: max_review_passes_def)
  from chain_rank [OF assms(1) this]
  have r: "ri_pass (last (i # xs)) < max_review_passes"
      "max_review_passes * ri_resets (last (i # xs)) + ri_pass (last (i # xs)) =
        max_review_passes * ri_resets i + length xs"
    using assms(2) by (simp_all add: rank_def)
  then have "ri_resets i \<le> ri_resets (last (i # xs))"
    by (simp add: max_review_passes_def)
  with r show ?thesis by (simp add: max_review_passes_def algebra_simps)
qed

theorem review_loop_is_bounded_witness:
  "successively continues [first_pass, second_pass] \<and> length [first_pass, second_pass] \<le> max_review_passes"
proof -
  have c: "successively continues [first_pass, second_pass]"
    using first_pass_continues unfolding continues_def successively.simps
    by (metis prod.collapse)
  have "length [first_pass, second_pass] \<le>
      max_review_passes * (ri_resets (last [first_pass, second_pass]) - ri_resets first_pass + 1)"
    using c by (rule review_loop_is_bounded) (simp add: first_pass_def)
  with c show ?thesis by (simp add: first_pass_def second_pass_def)
qed

text \<open>
  C25: Every ending is earned.  A loop reports convergence exactly when its checked-out HEAD did
  not move after an implement pass; acceptance only on an operator's accept at the pass limit;
  a stop only on an operator's decision; and the pass cap only unattended, with the budget
  used up.
\<close>

theorem review_endings_are_earned:
  assumes "review_workflow env i [] = (Inr oc, l')"
  shows "\<exists>j. resolved_input env i j \<and> earned j l' oc"
proof -
  obtain v d e where p: "body_post env i (Inr oc) v d" "l' = d @ e" "list_all neutral e"
    using review_run [OF assms] by blast
  then obtain j where "resolved_input env i j" "earned j d oc" by (auto simp: body_post_def)
  moreover have "earned j l' oc" using earned_mono [OF calculation(2), of l'] p(2) by simp
  ultimately show ?thesis by blast
qed

theorem review_endings_are_earned_witness:
  "\<exists>oc l'. review_workflow demo_env second_pass [] = (Inr oc, l') \<and> ro_converged oc \<and> head_stayed l'"
proof -
  obtain oc l' where r: "review_workflow demo_env second_pass [] = (Inr oc, l')" "ro_converged oc"
    using second_pass_converges by (metis prod.collapse)
  from review_endings_are_earned [OF r(1)] r(2) have "head_stayed l'"
    by (auto simp: earned_def)
  with r show ?thesis by blast
qed

text \<open>
  What a pass hands to the next: the review's raw output as the payload, the running token
  total with exactly what this pass's agents reported added, the pass counter advanced below
  the cap (or, on an operator's choice at the cap, a renewed budget), and everything else it
  ran under, the resolved instructions and settings included, unchanged.
\<close>

theorem review_pass_carries_over:
  assumes "review_workflow env i [] = (Inl err, l')" "is_continue_as_new err"
  shows "\<exists>j n. resolved_input env i j \<and> err = ContinueAsNew (NextReview n) \<and>
    follows j (ri_tokens i + spent l') l' n"
  by (rule continued_run [OF assms])

theorem review_pass_carries_over_witness:
  "\<exists>l'. review_workflow demo_env first_pass [] = (Inl (ContinueAsNew (NextReview second_pass)), l') \<and>
     ri_tokens second_pass = ri_tokens first_pass + spent l'"
proof -
  obtain l' where r: "review_workflow demo_env first_pass [] = (Inl (ContinueAsNew (NextReview second_pass)), l')"
    using first_pass_continues by (metis prod.collapse)
  from review_pass_carries_over [OF r] obtain j n where "resolved_input demo_env first_pass j"
      "n = second_pass" "follows j (ri_tokens first_pass + spent l') l' n" by auto
  moreover have "\<And>p t. ri_tokens (j\<lparr>ri_payload := p, ri_pass := ri_pass j + 1, ri_tokens := t\<rparr>) = t"
      "\<And>p t. ri_tokens (j\<lparr>ri_payload := p, ri_pass := 0, ri_resets := ri_resets j + 1, ri_tokens := t\<rparr>) = t"
    by simp_all
  ultimately have "ri_tokens second_pass = ri_tokens first_pass + spent l'"
    unfolding follows_def by metis
  with r show ?thesis by blast
qed



text \<open>
  A person thinking never holds the developer's changes: in every pass, whatever the
  answers, no wait for an operator is opened or entered between a checkpoint that stashed
  local changes and the step that gives them back.
\<close>

theorem review_asks_with_nothing_stashed: "asks_freely (snd (review_workflow env i []))"
proof -
  obtain v d e where "body_post env i (fst (review_workflow env i [])) v d"
      "snd (review_workflow env i []) = d @ e" "list_all neutral e"
    using review_run [OF prod.collapse [symmetric]] by blast
  then show ?thesis by (simp add: body_post_def)
qed

end
