(* ===== verification/Pilot_Loop.thy ===== *)
theory Pilot_Loop
  imports Review_Loop
begin

text \<open>
  \<open>PilotWorkflow\<close> and \<open>runPilotOnce\<close> of \<open>internal/codereview/workflow.go\<close>: one pass over the open pull
  request's comments, and \<open>OpenPRWorkflow\<close>.

  A pass polls until no review is under way, which nothing bounds.  \<open>poll_review\<close> is therefore
  a partial function, and a body's error is an option: \<^const>\<open>None\<close> is a pass that polls for
  ever, which has no result and runs no deferred function.
\<close>

section \<open>Polling\<close>

partial_function (option) poll_review ::
  "flow_env \<Rightarrow> pull_request \<Rightarrow> flow_ev list \<Rightarrow> ((flow_error + unit) \<times> flow_ev list) option" where
  "poll_review env pr l =
     (let a = en_check_review env pr l; l1 = l @ [EvCheckReview pr a] in
      case a of
        Inl e \<Rightarrow> Some (Inl (fault e), l1)
      | Inr ongoing \<Rightarrow>
          if \<not> ongoing then Some (Inr (), l1)
          else
            (let b = en_sleep env l1; l2 = l1 @ [EvSleep b] in
             case b of
               Inl e \<Rightarrow> Some (Inl (fault e), l2)
             | Inr _ \<Rightarrow> poll_review env pr l2))"

declare poll_review.simps [code]

type_synonym 'a pilot_step = "(flow_ev, pilot_state run_vars, flow_error option, 'a) body"

definition von_error :: "('e \<Rightarrow> 'f) \<Rightarrow> ('ev, 's, 'e, 'a) body \<Rightarrow> ('ev, 's, 'f, 'a) body" where
  "von_error g m s l =
     (case m s l of (Inl e, s', l') \<Rightarrow> (Inl (g e), s', l') | (Inr x, s', l') \<Rightarrow> (Inr x, s', l'))"

text \<open>Looking at a body's result instead of returning its error.\<close>

definition vtry :: "('ev, 's, 'e, 'a) body \<Rightarrow> ('ev, 's, 'f, 'e + 'a) body" where
  "vtry m s l = (case m s l of (r, s', l') \<Rightarrow> (Inr r, s', l'))"

definition pdo :: "'a step \<Rightarrow> 'a pilot_step" where
  "pdo m = vdo (on_error Some m)"

definition poll :: "flow_env \<Rightarrow> pull_request \<Rightarrow> unit pilot_step" where
  "poll env pr v l =
     (case poll_review env pr l of
        None \<Rightarrow> (Inl None, v, l)
      | Some (Inl e, l') \<Rightarrow> (Inl (Some e), v, l')
      | Some (Inr u, l') \<Rightarrow> (Inr u, v, l'))"

section \<open>A pass\<close>

record pilot_pass =
  ps_summary :: string
  ps_addressed :: bool
  ps_tokens :: int
  ps_pr_url :: string
  ps_stopped :: bool

definition pilot_waiting ::
  "flow_env \<Rightarrow> nat \<Rightarrow> string \<Rightarrow> (flow_ev, pilot_state run_vars, flow_error, unit) body" where
  "pilot_waiting env since session =
     vthen (set_rec (\<lambda>r. r\<lparr>pv_waiting_since := since, pv_waiting_session := session\<rparr>)) (\<lambda>_.
     vthen vget (\<lambda>v. vdo (record_quietly env (pilot_row (va_rec v)))))"

definition pilot_pause ::
  "flow_env \<Rightarrow> pilot_input \<Rightarrow> pull_request \<Rightarrow> review_thread list \<Rightarrow> decision pilot_step" where
  "pilot_pause env i pr threads =
     vthen vget (\<lambda>v. von_error Some
       (pause env round_remote_comments (pv_place (va_rec v)) (format_comments (pr_body pr) threads)
         (pi_initiator i) (pilot_waiting env)))"

text \<open>\<^const>\<open>None\<close> when the operator ends the loop, else the guidance.\<close>

definition pilot_guided ::
  "flow_env \<Rightarrow> pilot_input \<Rightarrow> pull_request \<Rightarrow> review_thread list \<Rightarrow> string option pilot_step" where
  "pilot_guided env i pr threads =
     (if \<not> steered (pi_settings i) then vret (Some [])
      else vthen (pilot_pause env i pr threads) (\<lambda>d.
        vret (if proceeds d then Some (dc_guidance d) else None)))"

definition address ::
  "flow_env \<Rightarrow> pilot_input \<Rightarrow> pull_request \<Rightarrow> review_thread list \<Rightarrow> string \<Rightarrow> pilot_pass pilot_step" where
  "address env i pr threads guidance =
     (let dir = pi_work_dir i in
      vthen (pdo (call (en_mark env dir) (EvMark dir))) (\<lambda>cp.
      vthen (pdo (call (en_run_agent env i pr threads guidance) (EvRunAgent i pr threads guidance))) (\<lambda>r.
      vthen (vset (\<lambda>v. v\<lparr>va_agent_ran := True\<rparr>)) (\<lambda>_.
      vthen (pdo (call (en_head_advanced env dir cp) (EvHeadAdvanced dir cp))) (\<lambda>commits.
      vthen (pdo (call (en_push env dir (pr_head pr)) (EvPush dir (pr_head pr)))) (\<lambda>_.
      vthen (pdo (call (en_reply env pr threads commits) (EvReply pr threads commits))) (\<lambda>_.
      vthen (pdo (call (en_request_review env pr) (EvRequestReview pr))) (\<lambda>_.
      vthen (if cp_stashed cp then
               pdo (andthen (attempt (call (en_restore env dir) (EvRestore dir) :: unit step))
                 (\<lambda>_. ret ()))
             else vret ()) (\<lambda>_.
      vret \<lparr>ps_summary = ''Addressed '' @ itoa (int (length threads)) @ '' comment(s) on PR #'' @
              itoa (pr_number pr) @ '' with '' @ itoa (int (length commits)) @
              '' commit(s); requested Copilot review.'',
            ps_addressed = True, ps_tokens = ag_tokens r, ps_pr_url = pr_url pr,
            ps_stopped = False\<rparr>)))))))))"

definition run_pilot_once :: "flow_env \<Rightarrow> pilot_input \<Rightarrow> pilot_pass pilot_step" where
  "run_pilot_once env i =
     vthen (pdo (call (en_determine_pr env i) (EvDeterminePR i))) (\<lambda>pr.
     vthen (poll env pr) (\<lambda>_.
     vthen (pdo (call (en_load_comments env pr) (EvLoadComments pr))) (\<lambda>threads.
     if threads = [] then
       vret \<lparr>ps_summary = ''No unresolved comments on PR #'' @ itoa (pr_number pr) @ ''; nothing to do.'',
             ps_addressed = False, ps_tokens = 0, ps_pr_url = pr_url pr, ps_stopped = False\<rparr>
     else vthen (pilot_guided env i pr threads) (\<lambda>g.
       case g of
         None \<Rightarrow>
           vret \<lparr>ps_summary = ''Stopped by the operator with '' @ itoa (int (length threads)) @
                   '' unresolved comment(s) on PR #'' @ itoa (pr_number pr) @ '' still to address.'',
                 ps_addressed = False, ps_tokens = 0, ps_pr_url = pr_url pr, ps_stopped = True\<rparr>
       | Some guidance \<Rightarrow> address env i pr threads guidance))))"

section \<open>The workflow\<close>

definition linked_notice :: "string \<Rightarrow> string \<Rightarrow> string \<Rightarrow> notice" where
  "linked_notice title body url = (plain_notice title body)\<lparr>nt_url := url\<rparr>"

definition pilot_end ::
  "flow_env \<Rightarrow> pilot_input \<Rightarrow> pilot_pass \<Rightarrow> string \<Rightarrow> string pilot_step" where
  "pilot_end env i pass title =
     (let summary = with_token_total (ps_summary pass) (pi_tokens i + ps_tokens pass) in
      vthen vget (\<lambda>v.
      vthen (pdo (notify_complete env (pi_summary i) (va_agent_ran v) (pi_work_dir i)
        (linked_notice title summary (ps_pr_url pass)) (pi_chain_summary i))) (\<lambda>_.
      vret summary)))"

definition pilot_chain :: "flow_env \<Rightarrow> pilot_input \<Rightarrow> pilot_pass \<Rightarrow> string pilot_step" where
  "pilot_chain env i pass =
     vthen vget (\<lambda>v.
     vthen (pdo (summarize_for_webhook env (pi_summary i) (va_agent_ran v) (pi_work_dir i))) (\<lambda>body.
     vthen (if pi_summary i \<and> en_version_summarize env then
              pdo (notify_best_effort (send env)
                ((linked_notice ''Copilot review pass complete'' (ps_summary pass) (ps_pr_url pass))
                  \<lparr>nt_webhook_body := body\<rparr>))
            else vret ()) (\<lambda>_.
     vfail (Some (ContinueAsNew (NextPilot (i\<lparr>pi_tokens := pi_tokens i + ps_tokens pass,
       pi_chain_summary := body\<rparr>)))))))"

text \<open>The pass's usage and pull request go into the record as the pass returned them.\<close>

definition book_pass :: "flow_error option + pilot_pass \<Rightarrow> unit pilot_step" where
  "book_pass p =
     vset (\<lambda>v. v\<lparr>va_rec := (va_rec v)
       \<lparr>pv_tokens := (case p of Inl _ \<Rightarrow> 0 | Inr pass \<Rightarrow> ps_tokens pass),
        pv_pr_url := (case p of Inl _ \<Rightarrow> [] | Inr pass \<Rightarrow> ps_pr_url pass)\<rparr>\<rparr>)"

definition pilot_work :: "flow_env \<Rightarrow> pilot_input \<Rightarrow> string pilot_step" where
  "pilot_work env i =
     vthen (vtry (run_pilot_once env i)) (\<lambda>p.
     vthen (book_pass p) (\<lambda>_.
     case p of
       Inl e \<Rightarrow> vfail e
     | Inr pass \<Rightarrow>
         vthen (vset (\<lambda>v. v\<lparr>va_rec := (va_rec v)\<lparr>pv_addressed := Some (ps_addressed pass)\<rparr>\<rparr>)) (\<lambda>_.
         if ps_stopped pass then
           vthen (vset (\<lambda>v. v\<lparr>va_rec := (va_rec v)\<lparr>pv_ending := EndingOperatorStopped\<rparr>\<rparr>)) (\<lambda>_.
             pilot_end env i pass ''Copilot review chain stopped'')
         else if pi_chain i \<and> ps_addressed pass then pilot_chain env i pass
         else pilot_end env i pass ''Copilot review chain complete'')))"

definition pilot_body :: "flow_env \<Rightarrow> pilot_input \<Rightarrow> string pilot_step" where
  "pilot_body env i =
     vthen (pdo (start_pilot_state env i)) (\<lambda>st.
     vthen (vset (\<lambda>v. v\<lparr>va_started := True, va_rec := st\<rparr>)) (\<lambda>_.
     vthen (pdo (ensure_run_instructions env (pi_instructions i) (pv_place st) [key_pilot_address]))
       (\<lambda>instructions.
     vthen (vset (\<lambda>v. v\<lparr>va_rec := (va_rec v)\<lparr>pv_instructions := instructions\<rparr>\<rparr>)) (\<lambda>_.
     vthen (pdo (ensure_run_settings env (pi_settings i) (pv_place st) [key_steering_enabled]))
       (\<lambda>settings.
     pilot_work env (i\<lparr>pi_instructions := instructions, pi_settings := settings\<rparr>))))))"

definition pilot_deferred ::
  "flow_env \<Rightarrow> pilot_input \<Rightarrow> flow_error option + string \<Rightarrow> pilot_state run_vars \<Rightarrow> unit step" where
  "pilot_deferred env i r v =
     (if r = Inl None then ret ()
      else
        (let err = (case r of Inl e \<Rightarrow> e | Inr _ \<Rightarrow> None) in
         andthen
           (if va_started v then
              settle env ''pilot pass'' ''record the pilot pass's terminal state: ''
                (\<lambda>now. pilot_row (finished_pilot env (va_rec v) err now))
                (case r of Inl _ \<Rightarrow> [] | Inr summary \<Rightarrow> summary) err
            else ret ())
           (\<lambda>_. notify_run_failure env ''Copilot review chain failed'' (pi_work_dir i) (pi_summary i)
             (va_agent_ran v) err)))"

definition pilot_workflow ::
  "flow_env \<Rightarrow> pilot_input \<Rightarrow> (flow_ev, flow_error option, string) eff" where
  "pilot_workflow env i =
     with_vars \<lparr>va_started = False, va_rec = no_pilot_state, va_agent_ran = False\<rparr>
       (pilot_body env i) (pilot_deferred env i)"

section \<open>Opening the pull request\<close>

definition open_pr_workflow :: "flow_env \<Rightarrow> string \<Rightarrow> open_pr_result step" where
  "open_pr_workflow env dir =
     deferring (\<lambda>r. notify_run_failure env ''Opening the pull request failed'' dir False False (err_of r))
       (andthen (call (en_open_pr env dir) (EvOpenPR dir)) (\<lambda>pr.
        andthen (call (en_request_review env pr) (EvRequestReview pr)) (\<lambda>_.
          let summary = ''PR #'' @ itoa (pr_number pr) @ '' is open and a Copilot review was requested.''
          in andthen (attempt (notify_complete env False False dir
               (linked_notice ''Pull request ready'' summary (pr_url pr)) []))
             (\<lambda>r. case r of Inl (_ :: flow_error) \<Rightarrow> ret \<lparr>op_summary = summary, op_url = pr_url pr\<rparr>
                  | Inr _ \<Rightarrow> ret \<lparr>op_summary = summary, op_url = pr_url pr\<rparr>))))"

section \<open>What a pass did\<close>

text \<open>The steps that change the working tree or the pull request.\<close>

fun works :: "flow_ev \<Rightarrow> bool" where
  "works (EvMark a b) = True"
| "works (EvRunAgent a b c d e) = True"
| "works (EvHeadAdvanced a b c) = True"
| "works (EvPush a b c) = True"
| "works (EvReply a b c d) = True"
| "works (EvRequestReview a b) = True"
| "works (EvRestore a b) = True"
| "works e = False"

text \<open>The six steps of a pass that addresses comments, all going well, and each going wrong.\<close>

definition going_well ::
  "pilot_input \<Rightarrow> pull_request \<Rightarrow> review_thread list \<Rightarrow> string \<Rightarrow> checkpoint \<Rightarrow> agent_result \<Rightarrow>
   string list \<Rightarrow> flow_ev list" where
  "going_well i pr ts g cp r shas =
     [EvMark (pi_work_dir i) (Inr cp), EvRunAgent i pr ts g (Inr r),
      EvHeadAdvanced (pi_work_dir i) cp (Inr shas), EvPush (pi_work_dir i) (pr_head pr) (Inr ()),
      EvReply pr ts shas (Inr ()), EvRequestReview pr (Inr ())]"

definition going_wrong ::
  "pilot_input \<Rightarrow> pull_request \<Rightarrow> review_thread list \<Rightarrow> string \<Rightarrow> checkpoint \<Rightarrow>
   string list \<Rightarrow> call_error \<Rightarrow> flow_ev list" where
  "going_wrong i pr ts g cp shas e =
     [EvMark (pi_work_dir i) (Inl e), EvRunAgent i pr ts g (Inl e),
      EvHeadAdvanced (pi_work_dir i) cp (Inl e), EvPush (pi_work_dir i) (pr_head pr) (Inl e),
      EvReply pr ts shas (Inl e), EvRequestReview pr (Inl e)]"

definition cut_short :: "pilot_input \<Rightarrow> flow_ev list \<Rightarrow> bool" where
  "cut_short i w = (\<exists>pr ts g cp r shas e k. k < 6 \<and>
     w = take k (going_well i pr ts g cp r shas) @ [going_wrong i pr ts g cp shas e ! k])"

definition addressed_all :: "pilot_input \<Rightarrow> int \<Rightarrow> flow_ev list \<Rightarrow> bool" where
  "addressed_all i tokens w = (\<exists>pr ts g cp r shas. ag_tokens r = tokens \<and>
     (if cp_stashed cp then \<exists>a. w = going_well i pr ts g cp r shas @ [EvRestore (pi_work_dir i) a]
      else w = going_well i pr ts g cp r shas))"

text \<open>The work of a pass, from how it ended.\<close>

definition once_post :: "pilot_input \<Rightarrow> flow_error option + pilot_pass \<Rightarrow> flow_ev list \<Rightarrow> bool" where
  "once_post i r w =
     (case r of
        Inl e \<Rightarrow> (\<forall>x. e = Some x \<longrightarrow> \<not> is_continue_as_new x) \<and> (w = [] \<or> cut_short i w)
      | Inr p \<Rightarrow>
          if ps_addressed p then \<not> ps_stopped p \<and> addressed_all i (ps_tokens p) w
          else w = [] \<and> ps_tokens p = 0)"

lemma cut_shortI:
  "k < 6 \<Longrightarrow> w = take k (going_well i pr ts g cp r shas) @ [going_wrong i pr ts g cp shas e ! k] \<Longrightarrow>
   cut_short i w"
  unfolding cut_short_def by blast

lemma cut_short_steps:
  "cut_short i [EvMark (pi_work_dir i) (Inl e)]"
  "cut_short i [EvMark (pi_work_dir i) (Inr cp), EvRunAgent i pr ts g (Inl e)]"
  "cut_short i [EvMark (pi_work_dir i) (Inr cp), EvRunAgent i pr ts g (Inr r),
     EvHeadAdvanced (pi_work_dir i) cp (Inl e)]"
  "cut_short i [EvMark (pi_work_dir i) (Inr cp), EvRunAgent i pr ts g (Inr r),
     EvHeadAdvanced (pi_work_dir i) cp (Inr shas), EvPush (pi_work_dir i) (pr_head pr) (Inl e)]"
  "cut_short i [EvMark (pi_work_dir i) (Inr cp), EvRunAgent i pr ts g (Inr r),
     EvHeadAdvanced (pi_work_dir i) cp (Inr shas), EvPush (pi_work_dir i) (pr_head pr) (Inr ()),
     EvReply pr ts shas (Inl e)]"
  "cut_short i [EvMark (pi_work_dir i) (Inr cp), EvRunAgent i pr ts g (Inr r),
     EvHeadAdvanced (pi_work_dir i) cp (Inr shas), EvPush (pi_work_dir i) (pr_head pr) (Inr ()),
     EvReply pr ts shas (Inr ()), EvRequestReview pr (Inl e)]"
  by (rule cut_shortI [of 0], simp_all add: going_well_def going_wrong_def)
     (rule cut_shortI [of 1], simp_all add: going_well_def going_wrong_def,
      rule cut_shortI [of 2], simp_all add: going_well_def going_wrong_def,
      rule cut_shortI [of 3], simp_all add: going_well_def going_wrong_def,
      rule cut_shortI [of 4], simp_all add: going_well_def going_wrong_def,
      rule cut_shortI [of 5], simp_all add: going_well_def going_wrong_def)

lemma addressed_steps:
  "\<not> cp_stashed cp \<Longrightarrow> addressed_all i (ag_tokens r)
     [EvMark (pi_work_dir i) (Inr cp), EvRunAgent i pr ts g (Inr r),
      EvHeadAdvanced (pi_work_dir i) cp (Inr shas), EvPush (pi_work_dir i) (pr_head pr) (Inr ()),
      EvReply pr ts shas (Inr ()), EvRequestReview pr (Inr ())]"
  "cp_stashed cp \<Longrightarrow> addressed_all i (ag_tokens r)
     [EvMark (pi_work_dir i) (Inr cp), EvRunAgent i pr ts g (Inr r),
      EvHeadAdvanced (pi_work_dir i) cp (Inr shas), EvPush (pi_work_dir i) (pr_head pr) (Inr ()),
      EvReply pr ts shas (Inr ()), EvRequestReview pr (Inr ()), EvRestore (pi_work_dir i) a]"
  unfolding addressed_all_def
  by (intro exI [of _ pr] exI [of _ ts] exI [of _ g] exI [of _ cp] exI [of _ r] exI [of _ shas];
      simp add: going_well_def)+

lemma address_spec:
  "vwp (address env i pr ts g) (\<lambda>r v' l'. \<exists>w. l' = l @ w \<and> list_all works w \<and> once_post i r w \<and>
     va_started v' = va_started v \<and> pv_run (va_rec v') = pv_run (va_rec v)) v l"
  unfolding address_def Let_def pdo_def
  by (simp add: wp_rules split: sum.split)
    (auto simp: once_post_def cut_short_steps addressed_steps)

text \<open>Waiting for a settled set of comments and for the operator.\<close>

fun idles :: "flow_ev \<Rightarrow> bool" where
  "idles (EvDeterminePR a b) = True"
| "idles (EvCheckReview a b) = True"
| "idles (EvSleep a) = True"
| "idles (EvLoadComments a b) = True"
| "idles (EvOpenSession a b) = True"
| "idles (EvSession a b c) = True"
| "idles e = neutral e"

lemma neutral_idles: "neutral e \<Longrightarrow> idles e"
  by (cases e) auto

lemma idles_not_works: "idles e \<Longrightarrow> \<not> works e \<and> ev_tokens e = 0"
  by (cases e) auto

definition poll_ok :: "flow_ev list \<Rightarrow> (flow_error + unit) \<times> flow_ev list \<Rightarrow> bool" where
  "poll_ok l res = ((\<exists>d. snd res = l @ d \<and> list_all idles d) \<and>
     (\<forall>e. fst res = Inl e \<longrightarrow> \<not> is_continue_as_new e))"

lemma poll_ok_step: "poll_ok (l @ d) res \<Longrightarrow> list_all idles d \<Longrightarrow> poll_ok l res"
  by (auto simp: poll_ok_def)

lemma poll_ok_end: "list_all idles d \<Longrightarrow> (\<And>e. r = Inl e \<Longrightarrow> \<not> is_continue_as_new e) \<Longrightarrow> poll_ok l (r, l @ d)"
  by (auto simp: poll_ok_def)

lemma poll_review_ok:
  assumes "poll_review env pr l = Some res"
  shows "poll_ok l res"
proof (rule poll_review.raw_induct [where P = "\<lambda>env pr l res. poll_ok l res", OF _ assms])
  fix f :: "flow_env \<Rightarrow> pull_request \<Rightarrow> flow_ev list \<Rightarrow> ((flow_error + unit) \<times> flow_ev list) option"
    and env :: flow_env and pr l y
  assume IH: "\<And>env pr l y. f env pr l = Some y \<Longrightarrow> poll_ok l y"
  assume e: "(let a = en_check_review env pr l; l1 = l @ [EvCheckReview pr a] in
      case a of
        Inl e \<Rightarrow> Some (Inl (fault e), l1)
      | Inr ongoing \<Rightarrow>
          if \<not> ongoing then Some (Inr (), l1)
          else
            (let b = en_sleep env l1; l2 = l1 @ [EvSleep b] in
             case b of
               Inl e \<Rightarrow> Some (Inl (fault e), l2)
             | Inr _ \<Rightarrow> f env pr l2)) = Some y"
  show "poll_ok l y"
  proof (cases "en_check_review env pr l")
    case (Inl x)
    then show ?thesis using e by (auto simp: Let_def intro!: poll_ok_end)
  next
    case (Inr ongoing)
    let ?l1 = "l @ [EvCheckReview pr (Inr ongoing)]"
    show ?thesis
    proof (cases "en_sleep env ?l1")
      case (Inl x)
      then show ?thesis
        using e Inr poll_ok_end [of "[EvCheckReview pr (Inr ongoing)]" "Inr ()" l]
          poll_ok_end [of "[EvCheckReview pr (Inr ongoing), EvSleep (Inl x)]" "Inl (fault x)" l]
        by (auto simp: Let_def split: if_splits)
    next
      case sleep: (Inr u)
      show ?thesis
      proof (cases ongoing)
        case False
        then show ?thesis
          using e Inr poll_ok_end [of "[EvCheckReview pr (Inr ongoing)]" "Inr ()" l]
          by (auto simp: Let_def)
      next
        case True
        then have "f env pr (?l1 @ [EvSleep (Inr u)]) = Some y"
          using e Inr sleep by (simp add: Let_def)
        from IH [OF this] poll_ok_step [of l "[EvCheckReview pr (Inr ongoing), EvSleep (Inr u)]" y]
        show ?thesis by simp
      qed
    qed
  qed
qed

lemma vwp_poll:
  assumes "\<And>r d. list_all idles d \<Longrightarrow> (\<And>x. r = Inl (Some x) \<Longrightarrow> \<not> is_continue_as_new x) \<Longrightarrow> Q r v (l @ d)"
  shows "vwp (poll env pr) Q v l"
proof (cases "poll_review env pr l")
  case None
  with assms [of "[]" "Inl None"] show ?thesis by (simp add: vwp_def poll_def)
next
  case (Some res)
  from poll_review_ok [OF Some] obtain r d where "res = (r, l @ d)" "list_all idles d"
      "\<And>e. r = Inl e \<Longrightarrow> \<not> is_continue_as_new e"
    by (cases res) (auto simp: poll_ok_def)
  with Some assms [of d "case r of Inl e \<Rightarrow> Inl (Some e) | Inr u \<Rightarrow> Inr u"] show ?thesis
    by (auto simp: vwp_def poll_def split: sum.splits)
qed

lemma vwp_von_error [wp_rules]:
  "vwp (von_error g m) Q s l \<longleftrightarrow>
   vwp m (\<lambda>r s' l'. Q (case r of Inl e \<Rightarrow> Inl (g e) | Inr x \<Rightarrow> Inr x) s' l') s l"
  by (auto simp: vwp_def von_error_def split: prod.splits sum.splits)

lemma vwp_vtry [wp_rules]: "vwp (vtry m) Q s l \<longleftrightarrow> vwp m (\<lambda>r s' l'. Q (Inr r) s' l') s l"
  by (auto simp: vwp_def vtry_def split: prod.splits)

lemma vwp_pdo_call:
  assumes "\<And>e. Q (Inl (Some (fault e))) v (l @ [ev (Inl e)])"
    and "\<And>x. Q (Inr x) v (l @ [ev (Inr x)])"
  shows "vwp (pdo (call ans ev)) Q v l"
  using assms by (cases "ans l") (auto simp: wp_rules pdo_def)

text \<open>What recording and waiting leave alone.\<close>

definition same_run :: "pilot_state run_vars \<Rightarrow> pilot_state run_vars \<Rightarrow> bool" where
  "same_run v v' = (va_started v' = va_started v \<and> pv_run (va_rec v') = pv_run (va_rec v))"

lemma same_run_trans: "same_run v v' \<Longrightarrow> same_run v' v'' \<Longrightarrow> same_run v v''"
  by (simp add: same_run_def)

lemma same_run_refl [simp]: "same_run v v"
  by (simp add: same_run_def)

lemma pilot_waiting_wp:
  assumes "\<And>d v'. list_all neutral d \<Longrightarrow> same_run v v' \<Longrightarrow> Q (Inr ()) v' (l @ d)"
  shows "vwp (pilot_waiting env since session) Q v l"
  unfolding pilot_waiting_def set_rec_def
  by (simp add: wp_rules, rule record_quietly_wp, rule assms) (simp_all add: same_run_def)

lemma list_all_idles: "list_all neutral d \<Longrightarrow> list_all idles d"
  by (auto simp: list_all_iff neutral_idles)

lemma pilot_pause_wp:
  assumes "\<And>r d v'. list_all idles d \<Longrightarrow> same_run v v' \<Longrightarrow>
    (\<And>e. r = Inl e \<Longrightarrow> (\<exists>x. e = Some x \<and> \<not> is_continue_as_new x)) \<Longrightarrow> Q r v' (l @ d)"
  shows "vwp (pilot_pause env i pr ts) Q v l"
  unfolding pilot_pause_def pause_def
proof (simp add: wp_rules, rule pilot_waiting_wp, goal_cases)
  case (1 d1 v1)
  note one = 1
  show ?case
  proof (simp add: wp_rules, rule ask_operator_wp, rule pilot_waiting_wp, goal_cases)
    case (1 r d2 d3 v2)
    have "list_all idles (d1 @ d2 @ d3)"
      using 1(1,2) one(1) by (auto simp: list_all_idles)
    moreover have "same_run v v2" using one(2) 1(3) by (rule same_run_trans)
    ultimately show ?case
      using assms [of "d1 @ d2 @ d3" v2 "case r of Inl e \<Rightarrow> Inl (Some e) | Inr x \<Rightarrow> Inr x"] 1(1)
      by (cases r) (auto simp: wp_rules)
  qed
qed

text \<open>A pass from a log: first waiting, then work.\<close>

definition once_run ::
  "pilot_input \<Rightarrow> pilot_state run_vars \<Rightarrow> flow_ev list \<Rightarrow> flow_error option + pilot_pass \<Rightarrow>
   pilot_state run_vars \<Rightarrow> flow_ev list \<Rightarrow> bool" where
  "once_run i v l r v' l' = (\<exists>d w. l' = l @ d @ w \<and> list_all idles d \<and> list_all works w \<and>
     once_post i r w \<and> same_run v v')"

lemma once_run_idle:
  "list_all idles d \<Longrightarrow> once_post i r [] \<Longrightarrow> same_run v v' \<Longrightarrow> once_run i v l r v' (l @ d)"
  unfolding once_run_def by (intro exI [of _ d] exI [of _ "[]"]) simp

lemma once_later:
  assumes "vwp m (once_run i v1 (l @ d)) v1 (l @ d)" "list_all idles d" "same_run v v1"
  shows "vwp m (once_run i v l) v1 (l @ d)"
proof (rule vwp_mono [OF assms(1)])
  fix r v' l' assume "once_run i v1 (l @ d) r v' l'"
  then obtain d2 w where "l' = (l @ d) @ d2 @ w" "list_all idles d2" "list_all works w" "once_post i r w"
      "same_run v1 v'" unfolding once_run_def by blast
  with assms(2,3) show "once_run i v l r v' l'"
    unfolding once_run_def by (intro exI [of _ "d @ d2"] exI [of _ w]) (auto intro: same_run_trans)
qed

lemma once_failed: "\<not> is_continue_as_new x \<Longrightarrow> once_post i (Inl (Some x)) []"
  by (simp add: once_post_def)

lemma address_once: "vwp (address env i pr ts g) (once_run i v l) v l"
proof (rule vwp_mono [OF address_spec], goal_cases)
  case (1 r v' l')
  then obtain w where "l' = l @ [] @ w" "list_all works w" "once_post i r w" "same_run v v'"
    by (auto simp: same_run_def)
  then show ?case unfolding once_run_def by (metis list.pred_inject(1))
qed

lemma guided_once:
  "vwp (vthen (pilot_guided env i pr ts) (\<lambda>g. case g of
       None \<Rightarrow> vret \<lparr>ps_summary = s, ps_addressed = False, ps_tokens = 0, ps_pr_url = u, ps_stopped = True\<rparr>
     | Some guidance \<Rightarrow> address env i pr ts guidance)) (once_run i v l) v l"
proof (cases "steered (pi_settings i)")
  case False
  then show ?thesis using address_once by (simp add: wp_rules pilot_guided_def)
next
  case True
  show ?thesis
    unfolding pilot_guided_def if_not_P [OF not_not [THEN iffD2, OF True]] vwp_then
  proof (rule pilot_pause_wp, goal_cases)
    case (1 r d v1)
    show ?case
    proof (cases r)
      case (Inl e)
      with 1 show ?thesis by (auto intro!: once_run_idle once_failed)
    next
      case (Inr x)
      have a: "vwp (address env i pr ts g) (once_run i v l) v1 (l @ d)" for g
        by (rule once_later [OF address_once 1(1,2)])
      have b: "once_run i v l (Inr \<lparr>ps_summary = s, ps_addressed = False, ps_tokens = 0, ps_pr_url = u,
          ps_stopped = True\<rparr>) v1 (l @ d)"
        using 1(1,2) by (intro once_run_idle) (simp_all add: once_post_def)
      show ?thesis using Inr a b by (simp add: wp_rules)
    qed
  qed
qed

lemma once_then:
  assumes step: "\<And>Q. (\<And>r d. list_all idles d \<Longrightarrow> (\<And>x. r = Inl (Some x) \<Longrightarrow> \<not> is_continue_as_new x) \<Longrightarrow>
      Q r v (l @ d)) \<Longrightarrow> vwp m Q v l"
    and rest: "\<And>x l. vwp (f x) (once_run i v l) v l"
  shows "vwp (vthen m f) (once_run i v l) v l"
  unfolding vwp_then
proof (rule step, goal_cases)
  case (1 r d)
  show ?case
  proof (cases r)
    case (Inl e)
    with 1 show ?thesis by (auto simp: once_post_def intro!: once_run_idle)
  next
    case (Inr x)
    with once_later [OF rest 1(1)] show ?thesis by simp
  qed
qed

lemma idle_call:
  assumes "\<And>r d. list_all idles d \<Longrightarrow> (\<And>x. r = Inl (Some x) \<Longrightarrow> \<not> is_continue_as_new x) \<Longrightarrow> Q r v (l @ d)"
    and "\<And>a. idles (ev a)"
  shows "vwp (pdo (call ans ev)) Q v l"
  by (rule vwp_pdo_call) (rule assms(1), simp_all add: assms(2))+

lemma run_pilot_once_spec: "vwp (run_pilot_once env i) (once_run i v l) v l"
  unfolding run_pilot_once_def
proof (rule once_then, goal_cases)
  case (1 Q)
  then show ?case by (rule idle_call) simp_all
next
  case (2 pr l)
  show ?case
  proof (rule once_then, goal_cases)
    case (1 Q)
    then show ?case by (rule vwp_poll)
  next
    case (2 u l)
    show ?case
    proof (rule once_then, goal_cases)
      case (1 Q)
      then show ?case by (rule idle_call) simp_all
    next
      case (2 ts l)
      show ?case
      proof (cases "ts = []")
        case True
        then show ?thesis
          using once_run_idle [of "[]" i _ v v l] by (simp add: wp_rules once_post_def)
      next
        case False
        then show ?thesis using guided_once by simp
      qed
    qed
  qed
qed

text \<open>A step that only records, announces, probes or resolves.\<close>

lemma idle_step:
  assumes "\<And>r d. list_all idles d \<Longrightarrow> (\<And>x. r = Inl (Some x) \<Longrightarrow> \<not> is_continue_as_new x) \<Longrightarrow> Q r v (l @ d)"
    and "quiet m" "plain m"
  shows "vwp (pdo m) Q v l"
  unfolding pdo_def vwp_do wp_on_error
proof (rule quiet_wp [OF assms(2,3)], goal_cases)
  case (1 r d)
  then show ?case
    using assms(1) [of d "case r of Inl e \<Rightarrow> Inl (Some e) | Inr x \<Rightarrow> Inr x"] list_all_idles
    by (cases r) auto
qed

section \<open>The record of a pass\<close>

text \<open>The pass got as far as asking for a fresh review.\<close>

definition completed :: "flow_ev list \<Rightarrow> bool" where
  "completed l = (\<exists>pr. EvRequestReview pr (Inr ()) \<in> set l)"

definition orderly :: "pilot_input \<Rightarrow> flow_ev list \<Rightarrow> bool" where
  "orderly i l = (filter works l = [] \<or> cut_short i (filter works l) \<or>
     completed l \<and> addressed_all i (spent l) (filter works l))"

definition pilot_post ::
  "pilot_input \<Rightarrow> pilot_state run_vars \<Rightarrow> flow_error option + string \<Rightarrow> pilot_state run_vars \<Rightarrow>
   flow_ev list \<Rightarrow> bool" where
  "pilot_post i v r v' l =
     (orderly i l \<and> same_run v v' \<and>
      pv_tokens (va_rec v') = (if completed l then spent l else 0) \<and>
      (\<forall>x. r = Inl (Some x) \<longrightarrow> is_continue_as_new x \<longrightarrow> pi_chain i \<and> completed l \<and>
         (\<exists>s. x = ContinueAsNew (NextPilot (i\<lparr>pi_tokens := pi_tokens i + spent l, pi_chain_summary := s\<rparr>)))))"

lemma idles_facts:
  "list_all idles d \<Longrightarrow> filter works d = [] \<and> spent d = 0 \<and> \<not> completed d"
proof (induction d)
  case (Cons e d)
  then have "\<not> works e" "ev_tokens e = 0" using idles_not_works [of e] by auto
  with Cons show ?case by (cases e) (auto simp: completed_def)
qed (simp add: completed_def)

lemma completed_append [simp]: "completed (l @ d) \<longleftrightarrow> completed l \<or> completed d"
  by (auto simp: completed_def)

lemma works_filter: "list_all works w \<Longrightarrow> filter works w = w"
  by (induction w) auto

lemma cut_short_not_completed: "cut_short i w \<Longrightarrow> \<not> completed w"
proof -
  assume "cut_short i w"
  then obtain pr ts g cp r shas e k where k: "k < 6"
      "w = take k (going_well i pr ts g cp r shas) @ [going_wrong i pr ts g cp shas e ! k]"
    unfolding cut_short_def by blast
  then have "k \<in> {0, 1, 2, 3, 4, 5}" by auto
  with k(2) show ?thesis
    by (auto simp: completed_def going_well_def going_wrong_def numeral_eq_Suc)
qed

lemma addressed_completed: "addressed_all i t w \<Longrightarrow> completed w \<and> spent w = t"
  unfolding addressed_all_def completed_def going_well_def by (auto split: if_splits)

lemma pilot_end_wp:
  assumes "\<And>r d. list_all neutral d \<Longrightarrow> (\<And>x. r = Inl (Some x) \<Longrightarrow> \<not> is_continue_as_new x) \<Longrightarrow> Q r v (l @ d)"
  shows "vwp (pilot_end env i p title) Q v l"
  unfolding pilot_end_def Let_def vwp_then vwp_get sum.case pdo_def vwp_do wp_on_error
proof (rule quiet_wp [OF quiet_complete plain_complete], goal_cases)
  case (1 r d)
  show ?case
  proof (cases r)
    case (Inl e)
    with 1 assms [of d "Inl (Some e)"] show ?thesis by simp
  next
    case (Inr u)
    with 1 assms [of d "Inr (with_token_total (ps_summary p) (pi_tokens i + ps_tokens p))"]
    show ?thesis by (simp add: wp_rules)
  qed
qed

lemma pilot_chain_wp:
  assumes "\<And>r d. list_all neutral d \<Longrightarrow> (\<And>x. r = Inl (Some x) \<Longrightarrow> is_continue_as_new x \<Longrightarrow>
      \<exists>s. x = ContinueAsNew (NextPilot (i\<lparr>pi_tokens := pi_tokens i + ps_tokens p, pi_chain_summary := s\<rparr>))) \<Longrightarrow>
      Q r v (l @ d)"
  shows "vwp (pilot_chain env i p) Q v l"
  unfolding pilot_chain_def vwp_then vwp_get sum.case pdo_def vwp_do wp_on_error
proof (rule quiet_wp [OF quiet_summarize plain_summarize], goal_cases)
  case (1 r d)
  show ?case
  proof (cases r)
    case (Inl e)
    with 1 assms [of d "Inl (Some e)"] show ?thesis by auto
  next
    case (Inr body)
    have s: "\<And>d'. list_all neutral d' \<Longrightarrow> Q (Inl (Some (ContinueAsNew (NextPilot
        (i\<lparr>pi_tokens := pi_tokens i + ps_tokens p, pi_chain_summary := body\<rparr>))))) v (l @ d')"
      by (rule assms) auto
    show ?thesis
      using Inr s [of d] s 1(1)
      by (auto simp: wp_rules send_def)
  qed
qed

lemma pilot_work_spec:
  assumes l: "list_all neutral l"
  shows "vwp (pilot_work env i) (pilot_post i v) v l"
  unfolding pilot_work_def vwp_then vwp_vtry
proof (rule vwp_mono [OF run_pilot_once_spec], goal_cases)
  case (1 r v1 l1)
  then obtain d w where l1: "l1 = l @ d @ w" and d: "list_all idles d" and w: "list_all works w"
    and p: "once_post i r w" and v1: "same_run v v1"
    unfolding once_run_def by blast
  have ld: "filter works (l @ d) = []" "spent (l @ d) = 0" "\<not> completed (l @ d)"
    using idles_facts [of "l @ d"] d l list_all_idles by auto
  have f: "filter works (l1 @ e) = w \<and> spent (l1 @ e) = spent w \<and> (completed (l1 @ e) \<longleftrightarrow> completed w)"
    if "list_all neutral e" for e
    using that ld works_filter [OF w] idles_facts [OF list_all_idles [OF that]] unfolding l1 by auto
  show ?case
  proof (cases r)
    case (Inl e)
    have "w = [] \<or> cut_short i w" "\<And>x. e = Some x \<Longrightarrow> \<not> is_continue_as_new x"
      using p Inl by (auto simp: once_post_def)
    then show ?thesis
      using Inl f [of "[]"] v1 cut_short_not_completed [of i w]
      by (auto simp: book_pass_def wp_rules pilot_post_def orderly_def same_run_def completed_def)
  next
    case (Inr ps)
    have done_so: "orderly i (l1 @ e) \<and> ps_tokens ps = (if completed (l1 @ e) then spent (l1 @ e) else 0) \<and>
        (ps_addressed ps \<longrightarrow> completed (l1 @ e))"
      if "list_all neutral e" for e
    proof (cases "ps_addressed ps")
      case True
      then have w': "addressed_all i (ps_tokens ps) w" using p Inr by (simp add: once_post_def)
      have c: "completed w" "spent w = ps_tokens ps" using addressed_completed [OF w'] by simp_all
      show ?thesis using f [OF that] w' c unfolding orderly_def by metis
    next
      case False
      then have w': "w = []" "ps_tokens ps = 0" using p Inr by (simp_all add: once_post_def)
      have "\<not> completed w" using w' by (simp add: completed_def)
      then show ?thesis using f [OF that] w' False unfolding orderly_def by metis
    qed
    have q: "pilot_post i v r2 v2 (l1 @ e)"
      if "list_all neutral e" "same_run v1 v2" "pv_tokens (va_rec v2) = ps_tokens ps"
        "\<And>x. r2 = Inl (Some x) \<Longrightarrow> is_continue_as_new x \<Longrightarrow> pi_chain i \<and> ps_addressed ps \<and>
          (\<exists>s. x = ContinueAsNew (NextPilot (i\<lparr>pi_tokens := pi_tokens i + ps_tokens ps, pi_chain_summary := s\<rparr>)))"
      for r2 v2 e
      using that done_so [OF that(1)] v1 unfolding pilot_post_def
      by (metis same_run_trans)
    show ?thesis
      using Inr
      by (auto simp: book_pass_def wp_rules same_run_def intro!: pilot_end_wp pilot_chain_wp q)
  qed
qed


lemma start_pilot_wp:
  assumes "\<And>e d. list_all neutral d \<Longrightarrow> \<not> is_continue_as_new e \<Longrightarrow> Q (Inl e) (l @ d)"
    and "\<And>st d. list_all neutral d \<Longrightarrow> pv_tokens st = 0 \<Longrightarrow>
      (en_recording env \<Longrightarrow> pv_run st = wi_run_id (en_info env)) \<Longrightarrow> Q (Inr st) (l @ d)"
  shows "wp (start_pilot_state env i) Q l"
proof -
  have "wp (start_pilot_state env i) (\<lambda>r l'. case r of Inl e \<Rightarrow> True
      | Inr st \<Rightarrow> pv_tokens st = 0 \<and> (en_recording env \<longrightarrow> pv_run st = wi_run_id (en_info env))) l"
    by (simp add: start_pilot_state_def Let_def wp_rules save_row_def no_pilot_state_def
        identity_of_def probe_def probe_place_def split: sum.split)
  moreover have "wp (start_pilot_state env i) (\<lambda>r l'. (\<exists>d. l' = l @ d \<and> list_all neutral d) \<and>
      (\<forall>e. r = Inl e \<longrightarrow> \<not> is_continue_as_new e)) l"
    by (rule quiet_wp) auto
  ultimately show ?thesis
    using assms by (auto simp: wp_run split: sum.splits)
qed

abbreviation fresh_pilot :: "pilot_state run_vars" where
  "fresh_pilot \<equiv> \<lparr>va_started = False, va_rec = no_pilot_state, va_agent_ran = False\<rparr>"

definition pilot_resolved :: "flow_env \<Rightarrow> pilot_input \<Rightarrow> pilot_input \<Rightarrow> bool" where
  "pilot_resolved env i j =
     (\<exists>ins sets. j = i\<lparr>pi_instructions := ins, pi_settings := sets\<rparr> \<and>
        (en_instructing env \<and> pi_instructions i \<noteq> [] \<longrightarrow> ins = pi_instructions i) \<and>
        (en_setting env \<and> pi_settings i \<noteq> [] \<longrightarrow> sets = pi_settings i))"

definition pilot_body_post ::
  "flow_env \<Rightarrow> pilot_input \<Rightarrow> flow_error option + string \<Rightarrow> pilot_state run_vars \<Rightarrow> flow_ev list \<Rightarrow> bool" where
  "pilot_body_post env i r v' l' =
     ((if va_started v' then
         pv_tokens (va_rec v') = (if completed l' then spent l' else 0) \<and>
         (en_recording env \<longrightarrow> pv_run (va_rec v') = wi_run_id (en_info env))
       else list_all neutral l' \<and> (\<exists>x. r = Inl (Some x))) \<and>
      (\<exists>j. pilot_resolved env i j \<and> orderly j l' \<and>
        (\<forall>x. r = Inl (Some x) \<longrightarrow> is_continue_as_new x \<longrightarrow> pi_chain i \<and> completed l' \<and>
          (\<exists>s. x = ContinueAsNew (NextPilot
            (j\<lparr>pi_tokens := pi_tokens i + spent l', pi_chain_summary := s\<rparr>))))))"

lemma pilot_resolved_refl: "pilot_resolved env i i"
  unfolding pilot_resolved_def by (intro exI [of _ "pi_instructions i"] exI [of _ "pi_settings i"]) simp

lemma early_failure:
  assumes "list_all neutral l" "\<not> is_continue_as_new e"
    "va_started v \<Longrightarrow> pv_tokens (va_rec v) = 0 \<and>
      (en_recording env \<longrightarrow> pv_run (va_rec v) = wi_run_id (en_info env))"
  shows "pilot_body_post env i (Inl (Some e)) v l"
  using assms pilot_resolved_refl [of env i] idles_facts [OF list_all_idles [OF assms(1)]]
  by (auto simp: pilot_body_post_def orderly_def)

lemma pilot_body_spec: "vwp (pilot_body env i) (pilot_body_post env i) fresh_pilot []"
  unfolding pilot_body_def
proof (simp only: vwp_then vwp_do pdo_def wp_on_error, rule start_pilot_wp, goal_cases)
  case (1 e d)
  then show ?case by (auto intro: early_failure)
next
  case (2 st d1)
  note st = 2
  show ?case
  proof (simp add: wp_rules, rule ensure_instructions_wp, goal_cases)
    case (1 e d2)
    then show ?case using st by (auto intro!: early_failure)
  next
    case (2 ins d2)
    note ins = 2
    let ?v = "\<lparr>va_started = True, va_rec = st\<lparr>pv_instructions := ins\<rparr>, va_agent_ran = False\<rparr>"
    show ?case
    proof (simp add: wp_rules, rule ensure_settings_wp, goal_cases)
      case (1 e d3)
      then show ?case using st ins by (auto intro!: early_failure)
    next
      case (2 sets d3)
      let ?j = "i\<lparr>pi_instructions := ins, pi_settings := sets\<rparr>" and ?l = "d1 @ d2 @ d3"
      have l: "list_all neutral ?l" using st ins 2 by simp
      have j: "pilot_resolved env i ?j"
        unfolding pilot_resolved_def using ins(2) 2(2) by blast
      have "vwp (pilot_work env ?j) (pilot_body_post env i) ?v ?l"
      proof (rule vwp_mono [OF pilot_work_spec [OF l]], goal_cases)
        case (1 r v' l')
        then show ?case
          using j st unfolding pilot_post_def pilot_body_post_def same_run_def
          by (auto intro!: exI [of _ ?j])
      qed
      then show ?case by simp
    qed
  qed
qed

lemma quiet_pilot_deferred: "quiet (pilot_deferred env i r v)"
  unfolding pilot_deferred_def by (auto intro!: emits_andthen simp: Let_def split: sum.split)

definition pilot_err :: "flow_error option + string \<Rightarrow> flow_error option" where
  "pilot_err r = (case r of Inl e \<Rightarrow> e | Inr _ \<Rightarrow> None)"

lemma pilot_run:
  assumes "pilot_workflow env i [] = (r, l')"
  obtains v d e where "pilot_body_post env i r v d" "l' = d @ e" "list_all neutral e"
    and "en_recording env \<Longrightarrow> r \<noteq> Inl None \<Longrightarrow> va_started v \<Longrightarrow>
      \<exists>now a rest. e = EvSave (pilot_row (finished_pilot env (va_rec v) (pilot_err r) now)) a # rest \<and>
        list_all announces rest"
proof -
  obtain v d where b: "pilot_body env i fresh_pilot [] = (r, v, d)"
      and l': "l' = snd (pilot_deferred env i r v d)"
    using assms by (auto simp: pilot_workflow_def with_vars_def split: prod.splits)
  have p: "pilot_body_post env i r v d" using pilot_body_spec [of env i] b by (simp add: vwp_def)
  obtain e where e: "l' = d @ e" "list_all neutral e"
    using emits_run [OF quiet_pilot_deferred, of env i r v d] l' by auto
  show thesis
  proof (rule that [OF p e])
    assume rec: "en_recording env" and s: "va_started v" and r: "r \<noteq> Inl None"
    obtain now a rest where
        "snd (andthen (settle env ''pilot pass'' ''record the pilot pass's terminal state: ''
            (\<lambda>now. pilot_row (finished_pilot env (va_rec v) (pilot_err r) now))
            (case r of Inl _ \<Rightarrow> [] | Inr summary \<Rightarrow> summary) (pilot_err r))
          (\<lambda>_. notify_run_failure env ''Copilot review chain failed'' (pi_work_dir i) (pi_summary i)
            (va_agent_ran v) (pilot_err r)) d) =
          d @ EvSave (pilot_row (finished_pilot env (va_rec v) (pilot_err r) now)) a # rest"
        "list_all announces rest"
      using settled_run [OF rec, of "''pilot pass''"] by blast
    with l' s r e(1)
    show "\<exists>now a rest. e = EvSave (pilot_row (finished_pilot env (va_rec v) (pilot_err r) now)) a # rest \<and>
        list_all announces rest" by (auto simp: pilot_deferred_def pilot_err_def Let_def)
  qed
qed

section \<open>Two passes, run\<close>

definition demo_thread :: review_thread where
  "demo_thread = \<lparr>th_id = ''t'', th_path = ''f.go'', th_line = 3, th_author = [], th_body = ''rename this''\<rparr>"

definition demo_pass :: pilot_input where
  "demo_pass = \<lparr>pi_initiator = [], pi_work_dir = ''d'', pi_mode = PromptDefault,
     pi_text = [], pi_chain = True, pi_tokens = 5, pi_summary = False, pi_chain_summary = [],
     pi_instructions = [], pi_settings = []\<rparr>"

text \<open>One comment to address, with commits to show for it; and the same with a push that fails.\<close>

definition pilot_env :: flow_env where
  "pilot_env = demo_env\<lparr>en_load_comments := (\<lambda>_ _. Inr [demo_thread]), en_head_advanced := (\<lambda>_ _ _. Inr [''c''])\<rparr>"

definition no_push_env :: flow_env where
  "no_push_env = pilot_env\<lparr>en_push := (\<lambda>_ _ _. Inl (CallOther ''rejected''))\<rparr>"

lemma demo_poll: "en_check_review env = (\<lambda>_ _. Inr False) \<Longrightarrow>
   poll_review env pr l = Some (Inr (), l @ [EvCheckReview pr (Inr False)])"
  by (subst poll_review.simps) (simp add: Let_def)

lemmas pilot_defs =
  pilot_workflow_def pilot_body_def pilot_work_def run_pilot_once_def address_def pilot_guided_def
  book_pass_def pilot_chain_def pilot_end_def pdo_def vtry_def poll_def start_pilot_state_def probe_off
  save_row_def ensure_run_instructions_def ensure_instructions_def ensure_run_settings_def
  ensure_settings_def

lemmas pilot_envs = no_push_env_def pilot_env_def demo_env_def demo_pass_def

lemma demo_pass_continues:
  "fst (pilot_workflow pilot_env demo_pass []) =
     Inl (Some (ContinueAsNew (NextPilot (demo_pass\<lparr>pi_tokens := 15, pi_chain_summary := []\<rparr>))))"
  by (simp add: pilot_defs body_run pilot_envs demo_poll Let_def steered_def summarize_for_webhook_def
      notify_best_effort_def send_def)

lemma no_push_fails:
  "fst (pilot_workflow no_push_env demo_pass []) = Inl (Some (fault (CallOther ''rejected'')))"
  by (simp add: pilot_defs body_run pilot_envs demo_poll Let_def steered_def)

lemma no_push_log:
  "spent (snd (pilot_workflow no_push_env demo_pass [])) = 10 \<and>
   \<not> completed (snd (pilot_workflow no_push_env demo_pass []))"
  by (simp add: pilot_defs body_run pilot_envs demo_poll Let_def steered_def pilot_deferred_def settle_def
      notify_run_failure_def notify_failure_with_def notify_best_effort_def send_def
      summarize_for_webhook_def completed_def fault.simps)

section \<open>Properties\<close>

text \<open>
  C27: A pass does its work in one order or not at all.  Whatever the answers, a run either
  touches neither the working tree nor the pull request; or marks the head, runs the agent,
  proves that commits were made, pushes them, answers and resolves every thread with those
  commits and requests a fresh review, in this order, each once, then gives back a stash it
  took; or stops at the first of these steps that fails.
\<close>

theorem pilot_work_is_ordered:
  "\<exists>j. pilot_resolved env i j \<and> orderly j (snd (pilot_workflow env i []))"
proof -
  obtain v d e where p: "pilot_body_post env i (fst (pilot_workflow env i [])) v d"
      "snd (pilot_workflow env i []) = d @ e" "list_all neutral e"
    using pilot_run [OF prod.collapse [symmetric]] by blast
  then have "filter works (d @ e) = filter works d \<and> spent (d @ e) = spent d \<and> completed (d @ e) = completed d"
    using idles_facts [OF list_all_idles [OF p(3)]] by simp
  with p show ?thesis by (auto simp: pilot_body_post_def orderly_def)
qed

text \<open>
  The pilot chain goes on only after a pass that addressed comments: the next run is asked
  for under a chain, after a fresh review was requested, and is handed the resolved input with
  exactly the tokens this pass's agent reported added to the running total.
\<close>

theorem pilot_chain_carries_on:
  assumes "pilot_workflow env i [] = (Inl (Some x), l')" "is_continue_as_new x"
  shows "pi_chain i \<and> completed l' \<and> (\<exists>j s. pilot_resolved env i j \<and>
    x = ContinueAsNew (NextPilot (j\<lparr>pi_tokens := pi_tokens i + spent l', pi_chain_summary := s\<rparr>)))"
proof -
  obtain v d e where p: "pilot_body_post env i (Inl (Some x)) v d" "l' = d @ e" "list_all neutral e"
    using pilot_run [OF assms(1)] by blast
  moreover have "spent l' = spent d" "completed l' = completed d"
    using idles_facts [OF list_all_idles [OF p(3)]] p(2) by simp_all
  ultimately show ?thesis using assms(2) unfolding pilot_body_post_def by metis
qed

theorem pilot_chain_carries_on_witness:
  "\<exists>l'. pilot_workflow pilot_env demo_pass [] = (Inl (Some (ContinueAsNew (NextPilot
     (demo_pass\<lparr>pi_tokens := 15, pi_chain_summary := []\<rparr>)))), l') \<and> completed l'"
proof -
  obtain l' where r: "pilot_workflow pilot_env demo_pass [] = (Inl (Some (ContinueAsNew (NextPilot
     (demo_pass\<lparr>pi_tokens := 15, pi_chain_summary := []\<rparr>)))), l')"
    using demo_pass_continues by (metis prod.collapse)
  from pilot_chain_carries_on [OF this] r show ?thesis by simp
qed

text \<open>
  Every recorded pass that returns is settled.  Unless it failed before anything but
  recording and probing happened, its last write carries its run, its true status and no wait,
  and its tokens are those its agent reported if the pass got as far as requesting a fresh
  review, and 0 otherwise, even when an agent ran and reported tokens before the failure.
\<close>

theorem pilot_pass_is_settled:
  assumes "pilot_workflow env i [] = (r, l')" "en_recording env" "r \<noteq> Inl None"
  shows "(\<not> is_ok r \<and> list_all neutral l') \<or>
    (\<exists>d row a rest. l' = d @ EvSave row a # rest \<and> list_all announces rest \<and>
       ex_run row = wi_run_id (en_info env) \<and> ex_status row = status_of (pilot_err r) \<and>
       ex_tokens row = (if completed l' then spent l' else 0) \<and> ed_waiting_since (ex_detail row) = None)"
proof -
  obtain v d e where p: "pilot_body_post env i r v d" "l' = d @ e" "list_all neutral e"
    and s: "va_started v \<Longrightarrow>
      \<exists>now a rest. e = EvSave (pilot_row (finished_pilot env (va_rec v) (pilot_err r) now)) a # rest \<and>
        list_all announces rest"
    using pilot_run [OF assms(1)] assms(2,3) by metis
  show ?thesis
  proof (cases "va_started v")
    case False
    with p show ?thesis by (auto simp: pilot_body_post_def)
  next
    case True
    with s obtain now a rest where e: "list_all announces rest"
        "e = EvSave (pilot_row (finished_pilot env (va_rec v) (pilot_err r) now)) a # rest" by blast
    have "pv_tokens (va_rec v) = (if completed d then spent d else 0)"
        "pv_run (va_rec v) = wi_run_id (en_info env)"
      using p(1) True assms(2) by (simp_all add: pilot_body_post_def)
    moreover have "spent l' = spent d" "completed l' = completed d"
      using idles_facts [OF list_all_idles [OF p(3)]] p(2) by simp_all
    ultimately show ?thesis
      using e p(2)
      by (intro disjI2 exI [of _ d] exI [of _ "pilot_row (finished_pilot env (va_rec v) (pilot_err r) now)"]
          exI [of _ a] exI [of _ rest])
        (simp add: pilot_row_def finished_pilot_def waiting_since_def no_detail_def)
  qed
qed

theorem pilot_pass_is_settled_witness:
  "\<exists>l' d row a rest. pilot_workflow no_push_env demo_pass [] = (Inl (Some (fault (CallOther ''rejected''))), l') \<and>
     l' = d @ EvSave row a # rest \<and> ex_status row = FailedStatus \<and> ex_tokens row = 0 \<and> spent l' = 10"
proof -
  obtain l' where r: "pilot_workflow no_push_env demo_pass [] = (Inl (Some (fault (CallOther ''rejected''))), l')"
    using no_push_fails by (metis prod.collapse)
  have s: "spent l' = 10" "\<not> completed l'" using no_push_log r by simp_all
  have "en_recording no_push_env" by (simp add: pilot_envs)
  from pilot_pass_is_settled [OF r this] s
  have "list_all neutral l' \<or> (\<exists>d row a rest. l' = d @ EvSave row a # rest \<and>
      ex_status row = status_of (pilot_err (Inl (Some (fault (CallOther ''rejected''))))) \<and> ex_tokens row = 0)"
    by auto
  then show ?thesis using s r by (auto simp: pilot_err_def status_of_def)
qed

definition checks :: "flow_ev \<Rightarrow> bool" where
  "checks e = (\<exists>pr a. e = EvCheckReview pr a)"

text \<open>
  Polling ends.  If from some number of checks on the pull request reports no review under
  way, the pass stops polling, whatever else it is told.
\<close>

theorem polling_ends:
  assumes "\<And>l. n \<le> length (filter checks l) \<Longrightarrow> en_check_review env pr l \<noteq> Inr True"
  shows "\<exists>res. poll_review env pr l = Some res"
proof (induction "n - length (filter checks l)" arbitrary: l rule: less_induct)
  case less
  show ?case
  proof (cases "en_check_review env pr l")
    case (Inl e)
    then show ?thesis by (subst poll_review.simps) (simp add: Let_def)
  next
    case (Inr ongoing)
    let ?l1 = "l @ [EvCheckReview pr (Inr ongoing)]"
    let ?l2 = "?l1 @ [EvSleep (en_sleep env ?l1)]"
    have "\<exists>res. poll_review env pr ?l2 = Some res" if "ongoing"
    proof (rule less)
      have "length (filter checks l) < n" using assms [of l] Inr that by force
      then show "n - length (filter checks ?l2) < n - length (filter checks l)"
        by (simp add: checks_def)
    qed
    then show ?thesis
      using Inr by (subst poll_review.simps) (auto simp: Let_def split: sum.split)
  qed
qed

theorem polling_ends_witness:
  "\<exists>res. poll_review (demo_env\<lparr>en_check_review := (\<lambda>_ l. Inr (length (filter checks l) < 3))\<rparr>) demo_pr [] = Some res"
  by (rule polling_ends [of 3]) simp

end
