(* ===== verification/Develop_Flow.thy ===== *)
theory Develop_Flow
  imports Review_Loop
begin

text \<open>
  \<open>DevelopWorkflow\<close>, \<open>seedBranches\<close>, \<open>developAndAwaitReview\<close> and \<open>developWithRemote\<close> of
  \<open>internal/codereview/workflow.go\<close>: a branch is created, seeded with the branches it depends on,
  developed by the agent and checked, and then reviewed, in one of three ways.

  The children's workflows are calls of the environment here; \<open>EvReviewChild\<close> is a review that is
  waited for, \<open>EvReviewStarted\<close> one that is left to itself.
\<close>

section \<open>Definitions\<close>

definition seed_conflict_blocked :: string where
  "seed_conflict_blocked = ''SeedConflictBlocked''"

definition review_not_converged :: string where
  "review_not_converged = ''ReviewNotConverged''"

text \<open>The variables the deferred functions read: \<open>rec\<close>, \<open>agentRan\<close>, \<open>failureNotified\<close>, \<open>in.WorkDir\<close>.\<close>

record develop_vars =
  de_started :: bool
  de_rec :: develop_state
  de_agent_ran :: bool
  de_notified :: bool
  de_work_dir :: string

type_synonym 'a develop_step = "(flow_ev, develop_vars, flow_error, 'a) body"

text \<open>The post-seed head and the tokens spent on conflicts, from those so far.\<close>

fun seed_branches :: "flow_env \<Rightarrow> string \<Rightarrow> string list \<Rightarrow> string \<Rightarrow> int \<Rightarrow> (string \<times> int) step" where
  "seed_branches env dir [] head tokens = ret (head, tokens)"
| "seed_branches env dir (b # bs) head tokens =
     andthen (call (en_merge env dir b) (EvMerge dir b)) (\<lambda>mr.
     if \<not> mg_conflicted mr then seed_branches env dir bs (mg_head mr) tokens
     else andthen (attempt (call (en_resolve_merge env dir b) (EvResolveMerge dir b) :: resolve_result step))
       (\<lambda>r. case r of
          Inl _ \<Rightarrow>
            andthen (on_error
                (Wrapped (''abort merge of dependency branch '' @ quoted b @
                  '' after failed conflict resolution: ''))
                (call (en_abort_merge env dir) (EvAbortMerge dir))) (\<lambda>_.
              fail (AppErr seed_conflict_blocked
                (''cannot resolve conflict merging dependency branch '' @ quoted b)))
        | Inr rr \<Rightarrow> seed_branches env dir bs (rs_head rr) (tokens + rs_tokens rr)))"

definition seed :: "flow_env \<Rightarrow> develop_input \<Rightarrow> string \<Rightarrow> (string \<times> int) develop_step" where
  "seed env i base =
     (if di_merge_branches i = [] then vret (base, 0)
      else vthen (vdo (attempt (seed_branches env (di_work_dir i) (di_merge_branches i) [] 0))) (\<lambda>r.
        case r of
          Inl e \<Rightarrow>
            vthen (if app_type e = Some seed_conflict_blocked then
                     vthen (vset (\<lambda>v. v\<lparr>de_notified := True\<rparr>)) (\<lambda>_.
                       vdo (notify_best_effort (send env)
                         (plain_notice ''Node blocked: unresolved seed conflict''
                           (''Could not merge a dependency branch into '' @ di_branch i @
                            '' and the conflict could not be resolved automatically. The branch was left clean (no conflict markers); a later sync may succeed once the conflicting branches move.''))))
                   else vret ())
              (\<lambda>_. vfail e)
        | Inr seeded \<Rightarrow> vret seeded))"

definition review_request :: "develop_input \<Rightarrow> bool \<Rightarrow> int \<Rightarrow> review_input" where
  "review_request i detached tokens =
     \<lparr>ri_initiator = di_initiator i, ri_detached = detached, ri_work_dir = di_work_dir i,
      ri_payload = [], ri_resets = 0, ri_pass = 0, ri_tokens = tokens, ri_summary = di_summary i,
      ri_instructions = [], ri_settings = di_settings i\<rparr>"

definition child_id :: "string \<Rightarrow> flow_env \<Rightarrow> string" where
  "child_id prefix env = prefix @ wi_workflow_id (en_info env)"

definition developed_text :: "develop_input \<Rightarrow> string list \<Rightarrow> string" where
  "developed_text i commits =
     ''Developed branch '' @ di_branch i @ '' with '' @ itoa (int (length commits)) @ '' commit(s)''"

definition webhook_notice :: "string \<Rightarrow> string \<Rightarrow> string \<Rightarrow> notice" where
  "webhook_notice title body hook = (plain_notice title body)\<lparr>nt_webhook_body := hook\<rparr>"

definition develop_and_await_review ::
  "flow_env \<Rightarrow> develop_input \<Rightarrow> string list \<Rightarrow> int \<Rightarrow> string \<Rightarrow> string step" where
  "develop_and_await_review env i commits tokens hook =
     (let rid = child_id ''review-'' env; ri = review_request i False tokens in
      andthen (on_error (Wrapped ''review workflow: '')
          (call (en_review_child env rid ri) (EvReviewChild rid ri))) (\<lambda>oc.
      if \<not> ro_converged oc then
        fail (AppErr review_not_converged
          (''local review did not converge for branch '' @ di_branch i @ '': '' @ ro_summary oc))
      else
        andthen (notify_best_effort (send env)
            (webhook_notice ''Development and review complete''
              (developed_text i commits @ ''; the local review loop has converged.'') hook)) (\<lambda>_.
        ret (with_develop_step_tokens
          (developed_text i commits @ ''; local review converged.'') tokens))))"

definition pilot_request :: "develop_input \<Rightarrow> pilot_input" where
  "pilot_request i =
     \<lparr>pi_initiator = di_initiator i, pi_work_dir = di_work_dir i, pi_mode = PromptDefault,
      pi_text = [], pi_chain = True, pi_tokens = 0, pi_summary = di_summary i,
      pi_chain_summary = [], pi_instructions = [], pi_settings = di_settings i\<rparr>"

text \<open>The pull request's URL is set once it is known and kept by later failures.\<close>

definition develop_with_remote ::
  "flow_env \<Rightarrow> develop_input \<Rightarrow> string list \<Rightarrow> int \<Rightarrow> string \<Rightarrow> string develop_step" where
  "develop_with_remote env i commits tokens hook =
     (let rid = child_id ''review-'' env; ri = review_request i False tokens;
          oid = child_id ''open-pr-'' env; pid = child_id ''pilot-'' env; pin = pilot_request i
      in
      vthen (vdo (notify_best_effort (send env)
          (webhook_notice ''Development complete''
            (developed_text i commits @ '' successfully. The review, pull request, and Copilot pilot stages will now commence.'')
            hook))) (\<lambda>_.
      vthen (vdo (on_error (Wrapped ''review workflow: '')
          (call (en_review_child env rid ri) (EvReviewChild rid ri)))) (\<lambda>_.
      vthen (vdo (on_error (Wrapped ''open PR workflow: '')
          (call (en_open_pr_child env oid (di_work_dir i)) (EvOpenPRChild oid (di_work_dir i))))) (\<lambda>opened.
      let url = (if en_version_open_pr env then op_url opened else []) in
      vthen (vset (\<lambda>v. v\<lparr>de_rec := (de_rec v)\<lparr>dv_pr_url := url\<rparr>\<rparr>)) (\<lambda>_.
      vthen (vdo (on_error (Wrapped ''pilot workflow: '')
          (call (en_pilot_child env pid pin) (EvPilotChild pid pin)))) (\<lambda>_.
      vthen (vdo (notify_best_effort (send env)
          (plain_notice ''Remote pipeline complete''
            (developed_text i commits @ ''; the review, pull request, and Copilot pilot stages have all completed.''))))
        (\<lambda>_.
      vret (with_develop_step_tokens
        (developed_text i commits @ ''; ran the review loop, '' @
         (if url = [] then ''opened the PR'' else ''opened the PR ('' @ url @ '')'') @
         '', and completed the Copilot pilot loop.'') tokens))))))))"

text \<open>\<open>developWithRemote\<close> announces its own failure on the way out, as it was when it returned.\<close>

definition supervising :: "flow_env \<Rightarrow> string \<Rightarrow> string develop_step \<Rightarrow> string develop_step" where
  "supervising env dir m v l =
     (case m v l of (r, v', l') \<Rightarrow>
        (r, v', snd ((notify_run_failure env ''Remote pipeline failed'' dir False False (err_of r) :: unit step) l')))"

definition develop_detached ::
  "flow_env \<Rightarrow> develop_input \<Rightarrow> string list \<Rightarrow> int \<Rightarrow> string \<Rightarrow> string step" where
  "develop_detached env i commits tokens hook =
     (let rid = child_id ''review-'' env; ri = review_request i (en_version_detached env) tokens in
      andthen (on_error (Wrapped ''start review workflow: '')
          (call (en_review_started env rid ri) (EvReviewStarted rid ri))) (\<lambda>_.
      andthen (notify_best_effort (send env)
          (webhook_notice ''Development complete''
            (developed_text i commits @ '' successfully. The review cycle will now commence.'') hook)) (\<lambda>_.
      ret (with_token_total (developed_text i commits @ ''; started review '' @ rid @ ''.'') tokens))))"

definition develop_tail ::
  "flow_env \<Rightarrow> develop_input \<Rightarrow> string list \<Rightarrow> int \<Rightarrow> string \<Rightarrow> string develop_step" where
  "develop_tail env i commits tokens hook =
     (if di_with_remote i then
        vthen (vset (\<lambda>v. v\<lparr>de_notified := True\<rparr>)) (\<lambda>_.
          supervising env (di_work_dir i) (develop_with_remote env i commits tokens hook))
      else if di_await_review i then
        vthen (vset (\<lambda>v. v\<lparr>de_notified := True\<rparr>)) (\<lambda>_.
          vdo (develop_and_await_review env i commits tokens hook))
      else vdo (develop_detached env i commits tokens hook))"

text \<open>From the created branch on, with the branch and the directory it was created with.\<close>

definition develop_on :: "flow_env \<Rightarrow> develop_input \<Rightarrow> string \<Rightarrow> string develop_step" where
  "develop_on env i base =
     vthen (seed env i base) (\<lambda>(head, seed_tokens).
     vthen (vdo (call (en_develop env (di_work_dir i) (di_prompt i)) (EvDevelop (di_work_dir i) (di_prompt i))))
       (\<lambda>agent.
     let tokens = ag_tokens agent + seed_tokens in
     vthen (vset (\<lambda>v. v\<lparr>de_rec := (de_rec v)\<lparr>dv_tokens := tokens\<rparr>, de_agent_ran := True\<rparr>)) (\<lambda>_.
     vthen (vdo (call (en_ensure_developed env (di_work_dir i) head) (EvEnsureDeveloped (di_work_dir i) head)))
       (\<lambda>commits.
     vthen (vdo (summarize_for_webhook env (di_summary i) True (di_work_dir i))) (\<lambda>hook.
     develop_tail env i commits tokens hook)))))"

definition branch_request :: "develop_input \<Rightarrow> create_branch_request" where
  "branch_request i =
     \<lparr>cb_work_dir = di_work_dir i, cb_branch = di_branch i, cb_worktrees_dir = di_worktrees_dir i,
      cb_start_point = di_start_point i\<rparr>"

definition develop_body :: "flow_env \<Rightarrow> develop_input \<Rightarrow> string develop_step" where
  "develop_body env i =
     vthen (vdo (start_develop_state env i)) (\<lambda>st.
     vthen (vset (\<lambda>v. v\<lparr>de_started := True, de_rec := st\<rparr>)) (\<lambda>_.
     vthen (vdo (call (en_create_branch env (branch_request i)) (EvCreateBranch (branch_request i)))) (\<lambda>created.
     vthen (vset (\<lambda>v. v\<lparr>de_rec := (de_rec v)\<lparr>dv_branch := br_branch created\<rparr>,
                        de_work_dir := br_work_dir created\<rparr>)) (\<lambda>_.
     vthen vget (\<lambda>v.
     vthen (vdo (record_develop_place env (de_rec v) (br_work_dir created))) (\<lambda>st'.
     vthen (vset (\<lambda>v. v\<lparr>de_rec := st'\<rparr>)) (\<lambda>_.
     develop_on env (i\<lparr>di_branch := br_branch created, di_work_dir := br_work_dir created\<rparr>)
       (br_base created))))))))"

definition develop_deferred ::
  "flow_env \<Rightarrow> develop_input \<Rightarrow> flow_error + string \<Rightarrow> develop_vars \<Rightarrow> unit step" where
  "develop_deferred env i r v =
     andthen
       (if de_started v then
          settle env ''develop run'' ''record the develop run's terminal state: ''
            (\<lambda>now. develop_row (finished_develop env (de_rec v) (err_of r) now))
            (case r of Inl _ \<Rightarrow> [] | Inr summary \<Rightarrow> summary) (err_of r)
        else ret ())
       (\<lambda>_. if de_notified v then ret ()
            else notify_run_failure env ''Development failed'' (de_work_dir v) (di_summary i)
              (de_agent_ran v) (err_of r))"

definition develop_workflow :: "flow_env \<Rightarrow> develop_input \<Rightarrow> string step" where
  "develop_workflow env i =
     with_vars \<lparr>de_started = False, de_rec = no_develop_state, de_agent_ran = False,
                de_notified = False, de_work_dir = di_work_dir i\<rparr>
       (develop_body env i) (develop_deferred env i)"

section \<open>What a run did\<close>

text \<open>An event whose call failed with an application error of type \<open>t\<close>.\<close>

definition typed_as :: "string \<Rightarrow> 'a outcome \<Rightarrow> bool" where
  "typed_as t r = (case r of Inl (CallApp u m) \<Rightarrow> u = t | _ \<Rightarrow> False)"

lemma typed_as_simps [simp]:
  "typed_as t (Inl e) = (\<exists>m. e = CallApp t m)" "typed_as t (Inr x) = False"
  by (auto simp: typed_as_def split: call_error.split)

fun raises :: "string \<Rightarrow> flow_ev \<Rightarrow> bool" where
  "raises t (EvProbe a r) = typed_as t r"
| "raises t (EvSave b r) = typed_as t r"
| "raises t (EvResolveInstructions c r) = typed_as t r"
| "raises t (EvResolveSettings c r) = typed_as t r"
| "raises t (EvNotify d r) = typed_as t r"
| "raises t (EvSummarize a r) = typed_as t r"
| "raises t (EvOpenSession f r) = typed_as t r"
| "raises t (EvSession a g r) = typed_as t r"
| "raises t (EvDeterminePR h r) = typed_as t r"
| "raises t (EvCheckReview j r) = typed_as t r"
| "raises t (EvSleep r) = typed_as t r"
| "raises t (EvLoadComments j r) = typed_as t r"
| "raises t (EvMark a r) = typed_as t r"
| "raises t (EvRunAgent h j k a r) = typed_as t r"
| "raises t (EvImplement a1 a2 m a3 r) = typed_as t r"
| "raises t (EvReview a m r) = typed_as t r"
| "raises t (EvHeadAdvanced a n r) = typed_as t r"
| "raises t (EvPush a1 a2 r) = typed_as t r"
| "raises t (EvReply j k p r) = typed_as t r"
| "raises t (EvRequestReview j r) = typed_as t r"
| "raises t (EvRestore a r) = typed_as t r"
| "raises t (EvOpenPR a r) = typed_as t r"
| "raises t (EvCreateBranch q r) = typed_as t r"
| "raises t (EvMerge a1 a2 r) = typed_as t r"
| "raises t (EvResolveMerge a1 a2 r) = typed_as t r"
| "raises t (EvAbortMerge a r) = typed_as t r"
| "raises t (EvDevelop a1 a2 r) = typed_as t r"
| "raises t (EvEnsureDeveloped a1 a2 r) = typed_as t r"
| "raises t (EvReviewChild a s r) = typed_as t r"
| "raises t (EvReviewStarted a s r) = typed_as t r"
| "raises t (EvOpenPRChild a1 a2 r) = typed_as t r"
| "raises t (EvPilotChild a h r) = typed_as t r"

fun milestone :: "flow_ev \<Rightarrow> bool" where
  "milestone (EvCreateBranch a r) = True"
| "milestone (EvMerge a b r) = True"
| "milestone (EvResolveMerge a b r) = True"
| "milestone (EvAbortMerge a r) = True"
| "milestone (EvDevelop a b r) = True"
| "milestone (EvEnsureDeveloped a b r) = True"
| "milestone (EvReviewChild a b r) = True"
| "milestone (EvReviewStarted a b r) = True"
| "milestone (EvOpenPRChild a b r) = True"
| "milestone (EvPilotChild a b r) = True"
| "milestone e = False"

lemma neutral_not_milestone: "neutral e \<Longrightarrow> \<not> milestone e"
  by (cases e) auto

abbreviation steps_of :: "flow_ev list \<Rightarrow> flow_ev list" where
  "steps_of l \<equiv> filter milestone l"

lemma neutral_steps [simp]: "list_all neutral d \<Longrightarrow> steps_of d = []"
  by (induction d) (auto simp: neutral_not_milestone)

text \<open>Every dependency merged, or its conflict resolved, in order.\<close>

inductive seeds :: "string \<Rightarrow> string list \<Rightarrow> string \<Rightarrow> flow_ev list \<Rightarrow> string \<Rightarrow> bool" where
  seeds_done: "seeds dir [] h [] h"
| seeds_clean: "seeds dir bs (mg_head mr) w h' \<Longrightarrow> \<not> mg_conflicted mr \<Longrightarrow>
    seeds dir (b # bs) h (EvMerge dir b (Inr mr) # w) h'"
| seeds_resolved: "seeds dir bs (rs_head rr) w h' \<Longrightarrow> mg_conflicted mr \<Longrightarrow>
    seeds dir (b # bs) h (EvMerge dir b (Inr mr) # EvResolveMerge dir b (Inr rr) # w) h'"

text \<open>A conflict that was given up, with the merge taken back.\<close>

definition gave_up :: "string \<Rightarrow> flow_ev list \<Rightarrow> bool" where
  "gave_up dir w = (\<exists>w0 b e. w = w0 @ [EvResolveMerge dir b (Inl e), EvAbortMerge dir (Inr ())])"

lemma gave_up_Cons: "gave_up dir w \<Longrightarrow> gave_up dir (e # w)"
  unfolding gave_up_def by (metis append_Cons)

fun develops :: "flow_ev \<Rightarrow> bool" where
  "develops (EvDevelop a b (Inr r)) = True"
| "develops e = False"

definition merging :: "flow_ev \<Rightarrow> bool" where
  "merging e = (milestone e \<and> \<not> develops e \<and> (\<forall>a b r. e \<noteq> EvOpenPRChild a b r))"

definition seed_post ::
  "string \<Rightarrow> string list \<Rightarrow> string \<Rightarrow> int \<Rightarrow> flow_error + (string \<times> int) \<Rightarrow> flow_ev list \<Rightarrow> bool" where
  "seed_post dir bs h t r w =
     (case r of
        Inr (h', t') \<Rightarrow> seeds dir bs h w h' \<and> t' = t + spent w
      | Inl e \<Rightarrow> \<not> is_continue_as_new e \<and>
          (\<forall>u. app_type e = Some u \<longrightarrow> (\<exists>x \<in> set w. raises u x) \<or> u = seed_conflict_blocked \<and> gave_up dir w))"

lemma seed_post_failed:
  "(\<And>u m. e = CallApp u m \<Longrightarrow> (\<exists>x \<in> set w. raises u x)) \<Longrightarrow> seed_post dir bs h t (Inl (fault e)) w"
  by (auto simp: seed_post_def)

lemma seed_branches_spec:
  "wp (seed_branches env dir bs h t)
     (\<lambda>r l'. \<exists>w. l' = l @ w \<and> list_all merging w \<and> seed_post dir bs h t r w) l"
proof (induction bs arbitrary: h t l)
  case Nil
  then show ?case by (auto simp: wp_rules seed_post_def intro: seeds_done)
next
  case (Cons b bs)
  let ?P = "\<lambda>h t l r l'. \<exists>w. l' = l @ w \<and> list_all merging w \<and> seed_post dir bs h t r w"
  let ?R = "\<lambda>r l'. \<exists>w. l' = l @ w \<and> list_all merging w \<and> seed_post dir (b # bs) h t r w"
  have clean: "wp (seed_branches env dir bs (mg_head mr) t) ?R (l @ [EvMerge dir b (Inr mr)])"
    if "\<not> mg_conflicted mr" for mr
  proof (rule wp_mono [OF Cons.IH], elim exE conjE)
    fix r l' w
    assume w: "l' = (l @ [EvMerge dir b (Inr mr)]) @ w" "list_all merging w"
      "seed_post dir bs (mg_head mr) t r w"
    have "seed_post dir (b # bs) h t r (EvMerge dir b (Inr mr) # w)"
      using w(3) that by (auto simp: seed_post_def split: sum.splits intro: seeds_clean gave_up_Cons)
    with w show "?R r l'"
      by (intro exI [of _ "EvMerge dir b (Inr mr) # w"]) (simp add: merging_def)
  qed
  have resolved: "wp (seed_branches env dir bs (rs_head rr) (t + rs_tokens rr)) ?R
      (l @ [EvMerge dir b (Inr mr), EvResolveMerge dir b (Inr rr)])"
    if "mg_conflicted mr" for mr rr
  proof (rule wp_mono [OF Cons.IH], elim exE conjE)
    fix r l' w
    assume w: "l' = (l @ [EvMerge dir b (Inr mr), EvResolveMerge dir b (Inr rr)]) @ w" "list_all merging w"
      "seed_post dir bs (rs_head rr) (t + rs_tokens rr) r w"
    let ?w = "EvMerge dir b (Inr mr) # EvResolveMerge dir b (Inr rr) # w"
    have "seed_post dir (b # bs) h t r ?w"
      using w(3) that by (auto simp: seed_post_def split: sum.splits intro: seeds_resolved gave_up_Cons)
    with w show "?R r l'" by (intro exI [of _ ?w]) (simp add: merging_def)
  qed
  note ends = merging_def wp_rules
  show ?case
  proof (cases "en_merge env dir b l")
    case (Inl e)
    then show ?thesis by (auto simp: ends intro!: seed_post_failed)
  next
    case mr: (Inr mr)
    show ?thesis
    proof (cases "mg_conflicted mr")
      case False
      with mr clean show ?thesis by (simp add: wp_rules)
    next
      case True
      let ?l1 = "l @ [EvMerge dir b (Inr mr)]"
      show ?thesis
      proof (cases "en_resolve_merge env dir b ?l1")
        case (Inr rr)
        with mr True resolved show ?thesis by (simp add: wp_rules)
      next
        case e: (Inl e)
        let ?w = "[EvMerge dir b (Inr mr), EvResolveMerge dir b (Inl e)]"
        let ?a = "en_abort_merge env dir (l @ ?w)"
        have g: "gave_up dir (?w @ [EvAbortMerge dir (Inr ())])"
          unfolding gave_up_def by (intro exI [of _ "[EvMerge dir b (Inr mr)]"] exI [of _ b] exI [of _ e]) simp
        show ?thesis
          using mr True e g by (cases ?a) (auto simp: ends seed_post_def)
      qed
    qed
  qed
qed


inductive_simps seeds_Cons: "seeds dir (b # bs) h w h'"

lemma seeds_start: "bs \<noteq> [] \<Longrightarrow> seeds dir bs h w h' = seeds dir bs k w h'"
  by (cases bs) (simp_all add: seeds_Cons)

lemma canceled_untyped: "is_canceled e \<Longrightarrow> app_type e = None \<and> \<not> is_continue_as_new e"
  by (induction e) auto

definition opened_url :: "flow_env \<Rightarrow> flow_ev list \<Rightarrow> string \<Rightarrow> string" where
  "opened_url env =
     fold (\<lambda>e u. case e of
         EvOpenPRChild a b (Inr x) \<Rightarrow> if en_version_open_pr env then op_url x else []
       | _ \<Rightarrow> u)"

text \<open>What the last stage did when it succeeded.\<close>

definition reviewed_as_asked :: "flow_env \<Rightarrow> develop_input \<Rightarrow> int \<Rightarrow> flow_ev list \<Rightarrow> bool" where
  "reviewed_as_asked env i tokens w =
     (let rid = child_id ''review-'' env; ri = review_request i False tokens in
      if di_with_remote i then
        \<exists>oc x s. w = [EvReviewChild rid ri (Inr oc),
          EvOpenPRChild (child_id ''open-pr-'' env) (di_work_dir i) (Inr x),
          EvPilotChild (child_id ''pilot-'' env) (pilot_request i) (Inr s)]
      else if di_await_review i then
        \<exists>oc. w = [EvReviewChild rid ri (Inr oc)] \<and> ro_converged oc
      else w = [EvReviewStarted rid (review_request i (en_version_detached env) tokens) (Inr ())])"

definition unconverged :: "develop_input \<Rightarrow> flow_ev list \<Rightarrow> bool" where
  "unconverged i w = (\<not> di_with_remote i \<and> di_await_review i \<and>
     (\<exists>w0 rid ri oc. w = w0 @ [EvReviewChild rid ri (Inr oc)] \<and> \<not> ro_converged oc))"

definition tail_post ::
  "flow_env \<Rightarrow> develop_input \<Rightarrow> int \<Rightarrow> flow_error + string \<Rightarrow> flow_ev list \<Rightarrow> bool" where
  "tail_post env i tokens r w =
     (case r of
        Inr s \<Rightarrow> reviewed_as_asked env i tokens w
      | Inl e \<Rightarrow> \<not> is_continue_as_new e \<and>
          (\<forall>u. app_type e = Some u \<longrightarrow> (\<exists>x \<in> set w. raises u x) \<or> u = review_not_converged \<and> unconverged i w))"

definition same_dev :: "flow_env \<Rightarrow> develop_vars \<Rightarrow> develop_vars \<Rightarrow> flow_ev list \<Rightarrow> bool" where
  "same_dev env v v' w =
     (de_started v' = de_started v \<and> dv_run (de_rec v') = dv_run (de_rec v) \<and>
      dv_branch (de_rec v') = dv_branch (de_rec v) \<and>
      dv_pr_url (de_rec v') = opened_url env w (dv_pr_url (de_rec v)))"

definition stepping :: "flow_ev \<Rightarrow> bool" where
  "stepping e = (milestone e \<or> neutral e)"

lemma stepping_neutral: "list_all neutral d \<Longrightarrow> list_all stepping d"
  by (auto simp: list_all_iff stepping_def)

definition tail_ran ::
  "flow_env \<Rightarrow> develop_input \<Rightarrow> int \<Rightarrow> develop_vars \<Rightarrow> flow_ev list \<Rightarrow>
   flow_error + string \<Rightarrow> develop_vars \<Rightarrow> flow_ev list \<Rightarrow> bool" where
  "tail_ran env i tokens v l r v' l' =
     (\<exists>d. l' = l @ d \<and> list_all stepping d \<and> \<not> list_ex develops d \<and> spent d = 0 \<and>
        tail_post env i tokens r (steps_of d) \<and> same_dev env v v' (steps_of d) \<and>
        dv_tokens (de_rec v') = dv_tokens (de_rec v))"

lemmas tail_facts =
  tail_ran_def stepping_def tail_post_def same_dev_def opened_url_def reviewed_as_asked_def
  unconverged_def

lemma vwp_supervising:
  assumes "vwp m (tail_ran env i tokens v0 l0) v l"
  shows "vwp (supervising env dir m) (tail_ran env i tokens v0 l0) v l"
proof -
  obtain r v' l' where m: "m v l = (r, v', l')" by (metis prod_cases3)
  then have "tail_ran env i tokens v0 l0 r v' l'" using assms by (simp add: vwp_def)
  moreover obtain d where "snd ((notify_run_failure env ''Remote pipeline failed'' dir False False (err_of r) :: unit step) l') = l' @ d"
      "list_all neutral d"
    using emits_run [OF quiet_failure] by blast
  moreover have "\<not> list_ex develops d" using calculation(3)
    by (induction d) (auto elim: develops.elims)
  ultimately show ?thesis
    using m by (auto simp: vwp_def supervising_def tail_ran_def stepping_neutral)
qed

lemma tail_ranI:
  "tail_post env i tokens r (steps_of d) \<Longrightarrow> same_dev env v v' (steps_of d) \<Longrightarrow>
   dv_tokens (de_rec v') = dv_tokens (de_rec v) \<Longrightarrow> list_all stepping d \<Longrightarrow> \<not> list_ex develops d \<Longrightarrow>
   spent d = 0 \<Longrightarrow> tail_ran env i tokens v l r v' (l @ d)"
  unfolding tail_ran_def by blast

lemma tail_failed:
  "(\<And>u m. e = CallApp u m \<Longrightarrow> \<exists>x \<in> set w. raises u x) \<Longrightarrow> tail_post env i tokens (Inl (Wrapped s (fault e))) w"
  by (auto simp: tail_post_def)

text \<open>One call at a time, whatever it answers.\<close>

lemma vseq_send:
  "(\<And>a. vwp (f ()) Q v (l @ [EvNotify n a])) \<Longrightarrow> vwp (vthen (vdo (notify_best_effort (send env) n)) f) Q v l"
  by (simp add: wp_rules send_def)

lemma vseq_call:
  "(\<And>e. Q (Inl (fault e)) v (l @ [ev (Inl e)])) \<Longrightarrow> (\<And>x. vwp (f x) Q v (l @ [ev (Inr x)])) \<Longrightarrow>
   vwp (vthen (vdo (call ans ev)) f) Q v l"
  by (cases "ans l") (simp_all add: wp_rules)

lemma vseq_wrapped:
  "(\<And>e. Q (Inl (g (fault e))) v (l @ [ev (Inl e)])) \<Longrightarrow> (\<And>x. vwp (f x) Q v (l @ [ev (Inr x)])) \<Longrightarrow>
   vwp (vthen (vdo (on_error g (call ans ev))) f) Q v l"
  by (cases "ans l") (simp_all add: wp_rules)

lemma vseq_set: "vwp (f ()) Q (g v) l \<Longrightarrow> vwp (vthen (vset g) f) Q v l"
  by (simp add: wp_rules)

lemma vseq_get: "vwp (f v) Q v l \<Longrightarrow> vwp (vthen vget f) Q v l"
  by (simp add: wp_rules)

lemma vseq_wp:
  "wp m (\<lambda>r l'. case r of Inl e \<Rightarrow> Q (Inl e) v l' | Inr x \<Rightarrow> vwp (f x) Q v l') l \<Longrightarrow>
   vwp (vthen (vdo m) f) Q v l"
  by (simp add: wp_rules)

lemma vdo_andthen: "vdo (andthen m f) = vthen (vdo m) (\<lambda>x. vdo (f x))"
  by (auto simp: vdo_def vthen_def andthen_def fun_eq_iff split: prod.splits sum.splits)

lemma vwp_ret_do: "Q (Inr x) v l \<Longrightarrow> vwp (vdo (ret x)) Q v l"
  and vwp_fail_do: "Q (Inl e) v l \<Longrightarrow> vwp (vdo (fail e)) Q v l"
  and vwp_ret_rule: "Q (Inr x) v l \<Longrightarrow> vwp (vret x) Q v l"
  by (simp_all add: wp_rules)

lemmas vseq = vseq_send vseq_call vseq_wrapped vseq_set vwp_ret_do vwp_fail_do vwp_ret_rule

lemma develop_with_remote_spec:
  assumes "di_with_remote i"
  shows "vwp (develop_with_remote env i commits tokens hook) (tail_ran env i tokens v l) v l"
  unfolding develop_with_remote_def Let_def
  by ((rule vseq) |
      ((simp only: append_assoc append_Cons append_Nil)?, rule tail_ranI;
        use assms in \<open>simp add: tail_facts\<close>))+

lemma vwp_if: "(b \<Longrightarrow> vwp m Q v l) \<Longrightarrow> (\<not> b \<Longrightarrow> vwp k Q v l) \<Longrightarrow> vwp (if b then m else k) Q v l"
  by simp

lemma vdo_if: "vdo (if b then m else k) = (if b then vdo m else vdo k)"
  by simp

lemma develop_await_spec:
  assumes "\<not> di_with_remote i" "di_await_review i"
  shows "vwp (vdo (develop_and_await_review env i commits tokens hook)) (tail_ran env i tokens v l) v l"
  unfolding develop_and_await_review_def Let_def vdo_andthen vdo_if
  by ((rule vseq vwp_if) |
      ((simp only: append_assoc append_Cons append_Nil)?, rule tail_ranI;
        use assms in \<open>simp add: tail_facts\<close>))+

lemma develop_detached_spec:
  assumes "\<not> di_with_remote i" "\<not> di_await_review i"
  shows "vwp (vdo (develop_detached env i commits tokens hook)) (tail_ran env i tokens v l) v l"
  unfolding develop_detached_def Let_def vdo_andthen
  by ((rule vseq) |
      ((simp only: append_assoc append_Cons append_Nil)?, rule tail_ranI;
        use assms in \<open>simp add: tail_facts\<close>))+

lemma develop_tail_spec:
  "vwp (develop_tail env i commits tokens hook) (tail_ran env i tokens v l) v l"
proof -
  have n: "vwp m (tail_ran env i tokens v l) (v\<lparr>de_notified := True\<rparr>) l"
    if "vwp m (tail_ran env i tokens (v\<lparr>de_notified := True\<rparr>) l) (v\<lparr>de_notified := True\<rparr>) l"
    for m :: "string develop_step"
    by (rule vwp_mono [OF that]) (simp add: tail_ran_def same_dev_def)
  show ?thesis
    unfolding develop_tail_def
    by (intro vwp_if vseq_set n)
      (simp_all add: vwp_supervising develop_with_remote_spec develop_await_spec develop_detached_spec)
qed

text \<open>From the created branch on: \<open>w\<close> are the steps after the branch was created.\<close>

definition developed_and_reviewed :: "flow_env \<Rightarrow> develop_input \<Rightarrow> string \<Rightarrow> flow_ev list \<Rightarrow> bool" where
  "developed_and_reviewed env i base w =
     (\<exists>w1 head agent commits w2.
        w = w1 @ [EvDevelop (di_work_dir i) (di_prompt i) (Inr agent),
                  EvEnsureDeveloped (di_work_dir i) head (Inr commits)] @ w2 \<and>
        seeds (di_work_dir i) (di_merge_branches i) base w1 head \<and>
        reviewed_as_asked env i (ag_tokens agent + spent w1) w2)"

definition blocked_clean :: "develop_input \<Rightarrow> flow_ev list \<Rightarrow> bool" where
  "blocked_clean i w = (gave_up (di_work_dir i) w \<and> \<not> list_ex develops w)"

definition on_post :: "flow_env \<Rightarrow> develop_input \<Rightarrow> string \<Rightarrow> flow_error + string \<Rightarrow> flow_ev list \<Rightarrow> bool" where
  "on_post env i base r w =
     (case r of
        Inr s \<Rightarrow> developed_and_reviewed env i base w
      | Inl e \<Rightarrow> \<not> is_continue_as_new e \<and>
          (\<forall>u. app_type e = Some u \<longrightarrow> (\<exists>x \<in> set w. raises u x) \<or>
             u = seed_conflict_blocked \<and> blocked_clean i w \<or>
             u = review_not_converged \<and> unconverged i w))"

definition on_ran ::
  "flow_env \<Rightarrow> develop_input \<Rightarrow> string \<Rightarrow> develop_vars \<Rightarrow> flow_ev list \<Rightarrow>
   flow_error + string \<Rightarrow> develop_vars \<Rightarrow> flow_ev list \<Rightarrow> bool" where
  "on_ran env i base v l r v' l' =
     (\<exists>d. l' = l @ d \<and> list_all stepping d \<and> on_post env i base r (steps_of d) \<and>
        same_dev env v v' (steps_of d) \<and>
        dv_tokens (de_rec v') = (if list_ex develops d then spent d else dv_tokens (de_rec v)))"

lemma on_ranI:
  "list_all stepping d \<Longrightarrow> on_post env i base r (steps_of d) \<Longrightarrow> same_dev env v v' (steps_of d) \<Longrightarrow>
   dv_tokens (de_rec v') = (if list_ex develops d then spent d else dv_tokens (de_rec v)) \<Longrightarrow>
   on_ran env i base v l r v' (l @ d)"
  unfolding on_ran_def by blast

lemma merging_facts:
  "list_all merging w \<Longrightarrow> list_all stepping w \<and> steps_of w = w \<and> \<not> list_ex develops w \<and>
   opened_url env w u = u"
proof (induction w)
  case (Cons e w)
  then have "milestone e" "\<not> develops e" "opened_url env [e] u = u"
    by (auto simp: merging_def opened_url_def split: flow_ev.split)
  with Cons show ?case by (auto simp: stepping_def opened_url_def)
qed (simp add: opened_url_def)

text \<open>Seeding, with its announcement of a block.\<close>

lemma seed_spec:
  assumes fail: "\<And>e v' d. list_all stepping d \<Longrightarrow> on_post env i base (Inl e) (steps_of d) \<Longrightarrow>
      same_dev env v v' (steps_of d) \<Longrightarrow> dv_tokens (de_rec v') = dv_tokens (de_rec v) \<Longrightarrow>
      \<not> list_ex develops d \<Longrightarrow> Q (Inl e) v' (l @ d)"
    and ok: "\<And>head w. list_all merging w \<Longrightarrow> seeds (di_work_dir i) (di_merge_branches i) base w head \<Longrightarrow>
      Q (Inr (head, spent w)) v (l @ w)"
  shows "vwp (seed env i base) Q v l"
proof (cases "di_merge_branches i = []")
  case True
  with ok [of "[]" base] show ?thesis by (simp add: seed_def wp_rules seeds_done)
next
  case False
  show ?thesis
    unfolding seed_def if_not_P [OF False] vwp_then vwp_do wp_attempt
  proof (rule wp_mono [OF seed_branches_spec], elim exE conjE)
    fix r l' w
    assume l': "l' = l @ w" and w: "list_all merging w"
      and p: "seed_post (di_work_dir i) (di_merge_branches i) [] 0 r w"
    note mf = merging_facts [OF w]
    show "case Inr r of Inl e \<Rightarrow> Q (Inl e) v l' | Inr x \<Rightarrow>
      vwp (case x of
          Inl e \<Rightarrow>
            vthen (if app_type e = Some seed_conflict_blocked then
                     vthen (vset (\<lambda>v. v\<lparr>de_notified := True\<rparr>)) (\<lambda>_.
                       vdo (notify_best_effort (send env)
                         (plain_notice ''Node blocked: unresolved seed conflict''
                           (''Could not merge a dependency branch into '' @ di_branch i @
                            '' and the conflict could not be resolved automatically. The branch was left clean (no conflict markers); a later sync may succeed once the conflicting branches move.''))))
                   else vret ())
              (\<lambda>_. vfail e)
        | Inr seeded \<Rightarrow> vret seeded) Q v l'"
    proof (cases r)
      case (Inr ht)
      with p ok [OF w, of "fst ht"] seeds_start [OF False, of _ base w "fst ht" "[]"] l' show ?thesis
        by (cases ht) (simp add: seed_post_def wp_rules)
    next
      case (Inl e)
      have "on_post env i base (Inl e) w"
        using p Inl mf by (auto simp: on_post_def seed_post_def blocked_clean_def)
      with fail [of w e v] fail [of "w @ [EvNotify n a]" e "v\<lparr>de_notified := True\<rparr>" for n a] mf Inl l'
      show ?thesis by (simp add: wp_rules send_def same_dev_def stepping_def)
    qed
  qed
qed

lemma summarize_wp:
  assumes "\<And>r d. list_all neutral d \<Longrightarrow>
    (\<And>e. r = Inl e \<Longrightarrow> app_type e = None \<and> \<not> is_continue_as_new e) \<Longrightarrow> Q r (l @ d)"
  shows "wp (summarize_for_webhook env enabled agented dir) Q l"
proof (cases "\<not> enabled \<or> \<not> agented")
  case True
  with assms [of "[]" "Inr []"] show ?thesis
    by (simp add: summarize_for_webhook_def wp_rules)
next
  case False
  let ?a = "en_summarize env dir l"
  have "Q r (l @ [EvSummarize dir ?a])" if "\<And>e. r = Inl e \<Longrightarrow> is_canceled e" for r
    using assms [of "[EvSummarize dir ?a]" r] that canceled_untyped by auto
  from this [of "Inl CanceledErr"] this [of "Inr []"] this [of "Inr (case ?a of Inl _ \<Rightarrow> [] | Inr x \<Rightarrow> x)"] show ?thesis
    using False by (cases ?a) (auto simp: summarize_for_webhook_def wp_rules)
qed

lemma develop_on_spec: "vwp (develop_on env i base) (on_ran env i base v l) v l"
  unfolding develop_on_def vwp_then
proof (rule seed_spec, goal_cases)
  case (1 e v' d)
  then show ?case by (simp add: on_ranI)
next
  case (2 head w)
  note mf = merging_facts [OF 2(1)] and seeded = 2(2)
  let ?dev = "\<lambda>r. EvDevelop (di_work_dir i) (di_prompt i) r"
    and ?ens = "\<lambda>r. EvEnsureDeveloped (di_work_dir i) head r"
  note on = on_post_def same_dev_def stepping_def opened_url_def
  show ?case
    unfolding sum.case prod.case Let_def
  proof (rule vseq_call, goal_cases)
    case (1 e)
    have "on_ran env i base v l (Inl (fault e)) v (l @ (w @ [?dev (Inl e)]))"
      using mf by (intro on_ranI) (auto simp: on)
    then show ?case by simp
  next
    case (2 agent)
    let ?v = "v\<lparr>de_rec := (de_rec v)\<lparr>dv_tokens := ag_tokens agent + spent w\<rparr>, de_agent_ran := True\<rparr>"
    show ?case
    proof (rule vseq_set, rule vseq_call, goal_cases)
      case (1 e)
      have "on_ran env i base v l (Inl (fault e)) ?v (l @ (w @ [?dev (Inr agent), ?ens (Inl e)]))"
        using mf by (intro on_ranI) (auto simp: on)
      then show ?case by simp
    next
      case (2 commits)
      show ?case
        unfolding vwp_then vwp_do
      proof (rule summarize_wp, goal_cases)
        case (1 r d)
        let ?w = "w @ [?dev (Inr agent), ?ens (Inr commits)]"
        note st = stepping_neutral [OF 1(1)]
        have nd: "\<not> list_ex develops d"
          using 1(1) by (induction d) (auto elim: develops.elims)
        show ?case
        proof (cases r)
          case (Inl e)
          have "on_ran env i base v l (Inl e) ?v (l @ (?w @ d))"
            using mf st 1 Inl by (intro on_ranI) (auto simp: on)
          then show ?thesis using Inl by simp
        next
          case (Inr hook)
          show ?thesis
            unfolding Inr sum.case
          proof (rule vwp_mono [OF develop_tail_spec], unfold tail_ran_def, elim exE conjE)
            fix r v' l' d2
            assume t: "l' = ((((l @ w) @ [?dev (Inr agent)]) @ [?ens (Inr commits)]) @ d) @ d2"
                "list_all stepping d2" "\<not> list_ex develops d2" "spent d2 = 0"
                "tail_post env i (ag_tokens agent + spent w) r (steps_of d2)" "same_dev env ?v v' (steps_of d2)"
                "dv_tokens (de_rec v') = dv_tokens (de_rec ?v)"
            have "on_post env i base r (?w @ steps_of d2)"
              using t(5) seeded unfolding on_post_def tail_post_def unconverged_def developed_and_reviewed_def
              by (auto split: sum.splits) blast+
            moreover have "same_dev env v v' (?w @ steps_of d2)"
              using t(6) mf by (simp add: same_dev_def opened_url_def)
            ultimately have "on_ran env i base v l r v' (l @ (?w @ d @ d2))"
              using t(2-4,7) mf st nd 1(1) by (intro on_ranI) (auto simp: stepping_def)
            then show "on_ran env i base v l r v' l'" using t(1) by simp
          qed
        qed
      qed
    qed
  qed
qed

section \<open>The whole run\<close>

lemma start_develop_wp:
  assumes "\<And>e d. list_all neutral d \<Longrightarrow> \<not> is_continue_as_new e \<Longrightarrow>
      (\<And>u. app_type e = Some u \<Longrightarrow> \<exists>x \<in> set d. raises u x) \<Longrightarrow> Q (Inl e) (l @ d)"
    and "\<And>st d. list_all neutral d \<Longrightarrow> dv_tokens st = 0 \<Longrightarrow> dv_pr_url st = [] \<Longrightarrow>
      (en_recording env \<Longrightarrow> dv_run st = wi_run_id (en_info env) \<and> dv_branch st = di_branch i) \<Longrightarrow> Q (Inr st) (l @ d)"
  shows "wp (start_develop_state env i) Q l"
proof (cases "en_recording env")
  case False
  with assms(2) [of "[]" no_develop_state] show ?thesis
    by (simp add: start_develop_state_def wp_rules no_develop_state_def)
next
  case True
  let ?st = "no_develop_state\<lparr>dv_workflow := id_workflow (identity_of (en_info env)),
      dv_run := id_run (identity_of (en_info env)), dv_parent := id_parent (identity_of (en_info env)),
      dv_prompt := di_prompt i, dv_branch := di_branch i, dv_started := en_now env l\<rparr>"
  let ?a = "en_save env (develop_row ?st) l"
  let ?ev = "[EvSave (develop_row ?st) ?a]"
  show ?thesis
  proof (cases ?a)
    case (Inl e)
    have "Q (Inl (Wrapped ''record the develop run as started: '' (fault e))) (l @ ?ev)"
      by (rule assms(1)) (auto simp: Inl)
    with Inl True show ?thesis by (simp add: start_develop_state_def wp_rules Let_def save_row_def)
  next
    case (Inr u)
    have "Q (Inr ?st) (l @ ?ev)"
      by (rule assms(2)) (simp_all add: no_develop_state_def identity_of_def)
    with Inr True show ?thesis by (simp add: start_develop_state_def wp_rules Let_def save_row_def)
  qed
qed

lemma record_develop_place_wp:
  assumes "\<And>d p. list_all neutral d \<Longrightarrow> Q (Inr (st\<lparr>dv_place := p\<rparr>)) (l @ d)"
  shows "wp (record_develop_place env st dir) Q l"
proof -
  have p: "\<exists>p. fst (probe env dir l) = Inr p" for l
    unfolding wp_run [of _ "\<lambda>r l'. \<exists>p. r = Inr p", symmetric] probe_def probe_place_def
    by (auto simp: wp_rules split: sum.split)
  have q: "fst (record_quietly env row l) = Inr ()" for row l
    unfolding wp_run [of _ "\<lambda>r l'. r = Inr ()", symmetric] record_quietly_def
    by (auto simp: wp_rules save_row_def split: sum.split)
  have "wp (record_develop_place env st dir) (\<lambda>r l'. \<exists>p. r = Inr (st\<lparr>dv_place := p\<rparr>)) l"
    using p [of l] q by (auto simp: record_develop_place_def wp_run andthen_def ret_def Let_def
        split: prod.splits sum.splits) (metis fst_conv sum.distinct(1))
  moreover have "wp (record_develop_place env st dir) (\<lambda>r l'. \<exists>d. l' = l @ d \<and> list_all neutral d) l"
    by (rule quiet_wp) auto
  ultimately show ?thesis using assms by (auto simp: wp_run)
qed

text \<open>The input on the branch and in the directory it was created with.\<close>

definition placed :: "develop_input \<Rightarrow> create_branch_result \<Rightarrow> develop_input" where
  "placed i created = i\<lparr>di_branch := br_branch created, di_work_dir := br_work_dir created\<rparr>"

definition blamed :: "develop_input \<Rightarrow> string \<Rightarrow> flow_ev list \<Rightarrow> bool" where
  "blamed i u l = (\<exists>created w. steps_of l = EvCreateBranch (branch_request i) (Inr created) # w \<and>
     (u = seed_conflict_blocked \<and> blocked_clean (placed i created) w \<or>
      u = review_not_converged \<and> unconverged i w))"

definition develop_post :: "flow_env \<Rightarrow> develop_input \<Rightarrow> flow_error + string \<Rightarrow> flow_ev list \<Rightarrow> bool" where
  "develop_post env i r l =
     (case r of
        Inr s \<Rightarrow> \<exists>created w. steps_of l = EvCreateBranch (branch_request i) (Inr created) # w \<and>
          developed_and_reviewed env (placed i created) (br_base created) w
      | Inl e \<Rightarrow> \<not> is_continue_as_new e \<and>
          (\<forall>u. app_type e = Some u \<longrightarrow> (\<exists>x \<in> set l. raises u x) \<or> blamed i u l))"

definition branch_used :: "develop_input \<Rightarrow> flow_ev list \<Rightarrow> string" where
  "branch_used i l =
     (case steps_of l of EvCreateBranch a (Inr created) # w \<Rightarrow> br_branch created | _ \<Rightarrow> di_branch i)"

definition recorded :: "flow_env \<Rightarrow> develop_input \<Rightarrow> develop_state \<Rightarrow> flow_ev list \<Rightarrow> bool" where
  "recorded env i st l =
     (dv_run st = wi_run_id (en_info env) \<and> dv_branch st = branch_used i l \<and>
      dv_pr_url st = opened_url env (steps_of l) [] \<and>
      dv_tokens st = (if list_ex develops l then spent l else 0))"

definition develop_body_post ::
  "flow_env \<Rightarrow> develop_input \<Rightarrow> flow_error + string \<Rightarrow> develop_vars \<Rightarrow> flow_ev list \<Rightarrow> bool" where
  "develop_body_post env i r v l =
     (develop_post env i r l \<and>
      (if de_started v then en_recording env \<longrightarrow> recorded env i (de_rec v) l
       else list_all neutral l \<and> \<not> is_ok r))"

lemma neutral_develops: "list_all neutral d \<Longrightarrow> \<not> list_ex develops d"
  by (induction d) (auto elim: develops.elims)

abbreviation fresh_develop :: "develop_input \<Rightarrow> develop_vars" where
  "fresh_develop i \<equiv> \<lparr>de_started = False, de_rec = no_develop_state, de_agent_ran = False,
     de_notified = False, de_work_dir = di_work_dir i\<rparr>"

lemma placed_simps [simp]:
  "di_merge_branches (placed i c) = di_merge_branches i" "di_with_remote (placed i c) = di_with_remote i"
  "di_await_review (placed i c) = di_await_review i" "unconverged (placed i c) w = unconverged i w"
  by (simp_all add: placed_def unconverged_def)

lemma develop_body_spec: "vwp (develop_body env i) (develop_body_post env i) (fresh_develop i) []"
  unfolding develop_body_def
proof (rule vseq_wp, rule start_develop_wp, goal_cases)
  case (1 e d)
  then show ?case by (simp add: develop_body_post_def develop_post_def)
next
  case (2 st d1)
  note st = 2
  let ?q = "branch_request i"
  let ?v = "(fresh_develop i)\<lparr>de_started := True, de_rec := st\<rparr>"
  note facts = develop_body_post_def recorded_def branch_used_def opened_url_def
  show ?case
    unfolding sum.case
  proof (rule vseq_set, rule vseq_call, goal_cases)
    case (1 e)
    have "develop_body_post env i (Inl (fault e)) ?v (d1 @ [EvCreateBranch ?q (Inl e)])"
      using st neutral_develops [OF st(1)] by (auto simp: facts develop_post_def)
    then show ?case by simp
  next
    case (2 created)
    let ?l = "d1 @ [EvCreateBranch ?q (Inr created)]"
    let ?v2 = "?v\<lparr>de_rec := st\<lparr>dv_branch := br_branch created\<rparr>, de_work_dir := br_work_dir created\<rparr>"
    show ?case
    proof (rule vseq_set, rule vseq_get, rule vseq_wp, rule record_develop_place_wp, goal_cases)
      case (1 d2 p)
      let ?v3 = "?v2\<lparr>de_rec := st\<lparr>dv_branch := br_branch created, dv_place := p\<rparr>\<rparr>"
      have "vwp (develop_on env (placed i created) (br_base created)) (develop_body_post env i) ?v3 (?l @ d2)"
      proof (rule vwp_mono [OF develop_on_spec], unfold on_ran_def, elim exE conjE)
        fix r v' l' d
        assume d: "l' = (?l @ d2) @ d" "list_all stepping d"
            "on_post env (placed i created) (br_base created) r (steps_of d)" "same_dev env ?v3 v' (steps_of d)"
            "dv_tokens (de_rec v') = (if list_ex develops d then spent d else dv_tokens (de_rec ?v3))"
        have s: "steps_of l' = EvCreateBranch ?q (Inr created) # steps_of d"
            "list_ex develops l' = list_ex develops d" "spent l' = spent d"
          using d(1) st(1) 1 neutral_develops [OF st(1)] neutral_develops [OF 1] by simp_all
        have "develop_post env i r l'"
        proof (cases r)
          case (Inl e)
          have "(\<exists>x \<in> set l'. raises u x) \<or> blamed i u l'" if u: "app_type e = Some u" for u
          proof -
            from u d(3) Inl consider (raised) x where "x \<in> set (steps_of d)" "raises u x"
              | (blamed) "u = seed_conflict_blocked \<and> blocked_clean (placed i created) (steps_of d) \<or>
                  u = review_not_converged \<and> unconverged i (steps_of d)"
              by (auto simp: on_post_def)
            then show ?thesis
            proof cases
              case raised
              then have "x \<in> set l'" using d(1) by simp
              with raised show ?thesis by blast
            next
              case blamed
              with s(1) show ?thesis unfolding blamed_def by blast
            qed
          qed
          then show ?thesis using d(3) Inl by (simp add: develop_post_def on_post_def)
        next
          case (Inr x)
          with d(3) s(1) show ?thesis by (simp add: develop_post_def on_post_def)
        qed
        moreover have "recorded env i (de_rec v') l'" if "en_recording env"
          using d(4,5) s st that by (simp add: recorded_def same_dev_def branch_used_def opened_url_def)
        ultimately show "develop_body_post env i r v' l'"
          using d(4) by (simp add: develop_body_post_def same_dev_def)
      qed
      then show ?case by (simp add: placed_def vseq_set)
    qed
  qed
qed

lemma quiet_develop_deferred: "quiet (develop_deferred env i r v)"
  unfolding develop_deferred_def by (intro emits_andthen) auto

lemma develop_run:
  assumes "develop_workflow env i [] = (r, l')"
  obtains v d e where "develop_body_post env i r v d" "l' = d @ e" "list_all neutral e"
    and "en_recording env \<Longrightarrow> de_started v \<Longrightarrow>
      \<exists>now a rest. e = EvSave (develop_row (finished_develop env (de_rec v) (err_of r) now)) a # rest \<and>
        list_all announces rest"
proof -
  obtain v d where b: "develop_body env i (fresh_develop i) [] = (r, v, d)"
      and l': "l' = snd (develop_deferred env i r v d)"
    using assms by (auto simp: develop_workflow_def with_vars_def split: prod.splits)
  have p: "develop_body_post env i r v d" using develop_body_spec [of env i] b by (simp add: vwp_def)
  obtain e where e: "l' = d @ e" "list_all neutral e"
    using emits_run [OF quiet_develop_deferred, of env i r v d] l' by auto
  show thesis
  proof (rule that [OF p e])
    assume rec: "en_recording env" and s: "de_started v"
    let ?m = "settle env ''develop run'' ''record the develop run's terminal state: ''
        (\<lambda>now. develop_row (finished_develop env (de_rec v) (err_of r) now))
        (case r of Inl _ \<Rightarrow> [] | Inr summary \<Rightarrow> summary) (err_of r)"
    have ok: "is_ok (fst (?m d))" by (rule settle_ok)
    obtain now a rest where m: "snd (?m d) = d @ EvSave (develop_row (finished_develop env (de_rec v) (err_of r) now)) a # rest"
        "list_all announces rest"
      using settle_run [OF rec] by blast
    obtain rest2 where "l' = snd (?m d) @ rest2" "list_all announces rest2"
    proof (cases "de_notified v")
      case True
      have "l' = snd (?m d) @ []"
        using l' s True ok by (auto simp: develop_deferred_def andthen_def ret_def is_ok_iff split: prod.splits)
      then show thesis by (rule that) simp
    next
      case False
      let ?f = "notify_run_failure env ''Development failed'' (de_work_dir v) (di_summary i) (de_agent_ran v) (err_of r)"
      obtain rest2 where "snd (?f (snd (?m d))) = snd (?m d) @ rest2" "list_all announces rest2"
        using emits_run [OF announces_failure] by blast
      moreover have "l' = snd (?f (snd (?m d)))"
        using l' s False ok by (auto simp: develop_deferred_def andthen_def is_ok_iff split: prod.splits)
      ultimately show thesis using that by metis
    qed
    with m e(1)
    show "\<exists>now a rest. e = EvSave (develop_row (finished_develop env (de_rec v) (err_of r) now)) a # rest \<and>
        list_all announces rest" by auto
  qed
qed

lemma develop_result: "develop_post env i (fst (develop_workflow env i [])) (snd (develop_workflow env i []))"
proof -
  obtain v d e where p: "develop_body_post env i (fst (develop_workflow env i [])) v d"
      "snd (develop_workflow env i []) = d @ e" "list_all neutral e"
    using develop_run [OF prod.collapse [symmetric]] by blast
  have s: "steps_of (d @ e) = steps_of d" using p(3) by simp
  show ?thesis
    using p(1) unfolding p(2) develop_body_post_def develop_post_def blamed_def s
    by (auto split: sum.splits)
qed

section \<open>Runs\<close>

definition demo_develop :: develop_input where
  "demo_develop = \<lparr>di_initiator = [], di_work_dir = ''d'', di_branch = ''b'', di_worktrees_dir = [],
     di_start_point = [], di_merge_branches = [], di_prompt = ''p'', di_summary = False,
     di_with_remote = True, di_await_review = False, di_settings = []\<rparr>"

definition seeded_develop :: develop_input where
  "seeded_develop = demo_develop\<lparr>di_merge_branches := [''dep''], di_with_remote := False, di_await_review := True\<rparr>"

lemmas develop_defs =
  develop_workflow_def develop_body_def develop_on_def seed_def seed_branches.simps develop_tail_def
  supervising_def develop_with_remote_def develop_deferred_def settle_def start_develop_state_def
  record_develop_place_def notify_run_failure_def notify_failure_with_def notify_best_effort_def
  send_def summarize_for_webhook_def probe_off save_row_def child_id_def

lemmas develop_demo = demo_env_def demo_develop_def seeded_develop_def branch_request_def placed_def
  established_def

lemma remote_unconverged_succeeds:
  "is_ok (fst (develop_workflow demo_env demo_develop [])) \<and>
   (\<exists>rid ri oc. EvReviewChild rid ri (Inr oc) \<in> set (snd (develop_workflow demo_env demo_develop [])) \<and>
      \<not> ro_converged oc)"
  by (simp add: develop_defs body_run develop_demo Let_def is_ok_def ended_by_def converged_def no_place_def)

lemma seeded_blocks:
  "\<exists>m. fst (develop_workflow demo_env seeded_develop []) = Inl (AppErr seed_conflict_blocked m)"
  by (simp add: develop_defs body_run develop_demo Let_def seed_conflict_blocked_def no_place_def fault.simps)

text \<open>The row a settled state is saved as.\<close>

lemma settled_row:
  assumes "recorded env i st l"
  shows "ex_run (develop_row (finished_develop env st err now)) = wi_run_id (en_info env) \<and>
    ex_status (develop_row (finished_develop env st err now)) = status_of err \<and>
    ed_branch (ex_detail (develop_row (finished_develop env st err now))) = branch_used i l \<and>
    ed_pr_url (ex_detail (develop_row (finished_develop env st err now))) = opened_url env (steps_of l) [] \<and>
    ex_tokens (develop_row (finished_develop env st err now)) = (if list_ex develops l then spent l else 0)"
  using assms by (simp add: develop_row_def finished_develop_def recorded_def no_detail_def)

section \<open>Properties\<close>

text \<open>
  C7: A develop run that succeeds did all of its work, in order, each step once: the branch was
  created; every branch it depends on was merged, its conflict resolved if it had one; the agent
  developed the prompt in that directory; commits past the seeded head were proven; and then, as
  asked, a review was started, or waited for and converged, or waited for and followed by the
  pull request and the pilot.  Only the last of these accepts a review that did not converge.
\<close>

theorem develop_success_is_complete:
  assumes "develop_workflow env i [] = (Inr s, l')"
  shows "\<exists>created w. steps_of l' = EvCreateBranch (branch_request i) (Inr created) # w \<and>
    developed_and_reviewed env (placed i created) (br_base created) w"
  using develop_result [of env i] assms by (simp add: develop_post_def)

theorem develop_success_is_complete_witness:
  "\<exists>s l' created w rid ri oc. develop_workflow demo_env demo_develop [] = (Inr s, l') \<and>
     steps_of l' = EvCreateBranch (branch_request demo_develop) (Inr created) # w \<and>
     EvReviewChild rid ri (Inr oc) \<in> set l' \<and> \<not> ro_converged oc"
proof -
  obtain s l' where r: "develop_workflow demo_env demo_develop [] = (Inr s, l')"
      "\<exists>rid ri oc. EvReviewChild rid ri (Inr oc) \<in> set l' \<and> \<not> ro_converged oc"
    using remote_unconverged_succeeds by (metis is_ok_iff prod.collapse snd_conv)
  from develop_success_is_complete [OF r(1)] r show ?thesis by blast
qed

text \<open>
  C26: The two errors a fleet reads as a blocked node are told truthfully.  Unless one of its own
  calls failed with that very type, a run fails with a blocked seed conflict only after the
  conflicting merge was given up and its abort confirmed, with no agent run on the branch; and
  with a review that did not converge only when it was asked to wait for the review, whose
  outcome, its last step, was not convergence.
\<close>

theorem develop_blocks_truthfully:
  assumes "develop_workflow env i [] = (Inl e, l')" "app_type e = Some u"
    and "\<forall>x \<in> set l'. \<not> raises u x"
  shows "blamed i u l'"
  using develop_result [of env i] assms by (auto simp: develop_post_def)

theorem develop_blocks_truthfully_witness:
  "\<exists>m l'. develop_workflow demo_env seeded_develop [] = (Inl (AppErr seed_conflict_blocked m), l') \<and>
     blamed seeded_develop seed_conflict_blocked l'"
proof -
  obtain m l' where r: "develop_workflow demo_env seeded_develop [] = (Inl (AppErr seed_conflict_blocked m), l')"
    using seeded_blocks by (metis prod.collapse)
  have "\<forall>x \<in> set (snd (develop_workflow demo_env seeded_develop [])). \<not> raises seed_conflict_blocked x"
    by (simp add: develop_defs body_run develop_demo Let_def seed_conflict_blocked_def no_place_def fault.simps)
  with r develop_blocks_truthfully [OF r] show ?thesis by auto
qed

text \<open>
  C36: Every recorded develop run is settled.  Unless it failed before anything but recording
  happened, its last write carries its run, its true status, the branch it really worked on, the
  pull request it opened even if a later stage failed, and the tokens of its own agents; tokens
  spent on merge conflicts count only if the develop agent then ran.
\<close>

theorem develop_run_is_settled:
  assumes "develop_workflow env i [] = (r, l')" "en_recording env"
  shows "(\<not> is_ok r \<and> list_all neutral l') \<or>
    (\<exists>d row a rest. l' = d @ EvSave row a # rest \<and> list_all announces rest \<and>
       ex_run row = wi_run_id (en_info env) \<and> ex_status row = status_of (err_of r) \<and>
       ed_branch (ex_detail row) = branch_used i l' \<and>
       ed_pr_url (ex_detail row) = opened_url env (steps_of l') [] \<and>
       ex_tokens row = (if list_ex develops l' then spent l' else 0))"
proof -
  obtain v d e where p: "develop_body_post env i r v d" "l' = d @ e" "list_all neutral e"
    and s: "de_started v \<Longrightarrow>
      \<exists>now a rest. e = EvSave (develop_row (finished_develop env (de_rec v) (err_of r) now)) a # rest \<and>
        list_all announces rest"
    using develop_run [OF assms(1)] assms(2) by metis
  show ?thesis
  proof (cases "de_started v")
    case False
    with p show ?thesis by (simp add: develop_body_post_def)
  next
    case True
    with s obtain now a rest where e: "list_all announces rest"
        "e = EvSave (develop_row (finished_develop env (de_rec v) (err_of r) now)) a # rest" by blast
    have "recorded env i (de_rec v) d"
      using p(1) True assms(2) by (simp add: develop_body_post_def)
    moreover have "steps_of l' = steps_of d" "spent l' = spent d" "list_ex develops l' = list_ex develops d"
      using p(2,3) neutral_develops [OF p(3)] by simp_all
    ultimately have "recorded env i (de_rec v) l'" by (simp add: recorded_def branch_used_def)
    from settled_row [OF this, of "err_of r" now] show ?thesis
      using e p(2) by blast
  qed
qed

theorem develop_run_is_settled_witness:
  "\<exists>s l' d row a rest. develop_workflow demo_env demo_develop [] = (Inr s, l') \<and>
     l' = d @ EvSave row a # rest \<and> ex_status row = SucceededStatus \<and> ed_branch (ex_detail row) = branch_used demo_develop l'"
proof -
  obtain s l' where r: "develop_workflow demo_env demo_develop [] = (Inr s, l')"
    using remote_unconverged_succeeds by (metis is_ok_iff prod.collapse)
  have "en_recording demo_env" by (simp add: demo_env_def)
  from develop_run_is_settled [OF r this] r show ?thesis by (auto simp: status_of_def)
qed

end
