(* ===== verification/Fleet_Run.thy ===== *)
theory Fleet_Run
  imports Develop_Flow
begin

text \<open>
  \<open>internal/fleet/workflow.go\<close> and the recording half of \<open>internal/fleet/recording.go\<close>:
  \<open>FleetWorkflow\<close>, which runs a child develop workflow per node of a plan, layer by layer, and
  \<open>FleetPlanWorkflow\<close>, which has a plan produced and stored.

  A child is two events: its start with its input, and its outcome when its future is read; the
  children of a layer run at the same time between the two.  \<open>fe_canceled\<close> is the run's
  cancellation as \<open>ctx.Err()\<close> shows it.
\<close>

section \<open>Data\<close>

record fleet_input =
  fi_plan :: fleet_plan
  fi_work_dir :: string
  fi_worktrees_dir :: string
  fi_summary :: bool
  fi_plan_id :: string

record fleet_plan_input =
  fpi_goal :: string
  fpi_work_dir :: string
  fpi_plan_id :: string
  fpi_name :: string

record fleet_state =
  fs_workflow :: string
  fs_run :: string
  fs_parent :: string
  fs_goal :: string
  fs_plan_id :: string
  fs_plan_nodes :: nat
  fs_started :: nat
  fs_ended :: nat
  fs_status :: exec_status
  fs_nodes :: "node_result list"
  fs_place :: place_facts
  fs_error :: string

record fleet_plan_state =
  fps_workflow :: string
  fps_run :: string
  fps_parent :: string
  fps_goal :: string
  fps_plan_id :: string
  fps_plan_nodes :: nat
  fps_started :: nat
  fps_ended :: nat
  fps_status :: exec_status
  fps_tokens :: int
  fps_place :: place_facts
  fps_error :: string

type_synonym fleet_error = "unit wf_error"

datatype fleet_ev =
    FlProbe string "place_facts outcome"
  | FlSave execution "unit outcome"
  | FlNotify notice "unit outcome"
  | FlBase string "string outcome"
  | FlStart string develop_input
  | FlDone string "string outcome"
  | FlGenerate string string "(fleet_plan \<times> int) outcome"
  | FlStore string string fleet_plan "unit outcome"

record fleet_env =
  fe_info :: wf_info
  fe_now :: "fleet_ev list \<Rightarrow> nat"
  fe_error_text :: "fleet_error \<Rightarrow> string"
  fe_recording :: bool
  fe_placing :: bool
  fe_canceled :: "fleet_ev list \<Rightarrow> bool"
  fe_probe :: "string \<Rightarrow> fleet_ev list \<Rightarrow> place_facts outcome"
  fe_save :: "execution \<Rightarrow> fleet_ev list \<Rightarrow> unit outcome"
  fe_notify :: "notice \<Rightarrow> fleet_ev list \<Rightarrow> unit outcome"
  fe_base :: "string \<Rightarrow> fleet_ev list \<Rightarrow> string outcome"
  fe_child :: "string \<Rightarrow> fleet_ev list \<Rightarrow> string outcome"
  fe_generate :: "string \<Rightarrow> string \<Rightarrow> fleet_ev list \<Rightarrow> (fleet_plan \<times> int) outcome"
  fe_store :: "string \<Rightarrow> string \<Rightarrow> fleet_plan \<Rightarrow> fleet_ev list \<Rightarrow> unit outcome"

type_synonym 'a fleet_step = "(fleet_ev, fleet_error, 'a) eff"

definition fleet_send :: "fleet_env \<Rightarrow> notice \<Rightarrow> unit fleet_step" where
  "fleet_send env n = call (fe_notify env n) (FlNotify n)"

definition fleet_save :: "fleet_env \<Rightarrow> execution \<Rightarrow> unit fleet_step" where
  "fleet_save env row = call (fe_save env row) (FlSave row)"

definition fleet_probe :: "fleet_env \<Rightarrow> string \<Rightarrow> place_facts fleet_step" where
  "fleet_probe env =
     probe_place (fe_placing env) (\<lambda>d. call (fe_probe env d) (FlProbe d) :: place_facts fleet_step)"

section \<open>Errors\<close>

definition err_invalid_plan :: string where
  "err_invalid_plan = ''InvalidPlan''"

definition err_missing_worktrees :: string where
  "err_missing_worktrees = ''MissingWorktreesDir''"

fun plan_error_text :: "plan_error \<Rightarrow> string" where
  "plan_error_text NoNodes = ''plan has no nodes''"
| "plan_error_text EmptyNodeId = ''node has an empty id''"
| "plan_error_text (BadNodeId n) =
     ''node id '' @ quoted n @ '' must contain only letters, digits, '' @ [CHR 0x27] @ ''-'' @ [CHR 0x27] @
     '' or '' @ [CHR 0x27] @ ''_'' @ [CHR 0x27]"
| "plan_error_text (DuplicateNodeId n) = ''duplicate node id '' @ quoted n"
| "plan_error_text (EmptyNodePrompt n) = ''node '' @ quoted n @ '' has an empty prompt''"
| "plan_error_text (DependsOnItself n) = ''node '' @ quoted n @ '' depends on itself''"
| "plan_error_text (UnknownDependency n d) =
     ''node '' @ quoted n @ '' depends on unknown node '' @ quoted d"
| "plan_error_text (DependencyCycle c) = ''plan has a dependency cycle: '' @ c"

section \<open>Recording\<close>

definition node_outcomes :: "node_result list \<Rightarrow> node_outcome list" where
  "node_outcomes = map (\<lambda>r.
     \<lparr>nd_id = nr_id r, nd_status = node_status_text (nr_status r), nd_detail = sanitize (nr_detail r),
      nd_tokens = nr_tokens r\<rparr>)"

definition fleet_row :: "fleet_state \<Rightarrow> execution" where
  "fleet_row s =
     \<lparr>ex_workflow = fs_workflow s, ex_run = fs_run s, ex_first_run = [], ex_kind = ''fleet'',
      ex_prompt = sanitize (fs_goal s), ex_started = fs_started s, ex_ended = fs_ended s,
      ex_status = fs_status s, ex_tokens = 0, ex_schedule = [], ex_parent = fs_parent s,
      ex_detail = no_detail\<lparr>ed_plan_id := fs_plan_id s, ed_plan_nodes := fs_plan_nodes s,
        ed_nodes := node_outcomes (fs_nodes s), ed_error := fs_error s,
        ed_directory := pl_directory (fs_place s), ed_repository := pl_repository (fs_place s)\<rparr>\<rparr>"

definition fleet_plan_row :: "fleet_plan_state \<Rightarrow> execution" where
  "fleet_plan_row s =
     \<lparr>ex_workflow = fps_workflow s, ex_run = fps_run s, ex_first_run = [], ex_kind = ''fleet-plan'',
      ex_prompt = sanitize (fps_goal s), ex_started = fps_started s, ex_ended = fps_ended s,
      ex_status = fps_status s, ex_tokens = fps_tokens s, ex_schedule = [], ex_parent = fps_parent s,
      ex_detail = no_detail\<lparr>ed_plan_id := fps_plan_id s, ed_plan_nodes := fps_plan_nodes s,
        ed_error := fps_error s, ed_directory := pl_directory (fps_place s),
        ed_repository := pl_repository (fps_place s)\<rparr>\<rparr>"

definition no_fleet_state :: fleet_state where
  "no_fleet_state =
     \<lparr>fs_workflow = [], fs_run = [], fs_parent = [], fs_goal = [], fs_plan_id = [], fs_plan_nodes = 0,
      fs_started = 0, fs_ended = 0, fs_status = RunningStatus, fs_nodes = [], fs_place = no_place,
      fs_error = []\<rparr>"

definition no_fleet_plan_state :: fleet_plan_state where
  "no_fleet_plan_state =
     \<lparr>fps_workflow = [], fps_run = [], fps_parent = [], fps_goal = [], fps_plan_id = [], fps_plan_nodes = 0,
      fps_started = 0, fps_ended = 0, fps_status = RunningStatus, fps_tokens = 0, fps_place = no_place,
      fps_error = []\<rparr>"

definition start_fleet_state :: "fleet_env \<Rightarrow> fleet_input \<Rightarrow> fleet_state fleet_step" where
  "start_fleet_state env i =
     (if \<not> fe_recording env then ret no_fleet_state
      else andthen (asking (fe_now env)) (\<lambda>now.
           andthen (fleet_probe env (fi_work_dir i)) (\<lambda>place.
             let who = identity_of (fe_info env);
                 st = no_fleet_state\<lparr>fs_workflow := id_workflow who, fs_run := id_run who,
                   fs_parent := id_parent who, fs_goal := fp_goal (fi_plan i), fs_plan_id := fi_plan_id i,
                   fs_plan_nodes := length (fp_nodes (fi_plan i)), fs_started := now, fs_place := place\<rparr>
             in andthen (on_error (Wrapped ''record the fleet run as started: '')
                  (fleet_save env (fleet_row st))) (\<lambda>_. ret st))))"

definition start_fleet_plan_state :: "fleet_env \<Rightarrow> fleet_plan_input \<Rightarrow> fleet_plan_state fleet_step" where
  "start_fleet_plan_state env i =
     (if \<not> fe_recording env then ret no_fleet_plan_state
      else andthen (asking (fe_now env)) (\<lambda>now.
           andthen (fleet_probe env (fpi_work_dir i)) (\<lambda>place.
             let who = identity_of (fe_info env);
                 st = no_fleet_plan_state\<lparr>fps_workflow := id_workflow who, fps_run := id_run who,
                   fps_parent := id_parent who, fps_goal := fpi_goal i, fps_plan_id := fpi_plan_id i,
                   fps_started := now, fps_place := place\<rparr>
             in andthen (on_error (Wrapped ''record the fleet planning run as started: '')
                  (fleet_save env (fleet_plan_row st))) (\<lambda>_. ret st))))"

definition finished_fleet :: "fleet_env \<Rightarrow> fleet_state \<Rightarrow> fleet_error option \<Rightarrow> nat \<Rightarrow> fleet_state" where
  "finished_fleet env st err now =
     st\<lparr>fs_ended := now, fs_status := status_of err, fs_error := failure_text (fe_error_text env) err\<rparr>"

definition finished_fleet_plan ::
  "fleet_env \<Rightarrow> fleet_plan_state \<Rightarrow> fleet_error option \<Rightarrow> nat \<Rightarrow> fleet_plan_state" where
  "finished_fleet_plan env st err now =
     st\<lparr>fps_ended := now, fps_status := status_of err, fps_error := failure_text (fe_error_text env) err\<rparr>"

definition fleet_settle ::
  "fleet_env \<Rightarrow> string \<Rightarrow> string \<Rightarrow> (nat \<Rightarrow> execution) \<Rightarrow> string \<Rightarrow> fleet_error option \<Rightarrow> unit fleet_step" where
  "fleet_settle env what msg row result err =
     (if \<not> fe_recording env then ret ()
      else andthen (asking (fe_now env)) (\<lambda>now.
           andthen (attempt (on_error (Wrapped msg) (fleet_save env (row now)))) (\<lambda>r.
             case r of
               Inl e \<Rightarrow> terminal_write_failed (fleet_send env) (fe_error_text env) what result err e
             | Inr _ \<Rightarrow> ret ())))"

section \<open>Running a plan\<close>

type_synonym results = "string \<rightharpoonup> node_result"

definition succeeded_in :: "results \<Rightarrow> string \<Rightarrow> bool" where
  "succeeded_in results d = (case results d of None \<Rightarrow> False | Some r \<Rightarrow> nr_status r = NodeSucceeded)"

definition blocking_dependency :: "fleet_node \<Rightarrow> results \<Rightarrow> string" where
  "blocking_dependency n results =
     (case find (\<lambda>d. \<not> succeeded_in results d) (sort_strings (fn_depends_on n)) of
        None \<Rightarrow> [] | Some d \<Rightarrow> d)"

definition no_node :: fleet_node where
  "no_node = \<lparr>fn_id = [], fn_prompt = [], fn_depends_on = []\<rparr>"

definition nodes_by_id :: "fleet_plan \<Rightarrow> string \<rightharpoonup> fleet_node" where
  "nodes_by_id plan = foldl (\<lambda>m n. m(fn_id n \<mapsto> n)) Map.empty (fp_nodes plan)"

definition node_of :: "fleet_plan \<Rightarrow> string \<Rightarrow> fleet_node" where
  "node_of plan nid = lookup_or no_node (nodes_by_id plan) nid"

definition skipped_result :: "string \<Rightarrow> string \<Rightarrow> node_result" where
  "skipped_result nid blocker =
     \<lparr>nr_id = nid, nr_status = NodeSkipped,
      nr_detail = ''skipped: dependency '' @ quoted blocker @ '' did not succeed'', nr_tokens = 0\<rparr>"

definition node_input :: "fleet_input \<Rightarrow> string \<Rightarrow> string \<Rightarrow> string \<Rightarrow> develop_input" where
  "node_input i fid base nid =
     (let node = node_of (fi_plan i) nid in
      \<lparr>di_initiator = [], di_work_dir = fi_work_dir i, di_branch = node_branch fid nid,
       di_worktrees_dir = fi_worktrees_dir i, di_start_point = base,
       di_merge_branches = dependency_branches fid node, di_prompt = fn_prompt node,
       di_summary = fi_summary i, di_with_remote = False, di_await_review = True, di_settings = []\<rparr>)"

definition node_child :: "string \<Rightarrow> string \<Rightarrow> string" where
  "node_child fid nid = fid @ ''-'' @ nid"

text \<open>What a layer carries: the nodes started, the results so far, and the order they settled in.\<close>

definition start_node ::
  "fleet_input \<Rightarrow> string \<Rightarrow> string \<Rightarrow> string \<Rightarrow> string list \<times> results \<times> string list \<Rightarrow>
   (string list \<times> results \<times> string list) fleet_step" where
  "start_node i fid base nid = (\<lambda>(started, results, order).
     let blocker = blocking_dependency (node_of (fi_plan i) nid) results in
     if blocker \<noteq> [] then ret (started, results(nid \<mapsto> skipped_result nid blocker), order @ [nid])
     else andthen (perform (\<lambda>_. Inr ()) (\<lambda>_ :: fleet_error + unit.
                     FlStart (node_child fid nid) (node_input i fid base nid)))
            (\<lambda>_. ret (started @ [nid], results, order)))"

definition node_verdict :: "(fleet_error \<Rightarrow> string) \<Rightarrow> string \<Rightarrow> fleet_error + string \<Rightarrow> node_result" where
  "node_verdict error_text nid r =
     (case r of
        Inl e \<Rightarrow>
          \<lparr>nr_id = nid,
           nr_status =
             (if app_type e = Some seed_conflict_blocked \<or> app_type e = Some review_not_converged
              then NodeBlocked else NodeFailed),
           nr_detail = error_text e, nr_tokens = 0\<rparr>
      | Inr out \<Rightarrow>
          \<lparr>nr_id = nid, nr_status = NodeSucceeded, nr_detail = out, nr_tokens = parse_token_total out\<rparr>)"

definition settle_node ::
  "fleet_env \<Rightarrow> string \<Rightarrow> string \<Rightarrow> results \<times> string list \<Rightarrow> (results \<times> string list) fleet_step" where
  "settle_node env fid nid = (\<lambda>(results, order).
     andthen (attempt (call (fe_child env (node_child fid nid)) (FlDone (node_child fid nid)))) (\<lambda>r.
       ret (results(nid \<mapsto> node_verdict (fe_error_text env) nid r), order @ [nid])))"

definition run_layer ::
  "fleet_env \<Rightarrow> fleet_input \<Rightarrow> string \<Rightarrow> string \<Rightarrow> string list \<Rightarrow> results \<times> string list \<Rightarrow>
   (results \<times> string list) fleet_step" where
  "run_layer env i fid base layer = (\<lambda>(results, order).
     andthen (for_each (start_node i fid base) layer ([], results, order)) (\<lambda>(started, results, order).
       for_each (settle_node env fid) started (results, order)))"

record fleet_vars =
  fv_started :: bool
  fv_rec :: fleet_state

type_synonym 'a fleet_body = "(fleet_ev, fleet_vars, fleet_error, 'a) body"

definition ordered_results :: "results \<Rightarrow> string list \<Rightarrow> node_result list" where
  "ordered_results results order = map (\<lambda>nid. lookup_or
     \<lparr>nr_id = [], nr_status = NodeFailed, nr_detail = [], nr_tokens = 0\<rparr> results nid) order"

text \<open>
  The error of an invalid plan; the layering of every plan returns, so its \<^const>\<open>None\<close> is never
  met.
\<close>

definition layers_or_error :: "fleet_plan \<Rightarrow> fleet_error + string list list" where
  "layers_or_error plan =
     (case topo_layers plan of
        Some (Inr layers) \<Rightarrow> Inr layers
      | Some (Inl e) \<Rightarrow> Inl (AppErr err_invalid_plan (''invalid fleet plan: '' @ plan_error_text e))
      | None \<Rightarrow> Inl (AppErr err_invalid_plan []))"

definition fleet_body :: "fleet_env \<Rightarrow> fleet_input \<Rightarrow> string fleet_body" where
  "fleet_body env i =
     vthen (vdo (start_fleet_state env i)) (\<lambda>st.
     vthen (vset (\<lambda>v. v\<lparr>fv_started := True, fv_rec := st\<rparr>)) (\<lambda>_.
     if fi_worktrees_dir i = [] then
       vfail (AppErr err_missing_worktrees
         ''WorktreesDir is required so parallel nodes never share a working tree'')
     else
       vthen (vdo (lift (layers_or_error (fi_plan i)))) (\<lambda>layers.
       vthen (vdo (call (fe_base env (fi_work_dir i)) (FlBase (fi_work_dir i)))) (\<lambda>base.
       vthen (vdo (for_each (run_layer env i (wi_workflow_id (fe_info env)) base) layers (Map.empty, [])))
         (\<lambda>(results, order).
       let ordered = ordered_results results order in
       vthen (vset (\<lambda>v. v\<lparr>fv_rec := (fv_rec v)\<lparr>fs_nodes := ordered\<rparr>\<rparr>)) (\<lambda>_.
       vthen (vdo (asking (fe_canceled env))) (\<lambda>canceled.
       if canceled then vfail CanceledErr
       else
         let summary = summarize_fleet (fp_goal (fi_plan i)) ordered in
         vthen (vdo (notify_best_effort (fleet_send env) (plain_notice ''Fleet run complete'' summary)))
           (\<lambda>_. vret summary))))))))"

definition fleet_deferred ::
  "fleet_env \<Rightarrow> fleet_error + string \<Rightarrow> fleet_vars \<Rightarrow> unit fleet_step" where
  "fleet_deferred env r v =
     andthen
       (if fv_started v then
          fleet_settle env ''fleet run'' ''record the fleet run's terminal state: ''
            (\<lambda>now. fleet_row (finished_fleet env (fv_rec v) (err_of r) now))
            (case r of Inl _ \<Rightarrow> [] | Inr summary \<Rightarrow> summary) (err_of r)
        else ret ())
       (\<lambda>_. notify_failure (fleet_send env) (fe_error_text env) ''Fleet run failed'' (err_of r))"

definition fleet_workflow :: "fleet_env \<Rightarrow> fleet_input \<Rightarrow> string fleet_step" where
  "fleet_workflow env i =
     with_vars \<lparr>fv_started = False, fv_rec = no_fleet_state\<rparr> (fleet_body env i) (fleet_deferred env)"

section \<open>The nodes of a plan\<close>

lemma deps_of_node_of: "fn_depends_on (node_of plan nid) = deps_of plan nid"
proof -
  have "map_option fn_depends_on (foldl (\<lambda>m n. m(fn_id n \<mapsto> n)) m ns nid) =
      foldl (\<lambda>m n. m(fn_id n \<mapsto> fn_depends_on n)) m' ns nid"
    if "map_option fn_depends_on (m nid) = m' nid" for m m' and ns :: "fleet_node list"
    using that
  proof (induction ns arbitrary: m m')
    case (Cons a ns)
    show ?case
      using Cons.IH [of "m(fn_id a \<mapsto> a)" "m'(fn_id a \<mapsto> fn_depends_on a)"] Cons.prems by simp
  qed simp
  from this [of Map.empty Map.empty "fp_nodes plan"]
  show ?thesis
    by (auto simp: node_of_def deps_of_def nodes_by_id_def deps_map_def lookup_or_def no_node_def
        split: option.splits)
qed

lemma find_blocking: "find (\<lambda>d. \<not> succeeded_in rs d) ds = (case filter (\<lambda>d. \<not> succeeded_in rs d) ds of [] \<Rightarrow> None | d # _ \<Rightarrow> Some d)"
  by (induction ds) auto

lemma blocking_none:
  assumes "[] \<notin> set (deps_of plan nid)"
  shows "blocking_dependency (node_of plan nid) rs = [] \<longleftrightarrow> (\<forall>d \<in> set (deps_of plan nid). succeeded_in rs d)"
proof -
  let ?f = "filter (\<lambda>d. \<not> succeeded_in rs d) (sort_strings (deps_of plan nid))"
  have "blocking_dependency (node_of plan nid) rs = (case ?f of [] \<Rightarrow> [] | d # _ \<Rightarrow> d)"
    by (simp add: blocking_dependency_def deps_of_node_of find_blocking split: list.split)
  moreover have "?f = [] \<longleftrightarrow> (\<forall>d \<in> set (deps_of plan nid). succeeded_in rs d)"
    by (simp add: filter_empty_conv)
  moreover have "d \<noteq> []" if "?f = d # ds" for d ds
  proof -
    have "d \<in> set ?f" using that by simp
    then show ?thesis using assms by auto
  qed
  ultimately show ?thesis by (cases ?f) auto
qed

lemma blocking_some:
  assumes "blocking_dependency (node_of plan nid) rs \<noteq> []"
  shows "blocking_dependency (node_of plan nid) rs \<in> set (deps_of plan nid) \<and>
   \<not> succeeded_in rs (blocking_dependency (node_of plan nid) rs)"
proof -
  let ?f = "filter (\<lambda>d. \<not> succeeded_in rs d) (sort_strings (deps_of plan nid))"
  have b: "blocking_dependency (node_of plan nid) rs = (case ?f of [] \<Rightarrow> [] | d # _ \<Rightarrow> d)"
    by (simp add: blocking_dependency_def deps_of_node_of find_blocking split: list.split)
  with assms obtain d ds where f: "?f = d # ds" by (cases ?f) auto
  have "d \<in> set ?f" unfolding f by simp
  moreover have "blocking_dependency (node_of plan nid) rs = d" using b f by simp
  ultimately show ?thesis by simp
qed

lemma node_child_inj [simp]: "node_child fid x = node_child fid y \<longleftrightarrow> x = y"
  by (simp add: node_child_def)

section \<open>What a run did\<close>

definition starts :: "fleet_ev list \<Rightarrow> string list" where
  "starts l = concat (map (\<lambda>e. case e of FlStart c inp \<Rightarrow> [c] | _ \<Rightarrow> []) l)"

lemma starts_simps [simp]:
  "starts [] = []" "starts (l @ d) = starts l @ starts d"
  "starts (FlStart c inp # l) = c # starts l"
  by (simp_all add: starts_def)

text \<open>A child is started for a node of a valid plan, in its own worktree and branch, from the base
  the run resolved, once every dependency's child has succeeded.\<close>

definition start_ok :: "fleet_env \<Rightarrow> fleet_input \<Rightarrow> fleet_ev list \<Rightarrow> string \<Rightarrow> develop_input \<Rightarrow> bool" where
  "start_ok env i before c inp =
     (validate_plan (fi_plan i) = Inr () \<and> (\<exists>nid base. nid \<in> set (plan_ids (fi_plan i)) \<and> fi_worktrees_dir i \<noteq> [] \<and>
        c = node_child (wi_workflow_id (fe_info env)) nid \<and>
        inp = node_input i (wi_workflow_id (fe_info env)) base nid \<and>
        FlBase (fi_work_dir i) (Inr base) \<in> set before \<and>
        (\<forall>d \<in> set (deps_of (fi_plan i) nid). \<exists>out.
           FlDone (node_child (wi_workflow_id (fe_info env)) d) (Inr out) \<in> set before)))"

definition gated :: "fleet_env \<Rightarrow> fleet_input \<Rightarrow> fleet_ev list \<Rightarrow> bool" where
  "gated env i l = (\<forall>a c inp b. l = a @ FlStart c inp # b \<longrightarrow> start_ok env i a c inp)"

lemma gated_Nil [simp]: "gated env i []"
  by (simp add: gated_def)

lemma gated_snoc:
  "gated env i (l @ [e]) \<longleftrightarrow> gated env i l \<and> (\<forall>c inp. e = FlStart c inp \<longrightarrow> start_ok env i l c inp)"
proof
  assume g: "gated env i (l @ [e])"
  have "gated env i l"
    unfolding gated_def
  proof (intro allI impI)
    fix a c inp b assume "l = a @ FlStart c inp # b"
    then have "l @ [e] = a @ FlStart c inp # (b @ [e])" by simp
    with g show "start_ok env i a c inp" unfolding gated_def by blast
  qed
  with g show "gated env i l \<and> (\<forall>c inp. e = FlStart c inp \<longrightarrow> start_ok env i l c inp)"
    unfolding gated_def by blast
next
  assume g: "gated env i l \<and> (\<forall>c inp. e = FlStart c inp \<longrightarrow> start_ok env i l c inp)"
  show "gated env i (l @ [e])"
    unfolding gated_def
  proof (intro allI impI)
    fix a c inp b assume s: "l @ [e] = a @ FlStart c inp # b"
    show "start_ok env i a c inp"
    proof (cases b rule: rev_cases)
      case Nil
      with s g show ?thesis by simp
    next
      case (snoc b' x)
      with s have "l = a @ FlStart c inp # b'" by simp
      with g show ?thesis unfolding gated_def by blast
    qed
  qed
qed

text \<open>The verdict on a node: skipped over a dependency that did not succeed, or what its child said.\<close>

definition skipped :: "fleet_input \<Rightarrow> results \<Rightarrow> string \<Rightarrow> node_result \<Rightarrow> bool" where
  "skipped i rs nid r = (\<exists>d \<in> set (deps_of (fi_plan i) nid). r = skipped_result nid d \<and>
     (\<exists>rd. rs d = Some rd \<and> nr_status rd \<noteq> NodeSucceeded))"

definition child_ran :: "fleet_env \<Rightarrow> fleet_input \<Rightarrow> results \<Rightarrow> fleet_ev list \<Rightarrow> string \<Rightarrow> node_result \<Rightarrow> bool" where
  "child_ran env i rs l nid r =
     (node_child (wi_workflow_id (fe_info env)) nid \<in> set (starts l) \<and>
      (\<forall>d \<in> set (deps_of (fi_plan i) nid). succeeded_in rs d) \<and>
      (\<exists>a. FlDone (node_child (wi_workflow_id (fe_info env)) nid) a \<in> set l \<and>
         r = node_verdict (fe_error_text env) nid (case a of Inl e \<Rightarrow> Inl (fault e) | Inr out \<Rightarrow> Inr out)))"

lemma verdict_fields [simp]:
  "nr_id (node_verdict f nid r) = nid" "nr_id (skipped_result nid b) = nid"
  "nr_status (skipped_result nid b) = NodeSkipped" "nr_status (node_verdict f nid r) \<noteq> NodeSkipped"
  "nr_status (node_verdict f nid r) = NodeSucceeded \<longleftrightarrow> (\<exists>out. r = Inr out)"
  by (auto simp: node_verdict_def skipped_result_def split: sum.splits)

text \<open>
  The state between two steps of a layer: \<open>order\<close> is settled, \<open>started\<close> is running, and the
  nodes of the layer have all their dependencies settled.
\<close>

definition fleet_inv ::
  "fleet_env \<Rightarrow> fleet_input \<Rightarrow> string \<Rightarrow> string list \<Rightarrow> results \<Rightarrow> string list \<Rightarrow> fleet_ev list \<Rightarrow> bool" where
  "fleet_inv env i base started rs order l =
     (let fid = wi_workflow_id (fe_info env) in
      dom rs = set order \<and> distinct (order @ started) \<and> gated env i l \<and> distinct (starts l) \<and>
      set (starts l) = node_child fid ` (set started \<union> {n. \<exists>r. rs n = Some r \<and> nr_status r \<noteq> NodeSkipped}) \<and>
      fi_worktrees_dir i \<noteq> [] \<and> FlBase (fi_work_dir i) (Inr base) \<in> set l \<and>
      (\<forall>n \<in> set started. (\<forall>d \<in> set (deps_of (fi_plan i) n). succeeded_in rs d)) \<and>
      (\<forall>n r. rs n = Some r \<longrightarrow> skipped i rs n r \<or> child_ran env i rs l n r))"

lemma fleet_invI:
  "dom rs = set order \<Longrightarrow> distinct (order @ started) \<Longrightarrow> gated env i l \<Longrightarrow> distinct (starts l) \<Longrightarrow>
   set (starts l) = node_child (wi_workflow_id (fe_info env)) `
     (set started \<union> {n. \<exists>r. rs n = Some r \<and> nr_status r \<noteq> NodeSkipped}) \<Longrightarrow>
   fi_worktrees_dir i \<noteq> [] \<Longrightarrow> FlBase (fi_work_dir i) (Inr base) \<in> set l \<Longrightarrow>
   (\<And>n d. n \<in> set started \<Longrightarrow> d \<in> set (deps_of (fi_plan i) n) \<Longrightarrow> succeeded_in rs d) \<Longrightarrow>
   (\<And>n r. rs n = Some r \<Longrightarrow> skipped i rs n r \<or> child_ran env i rs l n r) \<Longrightarrow>
   fleet_inv env i base started rs order l"
  unfolding fleet_inv_def Let_def by blast

lemma fleet_invD:
  assumes "fleet_inv env i base started rs order l"
  shows "dom rs = set order" "distinct (order @ started)" "gated env i l" "distinct (starts l)"
    "set (starts l) = node_child (wi_workflow_id (fe_info env)) `
     (set started \<union> {n. \<exists>r. rs n = Some r \<and> nr_status r \<noteq> NodeSkipped})"
    "fi_worktrees_dir i \<noteq> []" "FlBase (fi_work_dir i) (Inr base) \<in> set l"
    "n \<in> set started \<Longrightarrow> d \<in> set (deps_of (fi_plan i) n) \<Longrightarrow> succeeded_in rs d"
    "rs n = Some r \<Longrightarrow> skipped i rs n r \<or> child_ran env i rs l n r"
  using assms unfolding fleet_inv_def Let_def by blast+

lemma succeeded_in_done:
  assumes "fleet_inv env i base started rs order l" "succeeded_in rs d"
  shows "\<exists>out. FlDone (node_child (wi_workflow_id (fe_info env)) d) (Inr out) \<in> set l"
proof -
  obtain r where r: "rs d = Some r" "nr_status r = NodeSucceeded"
    using assms(2) by (auto simp: succeeded_in_def split: option.splits)
  then have "child_ran env i rs l d r"
    using fleet_invD(9) [OF assms(1) r(1)] by (auto simp: skipped_def)
  then obtain a where a: "FlDone (node_child (wi_workflow_id (fe_info env)) d) a \<in> set l"
      "r = node_verdict (fe_error_text env) d (case a of Inl e \<Rightarrow> Inl (fault e) | Inr out \<Rightarrow> Inr out)"
    by (auto simp: child_ran_def)
  with r(2) show ?thesis by (cases a) auto
qed

lemma skipped_upd: "skipped i rs n r \<Longrightarrow> m \<notin> dom rs \<Longrightarrow> skipped i (rs(m \<mapsto> x)) n r"
  unfolding skipped_def by (metis domI fun_upd_apply)

lemma succeeded_upd: "succeeded_in rs d \<Longrightarrow> m \<notin> dom rs \<Longrightarrow> succeeded_in (rs(m \<mapsto> x)) d"
  by (auto simp: succeeded_in_def split: option.splits)

lemma ran_upd: "child_ran env i rs l n r \<Longrightarrow> m \<notin> dom rs \<Longrightarrow> child_ran env i (rs(m \<mapsto> x)) (l @ d) n r"
  unfolding child_ran_def by (auto intro: succeeded_upd)

lemma ran_more: "child_ran env i rs l n r \<Longrightarrow> child_ran env i rs (l @ d) n r"
  unfolding child_ran_def by auto

lemma inv_skip:
  assumes inv: "fleet_inv env i base started rs order l" and n: "nid \<notin> set order \<union> set started"
    and s: "skipped i rs nid r"
  shows "fleet_inv env i base started (rs(nid \<mapsto> r)) (order @ [nid]) l"
proof -
  note f = fleet_invD [OF inv]
  have dom: "nid \<notin> dom rs" using f(1) n by simp
  have st: "nr_status r = NodeSkipped" using s by (auto simp: skipped_def)
  have same: "{n. \<exists>q. (rs(nid \<mapsto> r)) n = Some q \<and> nr_status q \<noteq> NodeSkipped} =
      {n. \<exists>q. rs n = Some q \<and> nr_status q \<noteq> NodeSkipped}"
    using dom st by auto
  show ?thesis
  proof (rule fleet_invI)
    show "set (starts l) = node_child (wi_workflow_id (fe_info env)) `
        (set started \<union> {n. \<exists>q. (rs(nid \<mapsto> r)) n = Some q \<and> nr_status q \<noteq> NodeSkipped})"
      unfolding same by (rule f(5))
    show "skipped i (rs(nid \<mapsto> r)) n q \<or> child_ran env i (rs(nid \<mapsto> r)) l n q"
      if "(rs(nid \<mapsto> r)) n = Some q" for n q
    proof (cases "n = nid")
      case True
      with that skipped_upd [OF s dom] show ?thesis by simp
    next
      case False
      with that f(9) [of n q] skipped_upd [OF _ dom] ran_upd [OF _ dom, where d = "[]"] show ?thesis by auto
    qed
  qed (use f n dom in \<open>auto intro: succeeded_upd [OF _ dom]\<close>)
qed

lemma inv_start:
  assumes inv: "fleet_inv env i base started rs order l" and n: "nid \<notin> set order \<union> set started"
    "nid \<in> set (plan_ids (fi_plan i)) \<and> validate_plan (fi_plan i) = Inr ()"
    and d: "\<forall>d \<in> set (deps_of (fi_plan i) nid). succeeded_in rs d"
  shows "fleet_inv env i base (started @ [nid]) rs order
    (l @ [FlStart (node_child (wi_workflow_id (fe_info env)) nid)
      (node_input i (wi_workflow_id (fe_info env)) base nid)])"
proof -
  note f = fleet_invD [OF inv]
  let ?fid = "wi_workflow_id (fe_info env)"
  have "\<forall>e \<in> set (deps_of (fi_plan i) nid). \<exists>out. FlDone (node_child ?fid e) (Inr out) \<in> set l"
    using d succeeded_in_done [OF inv] by blast
  with f(6,7) n(2) have ok: "start_ok env i l (node_child ?fid nid) (node_input i ?fid base nid)"
    unfolding start_ok_def by blast
  have new: "node_child ?fid nid \<notin> set (starts l)"
  proof
    assume "node_child ?fid nid \<in> set (starts l)"
    then have "nid \<in> set started \<union> {n. \<exists>r. rs n = Some r \<and> nr_status r \<noteq> NodeSkipped}"
      unfolding f(5) by (simp add: image_iff)
    then have "nid \<in> set started \<union> dom rs" by auto
    with f(1) n(1) show False by simp
  qed
  show ?thesis
  proof (rule fleet_invI)
    show "skipped i rs m q \<or> child_ran env i rs (l @ [FlStart (node_child ?fid nid) (node_input i ?fid base nid)]) m q"
      if "rs m = Some q" for m q
      using f(9) [OF that] ran_more by blast
    show "gated env i (l @ [FlStart (node_child ?fid nid) (node_input i ?fid base nid)])"
      using f(3) ok by (simp add: gated_snoc)
    show "succeeded_in rs e" if "m \<in> set (started @ [nid])" "e \<in> set (deps_of (fi_plan i) m)" for m e
      using that d f(8) [of m e] by auto
    show "distinct (order @ started @ [nid])" using f(2) n(1) by simp
    show "distinct (starts (l @ [FlStart (node_child ?fid nid) (node_input i ?fid base nid)]))"
      using f(4) new by simp
    show "set (starts (l @ [FlStart (node_child ?fid nid) (node_input i ?fid base nid)])) =
        node_child ?fid ` (set (started @ [nid]) \<union> {n. \<exists>r. rs n = Some r \<and> nr_status r \<noteq> NodeSkipped})"
      using f(5) by simp
  qed (use f(1,6,7) in simp_all)
qed

lemma inv_settle:
  assumes inv: "fleet_inv env i base (nid # started) rs order l"
  shows "fleet_inv env i base started
    (rs(nid \<mapsto> node_verdict (fe_error_text env) nid (case a of Inl e \<Rightarrow> Inl (fault e) | Inr out \<Rightarrow> Inr out)))
    (order @ [nid]) (l @ [FlDone (node_child (wi_workflow_id (fe_info env)) nid) a])"
proof -
  note f = fleet_invD [OF inv]
  let ?fid = "wi_workflow_id (fe_info env)"
  let ?e = "FlDone (node_child ?fid nid) a"
  let ?r = "node_verdict (fe_error_text env) nid (case a of Inl e \<Rightarrow> Inl (fault e) | Inr out \<Rightarrow> Inr out)"
  let ?rs = "rs(nid \<mapsto> ?r)"
  have dom: "nid \<notin> dom rs" using f(1,2) by auto
  have same: "set started \<union> {n. \<exists>q. ?rs n = Some q \<and> nr_status q \<noteq> NodeSkipped} =
      set (nid # started) \<union> {n. \<exists>q. rs n = Some q \<and> nr_status q \<noteq> NodeSkipped}"
    using dom by (auto split: if_splits)
  have mine: "child_ran env i ?rs (l @ [?e]) nid ?r"
    unfolding child_ran_def using f(5) f(8) [of nid] by (auto intro: succeeded_upd [OF _ dom])
  have none: "starts [?e] = []" by (simp add: starts_def)
  show ?thesis
  proof (rule fleet_invI)
    show "set (starts (l @ [?e])) = node_child ?fid `
        (set started \<union> {n. \<exists>q. ?rs n = Some q \<and> nr_status q \<noteq> NodeSkipped})"
      unfolding same using f(5) none by simp
    show "skipped i ?rs n q \<or> child_ran env i ?rs (l @ [?e]) n q" if "?rs n = Some q" for n q
    proof (cases "n = nid")
      case True
      with that mine show ?thesis by simp
    next
      case False
      with that f(9) [of n q] skipped_upd [OF _ dom] ran_upd [OF _ dom] show ?thesis by auto
    qed
    show "succeeded_in ?rs e" if "m \<in> set started" "e \<in> set (deps_of (fi_plan i) m)" for m e
      using that f(8) [of m e] succeeded_upd [OF _ dom] by simp
  qed (use f(1-4,6,7) none in \<open>auto simp: gated_snoc\<close>)
qed

section \<open>Layers\<close>

definition ready :: "fleet_input \<Rightarrow> string set \<Rightarrow> string \<Rightarrow> bool" where
  "ready i settled nid = (validate_plan (fi_plan i) = Inr () \<and> nid \<in> set (plan_ids (fi_plan i)) \<and> nid \<notin> settled \<and>
     set (deps_of (fi_plan i) nid) \<subseteq> settled \<and> [] \<notin> set (deps_of (fi_plan i) nid))"

lemma start_node_wp:
  assumes inv: "fleet_inv env i base started rs order l" and n: "ready i (set order) nid" "nid \<notin> set started"
    and Q: "\<And>s' rs' o' l'. fleet_inv env i base s' rs' o' l' \<Longrightarrow> set order \<subseteq> set o' \<Longrightarrow>
      set o' \<subseteq> insert nid (set order) \<Longrightarrow> set o' \<union> set s' = insert nid (set order \<union> set started) \<Longrightarrow>
      Q (Inr (s', rs', o')) l'"
  shows "wp (start_node i (wi_workflow_id (fe_info env)) base nid (started, rs, order)) Q l"
proof -
  let ?b = "blocking_dependency (node_of (fi_plan i) nid) rs"
  have new: "nid \<notin> set order \<union> set started" using n by (simp add: ready_def)
  note f = fleet_invD [OF inv]
  show ?thesis
  proof (cases "?b = []")
    case False
    from blocking_some [OF this] have b: "?b \<in> set (deps_of (fi_plan i) nid)" "\<not> succeeded_in rs ?b" by auto
    have "?b \<in> dom rs" using b(1) n(1) f(1) by (auto simp: ready_def)
    then have "skipped i rs nid (skipped_result nid ?b)"
      using b unfolding skipped_def by (intro bexI [of _ ?b]) (auto simp: succeeded_in_def)
    from Q [OF inv_skip [OF inv new this]] False show ?thesis
      by (auto simp: start_node_def wp_rules Let_def)
  next
    case True
    then have "\<forall>d \<in> set (deps_of (fi_plan i) nid). succeeded_in rs d"
      using blocking_none [of "fi_plan i" nid rs] n(1) by (simp add: ready_def)
    from inv_start [OF inv new _ this] n(1)
    have "fleet_inv env i base (started @ [nid]) rs order
        (l @ [FlStart (node_child (wi_workflow_id (fe_info env)) nid)
          (node_input i (wi_workflow_id (fe_info env)) base nid)])" by (simp add: ready_def)
    from Q [OF this subset_refl subset_insertI] True show ?thesis
      by (simp add: start_node_def wp_rules Let_def)
  qed
qed

lemma start_all:
  assumes "fleet_inv env i base started rs order l" "distinct ns" "set ns \<inter> set started = {}"
    and "\<And>n. n \<in> set ns \<Longrightarrow> ready i (set order) n"
    and "\<And>s' rs' o' l'. fleet_inv env i base s' rs' o' l' \<Longrightarrow>
      set o' \<union> set s' = set order \<union> set started \<union> set ns \<Longrightarrow> Q (Inr (s', rs', o')) l'"
  shows "wp (for_each (start_node i (wi_workflow_id (fe_info env)) base) ns (started, rs, order)) Q l"
  using assms
proof (induction ns arbitrary: started rs order l)
  case Nil
  then show ?case by (simp add: wp_rules)
next
  case (Cons n ns)
  show ?case
    unfolding for_each.simps wp_andthen
  proof (rule start_node_wp [OF Cons.prems(1)])
    show "ready i (set order) n" "n \<notin> set started" using Cons.prems(3,4) by auto
  next
    fix s' rs' o' l'
    assume s: "fleet_inv env i base s' rs' o' l'" "set order \<subseteq> set o'" "set o' \<subseteq> insert n (set order)"
      "set o' \<union> set s' = insert n (set order \<union> set started)"
    have "wp (for_each (start_node i (wi_workflow_id (fe_info env)) base) ns (s', rs', o')) Q l'"
    proof (rule Cons.IH [OF s(1)])
      show "distinct ns" using Cons.prems(2) by simp
      show "set ns \<inter> set s' = {}"
      proof (rule Int_emptyI)
        fix x assume x: "x \<in> set ns" "x \<in> set s'"
        then have "x \<in> insert n (set order \<union> set started)" using s(4) by blast
        with x(1) Cons.prems(2,3) Cons.prems(4) [of x] show False by (auto simp: ready_def)
      qed
      show "ready i (set o') m" if "m \<in> set ns" for m
        using Cons.prems(4) [of m] that s(2,3) Cons.prems(2) by (auto simp: ready_def)
      show "Q (Inr (s'', rs'', o'')) l''"
        if "fleet_inv env i base s'' rs'' o'' l''" "set o'' \<union> set s'' = set o' \<union> set s' \<union> set ns" for s'' rs'' o'' l''
        using Cons.prems(5) [OF that(1)] that(2) s(4) by auto
    qed
    then show "case Inr (s', rs', o') of Inl e \<Rightarrow> Q (Inl e) l'
        | Inr x \<Rightarrow> wp (for_each (start_node i (wi_workflow_id (fe_info env)) base) ns x) Q l'" by simp
  qed
qed

lemma settle_node_wp:
  "wp (settle_node env fid n (rs, order)) Q l =
   (let a = fe_child env (node_child fid n) l in
    Q (Inr (rs(n \<mapsto> node_verdict (fe_error_text env) n (case a of Inl e \<Rightarrow> Inl (fault e) | Inr out \<Rightarrow> Inr out)),
            order @ [n])) (l @ [FlDone (node_child fid n) a]))"
  by (simp add: settle_node_def wp_rules Let_def)

lemma settle_all:
  assumes "fleet_inv env i base started rs order l"
    and "\<And>rs' o' l'. fleet_inv env i base [] rs' o' l' \<Longrightarrow> set o' = set order \<union> set started \<Longrightarrow> Q (Inr (rs', o')) l'"
  shows "wp (for_each (settle_node env (wi_workflow_id (fe_info env))) started (rs, order)) Q l"
  using assms
proof (induction started arbitrary: rs order l)
  case Nil
  then show ?case by (simp add: wp_rules)
next
  case (Cons n ns)
  let ?fid = "wi_workflow_id (fe_info env)" and ?a = "fe_child env (node_child (wi_workflow_id (fe_info env)) n) l"
  have "wp (for_each (settle_node env ?fid) ns
      (rs(n \<mapsto> node_verdict (fe_error_text env) n (case ?a of Inl e \<Rightarrow> Inl (fault e) | Inr out \<Rightarrow> Inr out)), order @ [n]))
      Q (l @ [FlDone (node_child ?fid n) ?a])"
  proof (rule Cons.IH [OF inv_settle [OF Cons.prems(1)]])
    fix rs' o' l'
    assume "fleet_inv env i base [] rs' o' l'" "set o' = set (order @ [n]) \<union> set ns"
    then show "Q (Inr (rs', o')) l'" by (intro Cons.prems(2)) auto
  qed
  then show ?case unfolding for_each.simps wp_andthen settle_node_wp Let_def by simp
qed

lemma run_layer_wp:
  "wp (run_layer env i fid base ns (rs, order)) Q l =
   wp (for_each (start_node i fid base) ns ([], rs, order))
     (\<lambda>r l'. case r of Inl e \<Rightarrow> Q (Inl e) l'
       | Inr (started, rs, order) \<Rightarrow> wp (for_each (settle_node env fid) started (rs, order)) Q l') l"
  unfolding run_layer_def prod.case wp_andthen
  by (rule arg_cong [where f = "\<lambda>P. wp _ P l"]) (auto simp: fun_eq_iff split: sum.split)

fun layered :: "fleet_input \<Rightarrow> string set \<Rightarrow> string list list \<Rightarrow> bool" where
  "layered i settled [] = True"
| "layered i settled (ns # nss) =
     (distinct ns \<and> (\<forall>n \<in> set ns. ready i settled n) \<and> layered i (settled \<union> set ns) nss)"

lemma run_layers:
  assumes "fleet_inv env i base [] rs order l" "layered i (set order) layers"
    and "\<And>rs' o' l'. fleet_inv env i base [] rs' o' l' \<Longrightarrow>
      set o' = set order \<union> set (concat layers) \<Longrightarrow> Q (Inr (rs', o')) l'"
  shows "wp (for_each (run_layer env i (wi_workflow_id (fe_info env)) base) layers (rs, order)) Q l"
  using assms
proof (induction layers arbitrary: rs order l)
  case Nil
  then show ?case by (simp add: wp_rules)
next
  case (Cons ns nss)
  show ?case
    unfolding for_each.simps wp_andthen run_layer_wp
  proof (rule start_all [OF Cons.prems(1)], goal_cases)
    case (4 s' rs' o' l')
    show ?case
      unfolding sum.case prod.case
    proof (rule settle_all [OF 4(1)])
      fix rs2 o2 l2
      assume s: "fleet_inv env i base [] rs2 o2 l2" "set o2 = set o' \<union> set s'"
      have "set o2 = set order \<union> set ns" using s(2) 4(2) by simp
      then have "wp (for_each (run_layer env i (wi_workflow_id (fe_info env)) base) nss (rs2, o2)) Q l2"
        using Cons.prems(2,3) by (intro Cons.IH [OF s(1)]) (auto simp: Un_assoc)
      then show "case Inr (rs2, o2) of Inl e \<Rightarrow> Q (Inl e) l2
          | Inr x \<Rightarrow> wp (for_each (run_layer env i (wi_workflow_id (fe_info env)) base) nss x) Q l2"
        by simp
    qed
  qed (use Cons.prems(2) in auto)
qed

lemma topo_layered:
  assumes "well_formed (fi_plan i)"
  obtains layers where "topo_layers (fi_plan i) = Some (Inr layers)" "layered i {} layers"
    "set (concat layers) = set (plan_ids (fi_plan i))"
proof -
  obtain layers where t: "topo_layers (fi_plan i) = Some (Inr layers)" "distinct (concat layers)"
      "set (concat layers) = set (plan_ids (fi_plan i))"
    and d: "\<And>k x e. k < length layers \<Longrightarrow> x \<in> set (layers ! k) \<Longrightarrow> e \<in> set (deps_of (fi_plan i) x) \<Longrightarrow>
      \<exists>j < k. e \<in> set (layers ! j)"
    using topo_layers_layers [OF assms] by metis
  have valid: "validate_plan (fi_plan i) = Inr ()" using assms by (simp add: validate_plan_iff)
  have ne: "[] \<notin> set (plan_ids (fi_plan i))"
    using assms by (auto simp: well_formed_def node_id_pattern_def)
  have "layered i (set (concat (take k layers))) (drop k layers)" if "k \<le> length layers" for k
    using that
  proof (induction "length layers - k" arbitrary: k)
    case 0
    then show ?case by simp
  next
    case (Suc m)
    then have k: "k < length layers" by simp
    then have dr: "drop k layers = layers ! k # drop (Suc k) layers"
      and ta: "take (Suc k) layers = take k layers @ [layers ! k]"
      by (simp_all add: Cons_nth_drop_Suc take_Suc_conv_app_nth)
    have "concat layers = concat (take k layers) @ layers ! k @ concat (drop (Suc k) layers)"
      using append_take_drop_id [of k layers] dr by (metis concat.simps(2) concat_append)
    then have dist: "distinct (layers ! k)" "set (layers ! k) \<inter> set (concat (take k layers)) = {}"
      using t(2) by auto
    have "ready i (set (concat (take k layers))) n" if n: "n \<in> set (layers ! k)" for n
    proof -
      have "n \<in> set (plan_ids (fi_plan i))" using n k t(3) by auto
      moreover have "e \<in> set (concat (take k layers))" if "e \<in> set (deps_of (fi_plan i) n)" for e
      proof -
        note e = that
        obtain j where "j < k" "e \<in> set (layers ! j)" using d [OF k n e] by blast
        moreover have "layers ! j \<in> set (take k layers)"
          using \<open>j < k\<close> k nth_mem [of j "take k layers"] by simp
        ultimately show ?thesis by auto
      qed
      moreover have "set (concat (take k layers)) \<subseteq> set (concat layers)"
        by (auto dest: in_set_takeD)
      ultimately show ?thesis using n dist(2) ne valid unfolding ready_def t(3) by blast
    qed
    moreover have "layered i (set (concat (take (Suc k) layers))) (drop (Suc k) layers)"
      using Suc k by simp
    ultimately show ?case using dist(1) unfolding dr ta by simp
  qed
  from this [of 0] t that show ?thesis by simp
qed

section \<open>The whole run\<close>

fun fl_neutral :: "fleet_ev \<Rightarrow> bool" where
  "fl_neutral (FlProbe a b) = True"
| "fl_neutral (FlSave a b) = True"
| "fl_neutral (FlNotify a b) = True"
| "fl_neutral e = False"

text \<open>No event of the list starts a child.\<close>

definition startless :: "fleet_ev list \<Rightarrow> bool" where
  "startless d = (starts d = [])"

lemma startless_simps [simp]:
  "startless []" "startless (d @ e) \<longleftrightarrow> startless d \<and> startless e"
  "startless (FlBase a r # d) \<longleftrightarrow> startless d" "startless (FlNotify n b # d) \<longleftrightarrow> startless d"
  by (simp_all add: startless_def starts_def)

lemma neutral_startless: "list_all fl_neutral d \<Longrightarrow> startless d"
proof (induction d)
  case (Cons e d)
  then show ?case by (cases e) (auto simp: startless_def starts_def)
qed simp

lemma startless_gated: "startless d \<Longrightarrow> gated env i (l @ d) = gated env i l"
proof (induction d rule: rev_induct)
  case (snoc e d)
  then have "gated env i (l @ d) = gated env i l" "\<forall>c inp. e \<noteq> FlStart c inp"
    by (auto simp: startless_def starts_def)
  then show ?case by (simp add: gated_snoc flip: append_assoc)
qed simp

lemma startless_starts: "startless d \<Longrightarrow> starts (l @ d) = starts l"
  by (simp add: startless_def)

text \<open>One verdict for each node of the plan.\<close>

definition verdict_ok :: "fleet_env \<Rightarrow> fleet_input \<Rightarrow> fleet_ev list \<Rightarrow> node_result list \<Rightarrow> node_result \<Rightarrow> bool" where
  "verdict_ok env i l nodes r =
     ((\<exists>d \<in> set (deps_of (fi_plan i) (nr_id r)). r = skipped_result (nr_id r) d \<and>
         (\<exists>rd \<in> set nodes. nr_id rd = d \<and> nr_status rd \<noteq> NodeSucceeded)) \<or>
      (let c = node_child (wi_workflow_id (fe_info env)) (nr_id r) in
       c \<in> set (starts l) \<and>
       (\<forall>d \<in> set (deps_of (fi_plan i) (nr_id r)). \<exists>rd \<in> set nodes. nr_id rd = d \<and> nr_status rd = NodeSucceeded) \<and>
       (\<exists>a. FlDone c a \<in> set l \<and>
          r = node_verdict (fe_error_text env) (nr_id r) (case a of Inl e \<Rightarrow> Inl (fault e) | Inr out \<Rightarrow> Inr out))))"

definition accounted :: "fleet_env \<Rightarrow> fleet_input \<Rightarrow> fleet_ev list \<Rightarrow> node_result list \<Rightarrow> bool" where
  "accounted env i l nodes =
     (distinct (map nr_id nodes) \<and> set (map nr_id nodes) = set (plan_ids (fi_plan i)) \<and>
      list_all (verdict_ok env i l nodes) nodes)"

lemma accounted_more: "accounted env i l nodes \<Longrightarrow> accounted env i (l @ d) nodes"
  unfolding accounted_def verdict_ok_def Let_def list_all_iff by auto

lemma inv_accounted:
  assumes inv: "fleet_inv env i base [] rs order l" and all: "set order = set (plan_ids (fi_plan i))"
  shows "accounted env i l (ordered_results rs order)"
proof -
  note f = fleet_invD [OF inv]
  have look: "lookup_or z rs n = r" if "rs n = Some r" for z n r
    using that by (simp add: lookup_or_def)
  have ids: "nr_id r = n" if "rs n = Some r" for n r
    using f(9) [OF that] by (auto simp: skipped_def child_ran_def)
  have mem: "\<exists>q \<in> set (ordered_results rs order). nr_id q = n \<and> q = r" if "rs n = Some r" for n r
  proof -
    have "n \<in> set order" using that f(1) by blast
    then have "r \<in> set (ordered_results rs order)"
      unfolding ordered_results_def set_map using look [OF that, symmetric] by (rule rev_image_eqI)
    then show ?thesis using ids [OF that] by blast
  qed
  have each: "\<exists>n. rs n = Some r" if "r \<in> set (ordered_results rs order)" for r
  proof -
    from that obtain n where n: "n \<in> set order" "r = lookup_or
        \<lparr>nr_id = [], nr_status = NodeFailed, nr_detail = [], nr_tokens = 0\<rparr> rs n"
      by (auto simp: ordered_results_def)
    from n(1) f(1) obtain q where q: "rs n = Some q" by blast
    have "r = q" unfolding n(2) by (rule look [OF q])
    with q show ?thesis by blast
  qed
  have "map nr_id (ordered_results rs order) = order"
    unfolding ordered_results_def map_map
  proof (rule map_idI)
    fix n assume "n \<in> set order"
    then obtain r where "rs n = Some r" using f(1) by blast
    then show "(nr_id \<circ> (\<lambda>nid. lookup_or
        \<lparr>nr_id = [], nr_status = NodeFailed, nr_detail = [], nr_tokens = 0\<rparr> rs nid)) n = n"
      using look ids by simp
  qed
  moreover have "verdict_ok env i l (ordered_results rs order) r"
    if r: "r \<in> set (ordered_results rs order)" for r
  proof -
    obtain n where n: "rs n = Some r" using each [OF r] by blast
    have suc: "\<exists>rd \<in> set (ordered_results rs order). nr_id rd = d \<and> nr_status rd = NodeSucceeded"
      if "succeeded_in rs d" for d
    proof -
      from that obtain rd where rd: "rs d = Some rd" "nr_status rd = NodeSucceeded"
        by (auto simp: succeeded_in_def split: option.splits)
      from mem [OF rd(1)] rd(2) show ?thesis by blast
    qed
    from f(9) [OF n] show ?thesis
    proof
      assume "skipped i rs n r"
      then obtain d rd where d: "d \<in> set (deps_of (fi_plan i) n)" "r = skipped_result n d"
          "rs d = Some rd" "nr_status rd \<noteq> NodeSucceeded" unfolding skipped_def by blast
      from mem [OF d(3)] d(4)
      have "\<exists>rd \<in> set (ordered_results rs order). nr_id rd = d \<and> nr_status rd \<noteq> NodeSucceeded" by blast
      then show ?thesis unfolding verdict_ok_def ids [OF n] using d(1,2) by blast
    next
      assume "child_ran env i rs l n r"
      note c = this [unfolded child_ran_def]
      have "\<forall>d \<in> set (deps_of (fi_plan i) n). \<exists>rd \<in> set (ordered_results rs order).
          nr_id rd = d \<and> nr_status rd = NodeSucceeded"
        using c suc by blast
      with c show ?thesis unfolding verdict_ok_def ids [OF n] Let_def by simp
    qed
  qed
  ultimately have "map nr_id (ordered_results rs order) = order"
      "\<forall>r \<in> set (ordered_results rs order). verdict_ok env i l (ordered_results rs order) r" by blast+
  with f(2) all show ?thesis unfolding accounted_def list_all_iff by simp
qed

definition fleet_body_post ::
  "fleet_env \<Rightarrow> fleet_input \<Rightarrow> fleet_error + string \<Rightarrow> fleet_vars \<Rightarrow> fleet_ev list \<Rightarrow> bool" where
  "fleet_body_post env i r v l =
     (gated env i l \<and> distinct (starts l) \<and>
      (if fv_started v then
         (fs_nodes (fv_rec v) = [] \<and> startless l \<and> \<not> is_ok r \<or> accounted env i l (fs_nodes (fv_rec v))) \<and>
         (fe_recording env \<longrightarrow> fs_run (fv_rec v) = wi_run_id (fe_info env))
       else list_all fl_neutral l \<and> \<not> is_ok r) \<and>
      (case r of
         Inl e \<Rightarrow> \<not> is_continue_as_new e
       | Inr s \<Rightarrow> s = summarize_fleet (fp_goal (fi_plan i)) (fs_nodes (fv_rec v))))"

lemma fleet_probe_wp:
  assumes "\<And>p d. list_all fl_neutral d \<Longrightarrow> Q (Inr p) (l @ d)"
  shows "wp (fleet_probe env dir) Q l"
  using assms [of "[]"] assms by (auto simp: fleet_probe_def probe_place_def wp_rules split: sum.split)

lemma start_fleet_wp:
  assumes "\<And>e d. list_all fl_neutral d \<Longrightarrow> \<not> is_continue_as_new e \<Longrightarrow> Q (Inl e) (l @ d)"
    and "\<And>st d. list_all fl_neutral d \<Longrightarrow> fs_nodes st = [] \<Longrightarrow>
      (fe_recording env \<Longrightarrow> fs_run st = wi_run_id (fe_info env)) \<Longrightarrow> Q (Inr st) (l @ d)"
  shows "wp (start_fleet_state env i) Q l"
proof (cases "fe_recording env")
  case False
  with assms(2) [of "[]" no_fleet_state] show ?thesis
    by (simp add: start_fleet_state_def wp_rules no_fleet_state_def)
next
  case True
  show ?thesis
    unfolding start_fleet_state_def if_not_P [OF not_not [THEN iffD2, OF True]] wp_andthen wp_asking sum.case
  proof (rule fleet_probe_wp)
    fix p d assume d: "list_all fl_neutral d"
    let ?st = "no_fleet_state\<lparr>fs_workflow := id_workflow (identity_of (fe_info env)),
        fs_run := id_run (identity_of (fe_info env)), fs_parent := id_parent (identity_of (fe_info env)),
        fs_goal := fp_goal (fi_plan i), fs_plan_id := fi_plan_id i,
        fs_plan_nodes := length (fp_nodes (fi_plan i)), fs_started := fe_now env l, fs_place := p\<rparr>"
    have "Q (Inl (Wrapped s (fault e))) (l @ (d @ [FlSave (fleet_row ?st) (Inl e)]))" for s e
      by (rule assms(1)) (use d in simp_all)
    moreover have "Q (Inr ?st) (l @ (d @ [FlSave (fleet_row ?st) (Inr u)]))" for u
      by (rule assms(2)) (use d in \<open>simp_all add: no_fleet_state_def identity_of_def\<close>)
    ultimately show "case Inr p of Inl e \<Rightarrow> Q (Inl e) (l @ d) | Inr place \<Rightarrow>
        wp (let who = identity_of (fe_info env);
            st = no_fleet_state\<lparr>fs_workflow := id_workflow who, fs_run := id_run who,
              fs_parent := id_parent who, fs_goal := fp_goal (fi_plan i), fs_plan_id := fi_plan_id i,
              fs_plan_nodes := length (fp_nodes (fi_plan i)), fs_started := fe_now env l, fs_place := place\<rparr>
          in andthen (on_error (Wrapped ''record the fleet run as started: '') (fleet_save env (fleet_row st)))
               (\<lambda>_. ret st)) Q (l @ d)"
      by (cases "fe_save env (fleet_row ?st) (l @ d)") (simp_all add: Let_def wp_rules fleet_save_def)
  qed
qed


lemma vseq_lift:
  "(\<And>e. r = Inl e \<Longrightarrow> Q (Inl e) v l) \<Longrightarrow> (\<And>x. r = Inr x \<Longrightarrow> vwp (f x) Q v l) \<Longrightarrow> vwp (vthen (vdo (lift r)) f) Q v l"
  by (cases r) (simp_all add: wp_rules)

lemma vseq_asking: "vwp (f (g l)) Q v l \<Longrightarrow> vwp (vthen (vdo (asking g)) f) Q v l"
  by (simp add: wp_rules)

lemma vseq_tell:
  "(\<And>a. vwp (f ()) Q v (l @ [FlNotify n a])) \<Longrightarrow> vwp (vthen (vdo (notify_best_effort (fleet_send env) n)) f) Q v l"
  by (simp add: wp_rules fleet_send_def)

lemma neutral_gated: "list_all fl_neutral d \<Longrightarrow> gated env i d" "list_all fl_neutral d \<Longrightarrow> starts d = []"
  using startless_gated [OF neutral_startless, of d env i "[]"] neutral_startless [of d]
  by (simp_all add: startless_def)

lemma layers_or_error_cases:
  obtains (bad) t m where "layers_or_error (fi_plan i) = Inl (AppErr t m)"
    | (good) layers where "layers_or_error (fi_plan i) = Inr layers" "layered i {} layers"
      "set (concat layers) = set (plan_ids (fi_plan i))"
proof (cases "validate_plan (fi_plan i)")
  case (Inl e)
  then show thesis by (intro bad) (simp add: layers_or_error_def topo_layers_def)
next
  case (Inr u)
  then have "well_formed (fi_plan i)" by (simp add: validate_plan_iff)
  then obtain layers where "topo_layers (fi_plan i) = Some (Inr layers)" "layered i {} layers"
      "set (concat layers) = set (plan_ids (fi_plan i))"
    by (rule topo_layered)
  then show thesis by (intro good) (simp_all add: layers_or_error_def)
qed

abbreviation fresh_fleet :: fleet_vars where
  "fresh_fleet \<equiv> \<lparr>fv_started = False, fv_rec = no_fleet_state\<rparr>"

lemma fleet_body_spec: "vwp (fleet_body env i) (fleet_body_post env i) fresh_fleet []"
  unfolding fleet_body_def
proof (rule vseq_wp, rule start_fleet_wp, goal_cases)
  case (1 e d)
  then show ?case using neutral_gated [OF 1(1)] by (simp add: fleet_body_post_def)
next
  case (2 st d)
  let ?fid = "wi_workflow_id (fe_info env)"
  let ?v = "fresh_fleet\<lparr>fv_started := True, fv_rec := st\<rparr>"
  note st = 2 neutral_gated [OF 2(1)] neutral_startless [OF 2(1)]
  have early: "fleet_body_post env i (Inl e) ?v (d @ d')" if "\<not> is_continue_as_new e" "startless d'" for e d'
    using that st startless_gated [OF that(2)] startless_starts [OF that(2)] by (simp add: fleet_body_post_def)
  show ?case
    unfolding sum.case
  proof (rule vseq_set, rule vwp_if, goal_cases)
    case 1
    from early [of _ "[]"] show ?case by (simp add: vwp_fail)
  next
    case 2
    note wt = 2
    show ?case
    proof (rule vseq_lift, goal_cases)
      case (1 e)
      then have "\<not> is_continue_as_new e" by (cases rule: layers_or_error_cases [of i]) auto
      from early [OF this, of "[]"] show ?case by simp
    next
      case (2 layers)
      then have layers: "layered i {} layers" "set (concat layers) = set (plan_ids (fi_plan i))"
        by (cases rule: layers_or_error_cases [of i]; simp)+
      show ?case
      proof (rule vseq_call, goal_cases)
        case (1 e)
        then show ?case using early by simp
      next
        case (2 base)
        let ?l = "([] @ d) @ [FlBase (fi_work_dir i) (Inr base)]"
        have none: "starts ?l = []" "gated env i ?l"
          using st startless_gated [of "[FlBase (fi_work_dir i) (Inr base)]" env i d]
          by (simp_all add: starts_def)
        have start: "fleet_inv env i base [] Map.empty [] ?l"
          by (rule fleet_invI) (use wt none in simp_all)
        show ?case
        proof (rule vseq_wp, rule run_layers [OF start], goal_cases)
          case 1
          with layers show ?case by simp
        next
          case (2 rs order l)
          let ?nodes = "ordered_results rs order"
          let ?w = "?v\<lparr>fv_rec := st\<lparr>fs_nodes := ?nodes\<rparr>\<rparr>"
          have acc: "accounted env i l ?nodes" using 2 layers(2) by (intro inv_accounted) simp_all
          note f = fleet_invD(3,4) [OF 2(1)]
          have post: "fleet_body_post env i r ?w (l @ d')"
            if "startless d'" "r = Inl CanceledErr \<or> r = Inr (summarize_fleet (fp_goal (fi_plan i)) ?nodes)" for r d'
            using that f accounted_more [OF acc] startless_gated [OF that(1)] startless_starts [OF that(1)] st
            by (auto simp: fleet_body_post_def)
          show ?case
            unfolding sum.case prod.case Let_def
          proof (rule vseq_set, rule vseq_asking, rule vwp_if, goal_cases)
            case 1
            from post [of "[]"] show ?case by (simp add: vwp_fail)
          next
            case 2
            show ?case
              by (rule vseq_tell, rule vwp_ret_rule) (use post in simp)
          qed
        qed
      qed
    qed
  qed
qed


text \<open>The deferred code: the terminal write, then notices.\<close>

fun fl_tells :: "fleet_ev \<Rightarrow> bool" where
  "fl_tells (FlNotify a b) = True"
| "fl_tells e = False"

lemma tells_neutral: "list_all fl_tells d \<Longrightarrow> list_all fl_neutral d"
proof (induction d)
  case (Cons e d)
  then show ?case by (cases e) auto
qed simp

lemma tells_send [intro!]: "emits fl_tells (fleet_send env n)"
  unfolding fleet_send_def by (rule emits_call) simp

lemma tells_failed [intro!]: "emits fl_tells (terminal_write_failed (fleet_send env) a b c d e)"
  unfolding terminal_write_failed_def Let_def by (auto intro!: emits_notify)

lemma tells_failure [intro!]: "emits fl_tells (notify_failure (fleet_send env) a b c)"
  unfolding notify_failure_def notify_failure_with_def Let_def
  by (auto intro!: emits_notify split: option.splits)

lemma fleet_settle_run:
  "\<exists>d. snd (fleet_settle env what msg row result err l) = l @ d \<and> list_all fl_neutral d \<and>
    is_ok (fst (fleet_settle env what msg row result err l)) \<and>
    (fe_recording env \<longrightarrow> (\<exists>now a rest. d = FlSave (row now) a # rest \<and> list_all fl_tells rest))"
proof (cases "fe_recording env")
  case False
  then show ?thesis by (simp add: fleet_settle_def ret_def)
next
  case True
  let ?row = "row (fe_now env l)"
  let ?e = "FlSave ?row (fe_save env ?row l)"
  show ?thesis
  proof (cases "fe_save env ?row l")
    case (Inl x)
    let ?m = "terminal_write_failed (fleet_send env) (fe_error_text env) what result err (Wrapped msg (fault x))
        :: unit fleet_step"
    obtain d where d: "snd (?m (l @ [?e])) = (l @ [?e]) @ d" "list_all fl_tells d"
      using emits_run [OF tells_failed] by blast
    have "is_ok (fst (?m (l @ [?e])))"
      by (auto simp: terminal_write_failed_def Let_def notify_best_effort_result ret_def)
    moreover have "fleet_settle env what msg row result err l = ?m (l @ [?e])"
      using True Inl by (simp add: fleet_settle_def fleet_save_def call_def andthen_def asking_def
          attempt_def on_error_def perform_def)
    ultimately show ?thesis using d tells_neutral [OF d(2)] by auto
  next
    case (Inr u)
    have "fleet_settle env what msg row result err l = (Inr (), l @ [FlSave ?row (Inr u)])"
      using True Inr by (simp add: fleet_settle_def fleet_save_def call_def andthen_def asking_def
          attempt_def on_error_def perform_def ret_def)
    then show ?thesis by auto
  qed
qed

lemma fleet_end_run:
  "\<exists>d. snd (andthen (if b then fleet_settle env what msg row result err else ret ())
      (\<lambda>_. notify_failure (fleet_send env) text title err) l) = l @ d \<and> list_all fl_neutral d \<and>
    (fe_recording env \<and> b \<longrightarrow> (\<exists>now a rest. d = FlSave (row now) a # rest \<and> list_all fl_tells rest))"
proof -
  let ?m = "if b then fleet_settle env what msg row result err else ret ()"
    and ?f = "notify_failure (fleet_send env) text title err :: unit fleet_step"
  obtain d1 where d1: "snd (?m l) = l @ d1" "list_all fl_neutral d1" "is_ok (fst (?m l))"
      "fe_recording env \<and> b \<longrightarrow> (\<exists>now a rest. d1 = FlSave (row now) a # rest \<and> list_all fl_tells rest)"
    using fleet_settle_run [of env what msg row result err l] by (cases b) (auto simp: ret_def)
  obtain d2 where d2: "snd (?f (snd (?m l))) = snd (?m l) @ d2" "list_all fl_tells d2"
    using emits_run [OF tells_failure] by blast
  have "snd (andthen ?m (\<lambda>_. ?f) l) = l @ d1 @ d2"
    using d1(1,3) d2(1) by (auto simp: andthen_def is_ok_iff split: prod.splits)
  with d1(2,4) d2(2) tells_neutral [OF d2(2)] show ?thesis by (intro exI [of _ "d1 @ d2"]) auto
qed

lemma fleet_run:
  assumes "fleet_workflow env i [] = (r, l)"
  obtains v d e where "fleet_body_post env i r v d" "l = d @ e" "list_all fl_neutral e"
    and "fe_recording env \<Longrightarrow> fv_started v \<Longrightarrow>
      \<exists>now a rest. e = FlSave (fleet_row (finished_fleet env (fv_rec v) (err_of r) now)) a # rest \<and>
        list_all fl_tells rest"
proof -
  obtain v d where b: "fleet_body env i fresh_fleet [] = (r, v, d)"
      and l: "l = snd (fleet_deferred env r v d)"
    using assms by (auto simp: fleet_workflow_def with_vars_def split: prod.splits)
  have p: "fleet_body_post env i r v d" using fleet_body_spec [of env i] b by (simp add: vwp_def)
  from l obtain e where "l = d @ e" "list_all fl_neutral e" "fe_recording env \<and> fv_started v \<longrightarrow>
      (\<exists>now a rest. e = FlSave (fleet_row (finished_fleet env (fv_rec v) (err_of r) now)) a # rest \<and> list_all fl_tells rest)"
    using fleet_end_run [of "fv_started v" env "''fleet run''" "''record the fleet run's terminal state: ''"
      "\<lambda>now. fleet_row (finished_fleet env (fv_rec v) (err_of r) now)"
      "case r of Inl _ \<Rightarrow> [] | Inr summary \<Rightarrow> summary" "err_of r" "fe_error_text env" "''Fleet run failed''" d]
    unfolding fleet_deferred_def by metis
  with p show thesis by (intro that [of v d e]) simp_all
qed

lemma neutral_more:
  assumes "list_all fl_neutral e"
  shows "gated env i (d @ e) = gated env i d" "starts (d @ e) = starts d"
  using startless_gated [OF neutral_startless [OF assms]] startless_starts [OF neutral_startless [OF assms]]
  by blast+

lemma neutral_starts [simp]: "list_all fl_neutral e \<Longrightarrow> starts e = []"
  using neutral_startless by (simp add: startless_def)

section \<open>A run\<close>

text \<open>Of the diamond's nodes \<open>b\<close> fails, so \<open>d\<close> is skipped.\<close>

definition demo_fleet :: fleet_input where
  "demo_fleet = \<lparr>fi_plan = diamond, fi_work_dir = ''d'', fi_worktrees_dir = ''t'', fi_summary = False,
     fi_plan_id = ''p''\<rparr>"

definition demo_fleet_env :: fleet_env where
  "demo_fleet_env =
     \<lparr>fe_info = \<lparr>wi_workflow_id = ''f'', wi_run_id = ''r'', wi_first_run_id = [], wi_parent = None\<rparr>,
      fe_now = length, fe_error_text = (\<lambda>_. []), fe_recording = True, fe_placing = False,
      fe_canceled = (\<lambda>_. False), fe_probe = (\<lambda>_ _. Inr no_place), fe_save = (\<lambda>_ _. Inr ()),
      fe_notify = (\<lambda>_ _. Inr ()), fe_base = (\<lambda>_ _. Inr ''h''),
      fe_child = (\<lambda>c _. if c = ''f-b'' then Inl (CallOther []) else Inr ''ok''),
      fe_generate = (\<lambda>_ _ _. Inr (diamond, 5)), fe_store = (\<lambda>_ _ _ _. Inr ())\<rparr>"

lemma diamond_layered: "layers_or_error diamond = Inr [[''a''], [''b'', ''c''], [''d'']]"
  by (simp add: layers_or_error_def diamond_layers)

lemmas fleet_demo = demo_fleet_def demo_fleet_env_def no_place_def

lemma fleet_demo_run:
  "is_ok (fst (fleet_workflow demo_fleet_env demo_fleet [])) \<and>
   starts (snd (fleet_workflow demo_fleet_env demo_fleet [])) = [''f-a'', ''f-b'', ''f-c'']"
  by code_simp

section \<open>Properties\<close>

text \<open>
  C3: A fleet run starts each node's child at most once, and only as the plan allows: the plan is
  valid, the child is of one of its nodes, gets its own branch from the base commit the run
  resolved and its dependencies' branches to merge, and every dependency's child has already
  succeeded.
\<close>

theorem fleet_respects_dependencies:
  "gated env i (snd (fleet_workflow env i [])) \<and> distinct (starts (snd (fleet_workflow env i [])))"
proof -
  obtain v d e where p: "fleet_body_post env i (fst (fleet_workflow env i [])) v d"
      "snd (fleet_workflow env i []) = d @ e" "list_all fl_neutral e"
    using fleet_run [OF prod.collapse [symmetric]] by blast
  then show ?thesis by (simp add: neutral_more fleet_body_post_def)
qed





end
