(* ===== verification/Exec_Store.thy ===== *)
theory Exec_Store
  imports Exec_Rows
begin

text \<open>
  The durable execution record and the plan store: the ports of
  \<open>internal/execstore/execstore.go\<close> and the Postgres adapter behind them,
  \<open>internal/execstore/execpg\<close> (\<open>execpg.go\<close>, \<open>overview.go\<close>, \<open>plans.go\<close>).

  A table is the list of its rows in insertion order; a statement is the function on the table
  its SQL text states, with the column's \<open>NULL\<close> as \<^const>\<open>None\<close>.  Text columns are compared
  byte by byte, as a database of collation \<open>C\<close> does.  The \<open>detail\<close> column holds the value its
  JSON encodes, and a page cursor is what its JSON decodes to.  A \<open>fault\<close> is what the database
  refuses a statement with; it is given, so any statement may fail.
\<close>

section \<open>The executions table\<close>

record exec_row =
  xr_run :: string
  xr_first :: "string option"
  xr_workflow :: string
  xr_kind :: string
  xr_prompt :: string
  xr_started :: nat
  xr_ended :: "nat option"
  xr_status :: exec_status
  xr_tokens :: int
  xr_schedule :: "string option"
  xr_parent :: "string option"
  xr_detail :: exec_detail

datatype exec_fault = UndefinedTable | OtherFault string

datatype exec_error =
    ExecNotMigrated
  | ExecNotConfigured
  | ExecFault string exec_fault
  | NoSuchPlan string
  | PlanTooLarge string nat
  | InvalidCursor

text \<open>
  What a write meets: nothing, a refusal, or an error reported although the statement took
  effect, as when the answer is lost.
\<close>

datatype write_fault = Applied | Refused exec_fault | Lost exec_fault

definition writing :: "write_fault \<Rightarrow> (exec_fault \<Rightarrow> exec_error) \<Rightarrow> ('db \<Rightarrow> 'db) \<Rightarrow> 'db \<Rightarrow> (exec_error + unit) \<times> 'db" where
  "writing fault err stmt db =
     (case fault of
        Applied \<Rightarrow> (Inr (), stmt db)
      | Refused f \<Rightarrow> (Inl (err f), db)
      | Lost f \<Rightarrow> (Inl (err f), stmt db))"

definition null_string :: "string \<Rightarrow> string option" where
  "null_string s = (if s = [] then None else Some s)"

definition null_time :: "nat \<Rightarrow> nat option" where
  "null_time t = (if t = 0 then None else Some t)"

definition read_error :: "string \<Rightarrow> exec_fault \<Rightarrow> exec_error" where
  "read_error what f = (case f of UndefinedTable \<Rightarrow> ExecNotMigrated | OtherFault _ \<Rightarrow> ExecFault what f)"

definition row_of :: "execution \<Rightarrow> exec_row" where
  "row_of e =
     \<lparr>xr_run = ex_run e, xr_first = null_string (ex_first_run e), xr_workflow = ex_workflow e,
      xr_kind = ex_kind e, xr_prompt = ex_prompt e, xr_started = ex_started e,
      xr_ended = null_time (ex_ended e), xr_status = ex_status e, xr_tokens = ex_tokens e,
      xr_schedule = null_string (ex_schedule e), xr_parent = null_string (ex_parent e),
      xr_detail = ex_detail e\<rparr>"

definition or_empty :: "string option \<Rightarrow> string" where
  "or_empty s = (case s of None \<Rightarrow> [] | Some t \<Rightarrow> t)"

definition scan_execution :: "exec_row \<Rightarrow> execution" where
  "scan_execution r =
     \<lparr>ex_workflow = xr_workflow r, ex_run = xr_run r, ex_first_run = or_empty (xr_first r),
      ex_kind = xr_kind r, ex_prompt = xr_prompt r, ex_started = xr_started r,
      ex_ended = (case xr_ended r of None \<Rightarrow> 0 | Some t \<Rightarrow> t), ex_status = xr_status r,
      ex_tokens = xr_tokens r, ex_schedule = or_empty (xr_schedule r), ex_parent = or_empty (xr_parent r),
      ex_detail = xr_detail r\<rparr>"

text \<open>The upsert: a conflict on the run updates in place, unless that would un-settle the row.\<close>

definition unsettles :: "exec_row \<Rightarrow> exec_row \<Rightarrow> bool" where
  "unsettles old new = (xr_status old \<noteq> RunningStatus \<and> xr_status new = RunningStatus)"

fun upsert :: "exec_row \<Rightarrow> exec_row list \<Rightarrow> exec_row list" where
  "upsert new [] = [new]"
| "upsert new (r # rs) =
     (if xr_run r = xr_run new then (if unsettles r new then r else new) # rs
      else r # upsert new rs)"

definition save_execution ::
  "write_fault \<Rightarrow> execution \<Rightarrow> exec_row list \<Rightarrow> (exec_error + unit) \<times> exec_row list" where
  "save_execution fault e =
     writing fault (ExecFault (''record execution run '' @ ex_run e @ '' (workflow '' @ ex_workflow e @ '')''))
       (upsert (row_of e))"

section \<open>Listing\<close>

record exec_filter =
  xf_kind :: string
  xf_workflow :: string
  xf_schedule :: string
  xf_limit :: int

datatype exec_clause = KindIs string | TreeOf string | FiredBy string

definition build_filter :: "exec_filter \<Rightarrow> exec_clause list" where
  "build_filter f =
     (if xf_kind f \<noteq> [] then [KindIs (xf_kind f)] else []) @
     (if xf_workflow f \<noteq> [] then [TreeOf (xf_workflow f)] else []) @
     (if xf_schedule f \<noteq> [] then [FiredBy (xf_schedule f)] else [])"

fun clause_holds :: "exec_row \<Rightarrow> exec_clause \<Rightarrow> bool" where
  "clause_holds r (KindIs k) = (xr_kind r = k)"
| "clause_holds r (TreeOf w) = (xr_workflow r = w \<or> xr_parent r = Some w)"
| "clause_holds r (FiredBy s) = (xr_schedule r = Some s)"

text \<open>\<open>ORDER BY started_at DESC, run_id DESC\<close>.\<close>

definition newer :: "nat \<times> string \<Rightarrow> nat \<times> string \<Rightarrow> bool" where
  "newer a b = (fst a > fst b \<or> fst a = fst b \<and> snd a > snd b)"

definition row_key :: "exec_row \<Rightarrow> nat \<times> string" where
  "row_key r = (xr_started r, xr_run r)"

fun place_by :: "('a \<Rightarrow> 'a \<Rightarrow> bool) \<Rightarrow> 'a \<Rightarrow> 'a list \<Rightarrow> 'a list" where
  "place_by before x [] = [x]"
| "place_by before x (y # ys) = (if before y x then y # place_by before x ys else x # y # ys)"

definition order_by :: "('a \<Rightarrow> 'a \<Rightarrow> bool) \<Rightarrow> 'a list \<Rightarrow> 'a list" where
  "order_by before xs = foldr (place_by before) xs []"

definition newest_first :: "exec_row list \<Rightarrow> exec_row list" where
  "newest_first = order_by (\<lambda>a b. newer (row_key a) (row_key b))"

definition default_history_limit :: int where
  "default_history_limit = 20"

definition default_plan_limit :: int where
  "default_plan_limit = 20"

definition list_executions ::
  "exec_fault option \<Rightarrow> exec_filter \<Rightarrow> exec_row list \<Rightarrow> exec_error + execution list" where
  "list_executions fault f db =
     (case fault of
        Some x \<Rightarrow> Inl (read_error ''read execution history'' x)
      | None \<Rightarrow>
          Inr (map scan_execution
            (take (nat (effective_limit (xf_limit f) default_history_limit))
              (newest_first (filter (\<lambda>r. list_all (clause_holds r) (build_filter f)) db)))))"

section \<open>Chains\<close>

record exec_chain =
  ch_latest :: execution
  ch_started :: nat
  ch_iterations :: nat
  ch_tokens :: int

definition no_execution :: execution where
  "no_execution =
     \<lparr>ex_workflow = [], ex_run = [], ex_first_run = [], ex_kind = [], ex_prompt = [], ex_started = 0,
      ex_ended = 0, ex_status = RunningStatus, ex_tokens = 0, ex_schedule = [], ex_parent = [],
      ex_detail = no_detail\<rparr>"

definition no_chain :: exec_chain where
  "no_chain = \<lparr>ch_latest = no_execution, ch_started = 0, ch_iterations = 0, ch_tokens = 0\<rparr>"

definition preserve_detail :: "exec_detail \<Rightarrow> exec_detail \<Rightarrow> exec_detail" where
  "preserve_detail t s =
     t\<lparr>ed_plan_id := (if ed_plan_id t = [] then ed_plan_id s else ed_plan_id t),
       ed_nodes := (if ed_nodes t = [] then ed_nodes s else ed_nodes t),
       ed_directory := (if ed_directory t = [] then ed_directory s else ed_directory t),
       ed_repository := (if ed_directory t = [] then ed_repository s else ed_repository t),
       ed_instructions := (if ed_instructions t = [] then ed_instructions s else ed_instructions t)\<rparr>"

definition preserve_facts :: "execution \<Rightarrow> execution \<Rightarrow> execution" where
  "preserve_facts t s =
     t\<lparr>ex_prompt := (if ex_prompt t = [] then ex_prompt s else ex_prompt t),
       ex_schedule := (if ex_schedule t = [] then ex_schedule s else ex_schedule t),
       ex_parent := (if ex_parent t = [] then ex_parent s else ex_parent t),
       ex_detail := preserve_detail (ex_detail t) (ex_detail s)\<rparr>"

definition append_to_chain :: "exec_chain \<Rightarrow> execution \<Rightarrow> exec_chain" where
  "append_to_chain c e =
     (let tokens = ch_tokens c + ex_tokens e;
          started = (if ch_started c = 0 \<or> ex_started e < ch_started c then ex_started e else ch_started c);
          latest =
            (if ex_workflow (ch_latest c) = [] \<or> newer (ex_started e, ex_run e)
                  (ex_started (ch_latest c), ex_run (ch_latest c))
             then preserve_facts e (ch_latest c)
             else preserve_facts (ch_latest c) e)
      in \<lparr>ch_latest = latest\<lparr>ex_started := started, ex_tokens := tokens\<rparr>, ch_started = started,
          ch_iterations = ch_iterations c + 1, ch_tokens = tokens\<rparr>)"

definition aggregate_chain :: "execution list \<Rightarrow> exec_chain" where
  "aggregate_chain = foldl append_to_chain no_chain"

text \<open>The first-seen order of the keys of a list, and its elements by key, as the loops collect them.\<close>

fun first_seen :: "('a \<Rightarrow> 'k) \<Rightarrow> 'a list \<Rightarrow> 'k list" where
  "first_seen key [] = []"
| "first_seen key (x # xs) = key x # filter (\<lambda>k. k \<noteq> key x) (first_seen key xs)"

definition group_of :: "('a \<Rightarrow> 'k) \<Rightarrow> 'a list \<Rightarrow> 'k \<Rightarrow> 'a list" where
  "group_of key xs k = filter (\<lambda>x. key x = k) xs"

section \<open>Pages of chains\<close>

datatype chain_cursor = NoCursor | ChainCursor nat string | UnreadableCursor

record chain_filter =
  cf_kinds :: "string list"
  cf_workflow :: string
  cf_required :: "string list"
  cf_excluded :: "string list"
  cf_limit :: int
  cf_cursor :: chain_cursor

definition cf_size :: "chain_filter \<Rightarrow> nat" where
  "cf_size f = nat (effective_limit (cf_limit f) default_history_limit)"

definition chain_cursor_of :: "chain_filter \<Rightarrow> exec_error + (nat \<times> string) option" where
  "chain_cursor_of f =
     (case cf_cursor f of
        NoCursor \<Rightarrow> Inr None
      | UnreadableCursor \<Rightarrow> Inl InvalidCursor
      | ChainCursor t w \<Rightarrow> if t = 0 \<or> w = [] then Inl InvalidCursor else Inr (Some (t, w)))"

text \<open>The common table expressions of \<open>selectedExecutionsSQL\<close>.\<close>

definition row_eligible :: "chain_filter \<Rightarrow> exec_row \<Rightarrow> bool" where
  "row_eligible f r =
     (xr_kind r \<in> set (cf_kinds f) \<and> (xr_parent r = None \<or> ed_detached (xr_detail r)) \<and>
      xr_schedule r = None \<and> (cf_workflow f = [] \<or> xr_workflow r = cf_workflow f) \<and>
      xr_workflow r \<notin> set (cf_excluded f))"

definition min_start :: "exec_row list \<Rightarrow> nat" where
  "min_start rs = (case map xr_started rs of [] \<Rightarrow> 0 | t # ts \<Rightarrow> foldl min t ts)"

definition eligible :: "chain_filter \<Rightarrow> exec_row list \<Rightarrow> (nat \<times> string) list" where
  "eligible f db =
     (let rows = filter (row_eligible f) db in
      map (\<lambda>w. (min_start (group_of xr_workflow rows w), w)) (first_seen xr_workflow rows))"

text \<open>\<open>ORDER BY chain_started DESC, workflow_id ASC\<close>, and what comes after a cursor.\<close>

definition chain_before :: "nat \<times> string \<Rightarrow> nat \<times> string \<Rightarrow> bool" where
  "chain_before a b = (fst a > fst b \<or> fst a = fst b \<and> snd a < snd b)"

definition after_cursor :: "(nat \<times> string) option \<Rightarrow> nat \<times> string \<Rightarrow> bool" where
  "after_cursor cur k = (case cur of None \<Rightarrow> True | Some c \<Rightarrow> chain_before c k)"

definition page_keys :: "chain_filter \<Rightarrow> (nat \<times> string) option \<Rightarrow> exec_row list \<Rightarrow> (nat \<times> string) list" where
  "page_keys f cur db =
     take (cf_size f + 1) (order_by chain_before (filter (after_cursor cur) (eligible f db)))"

definition required_keys :: "chain_filter \<Rightarrow> (nat \<times> string) option \<Rightarrow> exec_row list \<Rightarrow> (nat \<times> string) list" where
  "required_keys f cur db =
     take (cf_size f) (order_by chain_before
       (filter (\<lambda>(t, w). w \<in> set (cf_required f) \<and> w \<notin> snd ` set (page_keys f cur db)) (eligible f db)))"

definition selected_keys :: "chain_filter \<Rightarrow> (nat \<times> string) option \<Rightarrow> exec_row list \<Rightarrow> (nat \<times> string) list" where
  "selected_keys f cur db = order_by chain_before (page_keys f cur db @ required_keys f cur db)"

definition selected_rows ::
  "(exec_row \<Rightarrow> string \<Rightarrow> bool) \<Rightarrow> chain_filter \<Rightarrow> (nat \<times> string) option \<Rightarrow> exec_row list \<Rightarrow> exec_row list" where
  "selected_rows joins f cur db =
     concat (map (\<lambda>(t, w). newest_first (filter (\<lambda>r. joins r w) db)) (selected_keys f cur db))"

definition joins_chain :: "exec_row \<Rightarrow> string \<Rightarrow> bool" where
  "joins_chain r w = (xr_workflow r = w)"

definition joins_tree :: "exec_row \<Rightarrow> string \<Rightarrow> bool" where
  "joins_tree r w = (xr_workflow r = w \<or> xr_parent r = Some w)"

text \<open>\<open>chainPage\<close>: the page, the required ones beyond it, and the cursor when there is more.\<close>

fun take_required :: "('a \<Rightarrow> exec_chain) \<Rightarrow> string list \<Rightarrow> nat \<Rightarrow> 'a list \<Rightarrow> 'a list \<Rightarrow> 'a list" where
  "take_required chain_of required cap items [] = items"
| "take_required chain_of required cap items (x # xs) =
     (if length items = cap then items
      else if ex_workflow (ch_latest (chain_of x)) \<in> set required
      then take_required chain_of required cap (items @ [x]) xs
      else take_required chain_of required cap items xs)"

definition chain_page :: "'a list \<Rightarrow> chain_filter \<Rightarrow> ('a \<Rightarrow> exec_chain) \<Rightarrow> 'a list \<times> chain_cursor" where
  "chain_page all f chain_of =
     (let limit = cf_size f in
      if length all \<le> limit then (all, NoCursor)
      else (let last = chain_of (all ! (limit - 1)) in
            (take_required chain_of (cf_required f) (2 * limit) (take limit all) (drop limit all),
             ChainCursor (ch_started last) (ex_workflow (ch_latest last)))))"

definition list_chain_page ::
  "exec_fault option \<Rightarrow> chain_filter \<Rightarrow> exec_row list \<Rightarrow> exec_error + exec_chain list \<times> chain_cursor" where
  "list_chain_page fault f db =
     (case chain_cursor_of f of
        Inl e \<Rightarrow> Inl e
      | Inr cur \<Rightarrow>
          (case fault of
             Some x \<Rightarrow> Inl (read_error ''read execution chains'' x)
           | None \<Rightarrow>
               (let rows = map scan_execution (selected_rows joins_chain f cur db);
                    chains = map (\<lambda>w. aggregate_chain (group_of ex_workflow rows w)) (first_seen ex_workflow rows)
                in Inr (chain_page chains f id))))"

section \<open>Pages of trees\<close>

record exec_tree =
  tr_chain :: exec_chain
  tr_executions :: "execution list"

definition tree_root :: "execution \<Rightarrow> string" where
  "tree_root e = (if ex_parent e \<noteq> [] then ex_parent e else ex_workflow e)"

definition tree_of :: "chain_filter \<Rightarrow> string \<Rightarrow> execution list \<Rightarrow> exec_tree" where
  "tree_of f root es =
     \<lparr>tr_chain = aggregate_chain (filter (\<lambda>e. ex_workflow e = root \<and> ex_kind e \<in> set (cf_kinds f)) es),
      tr_executions = es\<rparr>"

definition list_tree_page ::
  "exec_fault option \<Rightarrow> chain_filter \<Rightarrow> exec_row list \<Rightarrow> exec_error + exec_tree list \<times> chain_cursor" where
  "list_tree_page fault f db =
     (case chain_cursor_of f of
        Inl e \<Rightarrow> Inl e
      | Inr cur \<Rightarrow>
          (case fault of
             Some x \<Rightarrow> Inl (read_error ''read execution trees'' x)
           | None \<Rightarrow>
               (let rows = map scan_execution (selected_rows joins_tree f cur db);
                    trees = map (\<lambda>root. tree_of f root (group_of tree_root rows root)) (first_seen tree_root rows)
                in Inr (chain_page trees f tr_chain))))"

section \<open>Actions of schedules\<close>

definition row_action :: "exec_row \<Rightarrow> string" where
  "row_action r = (case xr_first r of None \<Rightarrow> xr_run r | Some first \<Rightarrow> first)"

definition execution_action :: "execution \<Rightarrow> string" where
  "execution_action e = (if ex_first_run e \<noteq> [] then ex_first_run e else ex_run e)"

text \<open>The newest actions of one schedule, by when their first run started.\<close>

definition schedule_actions :: "nat \<Rightarrow> string \<Rightarrow> exec_row list \<Rightarrow> string list" where
  "schedule_actions limit sid db =
     (let rows = filter (\<lambda>r. xr_schedule r = Some sid) db in
      map snd (take limit (order_by newer
        (map (\<lambda>a. (min_start (group_of row_action rows a), a)) (first_seen row_action rows)))))"

definition list_schedule_actions ::
  "exec_fault option \<Rightarrow> string list \<Rightarrow> int \<Rightarrow> exec_row list \<Rightarrow> exec_error + (string \<rightharpoonup> exec_chain list)" where
  "list_schedule_actions fault sids limit db =
     (if sids = [] then Inr Map.empty
      else case fault of
        Some x \<Rightarrow> Inl (read_error ''read schedule action chains'' x)
      | None \<Rightarrow>
          Inr (\<lambda>sid.
            (let rows = map scan_execution (concat (map (\<lambda>a.
                   newest_first (filter (\<lambda>r. xr_schedule r = Some sid \<and> row_action r = a) db))
                   (schedule_actions (nat (effective_limit limit default_history_limit)) sid db)))
             in if sid \<notin> set sids \<or> rows = [] then None
                else Some (map (\<lambda>a. aggregate_chain (group_of execution_action rows a))
                       (first_seen execution_action rows)))))"

section \<open>The plans table\<close>

record stored_plan =
  sp_id :: string
  sp_name :: string
  sp_goal :: string
  sp_nodes :: nat
  sp_document :: string
  sp_created :: nat

record plan_row =
  pw_id :: string
  pw_name :: "string option"
  pw_goal :: string
  pw_nodes :: nat
  pw_document :: string
  pw_created :: nat

definition plan_row_of :: "nat \<Rightarrow> stored_plan \<Rightarrow> plan_row" where
  "plan_row_of now p =
     \<lparr>pw_id = sp_id p, pw_name = null_string (sp_name p), pw_goal = sp_goal p, pw_nodes = sp_nodes p,
      pw_document = sp_document p, pw_created = (if sp_created p = 0 then now else sp_created p)\<rparr>"

definition scan_plan :: "plan_row \<Rightarrow> stored_plan" where
  "scan_plan r =
     \<lparr>sp_id = pw_id r, sp_name = or_empty (pw_name r), sp_goal = pw_goal r, sp_nodes = pw_nodes r,
      sp_document = pw_document r, sp_created = pw_created r\<rparr>"

fun upsert_plan :: "plan_row \<Rightarrow> plan_row list \<Rightarrow> plan_row list" where
  "upsert_plan new [] = [new]"
| "upsert_plan new (r # rs) =
     (if pw_id r = pw_id new then new\<lparr>pw_created := pw_created r\<rparr> # rs else r # upsert_plan new rs)"

definition save_plan ::
  "write_fault \<Rightarrow> nat \<Rightarrow> stored_plan \<Rightarrow> plan_row list \<Rightarrow> (exec_error + unit) \<times> plan_row list" where
  "save_plan fault now p db =
     (if length (sp_document p) > max_plan_document
      then (Inl (PlanTooLarge (sp_id p) (length (sp_document p))), db)
      else writing fault (ExecFault (''store fleet plan '' @ sp_id p)) (upsert_plan (plan_row_of now p)) db)"

definition find_plan :: "exec_fault option \<Rightarrow> string \<Rightarrow> plan_row list \<Rightarrow> exec_error + stored_plan" where
  "find_plan fault pid db =
     (case fault of
        Some f \<Rightarrow> Inl (read_error (''read fleet plan '' @ pid) f)
      | None \<Rightarrow>
          (case find (\<lambda>r. pw_id r = pid) db of
             None \<Rightarrow> Inl (NoSuchPlan pid)
           | Some r \<Rightarrow> Inr (scan_plan r)))"

definition find_plans ::
  "exec_fault option \<Rightarrow> string list \<Rightarrow> plan_row list \<Rightarrow> exec_error + (string \<rightharpoonup> stored_plan)" where
  "find_plans fault ids db =
     (if ids = [] then Inr Map.empty
      else case fault of
        Some f \<Rightarrow> Inl (read_error ''read fleet plans'' f)
      | None \<Rightarrow>
          Inr (foldl (\<lambda>m r. m(pw_id r \<mapsto> scan_plan r)) Map.empty (filter (\<lambda>r. pw_id r \<in> set ids) db)))"

definition list_plans :: "exec_fault option \<Rightarrow> int \<Rightarrow> plan_row list \<Rightarrow> exec_error + stored_plan list" where
  "list_plans fault limit db =
     (case fault of
        Some f \<Rightarrow> Inl (read_error ''read stored fleet plans'' f)
      | None \<Rightarrow>
          Inr (map scan_plan (take (nat (effective_limit limit default_plan_limit))
            (order_by (\<lambda>a b. newer (pw_created a, pw_id a) (pw_created b, pw_id b)) db))))"

section \<open>What the record remembers\<close>

text \<open>
  The contract of \<open>ExecutionWriter\<close>: one record per run, the last one written, except that a
  settled record is never replaced by a running one.
\<close>

definition settled :: "execution \<Rightarrow> bool" where
  "settled e = (ex_status e \<noteq> RunningStatus)"

definition remember :: "execution \<Rightarrow> (string \<rightharpoonup> execution) \<Rightarrow> string \<rightharpoonup> execution" where
  "remember e m =
     (case m (ex_run e) of
        None \<Rightarrow> m(ex_run e \<mapsto> e)
      | Some old \<Rightarrow> if settled old \<and> \<not> settled e then m else m(ex_run e \<mapsto> e))"

text \<open>A sequence of writes, each with what it meets: retries, lost answers and late writes alike.\<close>

definition replay_writes ::
  "(write_fault \<Rightarrow> execution \<Rightarrow> 'db \<Rightarrow> (exec_error + unit) \<times> 'db) \<Rightarrow>
   (write_fault \<times> execution) list \<Rightarrow> 'db \<Rightarrow> 'db" where
  "replay_writes save = fold (\<lambda>(w, e) db. snd (save w e db))"

lemma replay_simps [simp]:
  "replay_writes save [] db = db"
  "replay_writes save ((w, e) # ws) db = replay_writes save ws (snd (save w e db))"
  by (simp_all add: replay_writes_def)

locale execution_writer =
  fixes ok :: "'db \<Rightarrow> bool"
    and seen :: "'db \<Rightarrow> string \<rightharpoonup> execution"
    and save :: "write_fault \<Rightarrow> execution \<Rightarrow> 'db \<Rightarrow> (exec_error + unit) \<times> 'db"
  assumes saved: "ok db \<Longrightarrow> save w e db = (r, db') \<Longrightarrow>
      ok db' \<and> (seen db' = remember e (seen db) \<or> seen db' = seen db \<and> \<not> is_ok r)"
    and applied: "is_ok (fst (save Applied e db))"
begin

abbreviation replay :: "(write_fault \<times> execution) list \<Rightarrow> 'db \<Rightarrow> 'db" where
  "replay \<equiv> replay_writes save"

lemma saved_snd:
  "ok db \<Longrightarrow> ok (snd (save w e db)) \<and>
    (seen (snd (save w e db)) = remember e (seen db) \<or> seen (snd (save w e db)) = seen db)"
  using saved [of db w e] by (metis prod.collapse)

lemma replay_ok: "ok db \<Longrightarrow> ok (replay ws db)"
proof (induction ws arbitrary: db)
  case (Cons x ws)
  then show ?case using saved_snd [OF Cons.prems, of "fst x" "snd x"] by (cases x) simp
qed simp

text \<open>What is seen of a run after the writes was seen before, or written.\<close>

lemma replay_seen:
  assumes "ok db" "seen (replay ws db) run = Some e"
  shows "seen db run = Some e \<or> (\<exists>w. (w, e) \<in> set ws \<and> ex_run e = run)"
  using assms
proof (induction ws arbitrary: db)
  case (Cons x ws)
  obtain w a where x: "x = (w, a)" by fastforce
  note s = saved_snd [OF Cons.prems(1), of w a]
  from Cons.IH [of "snd (save w a db)"] s Cons.prems(2)
  consider (more) "\<exists>w. (w, e) \<in> set ws \<and> ex_run e = run" | (now) "seen (snd (save w a db)) run = Some e"
    unfolding x by auto
  then show ?case
  proof cases
    case more
    then show ?thesis by auto
  next
    case now
    with s have "remember a (seen db) run = Some e \<or> seen db run = Some e" by auto
    then show ?thesis unfolding x by (auto simp: remember_def split: option.splits if_splits)
  qed
qed simp

lemma settled_after_one:
  "ok db \<Longrightarrow> seen db run = Some e \<Longrightarrow> settled e \<Longrightarrow>
    \<exists>e'. seen (snd (save w a db)) run = Some e' \<and> settled e'"
  using saved_snd [of db w a] by (auto simp: remember_def split: option.splits)

lemma settled_stays:
  assumes "ok db" "seen db run = Some e" "settled e"
  shows "\<exists>e'. seen (replay ws db) run = Some e' \<and> settled e'"
  using assms
proof (induction ws arbitrary: db e)
  case (Cons x ws)
  obtain w a where x: "x = (w, a)" by fastforce
  obtain e' where "seen (snd (save w a db)) run = Some e'" "settled e'"
    using settled_after_one [OF Cons.prems] by blast
  with Cons.IH [of "snd (save w a db)"] saved_snd [OF Cons.prems(1)] show ?case
    unfolding x by simp
qed simp

text \<open>Once a settled record was written, it is what is seen, whatever else is written and when.\<close>

lemma settled_write_wins:
  assumes "ok db" "(Applied, e) \<in> set ws" "settled e"
    and only: "\<And>w a. (w, a) \<in> set ws \<Longrightarrow> ex_run a = ex_run e \<Longrightarrow> settled a \<Longrightarrow> a = e"
    and new: "seen db (ex_run e) = None"
  shows "seen (replay ws db) (ex_run e) = Some e"
proof -
  obtain before behind where ws: "ws = before @ (Applied, e) # behind"
    using assms(2) by (meson split_list)
  let ?db = "replay before db" and ?db' = "snd (save Applied e (replay before db))"
  have r: "replay ws db = replay behind ?db'" by (simp add: ws replay_writes_def)
  have ok: "ok ?db" using assms(1) by (rule replay_ok)
  have "seen ?db' = remember e (seen ?db)"
    using saved [OF ok, of Applied e] applied [of e ?db] by (metis prod.collapse)
  then have "seen ?db' (ex_run e) = Some e"
    using assms(3) by (auto simp: remember_def split: option.split)
  moreover have "ok ?db'" using saved_snd [OF ok] by blast
  ultimately obtain e' where e': "seen (replay ws db) (ex_run e) = Some e'" "settled e'"
    using settled_stays assms(3) unfolding r by blast
  from replay_seen [OF assms(1) e'(1)] new obtain w where "(w, e') \<in> set ws" "ex_run e' = ex_run e"
    by auto
  with only e' show ?thesis by auto
qed

end

section \<open>The table keeps the writer's contract\<close>

definition table_ok :: "exec_row list \<Rightarrow> bool" where
  "table_ok db = distinct (map xr_run db)"

definition on_record :: "exec_row list \<Rightarrow> string \<rightharpoonup> execution" where
  "on_record db run = map_option scan_execution (find (\<lambda>r. xr_run r = run) db)"

lemma scan_row [simp]: "scan_execution (row_of e) = e"
  by (simp add: scan_execution_def row_of_def null_string_def null_time_def or_empty_def)

lemma row_of_simps [simp]: "xr_run (row_of e) = ex_run e" "xr_status (row_of e) = ex_status e"
  by (simp_all add: row_of_def)

lemma scan_simps [simp]:
  "ex_run (scan_execution r) = xr_run r" "ex_status (scan_execution r) = xr_status r"
  "ex_workflow (scan_execution r) = xr_workflow r" "ex_started (scan_execution r) = xr_started r"
  by (simp_all add: scan_execution_def)

lemma upsert_runs: "set (map xr_run (upsert new db)) = insert (xr_run new) (set (map xr_run db))"
  by (induction db) auto

lemma upsert_ok: "table_ok db \<Longrightarrow> table_ok (upsert new db)"
  unfolding table_ok_def
proof (induction db)
  case (Cons r rs)
  then show ?case using upsert_runs [of new rs] by auto
qed simp

lemma upsert_remembers: "on_record (upsert (row_of e) db) = remember e (on_record db)"
proof (induction db)
  case Nil
  then show ?case by (auto simp: on_record_def remember_def fun_eq_iff)
next
  case (Cons r rs)
  show ?case
  proof (cases "xr_run r = ex_run e")
    case True
    then show ?thesis
      by (auto simp: on_record_def remember_def unsettles_def settled_def fun_eq_iff)
  next
    case False
    have "on_record (r # db) = (on_record db)(xr_run r \<mapsto> scan_execution r)" for db
      by (auto simp: on_record_def fun_eq_iff)
    with False Cons show ?thesis
      by (auto simp: remember_def fun_eq_iff split: option.split)
  qed
qed

interpretation pg: execution_writer table_ok on_record save_execution
proof
  fix db :: "exec_row list" and w e r db'
  assume t: "table_ok db" and s: "save_execution w e db = (r, db')"
  show "table_ok db' \<and> (on_record db' = remember e (on_record db) \<or> on_record db' = on_record db \<and> \<not> is_ok r)"
    using t s upsert_ok [OF t, of "row_of e"] upsert_remembers [of e db]
    by (cases w) (auto simp: save_execution_def writing_def)
qed (simp add: save_execution_def writing_def)

section \<open>Orders\<close>

locale before_order =
  fixes before :: "'a \<Rightarrow> 'a \<Rightarrow> bool"
  assumes asym: "before a b \<Longrightarrow> \<not> before b a"
    and neg_trans: "\<not> before a b \<Longrightarrow> \<not> before b c \<Longrightarrow> \<not> before a c"
begin

lemma set_place [simp]: "set (place_by before x ys) = insert x (set ys)"
  by (induction ys) auto

lemma sorted_place:
  "sorted_wrt (\<lambda>a b. \<not> before b a) ys \<Longrightarrow> sorted_wrt (\<lambda>a b. \<not> before b a) (place_by before x ys)"
proof (induction ys)
  case (Cons y ys)
  show ?case
  proof (cases "before y x")
    case True
    then show ?thesis using Cons asym [OF True] by simp
  next
    case False
    moreover have "\<not> before z x" if "z \<in> set ys" for z
      using neg_trans [OF _ False, of z] that Cons.prems by simp
    ultimately show ?thesis using Cons.prems by simp
  qed
qed simp

lemma set_order [simp]: "set (order_by before xs) = set xs"
  unfolding order_by_def by (induction xs) auto

lemma sorted_order: "sorted_wrt (\<lambda>a b. \<not> before b a) (order_by before xs)"
  unfolding order_by_def by (induction xs) (auto intro: sorted_place)

lemma length_place [simp]: "length (place_by before x ys) = Suc (length ys)"
  by (induction ys) auto

lemma length_order [simp]: "length (order_by before xs) = length xs"
  unfolding order_by_def by (induction xs) auto

lemma distinct_map_place:
  "distinct (map g (place_by before x ys)) \<longleftrightarrow> g x \<notin> g ` set ys \<and> distinct (map g ys)"
  by (induction ys) auto

lemma distinct_map_order: "distinct (map g (order_by before xs)) = distinct (map g xs)"
proof (induction xs)
  case (Cons x xs)
  then show ?case
    using distinct_map_place [of g x "order_by before xs"] set_order [of xs]
    by (auto simp: order_by_def)
qed (simp add: order_by_def)

lemma place_filter: "filter P (place_by before x ys) = (if P x then place_by before x (filter P ys) else filter P ys)"
  if "sorted_wrt (\<lambda>a b. \<not> before b a) ys"
  using that
proof (induction ys)
  case (Cons y ys)
  have "place_by before x zs = x # zs" if "\<forall>z \<in> set zs. \<not> before z x" for zs
    using that by (cases zs) auto
  moreover have "\<not> before z x" if "\<not> before y x" "z \<in> set ys" for z
    using that Cons.prems neg_trans by fastforce
  ultimately show ?case using Cons by auto
qed simp

lemma order_filter: "order_by before (filter P xs) = filter P (order_by before xs)"
proof (induction xs)
  case (Cons x xs)
  then show ?case using place_filter [OF sorted_order, of P x xs] by (simp add: order_by_def)
qed (simp add: order_by_def)

lemma order_sorted: "sorted_wrt (\<lambda>a b. \<not> before b a) xs \<Longrightarrow> order_by before xs = xs"
proof (induction xs)
  case (Cons x xs)
  then have "order_by before (x # xs) = place_by before x xs" by (simp add: order_by_def)
  also have "\<dots> = x # xs" using Cons.prems by (cases xs) auto
  finally show ?case .
qed (simp add: order_by_def)

end

lemma newer_asym: "newer a b \<Longrightarrow> \<not> newer b a"
  and newer_neg_trans: "\<not> newer a b \<Longrightarrow> \<not> newer b c \<Longrightarrow> \<not> newer a c"
  and newer_total: "a \<noteq> b \<Longrightarrow> newer a b \<or> newer b a"
  by (auto simp: newer_def prod_eq_iff)

lemma chain_before_asym: "chain_before a b \<Longrightarrow> \<not> chain_before b a"
  and chain_before_neg_trans: "\<not> chain_before a b \<Longrightarrow> \<not> chain_before b c \<Longrightarrow> \<not> chain_before a c"
  and chain_before_total: "a \<noteq> b \<Longrightarrow> chain_before a b \<or> chain_before b a"
  by (auto simp: chain_before_def prod_eq_iff)

interpretation rows: before_order "\<lambda>a b. newer (row_key a) (row_key b)"
  by unfold_locales (erule newer_asym, erule (1) newer_neg_trans)

interpretation chains: before_order chain_before
  by unfold_locales (erule chain_before_asym, erule (1) chain_before_neg_trans)

section \<open>Listings\<close>

definition ex_key :: "execution \<Rightarrow> nat \<times> string" where
  "ex_key e = (ex_started e, ex_run e)"

lemma ex_key_scan [simp]: "ex_key (scan_execution r) = row_key r"
  by (simp add: ex_key_def row_key_def)

lemma set_newest [simp]: "set (newest_first db) = set db"
  and length_newest [simp]: "length (newest_first db) = length db"
  by (simp_all add: newest_first_def)

lemma newest_sorted:
  assumes "table_ok db"
  shows "sorted_wrt (\<lambda>a b. newer (row_key a) (row_key b)) (newest_first db)"
proof -
  have "distinct (map xr_run (newest_first db))"
    using assms unfolding newest_first_def rows.distinct_map_order by (simp add: table_ok_def)
  moreover have "sorted_wrt (\<lambda>a b. \<not> newer (row_key b) (row_key a)) (newest_first db)"
    unfolding newest_first_def by (rule rows.sorted_order)
  ultimately show ?thesis
  proof (induction "newest_first db" arbitrary: db rule: list.induct)
    case (Cons a xs)
    have "sorted_wrt (\<lambda>a b. newer (row_key a) (row_key b)) ys"
      if "distinct (map xr_run ys)" "sorted_wrt (\<lambda>a b. \<not> newer (row_key b) (row_key a)) ys" for ys
      using that
    proof (induction ys)
      case (Cons a ys)
      have "newer (row_key a) (row_key b)" if "b \<in> set ys" for b
      proof -
        have "row_key a \<noteq> row_key b" using Cons.prems(1) that by (auto simp: row_key_def)
        moreover have "\<not> newer (row_key b) (row_key a)" using Cons.prems(2) that by simp
        ultimately show ?thesis using newer_total by blast
      qed
      with Cons show ?case by simp
    qed simp
    with Cons.prems show ?case by blast
  qed simp
qed

lemma table_ok_filter: "table_ok db \<Longrightarrow> table_ok (filter P db)"
  unfolding table_ok_def by (rule distinct_map_filter)

text \<open>The first rows of the newest-first order: sorted, and nothing newer is left out.\<close>

lemma newest_page:
  assumes "table_ok db"
  shows "sorted_wrt (\<lambda>a b. newer (row_key a) (row_key b)) (take n (newest_first db)) \<and>
    length (take n (newest_first db)) = min n (length db) \<and> set (take n (newest_first db)) \<subseteq> set db \<and>
    (\<forall>r \<in> set db. r \<in> set (take n (newest_first db)) \<or>
       (\<forall>e \<in> set (take n (newest_first db)). newer (row_key e) (row_key r)))"
proof (intro conjI ballI)
  note s = newest_sorted [OF assms]
  have split: "newest_first db = take n (newest_first db) @ drop n (newest_first db)" by simp
  with s have parts: "sorted_wrt (\<lambda>a b. newer (row_key a) (row_key b)) (take n (newest_first db))"
      "\<And>e r. e \<in> set (take n (newest_first db)) \<Longrightarrow> r \<in> set (drop n (newest_first db)) \<Longrightarrow> newer (row_key e) (row_key r)"
    by (metis sorted_wrt_append)+
  show "sorted_wrt (\<lambda>a b. newer (row_key a) (row_key b)) (take n (newest_first db))" by (rule parts)
  fix r assume "r \<in> set db"
  then have "r \<in> set (take n (newest_first db)) \<or> r \<in> set (drop n (newest_first db))"
    using split set_newest [of db] by (metis Un_iff set_append)
  then show "r \<in> set (take n (newest_first db)) \<or>
      (\<forall>e \<in> set (take n (newest_first db)). newer (row_key e) (row_key r))"
    using parts(2) by blast
qed (use set_take_subset [of n "newest_first db"] in auto)

section \<open>Aggregation\<close>

text \<open>
  The reference: a chain is its newest iteration, with the oldest start, the summed tokens, and
  each preserved fact as the newest iteration that has it states it.
\<close>

definition said :: "('a \<Rightarrow> 'b list) \<Rightarrow> 'a list \<Rightarrow> 'b list" where
  "said f es = (case find (\<lambda>e. f e \<noteq> []) es of None \<Rightarrow> [] | Some e \<Rightarrow> f e)"

definition repository_said :: "exec_detail list \<Rightarrow> string" where
  "repository_said ds =
     (case find (\<lambda>d. ed_directory d \<noteq> []) ds of None \<Rightarrow> [] | Some d \<Rightarrow> ed_repository d)"

definition detail_summary :: "exec_detail list \<Rightarrow> exec_detail" where
  "detail_summary ds =
     (hd ds)\<lparr>ed_plan_id := said ed_plan_id ds, ed_nodes := said ed_nodes ds,
       ed_directory := said ed_directory ds, ed_repository := repository_said ds,
       ed_instructions := said ed_instructions ds\<rparr>"

definition latest_summary :: "execution list \<Rightarrow> execution" where
  "latest_summary es =
     (hd es)\<lparr>ex_prompt := said ex_prompt es, ex_schedule := said ex_schedule es,
       ex_parent := said ex_parent es, ex_started := ex_started (last es),
       ex_tokens := sum_list (map ex_tokens es), ex_detail := detail_summary (map ex_detail es)\<rparr>"

definition chain_summary :: "execution list \<Rightarrow> exec_chain" where
  "chain_summary es =
     \<lparr>ch_latest = latest_summary es, ch_started = ex_started (last es), ch_iterations = length es,
      ch_tokens = sum_list (map ex_tokens es)\<rparr>"

lemma find_append: "find P (xs @ ys) = (case find P xs of None \<Rightarrow> find P ys | Some x \<Rightarrow> Some x)"
  by (induction xs) auto

lemma find_holds: "find P xs = Some x \<Longrightarrow> P x"
  by (induction xs) (auto split: if_splits)

lemma said_snoc: "said f (es @ [x]) = (if said f es = [] then f x else said f es)"
  by (auto simp: said_def find_append dest: find_holds split: option.splits)

lemma said_one [simp]: "said f [x] = f x"
  by (simp add: said_def)

text \<open>A repository is only recorded with the directory it was found from.\<close>

definition placed_detail :: "exec_detail \<Rightarrow> bool" where
  "placed_detail d = (ed_directory d = [] \<longrightarrow> ed_repository d = [])"

lemma repository_snoc:
  "placed_detail d \<Longrightarrow> repository_said (ds @ [d]) = (if said ed_directory ds = [] then ed_repository d else repository_said ds)"
  by (auto simp: repository_said_def said_def find_append placed_detail_def dest: find_holds split: option.splits)

lemma repository_one: "placed_detail d \<Longrightarrow> repository_said [d] = ed_repository d"
  by (simp add: repository_said_def placed_detail_def)

definition falling :: "execution list \<Rightarrow> bool" where
  "falling es = sorted_wrt (\<lambda>a b. ex_started b < ex_started a) es"

lemma falling_snoc: "falling (es @ [x]) \<longleftrightarrow> falling es \<and> (\<forall>e \<in> set es. ex_started x < ex_started e)"
  by (auto simp: falling_def sorted_wrt_append)

lemma aggregate_snoc: "aggregate_chain (es @ [x]) = append_to_chain (aggregate_chain es) x"
  by (simp add: aggregate_chain_def)

lemma detail_snoc:
  "ds \<noteq> [] \<Longrightarrow> placed_detail d \<Longrightarrow> detail_summary (ds @ [d]) = preserve_detail (detail_summary ds) d"
  unfolding detail_summary_def preserve_detail_def said_snoc by (simp add: repository_snoc)

lemma latest_snoc:
  "es \<noteq> [] \<Longrightarrow> placed_detail (ex_detail x) \<Longrightarrow> latest_summary (es @ [x]) =
    (preserve_facts (latest_summary es) x)
      \<lparr>ex_started := ex_started x, ex_tokens := sum_list (map ex_tokens es) + ex_tokens x\<rparr>"
  unfolding latest_summary_def preserve_facts_def said_snoc
  by (simp add: detail_snoc)

lemma preserve_no_detail: "placed_detail d \<Longrightarrow> preserve_detail d no_detail = d"
  by (rule exec_detail.equality) (simp_all add: preserve_detail_def no_detail_def placed_detail_def)

lemma preserve_nothing: "placed_detail (ex_detail x) \<Longrightarrow> preserve_facts x no_execution = x"
  by (rule execution.equality) (simp_all add: preserve_facts_def no_execution_def preserve_no_detail)

lemma summary_one: "placed_detail (ex_detail x) \<Longrightarrow> latest_summary [x] = x"
proof -
  assume p: "placed_detail (ex_detail x)"
  have "detail_summary [ex_detail x] = ex_detail x"
    by (rule exec_detail.equality) (simp_all add: detail_summary_def repository_one p)
  then show ?thesis by (intro execution.equality) (simp_all add: latest_summary_def)
qed

lemma aggregate_summary:
  assumes "es \<noteq> []" "falling es" "\<forall>e \<in> set es. 0 < ex_started e" "ex_workflow (hd es) \<noteq> []"
    and "\<forall>e \<in> set es. placed_detail (ex_detail e)"
  shows "aggregate_chain es = chain_summary es"
  using assms
proof (induction es rule: rev_induct)
  case (snoc x es)
  show ?case
  proof (cases "es = []")
    case True
    then show ?thesis
      using preserve_nothing [of x] summary_one [of x] snoc.prems(5)
      by (simp add: aggregate_chain_def append_to_chain_def no_chain_def chain_summary_def Let_def)
        (simp add: no_execution_def)
  next
    case False
    with snoc have ih: "aggregate_chain es = chain_summary es" by (simp add: falling_snoc)
    have lt: "ex_started x < ex_started (last es)" "0 < ex_started (last es)"
      using snoc.prems(2,3) False by (auto simp: falling_snoc)
    have wf: "ex_workflow (hd es) \<noteq> []" using snoc.prems(4) False by simp
    let ?c = "chain_summary es"
    have c: "ch_started ?c = ex_started (last es)" "ex_workflow (ch_latest ?c) = ex_workflow (hd es)"
        "ex_started (ch_latest ?c) = ex_started (last es)" "ch_tokens ?c = sum_list (map ex_tokens es)"
      by (simp_all add: chain_summary_def latest_summary_def)
    have "append_to_chain ?c x =
        \<lparr>ch_latest = (preserve_facts (ch_latest ?c) x)
           \<lparr>ex_started := ex_started x, ex_tokens := sum_list (map ex_tokens es) + ex_tokens x\<rparr>,
         ch_started = ex_started x, ch_iterations = ch_iterations ?c + 1,
         ch_tokens = sum_list (map ex_tokens es) + ex_tokens x\<rparr>"
      unfolding append_to_chain_def Let_def newer_def c using lt wf by simp
    moreover have "chain_summary (es @ [x]) = \<dots>"
      unfolding chain_summary_def using latest_snoc [OF False, of x] snoc.prems(5) by simp
    ultimately show ?thesis unfolding aggregate_snoc ih by simp
  qed
qed simp

section \<open>Paging\<close>

lemma set_first_seen [simp]: "set (first_seen key xs) = key ` set xs"
  by (induction xs) auto

lemma distinct_first_seen [simp]: "distinct (first_seen key xs)"
  by (induction xs) auto

lemma first_seen_append:
  "first_seen key (xs @ ys) = first_seen key xs @ filter (\<lambda>k. k \<notin> key ` set xs) (first_seen key ys)"
  by (induction xs) (auto simp: filter_empty_conv intro: filter_cong)

lemma first_seen_const: "xs \<noteq> [] \<Longrightarrow> \<forall>x \<in> set xs. key x = k \<Longrightarrow> first_seen key xs = [k]"
proof (induction xs)
  case (Cons x xs)
  then show ?case by (cases xs) auto
qed simp

lemma constant_keys: "xs \<noteq> [] \<Longrightarrow> \<forall>x \<in> set xs. key x = k \<Longrightarrow> key ` set xs = {k}"
  by (cases xs) auto

text \<open>Concatenated groups come apart again.\<close>

lemma groups_apart:
  assumes "distinct ks" "\<And>k. k \<in> set ks \<Longrightarrow> g k \<noteq> [] \<and> (\<forall>x \<in> set (g k). key x = k)"
  shows "first_seen key (concat (map g ks)) = ks"
    and "k \<in> set ks \<Longrightarrow> group_of key (concat (map g ks)) k = g k"
proof -
  have mem: "key ` set (concat (map g ks)) = set ks" if "\<And>k. k \<in> set ks \<Longrightarrow> g k \<noteq> [] \<and> (\<forall>x \<in> set (g k). key x = k)" for ks
    using that
  proof (induction ks)
    case (Cons a ks)
    then have "key ` set (g a) = {a}" using constant_keys [of "g a" key a] by simp
    with Cons show ?case by (simp add: image_Un)
  qed simp
  have "first_seen key (concat (map g ks)) = ks \<and> (\<forall>k \<in> set ks. group_of key (concat (map g ks)) k = g k)"
    using assms
  proof (induction ks)
    case (Cons a ks)
    have a: "first_seen key (g a) = [a]" "key ` set (g a) = {a}"
      using Cons.prems(2) [of a] first_seen_const [of "g a" key a] constant_keys [of "g a" key a] by simp_all
    have ih: "first_seen key (concat (map g ks)) = ks"
        "\<forall>k \<in> set ks. group_of key (concat (map g ks)) k = g k"
      using Cons by auto
    have m: "key ` set (concat (map g ks)) = set ks" using Cons.prems(2) by (intro mem) simp
    have "group_of key (concat (map g ks)) a = []"
      using m Cons.prems(1) by (auto simp: group_of_def filter_empty_conv)
    moreover have "filter (\<lambda>x. key x = a) (g a) = g a" using Cons.prems(2) [of a] by simp
    moreover have "filter (\<lambda>x. key x = k) (g a) = []" if "k \<in> set ks" for k
      using Cons.prems(2) [of a] Cons.prems(1) that by (auto simp: filter_empty_conv)
    ultimately show ?case
      using a ih Cons.prems(1) by (auto simp: first_seen_append group_of_def filter_id_conv)
  qed simp
  then show "first_seen key (concat (map g ks)) = ks"
    "k \<in> set ks \<Longrightarrow> group_of key (concat (map g ks)) k = g k" by auto
qed

text \<open>The chain of one workflow, over all of its rows.\<close>

definition chain_at :: "exec_row list \<Rightarrow> string \<Rightarrow> exec_chain" where
  "chain_at db w = aggregate_chain (map scan_execution (newest_first (filter (\<lambda>r. joins_chain r w) db)))"

lemma min_start_Min: "rs \<noteq> [] \<Longrightarrow> min_start rs = Min (xr_started ` set rs)"
proof (cases rs)
  case (Cons r rs')
  have "foldl min t ts = Min (set (t # ts))" for t :: nat and ts
    unfolding foldl_conv_fold Min.set_eq_fold by (simp add: min.commute)
  from this [of "xr_started r" "map xr_started rs'"] Cons show ?thesis by (simp add: min_start_def)
qed simp

lemma aggregate_start_workflow:
  assumes "es \<noteq> []" "\<forall>e \<in> set es. 0 < ex_started e \<and> ex_workflow e = w" "w \<noteq> []"
  shows "ch_started (aggregate_chain es) = Min (ex_started ` set es) \<and>
    ex_workflow (ch_latest (aggregate_chain es)) = w"
  using assms
proof (induction es rule: rev_induct)
  case (snoc x es)
  show ?case
  proof (cases "es = []")
    case True
    with snoc.prems show ?thesis
      by (simp add: aggregate_chain_def append_to_chain_def no_chain_def no_execution_def preserve_facts_def Let_def)
  next
    case False
    with snoc have ih: "ch_started (aggregate_chain es) = Min (ex_started ` set es)"
        "ex_workflow (ch_latest (aggregate_chain es)) = w" by auto
    have "Min (ex_started ` set es) \<in> ex_started ` set es" using False by (intro Min_in) auto
    then have "0 < Min (ex_started ` set es)" using snoc.prems(2) by auto
    moreover have "Min (ex_started ` set (es @ [x])) = min (ex_started x) (Min (ex_started ` set es))"
      using False by (simp add: Min_insert)
    ultimately show ?thesis
      using ih snoc.prems(2) unfolding aggregate_snoc append_to_chain_def Let_def
      by (simp add: preserve_facts_def min_def)
  qed
qed simp

text \<open>Rows of one workflow are eligible together, as the iterations of one chain are.\<close>

definition uniform :: "chain_filter \<Rightarrow> exec_row list \<Rightarrow> bool" where
  "uniform f db =
     (table_ok db \<and> (\<forall>r \<in> set db. 0 < xr_started r \<and> xr_workflow r \<noteq> []) \<and>
      (\<forall>r \<in> set db. \<forall>q \<in> set db. xr_workflow r = xr_workflow q \<longrightarrow> row_eligible f r = row_eligible f q))"

lemma eligible_mem:
  "(t, w) \<in> set (eligible f db) \<longleftrightarrow>
    w \<in> xr_workflow ` set (filter (row_eligible f) db) \<and>
    t = min_start (group_of xr_workflow (filter (row_eligible f) db) w)"
  by (auto simp: eligible_def Let_def)

lemma eligible_distinct: "distinct (map snd (eligible f db))"
  by (simp add: eligible_def Let_def comp_def)

lemma chain_at_key:
  assumes "uniform f db" "(t, w) \<in> set (eligible f db)"
  shows "ch_started (chain_at db w) = t" "ex_workflow (ch_latest (chain_at db w)) = w"
    "filter (\<lambda>r. joins_chain r w) db \<noteq> []"
proof -
  let ?rows = "filter (\<lambda>r. joins_chain r w) db"
  obtain r where r: "r \<in> set db" "row_eligible f r" "xr_workflow r = w"
    using assms(2) by (auto simp: eligible_mem)
  have same: "group_of xr_workflow (filter (row_eligible f) db) w = ?rows"
    unfolding group_of_def filter_filter joins_chain_def
  proof (rule filter_cong [OF refl])
    fix q assume "q \<in> set db"
    then have "xr_workflow q = w \<Longrightarrow> row_eligible f q"
      using assms(1) r unfolding uniform_def by metis
    then show "(row_eligible f q \<and> xr_workflow q = w) = (xr_workflow q = w)" by blast
  qed
  show ne: "?rows \<noteq> []" using r(1,3) unfolding filter_empty_conv joins_chain_def by blast
  let ?es = "map scan_execution (newest_first ?rows)"
  have set: "set ?es = scan_execution ` set ?rows" by simp
  have "set ?es \<noteq> {}" unfolding set image_is_empty set_empty by (rule ne)
  then have "?es \<noteq> []" by (simp only: set_empty not_False_eq_True)
  moreover have "\<forall>e \<in> set ?es. 0 < ex_started e \<and> ex_workflow e = w"
    unfolding set using assms(1) by (auto simp: uniform_def joins_chain_def)
  moreover have "w \<noteq> []" using assms(1) r(1,3) unfolding uniform_def by blast
  ultimately have a: "ch_started (aggregate_chain ?es) = Min (ex_started ` set ?es) \<and>
      ex_workflow (ch_latest (aggregate_chain ?es)) = w" by (rule aggregate_start_workflow)
  then show "ex_workflow (ch_latest (chain_at db w)) = w" unfolding chain_at_def by blast
  have "t = min_start ?rows" using assms(2) unfolding eligible_mem same by blast
  then have "t = Min (xr_started ` set ?rows)" unfolding min_start_Min [OF ne] .
  moreover have "ex_started ` set ?es = xr_started ` set ?rows" unfolding set image_image by simp
  ultimately show "ch_started (chain_at db w) = t" using a unfolding chain_at_def by metis
qed

definition all_keys :: "chain_filter \<Rightarrow> exec_row list \<Rightarrow> (nat \<times> string) list" where
  "all_keys f db = order_by chain_before (eligible f db)"

lemma all_keys_distinct: "distinct (map snd (all_keys f db))"
  unfolding all_keys_def chains.distinct_map_order by (rule eligible_distinct)

lemma strictly_sorted:
  assumes "sorted_wrt (\<lambda>a b. \<not> chain_before b a) ks" "distinct ks"
  shows "sorted_wrt chain_before ks"
  using assms
proof (induction ks)
  case (Cons k ks)
  then have "chain_before k b" if "b \<in> set ks" for b
    using that chain_before_total [of k b] by auto
  with Cons show ?case by simp
qed simp

lemma all_keys_sorted: "sorted_wrt chain_before (all_keys f db)"
  unfolding all_keys_def
  by (intro strictly_sorted chains.sorted_order)
    (use all_keys_distinct [of f db] in \<open>simp add: all_keys_def distinct_map\<close>)

lemma page_keys_take:
  "page_keys f cur db = take (cf_size f + 1) (filter (after_cursor cur) (all_keys f db))"
  by (simp add: page_keys_def all_keys_def chains.order_filter)

lemma after_nth:
  assumes "sorted_wrt chain_before ks" "0 < n" "n \<le> length ks"
  shows "filter (after_cursor (Some (ks ! (n - 1)))) ks = drop n ks"
proof -
  let ?c = "ks ! (n - 1)"
  have "filter (chain_before ?c) (take n ks) = []"
    unfolding filter_empty_conv
  proof
    fix k assume "k \<in> set (take n ks)"
    then obtain j where j: "j < n" "k = ks ! j" using assms(3) by (auto simp: in_set_conv_nth)
    show "\<not> chain_before ?c k"
    proof (cases "j = n - 1")
      case True
      then show ?thesis using j chain_before_asym by blast
    next
      case False
      then have "j < n - 1" "n - 1 < length ks" using j(1) assms(2,3) by simp_all
      then have "chain_before k ?c" unfolding j(2) by (rule sorted_wrt_nth_less [OF assms(1)])
      then show ?thesis by (rule chain_before_asym)
    qed
  qed
  moreover have "filter (chain_before ?c) (drop n ks) = drop n ks"
    unfolding filter_id_conv
  proof
    fix k assume "k \<in> set (drop n ks)"
    then obtain j where "j < length ks - n" "k = ks ! (n + j)" by (auto simp: in_set_conv_nth)
    moreover from this assms(2) have "n - 1 < n + j" "n + j < length ks" by simp_all
    ultimately show "chain_before ?c k" using sorted_wrt_nth_less [OF assms(1)] by blast
  qed
  ultimately have "filter (chain_before ?c) (take n ks @ drop n ks) = drop n ks"
    by (simp only: filter_append append_Nil)
  moreover have "after_cursor (Some ?c) = chain_before ?c" by (simp add: after_cursor_def fun_eq_iff)
  ultimately show ?thesis by simp
qed

lemma take_required_none: "take_required g [] cap items xs = items"
  by (induction xs) auto

lemma chain_page_at:
  assumes u: "uniform f db" and r: "cf_required f = []" and c: "chain_cursor_of f = Inr cur"
  shows "list_chain_page None f db =
    (let ks = filter (after_cursor cur) (all_keys f db); n = cf_size f in
     Inr (map (chain_at db) (map snd (take n ks)),
          if length ks \<le> n then NoCursor else ChainCursor (fst (ks ! (n - 1))) (snd (ks ! (n - 1)))))"
proof -
  let ?n = "cf_size f" and ?ks = "filter (after_cursor cur) (all_keys f db)"
  let ?page = "take (?n + 1) ?ks"
  let ?g = "\<lambda>w. map scan_execution (newest_first (filter (\<lambda>r. joins_chain r w) db))"
  have n: "0 < ?n" by (simp add: cf_size_def effective_limit_def default_history_limit_def max_list_limit_def Let_def)
  have sub: "k \<in> set (eligible f db)" if "k \<in> set ?page" for k
    using that by (auto simp: all_keys_def dest: in_set_takeD)
  have dist: "distinct (map snd ?page)"
    using all_keys_distinct [of f db] unfolding take_map [symmetric]
    by (intro distinct_take distinct_map_filter)
  have sorted: "sorted_wrt chain_before ?page"
    using all_keys_sorted by (intro sorted_wrt_take sorted_wrt_filter)
  then have "sorted_wrt (\<lambda>a b. \<not> chain_before b a) ?page"
    by (rule sorted_wrt_mono_rel [rotated]) (blast dest: chain_before_asym)
  then have sel: "selected_keys f cur db = ?page"
    using r by (simp add: selected_keys_def required_keys_def page_keys_take chains.order_sorted
        order_by_def [of _ "[]"])
  have rows: "map scan_execution (selected_rows joins_chain f cur db) = concat (map ?g (map snd ?page))"
    unfolding selected_rows_def sel by (simp add: map_concat comp_def case_prod_beta)
  have g: "?g w \<noteq> [] \<and> (\<forall>x \<in> set (?g w). ex_workflow x = w)" if "w \<in> set (map snd ?page)" for w
  proof -
    from that obtain t where "(t, w) \<in> set ?page" by auto
    from chain_at_key(3) [OF u sub [OF this]] have ne: "filter (\<lambda>r. joins_chain r w) db \<noteq> []" .
    then have "newest_first (filter (\<lambda>r. joins_chain r w) db) \<noteq> []" by (metis length_newest length_0_conv)
    then show ?thesis by (auto simp: joins_chain_def)
  qed
  have fs: "first_seen ex_workflow (map scan_execution (selected_rows joins_chain f cur db)) = map snd ?page"
    unfolding rows by (rule groups_apart(1) [where g = ?g and key = ex_workflow, OF dist g])
  have gr: "group_of ex_workflow (map scan_execution (selected_rows joins_chain f cur db)) w = ?g w"
    if "w \<in> set (map snd ?page)" for w
    unfolding rows by (rule groups_apart(2) [where g = ?g and key = ex_workflow, OF dist g that])
  have chains: "map (\<lambda>w. aggregate_chain (group_of ex_workflow (map scan_execution (selected_rows joins_chain f cur db)) w))
      (first_seen ex_workflow (map scan_execution (selected_rows joins_chain f cur db))) =
    map (chain_at db) (map snd ?page)"
    unfolding fs by (rule map_cong [OF refl]) (simp only: gr chain_at_def)
  have last: "ch_started (chain_at db (snd k)) = fst k" "ex_workflow (ch_latest (chain_at db (snd k))) = snd k"
    if "k \<in> set ?page" for k
    using chain_at_key [OF u, of "fst k" "snd k"] sub [OF that] by simp_all
  show ?thesis
  proof (cases "length ?ks \<le> ?n")
    case True
    then show ?thesis
      unfolding list_chain_page_def c sum.case option.case Let_def chains
      by (simp add: chain_page_def)
  next
    case False
    have nth: "?page ! (?n - 1) = ?ks ! (?n - 1)" "?n - 1 < length ?page" using n False by simp_all
    then have mem: "?ks ! (?n - 1) \<in> set ?page" by (metis nth_mem)
    have "take ?n ?page = take ?n ?ks" by (simp add: min_def)
    then show ?thesis
      unfolding list_chain_page_def c sum.case option.case Let_def chains
      using False n nth last [OF mem] r
      by (simp add: chain_page_def Let_def take_required_none take_map)
  qed
qed

text \<open>A reader that follows the cursors to the end, with as many requests as \<open>fuel\<close>.\<close>

fun read_pages :: "nat \<Rightarrow> chain_filter \<Rightarrow> exec_row list \<Rightarrow> exec_chain list option" where
  "read_pages 0 f db = None"
| "read_pages (Suc fuel) f db =
     (case list_chain_page None f db of
        Inl e \<Rightarrow> None
      | Inr (found, next) \<Rightarrow>
          (case next of
             NoCursor \<Rightarrow> Some found
           | _ \<Rightarrow> map_option ((@) found) (read_pages fuel (f\<lparr>cf_cursor := next\<rparr>) db)))"

lemma cursor_irrelevant [simp]:
  "all_keys (f\<lparr>cf_cursor := c\<rparr>) db = all_keys f db" "uniform (f\<lparr>cf_cursor := c\<rparr>) db = uniform f db"
  "cf_size (f\<lparr>cf_cursor := c\<rparr>) = cf_size f"
  by (simp_all add: all_keys_def eligible_def row_eligible_def uniform_def cf_size_def cong: filter_cong)

lemma size_pos: "0 < cf_size f"
  by (auto simp: cf_size_def effective_limit_def default_history_limit_def max_list_limit_def Let_def)

lemma key_positive: "uniform f db \<Longrightarrow> (t, w) \<in> set (all_keys f db) \<Longrightarrow> 0 < t \<and> w \<noteq> []"
proof -
  assume u: "uniform f db" and m: "(t, w) \<in> set (all_keys f db)"
  let ?g = "group_of xr_workflow (filter (row_eligible f) db) w"
  have "(t, w) \<in> set (eligible f db)" using m unfolding all_keys_def chains.set_order .
  then have e: "w \<in> xr_workflow ` set (filter (row_eligible f) db)" "t = min_start ?g"
    unfolding eligible_mem by blast+
  from e(1) obtain r where r: "r \<in> set db" "row_eligible f r" "xr_workflow r = w" by auto
  then have "r \<in> set ?g" by (simp add: group_of_def)
  then have ne: "?g \<noteq> []" by auto
  have "t \<in> xr_started ` set ?g" unfolding e(2) min_start_Min [OF ne] using ne by (intro Min_in) simp_all
  then obtain q where "q \<in> set db" "t = xr_started q" by (auto simp: group_of_def)
  with u r show ?thesis unfolding uniform_def by blast
qed

lemma read_pages_from:
  assumes "uniform f db" "cf_required f = []" "chain_cursor_of f = Inr cur"
    and "filter (after_cursor cur) (all_keys f db) = drop k (all_keys f db)"
    and "length (drop k (all_keys f db)) < fuel"
  shows "read_pages fuel f db = Some (map (chain_at db) (map snd (drop k (all_keys f db))))"
  using assms
proof (induction fuel arbitrary: f cur k)
  case (Suc fuel)
  let ?n = "cf_size f" and ?E = "all_keys f db"
  have page: "list_chain_page None f db =
      Inr (map (chain_at db) (map snd (take ?n (drop k ?E))),
        if length (drop k ?E) \<le> ?n then NoCursor
        else ChainCursor (fst (drop k ?E ! (?n - 1))) (snd (drop k ?E ! (?n - 1))))"
    using chain_page_at [OF Suc.prems(1-3)] unfolding Suc.prems(4) Let_def .
  show ?case
  proof (cases "length (drop k ?E) \<le> ?n")
    case True
    then show ?thesis using page by simp
  next
    case False
    have n: "0 < ?n" "k + ?n < length ?E" using size_pos [of f] False by simp_all
    let ?c = "?E ! (k + ?n - 1)"
    have c: "drop k ?E ! (?n - 1) = ?c" using n by simp
    let ?f = "f\<lparr>cf_cursor := ChainCursor (fst ?c) (snd ?c)\<rparr>"
    have "?c \<in> set ?E" using n by simp
    with key_positive [OF Suc.prems(1), of "fst ?c" "snd ?c"]
    have cur: "chain_cursor_of ?f = Inr (Some ?c)" by (simp add: chain_cursor_of_def)
    have "filter (after_cursor (Some ?c)) ?E = drop (k + ?n) ?E"
      using after_nth [OF all_keys_sorted, of "k + ?n" f db] n by simp
    then have "read_pages fuel ?f db = Some (map (chain_at db) (map snd (drop (k + ?n) (all_keys ?f db))))"
      using Suc.prems n by (intro Suc.IH [OF _ _ cur]) simp_all
    moreover have "take ?n (drop k ?E) @ drop (k + ?n) ?E = drop k ?E"
      by (metis add.commute append_take_drop_id drop_drop)
    ultimately show ?thesis
      using page False unfolding c by (simp add: map_append [symmetric] del: map_append)
  qed
qed simp

section \<open>Sample tables\<close>

definition sample_run :: "string \<Rightarrow> nat \<Rightarrow> exec_status \<Rightarrow> execution" where
  "sample_run run at status =
     no_execution\<lparr>ex_workflow := ''run-a'', ex_run := run, ex_kind := ''run'', ex_started := at,
       ex_ended := (if status = RunningStatus then 0 else at + 5), ex_status := status, ex_tokens := 3\<rparr>"

text \<open>An older iteration is shown when two of them started in the same instant.\<close>

lemma tie_shows_older_iteration:
  "\<exists>db. newest_first db = db \<and> ex_status (scan_execution (hd db)) = FailedStatus \<and>
     ex_status (ch_latest (chain_at db ''run-a'')) = SucceededStatus"
proof (intro exI conjI)
  let ?db = "map row_of [sample_run ''a'' 9 FailedStatus, sample_run ''c'' 4 SucceededStatus, sample_run ''b'' 4 SucceededStatus]"
  show "newest_first ?db = ?db" by code_simp
  show "ex_status (scan_execution (hd ?db)) = FailedStatus" by code_simp
  show "ex_status (ch_latest (chain_at ?db ''run-a'')) = SucceededStatus" by code_simp
qed

definition sample_table :: "exec_row list" where
  "sample_table =
     map row_of
       [sample_run ''a'' 4 SucceededStatus, sample_run ''b'' 9 FailedStatus,
        (sample_run ''c'' 6 RunningStatus)\<lparr>ex_workflow := ''run-b''\<rparr>]"

definition sample_filter :: chain_filter where
  "sample_filter =
     \<lparr>cf_kinds = [''run''], cf_workflow = [], cf_required = [], cf_excluded = [], cf_limit = 1,
      cf_cursor = NoCursor\<rparr>"

lemma sample_uniform: "uniform sample_filter sample_table"
  by code_simp

section \<open>Properties\<close>

text \<open>
  C9: The executions table implements a map from run to record: whatever a write meets, the table
  keeps one row per run, and a write that takes effect, whether or not its answer was lost, is
  the map's \<open>remember\<close>, which stores the record read back exactly as it was written.
\<close>

theorem table_implements_record:
  assumes "table_ok db"
  shows "table_ok (snd (save_execution w e db)) \<and>
    on_record (snd (save_execution w e db)) =
      (case w of Refused f \<Rightarrow> on_record db | _ \<Rightarrow> remember e (on_record db)) \<and>
    is_ok (fst (save_execution w e db)) = (w = Applied)"
  using assms upsert_ok [OF assms] upsert_remembers [of e db]
  by (cases w) (simp_all add: save_execution_def writing_def)

theorem table_implements_record_witness:
  "on_record (snd (save_execution (Lost UndefinedTable) (sample_run ''c'' 6 SucceededStatus) sample_table)) ''c'' =
     Some (sample_run ''c'' 6 SucceededStatus)"
proof -
  have "table_ok sample_table" by code_simp
  moreover have "settled (sample_run ''c'' 6 SucceededStatus)" "ex_run (sample_run ''c'' 6 SucceededStatus) = ''c''"
    by code_simp+
  ultimately show ?thesis
    using table_implements_record [of sample_table "Lost UndefinedTable" "sample_run ''c'' 6 SucceededStatus"]
    by (simp add: remember_def split: option.split)
qed



text \<open>
  A history listing is what was asked for: matching records only, each run once, newest first
  with ties broken by run, at most the limit, and every matching record that is left out is older
  than all of those listed.
\<close>

theorem history_is_newest_first:
  assumes "table_ok db" "list_executions None f db = Inr out"
  shows "sorted_wrt (\<lambda>a b. newer (ex_key a) (ex_key b)) out \<and>
    length out = min (nat (effective_limit (xf_limit f) default_history_limit))
      (length (filter (\<lambda>r. list_all (clause_holds r) (build_filter f)) db)) \<and>
    (\<forall>e \<in> set out. \<exists>r \<in> set db. list_all (clause_holds r) (build_filter f) \<and> e = scan_execution r) \<and>
    (\<forall>r \<in> set db. list_all (clause_holds r) (build_filter f) \<longrightarrow>
       scan_execution r \<in> set out \<or> (\<forall>e \<in> set out. newer (ex_key e) (row_key r)))"
proof -
  let ?m = "filter (\<lambda>r. list_all (clause_holds r) (build_filter f)) db"
    and ?n = "nat (effective_limit (xf_limit f) default_history_limit)"
  have out: "out = map scan_execution (take ?n (newest_first ?m))"
    using assms(2) by (simp add: list_executions_def)
  from newest_page [OF table_ok_filter [OF assms(1)],
      of ?n "\<lambda>r. list_all (clause_holds r) (build_filter f)"]
  show ?thesis unfolding out sorted_wrt_map set_map length_map ex_key_scan by auto
qed

theorem history_is_newest_first_witness:
  "\<exists>out. list_executions None \<lparr>xf_kind = [], xf_workflow = ''run-a'', xf_schedule = [], xf_limit = 1\<rparr> sample_table = Inr out \<and>
     map ex_run out = [''b''] \<and> sorted_wrt (\<lambda>a b. newer (ex_key a) (ex_key b)) out"
proof -
  let ?f = "\<lparr>xf_kind = [], xf_workflow = ''run-a'', xf_schedule = [], xf_limit = 1\<rparr>"
  have "table_ok sample_table" by code_simp
  moreover obtain out where o: "list_executions None ?f sample_table = Inr out"
    by (simp add: list_executions_def)
  moreover have "map_sum id (map ex_run) (list_executions None ?f sample_table) = Inr [''b'']" by code_simp
  ultimately show ?thesis using history_is_newest_first [of sample_table ?f out] by auto
qed

text \<open>
  The loop that folds a chain's iterations, newest first, into one record gives the reference:
  the newest iteration, with the chain's first start, all its tokens, and each kept fact (prompt,
  schedule, parent, plan, nodes, place as a pair, instructions) as the newest iteration that has
  it.  It needs iterations that started at different instants: with a tie an older iteration can
  be the one shown.
\<close>

theorem chain_shows_newest_iteration:
  assumes "es \<noteq> []" "falling es" "\<forall>e \<in> set es. 0 < ex_started e \<and> placed_detail (ex_detail e)"
    and "ex_workflow (hd es) \<noteq> []"
  shows "aggregate_chain es = chain_summary es"
  using assms by (intro aggregate_summary) auto

theorem chain_shows_newest_iteration_witness:
  "ex_status (ch_latest (aggregate_chain [sample_run ''b'' 9 FailedStatus, sample_run ''a'' 4 SucceededStatus])) = FailedStatus \<and>
   ch_started (aggregate_chain [sample_run ''b'' 9 FailedStatus, sample_run ''a'' 4 SucceededStatus]) = 4"
proof -
  let ?es = "[sample_run ''b'' 9 FailedStatus, sample_run ''a'' 4 SucceededStatus]"
  have "aggregate_chain ?es = chain_summary ?es"
    by (rule chain_shows_newest_iteration) (code_simp | simp add: falling_def sample_run_def placed_detail_def no_execution_def no_detail_def)+
  then show ?thesis by (simp add: chain_summary_def latest_summary_def sample_run_def)
qed



end
