(* ===== verification/Fleet_Planning.thy ===== *)
theory Fleet_Planning
  imports Fleet_Run Exec_Store
begin

text \<open>
  Planning a fleet: the prompt and the parser of \<open>internal/fleet/domain.go\<close>, the activities
  \<open>ResolveBase\<close>, \<open>GeneratePlan\<close> and \<open>StorePlan\<close> of \<open>internal/fleet/activities.go\<close>, and
  \<open>FleetPlanWorkflow\<close> of \<open>internal/fleet/workflow.go\<close>.

  \<open>encoding/json\<close> is given by two parameters: \<open>decode\<close>, what decoding a text into a plan with
  unknown fields refused gives, and \<open>encode\<close>, the JSON of a plan.  The ports are functions of
  everything that happened before, as in \<open>Review_Activities\<close>.
\<close>

section \<open>The prompt\<close>

definition plan_prompt_example :: string where
  "plan_prompt_example =
    ''{'' @ dq @ ''goal'' @ dq @ '':'' @ dq @ ''expose pricing over REST'' @ dq @ '','' @ dq @
    ''nodes'' @ dq @ '':[{'' @ dq @ ''id'' @ dq @ '':'' @ dq @ ''pricing-domain'' @ dq @ '','' @ dq @
    ''prompt'' @ dq @ '':'' @ dq @
    ''Add the pricing domain to the core: the price type, the rounding rules and their '' @
    ''unit tests. Do not add any transport.'' @ dq @ '','' @ dq @ ''dependsOn'' @ dq @ '':[]},{'' @
    dq @ ''id'' @ dq @ '':'' @ dq @ ''pricing-rest'' @ dq @ '','' @ dq @ ''prompt'' @ dq @ '':'' @ dq @
    ''Expose the pricing domain over REST. The domain is already committed on your branch, '' @
    ''so use it as it stands instead of re-deriving it.'' @ dq @ '','' @ dq @ ''dependsOn'' @ dq @
    '':['' @ dq @ ''pricing-domain'' @ dq @ '']}]}''"

definition plan_prompt_head :: string where
  "plan_prompt_head =
    ''Decompose the software change described below into a dependency graph of small, '' @
    ''independently reviewable slices of work (a '' @ dq @ ''fleet plan'' @ dq @
    ''). Prefer a horizontal slice that establishes shared/domain foundations first, '' @
    ''followed by vertical slices, and use dependencies to order the foundational slice '' @
    ''ahead of the slices that logically build on it.'' @ nl @ nl @
    ''IMPORTANT: dependencies control both execution ORDER and code layering. Each slice '' @
    ''is developed on its own branch, which is seeded with the committed work of the '' @
    ''slices it depends on (the branch is the repository base plus a merge of each dependency'' @
    [CHR 0x27] @ ''s branch). So a slice IS developed on top of the reviewed code produced by the '' @
    ''slices it '' @ dq @ ''dependsOn'' @ dq @
    '', and does not need to re-establish that work. Use '' @ dq @ ''dependsOn'' @ dq @
    '' both to sequence slices (a foundation is reviewed and lands first) and to build '' @
    ''a slice on top of its prerequisites '' @ [CHR 0xE2, CHR 0x80, CHR 0x94] @
    '' put shared/foundational work in a slice that later slices depend on rather than '' @
    ''duplicating it into every prompt. A slice with no '' @ dq @ ''dependsOn'' @ dq @
    '' is developed from the bare base, so its prompt must be self-contained.'' @ nl @ nl @
    ''Do NOT make any code changes. Read the referenced code and relevant in-repo documentation '' @
    ''to inform the decomposition, then answer with the plan alone.'' @ nl @ nl @
    ''--- Output contract ---'' @ nl @ nl @
    ''Output ONLY a single JSON object: no prose before or after it, no code fences, '' @
    ''no notes. The object is parsed strictly, so anything outside this schema fails '' @
    ''the whole plan:'' @ nl @ nl @ ''{'' @ nl @ ''  '' @ dq @ ''goal'' @ dq @ '': '' @ dq @
    ''<restate the overall goal in one sentence>'' @ dq @ '','' @ nl @ ''  '' @ dq @ ''nodes'' @ dq @
    '': ['' @ nl @ ''    {'' @ nl @ ''      '' @ dq @ ''id'' @ dq @ '': '' @ dq @
    ''<short-slug-unique-id>'' @ dq @ '','' @ nl @ ''      '' @ dq @ ''prompt'' @ dq @ '': '' @ dq @
    ''<instruction for this slice (may build on its dependencies'' @ [CHR 0x27] @ '' work)>'' @ dq @
    '','' @ nl @ ''      '' @ dq @ ''dependsOn'' @ dq @ '': ['' @ dq @
    ''<id-of-a-slice-this-must-run-after>'' @ dq @ '']'' @ nl @ ''    }'' @ nl @ ''  ]'' @ nl @ ''}'' @
    nl @ nl @ ''Schema:'' @ nl @ ''- '' @ dq @ ''goal'' @ dq @ '' is a string. '' @ dq @ ''nodes'' @
    dq @ '' is a non-empty array of objects, one per slice '' @ [CHR 0xE2, CHR 0x80, CHR 0x94] @
    '' emit as many as the decomposition needs, not the single one the shape above shows.'' @ nl @
    ''- In each node: '' @ dq @ ''id'' @ dq @ '' is a string, '' @ dq @ ''prompt'' @ dq @
    '' is a string, '' @ dq @ ''dependsOn'' @ dq @ '' is an array of strings. '' @ dq @ ''dependsOn'' @
    dq @ '' is never a bare string: write ['' @ dq @ ''core'' @ dq @ ''], not '' @ dq @ ''core'' @ dq @
    ''.'' @ nl @ ''- Output exactly the keys shown: '' @ dq @ ''goal'' @ dq @ '' and '' @ dq @
    ''nodes'' @ dq @ '' at the top level, '' @ dq @ ''id'' @ dq @ '', '' @ dq @ ''prompt'' @ dq @
    '' and '' @ dq @ ''dependsOn'' @ dq @
    '' in each node. Any other key makes the plan unusable, so do not add notes, comments, '' @
    ''counts or explanations anywhere in the object.'' @ nl @
    ''- There is no field for commentary, and none will be added: if something needs '' @ ''saying '' @
    [CHR 0xE2, CHR 0x80, CHR 0x94] @ '' an assumption, a risk, a caveat, a piece of context '' @
    [CHR 0xE2, CHR 0x80, CHR 0x94] @ '' say it inside the '' @ dq @ ''prompt'' @ dq @
    '' of the slice it concerns, where the coding agent will actually read it.'' @ nl @
    ''- Every string must be valid JSON: escape a newline as '' @ [CHR 0x5C] @ ''n, a quote as '' @
    [CHR 0x5C] @ dq @ '' and a backslash as '' @ [CHR 0x5C, CHR 0x5C] @
    ''. A literal newline inside a string breaks the parse, so prefer keeping each '' @ dq @
    ''prompt'' @ dq @ '' on one line.'' @ nl @ ''- Each '' @ dq @ ''id'' @ dq @
    '' must be unique and use only letters, digits, '' @ [CHR 0x27] @ ''-'' @ [CHR 0x27] @ '' or '' @
    [CHR 0x27] @ ''_'' @ [CHR 0x27] @
    ''. Keep it short (roughly 40 characters or less): it is used verbatim as a workflow '' @
    ''id and a branch name.'' @ nl @ ''- Include '' @ dq @ ''dependsOn'' @ dq @
    '' on EVERY node: the ids of the slices that must succeed before this one starts, '' @
    ''or [] when the slice has no prerequisites '' @ [CHR 0xE2, CHR 0x80, CHR 0x94] @
    '' never leave the key out. A missing key reads as '' @ dq @ ''no prerequisites'' @ dq @
    '', so an omitted dependency silently drops the ordering and the layering you decided '' @
    ''on.'' @ nl @
    ''- List DIRECT prerequisites only; ordering is transitive, so a slice that depends '' @
    ''on B (which depends on A) must not also list A.'' @ nl @
    ''- Express the ordering you decided on: a slice left with an empty '' @ dq @ ''dependsOn'' @ dq @
    '' is developed in parallel with the others from the bare base, with no foundation '' @
    ''landing first, so leave it empty only when the slice genuinely has no prerequisite. '' @
    ''Nothing downstream can recover an edge you leave out.'' @ nl @ ''- The graph must be acyclic.'' @
    nl @ ''- Each '' @ dq @ ''prompt'' @ dq @
    '' must be a complete instruction for a coding agent. A slice may assume the committed '' @
    ''work of the slices it '' @ dq @ ''dependsOn'' @ dq @
    '' is already present on its branch; a slice with no dependencies must be self-contained '' @
    ''from the repository base.'' @ nl @ nl @ ''A complete example '' @
    [CHR 0xE2, CHR 0x80, CHR 0x94] @
    '' two slices, the second developed on top of the first, showing both dependency '' @ ''shapes:'' @
    nl @ nl"

definition plan_prompt_tail :: string where
  "plan_prompt_tail =
    nl @ nl @ ''--- Required validation step ---'' @ nl @ nl @
    ''Before your final answer, you MUST validate your exact candidate with the installed '' @
    ''fleet-plan validator:'' @ nl @ ''1. Use the bash tool to set candidate='' @ dq @ ''$(mktemp)'' @
    dq @ '' and write the exact candidate JSON to '' @ dq @ ''$candidate'' @ dq @
    ''. This temporary file is outside the repository; do not create or change a repository '' @
    ''file.'' @ nl @ ''2. Run: temporal-agents fleet plan validate '' @ dq @ ''$candidate'' @ dq @ nl @
    ''3. If validation fails, correct the candidate and run the command again. Do not '' @
    ''finish until validation exits successfully.'' @ nl @
    ''4. Remove the temporary file, then output the exact JSON that passed validation '' @
    [CHR 0xE2, CHR 0x80, CHR 0x94] @ '' no edits after validation.'' @ nl @ nl @
    ''Do not include the validator output or command, or any explanation, in your final '' @
    ''answer. The final answer is only the validated JSON object.'' @ nl @ nl @ ''--- Goal ---'' @ nl"

definition build_plan_prompt :: "string \<Rightarrow> string" where
  "build_plan_prompt goal = plan_prompt_head @ plan_prompt_example @ plan_prompt_tail @ trim_space goal"

section \<open>Parsing\<close>

type_synonym plan_decoder = "string \<Rightarrow> string + fleet_plan"

definition parse_plan :: "plan_decoder \<Rightarrow> string \<Rightarrow> string + fleet_plan" where
  "parse_plan decode answer =
     (let raw = extract_json_object answer in
      if raw = [] then Inl ''no JSON object found in agent output''
      else case decode raw of
        Inl e \<Rightarrow> Inl (''parse plan JSON: '' @ e)
      | Inr plan \<Rightarrow> Inr plan)"

section \<open>The activities\<close>

definition err_planning_mutated :: string where
  "err_planning_mutated = ''PlanningMutatedRepo''"

definition err_plan_too_large :: string where
  "err_plan_too_large = ''PlanTooLarge''"

datatype plan_ev =
    PlFingerprint string "string answer"
  | PlClone string "string answer"
  | PlRemoveClone string "unit answer"
  | PlRunReadOnly string string "(string \<times> int) answer"
  | PlHead string "string answer"
  | PlSavePlan stored_plan "unit answer"

type_synonym 'a plan_ask = "plan_ev list \<Rightarrow> 'a answer"

record plan_ports =
  pp_fingerprint :: "string \<Rightarrow> string plan_ask"
  pp_clone :: "string \<Rightarrow> string plan_ask"
  pp_remove_clone :: "string \<Rightarrow> unit plan_ask"
  pp_run_read_only :: "string \<Rightarrow> string \<Rightarrow> (string \<times> int) plan_ask"
  pp_head :: "string \<Rightarrow> string plan_ask"
  pp_save_plan :: "(stored_plan \<Rightarrow> unit plan_ask) option"

type_synonym 'a plan_activity = "(plan_ev, act_error, 'a) eff"

definition plan_port :: "(port_error \<Rightarrow> act_error) \<Rightarrow> 'a plan_ask \<Rightarrow> ('a answer \<Rightarrow> plan_ev) \<Rightarrow> 'a plan_activity" where
  "plan_port err ans ev = on_error err (perform ans ev)"

definition resolve_base :: "plan_ports \<Rightarrow> string \<Rightarrow> string plan_activity" where
  "resolve_base ps dir = plan_port (ActWrapped ''read repository base: '') (pp_head ps dir) (PlHead dir)"

definition read_plan :: "plan_decoder \<Rightarrow> string \<Rightarrow> string \<Rightarrow> act_error + fleet_plan" where
  "read_plan decode goal answer =
     (case parse_plan decode answer of
        Inl e \<Rightarrow> Inl (ActNonRetryable (''could not parse a fleet plan from the agent output: '' @ e) err_invalid_plan)
      | Inr p \<Rightarrow>
          (let plan = (if fp_goal p = [] then p\<lparr>fp_goal := goal\<rparr> else p) in
           case validate_plan plan of
             Inl e \<Rightarrow> Inl (ActNonRetryable (''the agent produced an invalid fleet plan: '' @ plan_error_text e)
               err_invalid_plan)
           | Inr _ \<Rightarrow> Inr plan))"

text \<open>What runs with the clone, which is removed on every way out.\<close>

definition plan_in_clone ::
  "plan_decoder \<Rightarrow> plan_ports \<Rightarrow> string \<Rightarrow> string \<Rightarrow> string \<Rightarrow> string \<Rightarrow> (fleet_plan \<times> int) plan_activity" where
  "plan_in_clone decode ps goal dir before sandbox =
     andthen (plan_port ActPort (pp_run_read_only ps (build_plan_prompt goal) sandbox)
                (PlRunReadOnly (build_plan_prompt goal) sandbox)) (\<lambda>(answer, tokens).
     andthen (plan_port (ActWrapped ''verify repository state: '') (pp_fingerprint ps dir) (PlFingerprint dir)) (\<lambda>after.
     if after \<noteq> before
     then fail (ActNonRetryable ''planning changed the repository despite its read-only contract'' err_planning_mutated)
     else andthen (lift (read_plan decode goal answer)) (\<lambda>plan. ret (plan, tokens))))"

definition generate_plan ::
  "plan_decoder \<Rightarrow> plan_ports \<Rightarrow> string \<Rightarrow> string \<Rightarrow> (fleet_plan \<times> int) plan_activity" where
  "generate_plan decode ps goal dir =
     andthen (plan_port (ActWrapped ''read repository state: '') (pp_fingerprint ps dir) (PlFingerprint dir)) (\<lambda>before.
     andthen (plan_port (ActWrapped ''create planning sandbox: '') (pp_clone ps dir) (PlClone dir)) (\<lambda>sandbox.
     deferring (\<lambda>_. plan_port ActPort (pp_remove_clone ps sandbox) (PlRemoveClone sandbox))
       (plan_in_clone decode ps goal dir before sandbox)))"

definition stored_from :: "(fleet_plan \<Rightarrow> string) \<Rightarrow> string \<Rightarrow> string \<Rightarrow> fleet_plan \<Rightarrow> stored_plan" where
  "stored_from encode pid name plan =
     \<lparr>sp_id = pid, sp_name = name, sp_goal = sanitize (fp_goal plan), sp_nodes = length (fp_nodes plan),
      sp_document = encode plan, sp_created = 0\<rparr>"

definition store_plan ::
  "(fleet_plan \<Rightarrow> string) \<Rightarrow> plan_ports \<Rightarrow> string \<Rightarrow> string \<Rightarrow> fleet_plan \<Rightarrow> unit plan_activity" where
  "store_plan encode ps pid name plan =
     (case pp_save_plan ps of
        None \<Rightarrow> fail (ActText ''execution store is not configured (is DATABASE_URL set?)'')
      | Some save \<Rightarrow>
          if length (encode plan) > max_plan_document
          then fail (ActNonRetryable
            (''the generated fleet plan is '' @ itoa (int (length (encode plan))) @ '' bytes, over the '' @
             itoa (int max_plan_document) @ '' the store accepts'') err_plan_too_large)
          else plan_port ActPort (save (stored_from encode pid name plan))
                 (PlSavePlan (stored_from encode pid name plan)))"

section \<open>Planning\<close>

record plan_vars =
  pn_started :: bool
  pn_rec :: fleet_plan_state

definition planned_notice :: "fleet_plan_input \<Rightarrow> fleet_plan \<Rightarrow> int \<Rightarrow> notice" where
  "planned_notice i plan tokens =
     plain_notice ''Fleet plan ready''
       (''Planned '' @ itoa (int (length (fp_nodes plan))) @ '' node(s) for: '' @ fp_goal plan @ nl @
        ''Stored as '' @ fpi_plan_id i @ ''.'' @ nl @
        ''Planning token usage: '' @ group_thousands tokens @ '' tokens.'')"

definition fleet_plan_body ::
  "fleet_env \<Rightarrow> fleet_plan_input \<Rightarrow> (fleet_ev, plan_vars, fleet_error, fleet_plan) body" where
  "fleet_plan_body env i =
     vthen (vdo (start_fleet_plan_state env i)) (\<lambda>st.
     vthen (vset (\<lambda>v. v\<lparr>pn_started := True, pn_rec := st\<rparr>)) (\<lambda>_.
     vthen (vdo (call (fe_generate env (fpi_goal i) (fpi_work_dir i)) (FlGenerate (fpi_goal i) (fpi_work_dir i))))
       (\<lambda>(plan, tokens).
     vthen (vset (\<lambda>v. v\<lparr>pn_rec := (pn_rec v)\<lparr>fps_tokens := tokens,
         fps_plan_nodes := length (fp_nodes plan)\<rparr>\<rparr>)) (\<lambda>_.
     vthen (if fpi_plan_id i \<noteq> [] then
              vdo (on_error (Wrapped ''store the fleet plan: '')
                (call (fe_store env (fpi_plan_id i) (fpi_name i) plan) (FlStore (fpi_plan_id i) (fpi_name i) plan)))
            else vret ()) (\<lambda>_.
     vthen (vdo (notify_best_effort (fleet_send env) (planned_notice i plan tokens))) (\<lambda>_.
     vret plan))))))"

definition fleet_plan_deferred ::
  "fleet_env \<Rightarrow> fleet_error + fleet_plan \<Rightarrow> plan_vars \<Rightarrow> unit fleet_step" where
  "fleet_plan_deferred env r v =
     andthen
       (if pn_started v then
          fleet_settle env ''fleet planning run'' ''record the fleet planning run's terminal state: ''
            (\<lambda>now. fleet_plan_row (finished_fleet_plan env (pn_rec v) (err_of r) now))
            (''stored plan '' @ fps_plan_id (pn_rec v)) (err_of r)
        else ret ())
       (\<lambda>_. notify_failure (fleet_send env) (fe_error_text env) ''Fleet planning failed'' (err_of r))"

definition fleet_plan_workflow :: "fleet_env \<Rightarrow> fleet_plan_input \<Rightarrow> fleet_plan fleet_step" where
  "fleet_plan_workflow env i =
     with_vars \<lparr>pn_started = False, pn_rec = no_fleet_plan_state\<rparr> (fleet_plan_body env i)
       (fleet_plan_deferred env)"

section \<open>A planning run touches only its clone\<close>

definition clones :: "plan_ev list \<Rightarrow> string list" where
  "clones l = concat (map (\<lambda>e. case e of PlClone d (Inr sandbox) \<Rightarrow> [sandbox] | _ \<Rightarrow> []) l)"

text \<open>
  The events of one \<open>GeneratePlan\<close>: the agent ran in the clone only, the clone was removed last,
  and a plan came with equal fingerprints before and after and is valid.
\<close>

definition sandboxed :: "string \<Rightarrow> act_error + fleet_plan \<times> int \<Rightarrow> plan_ev list \<Rightarrow> bool" where
  "sandboxed dir r l =
     (list_all (\<lambda>e. case e of PlRunReadOnly p d a \<Rightarrow> d \<in> set (clones l) | _ \<Rightarrow> True) l \<and>
      (\<forall>sandbox \<in> set (clones l). \<exists>a. last l = PlRemoveClone sandbox a) \<and>
      (case r of
         Inl e \<Rightarrow> True
       | Inr (plan, tokens) \<Rightarrow>
           validate_plan plan = Inr () \<and>
           (\<exists>fp sandbox p answer a. l = [PlFingerprint dir (Inr fp), PlClone dir (Inr sandbox),
              PlRunReadOnly p sandbox (Inr (answer, tokens)), PlFingerprint dir (Inr fp), PlRemoveClone sandbox a])))"

lemma wp_plan_port [wp_rules]:
  "wp (plan_port err ans ev) Q l \<longleftrightarrow>
   Q (case ans l of Inl e \<Rightarrow> Inl (err e) | Inr x \<Rightarrow> Inr x) (l @ [ev (ans l)])"
  by (simp add: plan_port_def wp_rules split: sum.split)

lemma read_plan_valid: "read_plan decode goal answer = Inr plan \<Longrightarrow> validate_plan plan = Inr ()"
  by (auto simp: read_plan_def Let_def split: sum.splits if_splits)

lemma clones_simps [simp]:
  "clones [] = []" "clones (PlFingerprint d a # l) = clones l" "clones (PlClone d (Inr s) # l) = s # clones l"
  "clones (PlClone d (Inl e) # l) = clones l" "clones (PlRunReadOnly p d b # l) = clones l"
  "clones (PlRemoveClone d c # l) = clones l"
  by (simp_all add: clones_def)

lemma in_clone_wp:
  assumes "\<And>e a. Q (Inl e) (l @ [PlRunReadOnly (build_plan_prompt goal) sandbox a])"
    and "\<And>e a b. Q (Inl e) (l @ [PlRunReadOnly (build_plan_prompt goal) sandbox a, PlFingerprint dir b])"
    and "\<And>plan tokens answer. validate_plan plan = Inr () \<Longrightarrow>
      Q (Inr (plan, tokens)) (l @ [PlRunReadOnly (build_plan_prompt goal) sandbox (Inr (answer, tokens)),
        PlFingerprint dir (Inr before)])"
  shows "wp (plan_in_clone decode ps goal dir before sandbox) Q l"
proof -
  let ?p = "build_plan_prompt goal"
  let ?a = "pp_run_read_only ps ?p sandbox l"
  show ?thesis
  proof (cases ?a)
    case (Inl e)
    with assms(1) [of _ ?a] show ?thesis by (simp add: plan_in_clone_def wp_rules)
  next
    case (Inr x)
    obtain answer tokens where x: "x = (answer, tokens)" by fastforce
    let ?l = "l @ [PlRunReadOnly ?p sandbox ?a]"
    let ?b = "pp_fingerprint ps dir ?l"
    show ?thesis
    proof (cases "?b = Inr before")
      case False
      with assms(2) [of _ ?a ?b] Inr x show ?thesis
        by (cases ?b) (auto simp: plan_in_clone_def wp_rules)
    next
      case True
      with assms(2) [of _ ?a ?b] assms(3) [of _ tokens answer] Inr x show ?thesis
        by (auto simp: plan_in_clone_def wp_rules dest: read_plan_valid split: sum.split)
    qed
  qed
qed

lemma generate_plan_sandboxed: "wp (generate_plan decode ps goal dir) (sandboxed dir) []"
proof -
  let ?a = "pp_fingerprint ps dir []"
  let ?b = "pp_clone ps dir [PlFingerprint dir ?a]"
  show ?thesis
  proof (cases ?a)
    case (Inl e)
    then show ?thesis by (simp add: generate_plan_def wp_rules sandboxed_def)
  next
    case a: (Inr fp)
    show ?thesis
    proof (cases ?b)
      case (Inl e)
      with a show ?thesis by (simp add: generate_plan_def wp_rules sandboxed_def)
    next
      case (Inr sandbox)
      have "wp (plan_in_clone decode ps goal dir fp sandbox)
          (\<lambda>r l. wp (plan_port ActPort (pp_remove_clone ps sandbox) (PlRemoveClone sandbox) :: unit plan_activity)
             (\<lambda>_ l'. sandboxed dir r l') l)
          [PlFingerprint dir (Inr fp), PlClone dir (Inr sandbox)]"
        by (rule in_clone_wp) (simp_all add: wp_rules sandboxed_def)
      with a Inr show ?thesis by (simp add: generate_plan_def wp_rules)
    qed
  qed
qed

section \<open>The planning run\<close>

text \<open>What a plan announced as ready went through, in this order.\<close>

definition planned :: "fleet_env \<Rightarrow> fleet_plan_input \<Rightarrow> fleet_plan \<Rightarrow> int \<Rightarrow> fleet_ev list \<Rightarrow> bool" where
  "planned env i plan tokens l =
     (\<exists>d a rest. list_all fl_neutral d \<and> list_all fl_neutral rest \<and>
        fe_generate env (fpi_goal i) (fpi_work_dir i) d = Inr (plan, tokens) \<and>
        l = d @ FlGenerate (fpi_goal i) (fpi_work_dir i) (Inr (plan, tokens)) #
          (if fpi_plan_id i = [] then [] else [FlStore (fpi_plan_id i) (fpi_name i) plan (Inr ())]) @
          FlNotify (planned_notice i plan tokens) a # rest)"

definition plan_body_post ::
  "fleet_env \<Rightarrow> fleet_plan_input \<Rightarrow> fleet_error + fleet_plan \<Rightarrow> plan_vars \<Rightarrow> fleet_ev list \<Rightarrow> bool" where
  "plan_body_post env i r v l =
     ((if pn_started v then fe_recording env \<longrightarrow> fps_run (pn_rec v) = wi_run_id (fe_info env) \<and>
          (\<forall>plan tokens. FlGenerate (fpi_goal i) (fpi_work_dir i) (Inr (plan, tokens)) \<in> set l \<longrightarrow>
             fps_tokens (pn_rec v) = tokens \<and> fps_plan_nodes (pn_rec v) = length (fp_nodes plan))
       else list_all fl_neutral l \<and> \<not> is_ok r) \<and>
      (case r of
         Inl e \<Rightarrow> \<not> is_continue_as_new e
       | Inr plan \<Rightarrow> \<exists>tokens. planned env i plan tokens l))"

lemma start_plan_wp:
  assumes "\<And>e d. list_all fl_neutral d \<Longrightarrow> \<not> is_continue_as_new e \<Longrightarrow> Q (Inl e) (l @ d)"
    and "\<And>st d. list_all fl_neutral d \<Longrightarrow>
      (fe_recording env \<Longrightarrow> fps_run st = wi_run_id (fe_info env)) \<Longrightarrow> Q (Inr st) (l @ d)"
  shows "wp (start_fleet_plan_state env i) Q l"
proof (cases "fe_recording env")
  case False
  with assms(2) [of "[]" no_fleet_plan_state] show ?thesis
    by (simp add: start_fleet_plan_state_def wp_rules)
next
  case True
  show ?thesis
    unfolding start_fleet_plan_state_def if_not_P [OF not_not [THEN iffD2, OF True]] wp_andthen wp_asking sum.case
  proof (rule fleet_probe_wp)
    fix p d assume d: "list_all fl_neutral d"
    let ?st = "no_fleet_plan_state\<lparr>fps_workflow := id_workflow (identity_of (fe_info env)),
        fps_run := id_run (identity_of (fe_info env)), fps_parent := id_parent (identity_of (fe_info env)),
        fps_goal := fpi_goal i, fps_plan_id := fpi_plan_id i, fps_started := fe_now env l, fps_place := p\<rparr>"
    have "Q (Inl (Wrapped s (fault e))) (l @ (d @ [FlSave (fleet_plan_row ?st) (Inl e)]))" for s e
      by (rule assms(1)) (use d in simp_all)
    moreover have "Q (Inr ?st) (l @ (d @ [FlSave (fleet_plan_row ?st) (Inr u)]))" for u
      by (rule assms(2)) (use d in \<open>simp_all add: no_fleet_plan_state_def identity_of_def\<close>)
    ultimately show "case Inr p of Inl e \<Rightarrow> Q (Inl e) (l @ d) | Inr place \<Rightarrow>
        wp (let who = identity_of (fe_info env);
            st = no_fleet_plan_state\<lparr>fps_workflow := id_workflow who, fps_run := id_run who,
              fps_parent := id_parent who, fps_goal := fpi_goal i, fps_plan_id := fpi_plan_id i,
              fps_started := fe_now env l, fps_place := place\<rparr>
          in andthen (on_error (Wrapped ''record the fleet planning run as started: '')
                 (fleet_save env (fleet_plan_row st))) (\<lambda>_. ret st)) Q (l @ d)"
      by (cases "fe_save env (fleet_plan_row ?st) (l @ d)") (simp_all add: Let_def wp_rules fleet_save_def)
  qed
qed

abbreviation fresh_plan :: plan_vars where
  "fresh_plan \<equiv> \<lparr>pn_started = False, pn_rec = no_fleet_plan_state\<rparr>"

lemma neutral_not_generate: "list_all fl_neutral d \<Longrightarrow> FlGenerate g w a \<notin> set d"
  by (induction d) auto

lemma vseq_asked:
  "(\<And>e. Q (Inl (fault e)) v (l @ [ev (Inl e)])) \<Longrightarrow>
   (\<And>x. ans l = Inr x \<Longrightarrow> vwp (f x) Q v (l @ [ev (Inr x)])) \<Longrightarrow>
   vwp (vthen (vdo (call ans ev)) f) Q v l"
  by (cases "ans l") (simp_all add: wp_rules)

lemma plan_body_spec: "vwp (fleet_plan_body env i) (plan_body_post env i) fresh_plan []"
  unfolding fleet_plan_body_def
proof (rule vseq_wp, rule start_plan_wp, goal_cases)
  case (1 e d)
  then show ?case by (simp add: plan_body_post_def)
next
  case (2 st d)
  let ?v = "fresh_plan\<lparr>pn_started := True, pn_rec := st\<rparr>"
  let ?gen = "FlGenerate (fpi_goal i) (fpi_work_dir i)"
  note none = neutral_not_generate [OF 2(1)]
  note st = 2
  show ?case
    unfolding sum.case
  proof (rule vseq_set, rule vseq_asked, goal_cases)
    case (1 e)
    then show ?case using none st by (simp add: plan_body_post_def)
  next
    case (2 x)
    obtain plan tokens where x: "x = (plan, tokens)" by fastforce
    let ?w = "?v\<lparr>pn_rec := st\<lparr>fps_tokens := tokens, fps_plan_nodes := length (fp_nodes plan)\<rparr>\<rparr>"
    let ?l = "([] @ d) @ [?gen (Inr x)]"
    have fin: "vwp (vthen (vdo (notify_best_effort (fleet_send env) (planned_notice i plan tokens))) (\<lambda>_. vret plan))
        (plan_body_post env i) ?w (?l @ m)"
      if "m = (if fpi_plan_id i = [] then [] else [FlStore (fpi_plan_id i) (fpi_name i) plan (Inr ())])" for m
    proof (rule vseq_tell, rule vwp_ret_rule)
      fix a
      have "planned env i plan tokens ((?l @ m) @ [FlNotify (planned_notice i plan tokens) a])"
        unfolding planned_def that x
        by (intro exI [of _ d] exI [of _ a] exI [of _ "[]"]) (use st \<open>fe_generate env (fpi_goal i) (fpi_work_dir i) ([] @ d) = Inr x\<close> x in simp)
      then show "plan_body_post env i (Inr plan) ?w ((?l @ m) @ [FlNotify (planned_notice i plan tokens) a])"
        using none st that x by (auto simp: plan_body_post_def)
    qed
    show ?case
      unfolding x prod.case
    proof (rule vseq_set, cases "fpi_plan_id i = []", goal_cases)
      case 1
      with fin [of "[]"] x show ?case by (simp add: vwp_then vwp_ret)
    next
      case 2
      then show ?case
      proof (simp only: not_False_eq_True if_True, goal_cases)
        case 1
        show ?case
        proof (rule vseq_wrapped, goal_cases)
          case (1 e)
          then show ?case using none st x by (auto simp: plan_body_post_def)
        next
          case (2 u)
          with fin [of "[FlStore (fpi_plan_id i) (fpi_name i) plan (Inr ())]"] \<open>fpi_plan_id i \<noteq> []\<close> x
          show ?case by simp
        qed
      qed
    qed
  qed
qed


lemma plan_run:
  assumes "fleet_plan_workflow env i [] = (r, l)"
  obtains v d e where "plan_body_post env i r v d" "l = d @ e" "list_all fl_neutral e"
    and "fe_recording env \<Longrightarrow> pn_started v \<Longrightarrow>
      \<exists>now a rest. e = FlSave (fleet_plan_row (finished_fleet_plan env (pn_rec v) (err_of r) now)) a # rest \<and>
        list_all fl_tells rest"
proof -
  obtain v d where b: "fleet_plan_body env i fresh_plan [] = (r, v, d)"
      and l: "l = snd (fleet_plan_deferred env r v d)"
    using assms by (auto simp: fleet_plan_workflow_def with_vars_def split: prod.splits)
  have p: "plan_body_post env i r v d" using plan_body_spec [of env i] b by (simp add: vwp_def)
  from l obtain e where "l = d @ e" "list_all fl_neutral e" "fe_recording env \<and> pn_started v \<longrightarrow>
      (\<exists>now a rest. e = FlSave (fleet_plan_row (finished_fleet_plan env (pn_rec v) (err_of r) now)) a # rest \<and>
        list_all fl_tells rest)"
    using fleet_end_run [of "pn_started v" env "''fleet planning run''"
      "''record the fleet planning run's terminal state: ''"
      "\<lambda>now. fleet_plan_row (finished_fleet_plan env (pn_rec v) (err_of r) now)"
      "''stored plan '' @ fps_plan_id (pn_rec v)" "err_of r" "fe_error_text env" "''Fleet planning failed''" d]
    unfolding fleet_plan_deferred_def by metis
  with p show thesis by (intro that [of v d e]) simp_all
qed

lemma planned_more: "planned env i plan tokens l \<Longrightarrow> list_all fl_neutral e \<Longrightarrow> planned env i plan tokens (l @ e)"
  unfolding planned_def
  by (elim exE conjE, rule_tac x = d in exI, rule_tac x = a in exI, rule_tac x = "rest @ e" in exI) simp

section \<open>A run\<close>

definition demo_plan_input :: fleet_plan_input where
  "demo_plan_input = \<lparr>fpi_goal = ''g'', fpi_work_dir = ''d'', fpi_plan_id = ''p'', fpi_name = []\<rparr>"

definition demo_plan_ports :: plan_ports where
  "demo_plan_ports =
     \<lparr>pp_fingerprint = (\<lambda>_ _. Inr ''f''), pp_clone = (\<lambda>_ _. Inr ''c''), pp_remove_clone = (\<lambda>_ _. Inr ()),
      pp_run_read_only = (\<lambda>_ _ _. Inr (''{}'', 5)), pp_head = (\<lambda>_ _. Inr ''h''), pp_save_plan = None\<rparr>"

lemma demo_generates: "fst (generate_plan (\<lambda>_. Inr diamond) demo_plan_ports goal dir []) = Inr (diamond, 5)"
proof -
  have "read_plan (\<lambda>_. Inr diamond) goal ''{}'' = Inr diamond"
  proof -
    have "parse_plan (\<lambda>_. Inr diamond) ''{}'' = Inr diamond" "fp_goal diamond \<noteq> []" "validate_plan diamond = Inr ()"
      by code_simp+
    then show ?thesis by (simp add: read_plan_def)
  qed
  then have "wp (generate_plan (\<lambda>_. Inr diamond) demo_plan_ports goal dir) (\<lambda>r l. r = Inr (diamond, 5)) []"
    by (simp add: generate_plan_def plan_in_clone_def demo_plan_ports_def wp_rules)
  then show ?thesis by (simp add: wp_run)
qed

lemma demo_planned: "\<exists>l. fleet_plan_workflow demo_fleet_env demo_plan_input [] = (Inr diamond, l)"
proof -
  have "fst (fleet_plan_workflow demo_fleet_env demo_plan_input []) = Inr diamond" by code_simp
  then show ?thesis by (metis prod.collapse)
qed

section \<open>Properties\<close>

text \<open>
  C34: Planning leaves the repository alone: the agent only ever runs in a clone the run made, the
  clone is removed as the last thing the activity does on every way out, and a plan is returned
  only when the repository's fingerprint was the same before and after the agent, and is valid.
\<close>

theorem planning_stays_in_its_clone:
  "sandboxed dir (fst (generate_plan decode ps goal dir [])) (snd (generate_plan decode ps goal dir []))"
  using generate_plan_sandboxed [of decode ps goal dir] by (simp add: wp_run)

text \<open>
  A planning run that succeeds generated the plan it returns, stored it under its handle, and
  only then announced it; when it is recorded, its last write says it succeeded and carries its
  tokens and the number of its nodes.
\<close>

theorem plan_is_stored_before_announced:
  assumes "fleet_plan_workflow env i [] = (Inr plan, l)"
  shows "\<exists>tokens. planned env i plan tokens l \<and>
    (fe_recording env \<longrightarrow> (\<exists>d row a rest. l = d @ FlSave row a # rest \<and> list_all fl_tells rest \<and>
       ex_run row = wi_run_id (fe_info env) \<and> ex_status row = SucceededStatus \<and> ex_tokens row = tokens \<and>
       ed_plan_nodes (ex_detail row) = length (fp_nodes plan)))"
proof -
  obtain v d e where p: "plan_body_post env i (Inr plan) v d" "l = d @ e" "list_all fl_neutral e"
    and s: "fe_recording env \<Longrightarrow> pn_started v \<Longrightarrow>
      \<exists>now a rest. e = FlSave (fleet_plan_row (finished_fleet_plan env (pn_rec v) None now)) a # rest \<and>
        list_all fl_tells rest"
    using plan_run [OF assms] by (metis err_of_simps(2))
  from p(1) obtain tokens where t: "planned env i plan tokens d" by (auto simp: plan_body_post_def)
  from t have gen: "FlGenerate (fpi_goal i) (fpi_work_dir i) (Inr (plan, tokens)) \<in> set d"
    by (auto simp: planned_def)
  have started: "pn_started v" using p(1) by (auto simp: plan_body_post_def split: if_splits)
  have "\<exists>d row a rest. l = d @ FlSave row a # rest \<and> list_all fl_tells rest \<and>
       ex_run row = wi_run_id (fe_info env) \<and> ex_status row = SucceededStatus \<and> ex_tokens row = tokens \<and>
       ed_plan_nodes (ex_detail row) = length (fp_nodes plan)" if rec: "fe_recording env"
  proof -
    from s [OF rec started] obtain now a rest where e: "list_all fl_tells rest"
        "e = FlSave (fleet_plan_row (finished_fleet_plan env (pn_rec v) None now)) a # rest" by blast
    have "fps_run (pn_rec v) = wi_run_id (fe_info env)" "fps_tokens (pn_rec v) = tokens"
        "fps_plan_nodes (pn_rec v) = length (fp_nodes plan)"
      using p(1) gen unfolding plan_body_post_def if_P [OF started] using rec by blast+
    then have "ex_run (fleet_plan_row (finished_fleet_plan env (pn_rec v) None now)) = wi_run_id (fe_info env)"
        "ex_status (fleet_plan_row (finished_fleet_plan env (pn_rec v) None now)) = SucceededStatus"
        "ex_tokens (fleet_plan_row (finished_fleet_plan env (pn_rec v) None now)) = tokens"
        "ed_plan_nodes (ex_detail (fleet_plan_row (finished_fleet_plan env (pn_rec v) None now))) = length (fp_nodes plan)"
      by (simp_all add: fleet_plan_row_def finished_fleet_plan_def no_detail_def status_of_def)
    with e p(2) show ?thesis by blast
  qed
  with planned_more [OF t p(3)] p(2) show ?thesis by blast
qed

theorem plan_is_stored_before_announced_witness:
  "\<exists>l tokens d row a rest. fleet_plan_workflow demo_fleet_env demo_plan_input [] = (Inr diamond, l) \<and>
     planned demo_fleet_env demo_plan_input diamond tokens l \<and> l = d @ FlSave row a # rest \<and> ex_tokens row = tokens"
proof -
  obtain l where l: "fleet_plan_workflow demo_fleet_env demo_plan_input [] = (Inr diamond, l)"
    using demo_planned by blast
  have "fe_recording demo_fleet_env" by (simp add: demo_fleet_env_def)
  with plan_is_stored_before_announced [OF l] l show ?thesis by blast
qed

text \<open>
  What planning announces, a fleet can run: when the plans come from the planning activity, the
  plan a planning run returns is layered without error and its layers hold exactly its nodes, so
  no fleet run refuses it as an invalid plan.
\<close>

theorem announced_plan_can_run:
  assumes "fleet_plan_workflow env i [] = (Inr plan, l)"
    and "\<forall>goal dir log x. fe_generate env goal dir log = Inr x \<longrightarrow>
      (\<exists>decode ps. fst (generate_plan decode ps goal dir []) = Inr x)"
  shows "\<exists>layers. layers_or_error plan = Inr layers \<and> distinct (concat layers) \<and>
    set (concat layers) = set (plan_ids plan)"
proof -
  obtain tokens where "planned env i plan tokens l"
    using plan_run [OF assms(1)] planned_more by (auto simp: plan_body_post_def) metis
  then obtain d where "fe_generate env (fpi_goal i) (fpi_work_dir i) d = Inr (plan, tokens)"
    by (auto simp: planned_def)
  with assms(2) obtain decode ps where
    "fst (generate_plan decode ps (fpi_goal i) (fpi_work_dir i) []) = Inr (plan, tokens)" by blast
  with generate_plan_sandboxed [of decode ps "fpi_goal i" "fpi_work_dir i"]
  have "validate_plan plan = Inr ()" by (simp add: wp_run sandboxed_def)
  then have "well_formed plan" by (simp add: validate_plan_iff)
  from topo_layers_layers [OF this] show ?thesis by (auto simp: layers_or_error_def)
qed

theorem announced_plan_can_run_witness:
  "\<exists>plan l layers. fleet_plan_workflow demo_fleet_env demo_plan_input [] = (Inr plan, l) \<and>
     layers_or_error plan = Inr layers \<and> set (concat layers) = set (plan_ids plan)"
proof -
  obtain l where l: "fleet_plan_workflow demo_fleet_env demo_plan_input [] = (Inr diamond, l)"
    using demo_planned by blast
  have "\<forall>goal dir log x. fe_generate demo_fleet_env goal dir log = Inr x \<longrightarrow>
      (\<exists>decode ps. fst (generate_plan decode ps goal dir []) = Inr x)"
    using demo_generates by (auto simp: demo_fleet_env_def)
  from announced_plan_can_run [OF l this] l show ?thesis by blast
qed

end
