(* ===== verification/Locations.thy ===== *)
theory Locations
  imports Exec_Store Branch_Names "HOL-Library.Finite_Map"
begin

text \<open>
  The places work runs at (\<open>agenthub/location.go\<close>): the closed union of locations with its
  validating constructors, what a recorded place means, and the registry of places one response
  publishes.

  A location is unknown, a directory or a remote, the latter two with an optional parent.  Its
  identity is a digest (a parameter, the first sixteen hexadecimal digits of SHA-256 in the code)
  of the variant and its key, without the parent.  The registry is built in three steps, as in the
  code: the best known value of each identity is chosen, cycles of the chosen parent edges are
  broken, and the entries are ordered parents first.  The Go map of chosen entries is a finite
  map; loops over its sorted keys are folds over \<open>map_keys\<close>.  The two loops whose end rests on the
  map's contents, \<open>breakCycles\<close> and \<open>publishedDepth\<close>, are partial: \<open>None\<close> is a loop that does not
  end, and \<open>new_registry_ok\<close> shows that it never happens.
\<close>

section \<open>Locations\<close>

datatype location =
    UnknownPlace
  | DirectoryPlace string "location option"
  | RemotePlace string "location option"

text \<open>The kinds, as they go over the wire.\<close>

definition location_unknown :: string where "location_unknown = ''unknown''"
definition location_directory :: string where "location_directory = ''directory''"
definition location_remote :: string where "location_remote = ''remote''"

definition location_kinds :: "string list" where
  "location_kinds = [location_unknown, location_directory, location_remote]"

fun location_kind :: "location \<Rightarrow> string" where
  "location_kind UnknownPlace = location_unknown"
| "location_kind (DirectoryPlace _ _) = location_directory"
| "location_kind (RemotePlace _ _) = location_remote"

definition max_location_path :: nat where "max_location_path = 4096"
definition max_location_ref :: nat where "max_location_ref = 512"

text \<open>Each constructor of \<open>location_error\<close> is one message about an invalid location.\<close>

datatype location_error =
    PlaceRequired string
  | PlacePadded string string
  | PlaceNotText string
  | PlaceTooLong string nat
  | PlaceControl string
  | PlaceNotAbsolute string
  | PlaceNotClean string string
  | UnknownParent

definition validate_location_text :: "string \<Rightarrow> string \<Rightarrow> nat \<Rightarrow> location_error + unit" where
  "validate_location_text field value longest =
     (if value = [] then Inl (PlaceRequired field)
      else if trim_space value \<noteq> value then Inl (PlacePadded field value)
      else if \<not> valid_utf8 value then Inl (PlaceNotText field)
      else if rune_count value > longest then Inl (PlaceTooLong field longest)
      else if has_control value then Inl (PlaceControl field)
      else Inr ())"

definition validate_location_parent :: "location option \<Rightarrow> location_error + location option" where
  "validate_location_parent parent =
     (case parent of
        None \<Rightarrow> Inr None
      | Some p \<Rightarrow> if location_kind p = location_unknown then Inl UnknownParent else Inr (Some p))"

definition new_directory_location :: "string \<Rightarrow> location option \<Rightarrow> location_error + location" where
  "new_directory_location dir parent =
     rbind (validate_location_text ''directory'' dir max_location_path) (\<lambda>_.
       if \<not> has_prefix dir ''/'' then Inl (PlaceNotAbsolute dir)
       else if path_clean dir \<noteq> dir then Inl (PlaceNotClean dir (path_clean dir))
       else rbind (validate_location_parent parent) (\<lambda>p. Inr (DirectoryPlace dir p)))"

definition new_remote_location :: "string \<Rightarrow> location option \<Rightarrow> location_error + location" where
  "new_remote_location ref parent =
     rbind (validate_location_text ''ref'' ref max_location_ref) (\<lambda>_.
       rbind (validate_location_parent parent) (\<lambda>p. Inr (RemotePlace ref p)))"

fun place_directory :: "location \<Rightarrow> string option" where
  "place_directory (DirectoryPlace d _) = Some d"
| "place_directory _ = None"

fun place_ref :: "location \<Rightarrow> string option" where
  "place_ref (RemotePlace r _) = Some r"
| "place_ref _ = None"

fun place_parent :: "location \<Rightarrow> location option" where
  "place_parent UnknownPlace = None"
| "place_parent (DirectoryPlace _ p) = p"
| "place_parent (RemotePlace _ p) = p"

definition unknown_location_id :: string where "unknown_location_id = ''unknown''"

text \<open>What is digested: the kind, a NUL and the key.\<close>

definition location_digest :: "(string \<Rightarrow> string) \<Rightarrow> string \<Rightarrow> string \<Rightarrow> string" where
  "location_digest digest kind key = digest (kind @ [CHR 0x00] @ key)"

fun location_id :: "(string \<Rightarrow> string) \<Rightarrow> location \<Rightarrow> string" where
  "location_id digest (DirectoryPlace d _) = location_digest digest location_directory d"
| "location_id digest (RemotePlace r _) = location_digest digest location_remote r"
| "location_id digest UnknownPlace = unknown_location_id"

text \<open>\<open>path.Base\<close>.\<close>

definition path_base :: "string \<Rightarrow> string" where
  "path_base p =
     (if p = [] then ''.''
      else (let s = rev (dropWhile (\<lambda>c. c = CHR ''/'') (rev p));
                base = rev (takeWhile (\<lambda>c. c \<noteq> CHR ''/'') (rev s)) in
            if base = [] then ''/'' else base))"

fun location_label :: "location \<Rightarrow> string" where
  "location_label (DirectoryPlace d _) =
     (if path_base d \<noteq> [] \<and> path_base d \<noteq> ''.'' then path_base d else d)"
| "location_label (RemotePlace r _) = r"
| "location_label UnknownPlace = ''Unknown''"

text \<open>The walk from a place's parent upwards, which \<open>depth\<close> counts and \<open>ancestry\<close> renders.\<close>

fun ancestors :: "location \<Rightarrow> location list" where
  "ancestors (DirectoryPlace _ (Some p)) = p # ancestors p"
| "ancestors (RemotePlace _ (Some p)) = p # ancestors p"
| "ancestors _ = []"

definition location_depth :: "location \<Rightarrow> nat" where
  "location_depth l = length (ancestors l)"

definition location_ancestry :: "(string \<Rightarrow> string) \<Rightarrow> location \<Rightarrow> string" where
  "location_ancestry digest l = concat (map (\<lambda>a. location_id digest a @ ''/'') (ancestors l))"

text \<open>What was recorded of the place some work ran at.\<close>

record recorded_place =
  rp_directory :: string
  rp_repository :: string
  rp_ref :: string

definition place_recorded :: "recorded_place \<Rightarrow> bool" where
  "place_recorded p = (rp_directory p \<noteq> [] \<or> rp_ref p \<noteq> [])"

definition recorded_location :: "recorded_place \<Rightarrow> location_error + location" where
  "recorded_location p =
     (if rp_directory p = [] then
        (if rp_ref p = [] then Inr UnknownPlace else new_remote_location (rp_ref p) None)
      else if rp_repository p = [] \<or> rp_repository p = rp_directory p
      then new_directory_location (rp_directory p) None
      else rbind (new_directory_location (rp_repository p) None) (\<lambda>repository.
        new_directory_location (rp_directory p) (Some repository)))"

section \<open>The registry\<close>

record placed_entry =
  pe_location :: location
  pe_id :: string
  pe_known :: nat
  pe_ancestry :: string

definition place_entry :: "(string \<Rightarrow> string) \<Rightarrow> location \<Rightarrow> placed_entry" where
  "place_entry digest l =
     \<lparr>pe_location = l, pe_id = location_id digest l, pe_known = location_depth l,
      pe_ancestry = location_ancestry digest l\<rparr>"

definition better_known :: "placed_entry \<Rightarrow> placed_entry \<Rightarrow> bool" where
  "better_known p q =
     (if pe_known p \<noteq> pe_known q then pe_known p > pe_known q else pe_ancestry p < pe_ancestry q)"

type_synonym chosen_map = "(string, placed_entry) fmap"

text \<open>\<open>slices.Sorted(maps.Keys(m))\<close>.\<close>

definition map_keys :: "(string, 'a) fmap \<Rightarrow> string list" where
  "map_keys m = sorted_list_of_fset (fmdom m)"

definition consider_place :: "(string \<Rightarrow> string) \<Rightarrow> location \<Rightarrow> chosen_map \<Rightarrow> chosen_map" where
  "consider_place digest l chosen =
     (let candidate = place_entry digest l in
      case fmlookup chosen (pe_id candidate) of
        None \<Rightarrow> fmupd (pe_id candidate) candidate chosen
      | Some existing \<Rightarrow>
          if better_known candidate existing then fmupd (pe_id candidate) candidate chosen else chosen)"

text \<open>The locations the two loops of the constructor look at: each one and its ancestors.\<close>

definition considered :: "location list \<Rightarrow> location list" where
  "considered ls = concat (map (\<lambda>l. l # ancestors l) ls)"

definition choose_places :: "(string \<Rightarrow> string) \<Rightarrow> location list \<Rightarrow> chosen_map" where
  "choose_places digest ls =
     fold (consider_place digest) (considered ls)
       (fmupd unknown_location_id (place_entry digest UnknownPlace) fmempty)"

definition chosen_parent :: "(string \<Rightarrow> string) \<Rightarrow> chosen_map \<Rightarrow> string \<Rightarrow> string option" where
  "chosen_parent digest chosen nid =
     (case fmlookup chosen nid of
        None \<Rightarrow> None
      | Some entry \<Rightarrow>
          (case place_parent (pe_location entry) of
             None \<Rightarrow> None
           | Some parent \<Rightarrow>
               (case fmlookup chosen (location_id digest parent) of
                  None \<Rightarrow> None
                | Some _ \<Rightarrow> Some (location_id digest parent))))"

text \<open>The marks of \<open>findCycle\<close>, and the walk from one entry up the chosen parents.\<close>

datatype mark = Unvisited | OnPath | Settled

function walk_up ::
  "(string \<Rightarrow> string) \<Rightarrow> chosen_map \<Rightarrow> (string \<Rightarrow> mark) \<Rightarrow> string list \<Rightarrow> string \<Rightarrow>
   string list + ((string \<Rightarrow> mark) \<times> string list)" where
  "walk_up digest chosen marks walked current =
     (case marks current of
        OnPath \<Rightarrow> Inl (dropWhile (\<lambda>w. w \<noteq> current) walked)
      | Settled \<Rightarrow> Inr (marks, walked)
      | Unvisited \<Rightarrow>
          (case chosen_parent digest chosen current of
             None \<Rightarrow> Inr (marks(current := OnPath), walked @ [current])
           | Some parent \<Rightarrow>
               walk_up digest chosen (marks(current := OnPath)) (walked @ [current]) parent))"
  by pat_completeness auto

termination walk_up
proof (relation "measure (\<lambda>(digest, chosen, marks, walked, current).
    card {k. k |\<in>| fmdom chosen \<and> marks k = Unvisited})")
  fix digest chosen and marks :: "string \<Rightarrow> mark" and walked :: "string list" and current parent
  assume m: "marks current = Unvisited" and p: "chosen_parent digest chosen current = Some parent"
  have "current |\<in>| fmdom chosen" using p by (auto simp: chosen_parent_def fmlookup_dom_iff split: option.splits)
  then have "{k. k |\<in>| fmdom chosen \<and> (marks(current := OnPath)) k = Unvisited} \<subset>
      {k. k |\<in>| fmdom chosen \<and> marks k = Unvisited}" using m by auto
  moreover have "finite {k. k |\<in>| fmdom chosen \<and> marks k = Unvisited}"
    by (rule finite_subset [of _ "fset (fmdom chosen)"]) auto
  ultimately show "((digest, chosen, marks(current := OnPath), walked @ [current], parent),
      digest, chosen, marks, walked, current) \<in>
      measure (\<lambda>(digest, chosen, marks, walked, current). card {k. k |\<in>| fmdom chosen \<and> marks k = Unvisited})"
    by (simp add: psubset_card_mono)
qed simp

declare walk_up.simps [simp del]

fun find_place_cycle ::
  "(string \<Rightarrow> string) \<Rightarrow> chosen_map \<Rightarrow> (string \<Rightarrow> mark) \<Rightarrow> string list \<Rightarrow> string list" where
  "find_place_cycle digest chosen marks [] = []"
| "find_place_cycle digest chosen marks (k # ks) =
     (case walk_up digest chosen marks [] k of
        Inl cycle \<Rightarrow> cycle
      | Inr (marks', walked) \<Rightarrow>
          find_place_cycle digest chosen (\<lambda>w. if w \<in> set walked then Settled else marks' w) ks)"

definition place_cycle :: "(string \<Rightarrow> string) \<Rightarrow> chosen_map \<Rightarrow> string list" where
  "place_cycle digest chosen = find_place_cycle digest chosen (\<lambda>_. Unvisited) (map_keys chosen)"

fun without_parent :: "location \<Rightarrow> location" where
  "without_parent (DirectoryPlace d _) = DirectoryPlace d None"
| "without_parent (RemotePlace r _) = RemotePlace r None"
| "without_parent UnknownPlace = UnknownPlace"

text \<open>One round: the smallest member of the cycle becomes a root; a missing key reads as unknown.\<close>

definition root_member :: "(string \<Rightarrow> string) \<Rightarrow> string list \<Rightarrow> chosen_map \<Rightarrow> chosen_map" where
  "root_member digest cycle chosen =
     (let rooted = without_parent (case fmlookup chosen (Min (set cycle)) of
                      None \<Rightarrow> UnknownPlace | Some e \<Rightarrow> pe_location e) in
      fmupd (location_id digest rooted) (place_entry digest rooted) chosen)"

partial_function (option) break_cycles :: "(string \<Rightarrow> string) \<Rightarrow> chosen_map \<Rightarrow> chosen_map option" where
  "break_cycles digest chosen =
     (let cycle = place_cycle digest chosen in
      if cycle = [] then Some chosen else break_cycles digest (root_member digest cycle chosen))"

declare break_cycles.simps [code]

partial_function (option) published_depth ::
  "(string \<Rightarrow> string) \<Rightarrow> chosen_map \<Rightarrow> string \<Rightarrow> (string \<rightharpoonup> nat) \<Rightarrow> (nat \<times> (string \<rightharpoonup> nat)) option" where
  "published_depth digest chosen nid depths =
     (case depths nid of
        Some d \<Rightarrow> Some (d, depths)
      | None \<Rightarrow>
          (case chosen_parent digest chosen nid of
             None \<Rightarrow> Some (0, depths(nid \<mapsto> 0))
           | Some parent \<Rightarrow>
               Option.bind (published_depth digest chosen parent depths) (\<lambda>(d, depths').
                 Some (d + 1, depths'(nid \<mapsto> d + 1)))))"

declare published_depth.simps [code]

fun all_depths ::
  "(string \<Rightarrow> string) \<Rightarrow> chosen_map \<Rightarrow> string list \<Rightarrow> (string \<rightharpoonup> nat) \<Rightarrow> (string \<rightharpoonup> nat) option" where
  "all_depths digest chosen [] depths = Some depths"
| "all_depths digest chosen (k # ks) depths =
     Option.bind (published_depth digest chosen k depths) (\<lambda>(_, depths').
       all_depths digest chosen ks depths')"

definition entry_before :: "(string \<rightharpoonup> nat) \<Rightarrow> placed_entry \<Rightarrow> placed_entry \<Rightarrow> bool" where
  "entry_before depths a b =
     (let da = lookup_or 0 depths (pe_id a); db = lookup_or 0 depths (pe_id b) in
      if da \<noteq> db then da < db else pe_id a < pe_id b)"

text \<open>The zero value a missing key of the map reads as.\<close>

definition no_entry :: placed_entry where
  "no_entry = \<lparr>pe_location = UnknownPlace, pe_id = [], pe_known = 0, pe_ancestry = []\<rparr>"

definition publication_order :: "(string \<Rightarrow> string) \<Rightarrow> chosen_map \<Rightarrow> placed_entry list option" where
  "publication_order digest chosen =
     map_option (\<lambda>depths. order_by (entry_before depths) (map (lookup_or no_entry (fmlookup chosen)) (map_keys chosen)))
       (all_depths digest chosen (map_keys chosen) Map.empty)"

record location_registry =
  lr_locations :: "location list"
  lr_index :: "string \<rightharpoonup> nat"

definition registry_of :: "placed_entry list \<Rightarrow> location_registry" where
  "registry_of entries =
     \<lparr>lr_locations = map pe_location entries,
      lr_index = fold (\<lambda>(position, e) m. m(pe_id e \<mapsto> position)) (enumerate 0 entries) Map.empty\<rparr>"

definition new_location_registry :: "(string \<Rightarrow> string) \<Rightarrow> location list \<Rightarrow> location_registry option" where
  "new_location_registry digest ls =
     Option.bind (break_cycles digest (choose_places digest ls)) (\<lambda>chosen.
       map_option registry_of (publication_order digest chosen))"

definition registry_contains :: "location_registry \<Rightarrow> string \<Rightarrow> bool" where
  "registry_contains r nid = (lr_index r nid \<noteq> None)"

definition registry_len :: "location_registry \<Rightarrow> nat" where
  "registry_len r = length (lr_locations r)"

lemma map_keys_code [code]: "map_keys (fmap_of_list xs) = sort (remdups (map fst xs))"
proof -
  have "fset (fmdom (fmap_of_list xs)) = set (map fst xs)" by (simp add: fset_of_list.rep_eq)
  then show ?thesis
    by (simp add: map_keys_def sorted_list_of_fset.rep_eq sorted_list_of_set_sort_remdups del: set_map)
qed

section \<open>Choosing the entries\<close>

lemma ancestors_parent: "place_parent l = Some p \<Longrightarrow> ancestors l = p # ancestors p"
  by (cases l) auto

lemma parent_ancestor: "place_parent l = Some p \<Longrightarrow> p \<in> set (ancestors l)"
  by (simp add: ancestors_parent)

lemma ancestors_closed: "a \<in> set (ancestors l) \<Longrightarrow> place_parent a = Some p \<Longrightarrow> p \<in> set (ancestors l)"
  by (induction l rule: ancestors.induct) (auto simp: ancestors_parent)

lemma considered_closed: "a \<in> set (considered ls) \<Longrightarrow> place_parent a = Some p \<Longrightarrow> p \<in> set (considered ls)"
  using ancestors_closed parent_ancestor by (auto simp: considered_def) blast+

lemma considered_refl: "l \<in> set ls \<Longrightarrow> l \<in> set (considered ls)"
  by (auto simp: considered_def)

lemma entry_simps [simp]:
  "pe_location (place_entry digest l) = l" "pe_id (place_entry digest l) = location_id digest l"
  "pe_known (place_entry digest l) = location_depth l"
  "pe_ancestry (place_entry digest l) = location_ancestry digest l"
  by (simp_all add: place_entry_def)

lemma choose_places_fold:
  "choose_places digest ls = fold (consider_place digest) (UnknownPlace # considered ls) fmempty"
  by (simp add: choose_places_def consider_place_def Let_def)

text \<open>Every entry is that of a location, under its own identity, and every parent is an entry too.\<close>

definition entries_ok :: "(string \<Rightarrow> string) \<Rightarrow> location set \<Rightarrow> chosen_map \<Rightarrow> bool" where
  "entries_ok digest L chosen =
     (\<forall>k e. fmlookup chosen k = Some e \<longrightarrow>
        (\<exists>l \<in> L. e = place_entry digest l \<and> location_id digest l = k))"

definition chosen_ok :: "(string \<Rightarrow> string) \<Rightarrow> chosen_map \<Rightarrow> bool" where
  "chosen_ok digest chosen =
     (entries_ok digest UNIV chosen \<and> unknown_location_id |\<in>| fmdom chosen \<and>
      (\<forall>k e p. fmlookup chosen k = Some e \<longrightarrow> place_parent (pe_location e) = Some p \<longrightarrow>
         location_id digest p |\<in>| fmdom chosen))"

lemma consider_dom: "fmdom (consider_place digest l m) = finsert (location_id digest l) (fmdom m)"
  by (auto simp: consider_place_def Let_def fmlookup_dom_iff split: option.split)

lemma consider_entries: "entries_ok digest L m \<Longrightarrow> l \<in> L \<Longrightarrow> entries_ok digest L (consider_place digest l m)"
  by (auto simp: entries_ok_def consider_place_def Let_def split: option.splits if_splits)

lemma fold_consider:
  assumes "entries_ok digest L m" "set xs \<subseteq> L"
  shows "entries_ok digest L (fold (consider_place digest) xs m)"
    and "fset (fmdom (fold (consider_place digest) xs m)) = fset (fmdom m) \<union> location_id digest ` set xs"
  using assms by (induction xs arbitrary: m) (auto simp: consider_entries consider_dom)

lemma chosen_entries: "entries_ok digest (insert UnknownPlace (set (considered ls))) (choose_places digest ls)"
  unfolding choose_places_fold by (rule fold_consider) (auto simp: entries_ok_def)

lemma chosen_dom:
  "k |\<in>| fmdom (choose_places digest ls) \<longleftrightarrow> k = unknown_location_id \<or> k \<in> location_id digest ` set (considered ls)"
proof -
  have "fset (fmdom (choose_places digest ls)) =
      fset (fmdom (fmempty :: chosen_map)) \<union> location_id digest ` set (UnknownPlace # considered ls)"
    unfolding choose_places_fold by (rule fold_consider [of digest UNIV]) (auto simp: entries_ok_def)
  then show ?thesis by auto
qed

lemma choose_ok: "chosen_ok digest (choose_places digest ls)"
  unfolding chosen_ok_def
proof (intro conjI allI impI)
  show "entries_ok digest UNIV (choose_places digest ls)"
    using chosen_entries [of digest ls] unfolding entries_ok_def by blast
  show "unknown_location_id |\<in>| fmdom (choose_places digest ls)" by (simp add: chosen_dom)
  fix k e p assume "fmlookup (choose_places digest ls) k = Some e" "place_parent (pe_location e) = Some p"
  then obtain l where "l \<in> set (considered ls)" "place_parent l = Some p"
    using chosen_entries [of digest ls] by (fastforce simp: entries_ok_def)
  then show "location_id digest p |\<in>| fmdom (choose_places digest ls)"
    using considered_closed by (auto simp: chosen_dom)
qed

lemma chosen_at:
  assumes "chosen_ok digest chosen" "fmlookup chosen k = Some e"
  shows "e = place_entry digest (pe_location e)" "location_id digest (pe_location e) = k"
proof -
  obtain l where "e = place_entry digest l" "location_id digest l = k"
    using assms unfolding chosen_ok_def entries_ok_def by blast
  then show "e = place_entry digest (pe_location e)" "location_id digest (pe_location e) = k" by simp_all
qed

lemma chosen_parent_at:
  assumes "chosen_ok digest chosen" "fmlookup chosen k = Some e"
  shows "chosen_parent digest chosen k = map_option (location_id digest) (place_parent (pe_location e))"
proof (cases "place_parent (pe_location e)")
  case (Some p)
  then have "location_id digest p |\<in>| fmdom chosen" using assms by (auto simp: chosen_ok_def)
  then obtain e' where "fmlookup chosen (location_id digest p) = Some e'" by auto
  then show ?thesis using assms(2) Some by (simp add: chosen_parent_def)
qed (simp add: chosen_parent_def assms(2))

lemma chosen_parent_dom:
  assumes "chosen_parent digest chosen k = Some p"
  shows "k |\<in>| fmdom chosen" "p |\<in>| fmdom chosen"
  using assms by (auto simp: chosen_parent_def fmlookup_dom_iff split: option.splits)

section \<open>Cycles of the chosen parents\<close>

text \<open>An entry whose chain of parents ends, and after how many steps.\<close>

inductive chain_height :: "(string \<rightharpoonup> string) \<Rightarrow> string \<Rightarrow> nat \<Rightarrow> bool" for par where
  root: "par k = None \<Longrightarrow> chain_height par k 0"
| under: "par k = Some p \<Longrightarrow> chain_height par p n \<Longrightarrow> chain_height par k (Suc n)"

inductive_cases chain_heightE: "chain_height par k n"

definition chain_ends :: "(string \<rightharpoonup> string) \<Rightarrow> string \<Rightarrow> bool" where
  "chain_ends par k = (\<exists>n. chain_height par k n)"

lemma chain_ends_root: "par k = None \<Longrightarrow> chain_ends par k"
  and chain_ends_under: "par k = Some p \<Longrightarrow> chain_ends par p \<Longrightarrow> chain_ends par k"
  unfolding chain_ends_def by (blast intro: chain_height.intros)+

lemma height_unique: "chain_height par k n \<Longrightarrow> chain_height par k m \<Longrightarrow> n = m"
proof (induction arbitrary: m rule: chain_height.induct)
  case (root k)
  then show ?case by (auto elim: chain_heightE)
next
  case (under k p n)
  from under.prems under.hyps(1) obtain m' where "m = Suc m'" "chain_height par p m'"
    by (auto elim: chain_heightE)
  then show ?case using under.IH by simp
qed

lemma path_ends:
  "successively (\<lambda>a b. par a = Some b) (ws @ [c]) \<Longrightarrow> chain_ends par c \<Longrightarrow> \<forall>w \<in> set ws. chain_ends par w"
proof (induction ws)
  case (Cons w ws)
  then have ih: "\<forall>v \<in> set ws. chain_ends par v" by (auto simp: successively_Cons)
  have "par w = Some (hd (ws @ [c]))" using Cons.prems by (simp add: successively_Cons)
  moreover have "chain_ends par (hd (ws @ [c]))" using ih Cons.prems(2) by (cases ws) auto
  ultimately show ?case using ih chain_ends_under by auto
qed simp

definition parent_cycle :: "(string \<rightharpoonup> string) \<Rightarrow> string list \<Rightarrow> bool" where
  "parent_cycle par c = (c \<noteq> [] \<and> (\<forall>m \<in> set c. \<exists>p \<in> set c. par m = Some p))"

lemma closing_cycle:
  assumes "successively (\<lambda>a b. par a = Some b) (ws @ [c])" "c \<in> set ws"
  shows "parent_cycle par (dropWhile (\<lambda>w. w \<noteq> c) ws)"
proof -
  obtain a b where ws: "ws = a @ c # b" "c \<notin> set a" using split_list_first [OF assms(2)] by blast
  then have drop: "dropWhile (\<lambda>w. w \<noteq> c) ws = c # b"
    by (subst ws(1), subst dropWhile_append2) auto
  have s: "successively (\<lambda>a b. par a = Some b) (c # b @ [c])"
    using assms(1) unfolding ws(1) by (simp add: successively_append_iff)
  have step: "\<exists>p \<in> set (b @ [c]). par m = Some p"
    if "successively (\<lambda>a b. par a = Some b) (x # b @ [c])" "m \<in> set (x # b)" for m x b
    using that
  proof (induction b arbitrary: x)
    case (Cons y b)
    then show ?case by (cases "m = x") auto
  qed simp
  have "\<exists>p \<in> set (c # b). par m = Some p" if "m \<in> set (c # b)" for m
    using step [OF s that] by (metis list.set_intros(1) list.set_intros(2) rotate1.simps(2) set_rotate1)
  then show ?thesis unfolding drop parent_cycle_def by simp
qed

text \<open>What a walk up from an entry finds: a cycle, or that everything it passed has an end.\<close>

definition marks_ok :: "(string \<rightharpoonup> string) \<Rightarrow> (string \<Rightarrow> mark) \<Rightarrow> string list \<Rightarrow> bool" where
  "marks_ok par marks walked =
     ((\<forall>k. marks k = OnPath \<longleftrightarrow> k \<in> set walked) \<and> (\<forall>k. marks k = Settled \<longrightarrow> chain_ends par k))"

definition walk_post ::
  "(string \<rightharpoonup> string) \<Rightarrow> (string \<Rightarrow> mark) \<Rightarrow> string list \<Rightarrow> string \<Rightarrow>
   string list + ((string \<Rightarrow> mark) \<times> string list) \<Rightarrow> bool" where
  "walk_post par marks walked current r =
     (case r of
        Inl c \<Rightarrow> parent_cycle par c
      | Inr (marks', walked') \<Rightarrow>
          marks_ok par marks' walked' \<and> (\<forall>k \<in> set walked'. chain_ends par k) \<and> set walked \<subseteq> set walked' \<and>
          (\<forall>k. marks' k = Settled \<longleftrightarrow> marks k = Settled) \<and> (marks current = Settled \<or> current \<in> set walked'))"

lemma walk_post_step:
  assumes "walk_post par (marks(c := OnPath)) (walked @ [c]) p r" "marks c = Unvisited"
  shows "walk_post par marks walked c r"
proof (cases r)
  case (Inr mw)
  obtain marks' walked' where "mw = (marks', walked')" by (cases mw)
  with assms Inr show ?thesis by (auto simp: walk_post_def split: if_splits)
qed (use assms in \<open>simp add: walk_post_def\<close>)

lemma walk_up_spec:
  assumes "successively (\<lambda>a b. chosen_parent digest chosen a = Some b) (walked @ [current])"
    and "marks_ok (chosen_parent digest chosen) marks walked"
  shows "walk_post (chosen_parent digest chosen) marks walked current (walk_up digest chosen marks walked current)"
  using assms
proof (induction digest chosen marks walked current rule: walk_up.induct)
  case (1 digest chosen marks walked current)
  let ?par = "chosen_parent digest chosen"
  note step = walk_up.simps [of digest chosen marks walked current]
  show ?case
  proof (cases "marks current")
    case OnPath
    then have "current \<in> set walked" using 1(3) by (simp add: marks_ok_def)
    with closing_cycle [OF 1(2)] OnPath show ?thesis by (simp add: step walk_post_def)
  next
    case Settled
    then have "chain_ends ?par current" using 1(3) by (simp add: marks_ok_def)
    with path_ends [OF 1(2) this] Settled 1(3) show ?thesis by (simp add: step walk_post_def)
  next
    case Unvisited
    have m: "marks_ok ?par (marks(current := OnPath)) (walked @ [current])"
      using 1(3) by (auto simp: marks_ok_def)
    show ?thesis
    proof (cases "?par current")
      case None
      then have e: "chain_ends ?par current" by (rule chain_ends_root)
      from path_ends [OF 1(2) e] e show ?thesis using Unvisited None m by (auto simp: step walk_post_def)
    next
      case (Some p)
      have "successively (\<lambda>a b. ?par a = Some b) ((walked @ [current]) @ [p])"
        using 1(2) Some by (auto simp: successively_append_iff)
      note post = 1(1) [OF Unvisited Some this m]
      have "walk_up digest chosen marks walked current =
          walk_up digest chosen (marks(current := OnPath)) (walked @ [current]) p"
        using Unvisited Some by (simp add: step)
      then show ?thesis using walk_post_step [OF post Unvisited] by (simp only:)
    qed
  qed
qed

lemma find_cycle_spec:
  assumes "marks_ok (chosen_parent digest chosen) marks []"
  shows "case find_place_cycle digest chosen marks ks of
      [] \<Rightarrow> \<forall>k \<in> set ks. chain_ends (chosen_parent digest chosen) k
    | _ \<Rightarrow> parent_cycle (chosen_parent digest chosen) (find_place_cycle digest chosen marks ks)"
  using assms
proof (induction ks arbitrary: marks)
  case (Cons k ks)
  let ?par = "chosen_parent digest chosen"
  have "walk_post ?par marks [] k (walk_up digest chosen marks [] k)"
    using Cons.prems by (intro walk_up_spec) simp_all
  note post = this [unfolded walk_post_def]
  show ?case
  proof (cases "walk_up digest chosen marks [] k")
    case (Inl c)
    with post have "parent_cycle ?par c" by simp
    with Inl show ?thesis by (cases c) (simp_all add: parent_cycle_def)
  next
    case (Inr mw)
    obtain marks' walked' where mw: "mw = (marks', walked')" by (cases mw)
    let ?marks = "\<lambda>w. if w \<in> set walked' then Settled else marks' w"
    have "marks_ok ?par ?marks []"
      using post unfolding Inr mw by (auto simp: marks_ok_def)
    note rest = Cons.IH [OF this]
    have "chain_ends ?par k" using post Cons.prems unfolding Inr mw by (auto simp: marks_ok_def)
    then show ?thesis using rest by (simp add: Inr mw split: list.splits)
  qed
qed simp

lemma place_cycle_spec:
  "if place_cycle digest chosen = [] then \<forall>k. chain_ends (chosen_parent digest chosen) k
   else parent_cycle (chosen_parent digest chosen) (place_cycle digest chosen)"
proof -
  let ?par = "chosen_parent digest chosen"
  have "marks_ok ?par (\<lambda>_. Unvisited) []" by (simp add: marks_ok_def)
  note c = find_cycle_spec [OF this, of "map_keys chosen", folded place_cycle_def]
  have "chain_ends ?par k" if "k \<notin> set (map_keys chosen)" for k
    using chosen_parent_dom(1) [of digest chosen k] that chain_ends_root
    by (cases "?par k") (auto simp: map_keys_def sorted_list_of_fset.rep_eq)
  with c show ?thesis by (auto split: list.splits)
qed

section \<open>Breaking them\<close>

lemma without_parent_simps [simp]:
  "location_id digest (without_parent l) = location_id digest l" "place_parent (without_parent l) = None"
  by (cases l; simp)+

lemma root_member_facts:
  assumes "chosen_ok digest chosen" "parent_cycle (chosen_parent digest chosen) cycle"
  defines "m \<equiv> Min (set cycle)"
  shows "\<exists>e. fmlookup chosen m = Some e \<and>
    root_member digest cycle chosen = fmupd m (place_entry digest (without_parent (pe_location e))) chosen"
    and "chosen_parent digest chosen m \<noteq> None"
proof -
  have "m \<in> set cycle" using assms(2) by (simp add: m_def parent_cycle_def)
  then show p: "chosen_parent digest chosen m \<noteq> None" using assms(2) by (auto simp: parent_cycle_def)
  then obtain e where e: "fmlookup chosen m = Some e" by (auto simp: chosen_parent_def split: option.splits)
  then have "location_id digest (pe_location e) = m" by (rule chosen_at(2) [OF assms(1)])
  then show "\<exists>e. fmlookup chosen m = Some e \<and>
      root_member digest cycle chosen = fmupd m (place_entry digest (without_parent (pe_location e))) chosen"
    using e by (simp add: root_member_def m_def)
qed

lemma root_member_ok:
  assumes "chosen_ok digest chosen" "parent_cycle (chosen_parent digest chosen) cycle"
  shows "chosen_ok digest (root_member digest cycle chosen)"
    and "fmdom (root_member digest cycle chosen) = fmdom chosen"
    and "chosen_parent digest (root_member digest cycle chosen) = (chosen_parent digest chosen)(Min (set cycle) := None)"
proof -
  let ?m = "Min (set cycle)"
  obtain e where e: "fmlookup chosen ?m = Some e"
      "root_member digest cycle chosen = fmupd ?m (place_entry digest (without_parent (pe_location e))) chosen"
    using root_member_facts(1) [OF assms] by blast
  have at: "location_id digest (pe_location e) = ?m" by (rule chosen_at(2) [OF assms(1) e(1)])
  show d: "fmdom (root_member digest cycle chosen) = fmdom chosen" using e by (auto simp: fmlookup_dom_iff)
  show ok: "chosen_ok digest (root_member digest cycle chosen)"
    using assms(1) at unfolding chosen_ok_def d by (auto simp: e(2) entries_ok_def)
  show "chosen_parent digest (root_member digest cycle chosen) = (chosen_parent digest chosen)(?m := None)"
  proof
    fix k
    show "chosen_parent digest (root_member digest cycle chosen) k = ((chosen_parent digest chosen)(?m := None)) k"
    proof (cases "fmlookup chosen k")
      case None
      then have "fmlookup (root_member digest cycle chosen) k = None" using e by auto
      with None show ?thesis by (simp add: chosen_parent_def)
    next
      case (Some f)
      then obtain g where g: "fmlookup (root_member digest cycle chosen) k = Some g"
          "g = (if k = ?m then place_entry digest (without_parent (pe_location e)) else f)" using e by auto
      show ?thesis using chosen_parent_at [OF ok g(1)] chosen_parent_at [OF assms(1) Some] g(2) by simp
    qed
  qed
qed

text \<open>
  A broken map differs from the chosen one only in entries that lost their parent, and every chain
  of parents in it ends.
\<close>

definition same_place :: "location \<Rightarrow> location \<Rightarrow> bool" where
  "same_place a b = (without_parent a = without_parent b)"

definition broken :: "(string \<Rightarrow> string) \<Rightarrow> chosen_map \<Rightarrow> chosen_map \<Rightarrow> bool" where
  "broken digest chosen forest =
     (chosen_ok digest forest \<and> fmdom forest = fmdom chosen \<and> (\<forall>k. chain_ends (chosen_parent digest forest) k) \<and>
      (\<forall>k e. fmlookup forest k = Some e \<longrightarrow>
        (\<exists>c. fmlookup chosen k = Some c \<and> same_place (pe_location e) (pe_location c))))"

lemma same_place_refl [simp]: "same_place a a"
  and same_place_without [simp]: "same_place (without_parent a) b = same_place a b"
  by (cases a; simp add: same_place_def)+

lemma same_place_trans: "same_place a b \<Longrightarrow> same_place b c \<Longrightarrow> same_place a c"
  by (simp add: same_place_def)

lemma root_member_places:
  assumes "chosen_ok digest chosen" "parent_cycle (chosen_parent digest chosen) cycle"
    and "fmlookup (root_member digest cycle chosen) k = Some e"
  shows "\<exists>c. fmlookup chosen k = Some c \<and> same_place (pe_location e) (pe_location c)"
proof -
  obtain f where f: "fmlookup chosen (Min (set cycle)) = Some f"
      "root_member digest cycle chosen = fmupd (Min (set cycle)) (place_entry digest (without_parent (pe_location f))) chosen"
    using root_member_facts(1) [OF assms(1,2)] by blast
  show ?thesis
  proof (cases "k = Min (set cycle)")
    case True
    then show ?thesis using assms(3) f by (intro exI [of _ f]) auto
  next
    case False
    then show ?thesis using assms(3) f by (intro exI [of _ e]) simp
  qed
qed

lemma break_cycles_returns:
  "chosen_ok digest chosen \<Longrightarrow> \<exists>forest. break_cycles digest chosen = Some forest \<and> broken digest chosen forest"
proof (induction "card {k. chosen_parent digest chosen k \<noteq> None}" arbitrary: chosen rule: less_induct)
  case less
  let ?par = "chosen_parent digest chosen" and ?c = "place_cycle digest chosen"
  note step = break_cycles.simps [of digest chosen]
  show ?case
  proof (cases "?c = []")
    case True
    then have "\<forall>k. chain_ends ?par k" using place_cycle_spec [of digest chosen] by simp
    then have "broken digest chosen chosen" using less.prems by (auto simp: broken_def)
    then show ?thesis using True by (simp add: step)
  next
    case False
    then have c: "parent_cycle ?par ?c" using place_cycle_spec [of digest chosen] by simp
    note ok = root_member_ok [OF less.prems c]
    let ?next = "root_member digest ?c chosen"
    have sub: "{k. chosen_parent digest ?next k \<noteq> None} \<subset> {k. ?par k \<noteq> None}"
      using root_member_facts(2) [OF less.prems c] unfolding ok(3) by (auto split: if_splits)
    have "finite {k. ?par k \<noteq> None}"
      by (rule finite_subset [of _ "fset (fmdom chosen)"]) (auto dest: chosen_parent_dom(1))
    from psubset_card_mono [OF this sub] obtain forest where
      f: "break_cycles digest ?next = Some forest" "broken digest ?next forest"
      using less.hyps [OF _ ok(1)] by blast
    have "\<exists>d. fmlookup chosen k = Some d \<and> same_place (pe_location e) (pe_location d)"
      if e: "fmlookup forest k = Some e" for k e
    proof -
      obtain d where d: "fmlookup ?next k = Some d" "same_place (pe_location e) (pe_location d)"
        using f(2) e unfolding broken_def by blast
      with root_member_places [OF less.prems c d(1)] show ?thesis using same_place_trans by blast
    qed
    then have "broken digest chosen forest" using f(2) ok(2) unfolding broken_def by metis
    then show ?thesis using f(1) False by (simp add: step)
  qed
qed

section \<open>The order of publication\<close>

definition depths_ok :: "(string \<rightharpoonup> string) \<Rightarrow> (string \<rightharpoonup> nat) \<Rightarrow> bool" where
  "depths_ok par depths = (\<forall>k d. depths k = Some d \<longrightarrow> chain_height par k d)"

lemma published_depth_returns:
  assumes "chain_height (chosen_parent digest chosen) k n" "depths_ok (chosen_parent digest chosen) depths"
  shows "\<exists>depths'. published_depth digest chosen k depths = Some (n, depths') \<and>
    depths_ok (chosen_parent digest chosen) depths' \<and> dom depths' \<supseteq> insert k (dom depths)"
  using assms
proof (induction arbitrary: depths rule: chain_height.induct)
  case (root k)
  then show ?case
    using height_unique [OF chain_height.root]
    by (cases "depths k") (auto simp: published_depth.simps [of digest chosen k] depths_ok_def intro: chain_height.root)
next
  case (under k p n)
  let ?par = "chosen_parent digest chosen"
  note h = chain_height.under [OF under.hyps]
  show ?case
  proof (cases "depths k")
    case (Some d)
    then have "d = Suc n" using under.prems height_unique [OF _ h] by (auto simp: depths_ok_def)
    then show ?thesis using Some under.prems by (auto simp: published_depth.simps [of digest chosen k])
  next
    case None
    from under.IH [OF under.prems] obtain depths' where d: "published_depth digest chosen p depths = Some (n, depths')"
        "depths_ok ?par depths'" "dom depths' \<supseteq> insert p (dom depths)" by blast
    have "depths_ok ?par (depths'(k \<mapsto> Suc n))" using d(2) h by (simp add: depths_ok_def)
    moreover have "dom (depths'(k \<mapsto> Suc n)) \<supseteq> insert k (dom depths)" using d(3) by auto
    ultimately show ?thesis
      using None under.hyps(1) d(1) by (simp add: published_depth.simps [of digest chosen k])
  qed
qed

lemma all_depths_returns:
  assumes "\<forall>k. chain_ends (chosen_parent digest chosen) k" "depths_ok (chosen_parent digest chosen) depths"
  shows "\<exists>depths'. all_depths digest chosen ks depths = Some depths' \<and>
    depths_ok (chosen_parent digest chosen) depths' \<and> set ks \<union> dom depths \<subseteq> dom depths'"
  using assms(2)
proof (induction ks arbitrary: depths)
  case (Cons k ks)
  obtain n where "chain_height (chosen_parent digest chosen) k n" using assms(1) by (auto simp: chain_ends_def)
  from published_depth_returns [OF this Cons.prems] obtain depths1 where
    d: "published_depth digest chosen k depths = Some (n, depths1)"
       "depths_ok (chosen_parent digest chosen) depths1" "insert k (dom depths) \<subseteq> dom depths1" by blast
  from Cons.IH [OF d(2)] obtain depths' where
    "all_depths digest chosen ks depths1 = Some depths'" "depths_ok (chosen_parent digest chosen) depths'"
    "set ks \<union> dom depths1 \<subseteq> dom depths'" by blast
  moreover from this have "set (k # ks) \<union> dom depths \<subseteq> dom depths'" using d(3) by (simp add: subset_iff)
  ultimately show ?case using d(1) by simp
qed simp

interpretation published: before_order "entry_before depths"
  for depths
  by unfold_locales (auto simp: entry_before_def Let_def split: if_splits)

text \<open>
  What a published registry is: no identity occurs twice, the unknown place's does; the index gives
  each identity its position; and the parent of every place is published before it.
\<close>

definition registry_ok :: "(string \<Rightarrow> string) \<Rightarrow> location_registry \<Rightarrow> bool" where
  "registry_ok digest r =
     (let ids = map (location_id digest) (lr_locations r) in
      distinct ids \<and> unknown_location_id \<in> set ids \<and>
      (\<forall>nid k. lr_index r nid = Some k \<longleftrightarrow> k < length ids \<and> ids ! k = nid) \<and>
      (\<forall>j < length ids. \<forall>p. place_parent (lr_locations r ! j) = Some p \<longrightarrow> (\<exists>i < j. ids ! i = location_id digest p)))"

lemma index_of_entries:
  assumes "distinct (map pe_id es)"
  shows "lr_index (registry_of es) nid = Some k \<longleftrightarrow> k < length es \<and> pe_id (es ! k) = nid"
proof -
  have "fold (\<lambda>(position, e) m. m(pe_id e \<mapsto> position)) (enumerate n es) m nid = Some k \<longleftrightarrow>
      (if nid \<in> set (map pe_id es) then n \<le> k \<and> k - n < length es \<and> pe_id (es ! (k - n)) = nid else m nid = Some k)"
    if "distinct (map pe_id es)" for n and m :: "string \<rightharpoonup> nat" and es :: "placed_entry list"
    using that
  proof (induction es arbitrary: n m)
    case (Cons e es)
    show ?case
    proof (cases "nid = pe_id e")
      case True
      then have "nid \<notin> set (map pe_id es)" using Cons.prems by simp
      moreover have "(n \<le> k \<and> k - n < length (e # es) \<and> pe_id ((e # es) ! (k - n)) = nid) \<longleftrightarrow> k = n"
        using True Cons.prems by (cases "k - n") (auto simp: image_iff, metis nth_mem)
      ultimately show ?thesis using Cons True by (auto simp: enumerate_Suc_eq [symmetric])
    next
      case False
      have "k - Suc n = i" if "k - n = Suc i" for i using that by simp
      with False have "(n \<le> k \<and> k - n < length (e # es) \<and> pe_id ((e # es) ! (k - n)) = nid) \<longleftrightarrow>
          (Suc n \<le> k \<and> k - Suc n < length es \<and> pe_id (es ! (k - Suc n)) = nid)"
        by (cases "k - n") (auto simp: nth_Cons' Suc_le_eq)
      then show ?thesis using Cons False by simp
    qed
  qed simp
  moreover have "k < length es \<Longrightarrow> pe_id (es ! k) = nid \<Longrightarrow> nid \<in> set (map pe_id es)" by auto
  ultimately show ?thesis using assms by (cases "nid \<in> set (map pe_id es)") (simp_all add: registry_of_def, blast+)
qed

lemma map_keys_mem [simp]: "k \<in> set (map_keys m) \<longleftrightarrow> k |\<in>| fmdom m"
  and map_keys_distinct [simp]: "distinct (map_keys m)"
  by (simp_all add: map_keys_def sorted_list_of_fset.rep_eq)

text \<open>What the order of publication gives for a map whose chains of parents all end.\<close>

lemma publication_order_returns:
  assumes ok: "chosen_ok digest forest" and ends: "\<forall>k. chain_ends (chosen_parent digest forest) k"
  shows "\<exists>es. publication_order digest forest = Some es \<and> distinct (map pe_id es) \<and>
    (\<forall>k e. e \<in> set es \<and> pe_id e = k \<longleftrightarrow> fmlookup forest k = Some e) \<and>
    (\<forall>j < length es. \<forall>p. place_parent (pe_location (es ! j)) = Some p \<longrightarrow>
       (\<exists>i < j. pe_id (es ! i) = location_id digest p))"
proof -
  let ?par = "chosen_parent digest forest" and ?at = "lookup_or no_entry (fmlookup forest)"
  have "depths_ok ?par Map.empty" by (simp add: depths_ok_def)
  from all_depths_returns [OF ends this, of "map_keys forest"] obtain depths where
    d: "all_depths digest forest (map_keys forest) Map.empty = Some depths" "depths_ok ?par depths"
       "set (map_keys forest) \<subseteq> dom depths" by auto
  let ?es = "order_by (entry_before depths) (map ?at (map_keys forest))"
  have at: "fmlookup forest k = Some (?at k) \<and> pe_id (?at k) = k" if d: "k |\<in>| fmdom forest" for k
  proof -
    obtain e where e: "fmlookup forest k = Some e" using d by auto
    with chosen_at [OF ok e] show ?thesis by (metis entry_simps(2) lookup_or_def option.simps(5))
  qed
  have ids: "map pe_id (map ?at (map_keys forest)) = map_keys forest"
    by (rule nth_equalityI) (use at nth_mem in \<open>force+\<close>)
  have dist: "distinct (map pe_id ?es)"
    unfolding published.distinct_map_order ids by simp
  have mem: "e \<in> set ?es \<and> pe_id e = k \<longleftrightarrow> fmlookup forest k = Some e" for k e
  proof
    assume "e \<in> set ?es \<and> pe_id e = k"
    then obtain k' where "k' |\<in>| fmdom forest" "e = ?at k'" "pe_id e = k" by auto
    with at [of k'] show "fmlookup forest k = Some e" by simp
  next
    assume e: "fmlookup forest k = Some e"
    then have k: "k |\<in>| fmdom forest" by (rule fmdomI)
    with at [OF k] e have "e = ?at k" "pe_id e = k" by simp_all
    with k show "e \<in> set ?es \<and> pe_id e = k" by auto
  qed
  have before: "\<exists>i < j. pe_id (?es ! i) = location_id digest p"
    if j: "j < length ?es" and p: "place_parent (pe_location (?es ! j)) = Some p" for j p
  proof -
    let ?e = "?es ! j"
    have e: "fmlookup forest (pe_id ?e) = Some ?e" using mem [of ?e "pe_id ?e"] nth_mem [OF j] by blast
    have par: "?par (pe_id ?e) = Some (location_id digest p)" using chosen_parent_at [OF ok e] p by simp
    from chosen_parent_dom(2) [OF this] obtain q where q: "fmlookup forest (location_id digest p) = Some q" by auto
    with mem [of q] have "q \<in> set ?es" "pe_id q = location_id digest p" by blast+
    then obtain i where i: "i < length ?es" "?es ! i = q" unfolding in_set_conv_nth by blast
    have "depths (location_id digest p) \<noteq> None" "depths (pe_id ?e) \<noteq> None"
      using d(3) fmdomI [OF q] fmdomI [OF e] by auto
    then obtain m n where mn: "depths (location_id digest p) = Some m" "depths (pe_id ?e) = Some n" by blast
    then have h: "chain_height ?par (location_id digest p) m" "chain_height ?par (pe_id ?e) n"
      using d(2) by (auto simp: depths_ok_def)
    have "n = Suc m" using height_unique [OF h(2) chain_height.under [OF par h(1)]] .
    then have b: "entry_before depths q ?e" "pe_id q \<noteq> pe_id ?e"
      using mn \<open>pe_id q = location_id digest p\<close> by (auto simp: entry_before_def lookup_or_def)
    have "i < j"
    proof (rule ccontr)
      assume "\<not> i < j"
      with b(2) i(2) have "j < i" by (cases "i = j") auto
      from sorted_wrt_nth_less [OF published.sorted_order this i(1)] b(1) i(2) show False by simp
    qed
    then show ?thesis using i \<open>pe_id q = location_id digest p\<close> by auto
  qed
  have "publication_order digest forest = Some ?es" by (simp add: publication_order_def d(1))
  with dist mem before show ?thesis by blast
qed

lemma new_registry_entries:
  "\<exists>forest es. broken digest (choose_places digest ls) forest \<and>
    new_location_registry digest ls = Some (registry_of es) \<and> distinct (map pe_id es) \<and>
    (\<forall>k e. e \<in> set es \<and> pe_id e = k \<longleftrightarrow> fmlookup forest k = Some e) \<and>
    (\<forall>j < length es. \<forall>p. place_parent (pe_location (es ! j)) = Some p \<longrightarrow>
       (\<exists>i < j. pe_id (es ! i) = location_id digest p))"
proof -
  obtain forest where f: "break_cycles digest (choose_places digest ls) = Some forest"
      "broken digest (choose_places digest ls) forest"
    using break_cycles_returns [OF choose_ok] by blast
  with publication_order_returns [of digest forest] obtain es where
    "publication_order digest forest = Some es" "distinct (map pe_id es)"
    "\<forall>k e. e \<in> set es \<and> pe_id e = k \<longleftrightarrow> fmlookup forest k = Some e"
    "\<forall>j < length es. \<forall>p. place_parent (pe_location (es ! j)) = Some p \<longrightarrow>
       (\<exists>i < j. pe_id (es ! i) = location_id digest p)"
    unfolding broken_def by blast
  then show ?thesis using f by (intro exI [of _ forest] exI [of _ es]) (simp add: new_location_registry_def)
qed

section \<open>What is chosen\<close>

text \<open>
  The digest does not collide on the given places: equal identities are of places that differ in
  their ancestry at most.
\<close>

definition collision_free :: "(string \<Rightarrow> string) \<Rightarrow> location set \<Rightarrow> bool" where
  "collision_free digest L =
     (\<forall>a \<in> L. \<forall>b \<in> L. location_id digest a = location_id digest b \<longrightarrow> same_place a b)"

lemma better_asym: "better_known p q \<Longrightarrow> \<not> better_known q p"
  and better_irrefl [simp]: "\<not> better_known p p"
  and better_trans: "better_known p q \<Longrightarrow> better_known q r \<Longrightarrow> better_known p r"
  by (auto simp: better_known_def split: if_splits)

text \<open>No place that was considered is better known than the one chosen for its identity.\<close>

definition best_of :: "(string \<Rightarrow> string) \<Rightarrow> location set \<Rightarrow> chosen_map \<Rightarrow> bool" where
  "best_of digest L chosen =
     (\<forall>l \<in> L. \<exists>e. fmlookup chosen (location_id digest l) = Some e \<and> \<not> better_known (place_entry digest l) e)"

lemma consider_best:
  assumes "best_of digest L m"
  shows "best_of digest (insert l L) (consider_place digest l m)"
  unfolding best_of_def
proof
  fix x assume x: "x \<in> insert l L"
  let ?c = "place_entry digest l" and ?after = "fmlookup (consider_place digest l m)"
  show "\<exists>e. ?after (location_id digest x) = Some e \<and> \<not> better_known (place_entry digest x) e"
  proof (cases "fmlookup m (location_id digest l)")
    case None
    then have a: "?after = (fmlookup m)(location_id digest l \<mapsto> ?c)" by (auto simp: consider_place_def fun_eq_iff)
    have "location_id digest x \<noteq> location_id digest l" if "x \<in> L" using that None assms by (auto simp: best_of_def)
    then show ?thesis using x assms unfolding a best_of_def by (cases "x = l") auto
  next
    case (Some old)
    show ?thesis
    proof (cases "better_known ?c old")
      case True
      then have a: "?after = (fmlookup m)(location_id digest l \<mapsto> ?c)" using Some by (auto simp: consider_place_def fun_eq_iff)
      have "\<not> better_known (place_entry digest x) ?c" if "x \<in> L" "location_id digest x = location_id digest l"
      proof -
        have "\<not> better_known (place_entry digest x) old" using that Some assms unfolding best_of_def by fastforce
        then show ?thesis using better_trans True by blast
      qed
      then show ?thesis using x assms unfolding a best_of_def
        by (cases "x = l"; cases "location_id digest x = location_id digest l") simp_all
    next
      case False
      then have a: "?after = fmlookup m" using Some by (simp add: consider_place_def)
      show ?thesis using x assms Some False unfolding a best_of_def by (cases "x = l") simp_all
    qed
  qed
qed

lemma fold_best: "best_of digest L m \<Longrightarrow> best_of digest (L \<union> set xs) (fold (consider_place digest) xs m)"
proof (induction xs arbitrary: L m)
  case (Cons x xs)
  from Cons.IH [OF consider_best [OF Cons.prems, of x]] show ?case by simp
qed simp

lemma chosen_best: "best_of digest (insert UnknownPlace (set (considered ls))) (choose_places digest ls)"
  using fold_best [of digest "{}" fmempty "UnknownPlace # considered ls"]
  by (simp add: choose_places_fold best_of_def)

lemma ancestry_ids:
  assumes "\<And>l. CHR ''/'' \<notin> set (location_id digest l)"
  shows "location_ancestry digest a = location_ancestry digest b \<Longrightarrow>
    map (location_id digest) (ancestors a) = map (location_id digest) (ancestors b)"
proof -
  have "concat (map (\<lambda>x. location_id digest x @ ''/'') xs) = concat (map (\<lambda>x. location_id digest x @ ''/'') ys) \<Longrightarrow>
      map (location_id digest) xs = map (location_id digest) ys" for xs ys
  proof (induction xs arbitrary: ys)
    case Nil
    then show ?case by (cases ys) auto
  next
    case (Cons x xs)
    then obtain y ys' where ys: "ys = y # ys'" by (cases ys) auto
    let ?x = "location_id digest x" and ?y = "location_id digest y"
    let ?u = "concat (map (\<lambda>x. location_id digest x @ ''/'') xs)"
    let ?v = "concat (map (\<lambda>x. location_id digest x @ ''/'') ys')"
    have "?x @ CHR ''/'' # ?u = ?y @ CHR ''/'' # ?v" using Cons.prems ys by simp
    then have "Some (?x, ?u) = Some (?y, ?v)"
      using cut_at_complete [OF assms, of x ?u] cut_at_complete [OF assms, of y ?v] by metis
    then have "?x = ?y" "?u = ?v" by blast+
    then show ?case using Cons.IH ys by simp
  qed
  from this [of "ancestors a" "ancestors b"]
  show "location_ancestry digest a = location_ancestry digest b \<Longrightarrow>
    map (location_id digest) (ancestors a) = map (location_id digest) (ancestors b)"
    unfolding location_ancestry_def .
qed

lemma same_place_eq: "same_place a b \<Longrightarrow> place_parent a = place_parent b \<Longrightarrow> a = b"
  by (cases a; cases b) (auto simp: same_place_def)

lemma same_ids_eq:
  assumes "collision_free digest L"
  shows "insert a (set (ancestors a)) \<subseteq> L \<Longrightarrow> insert b (set (ancestors b)) \<subseteq> L \<Longrightarrow>
    map (location_id digest) (a # ancestors a) = map (location_id digest) (b # ancestors b) \<Longrightarrow> a = b"
proof (induction "length (ancestors a)" arbitrary: a b)
  case 0
  then have "same_place a b" using assms by (simp add: collision_free_def)
  moreover have "ancestors a = []" "ancestors b = []" using 0 by simp_all
  then have "place_parent a = None" "place_parent b = None"
    using ancestors_parent by (metis list.distinct(1) option.exhaust)+
  ultimately show ?case by (simp add: same_place_eq)
next
  case (Suc n)
  then have same: "same_place a b" using assms by (simp add: collision_free_def)
  obtain p where p: "place_parent a = Some p" using Suc.hyps(2) by (cases a rule: ancestors.cases) auto
  have "ancestors b \<noteq> []" using Suc.hyps(2) Suc.prems(3) by auto
  then obtain q where q: "place_parent b = Some q" by (cases b rule: ancestors.cases) auto
  note ap = ancestors_parent [OF p] and bq = ancestors_parent [OF q]
  have "p = q" using Suc.hyps(1) [of p q] Suc.hyps(2) Suc.prems unfolding ap bq by simp
  with same p q show ?case by (simp add: same_place_eq)
qed

text \<open>The best known place of an identity is one place only, so the chosen map is a function of the set.\<close>

lemma best_unique:
  assumes free: "collision_free digest L" and slash: "\<And>l. CHR ''/'' \<notin> set (location_id digest l)"
    and closed: "\<And>l. l \<in> L \<Longrightarrow> set (ancestors l) \<subseteq> L"
    and "entries_ok digest L m" "best_of digest L m" "entries_ok digest L m'" "best_of digest L m'"
  shows "m = m'"
proof (rule fmap_ext)
  have sub: "fmlookup m' k = Some e" if at: "fmlookup m k = Some e"
    and ok: "entries_ok digest L m" "best_of digest L m" "entries_ok digest L m'" "best_of digest L m'"
    for m m' k e
  proof -
    obtain a where a: "a \<in> L" "e = place_entry digest a" "location_id digest a = k"
      using at ok(1) unfolding entries_ok_def by blast
    obtain e' where e': "fmlookup m' k = Some e'" "\<not> better_known e e'" using ok(4) a unfolding best_of_def by blast
    obtain b where b: "b \<in> L" "e' = place_entry digest b" "location_id digest b = k"
      using e'(1) ok(3) unfolding entries_ok_def by blast
    have "\<not> better_known e' e" using ok(2) b at unfolding best_of_def by fastforce
    then have "location_ancestry digest a = location_ancestry digest b"
      using e'(2) a(2) b(2) by (auto simp: better_known_def split: if_splits)
    from ancestry_ids [OF slash this] have "a = b"
      using a b closed by (intro same_ids_eq [OF free]) auto
    then show ?thesis using e' a b by simp
  qed
  fix k
  show "fmlookup m k = fmlookup m' k"
    using sub [of m k _ m'] sub [of m' k _ m] assms(4-7) by (cases "fmlookup m k"; cases "fmlookup m' k") auto
qed

lemma considered_ancestors: "l \<in> set (considered ls) \<Longrightarrow> set (ancestors l) \<subseteq> set (considered ls)"
proof (induction l rule: ancestors.induct)
  case (1 d p)
  then show ?case using considered_closed [of "DirectoryPlace d (Some p)" ls p] by simp
next
  case (2 r p)
  then show ?case using considered_closed [of "RemotePlace r (Some p)" ls p] by simp
qed auto

text \<open>A registry of one worktree known with and without its repository, and of a remote.\<close>

definition sample_repository :: location where
  "sample_repository = DirectoryPlace ''/src/app'' None"

definition sample_places :: "location list" where
  "sample_places =
     [DirectoryPlace ''/work/fix'' None, RemotePlace ''pr-7'' None,
      DirectoryPlace ''/work/fix'' (Some sample_repository)]"

definition sample_digest :: "string \<Rightarrow> string" where
  "sample_digest = filter (\<lambda>c. c \<noteq> CHR ''/'')"

lemma sample_free: "collision_free sample_digest (insert UnknownPlace (set (considered sample_places)))"
  by code_simp

lemma sample_slash: "CHR ''/'' \<notin> set (location_id sample_digest l)"
  by (cases l) (auto simp: location_digest_def sample_digest_def unknown_location_id_def)

section \<open>Properties\<close>

lemma new_registry_ok:
  "\<exists>r. new_location_registry digest ls = Some r \<and> registry_ok digest r \<and>
     (\<forall>l \<in> set (considered ls). registry_contains r (location_id digest l))"
proof -
  obtain forest es where f: "broken digest (choose_places digest ls) forest"
      "new_location_registry digest ls = Some (registry_of es)" "distinct (map pe_id es)"
    and mem: "\<And>k e. e \<in> set es \<and> pe_id e = k \<longleftrightarrow> fmlookup forest k = Some e"
    and before: "\<forall>j < length es. \<forall>p. place_parent (pe_location (es ! j)) = Some p \<longrightarrow>
       (\<exists>i < j. pe_id (es ! i) = location_id digest p)"
    using new_registry_entries [of digest ls] by blast
  have ok: "chosen_ok digest forest" and dom: "fmdom forest = fmdom (choose_places digest ls)"
    using f(1) by (simp_all add: broken_def)
  have ids: "map (location_id digest) (lr_locations (registry_of es)) = map pe_id es"
    using chosen_at(2) [OF ok] mem by (auto simp: registry_of_def)
  have "k \<in> set (map pe_id es) \<longleftrightarrow> k |\<in>| fmdom forest" for k
    unfolding fmlookup_dom_iff mem [symmetric] by auto
  moreover have "registry_contains (registry_of es) k \<longleftrightarrow> k \<in> set (map pe_id es)" for k
    unfolding registry_contains_def not_None_eq index_of_entries [OF f(3)] in_set_conv_nth by auto
  then have has: "registry_contains (registry_of es) k \<longleftrightarrow> k |\<in>| fmdom forest" for k using calculation by blast
  moreover have "place_parent (lr_locations (registry_of es) ! j) = Some p \<Longrightarrow> j < length es \<Longrightarrow>
      \<exists>i < j. map pe_id es ! i = location_id digest p" for j p
    using before by (simp add: registry_of_def) (metis less_trans nth_map)
  ultimately have "registry_ok digest (registry_of es)"
    unfolding registry_ok_def Let_def ids using f(3) index_of_entries [OF f(3)] ok
    by (auto simp: chosen_ok_def)
  then show ?thesis
    using f(2) has
    by (intro exI [of _ "registry_of es"]) (auto simp: dom chosen_dom)
qed

text \<open>
  C32: A registry can always be built, and it is a forest a client draws in one pass: no identity
  occurs twice, the unknown place is there, the index is exact, every place's parent comes before
  it, and every place that was referred to, with all its ancestors, is in it.  Loops in what was
  recorded, and even collisions of the digest, do not break this.
\<close>

theorem registry_is_published:
  "\<exists>r. new_location_registry digest ls = Some r \<and> registry_ok digest r \<and>
     (\<forall>l \<in> set (considered ls). registry_contains r (location_id digest l))"
  by (rule new_registry_ok)

text \<open>
  A reference into the registry leads to the place it was made from: looked up by its
  identity, a place is found with its own kind and key, whatever ancestry is published for it,
  when the digest does not collide on the places of the response.
\<close>

theorem references_resolve:
  assumes "collision_free digest (insert UnknownPlace (set (considered ls)))"
    and "new_location_registry digest ls = Some r" "l \<in> set (considered ls)"
  shows "\<exists>k. lr_index r (location_id digest l) = Some k \<and> same_place (lr_locations r ! k) l"
proof -
  obtain forest es where f: "broken digest (choose_places digest ls) forest" "r = registry_of es" "distinct (map pe_id es)"
    and mem: "\<And>k e. e \<in> set es \<and> pe_id e = k \<longleftrightarrow> fmlookup forest k = Some e"
    using new_registry_entries [of digest ls] assms(2) by force
  have "location_id digest l |\<in>| fmdom forest" using f(1) assms(3) by (simp add: broken_def chosen_dom)
  then obtain e where e: "fmlookup forest (location_id digest l) = Some e" by auto
  with mem [of e] have es: "e \<in> set es" "pe_id e = location_id digest l" by blast+
  then obtain k where k: "k < length es" "es ! k = e" unfolding in_set_conv_nth by blast
  obtain c where c: "fmlookup (choose_places digest ls) (location_id digest l) = Some c"
      "same_place (pe_location e) (pe_location c)" using f(1) e unfolding broken_def by blast
  obtain b where b: "b \<in> insert UnknownPlace (set (considered ls))" "c = place_entry digest b"
      "location_id digest b = location_id digest l"
    using chosen_entries [of digest ls] c(1) unfolding entries_ok_def by blast
  then have "same_place b l" using assms(1,3) unfolding collision_free_def by blast
  then have "same_place (pe_location e) l" using c(2) b(2) same_place_trans by auto
  then show ?thesis
    using index_of_entries [OF f(3), of "location_id digest l" k] k es(2) by (auto simp: f(2) registry_of_def)
qed

text \<open>
  The same places make the same registry, in whatever order and however often they are
  referred to, when the digest does not collide on them and its text has no slash: so the same
  facts are the same response.
\<close>

theorem registry_ignores_order:
  assumes "set (considered ls) = set (considered ls')"
    and "collision_free digest (insert UnknownPlace (set (considered ls)))"
    and "\<forall>l. CHR ''/'' \<notin> set (location_id digest l)"
  shows "new_location_registry digest ls = new_location_registry digest ls'"
proof -
  have "choose_places digest ls = choose_places digest ls'"
  proof (rule best_unique [OF assms(2)])
    fix l assume "l \<in> insert UnknownPlace (set (considered ls))"
    then show "set (ancestors l) \<subseteq> insert UnknownPlace (set (considered ls))"
      using considered_ancestors [of l ls] by auto
  qed (use assms chosen_entries chosen_best in \<open>metis | simp\<close>)+
  then show ?thesis by (simp add: new_location_registry_def)
qed

theorem registry_is_published_witness:
  "\<exists>r. new_location_registry sample_digest sample_places = Some r \<and> registry_ok sample_digest r \<and>
     registry_contains r (location_id sample_digest sample_repository)"
proof -
  obtain r where r: "new_location_registry sample_digest sample_places = Some r" "registry_ok sample_digest r"
      "\<forall>l \<in> set (considered sample_places). registry_contains r (location_id sample_digest l)"
    using registry_is_published by blast
  have "sample_repository \<in> set (considered sample_places)" by (simp add: considered_def sample_places_def)
  with r show ?thesis by blast
qed

theorem references_resolve_witness:
  "\<exists>r k. new_location_registry sample_digest sample_places = Some r \<and>
     lr_index r (location_id sample_digest (DirectoryPlace ''/work/fix'' None)) = Some k \<and>
     place_parent (lr_locations r ! k) = Some sample_repository"
proof -
  obtain r where r: "new_location_registry sample_digest sample_places = Some r"
    using new_registry_ok by blast
  have "DirectoryPlace ''/work/fix'' None \<in> set (considered sample_places)" by code_simp
  from references_resolve [OF sample_free r this] obtain k where
    k: "lr_index r (location_id sample_digest (DirectoryPlace ''/work/fix'' None)) = Some k" by blast
  have "(case new_location_registry sample_digest sample_places of None \<Rightarrow> False
      | Some r \<Rightarrow> (case lr_index r (location_id sample_digest (DirectoryPlace ''/work/fix'' None)) of None \<Rightarrow> False
          | Some k \<Rightarrow> place_parent (lr_locations r ! k) = Some sample_repository))"
    by code_simp
  with r k show ?thesis by auto
qed

theorem registry_ignores_order_witness:
  "new_location_registry sample_digest sample_places =
   new_location_registry sample_digest (rev sample_places @ [sample_repository])"
proof (rule registry_ignores_order)
  show "set (considered sample_places) = set (considered (rev sample_places @ [sample_repository]))" by code_simp
qed (use sample_free sample_slash in auto)

text \<open>
  A place built from a record is one the union can express: unknown exactly when nothing was
  recorded, and otherwise a bounded, clean, absolute directory with at most its repository above
  it, or a remote without an ancestor.
\<close>

fun expressible :: "location \<Rightarrow> bool" where
  "expressible UnknownPlace = True"
| "expressible (DirectoryPlace d p) =
     (validate_location_text ''directory'' d max_location_path = Inr () \<and> has_prefix d ''/'' \<and> path_clean d = d \<and>
      (case p of None \<Rightarrow> True | Some q \<Rightarrow> q \<noteq> UnknownPlace \<and> expressible q))"
| "expressible (RemotePlace r p) =
     (validate_location_text ''ref'' r max_location_ref = Inr () \<and>
      (case p of None \<Rightarrow> True | Some q \<Rightarrow> q \<noteq> UnknownPlace \<and> expressible q))"

lemma kind_unknown: "location_kind l = location_unknown \<longleftrightarrow> l = UnknownPlace"
  by (cases l) (auto simp: location_unknown_def location_directory_def location_remote_def)

lemma new_directory_ok:
  "new_directory_location d p = Inr l \<longleftrightarrow> l = DirectoryPlace d p \<and>
     validate_location_text ''directory'' d max_location_path = Inr () \<and> has_prefix d ''/'' \<and> path_clean d = d \<and>
     p \<noteq> Some UnknownPlace"
  by (auto simp: new_directory_location_def rbind_eq_Inr validate_location_parent_def kind_unknown
      split: option.splits if_splits)

lemma new_remote_ok:
  "new_remote_location r p = Inr l \<longleftrightarrow> l = RemotePlace r p \<and>
     validate_location_text ''ref'' r max_location_ref = Inr () \<and> p \<noteq> Some UnknownPlace"
  by (auto simp: new_remote_location_def rbind_eq_Inr validate_location_parent_def kind_unknown
      split: option.splits if_splits)

text \<open>
  Only well-formed places exist: what is built from a record is expressible, has at most one
  ancestor, and is the unknown place exactly when nothing was recorded; and each constructor keeps
  this for any expressible parent.
\<close>

theorem recorded_place_is_expressible:
  "(recorded_location p = Inr l \<longrightarrow>
      expressible l \<and> location_depth l \<le> 1 \<and> (l = UnknownPlace \<longleftrightarrow> \<not> place_recorded p)) \<and>
   (new_directory_location d q = Inr l \<or> new_remote_location d q = Inr l \<longrightarrow>
      (\<forall>parent. q = Some parent \<longrightarrow> expressible parent) \<longrightarrow> expressible l \<and> l \<noteq> UnknownPlace)"
  by (auto simp: recorded_location_def new_directory_ok new_remote_ok rbind_eq_Inr place_recorded_def
      location_depth_def split: if_splits option.splits)

theorem recorded_place_is_expressible_witness:
  "expressible (DirectoryPlace ''/w/fix'' (Some (DirectoryPlace ''/src/app'' None)))"
proof -
  have "recorded_location \<lparr>rp_directory = ''/w/fix'', rp_repository = ''/src/app'', rp_ref = []\<rparr> =
      Inr (DirectoryPlace ''/w/fix'' (Some (DirectoryPlace ''/src/app'' None)))"
    by code_simp
  with recorded_place_is_expressible [of _ _ "[]" None] show ?thesis by blast
qed

end
