(* ===== verification/Work_Status.thy ===== *)
theory Work_Status
  imports Fleet_Planning Locations
begin

text \<open>
  The rules the overview is derived by: \<open>internal/agenthub/domain.go\<close>, with the translations of
  \<open>internal/agenthub/hubrecords/hubrecords.go\<close> that feed it from the durable record.

  An outcome the program does not know is \<open>OtherOutcome\<close>, the empty one included.  A time is a
  number of ticks, 0 the zero time.  The digest of a state revision and the rendering of a time
  are parameters (\<open>crypto/sha256\<close> and \<open>time.Format\<close>).
\<close>

section \<open>Statuses\<close>

datatype work_status = Todo | InProgress | Paused | WaitingInput | Waiting | Done | Failed

definition work_statuses :: "work_status list" where
  "work_statuses = [Todo, InProgress, Paused, WaitingInput, Waiting, Done, Failed]"

definition terminal :: "work_status \<Rightarrow> bool" where
  "terminal s = (s = Done \<or> s = Failed)"

datatype outcome_kind =
    OutcomeRunning | OutcomeSucceeded | OutcomeFailed | OutcomeBlocked | OutcomeSkipped | OtherOutcome string

fun status_from_outcome :: "outcome_kind \<Rightarrow> work_status" where
  "status_from_outcome OutcomeRunning = InProgress"
| "status_from_outcome OutcomeSucceeded = Done"
| "status_from_outcome OutcomeBlocked = WaitingInput"
| "status_from_outcome OutcomeSkipped = Paused"
| "status_from_outcome OutcomeFailed = Failed"
| "status_from_outcome (OtherOutcome s) = Failed"

record hub_node =
  hn_id :: string
  hn_prompt :: string
  hn_depends_on :: "string list"

record hub_plan =
  hp_goal :: string
  hp_nodes :: "hub_node list"

record progress =
  pg_done :: nat
  pg_total :: nat

record node_execution =
  ne_workflow :: string
  ne_run :: string
  ne_started :: nat
  ne_ended :: nat
  ne_tokens :: int

record overview_node =
  on_id :: string
  on_prompt :: string
  on_depends_on :: "string list"
  on_status :: work_status
  on_execution :: "node_execution option"
  on_location :: location

section \<open>The status of a node\<close>

text \<open>\<open>remaining\<close> and \<open>nodes\<close>: over the nodes in order, a later one overwrites.\<close>

definition hub_node_of :: "hub_plan \<Rightarrow> string \<rightharpoonup> hub_node" where
  "hub_node_of plan = foldl (\<lambda>m n. m(hn_id n \<mapsto> n)) Map.empty (hp_nodes plan)"

definition hub_ids :: "hub_plan \<Rightarrow> string list" where
  "hub_ids plan = map hn_id (hp_nodes plan)"

definition hub_deps :: "hub_plan \<Rightarrow> string \<Rightarrow> string list" where
  "hub_deps plan nid = (case hub_node_of plan nid of None \<Rightarrow> [] | Some n \<Rightarrow> hn_depends_on n)"

text \<open>One round: the nodes not placed yet whose known dependencies are all placed.\<close>

definition ready_ids :: "hub_plan \<Rightarrow> string list \<Rightarrow> string list" where
  "ready_ids plan order =
     sort (filter (\<lambda>nid. nid \<notin> set order \<and>
         list_all (\<lambda>d. d \<in> set (hub_ids plan) \<longrightarrow> d \<in> set order) (hub_deps plan nid))
       (remdups (hub_ids plan)))"

lemma ready_new: "nid \<in> set (ready_ids plan order) \<Longrightarrow> nid \<in> set (hub_ids plan) \<and> nid \<notin> set order"
  by (simp add: ready_ids_def)

function order_from :: "hub_plan \<Rightarrow> string list \<Rightarrow> string list" where
  "order_from plan order =
     (case ready_ids plan order of
        [] \<Rightarrow> order
      | front \<Rightarrow> order_from plan (order @ front))"
  by pat_completeness auto

termination order_from
proof (relation "measure (\<lambda>(plan, order). card (set (hub_ids plan) - set order))")
  fix plan order nid and nids :: "string list"
  assume r: "ready_ids plan order = nid # nids"
  then have n: "nid \<in> set (hub_ids plan)" "nid \<notin> set order" using ready_new [of nid plan order] by simp_all
  have "set (hub_ids plan) - set (order @ nid # nids) \<subset> set (hub_ids plan) - set order"
    using n by auto
  then show "((plan, order @ nid # nids), plan, order) \<in> measure (\<lambda>(plan, order). card (set (hub_ids plan) - set order))"
    by (simp add: psubset_card_mono)
qed simp

declare order_from.simps [simp del]

definition dependency_order :: "hub_plan \<Rightarrow> string list" where
  "dependency_order plan = order_from plan []"

fun deps_status :: "bool \<Rightarrow> (string \<rightharpoonup> work_status) \<Rightarrow> string list \<Rightarrow> work_status" where
  "deps_status able statuses [] = (if able then Todo else Waiting)"
| "deps_status able statuses (d # ds) =
     (case statuses d of
        Some s \<Rightarrow>
          (if s = Failed \<or> s = Paused \<or> s = WaitingInput then Paused
           else if s = Done then deps_status able statuses ds
           else deps_status False statuses ds)
      | None \<Rightarrow> deps_status False statuses ds)"

definition status_from_dependencies :: "hub_plan \<Rightarrow> string \<Rightarrow> (string \<rightharpoonup> work_status) \<Rightarrow> work_status" where
  "status_from_dependencies plan nid statuses = deps_status True statuses (hub_deps plan nid)"

definition decide_node :: "hub_plan \<Rightarrow> (string \<rightharpoonup> work_status) \<Rightarrow> string \<Rightarrow> string \<rightharpoonup> work_status" where
  "decide_node plan statuses nid =
     (case statuses nid of
        Some s \<Rightarrow> statuses
      | None \<Rightarrow> statuses(nid \<mapsto> status_from_dependencies plan nid statuses))"

definition known_statuses :: "hub_plan \<Rightarrow> (string \<rightharpoonup> outcome_kind) \<Rightarrow> string \<rightharpoonup> work_status" where
  "known_statuses plan outcomes =
     foldl (\<lambda>m n. case outcomes (hn_id n) of None \<Rightarrow> m | Some o' \<Rightarrow> m(hn_id n \<mapsto> status_from_outcome o'))
       Map.empty (hp_nodes plan)"

definition wait_rest :: "hub_plan \<Rightarrow> (string \<rightharpoonup> work_status) \<Rightarrow> string \<rightharpoonup> work_status" where
  "wait_rest plan statuses =
     foldl (\<lambda>m n. case m (hn_id n) of None \<Rightarrow> m(hn_id n \<mapsto> Waiting) | Some s \<Rightarrow> m) statuses (hp_nodes plan)"

definition derive_statuses :: "hub_plan \<Rightarrow> (string \<rightharpoonup> outcome_kind) \<Rightarrow> string \<rightharpoonup> work_status" where
  "derive_statuses plan outcomes =
     wait_rest plan (foldl (decide_node plan) (known_statuses plan outcomes) (dependency_order plan))"

section \<open>The status of a fleet and of a schedule\<close>

definition count_nodes :: "work_status \<Rightarrow> overview_node list \<Rightarrow> nat" where
  "count_nodes s nodes = length (filter (\<lambda>n. on_status n = s) nodes)"

definition aggregate_status :: "overview_node list \<Rightarrow> work_status" where
  "aggregate_status nodes =
     (if nodes = [] then Todo
      else if count_nodes Failed nodes > 0 then Failed
      else if count_nodes WaitingInput nodes > 0 then WaitingInput
      else if count_nodes InProgress nodes > 0 then InProgress
      else if count_nodes Paused nodes > 0 then Paused
      else if \<not> list_ex (\<lambda>n. on_status n \<noteq> Done) nodes then Done
      else if list_ex (\<lambda>n. on_status n = Done) nodes then InProgress
      else Todo)"

definition node_progress :: "overview_node list \<Rightarrow> progress" where
  "node_progress nodes = \<lparr>pg_done = count_nodes Done nodes, pg_total = length nodes\<rparr>"

definition up_next :: "overview_node list \<Rightarrow> overview_node list" where
  "up_next nodes = filter (\<lambda>n. on_status n = Todo) nodes @ filter (\<lambda>n. on_status n = Waiting) nodes"

definition schedule_status :: "bool \<Rightarrow> int \<Rightarrow> outcome_kind \<Rightarrow> work_status" where
  "schedule_status paused running last_outcome =
     (if paused then Paused
      else if running > 0 then InProgress
      else if last_outcome = OtherOutcome [] then Todo
      else status_from_outcome last_outcome)"

section \<open>Dismissals\<close>

definition kind_fleet :: string where "kind_fleet = ''fleet''"
definition kind_run :: string where "kind_run = ''run''"
definition kind_schedule :: string where "kind_schedule = ''schedule''"

definition item_kinds :: "string list" where
  "item_kinds = [kind_fleet, kind_run, kind_schedule]"

definition valid_item_kind :: "string \<Rightarrow> bool" where
  "valid_item_kind k = list_ex (\<lambda>known. known = k) item_kinds"

record dismissal =
  ds_viewer :: string
  ds_kind :: string
  ds_item :: string
  ds_revision :: string
  ds_at :: nat

definition dismissal_id :: "dismissal \<Rightarrow> string" where
  "dismissal_id d = ds_kind d @ '':'' @ ds_item d"

datatype hub_invalid =
    DismissalForm string
  | UnknownItemKind string
  | ScheduleDismissed
  | ItemIdRequired
  | ItemIdTooLong nat
  | ItemIdCharacters string

definition max_item_id_length :: nat where
  "max_item_id_length = 255"

definition has_space :: "string \<Rightarrow> bool" where
  "has_space s = list_ex (contains s) space_runes"

definition has_invalid_rune :: "string \<Rightarrow> bool" where
  "has_invalid_rune s = (has_control s \<or> has_space s \<or> contains s [CHR 0xEF, CHR 0xBB, CHR 0xBF])"

definition contains_any :: "string \<Rightarrow> string \<Rightarrow> bool" where
  "contains_any s chars = list_ex (\<lambda>c. c \<in> set chars) s"

definition validate_item_id :: "string \<Rightarrow> hub_invalid + unit" where
  "validate_item_id item =
     (if blank item then Inl ItemIdRequired
      else if \<not> valid_utf8 item \<or> rune_count item > max_item_id_length then Inl (ItemIdTooLong max_item_id_length)
      else if contains_any item ''/?#%'' \<or> has_invalid_rune item then Inl (ItemIdCharacters item)
      else Inr ())"

definition validate_dismissal_target :: "string \<Rightarrow> string \<Rightarrow> hub_invalid + unit" where
  "validate_dismissal_target kind item =
     (if \<not> valid_item_kind kind then Inl (UnknownItemKind kind)
      else if kind = kind_schedule then Inl ScheduleDismissed
      else validate_item_id item)"

definition parse_dismissal_id :: "string \<Rightarrow> hub_invalid + string \<times> string" where
  "parse_dismissal_id text' =
     (case cut_at (CHR '':'') text' of
        None \<Rightarrow> Inl (DismissalForm text')
      | Some (kind, item) \<Rightarrow>
          (case validate_dismissal_target kind item of
             Inl e \<Rightarrow> Inl e
           | Inr _ \<Rightarrow> Inr (kind, item)))"

section \<open>State revisions\<close>

record overview_fleet =
  of_id :: string
  of_running :: bool
  of_goal :: string
  of_plan_id :: string
  of_status :: work_status
  of_progress :: progress
  of_started :: nat
  of_ended :: nat
  of_nodes :: "overview_node list"
  of_location :: location

record overview_run =
  or_id :: string
  or_running :: bool
  or_type :: string
  or_label :: string
  or_status :: work_status
  or_started :: nat
  or_ended :: nat
  or_iterations :: nat
  or_tokens :: int
  or_location :: location
  or_started_by :: string
  or_instructions :: "instruction_use list"

fun status_text :: "work_status \<Rightarrow> string" where
  "status_text Todo = ''todo''"
| "status_text InProgress = ''in-progress''"
| "status_text Paused = ''paused''"
| "status_text WaitingInput = ''waiting-input''"
| "status_text Waiting = ''waiting''"
| "status_text Done = ''done''"
| "status_text Failed = ''failed''"

definition format_bool :: "bool \<Rightarrow> string" where
  "format_bool b = (if b then ''true'' else ''false'')"

definition time_revision :: "(nat \<Rightarrow> string) \<Rightarrow> nat \<Rightarrow> string" where
  "time_revision stamp t = (if t = 0 then [] else stamp t)"

text \<open>What is written to the hash: each part behind its length.\<close>

definition revision_text :: "string list \<Rightarrow> string" where
  "revision_text parts = concat (map (\<lambda>p. itoa (int (length p)) @ '':'' @ p) parts)"

definition run_parts :: "(string \<Rightarrow> string) \<Rightarrow> (nat \<Rightarrow> string) \<Rightarrow> overview_run \<Rightarrow> string list" where
  "run_parts digest stamp r =
     [or_id r, format_bool (or_running r), or_type r, or_label r, status_text (or_status r),
      time_revision stamp (or_started r), time_revision stamp (or_ended r), itoa (int (or_iterations r)),
      itoa (or_tokens r), location_id digest (or_location r)]"

definition node_parts :: "(string \<Rightarrow> string) \<Rightarrow> (nat \<Rightarrow> string) \<Rightarrow> overview_node \<Rightarrow> string list" where
  "node_parts digest stamp n =
     [on_id n, on_prompt n, status_text (on_status n), location_id digest (on_location n), itoa (int (length (on_depends_on n)))] @
     on_depends_on n @
     (case on_execution n of
        None \<Rightarrow> [[]]
      | Some e \<Rightarrow> [ne_workflow e, ne_run e, time_revision stamp (ne_started e), time_revision stamp (ne_ended e),
          itoa (ne_tokens e)])"

definition fleet_parts :: "(string \<Rightarrow> string) \<Rightarrow> (nat \<Rightarrow> string) \<Rightarrow> overview_fleet \<Rightarrow> string list" where
  "fleet_parts digest stamp f =
     [of_id f, format_bool (of_running f), of_goal f, of_plan_id f, status_text (of_status f),
      itoa (int (pg_done (of_progress f))), itoa (int (pg_total (of_progress f))),
      time_revision stamp (of_started f), time_revision stamp (of_ended f), location_id digest (of_location f)] @
     concat (map (node_parts digest stamp) (of_nodes f))"

definition run_revision :: "(string \<Rightarrow> string) \<Rightarrow> (string \<Rightarrow> string) \<Rightarrow> (nat \<Rightarrow> string) \<Rightarrow> overview_run \<Rightarrow> string" where
  "run_revision hash digest stamp r = hash (revision_text (run_parts digest stamp r))"

definition fleet_revision :: "(string \<Rightarrow> string) \<Rightarrow> (string \<Rightarrow> string) \<Rightarrow> (nat \<Rightarrow> string) \<Rightarrow> overview_fleet \<Rightarrow> string" where
  "fleet_revision hash digest stamp f = hash (revision_text (fleet_parts digest stamp f))"

section \<open>From the durable record\<close>

fun outcome_from :: "exec_status \<Rightarrow> outcome_kind" where
  "outcome_from RunningStatus = OutcomeRunning"
| "outcome_from SucceededStatus = OutcomeSucceeded"
| "outcome_from SkippedStatus = OutcomeSkipped"
| "outcome_from FailedStatus = OutcomeFailed"

definition node_outcome_from :: "string \<Rightarrow> outcome_kind" where
  "node_outcome_from s =
     (if s = node_status_text NodeSucceeded then OutcomeSucceeded
      else if s = node_status_text NodeBlocked then OutcomeBlocked
      else if s = node_status_text NodeSkipped then OutcomeSkipped
      else OutcomeFailed)"

definition hub_plan_from :: "fleet_plan \<Rightarrow> string \<Rightarrow> hub_plan" where
  "hub_plan_from decoded stored_goal =
     \<lparr>hp_goal = (if fp_goal decoded = [] then stored_goal else fp_goal decoded),
      hp_nodes = map (\<lambda>n. \<lparr>hn_id = fn_id n, hn_prompt = fn_prompt n, hn_depends_on = fn_depends_on n\<rparr>)
        (fp_nodes decoded)\<rparr>"

definition recorded_outcomes :: "node_outcome list \<Rightarrow> (string \<times> outcome_kind) list" where
  "recorded_outcomes = map (\<lambda>n. (nd_id n, node_outcome_from (nd_status n)))"

text \<open>\<open>nodeExecutions\<close> and \<open>fleetStatus\<close> of \<open>service.go\<close>: the recorded outcomes over the children's.\<close>

definition overlay_outcomes ::
  "(string \<rightharpoonup> outcome_kind) \<Rightarrow> (string \<times> outcome_kind) list \<Rightarrow> string \<rightharpoonup> outcome_kind" where
  "overlay_outcomes children rows =
     foldl (\<lambda>m (n, out). if m n = Some OutcomeRunning then m else m(n \<mapsto> out)) children rows"

definition fleet_status :: "outcome_kind \<Rightarrow> overview_node list \<Rightarrow> work_status" where
  "fleet_status parent nodes =
     (let s = aggregate_status nodes in
      if parent = OutcomeFailed then Failed
      else if parent = OutcomeRunning \<and> s = Done then InProgress
      else s)"

section \<open>The dependency order\<close>

definition placed_before :: "hub_plan \<Rightarrow> string list \<Rightarrow> bool" where
  "placed_before plan order =
     (distinct order \<and> set order \<subseteq> set (hub_ids plan) \<and>
      (\<forall>a n b d. order = a @ n # b \<longrightarrow> d \<in> set (hub_deps plan n) \<longrightarrow> d \<in> set (hub_ids plan) \<longrightarrow> d \<in> set a))"

lemma ready_iff:
  "nid \<in> set (ready_ids plan order) \<longleftrightarrow> nid \<in> set (hub_ids plan) \<and> nid \<notin> set order \<and>
    (\<forall>d \<in> set (hub_deps plan nid). d \<in> set (hub_ids plan) \<longrightarrow> d \<in> set order)"
  by (auto simp: ready_ids_def list_all_iff)

lemma placed_ready:
  assumes "placed_before plan order"
  shows "placed_before plan (order @ ready_ids plan order)"
  unfolding placed_before_def
proof (intro conjI allI impI)
  show "distinct (order @ ready_ids plan order)"
    using assms by (auto simp: placed_before_def ready_iff) (simp add: ready_ids_def)
  show "set (order @ ready_ids plan order) \<subseteq> set (hub_ids plan)"
    using assms by (auto simp: placed_before_def ready_iff)
  fix a n b d
  assume s: "order @ ready_ids plan order = a @ n # b" and d: "d \<in> set (hub_deps plan n)" "d \<in> set (hub_ids plan)"
  show "d \<in> set a"
  proof (cases "length a < length order")
    case True
    then obtain c where c: "order = a @ c" "c \<noteq> []" using s by (auto simp: append_eq_append_conv2)
    then have "c @ ready_ids plan order = n # b" using s by simp
    then obtain c' where "order = a @ n # c'" using c by (cases c) auto
    with assms d show ?thesis unfolding placed_before_def by blast
  next
    case False
    then obtain c where a: "a = order @ c" using s by (auto simp: append_eq_append_conv2)
    then have "n \<in> set (ready_ids plan order)" using s by simp
    with d a show ?thesis by (auto simp: ready_iff)
  qed
qed

lemma order_from_placed:
  "placed_before plan order \<Longrightarrow> placed_before plan (order_from plan order) \<and> ready_ids plan (order_from plan order) = []"
proof (induction plan order rule: order_from.induct)
  case (1 plan order)
  show ?case
  proof (cases "ready_ids plan order")
    case Nil
    then show ?thesis using 1 by (simp add: order_from.simps [of plan order])
  next
    case (Cons r rs)
    then show ?thesis using 1(1) [OF Cons] placed_ready [OF 1(2)] by (simp add: order_from.simps [of plan order])
  qed
qed

lemma dependency_order_placed: "placed_before plan (dependency_order plan)"
  and dependency_order_stuck: "ready_ids plan (dependency_order plan) = []"
  using order_from_placed [of plan "[]"] by (simp_all add: dependency_order_def placed_before_def)

text \<open>What is left out depends on something that is left out.\<close>

lemma left_out:
  assumes "n \<in> set (hub_ids plan)" "n \<notin> set (dependency_order plan)"
  shows "\<exists>d \<in> set (hub_deps plan n). d \<in> set (hub_ids plan) \<and> d \<notin> set (dependency_order plan)"
  using dependency_order_stuck [of plan] ready_iff [of n plan "dependency_order plan"] assms by auto

text \<open>A node that no cycle holds back: all the known nodes it runs after are free themselves.\<close>

inductive free :: "hub_plan \<Rightarrow> string \<Rightarrow> bool" for plan where
  "n \<in> set (hub_ids plan) \<Longrightarrow>
   (\<And>d. d \<in> set (hub_deps plan n) \<Longrightarrow> d \<in> set (hub_ids plan) \<Longrightarrow> free plan d) \<Longrightarrow> free plan n"

lemma free_ordered: "free plan n \<Longrightarrow> n \<in> set (dependency_order plan)"
proof (induction rule: free.induct)
  case (1 n)
  then show ?case using left_out [of n plan] by blast
qed

lemma ordered_free: "dependency_order plan = a @ b \<Longrightarrow> n \<in> set a \<Longrightarrow> free plan n"
proof (induction a arbitrary: b n rule: rev_induct)
  case (snoc m a)
  note p = dependency_order_placed [of plan, unfolded placed_before_def]
  have "free plan m"
  proof (rule free.intros)
    show "m \<in> set (hub_ids plan)" using p snoc.prems(1) by auto
    fix d assume "d \<in> set (hub_deps plan m)" "d \<in> set (hub_ids plan)"
    then have "d \<in> set a" using p snoc.prems(1) by simp
    then show "free plan d" using snoc.IH [of "m # b" d] snoc.prems(1) by simp
  qed
  then show ?case using snoc.IH [of "m # b" n] snoc.prems by auto
qed simp

lemma order_is_free: "n \<in> set (dependency_order plan) \<longleftrightarrow> free plan n"
  using free_ordered ordered_free [of plan "dependency_order plan" "[]"] by auto

section \<open>The derived statuses\<close>

lemma deps_status_cong: "(\<And>d. d \<in> set ds \<Longrightarrow> s d = t d) \<Longrightarrow> deps_status b s ds = deps_status b t ds"
  by (induction ds arbitrary: b) (auto split: option.splits)

lemma known_statuses_at:
  "known_statuses plan outcomes n =
    (if n \<in> set (hub_ids plan) then map_option status_from_outcome (outcomes n) else None)"
proof -
  have "foldl (\<lambda>m n. case outcomes (hn_id n) of None \<Rightarrow> m | Some o' \<Rightarrow> m(hn_id n \<mapsto> status_from_outcome o')) m ns n =
      (if n \<in> hn_id ` set ns \<and> outcomes n \<noteq> None then map_option status_from_outcome (outcomes n) else m n)" for m ns
    by (induction ns arbitrary: m) (auto split: option.splits)
  from this [of Map.empty "hp_nodes plan"] show ?thesis
    by (auto simp: known_statuses_def hub_ids_def)
qed

lemma wait_rest_at:
  "wait_rest plan statuses n =
    (case statuses n of Some s \<Rightarrow> Some s | None \<Rightarrow> if n \<in> set (hub_ids plan) then Some Waiting else None)"
proof -
  have "foldl (\<lambda>m n. case m (hn_id n) of None \<Rightarrow> m(hn_id n \<mapsto> Waiting) | Some s \<Rightarrow> m) m ns n =
      (case m n of Some s \<Rightarrow> Some s | None \<Rightarrow> if n \<in> hn_id ` set ns then Some Waiting else None)" for m ns
    by (induction ns arbitrary: m) (auto split: option.splits)
  from this [of statuses "hp_nodes plan"] show ?thesis by (simp add: wait_rest_def hub_ids_def)
qed

lemma decide_at:
  "decide_node plan s m n = (case s n of Some x \<Rightarrow> Some x
     | None \<Rightarrow> if n = m then Some (status_from_dependencies plan n s) else None)"
  by (auto simp: decide_node_def split: option.splits)

lemma decided:
  assumes "placed_before plan order" "\<And>n. n \<notin> set (hub_ids plan) \<Longrightarrow> known n = None"
  shows "foldl (decide_node plan) known order n =
    (case known n of Some s \<Rightarrow> Some s
     | None \<Rightarrow> if n \<in> set order then Some (status_from_dependencies plan n (foldl (decide_node plan) known order)) else None)"
  using assms(1)
proof (induction order arbitrary: n rule: rev_induct)
  case Nil
  then show ?case by (simp split: option.split)
next
  case (snoc m order)
  let ?s = "foldl (decide_node plan) known order"
  have p: "placed_before plan order"
    using snoc.prems unfolding placed_before_def by (auto simp: append_eq_append_conv2)
  note ih = snoc.IH [OF p]
  have step: "foldl (decide_node plan) known (order @ [m]) = decide_node plan ?s m" by simp
  have keep: "decide_node plan ?s m d = ?s d" if "k \<in> set (order @ [m])" "d \<in> set (hub_deps plan k)" for k d
  proof (cases "d \<in> set (hub_ids plan)")
    case True
    note k = that
    obtain a b where ab: "order @ [m] = a @ k # b" using split_list [OF k(1)] by blast
    then have "d \<in> set a" using snoc.prems k(2) True unfolding placed_before_def by blast
    moreover have "set a \<subseteq> set order" using ab by (cases b rule: rev_cases) auto
    ultimately have "d \<in> set order" by blast
    then have "?s d \<noteq> None" using ih [of d] by (auto split: option.splits)
    then show ?thesis by (auto simp: decide_at)
  next
    case False
    have "d \<noteq> m" using False snoc.prems by (auto simp: placed_before_def)
    then show ?thesis by (auto simp: decide_at split: option.split)
  qed
  have same: "status_from_dependencies plan k (decide_node plan ?s m) = status_from_dependencies plan k ?s"
    if "k \<in> set (order @ [m])" for k
    unfolding status_from_dependencies_def by (rule deps_status_cong) (rule keep [OF that])
  have "m \<notin> set order" using snoc.prems by (simp add: placed_before_def)
  then show ?case
    using ih [of n] same [of n] unfolding step decide_at by (auto split: option.splits)
qed

text \<open>
  The rule a node's status obeys: its own outcome's, or what its dependencies say, or waiting when a
  cycle is in the way.
\<close>

definition solves :: "hub_plan \<Rightarrow> (string \<rightharpoonup> outcome_kind) \<Rightarrow> (string \<rightharpoonup> work_status) \<Rightarrow> bool" where
  "solves plan outcomes T =
     (\<forall>n. T n =
        (if n \<notin> set (hub_ids plan) then None
         else case outcomes n of
           Some o' \<Rightarrow> Some (status_from_outcome o')
         | None \<Rightarrow> if free plan n then Some (status_from_dependencies plan n T) else Some Waiting))"

lemma solves_order:
  "solves plan outcomes T \<longleftrightarrow>
     (\<forall>n. T n =
        (if n \<notin> set (hub_ids plan) then None
         else case outcomes n of
           Some o' \<Rightarrow> Some (status_from_outcome o')
         | None \<Rightarrow>
             if n \<in> set (dependency_order plan) then Some (status_from_dependencies plan n T) else Some Waiting))"
  by (simp add: solves_def order_is_free)

lemma derive_solves: "solves plan outcomes (derive_statuses plan outcomes)"
proof -
  let ?known = "known_statuses plan outcomes" and ?order = "dependency_order plan"
  let ?s = "foldl (decide_node plan) ?known ?order"
  note p = dependency_order_placed [of plan]
  have none: "?known n = None" if "n \<notin> set (hub_ids plan)" for n using that by (simp add: known_statuses_at)
  have at: "?s n = (case ?known n of Some s \<Rightarrow> Some s
     | None \<Rightarrow> if n \<in> set ?order then Some (status_from_dependencies plan n ?s) else None)" for n
    using decided [OF p, of ?known n] none by blast
  have ids: "set ?order \<subseteq> set (hub_ids plan)" using p by (simp add: placed_before_def)
  have deps: "derive_statuses plan outcomes d = ?s d" if "n \<in> set ?order" "d \<in> set (hub_deps plan n)" for n d
  proof (cases "d \<in> set (hub_ids plan)")
    case True
    note k = that
    obtain a b where "?order = a @ n # b" using split_list [OF k(1)] by blast
    with p k(2) True have "d \<in> set ?order" unfolding placed_before_def by auto
    then have "?s d \<noteq> None" using at [of d] by (auto split: option.splits)
    then show ?thesis by (auto simp: derive_statuses_def wait_rest_at)
  next
    case False
    with ids have "?s d = None" using at [of d] none [OF False] by auto
    with False show ?thesis by (simp add: derive_statuses_def wait_rest_at)
  qed
  have same: "status_from_dependencies plan n (derive_statuses plan outcomes) = status_from_dependencies plan n ?s"
    if "n \<in> set ?order" for n
    unfolding status_from_dependencies_def by (rule deps_status_cong) (rule deps [OF that])
  show ?thesis
    unfolding solves_order
  proof
    fix n
    have d: "derive_statuses plan outcomes n = (case ?s n of Some s \<Rightarrow> Some s
        | None \<Rightarrow> if n \<in> set (hub_ids plan) then Some Waiting else None)"
      unfolding derive_statuses_def wait_rest_at ..
    show "derive_statuses plan outcomes n =
        (if n \<notin> set (hub_ids plan) then None
         else case outcomes n of
           Some o' \<Rightarrow> Some (status_from_outcome o')
         | None \<Rightarrow> if n \<in> set ?order then Some (status_from_dependencies plan n (derive_statuses plan outcomes))
             else Some Waiting)"
      using at [of n] same [of n] ids unfolding d by (auto simp: known_statuses_at split: option.splits)
  qed
qed

lemma solves_unique:
  assumes "solves plan outcomes S" "solves plan outcomes T"
  shows "S = T"
proof -
  let ?order = "dependency_order plan"
  have p: "placed_before plan ?order" by (rule dependency_order_placed)
  have ids: "set ?order \<subseteq> set (hub_ids plan)" using p by (simp add: placed_before_def)
  have agree: "\<forall>n \<in> set a. S n = T n" if "?order = a @ b" for a b
    using that
  proof (induction a arbitrary: b rule: rev_induct)
    case (snoc n a)
    then have ih: "\<forall>n \<in> set a. S n = T n" by simp
    have "S d = T d" if "d \<in> set (hub_deps plan n)" for d
    proof (cases "d \<in> set (hub_ids plan)")
      case True
      have "?order = a @ n # b" using snoc.prems by simp
      with p that True have "d \<in> set a" unfolding placed_before_def by blast
      with ih show ?thesis by blast
    next
      case False
      then show ?thesis using assms unfolding solves_order by metis
    qed
    then have "status_from_dependencies plan n S = status_from_dependencies plan n T"
      unfolding status_from_dependencies_def by (rule deps_status_cong)
    moreover have "n \<in> set ?order" using snoc.prems by simp
    ultimately have "S n = T n"
      using assms [unfolded solves_order, THEN spec, of n] ids by (auto split: option.splits)
    with ih show ?case by simp
  qed simp
  show ?thesis
  proof
    fix n
    show "S n = T n"
    proof (cases "n \<in> set ?order")
      case True
      then show ?thesis using agree [of ?order "[]"] by simp
    next
      case False
      then show ?thesis using assms [unfolded solves_order, THEN spec, of n] by (auto split: option.splits)
    qed
  qed
qed

section \<open>Aggregation\<close>

text \<open>How much a status wants an operator, most urgent first.\<close>

fun urgency :: "work_status \<Rightarrow> nat" where
  "urgency Failed = 0"
| "urgency WaitingInput = 1"
| "urgency InProgress = 2"
| "urgency Paused = 3"
| "urgency Todo = 4"
| "urgency Waiting = 5"
| "urgency Done = 6"

lemma urgency_inj [simp]: "urgency a = urgency b \<longleftrightarrow> a = b"
  by (cases a; cases b; simp)

instantiation work_status :: linorder
begin

definition less_eq_work_status :: "work_status \<Rightarrow> work_status \<Rightarrow> bool" where
  "less_eq_work_status a b = (urgency a \<le> urgency b)"

definition less_work_status :: "work_status \<Rightarrow> work_status \<Rightarrow> bool" where
  "less_work_status a b = (urgency a < urgency b)"

instance
  by standard (auto simp: less_eq_work_status_def less_work_status_def)

end

definition most_urgent :: "overview_node list \<Rightarrow> work_status" where
  "most_urgent nodes = Min (on_status ` set nodes)"

lemma count_pos: "count_nodes s nodes > 0 \<longleftrightarrow> s \<in> on_status ` set nodes"
  by (auto simp: count_nodes_def filter_empty_conv)

lemma Min_status: "nodes \<noteq> [] \<Longrightarrow> s \<in> on_status ` set nodes \<Longrightarrow> (\<And>t. t \<in> on_status ` set nodes \<Longrightarrow> s \<le> t) \<Longrightarrow> most_urgent nodes = s"
  unfolding most_urgent_def by (intro Min_eqI) auto

lemma aggregate_most_urgent:
  assumes "nodes \<noteq> []"
  shows "aggregate_status nodes =
    (if most_urgent nodes \<le> Paused \<or> most_urgent nodes = Done then most_urgent nodes
     else if Done \<in> on_status ` set nodes then InProgress else Todo)"
proof -
  let ?S = "on_status ` set nodes"
  have m: "most_urgent nodes \<in> ?S" "\<And>t. t \<in> ?S \<Longrightarrow> most_urgent nodes \<le> t"
    using assms by (auto simp: most_urgent_def)
  have le: "s \<in> ?S \<Longrightarrow> urgency (most_urgent nodes) \<le> urgency s" for s
    using m(2) [of s] by (simp add: less_eq_work_status_def)
  have agg: "aggregate_status nodes =
      (if Failed \<in> ?S then Failed else if WaitingInput \<in> ?S then WaitingInput
       else if InProgress \<in> ?S then InProgress else if Paused \<in> ?S then Paused
       else if ?S \<subseteq> {Done} then Done else if Done \<in> ?S then InProgress else Todo)"
  proof -
    have "Done \<in> ?S \<longleftrightarrow> list_ex (\<lambda>n. on_status n = Done) nodes"
        "?S \<subseteq> {Done} \<longleftrightarrow> \<not> list_ex (\<lambda>n. on_status n \<noteq> Done) nodes"
      unfolding list_ex_iff image_iff by (blast dest: sym, auto simp: image_iff)
    with assms show ?thesis by (simp only: aggregate_status_def count_pos if_False)
  qed
  show ?thesis
  proof (cases "most_urgent nodes")
    case Done
    have "?S \<subseteq> {Done}"
    proof
      fix s assume "s \<in> ?S"
      then show "s \<in> {Done}" using le [of s] Done by (cases s) auto
    qed
    with Done show ?thesis unfolding agg by (auto simp: less_eq_work_status_def)
  qed (use m(1) le [of Failed] le [of WaitingInput] le [of InProgress] le [of Paused] in
      \<open>auto simp: agg less_eq_work_status_def\<close>)
qed

section \<open>Revisions\<close>

lemma cut_length: "cut_at (CHR '':'') (itoa (int n) @ '':'' @ s) = Some (itoa (int n), s)"
proof -
  have "\<not> is_digit (CHR '':'')" by (simp add: is_digit_def)
  then have "CHR '':'' \<notin> set (itoa_nat n)" using itoa_nat_digits by blast
  then show ?thesis by (simp add: itoa_def)
qed

lemma itoa_nat_inj [simp]: "itoa_nat m = itoa_nat n \<longleftrightarrow> m = n"
  by (metis digits_value_itoa_nat)

lemma itoa_inj [simp]: "itoa m = itoa n \<longleftrightarrow> m = n"
proof -
  have "itoa_nat k \<noteq> ''-'' @ r" for k r
  proof
    assume "itoa_nat k = ''-'' @ r"
    then have "is_digit (CHR ''-'')" using itoa_nat_digits [of "CHR ''-''" k] by simp
    then show False by (simp add: is_digit_def)
  qed
  then show ?thesis by (auto simp: itoa_def) (metis append.simps)+
qed

lemma revision_text_inj: "revision_text ps = revision_text qs \<longleftrightarrow> ps = qs"
proof (induction ps arbitrary: qs)
  case Nil
  show ?case by (cases qs) (auto simp: revision_text_def)
next
  case (Cons p ps)
  show ?case
  proof (cases qs)
    case Nil
    then show ?thesis by (simp add: revision_text_def)
  next
    case (Cons q qs')
    have p: "revision_text (x # xs) = itoa (int (length x)) @ '':'' @ (x @ revision_text xs)" for x xs
      by (simp add: revision_text_def)
    have "revision_text (p # ps) = revision_text (q # qs') \<longleftrightarrow> p = q \<and> revision_text ps = revision_text qs'"
    proof
      assume "revision_text (p # ps) = revision_text (q # qs')"
      then have "cut_at (CHR '':'') (itoa (int (length p)) @ '':'' @ (p @ revision_text ps)) =
          cut_at (CHR '':'') (itoa (int (length q)) @ '':'' @ (q @ revision_text qs'))"
        unfolding p by simp
      then show "p = q \<and> revision_text ps = revision_text qs'" unfolding cut_length by (auto simp: append_eq_append_conv)
    qed (simp add: p)
    with Cons.IH [of qs'] Cons show ?thesis by simp
  qed
qed

lemma status_text_inj [simp]: "status_text a = status_text b \<longleftrightarrow> a = b"
  by (cases a; cases b; simp)

lemma format_bool_inj [simp]: "format_bool a = format_bool b \<longleftrightarrow> a = b"
  by (simp add: format_bool_def)

lemma time_revision_inj: "inj stamp \<Longrightarrow> [] \<notin> range stamp \<Longrightarrow> time_revision stamp a = time_revision stamp b \<longleftrightarrow> a = b"
  unfolding time_revision_def inj_def by (metis rangeI)

text \<open>
  The facts of a node that a revision covers: all of them, where a child has a workflow; of a
  place, its identity.
\<close>

definition placeless :: "overview_node \<Rightarrow> overview_node" where
  "placeless n = n\<lparr>on_location := UnknownPlace\<rparr>"

definition node_facts :: "(string \<Rightarrow> string) \<Rightarrow> overview_node \<Rightarrow> overview_node \<times> string" where
  "node_facts digest n = (placeless n, location_id digest (on_location n))"

definition fleet_facts ::
  "(string \<Rightarrow> string) \<Rightarrow> overview_fleet \<Rightarrow> overview_fleet \<times> string \<times> (overview_node \<times> string) list" where
  "fleet_facts digest f =
     (f\<lparr>of_location := UnknownPlace, of_nodes := []\<rparr>, location_id digest (of_location f),
      map (node_facts digest) (of_nodes f))"

lemma node_parts_inj:
  assumes "inj stamp" "[] \<notin> range stamp"
    and "\<forall>e. on_execution n = Some e \<longrightarrow> ne_workflow e \<noteq> []" "\<forall>e. on_execution m = Some e \<longrightarrow> ne_workflow e \<noteq> []"
    and "node_parts digest stamp n @ xs = node_parts digest stamp m @ ys"
  shows "node_facts digest n = node_facts digest m \<and> xs = ys"
proof -
  have h: "on_id n = on_id m" "on_prompt n = on_prompt m" "on_status n = on_status m"
      "location_id digest (on_location n) = location_id digest (on_location m)"
      "length (on_depends_on n) = length (on_depends_on m)"
    using assms(5) by (simp_all add: node_parts_def)
  then have t: "on_depends_on n = on_depends_on m"
      "(case on_execution n of None \<Rightarrow> [[]] | Some e \<Rightarrow> [ne_workflow e, ne_run e, time_revision stamp (ne_started e),
          time_revision stamp (ne_ended e), itoa (ne_tokens e)]) @ xs =
       (case on_execution m of None \<Rightarrow> [[]] | Some e \<Rightarrow> [ne_workflow e, ne_run e, time_revision stamp (ne_started e),
          time_revision stamp (ne_ended e), itoa (ne_tokens e)]) @ ys"
    using assms(5) by (auto simp: node_parts_def append_eq_append_conv)
  then have "on_execution n = on_execution m \<and> xs = ys"
    using assms(3,4) time_revision_inj [OF assms(1,2)]
    by (cases "on_execution n"; cases "on_execution m") (auto intro: node_execution.equality)
  with h t show ?thesis by (auto simp: node_facts_def placeless_def intro: overview_node.equality)
qed

definition evidenced :: "overview_fleet \<Rightarrow> bool" where
  "evidenced f = (\<forall>n \<in> set (of_nodes f). \<forall>e. on_execution n = Some e \<longrightarrow> ne_workflow e \<noteq> [])"

lemma nodes_parts_inj:
  assumes "inj stamp" "[] \<notin> range stamp"
    and "\<forall>n \<in> set ns \<union> set ms. \<forall>e. on_execution n = Some e \<longrightarrow> ne_workflow e \<noteq> []"
    and "concat (map (node_parts digest stamp) ns) = concat (map (node_parts digest stamp) ms)"
  shows "map (node_facts digest) ns = map (node_facts digest) ms"
  using assms(3,4)
proof (induction ns arbitrary: ms)
  case Nil
  then show ?case by (cases ms) (auto simp: node_parts_def)
next
  case (Cons n ns)
  then obtain m ms' where ms: "ms = m # ms'" by (cases ms) (auto simp: node_parts_def)
  have "node_facts digest n = node_facts digest m \<and>
      concat (map (node_parts digest stamp) ns) = concat (map (node_parts digest stamp) ms')"
    by (rule node_parts_inj [OF assms(1,2)]) (use Cons.prems ms in auto)
  with Cons.IH [of ms'] Cons.prems(1) ms show ?case by auto
qed

section \<open>The statuses of a fleet's nodes\<close>

lemma hub_plan_ids: "hub_ids (hub_plan_from plan goal) = plan_ids plan"
  by (simp add: hub_ids_def hub_plan_from_def comp_def)

lemma hub_plan_deps: "hub_deps (hub_plan_from plan goal) n = deps_of plan n"
proof -
  have "map_option hn_depends_on (foldl (\<lambda>m n. m(hn_id n \<mapsto> n)) m (map (\<lambda>n.
        \<lparr>hn_id = fn_id n, hn_prompt = fn_prompt n, hn_depends_on = fn_depends_on n\<rparr>) ns) k) =
      foldl (\<lambda>m n. m(fn_id n \<mapsto> fn_depends_on n)) m' ns k"
    if "map_option hn_depends_on (m k) = m' k" for m m' k and ns :: "fleet_node list"
    using that
  proof (induction ns arbitrary: m m')
    case (Cons a ns)
    let ?b = "\<lparr>hn_id = fn_id a, hn_prompt = fn_prompt a, hn_depends_on = fn_depends_on a\<rparr>"
    show ?case
      using Cons.IH [of "m(hn_id ?b \<mapsto> ?b)" "m'(fn_id a \<mapsto> fn_depends_on a)"] Cons.prems by simp
  qed simp
  from this [of Map.empty n Map.empty "fp_nodes plan"]
  show ?thesis
    by (auto simp: hub_deps_def hub_node_of_def hub_plan_from_def deps_of_def deps_map_def lookup_or_def
        split: option.splits)
qed

fun shown :: "node_status \<Rightarrow> work_status" where
  "shown NodeSucceeded = Done"
| "shown NodeFailed = Failed"
| "shown NodeBlocked = WaitingInput"
| "shown NodeSkipped = Paused"

lemma shown_outcome: "status_from_outcome (node_outcome_from (node_status_text s)) = shown s"
  by (cases s) (simp_all add: node_outcome_from_def)

lemma overlay_at:
  assumes "distinct (map fst rows)"
  shows "overlay_outcomes children rows n =
    (if children n = Some OutcomeRunning then Some OutcomeRunning
     else case map_of rows n of Some out \<Rightarrow> Some out | None \<Rightarrow> children n)"
  using assms
proof (induction rows arbitrary: children)
  case (Cons a rows)
  obtain k out where a: "a = (k, out)" by fastforce
  have "map_of rows k = None" using Cons.prems a by (auto simp: map_of_eq_None_iff image_iff)
  then show ?case
    using Cons.IH [of "if children k = Some OutcomeRunning then children else children(k \<mapsto> out)"] Cons.prems a
    by (auto simp: overlay_outcomes_def split: option.splits)
qed (simp add: overlay_outcomes_def)

text \<open>What is known of a fleet's nodes agrees with how they ended; a node still running may end anyhow.\<close>

definition agrees :: "(string \<rightharpoonup> outcome_kind) \<Rightarrow> node_result list \<Rightarrow> bool" where
  "agrees outcomes nodes =
     (\<forall>n out. outcomes n = Some out \<longrightarrow> out = OutcomeRunning \<or>
        (\<exists>r \<in> set nodes. nr_id r = n \<and> out = node_outcome_from (node_status_text (nr_status r))))"

lemma deps_status_paused:
  "deps_status b s ds = Paused \<Longrightarrow> \<exists>d \<in> set ds. \<exists>x. s d = Some x \<and> x \<in> {Failed, Paused, WaitingInput}"
  by (induction ds arbitrary: b) (auto split: option.splits if_splits)

lemma deps_status_range: "deps_status b T ds \<in> {Todo, Waiting, Paused}"
  by (induction ds arbitrary: b) (auto split: option.splits)

lemma same_id:
  "accounted env i l nodes \<Longrightarrow> r \<in> set nodes \<Longrightarrow> q \<in> set nodes \<Longrightarrow> nr_id r = nr_id q \<Longrightarrow> r = q"
  unfolding accounted_def by (metis distinct_map inj_on_eq_iff)

abbreviation stuck_statuses :: "work_status set" where
  "stuck_statuses \<equiv> {Failed, Paused, WaitingInput}"

lemma own_verdict:
  assumes "agrees outcomes nodes" "outcomes n = Some out" "solves plan outcomes T" "T n = Some s" "s \<in> stuck_statuses"
  shows "\<exists>r \<in> set nodes. nr_id r = n \<and> nr_status r \<noteq> NodeSucceeded"
proof -
  have s: "s = status_from_outcome out"
    using assms(3) [unfolded solves_order, THEN spec, of n] assms(2,4) by (auto split: if_splits)
  then have "out \<noteq> OutcomeRunning" using assms(5) by auto
  then obtain r where r: "r \<in> set nodes" "nr_id r = n" "out = node_outcome_from (node_status_text (nr_status r))"
    using assms(1,2) unfolding agrees_def by blast
  have "s = shown (nr_status r)" unfolding s r(3) by (rule shown_outcome)
  then have "nr_status r \<noteq> NodeSucceeded" using assms(5) by auto
  with r show ?thesis by blast
qed

lemma behind_is_skipped:
  assumes acc: "accounted env i l nodes" and n: "n \<in> set (plan_ids (fi_plan i))"
    and d: "d \<in> set (deps_of (fi_plan i) n)"
    and rd: "rd \<in> set nodes" "nr_id rd = d" "nr_status rd \<noteq> NodeSucceeded"
  shows "\<exists>r \<in> set nodes. nr_id r = n \<and> nr_status r = NodeSkipped"
proof -
  have "n \<in> nr_id ` set nodes" using acc n unfolding accounted_def set_map by blast
  then obtain r where r: "r \<in> set nodes" "nr_id r = n" by blast
  have ok: "verdict_ok env i l nodes r" using acc r(1) by (simp add: accounted_def list_all_iff)
  have "\<not> (\<exists>q \<in> set nodes. nr_id q = d \<and> nr_status q = NodeSucceeded)"
  proof
    assume "\<exists>q \<in> set nodes. nr_id q = d \<and> nr_status q = NodeSucceeded"
    then obtain q where q: "q \<in> set nodes" "nr_id q = d" "nr_status q = NodeSucceeded" by blast
    have "q = rd" by (rule same_id [OF acc q(1) rd(1)]) (simp add: q(2) rd(2))
    with q(3) rd(3) show False by simp
  qed
  with d have "\<not> (\<forall>d \<in> set (deps_of (fi_plan i) (nr_id r)). \<exists>q \<in> set nodes. nr_id q = d \<and> nr_status q = NodeSucceeded)"
    unfolding r(2) by blast
  with ok obtain e where "r = skipped_result (nr_id r) e" unfolding verdict_ok_def Let_def by blast
  then have "nr_status r = NodeSkipped" by (metis verdict_fields(3))
  with r show ?thesis by blast
qed

lemma never_succeeds:
  assumes acc: "accounted env i l nodes" and ag: "agrees outcomes nodes"
    and "derive_statuses (hub_plan_from (fi_plan i) goal) outcomes n = Some s" "s \<in> stuck_statuses"
  shows "\<exists>r \<in> set nodes. nr_id r = n \<and> nr_status r \<noteq> NodeSucceeded \<and> (outcomes n = None \<longrightarrow> nr_status r = NodeSkipped)"
proof -
  let ?plan = "hub_plan_from (fi_plan i) goal"
  define D where "D = derive_statuses ?plan outcomes"
  define ended where "ended k \<longleftrightarrow> (\<exists>r \<in> set nodes. nr_id r = k \<and> nr_status r \<noteq> NodeSucceeded \<and>
      (outcomes k = None \<longrightarrow> nr_status r = NodeSkipped))" for k
  let ?order = "dependency_order ?plan"
  have sol: "solves ?plan outcomes D" unfolding D_def by (rule derive_solves)
  note at = sol [unfolded solves_order, THEN spec]
  have own: "ended k" if "outcomes k = Some out" "D k = Some x" "x \<in> stuck_statuses" for k out x
    using own_verdict [OF ag that(1) sol that(2,3)] that(1) unfolding ended_def by auto
  have "ended k" if "?order = a @ k # b" "D k = Some x" "x \<in> stuck_statuses" for a k b x
    using that
  proof (induction "length a" arbitrary: a k b x rule: less_induct)
    case less
    show ?case
    proof (cases "outcomes k")
      case (Some out)
      from own [OF this less.prems(2,3)] show ?thesis .
    next
      case None
      have k: "k \<in> set ?order" "k \<in> set (hub_ids ?plan)"
        using less.prems(1) dependency_order_placed [of ?plan] unfolding placed_before_def by auto
      then have "x = deps_status True D (hub_deps ?plan k)"
        using at [of k] less.prems(2) None by (simp add: status_from_dependencies_def)
      then have "deps_status True D (hub_deps ?plan k) = Paused"
        using less.prems(3) deps_status_range [of True D "hub_deps ?plan k"] by auto
      from deps_status_paused [OF this] obtain d y where d: "d \<in> set (hub_deps ?plan k)" "D d = Some y"
          "y \<in> stuck_statuses" by blast
      have "d \<in> set (hub_ids ?plan)" using at [of d] d(2) by (auto split: if_splits)
      then have "d \<in> set a"
        using d(1) dependency_order_placed [of ?plan] less.prems(1) unfolding placed_before_def by blast
      then obtain a1 a2 where a: "a = a1 @ d # a2" by (meson split_list)
      have "ended d"
        by (rule less.hyps [of a1 d "a2 @ k # b" y]) (use a less.prems(1) d in simp_all)
      then obtain rd where "rd \<in> set nodes" "nr_id rd = d" "nr_status rd \<noteq> NodeSucceeded"
        unfolding ended_def by blast
      from behind_is_skipped [OF acc _ _ this, of k] k(2) d(1)
      obtain r where "r \<in> set nodes" "nr_id r = k" "nr_status r = NodeSkipped"
        unfolding hub_plan_ids hub_plan_deps by blast
      then show ?thesis unfolding ended_def by auto
    qed
  qed
  moreover have "n \<in> set ?order \<or> outcomes n \<noteq> None"
    using at [of n] assms(3,4) unfolding D_def [symmetric] by (cases "outcomes n") (auto split: if_splits)
  ultimately have "ended n"
    using own [of n _ s] assms(3,4) unfolding D_def [symmetric] by (meson not_None_eq split_list)
  then show ?thesis unfolding ended_def .
qed

section \<open>Samples\<close>

definition sample_fleet :: overview_fleet where
  "sample_fleet =
     \<lparr>of_id = ''fleet-1'', of_running = True, of_goal = ''g'', of_plan_id = ''p'', of_status = InProgress,
      of_progress = \<lparr>pg_done = 0, pg_total = 1\<rparr>, of_started = 3, of_ended = 0,
      of_nodes = [\<lparr>on_id = ''a'', on_prompt = ''do'', on_depends_on = [], on_status = InProgress,
        on_execution = Some \<lparr>ne_workflow = ''fleet-1-a'', ne_run = ''r'', ne_started = 4, ne_ended = 0, ne_tokens = 0\<rparr>,
        on_location = UnknownPlace\<rparr>],
      of_location = UnknownPlace\<rparr>"

text \<open>Two nodes in a row, the first of which failed.\<close>

definition sample_pair :: fleet_input where
  "sample_pair = demo_fleet\<lparr>fi_plan :=
     \<lparr>fp_goal = ''g'', fp_nodes =
       [\<lparr>fn_id = ''a'', fn_prompt = ''p'', fn_depends_on = []\<rparr>,
        \<lparr>fn_id = ''b'', fn_prompt = ''q'', fn_depends_on = [''a'']\<rparr>]\<rparr>\<rparr>"

definition sample_results :: "node_result list" where
  "sample_results =
     [\<lparr>nr_id = ''a'', nr_status = NodeFailed, nr_detail = [], nr_tokens = 0\<rparr>, skipped_result ''b'' ''a'']"

definition sample_log :: "fleet_ev list" where
  "sample_log = [FlStart ''f-a'' (node_input sample_pair ''f'' [] ''a''), FlDone ''f-a'' (Inl (CallOther []))]"

lemma sample_accounted: "accounted demo_fleet_env sample_pair sample_log sample_results"
proof -
  have "plan_ids (fi_plan sample_pair) = [''a'', ''b'']" "deps_of (fi_plan sample_pair) ''b'' = [''a'']"
      "deps_of (fi_plan sample_pair) ''a'' = []" "wi_workflow_id (fe_info demo_fleet_env) = ''f''"
      "fe_error_text demo_fleet_env = (\<lambda>_. [])"
    by (simp_all add: sample_pair_def deps_of_def deps_map_def lookup_or_def demo_fleet_env_def)
  then show ?thesis
    by (auto simp: accounted_def verdict_ok_def sample_results_def sample_log_def node_child_def starts_def
        node_verdict_def Let_def intro!: exI [of _ "Inl (CallOther [])"])
qed

section \<open>Properties\<close>

text \<open>
  C21: The statuses of a plan's nodes are exactly the solution of their rule, and there is only one:
  a node has its own outcome's status; without one it is paused behind a prerequisite that failed,
  paused or waits for a human, todo when all of them are done and waiting otherwise; and a node on
  or behind a cycle is waiting.  So one pass in dependency order gives what repeating the rule
  until nothing changes would.
\<close>

theorem derivation_is_the_solution:
  "solves plan outcomes T \<longleftrightarrow> T = derive_statuses plan outcomes"
  using derive_solves [of plan outcomes] solves_unique [of plan outcomes T "derive_statuses plan outcomes"] by blast

text \<open>
  A fleet's status is that of its most urgent node, in the order failed, needs a human, in
  progress, paused; when none of these occurs it is done if every node is, in progress if some
  are, and todo otherwise.  It depends on which statuses occur, not on the order of the nodes.
\<close>

theorem fleet_status_is_most_urgent:
  "aggregate_status nodes =
    (if nodes = [] then Todo
     else if most_urgent nodes \<le> Paused \<or> most_urgent nodes = Done then most_urgent nodes
     else if Done \<in> on_status ` set nodes then InProgress else Todo)"
  using aggregate_most_urgent [of nodes] by (auto simp: aggregate_status_def)

text \<open>
  A dismissal's identifier is read back as the kind and the item it was made of, for every
  dismissible item, even one with a colon in its name; and nothing else is accepted.
\<close>

theorem dismissal_id_round_trip:
  "parse_dismissal_id text' = Inr (kind, item) \<longleftrightarrow>
    validate_dismissal_target kind item = Inr () \<and>
    (\<exists>d. ds_kind d = kind \<and> ds_item d = item \<and> text' = dismissal_id d)"
proof -
  have colon: "CHR '':'' \<notin> set kind" if "validate_dismissal_target kind item = Inr ()"
    using that by (auto simp: validate_dismissal_target_def valid_item_kind_def item_kinds_def kind_fleet_def
        kind_run_def kind_schedule_def split: if_splits)
  have "(\<exists>d. ds_kind d = kind \<and> ds_item d = item \<and> text' = dismissal_id d) \<longleftrightarrow> text' = kind @ '':'' @ item"
    unfolding dismissal_id_def by (metis dismissal.select_convs(2,3))
  moreover have "parse_dismissal_id text' = Inr (kind, item) \<longleftrightarrow>
      cut_at (CHR '':'') text' = Some (kind, item) \<and> validate_dismissal_target kind item = Inr ()"
    by (auto simp: parse_dismissal_id_def split: option.splits sum.splits)
  ultimately show ?thesis using colon by (auto simp: cut_at_Some)
qed

text \<open>
  A dismissal cannot hide new work: two fleets with the same revision are the same in every
  fact the overview shows of them, down to each node's child, provided the digest and the times'
  rendering do not collide.
\<close>

theorem same_revision_same_fleet:
  assumes "fleet_revision hash digest stamp f = fleet_revision hash digest stamp g"
    and "inj hash" "inj stamp" "[] \<notin> range stamp" "evidenced f" "evidenced g"
  shows "fleet_facts digest f = fleet_facts digest g"
proof -
  have "fleet_parts digest stamp f = fleet_parts digest stamp g"
    using assms(1,2) by (simp add: fleet_revision_def inj_eq revision_text_inj)
  then have p: "of_id f = of_id g" "of_running f = of_running g" "of_goal f = of_goal g"
      "of_plan_id f = of_plan_id g" "of_status f = of_status g" "of_progress f = of_progress g"
      "of_started f = of_started g" "of_ended f = of_ended g"
      "location_id digest (of_location f) = location_id digest (of_location g)"
      "concat (map (node_parts digest stamp) (of_nodes f)) = concat (map (node_parts digest stamp) (of_nodes g))"
    using time_revision_inj [OF assms(3,4)] by (auto simp: fleet_parts_def intro: progress.equality)
  have "map (node_facts digest) (of_nodes f) = map (node_facts digest) (of_nodes g)"
    by (rule nodes_parts_inj [OF assms(3,4) _ p(10)]) (use assms(5,6) in \<open>auto simp: evidenced_def\<close>)
  with p show ?thesis by (auto simp: fleet_facts_def intro: overview_fleet.equality)
qed

theorem same_revision_same_fleet_witness:
  "fleet_revision (\<lambda>x. x) (\<lambda>x. x) (\<lambda>t. CHR ''t'' # itoa (int t)) sample_fleet \<noteq>
   fleet_revision (\<lambda>x. x) (\<lambda>x. x) (\<lambda>t. CHR ''t'' # itoa (int t))
     (sample_fleet\<lparr>of_nodes := map (\<lambda>n. n\<lparr>on_status := Done\<rparr>) (of_nodes sample_fleet)\<rparr>)"
proof
  let ?g = "sample_fleet\<lparr>of_nodes := map (\<lambda>n. n\<lparr>on_status := Done\<rparr>) (of_nodes sample_fleet)\<rparr>"
  assume "fleet_revision (\<lambda>x. x) (\<lambda>x. x) (\<lambda>t. CHR ''t'' # itoa (int t)) sample_fleet =
    fleet_revision (\<lambda>x. x) (\<lambda>x. x) (\<lambda>t. CHR ''t'' # itoa (int t)) ?g"
  then have "fleet_facts (\<lambda>x. x) sample_fleet = fleet_facts (\<lambda>x. x) ?g"
    by (rule same_revision_same_fleet) (auto simp: inj_def evidenced_def sample_fleet_def)
  then show False by (simp add: sample_fleet_def fleet_facts_def node_facts_def placeless_def)
qed

text \<open>
  A node shown as paused while its fleet runs never runs: from outcomes that agree with how the
  fleet ends, as far as they are known, a node without an outcome of its own that is derived as
  paused ends as skipped.
\<close>

theorem paused_node_is_skipped:
  assumes "accounted env i l nodes" "agrees outcomes nodes"
    and "derive_statuses (hub_plan_from (fi_plan i) goal) outcomes n = Some Paused" "outcomes n = None"
  shows "\<exists>r \<in> set nodes. nr_id r = n \<and> nr_status r = NodeSkipped"
  using never_succeeds [OF assms(1,2,3)] assms(4) by auto

theorem paused_node_is_skipped_witness:
  "derive_statuses (hub_plan_from (fi_plan sample_pair) []) [''a'' \<mapsto> OutcomeFailed] ''b'' = Some Paused \<and>
   (\<exists>r \<in> set sample_results. nr_id r = ''b'' \<and> nr_status r = NodeSkipped)"
proof
  show p: "derive_statuses (hub_plan_from (fi_plan sample_pair) []) [''a'' \<mapsto> OutcomeFailed] ''b'' = Some Paused"
    by code_simp
  have "agrees [''a'' \<mapsto> OutcomeFailed] sample_results"
    by (simp add: agrees_def sample_results_def node_outcome_from_def)
  from paused_node_is_skipped [OF sample_accounted this p]
  show "\<exists>r \<in> set sample_results. nr_id r = ''b'' \<and> nr_status r = NodeSkipped" by simp
qed

text \<open>
  A finished fleet is shown as it ended: once none of its children runs any more, every node's
  derived status is the one its recorded verdict stands for, whatever its child's execution alone
  says.
\<close>

theorem finished_fleet_is_shown:
  assumes "accounted env i l nodes" "\<forall>n. children n \<noteq> Some OutcomeRunning" "r \<in> set nodes"
  shows "derive_statuses (hub_plan_from (fi_plan i) goal)
     (overlay_outcomes children (recorded_outcomes (node_outcomes nodes))) (nr_id r) = Some (shown (nr_status r))"
proof -
  let ?rec = "recorded_outcomes (node_outcomes nodes)"
  have ids: "map fst ?rec = map nr_id nodes" by (simp add: recorded_outcomes_def node_outcomes_def comp_def)
  have d: "distinct (map fst ?rec)" using assms(1) unfolding ids accounted_def by blast
  have "(nr_id r, node_outcome_from (node_status_text (nr_status r))) \<in> set ?rec"
    using assms(3) by (force simp: recorded_outcomes_def node_outcomes_def)
  then have "map_of ?rec (nr_id r) = Some (node_outcome_from (node_status_text (nr_status r)))"
    using d by simp
  then have "overlay_outcomes children ?rec (nr_id r) = Some (node_outcome_from (node_status_text (nr_status r)))"
    using overlay_at [OF d, of children "nr_id r"] assms(2) by simp
  moreover have "nr_id r \<in> set (hub_ids (hub_plan_from (fi_plan i) goal))"
    using assms(1,3) unfolding accounted_def hub_plan_ids set_map by blast
  ultimately show ?thesis
    using derive_solves [of "hub_plan_from (fi_plan i) goal" "overlay_outcomes children ?rec", unfolded solves_order,
      THEN spec, of "nr_id r"] shown_outcome by simp
qed

theorem finished_fleet_is_shown_witness:
  "derive_statuses (hub_plan_from (fi_plan sample_pair) [])
     (overlay_outcomes [''a'' \<mapsto> OutcomeSucceeded] (recorded_outcomes (node_outcomes sample_results))) ''a'' =
   Some Failed"
  using finished_fleet_is_shown [OF sample_accounted, of "[''a'' \<mapsto> OutcomeSucceeded]" "hd sample_results" "[]"]
  by (simp add: sample_results_def)

end
