(* ===== verification/Work_Ids.thy ===== *)
theory Work_Ids
  imports Fleet_Run
begin

text \<open>
  The naming of workflows (\<open>wfid/wfid.go\<close>): what an identifier says the work is, the identifiers
  of a fleet's nodes, and the identifier a request is given.

  The two functions of the UUID library are parameters: \<open>is_uuid\<close>, whether a text parses as one,
  and \<open>uuid_of\<close>, the text of the UUID a request's bytes are hashed to in the fixed namespace.
  Temporal's classes are strings in the code; \<open>NoClass\<close> is the empty one.
\<close>

datatype work_class =
    ClassRun | ClassDevelop | ClassReview | ClassPilot | ClassOpenPR | ClassFleet | ClassFleetNode
  | ClassFleetPlan | ClassSchedule | ClassSteering | NoClass

fun class_text :: "work_class \<Rightarrow> string" where
  "class_text ClassRun = ''run''"
| "class_text ClassDevelop = ''develop''"
| "class_text ClassReview = ''review''"
| "class_text ClassPilot = ''pilot''"
| "class_text ClassOpenPR = ''open-pr''"
| "class_text ClassFleet = ''fleet''"
| "class_text ClassFleetNode = ''fleet-node''"
| "class_text ClassFleetPlan = ''fleet-plan''"
| "class_text ClassSchedule = ''schedule''"
| "class_text ClassSteering = ''steering''"
| "class_text NoClass = []"

definition fleet_plan_prefix :: string where "fleet_plan_prefix = ''fleet-plan-''"
definition fleet_prefix :: string where "fleet_prefix = ''fleet-''"
definition develop_prefix :: string where "develop_prefix = ''develop-''"
definition review_prefix :: string where "review_prefix = ''review-''"
definition pilot_prefix :: string where "pilot_prefix = ''pilot-''"
definition open_pr_prefix :: string where "open_pr_prefix = ''open-pr-''"
definition schedule_prefix :: string where "schedule_prefix = ''schedule-''"
definition steering_prefix :: string where "steering_prefix = ''steering-''"

lemmas prefix_defs =
  fleet_plan_prefix_def fleet_prefix_def develop_prefix_def review_prefix_def pilot_prefix_def
  open_pr_prefix_def schedule_prefix_def steering_prefix_def

definition classify :: "(string \<Rightarrow> bool) \<Rightarrow> string \<Rightarrow> work_class" where
  "classify is_uuid wid =
     (if has_prefix wid fleet_plan_prefix then ClassFleetPlan
      else if has_prefix wid fleet_prefix then
        (if is_uuid (trim_prefix wid fleet_prefix) then ClassFleet else ClassFleetNode)
      else if has_prefix wid develop_prefix then ClassDevelop
      else if has_prefix wid review_prefix then ClassReview
      else if has_prefix wid pilot_prefix then ClassPilot
      else if has_prefix wid open_pr_prefix then ClassOpenPR
      else if has_prefix wid schedule_prefix then ClassSchedule
      else if has_prefix wid steering_prefix then ClassSteering
      else ClassRun)"

definition fleet_node_workflow_id :: "string \<Rightarrow> string \<Rightarrow> string" where
  "fleet_node_workflow_id fid nid = fid @ ''-'' @ nid"

definition fleet_node_id :: "string \<Rightarrow> string \<Rightarrow> string option" where
  "fleet_node_id fid wid =
     (if fid = [] \<or> \<not> has_prefix wid (fid @ ''-'') then None
      else (let nid = trim_prefix wid (fid @ ''-'') in if nid = [] then None else Some nid))"

definition steering_workflow_id :: "string \<Rightarrow> string" where
  "steering_workflow_id run = steering_prefix @ run"

fun prefix_of :: "work_class \<Rightarrow> string option" where
  "prefix_of ClassDevelop = Some develop_prefix"
| "prefix_of ClassReview = Some review_prefix"
| "prefix_of ClassPilot = Some pilot_prefix"
| "prefix_of _ = None"

definition for_request :: "(string \<Rightarrow> string) \<Rightarrow> work_class \<Rightarrow> string \<Rightarrow> string option" where
  "for_request uuid_of cls request =
     (case prefix_of cls of
        None \<Rightarrow> None
      | Some p \<Rightarrow>
          if request = [] then None
          else Some (p @ uuid_of (class_text cls @ [CHR 0x00] @ request)))"

section \<open>Facts\<close>

lemma node_child_is_convention: "node_child fid nid = fleet_node_workflow_id fid nid"
  by (simp add: node_child_def fleet_node_workflow_id_def)

lemma fleet_node_id_Some:
  "fleet_node_id fid wid = Some nid \<longleftrightarrow> fid \<noteq> [] \<and> nid \<noteq> [] \<and> wid = fleet_node_workflow_id fid nid"
  by (auto simp: fleet_node_id_def fleet_node_workflow_id_def Let_def has_prefix_iff trim_prefix_def
      strip_prefix_append split: if_splits)
    (metis append_Cons append_Nil append_assoc strip_prefix_append option.simps(5))+

lemma for_request_Some:
  "for_request uuid_of cls request = Some wid \<longleftrightarrow>
     (\<exists>p. prefix_of cls = Some p \<and> request \<noteq> [] \<and> wid = p @ uuid_of (class_text cls @ [CHR 0x00] @ request))"
  by (auto simp: for_request_def split: option.splits)

lemma classify_for_request:
  assumes "for_request uuid_of cls request = Some wid"
  shows "classify is_uuid wid = cls"
  using assms
  by (cases cls) (auto simp: for_request_Some classify_def has_prefix_def prefix_defs)

lemma for_request_inj:
  assumes "inj uuid_of" "for_request uuid_of cls request = Some wid" "for_request uuid_of cls' request' = Some wid"
  shows "cls = cls' \<and> request = request'"
proof -
  have "cls = cls'" using classify_for_request [OF assms(2), of "\<lambda>_. True"] classify_for_request [OF assms(3), of "\<lambda>_. True"] by simp
  with assms show ?thesis by (auto simp: for_request_Some inj_eq)
qed

section \<open>Properties\<close>



end
