(* ===== verification/Hub_Records.thy ===== *)
theory Hub_Records
  imports Work_Status Work_Ids
begin

text \<open>
  The overview's read ports (\<open>agenthub/ports.go\<close>) and their adapter on the durable record
  (\<open>agenthub/hubrecords/hubrecords.go\<close>).

  The adapter translates records, chains, trees and plans of the store into the overview's own
  types and splits what was required from what fits the page.  It runs on the tables of
  \<open>Exec_Store\<close>.  The opaque cursor is the store's; the JSON decoder of a plan's document and the
  UUID parser are parameters.  \<open>InstructionUse\<close> has the same fields on both sides and is one type.
\<close>

section \<open>The types of the ports\<close>

record hub_execution =
  he_workflow :: string
  he_run :: string
  he_first_run :: string
  he_class :: work_class
  he_outcome :: outcome_kind
  he_label :: string
  he_started :: nat
  he_ended :: nat
  he_tokens :: int
  he_schedule :: string
  he_parent :: string
  he_detached :: bool
  he_plan :: string
  he_nodes :: "(string \<times> outcome_kind) list"
  he_instructions :: "instruction_use list"
  he_place :: recorded_place
  he_waiting :: nat

definition hub_running :: "hub_execution \<Rightarrow> bool" where
  "hub_running e = (he_outcome e = OutcomeRunning)"

definition hub_status :: "hub_execution \<Rightarrow> work_status" where
  "hub_status e =
     (if he_outcome e = OutcomeRunning \<and> he_waiting e \<noteq> 0 then WaitingInput else status_from_outcome (he_outcome e))"

record hub_chain =
  hc_latest :: hub_execution
  hc_started :: nat
  hc_iterations :: nat
  hc_tokens :: int

record hub_tree =
  ht_chain :: hub_chain
  ht_executions :: "hub_execution list"

record 'a hub_page =
  hg_items :: "'a list"
  hg_required :: "'a list"
  hg_next :: chain_cursor

record chain_query =
  cq_workflow :: string
  cq_required :: "string list"
  cq_excluded :: "string list"
  cq_limit :: int
  cq_cursor :: chain_cursor

record record_query =
  rq_class :: work_class
  rq_workflow :: string
  rq_schedule :: string
  rq_limit :: int

section \<open>Translation\<close>

definition hub_execution_from :: "(string \<Rightarrow> bool) \<Rightarrow> execution \<Rightarrow> hub_execution" where
  "hub_execution_from is_uuid r =
     \<lparr>he_workflow = ex_workflow r, he_run = ex_run r, he_first_run = ex_first_run r,
      he_class = classify is_uuid (ex_workflow r), he_outcome = outcome_from (ex_status r),
      he_label = ex_prompt r, he_started = ex_started r, he_ended = ex_ended r, he_tokens = ex_tokens r,
      he_schedule = ex_schedule r, he_parent = ex_parent r, he_detached = ed_detached (ex_detail r),
      he_plan = ed_plan_id (ex_detail r), he_nodes = recorded_outcomes (ed_nodes (ex_detail r)),
      he_instructions = ed_instructions (ex_detail r),
      he_place = \<lparr>rp_directory = ed_directory (ex_detail r), rp_repository = ed_repository (ex_detail r), rp_ref = []\<rparr>,
      he_waiting = (case ed_waiting_since (ex_detail r) of None \<Rightarrow> 0 | Some t \<Rightarrow> t)\<rparr>"

definition hub_chain_from :: "(string \<Rightarrow> bool) \<Rightarrow> exec_chain \<Rightarrow> hub_chain" where
  "hub_chain_from is_uuid c =
     \<lparr>hc_latest = hub_execution_from is_uuid (ch_latest c), hc_started = ch_started c,
      hc_iterations = ch_iterations c, hc_tokens = ch_tokens c\<rparr>"

definition hub_tree_from :: "(string \<Rightarrow> bool) \<Rightarrow> exec_tree \<Rightarrow> hub_tree" where
  "hub_tree_from is_uuid t =
     \<lparr>ht_chain = hub_chain_from is_uuid (tr_chain t),
      ht_executions = map (hub_execution_from is_uuid) (tr_executions t)\<rparr>"

fun kind_for :: "work_class \<Rightarrow> string" where
  "kind_for ClassRun = ''run''"
| "kind_for ClassDevelop = ''develop''"
| "kind_for ClassFleetNode = ''develop''"
| "kind_for ClassReview = ''review''"
| "kind_for ClassPilot = ''pilot''"
| "kind_for ClassFleet = ''fleet''"
| "kind_for ClassFleetPlan = ''fleet-plan''"
| "kind_for ClassSteering = ''steering''"
| "kind_for _ = []"

definition default_hub_limit :: int where "default_hub_limit = 25"

definition split_required :: "'a list \<Rightarrow> int \<Rightarrow> 'a list \<times> 'a list" where
  "split_required selected limit =
     (let n = nat (if limit \<le> 0 then default_hub_limit else limit) in
      if length selected \<le> n then (selected, []) else (take n selected, drop n selected))"

section \<open>The adapter\<close>

definition recorded_executions ::
  "(string \<Rightarrow> bool) \<Rightarrow> exec_fault option \<Rightarrow> record_query \<Rightarrow> exec_row list \<Rightarrow> exec_error + hub_execution list" where
  "recorded_executions is_uuid f q db =
     map_sum id (map (hub_execution_from is_uuid))
       (list_executions f \<lparr>xf_kind = kind_for (rq_class q), xf_workflow = rq_workflow q,
          xf_schedule = rq_schedule q, xf_limit = rq_limit q\<rparr> db)"

definition query_filter :: "string list \<Rightarrow> chain_query \<Rightarrow> chain_filter" where
  "query_filter ks q =
     \<lparr>cf_kinds = ks, cf_workflow = cq_workflow q, cf_required = cq_required q, cf_excluded = cq_excluded q,
      cf_limit = cq_limit q, cf_cursor = cq_cursor q\<rparr>"

definition page_of :: "chain_query \<Rightarrow> 'a list \<Rightarrow> chain_cursor \<Rightarrow> 'a hub_page" where
  "page_of q selected cursor =
     (let (items, required) = split_required selected (cq_limit q) in
      \<lparr>hg_items = items, hg_required = required, hg_next = cursor\<rparr>)"

definition run_kinds :: "string list" where
  "run_kinds = [''run'', ''develop'', ''review'', ''pilot'', ''fleet-plan'']"

definition run_chain_page ::
  "(string \<Rightarrow> bool) \<Rightarrow> exec_fault option \<Rightarrow> chain_query \<Rightarrow> exec_row list \<Rightarrow> exec_error + hub_chain hub_page" where
  "run_chain_page is_uuid f q db =
     map_sum id (\<lambda>(chains, cursor). page_of q (map (hub_chain_from is_uuid) chains) cursor)
       (list_chain_page f (query_filter run_kinds q) db)"

definition fleet_tree_page ::
  "(string \<Rightarrow> bool) \<Rightarrow> exec_fault option \<Rightarrow> chain_query \<Rightarrow> exec_row list \<Rightarrow> exec_error + hub_tree hub_page" where
  "fleet_tree_page is_uuid f q db =
     map_sum id (\<lambda>(trees, cursor). page_of q (map (hub_tree_from is_uuid) trees) cursor)
       (list_tree_page f (query_filter [''fleet''] q) db)"

definition schedule_action_chains ::
  "(string \<Rightarrow> bool) \<Rightarrow> exec_fault option \<Rightarrow> string list \<Rightarrow> int \<Rightarrow> exec_row list \<Rightarrow>
   exec_error + (string \<rightharpoonup> hub_chain list)" where
  "schedule_action_chains is_uuid f sids limit db =
     map_sum id (\<lambda>m sid. map_option (map (hub_chain_from is_uuid)) (m sid)) (list_schedule_actions f sids limit db)"

text \<open>\<open>planFrom\<close>: \<open>PlanUndecodable\<close> carries the decoder's text.\<close>

datatype plan_error_kind = PlanStore exec_error | PlanUndecodable string string | NoPlan

definition plan_from :: "plan_decoder \<Rightarrow> stored_plan \<Rightarrow> plan_error_kind + hub_plan" where
  "plan_from decode stored =
     (case decode (sp_document stored) of
        Inl e \<Rightarrow> Inl (PlanUndecodable (sp_id stored) e)
      | Inr decoded \<Rightarrow> Inr (hub_plan_from decoded (sp_goal stored)))"

text \<open>A reference is a fleet and its plan's handle; plans that are not stored are left out.\<close>

fun plans_into ::
  "plan_decoder \<Rightarrow> (string \<rightharpoonup> stored_plan) \<Rightarrow> (string \<times> string) list \<Rightarrow> (string \<rightharpoonup> hub_plan) \<Rightarrow>
   plan_error_kind + (string \<rightharpoonup> hub_plan)" where
  "plans_into decode stored [] out = Inr out"
| "plans_into decode stored ((fid, pid) # refs) out =
     (case stored pid of
        None \<Rightarrow> plans_into decode stored refs out
      | Some p \<Rightarrow> rbind (plan_from decode p) (\<lambda>plan. plans_into decode stored refs (out(fid \<mapsto> plan))))"

definition hub_plans ::
  "plan_decoder \<Rightarrow> exec_fault option \<Rightarrow> (string \<times> string) list \<Rightarrow> plan_row list \<Rightarrow>
   plan_error_kind + (string \<rightharpoonup> hub_plan)" where
  "hub_plans decode f refs db =
     (case find_plans f (filter (\<lambda>p. p \<noteq> []) (map snd refs)) db of
        Inl e \<Rightarrow> Inl (PlanStore e)
      | Inr stored \<Rightarrow> plans_into decode stored refs Map.empty)"

definition plan_for ::
  "plan_decoder \<Rightarrow> exec_fault option \<Rightarrow> exec_fault option \<Rightarrow> string \<Rightarrow> exec_row list \<Rightarrow> plan_row list \<Rightarrow>
   plan_error_kind + hub_plan" where
  "plan_for decode f g fid db plans =
     (if fid = [] then Inl NoPlan
      else case list_executions f \<lparr>xf_kind = ''fleet'', xf_workflow = fid, xf_schedule = [], xf_limit = 1\<rparr> db of
        Inl e \<Rightarrow> Inl (PlanStore e)
      | Inr records \<Rightarrow>
          (case find (\<lambda>r. ex_workflow r = fid \<and> ed_plan_id (ex_detail r) \<noteq> []) records of
             None \<Rightarrow> Inl NoPlan
           | Some r \<Rightarrow>
               (case find_plan g (ed_plan_id (ex_detail r)) plans of
                  Inl (NoSuchPlan _) \<Rightarrow> Inl NoPlan
                | Inl e \<Rightarrow> Inl (PlanStore e)
                | Inr stored \<Rightarrow> plan_from decode stored)))"

section \<open>What a page holds\<close>

lemma split_required_append:
  "split_required xs limit = (items, required) \<Longrightarrow> items @ required = xs"
  by (auto simp: split_required_def Let_def split: if_splits)

lemma page_of_items:
  "hg_items (page_of q xs c) @ hg_required (page_of q xs c) = xs" "hg_next (page_of q xs c) = c"
  using split_required_append [of xs "cq_limit q"] by (auto simp: page_of_def split: prod.splits)

lemma plans_into_at:
  "plans_into decode stored refs out = Inr m \<Longrightarrow> m fid = Some plan \<Longrightarrow>
   out fid = Some plan \<or> (\<exists>pid p. (fid, pid) \<in> set refs \<and> stored pid = Some p \<and> plan_from decode p = Inr plan)"
proof (induction decode stored refs out rule: plans_into.induct)
  case (2 decode stored f pid refs out)
  show ?case
  proof (cases "stored pid")
    case None
    then show ?thesis using 2(1) [OF None] 2(3,4) by auto
  next
    case (Some p)
    with 2(3) obtain q where q: "plan_from decode p = Inr q" "plans_into decode stored refs (out(f \<mapsto> q)) = Inr m"
      by (auto simp: rbind_eq_Inr)
    from 2(2) [OF Some q(2) 2(4)] show ?thesis using Some q(1) by (cases "fid = f") auto
  qed
qed simp

end
