(* ===== verification/Hub_Store.thy ===== *)
theory Hub_Store
  imports Hub_Records
begin

text \<open>
  The hub's own tables (\<open>agenthub/hubpg/hubpg.go\<close>): the dismissals of each viewer, the places an
  operator registered, and what was started from the hub.

  A table is a list of rows in insertion order, with the uniqueness its primary key gives as an
  invariant.  A statement is run with a \<open>write_fault\<close>: it is applied, refused, or applied with its
  answer lost.  A row of \<open>registered_places\<close> has no column for a ref and a row of \<open>launches\<close> has
  only the directory of its place, so what is read back is the stored form.
\<close>

record registration =
  rg_place :: recorded_place
  rg_at :: nat
  rg_by :: string

record launch =
  la_request :: string
  la_workflow :: string
  la_kind :: string
  la_place :: recorded_place
  la_prompt :: string
  la_at :: nat
  la_by :: string

record hub_db =
  hd_dismissals :: "dismissal list"
  hd_places :: "registration list"
  hd_launches :: "launch list"

datatype store_error = StoreDown string exec_fault | NoSuchItem

definition returning ::
  "write_fault \<Rightarrow> string \<Rightarrow> (hub_db \<Rightarrow> (store_error + 'a) \<times> hub_db) \<Rightarrow> hub_db \<Rightarrow> (store_error + 'a) \<times> hub_db" where
  "returning w what stmt db =
     (case w of
        Applied \<Rightarrow> stmt db
      | Refused f \<Rightarrow> (Inl (StoreDown what f), db)
      | Lost f \<Rightarrow> (Inl (StoreDown what f), snd (stmt db)))"

section \<open>Dismissals\<close>

definition same_dismissal :: "dismissal \<Rightarrow> dismissal \<Rightarrow> bool" where
  "same_dismissal a b = (ds_viewer a = ds_viewer b \<and> ds_kind a = ds_kind b \<and> ds_item a = ds_item b)"

definition redismissed :: "dismissal \<Rightarrow> dismissal \<Rightarrow> dismissal" where
  "redismissed d old =
     old\<lparr>ds_revision := ds_revision d,
         ds_at := (if ds_revision old = ds_revision d then ds_at old else ds_at d)\<rparr>"

fun upsert_dismissal :: "dismissal \<Rightarrow> dismissal list \<Rightarrow> dismissal \<times> dismissal list" where
  "upsert_dismissal d [] = (d, [d])"
| "upsert_dismissal d (r # rs) =
     (if same_dismissal d r then (redismissed d r, redismissed d r # rs)
      else map_prod id (\<lambda>rows. r # rows) (upsert_dismissal d rs))"

definition dismissed_earlier :: "dismissal \<Rightarrow> dismissal \<Rightarrow> bool" where
  "dismissed_earlier a b =
     (ds_at a > ds_at b \<or>
      ds_at a = ds_at b \<and> (ds_kind a < ds_kind b \<or> ds_kind a = ds_kind b \<and> ds_item a < ds_item b))"

definition pg_dismissals :: "write_fault \<Rightarrow> string \<Rightarrow> hub_db \<Rightarrow> (store_error + dismissal list) \<times> hub_db" where
  "pg_dismissals w viewer =
     returning w ''read the dismissals'' (\<lambda>db.
       (Inr (order_by dismissed_earlier (filter (\<lambda>d. ds_viewer d = viewer) (hd_dismissals db))), db))"

definition pg_dismiss :: "write_fault \<Rightarrow> dismissal \<Rightarrow> hub_db \<Rightarrow> (store_error + dismissal) \<times> hub_db" where
  "pg_dismiss w d =
     returning w ''record the dismissal'' (\<lambda>db.
       (case upsert_dismissal d (hd_dismissals db) of (stored, rows) \<Rightarrow> (Inr stored, db\<lparr>hd_dismissals := rows\<rparr>)))"

definition pg_undismiss :: "write_fault \<Rightarrow> string \<Rightarrow> string \<Rightarrow> string \<Rightarrow> hub_db \<Rightarrow> (store_error + unit) \<times> hub_db" where
  "pg_undismiss w viewer kind item =
     returning w ''remove the dismissal'' (\<lambda>db.
       (let hit = (\<lambda>d. ds_viewer d = viewer \<and> ds_kind d = kind \<and> ds_item d = item) in
        (if list_ex hit (hd_dismissals db) then Inr () else Inl NoSuchItem,
         db\<lparr>hd_dismissals := filter (\<lambda>d. \<not> hit d) (hd_dismissals db)\<rparr>)))"

section \<open>Rows that the first write decides\<close>

text \<open>\<open>ON CONFLICT ... DO UPDATE\<close> of the key to itself: the row that is there is returned as it is.\<close>

definition first_row :: "('a \<Rightarrow> 'k) \<Rightarrow> 'a \<Rightarrow> 'a list \<Rightarrow> 'a \<times> 'a list" where
  "first_row key x rows =
     (case find (\<lambda>r. key r = key x) rows of Some r \<Rightarrow> (r, rows) | None \<Rightarrow> (x, rows @ [x]))"

definition registration_key :: "registration \<Rightarrow> string" where
  "registration_key g = rp_directory (rg_place g)"

definition registration_row :: "registration \<Rightarrow> registration" where
  "registration_row g = g\<lparr>rg_place := (rg_place g)\<lparr>rp_ref := []\<rparr>\<rparr>"

definition pg_registrations :: "write_fault \<Rightarrow> hub_db \<Rightarrow> (store_error + registration list) \<times> hub_db" where
  "pg_registrations w =
     returning w ''read the registered places'' (\<lambda>db. (Inr (sort_key registration_key (hd_places db)), db))"

definition pg_register :: "write_fault \<Rightarrow> registration \<Rightarrow> hub_db \<Rightarrow> (store_error + registration) \<times> hub_db" where
  "pg_register w g =
     returning w ''register the place'' (\<lambda>db.
       (case first_row registration_key (registration_row g) (hd_places db) of
          (stored, rows) \<Rightarrow> (Inr stored, db\<lparr>hd_places := rows\<rparr>)))"

definition launch_row :: "launch \<Rightarrow> launch" where
  "launch_row l = l\<lparr>la_place := \<lparr>rp_directory = rp_directory (la_place l), rp_repository = [], rp_ref = []\<rparr>\<rparr>"

text \<open>A second request for one execution breaks the unique index on \<open>workflow_id\<close>.\<close>

definition duplicate_key :: exec_fault where
  "duplicate_key = OtherFault ''23505''"

definition pg_launch :: "write_fault \<Rightarrow> launch \<Rightarrow> hub_db \<Rightarrow> (store_error + launch) \<times> hub_db" where
  "pg_launch w l =
     returning w ''record the start'' (\<lambda>db.
       if list_ex (\<lambda>r. la_workflow r = la_workflow l \<and> la_request r \<noteq> la_request l) (hd_launches db) \<and>
          \<not> list_ex (\<lambda>r. la_request r = la_request l) (hd_launches db)
       then (Inl (StoreDown ''record the start'' duplicate_key), db)
       else (case first_row la_request (launch_row l) (hd_launches db) of
               (stored, rows) \<Rightarrow> (Inr stored, db\<lparr>hd_launches := rows\<rparr>)))"

definition pg_launch_of :: "write_fault \<Rightarrow> string \<Rightarrow> hub_db \<Rightarrow> (store_error + launch) \<times> hub_db" where
  "pg_launch_of w request =
     returning w ''read what this request started'' (\<lambda>db.
       (case find (\<lambda>r. la_request r = request) (hd_launches db) of None \<Rightarrow> Inl NoSuchItem | Some r \<Rightarrow> Inr r, db))"

definition pg_launch_of_run :: "write_fault \<Rightarrow> string \<Rightarrow> hub_db \<Rightarrow> (store_error + launch) \<times> hub_db" where
  "pg_launch_of_run w wid =
     returning w ''read what started this run'' (\<lambda>db.
       (case find (\<lambda>r. la_workflow r = wid) (hd_launches db) of None \<Rightarrow> Inl NoSuchItem | Some r \<Rightarrow> Inr r, db))"

section \<open>What the tables keep\<close>

definition hub_db_ok :: "hub_db \<Rightarrow> bool" where
  "hub_db_ok db =
     (distinct (map (\<lambda>d. (ds_viewer d, ds_kind d, ds_item d)) (hd_dismissals db)) \<and>
      (\<forall>d \<in> set (hd_dismissals db). ds_kind d \<in> {kind_fleet, kind_run}) \<and>
      distinct (map registration_key (hd_places db)) \<and>
      distinct (map la_request (hd_launches db)) \<and> distinct (map la_workflow (hd_launches db)))"

text \<open>
  A port that remembers the first write under a key: a write is answered with the row that is
  there from then on, and rows that are there stay.
\<close>

locale first_write =
  fixes put :: "'a \<Rightarrow> 'db \<Rightarrow> ('e + 'a) \<times> 'db"
    and row_at :: "'db \<Rightarrow> 'k \<rightharpoonup> 'a"
    and key :: "'a \<Rightarrow> 'k"
  assumes answers: "put x db = (Inr y, db') \<Longrightarrow> row_at db' (key x) = Some y"
    and keeps: "put x db = (r, db') \<Longrightarrow> row_at db k = Some y \<Longrightarrow> row_at db' k = Some y"
begin

fun puts :: "'a list \<Rightarrow> 'db \<Rightarrow> 'db" where
  "puts [] db = db"
| "puts (x # xs) db = puts xs (snd (put x db))"

lemma puts_keep: "row_at db k = Some y \<Longrightarrow> row_at (puts xs db) k = Some y"
proof (induction xs arbitrary: db)
  case (Cons x xs)
  from keeps [OF prod.collapse [symmetric] Cons.prems] Cons.IH show ?case by simp
qed simp

lemma first_write_stays:
  assumes "put x db = (Inr y, db')" "put x' (puts xs db') = (Inr z, db'')" "key x' = key x"
  shows "z = y"
proof -
  have "row_at (puts xs db') (key x) = Some y" using puts_keep [OF answers [OF assms(1)]] .
  from keeps [OF assms(2) this] answers [OF assms(2)] assms(3) show ?thesis by simp
qed

end

lemma first_row_find:
  assumes "first_row key x rows = (y, rows')"
  shows "find (\<lambda>r. key r = key x) rows' = Some y"
    and "find (\<lambda>r. key r = k) rows = Some z \<Longrightarrow> find (\<lambda>r. key r = k) rows' = Some z"
  using assms by (auto simp: first_row_def find_append split: option.splits)

lemma registration_row_key [simp]: "registration_key (registration_row g) = registration_key g"
  by (simp add: registration_key_def registration_row_def)

lemma launch_row_simps [simp]:
  "la_request (launch_row l) = la_request l" "la_workflow (launch_row l) = la_workflow l"
  by (simp_all add: launch_row_def)

interpretation places: first_write "pg_register w" "\<lambda>db k. find (\<lambda>r. registration_key r = k) (hd_places db)" registration_key
  for w
proof
  fix g y db db' assume "pg_register w g db = (Inr y, db')"
  then show "find (\<lambda>r. registration_key r = registration_key g) (hd_places db') = Some y"
    using first_row_find(1) [of registration_key "registration_row g" "hd_places db"]
    by (auto simp: pg_register_def returning_def split: write_fault.splits prod.splits)
next
  fix g r db db' k y
  assume "pg_register w g db = (r, db')" "find (\<lambda>r. registration_key r = k) (hd_places db) = Some y"
  then show "find (\<lambda>r. registration_key r = k) (hd_places db') = Some y"
    using first_row_find(2) [of registration_key "registration_row g" "hd_places db"]
    by (auto simp: pg_register_def returning_def split: write_fault.splits prod.splits)
qed

interpretation launches: first_write "pg_launch w" "\<lambda>db k. find (\<lambda>r. la_request r = k) (hd_launches db)" la_request
  for w
proof
  fix l y db db' assume "pg_launch w l db = (Inr y, db')"
  then show "find (\<lambda>r. la_request r = la_request l) (hd_launches db') = Some y"
    using first_row_find(1) [of la_request "launch_row l" "hd_launches db"]
    by (auto simp: pg_launch_def returning_def split: write_fault.splits prod.splits if_splits)
next
  fix l r db db' k y
  assume "pg_launch w l db = (r, db')" "find (\<lambda>r. la_request r = k) (hd_launches db) = Some y"
  then show "find (\<lambda>r. la_request r = k) (hd_launches db') = Some y"
    using first_row_find(2) [of la_request "launch_row l" "hd_launches db"]
    by (auto simp: pg_launch_def returning_def split: write_fault.splits prod.splits if_splits)
qed

end
