(* ===== verification/Hub_Chains.thy ===== *)
theory Hub_Chains
  imports Hub_Store Workflow_Vars
begin

text \<open>
  How the overview's service finds out what is running (\<open>agenthub/service.go\<close>, the lower half):
  its ports and errors, the limits, the folding of iterations into chains, and the settling of
  what is recorded as running against what the orchestrator says.

  The service reads through its ports: an answer may be anything and may change from call to call
  (\<open>Effects\<close>); its own tables are the state of a body (\<open>Workflow_Vars\<close>), and every statement on
  them meets a fault the environment chooses.  A Go map of executions by workflow is a finite map.
  Go visits a map in any order; the model visits it in the order of the keys, which decides
  nothing but the order of calls for executions that need settling.
\<close>

section \<open>The environment\<close>

datatype port_fault = PortNoExecution | PortInvalid string | PortNoDirectory | PortNotRepository | PortDown string

type_synonym 'a port_answer = "port_fault + 'a"

record start_spec =
  ss_workflow :: string
  ss_kind :: string
  ss_directory :: string
  ss_prompt :: string
  ss_worktree :: bool
  ss_by :: string

record schedule_state =
  sc_id :: string
  sc_spec :: string
  sc_paused :: bool
  sc_running :: int
  sc_last_run :: nat
  sc_next_run :: nat
  sc_last_outcome :: outcome_kind

datatype hub_ev =
    HbRunning int "hub_execution list port_answer"
  | HbRunningPage int string "(hub_execution list \<times> string) port_answer"
  | HbExecution string "hub_execution port_answer"
  | HbExecutions "string list" "(string \<rightharpoonup> hub_execution) port_answer"
  | HbRunChains chain_query "hub_chain hub_page port_answer"
  | HbFleetTrees chain_query "hub_tree hub_page port_answer"
  | HbActions "string list" int "(string \<rightharpoonup> hub_chain list) port_answer"
  | HbPlans "(string \<times> string) list" "(string \<rightharpoonup> hub_plan) port_answer"
  | HbSchedules int "schedule_state list port_answer"
  | HbSchedulePage int string "(schedule_state list \<times> string) port_answer"
  | HbInspect string "recorded_place port_answer"
  | HbStart start_spec "unit port_answer"
  | HbStore write_fault

type_synonym 'a hub_ask = "hub_ev list \<Rightarrow> 'a port_answer"

record hub_env =
  hv_running :: "int \<Rightarrow> hub_execution list hub_ask"
  hv_running_page :: "int \<Rightarrow> string \<Rightarrow> (hub_execution list \<times> string) hub_ask"
  hv_execution :: "string \<Rightarrow> hub_execution hub_ask"
  hv_executions :: "string list \<Rightarrow> (string \<rightharpoonup> hub_execution) hub_ask"
  hv_run_chains :: "chain_query \<Rightarrow> hub_chain hub_page hub_ask"
  hv_fleet_trees :: "chain_query \<Rightarrow> hub_tree hub_page hub_ask"
  hv_actions :: "string list \<Rightarrow> int \<Rightarrow> (string \<rightharpoonup> hub_chain list) hub_ask"
  hv_plans :: "(string \<times> string) list \<Rightarrow> (string \<rightharpoonup> hub_plan) hub_ask"
  hv_schedules :: "int \<Rightarrow> schedule_state list hub_ask"
  hv_schedule_page :: "int \<Rightarrow> string \<Rightarrow> (schedule_state list \<times> string) hub_ask"
  hv_inspect :: "string \<Rightarrow> recorded_place hub_ask"
  hv_start :: "start_spec \<Rightarrow> unit hub_ask"
  hv_store :: "hub_ev list \<Rightarrow> write_fault"
  hv_now :: "hub_ev list \<Rightarrow> nat"
  hv_digest :: "string \<Rightarrow> string"
  hv_hash :: "string \<Rightarrow> string"
  hv_stamp :: "nat \<Rightarrow> string"
  hv_uuid_of :: "string \<Rightarrow> string"

text \<open>
  The errors, one constructor for each the code tells apart.  \<open>HubEndless\<close> is no error of the
  code: it stands for a listing whose pages do not end, which never returns.
\<close>

datatype hub_cause = CausePort port_fault | CauseStore store_error

datatype hub_error =
    HubUnavailable string hub_cause
  | HubItem hub_invalid
  | HubLimitNotPositive
  | HubLimitTooLarge int
  | HubRevisionRequired
  | HubCursorInvalid
  | HubSourceInvalid string
  | HubStateChanged
  | HubNotFound
  | HubBadPlace location_error
  | HubKindNotDismissible string
  | HubRequest string
  | HubNoSuchDirectory
  | HubNotARepository
  | HubNoPlace string
  | HubNoTree string
  | HubPlaceIsBusy string string
  | HubNoConvention string
  | HubEndless

type_synonym 'a hub_eff = "(hub_ev, hub_error, 'a) eff"
type_synonym 'a hub_body = "(hub_ev, hub_db, hub_error, 'a) body"

definition ask :: "string \<Rightarrow> 'a hub_ask \<Rightarrow> ('a port_answer \<Rightarrow> hub_ev) \<Rightarrow> 'a hub_eff" where
  "ask what ans ev = on_error (\<lambda>f. HubUnavailable what (CausePort f)) (perform ans ev)"

lemma wp_ask [wp_rules]:
  "wp (ask what ans ev) Q l \<longleftrightarrow>
   Q (case ans l of Inl f \<Rightarrow> Inl (HubUnavailable what (CausePort f)) | Inr x \<Rightarrow> Inr x) (l @ [ev (ans l)])"
  by (simp add: ask_def wp_rules split: sum.split)

lemma appends_ask [intro!]: "appends (ask what ans ev)"
  unfolding ask_def by auto

text \<open>One statement on the hub's tables.\<close>

definition statement :: "hub_env \<Rightarrow> (write_fault \<Rightarrow> hub_db \<Rightarrow> (store_error + 'a) \<times> hub_db) \<Rightarrow>
   (hub_ev, hub_db, store_error, 'a) body" where
  "statement env stmt db l =
     (let w = hv_store env l in case stmt w db of (r, db') \<Rightarrow> (r, db', l @ [HbStore w]))"

lemma vwp_statement [wp_rules]:
  "vwp (statement env stmt) Q db l \<longleftrightarrow>
   Q (fst (stmt (hv_store env l) db)) (snd (stmt (hv_store env l) db)) (l @ [HbStore (hv_store env l)])"
  by (simp add: vwp_def statement_def Let_def split_def)

lemma vappends_statement [intro!]: "vappends (statement env stmt)"
  by (simp add: vappends_def statement_def Let_def split_def extends_append)

definition stored :: "hub_env \<Rightarrow> string \<Rightarrow> (write_fault \<Rightarrow> hub_db \<Rightarrow> (store_error + 'a) \<times> hub_db) \<Rightarrow> 'a hub_body" where
  "stored env what stmt = vmap_error (\<lambda>e. HubUnavailable what (CauseStore e)) (statement env stmt)"

section \<open>Code that only reads\<close>

text \<open>
  \<open>reads m\<close>: code that appends calls to its log, none of which starts work.  \<open>vreads m\<close>: a body
  that does so and leaves the tables as they are.
\<close>

fun read_event :: "hub_ev \<Rightarrow> bool" where
  "read_event (HbStart _ _) = False"
| "read_event _ = True"

definition reads :: "(hub_ev, 'e, 'a) eff \<Rightarrow> bool" where
  "reads m = (\<forall>l. \<exists>d. snd (m l) = l @ d \<and> list_all read_event d)"

definition vreads :: "(hub_ev, hub_db, 'e, 'a) body \<Rightarrow> bool" where
  "vreads m = (\<forall>db l. \<exists>d. snd (m db l) = (db, l @ d) \<and> list_all read_event d)"

lemma readsE:
  assumes "reads m" "m l = (r, l')"
  obtains d where "l' = l @ d" "list_all read_event d"
  using assms by (metis reads_def snd_conv)

lemma vreadsE:
  assumes "vreads m" "m db l = (r, db', l')"
  obtains d where "db' = db" "l' = l @ d" "list_all read_event d"
  using assms by (metis vreads_def snd_conv prod.inject)

lemma reads_basic [intro!]: "reads (ret x)" "reads (fail e)" "reads (lift r)" "reads (asking f)"
  by (simp_all add: reads_def ret_def fail_def lift_def asking_def)

lemma reads_andthen [intro!]:
  assumes "reads m" and "\<And>x. reads (f x)"
  shows "reads (andthen m f)"
  unfolding reads_def
proof
  fix l
  obtain r l' where m: "m l = (r, l')" by fastforce
  from readsE [OF assms(1) m] obtain d where d: "l' = l @ d" "list_all read_event d" .
  show "\<exists>d. snd (andthen m f l) = l @ d \<and> list_all read_event d"
  proof (cases r)
    case (Inl e)
    then show ?thesis using m d by (simp add: andthen_def)
  next
    case (Inr x)
    obtain r' l'' where f: "f x l' = (r', l'')" by fastforce
    from readsE [OF assms(2) f] obtain d' where "l'' = l' @ d'" "list_all read_event d'" .
    then show ?thesis using m d f Inr by (simp add: andthen_def)
  qed
qed

lemma reads_attempt [intro!]: "reads m \<Longrightarrow> reads (attempt m)"
  unfolding reads_def attempt_def by (simp split: prod.split) (metis snd_conv)

lemma reads_on_error [intro!]: "reads m \<Longrightarrow> reads (on_error g m)"
  unfolding reads_def on_error_def by (auto split: prod.split sum.split) (metis snd_conv)+

lemma reads_perform [intro]: "(\<And>r. read_event (ev r)) \<Longrightarrow> reads (perform ans ev)"
  by (simp add: reads_def perform_def)

lemma reads_ask [intro]: "(\<And>r. read_event (ev r)) \<Longrightarrow> reads (ask what ans ev)"
  unfolding ask_def by (intro reads_on_error reads_perform)

lemma vreads_basic [intro!]: "vreads (vret x)" "vreads (vfail e)"
  by (simp_all add: vreads_def vret_def vfail_def)

lemma vreads_do [intro!]: "reads m \<Longrightarrow> vreads (vdo m)"
  unfolding vreads_def reads_def vdo_def by (simp split: prod.split) (metis snd_conv)

lemma vreads_then [intro!]:
  assumes "vreads m" and "\<And>x. vreads (f x)"
  shows "vreads (vthen m f)"
  unfolding vreads_def
proof (intro allI)
  fix db l
  obtain r db' l' where m: "m db l = (r, db', l')" by (metis prod_cases3)
  from vreadsE [OF assms(1) m] obtain d where d: "db' = db" "l' = l @ d" "list_all read_event d" .
  show "\<exists>d. snd (vthen m f db l) = (db, l @ d) \<and> list_all read_event d"
  proof (cases r)
    case (Inl e)
    then show ?thesis using m d by (simp add: vthen_def)
  next
    case (Inr x)
    obtain r' db'' l'' where f: "f x db' l' = (r', db'', l'')" by (metis prod_cases3)
    from vreadsE [OF assms(2) f] obtain d' where "db'' = db'" "l'' = l' @ d'" "list_all read_event d'" .
    then show ?thesis using m d f Inr by (simp add: vthen_def)
  qed
qed

text \<open>A statement that selects, however it ends.\<close>

lemma vreads_stored [intro]: "(\<And>w db. snd (stmt w db) = db) \<Longrightarrow> vreads (stored env what stmt)"
  unfolding vreads_def stored_def vmap_error_def statement_def Let_def
  by (auto split: prod.split sum.split) (metis snd_conv)+

lemma vreads_look [intro]:
  assumes "\<And>w db. snd (stmt w db) = db"
  shows "vreads (vlook (statement env stmt))"
  unfolding vreads_def vlook_def statement_def Let_def
  using assms by (auto split: prod.split) (metis snd_conv)

lemma selects:
  "snd (pg_dismissals w viewer db) = db" "snd (pg_registrations w db) = db"
  "snd (pg_launch_of w rid db) = db" "snd (pg_launch_of_run w wid db) = db"
  by (auto simp: pg_dismissals_def pg_registrations_def pg_launch_of_def pg_launch_of_run_def returning_def
      split: write_fault.split)

section \<open>Limits\<close>

definition max_hub_limit :: int where "max_hub_limit = 200"
definition schedule_action_sample :: int where "schedule_action_sample = 10"
definition live_limit :: int where "live_limit = 1000"

definition validate_limit :: "int \<Rightarrow> hub_error + int" where
  "validate_limit limit =
     (if limit = 0 then Inr default_hub_limit
      else if limit < 0 then Inl HubLimitNotPositive
      else if limit > max_hub_limit then Inl (HubLimitTooLarge max_hub_limit)
      else Inr limit)"

definition resolve_limit :: "int \<Rightarrow> int" where
  "resolve_limit limit =
     (if limit \<le> 0 then default_hub_limit else if limit > max_hub_limit then max_hub_limit else limit)"

definition collection_page_limit :: "int \<Rightarrow> int \<Rightarrow> int" where
  "collection_page_limit limit dismissed =
     (if dismissed \<ge> max_hub_limit - limit then max_hub_limit else limit + dismissed)"

section \<open>What belongs on the overview\<close>

definition is_fleet :: "hub_execution \<Rightarrow> bool" where
  "is_fleet e = (he_class e = ClassFleet)"

definition run_classes :: "work_class list" where
  "run_classes = [ClassRun, ClassDevelop, ClassReview, ClassPilot, ClassFleetPlan]"

definition is_run_satellite :: "hub_execution \<Rightarrow> bool" where
  "is_run_satellite e =
     (if he_parent e \<noteq> [] \<and> \<not> he_detached e \<or> he_schedule e \<noteq> [] then False
      else he_class e \<in> set run_classes)"

fun run_type :: "work_class \<Rightarrow> string" where
  "run_type ClassDevelop = ''develop''"
| "run_type ClassReview = ''review''"
| "run_type ClassPilot = ''pilot''"
| "run_type ClassFleetPlan = ''fleet-plan''"
| "run_type _ = ''run''"

section \<open>Chains\<close>

type_synonym live_map = "(string, hub_execution) fmap"

record resolved_chain =
  rc_execution :: hub_execution
  rc_iterations :: nat

definition later_run :: "hub_execution \<Rightarrow> hub_execution \<Rightarrow> bool" where
  "later_run candidate current =
     (if he_started candidate \<noteq> he_started current then he_started candidate > he_started current
      else he_run candidate > he_run current)"

definition first_non_empty :: "string \<Rightarrow> string \<Rightarrow> string" where
  "first_non_empty a b = (if a \<noteq> [] then a else b)"

definition earlier_start :: "nat \<Rightarrow> nat \<Rightarrow> nat" where
  "earlier_start started other = (if other \<noteq> 0 \<and> (started = 0 \<or> other < started) then other else started)"

definition merge_two :: "hub_execution \<Rightarrow> hub_execution \<Rightarrow> hub_execution" where
  "merge_two existing e =
     (let (newest, older) = (if later_run e existing then (e, existing) else (existing, e)) in
      newest\<lparr>he_tokens := he_tokens existing + he_tokens e,
        he_started := earlier_start (he_started existing) (he_started e),
        he_label := first_non_empty (he_label newest) (he_label older),
        he_plan := first_non_empty (he_plan newest) (he_plan older),
        he_schedule := first_non_empty (he_schedule newest) (he_schedule older),
        he_parent := first_non_empty (he_parent newest) (he_parent older),
        he_detached := (he_detached newest \<or> he_detached older),
        he_place := (if place_recorded (he_place newest) then he_place newest else he_place older),
        he_nodes := (if he_nodes newest = [] then he_nodes older else he_nodes newest),
        he_instructions := (if he_instructions newest = [] then he_instructions older else he_instructions newest)\<rparr>)"

text \<open>The two maps the code merges into, the chains and their iterations, as one.\<close>

type_synonym chain_map = "(string, resolved_chain) fmap"

definition merge_execution :: "hub_execution \<Rightarrow> chain_map \<Rightarrow> chain_map" where
  "merge_execution e m =
     (case fmlookup m (he_workflow e) of
        None \<Rightarrow> fmupd (he_workflow e) \<lparr>rc_execution = e, rc_iterations = 1\<rparr> m
      | Some c \<Rightarrow> fmupd (he_workflow e)
          \<lparr>rc_execution = merge_two (rc_execution c) e, rc_iterations = rc_iterations c + 1\<rparr> m)"

definition map_values :: "(string, 'a) fmap \<Rightarrow> 'a list" where
  "map_values m = map (\<lambda>k. the (fmlookup m k)) (map_keys m)"

definition add_live :: "(hub_execution \<Rightarrow> bool) \<Rightarrow> live_map \<Rightarrow> chain_map \<Rightarrow> chain_map" where
  "add_live keep live m =
     fold (\<lambda>e m. case fmlookup m (he_workflow e) of None \<Rightarrow> merge_execution e m | Some _ \<Rightarrow> m)
       (filter keep (map_values live)) m"

definition settle_chain :: "hub_env \<Rightarrow> hub_execution \<Rightarrow> hub_execution hub_eff" where
  "settle_chain env e0 =
     andthen (attempt (perform (hv_execution env (he_workflow e0)) (HbExecution (he_workflow e0)))) (\<lambda>r.
       case r of
         Inl PortNoExecution \<Rightarrow> ret (e0\<lparr>he_outcome := OutcomeFailed\<rparr>)
       | Inl f \<Rightarrow> fail (HubUnavailable ''read the execution's live state'' (CausePort f))
       | Inr current \<Rightarrow>
           ret (e0\<lparr>he_outcome := he_outcome current, he_ended := he_ended current,
             he_run := (if he_run current \<noteq> [] then he_run current else he_run e0)\<rparr>))"

text \<open>What the orchestrator says of a chain now.\<close>

definition resolve_one :: "hub_env \<Rightarrow> live_map \<Rightarrow> string \<Rightarrow> resolved_chain \<Rightarrow> resolved_chain hub_eff" where
  "resolve_one env live wid c =
     (let latest = rc_execution c in
      case fmlookup live wid of
        Some current \<Rightarrow>
          ret \<lparr>rc_execution = latest\<lparr>he_outcome := he_outcome current, he_ended := he_ended current,
                 he_run := (if he_run current \<noteq> [] then he_run current else he_run latest)\<rparr>,
               rc_iterations = (if he_run current \<noteq> [] \<and> he_run latest \<noteq> [] \<and> he_run current \<noteq> he_run latest
                 then rc_iterations c + 1 else rc_iterations c)\<rparr>
      | None \<Rightarrow>
          if hub_running latest then
            andthen (settle_chain env latest) (\<lambda>settled. ret (c\<lparr>rc_execution := settled\<rparr>))
          else ret c)"

fun resolve_each :: "hub_env \<Rightarrow> live_map \<Rightarrow> (string \<times> resolved_chain) list \<Rightarrow> resolved_chain list hub_eff" where
  "resolve_each env live [] = ret []"
| "resolve_each env live ((wid, c) # cs) =
     andthen (resolve_one env live wid c) (\<lambda>r. andthen (resolve_each env live cs) (\<lambda>rs. ret (r # rs)))"

definition started_before :: "('a \<Rightarrow> nat) \<Rightarrow> ('a \<Rightarrow> string) \<Rightarrow> 'a \<Rightarrow> 'a \<Rightarrow> bool" where
  "started_before at nm a b = (if at a \<noteq> at b then at a > at b else nm a < nm b)"

definition chain_order :: "resolved_chain list \<Rightarrow> resolved_chain list" where
  "chain_order = order_by (started_before (he_started \<circ> rc_execution) (he_workflow \<circ> rc_execution))"

definition map_entries :: "(string, 'a) fmap \<Rightarrow> (string \<times> 'a) list" where
  "map_entries m = map (\<lambda>k. (k, the (fmlookup m k))) (map_keys m)"

definition resolve_chains ::
  "hub_env \<Rightarrow> hub_execution list \<Rightarrow> live_map \<Rightarrow> (hub_execution \<Rightarrow> bool) \<Rightarrow> resolved_chain list hub_eff" where
  "resolve_chains env known live keep =
     (let m = add_live keep live (fold merge_execution (filter keep known) fmempty) in
      andthen (resolve_each env live (map_entries m)) (\<lambda>cs. ret (chain_order cs)))"

definition chain_entry :: "hub_chain \<Rightarrow> resolved_chain" where
  "chain_entry c =
     \<lparr>rc_execution = (hc_latest c)\<lparr>he_started := hc_started c, he_tokens := hc_tokens c\<rparr>,
      rc_iterations = hc_iterations c\<rparr>"

definition known_chains :: "(hub_execution \<Rightarrow> bool) \<Rightarrow> hub_chain list \<Rightarrow> chain_map" where
  "known_chains keep known =
     fold (\<lambda>c. fmupd (he_workflow (hc_latest c)) (chain_entry c)) (filter (keep \<circ> hc_latest) known) fmempty"

definition resolve_execution_chains ::
  "hub_env \<Rightarrow> hub_chain list \<Rightarrow> live_map \<Rightarrow> (hub_execution \<Rightarrow> bool) \<Rightarrow> resolved_chain list hub_eff" where
  "resolve_execution_chains env known live keep =
     (let m = add_live keep live (known_chains keep known) in
      andthen (resolve_each env live (map_entries m)) (\<lambda>cs. ret (chain_order cs)))"

section \<open>The live state\<close>

definition live_by_workflow :: "hub_env \<Rightarrow> live_map hub_eff" where
  "live_by_workflow env =
     andthen (ask ''list the running executions'' (hv_running env live_limit) (HbRunning live_limit)) (\<lambda>running.
       ret (fold (\<lambda>e. fmupd (he_workflow e) e) running fmempty))"

definition latest_of :: "hub_execution list \<Rightarrow> live_map" where
  "latest_of known =
     fold (\<lambda>e m. case fmlookup m (he_workflow e) of
         None \<Rightarrow> fmupd (he_workflow e) e m
       | Some current \<Rightarrow> if later_run e current then fmupd (he_workflow e) e m else m) known fmempty"

definition add_execution_states :: "hub_env \<Rightarrow> live_map \<Rightarrow> hub_execution list \<Rightarrow> live_map hub_eff" where
  "add_execution_states env states known =
     (let stale = filter (\<lambda>(wid, e). hub_running e \<and> fmlookup states wid = None) (map_entries (latest_of known)) in
      if stale = [] then ret states
      else andthen (ask ''read the executions' live state'' (hv_executions env (map fst stale))
             (HbExecutions (map fst stale))) (\<lambda>found.
        ret (fold (\<lambda>(wid, e). fmupd wid (case found wid of Some x \<Rightarrow> x | None \<Rightarrow> e\<lparr>he_outcome := OutcomeFailed\<rparr>))
          stale states)))"

definition bounded_live ::
  "live_map \<Rightarrow> string set \<Rightarrow> int \<Rightarrow> (hub_execution \<Rightarrow> bool) \<Rightarrow> live_map" where
  "bounded_live live selected limit keep =
     (let ordered = order_by (started_before he_started he_workflow) (filter keep (map_values live)) in
      fold (\<lambda>e. fmupd (he_workflow e) e) (take (nat limit) ordered)
        (fmfilter (\<lambda>k. k \<in> selected) live))"

definition run_from :: "resolved_chain \<Rightarrow> hub_error + overview_run" where
  "run_from c =
     (let e = rc_execution c in
      case recorded_location (he_place e) of
        Inl x \<Rightarrow> Inl (HubBadPlace x)
      | Inr loc \<Rightarrow>
          Inr \<lparr>or_id = he_workflow e, or_running = hub_running e, or_type = run_type (he_class e),
               or_label = he_label e, or_status = hub_status e, or_started = he_started e, or_ended = he_ended e,
               or_iterations = max (rc_iterations c) 1, or_tokens = he_tokens e, or_location = loc,
               or_started_by = [], or_instructions = he_instructions e\<rparr>)"

section \<open>The service's helpers only read\<close>

lemma reads_settle_chain [intro!]: "reads (settle_chain env e)"
  unfolding settle_chain_def by (auto split: sum.split port_fault.split)

lemma reads_resolve_each [intro!]: "reads (resolve_each env live cs)"
  by (induction env live cs rule: resolve_each.induct)
    (auto simp: resolve_one_def Let_def split: option.split)

lemma reads_resolve_chains [intro!]: "reads (resolve_chains env es live keep)"
  unfolding resolve_chains_def Let_def by auto

lemma reads_resolve_execution_chains [intro!]: "reads (resolve_execution_chains env cs live keep)"
  unfolding resolve_execution_chains_def Let_def by auto

lemma reads_live_by_workflow [intro!]: "reads (live_by_workflow env)"
  unfolding live_by_workflow_def by auto

lemma reads_add_execution_states [intro!]: "reads (add_execution_states env states es)"
  unfolding add_execution_states_def Let_def by auto

section \<open>What is running was confirmed\<close>

text \<open>The orchestrator answered with \<open>e\<close> when it was asked about \<open>wid\<close>, or listed it.\<close>

definition said :: "hub_ev list \<Rightarrow> string \<Rightarrow> hub_execution \<Rightarrow> bool" where
  "said l wid e =
     ((\<exists>n es. HbRunning n (Inr es) \<in> set l \<and> e \<in> set es \<and> he_workflow e = wid) \<or>
      (\<exists>ids m. HbExecutions ids (Inr m) \<in> set l \<and> m wid = Some e) \<or> HbExecution wid (Inr e) \<in> set l)"

definition confirmed :: "hub_ev list \<Rightarrow> string \<Rightarrow> bool" where
  "confirmed l wid = (\<exists>k e. said l k e \<and> hub_running e \<and> (k = wid \<or> he_workflow e = wid))"

definition live_ok :: "hub_ev list \<Rightarrow> live_map \<Rightarrow> bool" where
  "live_ok l live =
     (\<forall>k e. fmlookup live k = Some e \<longrightarrow> hub_running e \<longrightarrow> (\<exists>k'. said l k' e \<and> (k' = k \<or> he_workflow e = k)))"

definition chains_ok :: "hub_ev list \<Rightarrow> resolved_chain list \<Rightarrow> bool" where
  "chains_ok l cs =
     (\<forall>c \<in> set cs. hub_running (rc_execution c) \<longrightarrow> confirmed l (he_workflow (rc_execution c)))"

definition keyed :: "chain_map \<Rightarrow> bool" where
  "keyed m = (\<forall>k c. fmlookup m k = Some c \<longrightarrow> he_workflow (rc_execution c) = k)"

lemma said_mono: "said l wid e \<Longrightarrow> said (l @ d) wid e"
  unfolding said_def by auto

lemma confirmed_mono: "confirmed l wid \<Longrightarrow> confirmed (l @ d) wid"
  unfolding confirmed_def using said_mono by blast

lemma live_ok_mono: "live_ok l live \<Longrightarrow> live_ok (l @ d) live"
  unfolding live_ok_def using said_mono by blast

lemma live_ok_at: "live_ok l live \<Longrightarrow> fmlookup live k = Some e \<Longrightarrow> hub_running e \<Longrightarrow> confirmed l k"
  unfolding live_ok_def confirmed_def by blast

lemma fold_fmupd_cases:
  "fmlookup (fold (\<lambda>x. fmupd (f x) (g x)) xs m) k = Some y \<Longrightarrow> (\<exists>x \<in> set xs. f x = k \<and> g x = y) \<or> fmlookup m k = Some y"
  by (induction xs arbitrary: m) (force split: if_splits)+

lemma not_running_failed [simp]: "\<not> hub_running (e\<lparr>he_outcome := OutcomeFailed\<rparr>)"
  by (simp add: hub_running_def)

text \<open>Code that reads runs on and may leave more in the log.\<close>

lemma wp_reads:
  assumes "reads m" "\<And>r d. m l = (r, l @ d) \<Longrightarrow> Q r (l @ d)"
  shows "wp m Q l"
proof -
  obtain r l' where m: "m l = (r, l')" by fastforce
  from readsE [OF assms(1) m] obtain d where "l' = l @ d" .
  with m assms(2) show ?thesis by (simp add: wp_def)
qed

lemma wp_all: "(\<And>r l'. Q r l') \<Longrightarrow> wp m Q l"
  by (simp add: wp_run)

lemma wp_bind:
  assumes "reads m" "wp m (\<lambda>r l'. \<forall>x. r = Inr x \<longrightarrow> P x l') l"
    and "\<And>x d. P x (l @ d) \<Longrightarrow> wp (f x) Q (l @ d)" and "\<And>e d. Q (Inl e) (l @ d)"
  shows "wp (andthen m f) Q l"
  unfolding wp_andthen
proof (rule wp_reads [OF assms(1)])
  fix r d assume "m l = (r, l @ d)"
  with assms(2-4) show "case r of Inl e \<Rightarrow> Q (Inl e) (l @ d) | Inr x \<Rightarrow> wp (f x) Q (l @ d)"
    by (auto simp: wp_def split: sum.split)
qed

lemma live_by_workflow_ok: "wp (live_by_workflow env) (\<lambda>r l'. \<forall>live. r = Inr live \<longrightarrow> live_ok l' live) l"
proof -
  have "live_ok (l @ [HbRunning live_limit (Inr es)]) (fold (\<lambda>e. fmupd (he_workflow e) e) es fmempty)" for es
    unfolding live_ok_def said_def using fold_fmupd_cases [of he_workflow "\<lambda>e. e" es fmempty] by fastforce
  then show ?thesis by (auto simp: live_by_workflow_def wp_rules split: sum.split)
qed

lemma add_execution_states_ok:
  assumes "live_ok l live"
  shows "wp (add_execution_states env live es) (\<lambda>r l'. \<forall>live'. r = Inr live' \<longrightarrow> live_ok l' live') l"
proof -
  define stale where "stale = filter (\<lambda>(wid, e). hub_running e \<and> fmlookup live wid = None) (map_entries (latest_of es))"
  have "live_ok (l @ [HbExecutions ids (Inr found)])
      (fold (\<lambda>(wid, e). fmupd wid (case found wid of Some x \<Rightarrow> x | None \<Rightarrow> e\<lparr>he_outcome := OutcomeFailed\<rparr>)) stale live)"
    for ids found
    unfolding live_ok_def
  proof (intro allI impI)
    fix k e
    assume at: "fmlookup (fold (\<lambda>(wid, e). fmupd wid (case found wid of Some x \<Rightarrow> x | None \<Rightarrow> e\<lparr>he_outcome := OutcomeFailed\<rparr>))
        stale live) k = Some e" and run: "hub_running e"
    from fold_fmupd_cases [of fst "\<lambda>(wid, e). case found wid of Some x \<Rightarrow> x | None \<Rightarrow> e\<lparr>he_outcome := OutcomeFailed\<rparr>" stale live k e] at
    have "(\<exists>p \<in> set stale. fst p = k \<and> (case p of (wid, e) \<Rightarrow> case found wid of Some x \<Rightarrow> x | None \<Rightarrow> e\<lparr>he_outcome := OutcomeFailed\<rparr>) = e)
        \<or> fmlookup live k = Some e" by (simp add: split_def)
    then show "\<exists>k'. said (l @ [HbExecutions ids (Inr found)]) k' e \<and> (k' = k \<or> he_workflow e = k)"
    proof
      assume "fmlookup live k = Some e"
      with assms run show ?thesis unfolding live_ok_def using said_mono by blast
    next
      assume "\<exists>p \<in> set stale. fst p = k \<and> (case p of (wid, e) \<Rightarrow> case found wid of Some x \<Rightarrow> x | None \<Rightarrow> e\<lparr>he_outcome := OutcomeFailed\<rparr>) = e"
      then obtain x where "(case found k of Some y \<Rightarrow> y | None \<Rightarrow> x\<lparr>he_outcome := OutcomeFailed\<rparr>) = e" by auto
      with run have "found k = Some e" by (auto split: option.splits)
      then show ?thesis unfolding said_def by auto
    qed
  qed
  then show ?thesis using assms
    by (auto simp: add_execution_states_def wp_rules Let_def stale_def [symmetric] split: sum.split)
qed

lemma resolve_each_ok:
  assumes "live_ok l live" "\<forall>(k, c) \<in> set cs. he_workflow (rc_execution c) = k"
  shows "wp (resolve_each env live cs) (\<lambda>r l'. \<forall>rs. r = Inr rs \<longrightarrow> chains_ok l' rs) l"
  using assms
proof (induction env live cs arbitrary: l rule: resolve_each.induct)
  case (1 env live)
  then show ?case by (simp add: wp_rules chains_ok_def)
next
  case (2 env live k c cs)
  have one: "wp (resolve_one env live k c) (\<lambda>r l'. \<forall>x. r = Inr x \<longrightarrow> chains_ok l' [x]) l"
    using 2(2,3) live_ok_at [OF 2(2)]
    by (auto simp: resolve_one_def settle_chain_def wp_rules Let_def chains_ok_def hub_running_def confirmed_def
        said_def split: option.split sum.split port_fault.split)
  have read: "reads (resolve_one env live k c)"
    using reads_resolve_each [of env live "[(k, c)]"] by (auto simp: resolve_one_def Let_def split: option.split)
  show ?case
    unfolding resolve_each.simps wp_andthen
  proof (rule wp_reads [OF read])
    fix r d assume m: "resolve_one env live k c l = (r, l @ d)"
    show "case r of Inl e \<Rightarrow> \<forall>rs. Inl e = Inr rs \<longrightarrow> chains_ok (l @ d) rs
      | Inr x \<Rightarrow> wp (resolve_each env live cs) (\<lambda>r l'. case r of Inl e \<Rightarrow> \<forall>rs. Inl e = Inr rs \<longrightarrow> chains_ok l' rs
          | Inr rs \<Rightarrow> wp (ret (x # rs)) (\<lambda>r l'. \<forall>rs. r = Inr rs \<longrightarrow> chains_ok l' rs) l') (l @ d)"
    proof (cases r)
      case (Inr x)
      have here: "chains_ok (l @ d) [x]" using one m Inr by (simp add: wp_def)
      have "wp (resolve_each env live cs) (\<lambda>r l'. \<forall>rs. r = Inr rs \<longrightarrow> chains_ok l' (x # rs)) (l @ d)"
      proof (rule wp_reads [OF reads_resolve_each])
        fix r' d' assume m': "resolve_each env live cs (l @ d) = (r', (l @ d) @ d')"
        have "wp (resolve_each env live cs) (\<lambda>r l'. \<forall>rs. r = Inr rs \<longrightarrow> chains_ok l' rs) (l @ d)"
          using 2(1) [OF live_ok_mono [OF 2(2)]] 2(3) by simp
        with m' here show "\<forall>rs. r' = Inr rs \<longrightarrow> chains_ok ((l @ d) @ d') (x # rs)"
          using confirmed_mono [of "l @ d" _ d'] by (auto simp: wp_def chains_ok_def)
      qed
      then show ?thesis using Inr by (auto simp: wp_def ret_def split: prod.splits sum.splits)
    qed simp
  qed
qed

lemma merge_two_workflow: "he_workflow a = he_workflow b \<Longrightarrow> he_workflow (merge_two a b) = he_workflow a"
  by (simp add: merge_two_def Let_def)

lemma keyed_merge: "keyed m \<Longrightarrow> keyed (merge_execution e m)"
  unfolding keyed_def merge_execution_def by (auto simp: merge_two_workflow split: option.splits)

lemma keyed_fold:
  assumes "\<And>x m. keyed m \<Longrightarrow> keyed (f x m)"
  shows "keyed m \<Longrightarrow> keyed (fold f xs m)"
  using assms by (induction xs arbitrary: m) auto

lemma keyed_empty: "keyed fmempty"
  by (simp add: keyed_def)

lemma keyed_add_live: "keyed m \<Longrightarrow> keyed (add_live keep live m)"
  unfolding add_live_def by (rule keyed_fold) (auto simp: keyed_merge split: option.split)

lemma keyed_known_chains: "keyed (known_chains keep cs)"
  unfolding known_chains_def by (rule keyed_fold [OF _ keyed_empty]) (auto simp: keyed_def chain_entry_def)

lemma map_entries_at: "(k, x) \<in> set (map_entries m) \<Longrightarrow> fmlookup m k = Some x"
  by (auto simp: map_entries_def fmlookup_dom_iff)

interpretation chain_start: before_order "started_before at nm" for at :: "'a \<Rightarrow> nat" and nm
  by unfold_locales (auto simp: started_before_def split: if_splits)

lemma resolve_chains_ok:
  assumes "live_ok l live"
  shows "wp (resolve_chains env es live keep) (\<lambda>r l'. \<forall>cs. r = Inr cs \<longrightarrow> chains_ok l' cs) l"
    and "wp (resolve_execution_chains env known live keep) (\<lambda>r l'. \<forall>cs. r = Inr cs \<longrightarrow> chains_ok l' cs) l"
proof -
  have ok: "wp (andthen (resolve_each env live (map_entries m)) (\<lambda>cs. ret (chain_order cs)))
      (\<lambda>r l'. \<forall>cs. r = Inr cs \<longrightarrow> chains_ok l' cs) l" if "keyed m" for m
  proof -
    have "\<forall>(k, c) \<in> set (map_entries m). he_workflow (rc_execution c) = k"
      using that map_entries_at unfolding keyed_def by fast
    from resolve_each_ok [where env = env, OF assms this] show ?thesis
      by (auto simp: wp_def andthen_def ret_def chains_ok_def chain_order_def split: prod.splits sum.splits)
  qed
  show "wp (resolve_chains env es live keep) (\<lambda>r l'. \<forall>cs. r = Inr cs \<longrightarrow> chains_ok l' cs) l"
    unfolding resolve_chains_def Let_def
    by (intro ok keyed_add_live keyed_fold [OF _ keyed_empty] keyed_merge)
  show "wp (resolve_execution_chains env known live keep) (\<lambda>r l'. \<forall>cs. r = Inr cs \<longrightarrow> chains_ok l' cs) l"
    unfolding resolve_execution_chains_def Let_def by (intro ok keyed_add_live keyed_known_chains)
qed

lemma bounded_live_ok: "live_ok l live \<Longrightarrow> live_ok l (bounded_live live selected limit keep)"
proof -
  assume ok: "live_ok l live"
  have vals: "\<exists>k. fmlookup live k = Some e" if "e \<in> set (map_values live)" for e
    using that by (auto simp: map_values_def fmlookup_dom_iff)
  show ?thesis
    unfolding live_ok_def
  proof (intro allI impI)
    fix k e assume at: "fmlookup (bounded_live live selected limit keep) k = Some e" and run: "hub_running e"
    from fold_fmupd_cases [of he_workflow "\<lambda>e. e", OF at [unfolded bounded_live_def Let_def]]
    consider "e \<in> set (map_values live)" "he_workflow e = k" | "fmlookup live k = Some e"
      by (auto dest: in_set_takeD split: if_splits)
    then show "\<exists>k'. said l k' e \<and> (k' = k \<or> he_workflow e = k)"
    proof cases
      case 1
      with vals ok run show ?thesis unfolding live_ok_def by blast
    next
      case 2
      with ok run show ?thesis unfolding live_ok_def by blast
    qed
  qed
qed

section \<open>Iterations of a chain\<close>

text \<open>What is folded for one workflow.\<close>

definition fold_iteration :: "hub_execution \<Rightarrow> resolved_chain option \<Rightarrow> resolved_chain option" where
  "fold_iteration e c =
     (case c of
        None \<Rightarrow> Some \<lparr>rc_execution = e, rc_iterations = 1\<rparr>
      | Some c \<Rightarrow> Some \<lparr>rc_execution = merge_two (rc_execution c) e, rc_iterations = rc_iterations c + 1\<rparr>)"

lemma merge_execution_at:
  "fmlookup (fold merge_execution es m) wid =
     fold fold_iteration (filter (\<lambda>e. he_workflow e = wid) es) (fmlookup m wid)"
proof (induction es arbitrary: m)
  case (Cons e es)
  have "fmlookup (merge_execution e m) wid =
      (if he_workflow e = wid then fold_iteration e (fmlookup m wid) else fmlookup m wid)"
    by (auto simp: merge_execution_def fold_iteration_def split: option.split)
  then show ?case using Cons by simp
qed simp

lemma merge_two_older:
  assumes "he_started e < he_started x"
  shows "he_run (merge_two x e) = he_run x" "he_outcome (merge_two x e) = he_outcome x"
    "he_ended (merge_two x e) = he_ended x" "he_waiting (merge_two x e) = he_waiting x"
    "he_tokens (merge_two x e) = he_tokens x + he_tokens e"
    "he_started (merge_two x e) = (if he_started e = 0 then he_started x else he_started e)"
  using assms by (simp_all add: merge_two_def later_run_def earlier_start_def Let_def)

lemma fold_iterations:
  assumes "sorted_wrt (\<lambda>a b. he_started a > he_started b) (last_e # es)"
    and "he_started (rc_execution c) = he_started last_e" "rc_execution c = x"
  shows "\<exists>y. fold fold_iteration es (Some c) = Some y \<and> rc_iterations y = rc_iterations c + length es \<and>
    he_tokens (rc_execution y) = he_tokens x + (\<Sum>e \<leftarrow> es. he_tokens e) \<and>
    he_run (rc_execution y) = he_run x \<and> he_outcome (rc_execution y) = he_outcome x \<and>
    he_ended (rc_execution y) = he_ended x \<and> he_waiting (rc_execution y) = he_waiting x \<and>
    he_started (rc_execution y) = (if es = [] then he_started x
      else if he_started (last es) = 0 then he_started (last (butlast (last_e # es))) else he_started (last es))"
  using assms
proof (induction es arbitrary: last_e c x)
  case (Cons e es)
  have older: "he_started e < he_started x" using Cons.prems by simp
  note m = merge_two_older [OF older]
  show ?case
  proof (cases "es = []")
    case True
    with Cons.prems(2,3) m show ?thesis by (simp add: fold_iteration_def)
  next
    case False
    then have "he_started e \<noteq> 0" using Cons.prems(1) by (cases es) auto
    then have "he_started (merge_two x e) = he_started e" using m(6) by simp
    moreover have "fold_iteration e (Some c) = Some \<lparr>rc_execution = merge_two x e, rc_iterations = rc_iterations c + 1\<rparr>"
      using Cons.prems(3) by (simp add: fold_iteration_def)
    moreover have "sorted_wrt (\<lambda>a b. he_started a > he_started b) (e # es)" using Cons.prems(1) by simp
    ultimately obtain y where "fold fold_iteration (e # es) (Some c) = Some y"
        "rc_iterations y = rc_iterations c + 1 + length es"
        "he_tokens (rc_execution y) = he_tokens x + he_tokens e + (\<Sum>e \<leftarrow> es. he_tokens e)"
        "he_run (rc_execution y) = he_run x" "he_outcome (rc_execution y) = he_outcome x"
        "he_ended (rc_execution y) = he_ended x" "he_waiting (rc_execution y) = he_waiting x"
        "he_started (rc_execution y) =
          (if he_started (last es) = 0 then he_started (last (butlast (e # es))) else he_started (last es))"
      using Cons.IH [OF _ _ refl, of e "\<lparr>rc_execution = merge_two x e, rc_iterations = rc_iterations c + 1\<rparr>"]
        m(1-5) False by auto
    moreover have "last (butlast (last_e # e # es)) = last (butlast (e # es))" using False by simp
    ultimately show ?thesis using False by auto
  qed
qed simp

definition iteration :: "string \<Rightarrow> nat \<Rightarrow> int \<Rightarrow> outcome_kind \<Rightarrow> hub_execution" where
  "iteration run at tokens outcome =
     \<lparr>he_workflow = ''w'', he_run = run, he_first_run = ''r1'', he_class = ClassRun,
      he_outcome = outcome, he_label = [], he_started = at, he_ended = at + 1, he_tokens = tokens,
      he_schedule = [], he_parent = [], he_detached = False, he_plan = [], he_nodes = [], he_instructions = [],
      he_place = \<lparr>rp_directory = [], rp_repository = [], rp_ref = []\<rparr>, he_waiting = 0\<rparr>"

section \<open>Properties\<close>

text \<open>
  The iterations of one chain, given newest first as the store lists them, fold into one
  entry: the newest supplies the run, the outcome and whether it waits, the tokens are the sum, the
  iterations are counted, and the start is the earliest known one.
\<close>

theorem iterations_fold_into_one_chain:
  assumes "filter (\<lambda>e. he_workflow e = wid) es = newest # older"
    and "sorted_wrt (\<lambda>a b. he_started a > he_started b) (newest # older)"
  shows "\<exists>c. fmlookup (fold merge_execution es fmempty) wid = Some c \<and> rc_iterations c = length (newest # older) \<and>
    he_tokens (rc_execution c) = (\<Sum>e \<leftarrow> newest # older. he_tokens e) \<and>
    he_run (rc_execution c) = he_run newest \<and> he_outcome (rc_execution c) = he_outcome newest \<and>
    he_ended (rc_execution c) = he_ended newest \<and> he_waiting (rc_execution c) = he_waiting newest \<and>
    (\<forall>e \<in> set (newest # older). he_started e \<noteq> 0 \<longrightarrow> he_started (rc_execution c) \<le> he_started e) \<and>
    he_started (rc_execution c) \<in> he_started ` set (newest # older)"
proof -
  let ?c = "\<lparr>rc_execution = newest, rc_iterations = 1\<rparr>"
  obtain y where y: "fold fold_iteration older (Some ?c) = Some y" "rc_iterations y = 1 + length older"
      "he_tokens (rc_execution y) = he_tokens newest + (\<Sum>e \<leftarrow> older. he_tokens e)"
      "he_run (rc_execution y) = he_run newest" "he_outcome (rc_execution y) = he_outcome newest"
      "he_ended (rc_execution y) = he_ended newest" "he_waiting (rc_execution y) = he_waiting newest"
    and start: "he_started (rc_execution y) = (if older = [] then he_started newest
      else if he_started (last older) = 0 then he_started (last (butlast (newest # older))) else he_started (last older))"
    using fold_iterations [OF assms(2), of ?c newest] by auto
  have at: "fmlookup (fold merge_execution es fmempty) wid = Some y"
    using y(1) by (simp add: merge_execution_at assms(1) fold_iteration_def)
  have "(\<forall>e \<in> set (newest # older). he_started e \<noteq> 0 \<longrightarrow> he_started (rc_execution y) \<le> he_started e) \<and>
      he_started (rc_execution y) \<in> he_started ` set (newest # older)"
  proof (cases older rule: rev_cases)
    case Nil
    with start show ?thesis by simp
  next
    case (snoc xs z)
    show ?thesis
    proof (cases "he_started z = 0")
      case False
      with start snoc assms(2) show ?thesis by (auto simp: sorted_wrt_append)
    next
      case True
      obtain ys w where w: "newest # xs = ys @ [w]" by (metis rev_exhaust list.distinct(1))
      have "butlast (newest # older) = ys @ [w]" using w snoc by (simp add: butlast_append)
      then have s: "he_started (rc_execution y) = he_started w" using start snoc True by simp
      have all: "newest # older = ys @ [w, z]" using w snoc by simp
      have "he_started (rc_execution y) \<le> he_started e" if "e \<in> set (newest # older)" "he_started e \<noteq> 0" for e
        using that s True assms(2) unfolding all by (auto simp: sorted_wrt_append)
      moreover have "w \<in> set (newest # older)" unfolding all by simp
      ultimately show ?thesis using s by blast
    qed
  qed
  with at y show ?thesis by auto
qed

theorem iterations_fold_into_one_chain_witness:
  "\<exists>c. fmlookup (fold merge_execution [iteration ''r3'' 9 1 OutcomeRunning, iteration ''r2'' 6 2 OutcomeSucceeded,
      iteration ''r1'' 3 4 OutcomeSucceeded] fmempty) ''w'' = Some c \<and> rc_iterations c = 3 \<and>
    he_tokens (rc_execution c) = 7 \<and> he_run (rc_execution c) = ''r3'' \<and> he_started (rc_execution c) \<le> 3"
proof -
  let ?es = "[iteration ''r3'' 9 1 OutcomeRunning, iteration ''r2'' 6 2 OutcomeSucceeded, iteration ''r1'' 3 4 OutcomeSucceeded]"
  have "filter (\<lambda>e. he_workflow e = ''w'') ?es = hd ?es # tl ?es"
    and "sorted_wrt (\<lambda>a b. he_started a > he_started b) (hd ?es # tl ?es)"
    by (simp_all add: iteration_def)
  from iterations_fold_into_one_chain [OF this] show ?thesis by (auto simp: iteration_def)
qed

text \<open>
  The order matters: the fold compares an iteration with the earliest start of the chain so far,
  so a middle iteration that comes after the oldest one displaces the newest.
\<close>

lemma fold_needs_newest_first:
  "map_option (he_run \<circ> rc_execution) (fmlookup (fold merge_execution [iteration ''r3'' 9 1 OutcomeRunning,
      iteration ''r1'' 3 4 OutcomeSucceeded, iteration ''r2'' 6 2 OutcomeSucceeded] fmempty) ''w'') = Some ''r2''"
  by code_simp

end
