(* ===== verification/Hub_Overview.thy ===== *)
theory Hub_Overview
  imports Hub_Chains
begin

text \<open>
  The overview's reads and the operator's dismissals (\<open>agenthub/service.go\<close>, the upper half):
  the listings of fleets, runs and schedules, one fleet and one run, the pages of active work, and
  dismissing and undismissing the exact state that was seen.

  \<open>FleetsFor\<close> and \<open>RunsFor\<close> read page after page until enough of what they read is visible; as
  nothing bounds the number of pages, the loop is a partial function whose \<open>None\<close> is a listing that
  never returns, reported as \<open>HubEndless\<close>.  The cursor of active work is a string whose first two
  bytes are the version and the phase, as in the code.
\<close>

section \<open>Dismissals of one viewer\<close>

definition local_viewer :: string where "local_viewer = ''local-operator''"

type_synonym dismissal_set = "(string, string) fmap"

definition dismissed_ids :: "hub_env \<Rightarrow> string \<Rightarrow> dismissal_set hub_body" where
  "dismissed_ids env viewer =
     vthen (stored env ''read the dismissals'' (\<lambda>w. pg_dismissals w viewer)) (\<lambda>ds.
     vret (fold (\<lambda>d. fmupd (dismissal_id d) (ds_revision d)) ds fmempty))"

definition count_dismissed :: "dismissal_set \<Rightarrow> string \<Rightarrow> int" where
  "count_dismissed d kind = int (length (filter (\<lambda>k. has_prefix k (kind @ '':'')) (map_keys d)))"

definition has_dismissed :: "dismissal_set \<Rightarrow> string \<Rightarrow> string \<Rightarrow> string \<Rightarrow> bool" where
  "has_dismissed d kind item revision = (fmlookup d (kind @ '':'' @ item) = Some revision)"

section \<open>One fleet\<close>

definition plans_for :: "hub_env \<Rightarrow> resolved_chain list \<Rightarrow> (string \<rightharpoonup> hub_plan) hub_eff" where
  "plans_for env parents =
     (let refs = map (\<lambda>c. (he_workflow (rc_execution c), he_plan (rc_execution c)))
                   (filter (\<lambda>c. he_plan (rc_execution c) \<noteq> []) parents) in
      if refs = [] then ret Map.empty
      else ask ''resolve the fleets' plans'' (hv_plans env refs) (HbPlans refs))"

text \<open>What is known of a fleet's nodes: the executions by node, and of each its first chain.\<close>

definition executions_by_node :: "string \<Rightarrow> hub_execution list \<Rightarrow> (string, hub_execution list) fmap" where
  "executions_by_node fid es =
     fold (\<lambda>e m. case fleet_node_id fid (he_workflow e) of
         None \<Rightarrow> m
       | Some nid \<Rightarrow> fmupd nid ((case fmlookup m nid of None \<Rightarrow> [] | Some xs \<Rightarrow> xs) @ [e]) m) es fmempty"

record node_facts_of =
  nf_executions :: "string \<rightharpoonup> node_execution"
  nf_outcomes :: "string \<rightharpoonup> outcome_kind"
  nf_places :: "string \<rightharpoonup> recorded_place"

definition node_execution_of :: "hub_execution \<Rightarrow> node_execution" where
  "node_execution_of e =
     \<lparr>ne_workflow = he_workflow e, ne_run = he_run e, ne_started = he_started e, ne_ended = he_ended e,
      ne_tokens = he_tokens e\<rparr>"

fun node_chains ::
  "hub_env \<Rightarrow> string \<Rightarrow> live_map \<Rightarrow> (string \<times> hub_execution list) list \<Rightarrow> node_facts_of \<Rightarrow> node_facts_of hub_eff" where
  "node_chains env fid live [] acc = ret acc"
| "node_chains env fid live ((nid, es) # rest) acc =
     andthen (resolve_chains env es live (\<lambda>e. he_workflow e = fleet_node_workflow_id fid nid)) (\<lambda>cs.
       node_chains env fid live rest
         (case cs of
            [] \<Rightarrow> acc
          | c # _ \<Rightarrow>
              (let e = rc_execution c in
               acc\<lparr>nf_executions := (nf_executions acc)(nid \<mapsto> node_execution_of e),
                   nf_outcomes := (nf_outcomes acc)(nid \<mapsto> he_outcome e),
                   nf_places := (nf_places acc)(nid \<mapsto> he_place e)\<rparr>)))"

definition node_executions ::
  "hub_env \<Rightarrow> resolved_chain \<Rightarrow> hub_execution list \<Rightarrow> live_map \<Rightarrow> node_facts_of hub_eff" where
  "node_executions env parent tree live =
     (let fid = he_workflow (rc_execution parent) in
      andthen (node_chains env fid live (map_entries (executions_by_node fid (tree @ map_values live)))
         \<lparr>nf_executions = Map.empty, nf_outcomes = Map.empty, nf_places = Map.empty\<rparr>) (\<lambda>acc.
      ret (acc\<lparr>nf_outcomes := overlay_outcomes (nf_outcomes acc) (he_nodes (rc_execution parent))\<rparr>)))"

definition no_place :: recorded_place where
  "no_place = \<lparr>rp_directory = [], rp_repository = [], rp_ref = []\<rparr>"

text \<open>The nodes of a plan, up to the first whose place cannot be expressed.\<close>

fun overview_nodes ::
  "(string \<rightharpoonup> work_status) \<Rightarrow> node_facts_of \<Rightarrow> hub_node list \<Rightarrow> hub_error + overview_node list" where
  "overview_nodes statuses facts [] = Inr []"
| "overview_nodes statuses facts (n # ns) =
     (case recorded_location (lookup_or no_place (nf_places facts) (hn_id n)) of
        Inl x \<Rightarrow> Inl (HubBadPlace x)
      | Inr loc \<Rightarrow>
          rbind (overview_nodes statuses facts ns) (\<lambda>rest.
            Inr (\<lparr>on_id = hn_id n, on_prompt = hn_prompt n, on_depends_on = hn_depends_on n,
                  on_status = (case statuses (hn_id n) of Some s \<Rightarrow> s | None \<Rightarrow> Todo),
                  on_execution = nf_executions facts (hn_id n), on_location = loc\<rparr> # rest)))"

definition build_fleet ::
  "hub_env \<Rightarrow> resolved_chain \<Rightarrow> hub_execution list \<Rightarrow> live_map \<Rightarrow> hub_plan \<Rightarrow> overview_fleet hub_eff" where
  "build_fleet env parent tree live plan =
     (let e = rc_execution parent in
      case recorded_location (he_place e) of
        Inl x \<Rightarrow> fail (HubBadPlace x)
      | Inr loc \<Rightarrow>
          (let fleet = \<lparr>of_id = he_workflow e, of_running = hub_running e, of_goal = he_label e,
                 of_plan_id = he_plan e, of_status = status_from_outcome (he_outcome e),
                 of_progress = \<lparr>pg_done = 0, pg_total = 0\<rparr>, of_started = he_started e,
                 of_ended = he_ended e, of_nodes = [], of_location = loc\<rparr> in
           if hp_nodes plan = [] \<and> hp_goal plan = [] then ret fleet
           else andthen (node_executions env parent tree live) (\<lambda>facts.
             andthen (lift (overview_nodes (derive_statuses plan (nf_outcomes facts)) facts (hp_nodes plan))) (\<lambda>nodes.
             ret (fleet\<lparr>of_goal := (if hp_goal plan \<noteq> [] then hp_goal plan else he_label e), of_nodes := nodes,
                   of_progress := node_progress nodes, of_status := fleet_status (he_outcome e) nodes\<rparr>)))))"

definition no_plan :: hub_plan where
  "no_plan = \<lparr>hp_goal = [], hp_nodes = []\<rparr>"

definition one_query :: "string \<Rightarrow> chain_query" where
  "one_query wid = \<lparr>cq_workflow = wid, cq_required = [], cq_excluded = [], cq_limit = 1, cq_cursor = NoCursor\<rparr>"

definition check_item :: "string \<Rightarrow> unit hub_eff" where
  "check_item wid = lift (case validate_item_id wid of Inl e \<Rightarrow> Inl (HubItem e) | Inr u \<Rightarrow> Inr u)"

text \<open>Asking the orchestrator for work the record does not have.\<close>

definition live_only :: "hub_env \<Rightarrow> string \<Rightarrow> string \<Rightarrow> (hub_execution \<Rightarrow> bool) \<Rightarrow> resolved_chain list hub_eff" where
  "live_only env what wid keep =
     andthen (attempt (perform (hv_execution env wid) (HbExecution wid))) (\<lambda>r.
       case r of
         Inl PortNoExecution \<Rightarrow> fail HubNotFound
       | Inl f \<Rightarrow> fail (HubUnavailable what (CausePort f))
       | Inr e \<Rightarrow> if keep e then ret [\<lparr>rc_execution = e, rc_iterations = 1\<rparr>] else fail HubNotFound)"

definition hub_fleet :: "hub_env \<Rightarrow> string \<Rightarrow> overview_fleet hub_eff" where
  "hub_fleet env wid =
     andthen (check_item wid) (\<lambda>_.
     andthen (ask ''read the fleet's records'' (hv_fleet_trees env (one_query wid)) (HbFleetTrees (one_query wid))) (\<lambda>page.
     andthen (live_by_workflow env) (\<lambda>live0.
     let tree = (case hg_items page of [] \<Rightarrow> [] | t # _ \<Rightarrow> ht_executions t);
         chains = (case hg_items page of [] \<Rightarrow> [] | t # _ \<Rightarrow> [ht_chain t]) in
     andthen (if hg_items page = [] then ret live0
              else add_execution_states env live0 (hc_latest (hd chains) # tree)) (\<lambda>live.
     andthen (resolve_execution_chains env chains live (\<lambda>e. he_workflow e = wid \<and> is_fleet e)) (\<lambda>found.
     andthen (if found \<noteq> [] then ret found else live_only env ''read the fleet's live state'' wid is_fleet) (\<lambda>parents.
     andthen (plans_for env parents) (\<lambda>plans.
     build_fleet env (hd parents) tree live (lookup_or no_plan plans wid))))))))"

text \<open>Who started a run, empty when the store cannot say.\<close>

definition started_by :: "hub_env \<Rightarrow> string \<Rightarrow> string hub_body" where
  "started_by env wid =
     vthen (vlook (statement env (\<lambda>w. pg_launch_of_run w wid))) (\<lambda>r.
     vret (case r of Inl _ \<Rightarrow> [] | Inr launch \<Rightarrow> la_by launch))"

definition hub_run :: "hub_env \<Rightarrow> string \<Rightarrow> overview_run hub_body" where
  "hub_run env wid =
     vthen (vdo (andthen (check_item wid) (\<lambda>_.
       andthen (ask ''read the run's records'' (hv_run_chains env (one_query wid)) (HbRunChains (one_query wid))) (\<lambda>page.
       andthen (live_by_workflow env) (\<lambda>live0.
       andthen (if hg_items page = [] then ret live0
                else add_execution_states env live0 [hc_latest (hd (hg_items page))]) (\<lambda>live.
       andthen (resolve_execution_chains env (hg_items page) live (\<lambda>e. he_workflow e = wid \<and> is_run_satellite e)) (\<lambda>found.
       andthen (if found \<noteq> [] then ret found else live_only env ''read the run's live state'' wid is_run_satellite) (\<lambda>chains.
       lift (run_from (hd chains)))))))))) (\<lambda>run.
     vthen (started_by env (or_id run)) (\<lambda>by'. vret (run\<lparr>or_started_by := by'\<rparr>)))"

section \<open>Listings\<close>

text \<open>The variables of the two page loops.\<close>

record 'a listing =
  ls_live :: live_map
  ls_items :: "'a list"
  ls_seen :: "string set"
  ls_visible :: "string set"
  ls_cursor :: chain_cursor
  ls_required :: "string list"

definition start_listing :: "live_map \<Rightarrow> (hub_execution \<Rightarrow> bool) \<Rightarrow> 'a listing" where
  "start_listing live keep =
     \<lparr>ls_live = live, ls_items = [], ls_seen = {}, ls_visible = {}, ls_cursor = NoCursor,
      ls_required = map fst (filter (keep \<circ> snd) (map_entries live))\<rparr>"

definition listing_query :: "'a listing \<Rightarrow> int \<Rightarrow> int \<Rightarrow> chain_query" where
  "listing_query v limit dismissed =
     \<lparr>cq_workflow = [], cq_required = ls_required v, cq_excluded = [],
      cq_limit = collection_page_limit limit dismissed, cq_cursor = ls_cursor v\<rparr>"

text \<open>The chains of a page that no page before had, each once.\<close>

fun unseen_chains :: "string set \<Rightarrow> resolved_chain list \<Rightarrow> resolved_chain list" where
  "unseen_chains seen [] = []"
| "unseen_chains seen (c # cs) =
     (let wid = he_workflow (rc_execution c) in
      if wid \<in> seen then unseen_chains seen cs else c # unseen_chains (insert wid seen) cs)"

definition chain_ids :: "resolved_chain list \<Rightarrow> string set" where
  "chain_ids cs = (he_workflow \<circ> rc_execution) ` set cs"

text \<open>How a page loop goes on: \<open>Inl\<close> the finished list, \<open>Inr\<close> the variables for the next page.\<close>

definition next_page ::
  "int \<Rightarrow> ('a \<Rightarrow> nat) \<Rightarrow> ('a \<Rightarrow> string) \<Rightarrow> string list \<Rightarrow> chain_cursor \<Rightarrow> 'a listing \<Rightarrow> 'a list + 'a listing" where
  "next_page limit at nm ids cursor v =
     (if int (card (set ids \<inter> ls_visible v)) \<ge> limit \<or> cursor = NoCursor
      then Inl (take (nat limit) (order_by (started_before at nm) (ls_items v)))
      else Inr (v\<lparr>ls_cursor := cursor, ls_required := []\<rparr>))"

text \<open>The runs of chains, up to the first whose place cannot be expressed.\<close>

fun runs_from :: "resolved_chain list \<Rightarrow> hub_error + overview_run list" where
  "runs_from [] = Inr []"
| "runs_from (c # cs) = rbind (run_from c) (\<lambda>r. rbind (runs_from cs) (\<lambda>rs. Inr (r # rs)))"

definition runs_round ::
  "hub_env \<Rightarrow> int \<Rightarrow> dismissal_set \<Rightarrow> overview_run listing \<Rightarrow> (overview_run list + overview_run listing) hub_eff" where
  "runs_round env limit dismissed v =
     (let q = listing_query v limit (count_dismissed dismissed kind_run) in
      andthen (ask ''read the recorded runs'' (hv_run_chains env q) (HbRunChains q)) (\<lambda>page.
      let chains = hg_items page @ hg_required page in
      andthen (add_execution_states env (ls_live v) (map hc_latest chains)) (\<lambda>live.
      andthen (resolve_execution_chains env chains
         (bounded_live live (set (map (he_workflow \<circ> hc_latest) chains)) limit is_run_satellite) is_run_satellite) (\<lambda>resolved.
      let fresh = unseen_chains (ls_seen v) resolved in
      andthen (lift (runs_from fresh)) (\<lambda>runs.
      let shown = filter (\<lambda>r. \<not> has_dismissed dismissed kind_run (or_id r)
                      (run_revision (hv_hash env) (hv_digest env) (hv_stamp env) r)) runs in
      ret (next_page limit or_started or_id (map (he_workflow \<circ> hc_latest) (hg_items page)) (hg_next page)
        (v\<lparr>ls_live := live, ls_items := ls_items v @ shown, ls_seen := ls_seen v \<union> chain_ids fresh,
           ls_visible := ls_visible v \<union> or_id ` set shown\<rparr>)))))))"

text \<open>A loop of turns, each of which ends it or leaves the variables of the next.\<close>

partial_function (option) paging ::
  "('v \<Rightarrow> ('ev, 'e, 'a + 'v) eff) \<Rightarrow> 'v \<Rightarrow> 'ev list \<Rightarrow> (('e + 'a) \<times> 'ev list) option" where
  "paging turn v l =
     (case turn v l of
        (Inl e, l') \<Rightarrow> Some (Inl e, l')
      | (Inr (Inl out), l') \<Rightarrow> Some (Inr out, l')
      | (Inr (Inr v'), l') \<Rightarrow> paging turn v' l')"

declare paging.simps [code]

definition looping :: "('ev list \<Rightarrow> ((hub_error + 'a) \<times> 'ev list) option) \<Rightarrow> ('ev, hub_error, 'a) eff" where
  "looping m l = (case m l of None \<Rightarrow> (Inl HubEndless, l) | Some r \<Rightarrow> r)"

lemma paging_ends:
  assumes step: "\<And>v l. I v l \<Longrightarrow> wp (turn v) (\<lambda>r l'. case r of Inl e \<Rightarrow> Q (Inl e) l'
      | Inr (Inl out) \<Rightarrow> Q (Inr out) l' | Inr (Inr v') \<Rightarrow> I v' l') l"
    and "paging turn v l = Some res" "I v l"
  shows "Q (fst res) (snd res)"
proof -
  have "turn' = turn \<longrightarrow> I v l \<longrightarrow> Q (fst res) (snd res)" if "paging turn' v l = Some res" for turn' v l res
  proof (rule paging.raw_induct [where P = "\<lambda>turn' v l res. turn' = turn \<longrightarrow> I v l \<longrightarrow> Q (fst res) (snd res)", OF _ that])
    fix rec turn' v l res
    assume IH: "\<And>turn' v l res. rec turn' v l = Some res \<Longrightarrow> turn' = turn \<longrightarrow> I v l \<longrightarrow> Q (fst res) (snd res)"
      and eq: "(case turn' v l of (Inl e, l') \<Rightarrow> Some (Inl e, l') | (Inr (Inl out), l') \<Rightarrow> Some (Inr out, l')
        | (Inr (Inr v'), l') \<Rightarrow> rec turn' v' l') = Some res"
    show "turn' = turn \<longrightarrow> I v l \<longrightarrow> Q (fst res) (snd res)"
      using eq step [of v l] IH by (auto simp: wp_def split: prod.splits sum.splits)
  qed
  with assms(2,3) show ?thesis by blast
qed

lemma wp_paging:
  assumes "\<And>v l. I v l \<Longrightarrow> wp (turn v) (\<lambda>r l'. case r of Inl e \<Rightarrow> Q (Inl e) l'
      | Inr (Inl out) \<Rightarrow> Q (Inr out) l' | Inr (Inr v') \<Rightarrow> I v' l') l"
    and "I v l" "Q (Inl HubEndless) l"
  shows "wp (looping (paging turn v)) Q l"
proof (cases "paging turn v l")
  case None
  then show ?thesis using assms(3) by (simp add: wp_def looping_def)
next
  case (Some res)
  then show ?thesis using paging_ends [where I = I and Q = Q and turn = turn, OF assms(1) Some assms(2)]
    by (cases res) (simp add: wp_def looping_def)
qed

definition runs_for :: "hub_env \<Rightarrow> string \<Rightarrow> int \<Rightarrow> overview_run list hub_body" where
  "runs_for env viewer limit =
     vthen (dismissed_ids env viewer) (\<lambda>dismissed.
     vdo (andthen (live_by_workflow env) (\<lambda>live.
       looping (paging (runs_round env (resolve_limit limit) dismissed) (start_listing live is_run_satellite)))))"

definition hub_runs :: "hub_env \<Rightarrow> int \<Rightarrow> overview_run list hub_body" where
  "hub_runs env limit = runs_for env local_viewer limit"

fun fleets_from ::
  "hub_env \<Rightarrow> (string \<rightharpoonup> hub_execution list) \<Rightarrow> live_map \<Rightarrow> (string \<rightharpoonup> hub_plan) \<Rightarrow> resolved_chain list \<Rightarrow>
   overview_fleet list hub_eff" where
  "fleets_from env trees live plans [] = ret []"
| "fleets_from env trees live plans (c # cs) =
     (let wid = he_workflow (rc_execution c) in
      andthen (build_fleet env c (lookup_or [] trees wid) live (lookup_or no_plan plans wid)) (\<lambda>f.
      andthen (fleets_from env trees live plans cs) (\<lambda>fs. ret (f # fs))))"

definition trees_by_id :: "hub_tree list \<Rightarrow> string \<rightharpoonup> hub_execution list" where
  "trees_by_id ts = fold (\<lambda>t m. m(he_workflow (hc_latest (ht_chain t)) \<mapsto> ht_executions t)) ts Map.empty"

definition fleets_round ::
  "hub_env \<Rightarrow> int \<Rightarrow> dismissal_set \<Rightarrow> overview_fleet listing \<Rightarrow> (overview_fleet list + overview_fleet listing) hub_eff" where
  "fleets_round env limit dismissed v =
     (let q = listing_query v limit (count_dismissed dismissed kind_fleet) in
      andthen (ask ''read the recorded fleets'' (hv_fleet_trees env q) (HbFleetTrees q)) (\<lambda>page.
      let trees = hg_items page @ hg_required page; chains = map ht_chain trees in
      andthen (add_execution_states env (ls_live v) (concat (map (\<lambda>t. hc_latest (ht_chain t) # ht_executions t) trees))) (\<lambda>live.
      andthen (resolve_execution_chains env chains
         (bounded_live live (set (map (he_workflow \<circ> hc_latest) chains)) limit is_fleet) is_fleet) (\<lambda>parents.
      let fresh = unseen_chains (ls_seen v) parents in
      andthen (plans_for env fresh) (\<lambda>plans.
      andthen (fleets_from env (trees_by_id trees) live plans fresh) (\<lambda>fleets.
      let shown = filter (\<lambda>f. \<not> has_dismissed dismissed kind_fleet (of_id f)
                      (fleet_revision (hv_hash env) (hv_digest env) (hv_stamp env) f)) fleets in
      ret (next_page limit of_started of_id (map (he_workflow \<circ> hc_latest \<circ> ht_chain) (hg_items page)) (hg_next page)
        (v\<lparr>ls_live := live, ls_items := ls_items v @ shown, ls_seen := ls_seen v \<union> chain_ids fresh,
           ls_visible := ls_visible v \<union> of_id ` set shown\<rparr>))))))))"

definition fleets_for :: "hub_env \<Rightarrow> string \<Rightarrow> int \<Rightarrow> overview_fleet list hub_body" where
  "fleets_for env viewer limit =
     vthen (dismissed_ids env viewer) (\<lambda>dismissed.
     vdo (andthen (live_by_workflow env) (\<lambda>live.
       looping (paging (fleets_round env (resolve_limit limit) dismissed) (start_listing live is_fleet)))))"

definition hub_fleets :: "hub_env \<Rightarrow> int \<Rightarrow> overview_fleet list hub_body" where
  "hub_fleets env limit = fleets_for env local_viewer limit"

section \<open>Schedules\<close>

record overview_schedule =
  sd_id :: string
  sd_label :: string
  sd_spec :: string
  sd_status :: work_status
  sd_paused :: bool
  sd_running :: int
  sd_last_run :: nat
  sd_next_run :: nat
  sd_location :: location

definition same_execution_chain :: "hub_execution \<Rightarrow> hub_execution \<Rightarrow> bool" where
  "same_execution_chain known live =
     (if he_first_run known \<noteq> [] \<and> he_first_run live \<noteq> [] then he_first_run known = he_first_run live
      else he_run known \<noteq> [] \<and> he_run known = he_run live)"

text \<open>The loop over a schedule's firings, newest first, with the label, place, last run and outcome.\<close>

definition firing :: "hub_chain \<Rightarrow> string \<times> recorded_place \<times> nat \<times> outcome_kind \<Rightarrow> string \<times> recorded_place \<times> nat \<times> outcome_kind" where
  "firing c = (\<lambda>(label, place, last_at, outcome).
     let a = hc_latest c in
     (if label = [] then he_label a else label,
      if place_recorded place then place else he_place a,
      if last_at = 0 then hc_started c else last_at,
      if outcome = OtherOutcome [] \<and> \<not> hub_running a then he_outcome a else outcome))"

definition schedule_from :: "schedule_state \<Rightarrow> hub_chain list \<Rightarrow> int \<Rightarrow> hub_error + overview_schedule" where
  "schedule_from st fired running =
     (case fold firing fired ([], no_place, sc_last_run st, sc_last_outcome st) of
        (label, place, last_at, outcome) \<Rightarrow>
          (case recorded_location place of
             Inl x \<Rightarrow> Inl (HubBadPlace x)
           | Inr loc \<Rightarrow>
               Inr \<lparr>sd_id = sc_id st, sd_label = label, sd_spec = sc_spec st,
                    sd_status = schedule_status (sc_paused st) running outcome, sd_paused = sc_paused st,
                    sd_running = running, sd_last_run = last_at, sd_next_run = sc_next_run st, sd_location = loc\<rparr>))"

fun schedules_list ::
  "(string \<rightharpoonup> hub_chain list) \<Rightarrow> (string \<Rightarrow> int) \<Rightarrow> schedule_state list \<Rightarrow> hub_error + overview_schedule list" where
  "schedules_list actions running [] = Inr []"
| "schedules_list actions running (st # sts) =
     rbind (schedule_from (st\<lparr>sc_running := 0, sc_last_outcome := OtherOutcome []\<rparr>)
        (lookup_or [] actions (sc_id st)) (running (sc_id st))) (\<lambda>s.
     rbind (schedules_list actions running sts) (\<lambda>rest. Inr (s # rest)))"

definition current_action :: "live_map \<Rightarrow> hub_chain \<Rightarrow> hub_chain" where
  "current_action current c =
     (let a = hc_latest c in
      case fmlookup current (he_workflow a) of
        None \<Rightarrow> c
      | Some state \<Rightarrow>
          if same_execution_chain a state
          then c\<lparr>hc_latest := a\<lparr>he_outcome := he_outcome state, he_run := he_run state, he_ended := he_ended state\<rparr>\<rparr>
          else c)"

text \<open>The action source answers for the schedules it was asked about.\<close>

definition schedules_from_states :: "hub_env \<Rightarrow> schedule_state list \<Rightarrow> overview_schedule list hub_eff" where
  "schedules_from_states env states =
     andthen (live_by_workflow env) (\<lambda>live.
     let running = (\<lambda>sid. int (length (filter (\<lambda>e. he_schedule e \<noteq> [] \<and> he_schedule e = sid \<and> hub_running e) (map_values live))));
         sids = map sc_id states in
     andthen (ask ''read the schedules' runs'' (hv_actions env sids schedule_action_sample)
        (HbActions sids schedule_action_sample)) (\<lambda>actions.
     andthen (add_execution_states env live
        (map hc_latest (concat (map (lookup_or [] actions) (remdups sids))))) (\<lambda>current.
     lift (schedules_list (\<lambda>sid. map_option (map (current_action current)) (actions sid)) running states))))"

definition hub_schedules :: "hub_env \<Rightarrow> int \<Rightarrow> overview_schedule list hub_eff" where
  "hub_schedules env limit =
     andthen (ask ''list the schedules'' (hv_schedules env (resolve_limit limit)) (HbSchedules (resolve_limit limit)))
       (schedules_from_states env)"

section \<open>Active work, page by page\<close>

record active_item =
  ai_id :: string
  ai_type :: string
  ai_status :: work_status
  ai_running :: bool
  ai_location :: location

text \<open>No item is given a location, so each has the zero value, which is the unknown place.\<close>

definition cursor_version :: char where "cursor_version = CHR 0x01"
definition executions_phase :: char where "executions_phase = CHR ''e''"
definition schedules_phase :: char where "schedules_phase = CHR ''s''"

definition decode_active_cursor :: "string \<Rightarrow> hub_error + char \<times> string" where
  "decode_active_cursor cursor =
     (case cursor of
        [] \<Rightarrow> Inr (executions_phase, [])
      | [_] \<Rightarrow> Inl HubCursorInvalid
      | version # phase # rest \<Rightarrow>
          if version \<noteq> cursor_version \<or> phase \<noteq> executions_phase \<and> phase \<noteq> schedules_phase
          then Inl HubCursorInvalid else Inr (phase, rest))"

definition encode_active_cursor :: "char \<Rightarrow> string \<Rightarrow> string" where
  "encode_active_cursor phase source = cursor_version # phase # source"

definition active_work_type :: "work_class \<Rightarrow> string" where
  "active_work_type = run_type"

text \<open>A source that says the cursor is invalid is not a source that is down.\<close>

definition ask_page :: "string \<Rightarrow> 'a hub_ask \<Rightarrow> ('a port_answer \<Rightarrow> hub_ev) \<Rightarrow> 'a hub_eff" where
  "ask_page what ans ev =
     on_error (\<lambda>f. case f of PortInvalid m \<Rightarrow> HubSourceInvalid m | _ \<Rightarrow> HubUnavailable what (CausePort f))
       (perform ans ev)"

definition active_execution :: "hub_execution \<Rightarrow> active_item list" where
  "active_execution e =
     (if \<not> hub_running e then []
      else if is_fleet e then
        [\<lparr>ai_id = he_workflow e, ai_type = ''fleet'', ai_status = status_from_outcome (he_outcome e), ai_running = True, ai_location = UnknownPlace\<rparr>]
      else if is_run_satellite e then
        [\<lparr>ai_id = he_workflow e, ai_type = active_work_type (he_class e),
          ai_status = status_from_outcome (he_outcome e), ai_running = True, ai_location = UnknownPlace\<rparr>]
      else [])"

definition active_schedules :: "hub_env \<Rightarrow> int \<Rightarrow> string \<Rightarrow> (active_item list \<times> string) hub_eff" where
  "active_schedules env limit cursor =
     andthen (ask_page ''list a page of schedules'' (hv_schedule_page env limit cursor) (HbSchedulePage limit cursor))
       (\<lambda>(states, more). ret
         (map (\<lambda>st. \<lparr>ai_id = sc_id st, ai_type = ''schedule'',
            ai_status = schedule_status (sc_paused st) 0 (sc_last_outcome st), ai_running = False, ai_location = UnknownPlace\<rparr>) states,
          if more \<noteq> [] then encode_active_cursor schedules_phase more else []))"

definition active_work :: "hub_env \<Rightarrow> int \<Rightarrow> string \<Rightarrow> (active_item list \<times> string) hub_eff" where
  "active_work env limit0 cursor =
     (let limit = resolve_limit limit0 in
      andthen (lift (decode_active_cursor cursor)) (\<lambda>(phase, source).
      if phase = schedules_phase then active_schedules env limit source
      else andthen (ask_page ''list a page of running executions'' (hv_running_page env limit source)
             (HbRunningPage limit source)) (\<lambda>(executions, more).
        ret (concat (map active_execution executions),
          if more \<noteq> [] then encode_active_cursor executions_phase more
          else encode_active_cursor schedules_phase []))))"

section \<open>Dismissing\<close>

definition dismissals_for :: "hub_env \<Rightarrow> string \<Rightarrow> dismissal list hub_body" where
  "dismissals_for env viewer =
     vthen (stored env ''read the dismissals'' (\<lambda>w. pg_dismissals w viewer)) (\<lambda>ds.
     vret (order_by (\<lambda>a b. ds_at a > ds_at b) ds))"

definition current_revision :: "hub_env \<Rightarrow> string \<Rightarrow> string \<Rightarrow> string hub_body" where
  "current_revision env kind item =
     (if kind = kind_fleet then
        vthen (vdo (hub_fleet env item)) (\<lambda>f.
          vret (fleet_revision (hv_hash env) (hv_digest env) (hv_stamp env) f))
      else if kind = kind_run then
        vthen (hub_run env item) (\<lambda>r. vret (run_revision (hv_hash env) (hv_digest env) (hv_stamp env) r))
      else vfail (HubKindNotDismissible kind))"

definition check_target :: "string \<Rightarrow> string \<Rightarrow> unit hub_eff" where
  "check_target kind item =
     lift (case validate_dismissal_target kind item of Inl e \<Rightarrow> Inl (HubItem e) | Inr u \<Rightarrow> Inr u)"

definition dismiss_for :: "hub_env \<Rightarrow> string \<Rightarrow> string \<Rightarrow> string \<Rightarrow> string \<Rightarrow> dismissal hub_body" where
  "dismiss_for env viewer kind item expected =
     vthen (vdo (check_target kind item)) (\<lambda>_.
     if expected = [] then vfail HubRevisionRequired
     else vthen (current_revision env kind item) (\<lambda>revision.
       if revision \<noteq> expected then vfail HubStateChanged
       else vthen (vdo (asking (hv_now env))) (\<lambda>now.
         stored env ''record the dismissal'' (\<lambda>w. pg_dismiss w
           \<lparr>ds_viewer = viewer, ds_kind = kind, ds_item = item, ds_revision = revision, ds_at = now\<rparr>))))"

definition undismiss_for :: "hub_env \<Rightarrow> string \<Rightarrow> string \<Rightarrow> string \<Rightarrow> unit hub_body" where
  "undismiss_for env viewer kind item =
     vthen (vdo (check_target kind item)) (\<lambda>_.
     vmap_error (\<lambda>e. case e of NoSuchItem \<Rightarrow> HubNotFound | _ \<Rightarrow> HubUnavailable ''remove the dismissal'' (CauseStore e))
       (statement env (\<lambda>w. pg_undismiss w viewer kind item)))"

section \<open>The reads only read\<close>

lemma vreads_dismissed_ids [intro!]: "vreads (dismissed_ids env viewer)"
  unfolding dismissed_ids_def using selects(1) by auto

lemma vreads_started_by [intro!]: "vreads (started_by env wid)"
  unfolding started_by_def using selects(4) by auto

lemma reads_node_chains [intro!]: "reads (node_chains env fid live nodes acc)"
  by (induction env fid live nodes acc rule: node_chains.induct) auto

lemma reads_plans_for [intro!]: "reads (plans_for env parents)"
  unfolding plans_for_def Let_def by auto

lemma reads_build_fleet [intro!]: "reads (build_fleet env parent tree live plan)"
  unfolding build_fleet_def node_executions_def Let_def by (auto split: sum.split)

lemma reads_check_item [intro!]: "reads (check_item wid)"
  unfolding check_item_def by auto

lemma reads_live_only [intro!]: "reads (live_only env what wid keep)"
  unfolding live_only_def by (auto split: sum.split port_fault.split)

lemma reads_hub_fleet [intro!]: "reads (hub_fleet env wid)"
  unfolding hub_fleet_def Let_def by auto

lemma vreads_hub_run [intro!]: "vreads (hub_run env wid)"
  unfolding hub_run_def by auto

lemma reads_runs_round [intro!]: "reads (runs_round env limit dismissed v)"
  unfolding runs_round_def Let_def by auto

lemma reads_fleets_from [intro!]: "reads (fleets_from env trees live plans cs)"
  by (induction env trees live plans cs rule: fleets_from.induct) (auto simp: Let_def)

lemma reads_fleets_round [intro!]: "reads (fleets_round env limit dismissed v)"
  unfolding fleets_round_def Let_def by auto

lemma reads_paging [intro!]:
  assumes "\<And>v. reads (turn v)"
  shows "reads (looping (paging turn v))"
  unfolding reads_def
proof
  fix l0
  have "wp (looping (paging turn v)) (\<lambda>r l'. \<exists>d. l' = l0 @ d \<and> list_all read_event d) l0"
  proof (rule wp_paging [where I = "\<lambda>v l. \<exists>d. l = l0 @ d \<and> list_all read_event d"])
    fix v l assume "\<exists>d. l = l0 @ d \<and> list_all read_event d"
    then obtain d where d: "l = l0 @ d" "list_all read_event d" by blast
    obtain r l' where t: "turn v l = (r, l')" by fastforce
    from readsE [OF assms t] obtain d' where "l' = l @ d'" "list_all read_event d'" .
    with d have "\<exists>d. l' = l0 @ d \<and> list_all read_event d" by (intro exI [of _ "d @ d'"]) simp
    then show "wp (turn v) (\<lambda>r l'. case r of Inl e \<Rightarrow> \<exists>d. l' = l0 @ d \<and> list_all read_event d
        | Inr (Inl out) \<Rightarrow> \<exists>d. l' = l0 @ d \<and> list_all read_event d
        | Inr (Inr v') \<Rightarrow> \<exists>d. l' = l0 @ d \<and> list_all read_event d) l"
      by (simp add: wp_def t split: sum.split)
  qed simp_all
  then show "\<exists>d. snd (looping (paging turn v) l0) = l0 @ d \<and> list_all read_event d"
    by (simp add: wp_run)
qed

lemma vreads_runs_for [intro!]: "vreads (runs_for env viewer limit)"
  unfolding runs_for_def by auto

lemma vreads_fleets_for [intro!]: "vreads (fleets_for env viewer limit)"
  unfolding fleets_for_def by auto

lemma reads_hub_schedules [intro!]: "reads (hub_schedules env limit)"
  unfolding hub_schedules_def schedules_from_states_def Let_def by auto

section \<open>What a listing shows\<close>

lemma fold_fmupd_at:
  "distinct (map f xs) \<Longrightarrow> x \<in> set xs \<Longrightarrow> fmlookup (fold (\<lambda>d. fmupd (f d) (g d)) xs m) (f x) = Some (g x)"
proof (induction xs arbitrary: m)
  case (Cons y ys)
  have other: "fmlookup (fold (\<lambda>d. fmupd (f d) (g d)) ys m) k = fmlookup m k" if "k \<notin> f ` set ys" for k m
    using that by (induction ys arbitrary: m) auto
  show ?case
  proof (cases "x = y")
    case True
    then show ?thesis using Cons.prems(1) other [of "f y"] by simp
  next
    case False
    then show ?thesis using Cons by simp
  qed
qed simp

lemma dismissal_id_eq:
  assumes "ds_kind a \<in> {kind_fleet, kind_run}" "ds_kind b \<in> {kind_fleet, kind_run}"
  shows "dismissal_id a = dismissal_id b \<longleftrightarrow> ds_kind a = ds_kind b \<and> ds_item a = ds_item b"
  using assms by (auto simp: dismissal_id_def kind_fleet_def kind_run_def)

lemma distinct_ids:
  assumes "distinct (map (\<lambda>d. (ds_viewer d, ds_kind d, ds_item d)) ds)"
    and "\<forall>d \<in> set ds. ds_kind d \<in> {kind_fleet, kind_run} \<and> ds_viewer d = viewer"
  shows "distinct (map dismissal_id ds)"
  using assms by (induction ds) (auto simp: dismissal_id_eq)

interpretation by_dismissal: before_order dismissed_earlier
  by unfold_locales (auto simp: dismissed_earlier_def)

lemma dismissed_ids_at:
  assumes "hub_db_ok db" "dismissed_ids env viewer db l = (Inr m, db', l')"
    and "d \<in> set (hd_dismissals db)" "ds_viewer d = viewer"
  shows "fmlookup m (dismissal_id d) = Some (ds_revision d)"
proof -
  let ?ds = "order_by dismissed_earlier (filter (\<lambda>d. ds_viewer d = viewer) (hd_dismissals db))"
  have "distinct (map (\<lambda>d. (ds_viewer d, ds_kind d, ds_item d)) ?ds)"
    using assms(1) unfolding by_dismissal.distinct_map_order hub_db_ok_def by (blast intro: distinct_map_filter)
  moreover have "\<forall>d \<in> set ?ds. ds_kind d \<in> {kind_fleet, kind_run} \<and> ds_viewer d = viewer"
    using assms(1) by (auto simp: hub_db_ok_def)
  ultimately have "distinct (map dismissal_id ?ds)" by (rule distinct_ids)
  moreover have "m = fold (\<lambda>d. fmupd (dismissal_id d) (ds_revision d)) ?ds fmempty"
    using assms(2) by (auto simp: dismissed_ids_def vthen_def vret_def stored_def vmap_error_def statement_def
        pg_dismissals_def returning_def Let_def split: prod.splits sum.splits write_fault.splits)
  ultimately show ?thesis using fold_fmupd_at [of dismissal_id ?ds d] assms(3,4) by simp
qed

lemma has_dismissed_at:
  assumes "hub_db_ok db" "dismissed_ids env viewer db l = (Inr m, db', l')"
    and "d \<in> set (hd_dismissals db)" "ds_viewer d = viewer" "ds_kind d = kind" "ds_item d = item"
  shows "has_dismissed m kind item (ds_revision d)"
  using dismissed_ids_at [OF assms(1-4)] assms(5,6) by (simp add: has_dismissed_def dismissal_id_def)

text \<open>The variables of a listing: what is collected is new, not dismissed, and seen.\<close>

definition listing_ok :: "('a \<Rightarrow> string) \<Rightarrow> ('a \<Rightarrow> bool) \<Rightarrow> 'a listing \<Rightarrow> bool" where
  "listing_ok nm hidden v =
     (distinct (map nm (ls_items v)) \<and> nm ` set (ls_items v) \<subseteq> ls_seen v \<and> (\<forall>x \<in> set (ls_items v). \<not> hidden x))"

definition shown_ok :: "int \<Rightarrow> ('a \<Rightarrow> nat) \<Rightarrow> ('a \<Rightarrow> string) \<Rightarrow> ('a \<Rightarrow> bool) \<Rightarrow> 'a list \<Rightarrow> bool" where
  "shown_ok limit at nm hidden out =
     (length out \<le> nat limit \<and> distinct (map nm out) \<and>
      sorted_wrt (\<lambda>a b. \<not> started_before at nm b a) out \<and> (\<forall>x \<in> set out. \<not> hidden x))"

lemma start_listing_ok [simp]: "listing_ok nm hidden (start_listing live keep)"
  by (simp add: listing_ok_def start_listing_def)

lemma next_page_ok:
  assumes "listing_ok nm hidden v"
  shows "case next_page limit at nm ids cursor v of Inl out \<Rightarrow> shown_ok limit at nm hidden out
    | Inr v' \<Rightarrow> listing_ok nm hidden v'"
proof -
  have "distinct (map nm (order_by (started_before at nm) (ls_items v)))"
    using assms by (simp add: chain_start.distinct_map_order listing_ok_def)
  then have "distinct (map nm (take n (order_by (started_before at nm) (ls_items v))))" for n
    by (simp add: take_map [symmetric] distinct_take)
  moreover have "sorted_wrt (\<lambda>a b. \<not> started_before at nm b a) (take n (order_by (started_before at nm) (ls_items v)))" for n
    using chain_start.sorted_order by (rule sorted_wrt_take)
  moreover have "x \<in> set (ls_items v)" if "x \<in> set (take n (order_by (started_before at nm) (ls_items v)))" for n x
    using in_set_takeD [OF that] by simp
  then have "\<not> hidden x" if "x \<in> set (take n (order_by (started_before at nm) (ls_items v)))" for n x
    using assms that by (simp add: listing_ok_def)
  ultimately show ?thesis
    using assms by (simp add: next_page_def listing_ok_def shown_ok_def)
qed

lemma unseen_chains_ids:
  "distinct (map (he_workflow \<circ> rc_execution) (unseen_chains seen cs)) \<and>
   (\<forall>c \<in> set (unseen_chains seen cs). he_workflow (rc_execution c) \<notin> seen)"
proof (induction seen cs rule: unseen_chains.induct)
  case (2 seen c cs)
  show ?case
  proof (cases "he_workflow (rc_execution c) \<in> seen")
    case True
    then show ?thesis using 2(1) [OF refl True] by simp
  next
    case False
    have rest: "\<forall>d \<in> set (unseen_chains (insert (he_workflow (rc_execution c)) seen) cs).
        he_workflow (rc_execution d) \<noteq> he_workflow (rc_execution c) \<and> he_workflow (rc_execution d) \<notin> seen"
      using 2(2) [OF refl False] by simp
    then have "he_workflow (rc_execution c) \<notin>
        (he_workflow \<circ> rc_execution) ` set (unseen_chains (insert (he_workflow (rc_execution c)) seen) cs)"
      by (metis (no_types, lifting) comp_apply imageE)
    with False rest 2(2) [OF refl False] show ?thesis by simp
  qed
qed simp

lemma listing_add:
  assumes "listing_ok nm hidden v" "map nm xs = map (he_workflow \<circ> rc_execution) (unseen_chains (ls_seen v) cs)"
  shows "listing_ok nm hidden (v\<lparr>ls_live := live, ls_items := ls_items v @ filter (\<lambda>x. \<not> hidden x) xs,
     ls_seen := ls_seen v \<union> chain_ids (unseen_chains (ls_seen v) cs), ls_visible := w\<rparr>)"
proof -
  have ids: "nm ` set xs = chain_ids (unseen_chains (ls_seen v) cs)"
    using arg_cong [OF assms(2), of set] by (simp add: chain_ids_def)
  have "distinct (map nm xs)" using unseen_chains_ids assms(2) by metis
  then have "distinct (map nm (filter (\<lambda>x. \<not> hidden x) xs))" by (simp add: distinct_map inj_on_def)
  moreover have "nm x \<notin> ls_seen v" if "x \<in> set xs" for x
  proof -
    have "nm x \<in> chain_ids (unseen_chains (ls_seen v) cs)" using that ids by blast
    then show ?thesis using unseen_chains_ids [of "ls_seen v" cs] by (auto simp: chain_ids_def)
  qed
  ultimately show ?thesis using assms(1) unfolding listing_ok_def ids [symmetric] by auto
qed

text \<open>One turn of the listing of runs.\<close>

abbreviation hidden_run :: "hub_env \<Rightarrow> dismissal_set \<Rightarrow> overview_run \<Rightarrow> bool" where
  "hidden_run env dismissed r \<equiv>
     has_dismissed dismissed kind_run (or_id r) (run_revision (hv_hash env) (hv_digest env) (hv_stamp env) r)"

definition runs_inv :: "hub_env \<Rightarrow> dismissal_set \<Rightarrow> hub_ev list \<Rightarrow> overview_run listing \<Rightarrow> bool" where
  "runs_inv env dismissed l v =
     (listing_ok or_id (hidden_run env dismissed) v \<and> live_ok l (ls_live v) \<and>
      (\<forall>r \<in> set (ls_items v). or_running r \<longrightarrow> confirmed l (or_id r)))"

definition runs_out :: "hub_env \<Rightarrow> int \<Rightarrow> dismissal_set \<Rightarrow> hub_ev list \<Rightarrow> overview_run list \<Rightarrow> bool" where
  "runs_out env limit dismissed l out =
     (shown_ok limit or_started or_id (hidden_run env dismissed) out \<and>
      (\<forall>r \<in> set out. or_running r \<longrightarrow> confirmed l (or_id r)))"

lemma run_from_facts:
  "run_from c = Inr r \<Longrightarrow> or_id r = he_workflow (rc_execution c) \<and> or_running r = hub_running (rc_execution c)"
  by (auto simp: run_from_def Let_def split: sum.splits)

lemma runs_from_facts:
  assumes "runs_from cs = Inr rs"
  shows "map or_id rs = map (he_workflow \<circ> rc_execution) cs"
    and "chains_ok l cs \<Longrightarrow> r \<in> set rs \<Longrightarrow> or_running r \<Longrightarrow> confirmed l (or_id r)"
proof -
  show "map or_id rs = map (he_workflow \<circ> rc_execution) cs"
    using assms by (induction cs arbitrary: rs) (auto simp: rbind_eq_Inr run_from_facts)
  show "chains_ok l cs \<Longrightarrow> r \<in> set rs \<Longrightarrow> or_running r \<Longrightarrow> confirmed l (or_id r)"
    using assms
    by (induction cs arbitrary: rs) (auto simp: rbind_eq_Inr chains_ok_def run_from_facts)
qed

lemma unseen_chains_subset: "set (unseen_chains seen cs) \<subseteq> set cs"
  by (induction seen cs rule: unseen_chains.induct) (auto simp: Let_def)

lemma next_page_set:
  "case next_page limit at nm ids cursor v of Inl out \<Rightarrow> set out \<subseteq> set (ls_items v)
   | Inr v' \<Rightarrow> ls_items v' = ls_items v \<and> ls_live v' = ls_live v"
  by (auto simp: next_page_def dest: in_set_takeD)

text \<open>What every turn starts with: a page, the states of what it says is running, the chains.\<close>

lemma wp_page:
  assumes "live_ok l live" "\<And>e d. Q (Inl e) (l @ d)" "\<And>r. read_event (ev r)"
    and "\<And>page d live' cs. live_ok (l @ d) live' \<Longrightarrow> chains_ok (l @ d) cs \<Longrightarrow> wp (f page live' cs) Q (l @ d)"
  shows "wp (andthen (ask what ans ev) (\<lambda>page. andthen (add_execution_states env live (g page)) (\<lambda>live'.
     andthen (resolve_execution_chains env (h page) (bounded_live live' (sel page) limit keep) keep) (f page live')))) Q l"
proof (rule wp_bind [where P = "\<lambda>_ _. True"])
  fix page d
  have "wp (andthen (resolve_execution_chains env (h page) (bounded_live live' (sel page) limit keep) keep) (f page live')) Q
      ((l @ d) @ d')" if "live_ok ((l @ d) @ d') live'" for d' live'
    using resolve_chains_ok(2) [OF bounded_live_ok [OF that]]
    by (rule wp_bind [OF reads_resolve_execution_chains]) (use assms(2,4) live_ok_mono [OF that] in simp_all)
  then show "wp (andthen (add_execution_states env live (g page)) (\<lambda>live'.
     andthen (resolve_execution_chains env (h page) (bounded_live live' (sel page) limit keep) keep) (f page live'))) Q (l @ d)"
    by (rule wp_bind [OF reads_add_execution_states add_execution_states_ok [OF live_ok_mono [OF assms(1)]]])
      (use assms(2) in simp_all)
qed (use assms in \<open>auto simp: wp_run\<close>)

lemma runs_round_ok:
  assumes "runs_inv env dismissed l v"
  shows "wp (runs_round env limit dismissed v) (\<lambda>r l'. case r of Inl e \<Rightarrow> True
     | Inr (Inl out) \<Rightarrow> runs_out env limit dismissed l' out | Inr (Inr v') \<Rightarrow> runs_inv env dismissed l' v') l"
  unfolding runs_round_def Let_def
proof (rule wp_page, goal_cases)
  case 1
  then show ?case using assms by (simp add: runs_inv_def)
next
  case (4 page d live' cs)
  let ?fresh = "unseen_chains (ls_seen v) cs"
  have fresh: "chains_ok (l @ d) ?fresh" using 4(2) unseen_chains_subset unfolding chains_ok_def by fast
  show ?case
  proof (cases "runs_from ?fresh")
    case (Inr runs)
    let ?v = "v\<lparr>ls_live := live', ls_items := ls_items v @ filter (\<lambda>r. \<not> hidden_run env dismissed r) runs,
       ls_seen := ls_seen v \<union> chain_ids ?fresh,
       ls_visible := ls_visible v \<union> or_id ` set (filter (\<lambda>r. \<not> hidden_run env dismissed r) runs)\<rparr>"
    have ok: "listing_ok or_id (hidden_run env dismissed) ?v"
      using assms runs_from_facts(1) [OF Inr] by (intro listing_add) (simp_all add: runs_inv_def)
    have "\<forall>r \<in> set (ls_items ?v). or_running r \<longrightarrow> confirmed (l @ d) (or_id r)"
      using assms confirmed_mono runs_from_facts(2) [OF Inr fresh] by (auto simp: runs_inv_def)
    then show ?thesis
      using next_page_ok [OF ok, of limit or_started "map (he_workflow \<circ> hc_latest) (hg_items page)" "hg_next page"]
        next_page_set [where limit = limit and at = or_started and nm = or_id and v = ?v and cursor = "hg_next page"
          and ids = "map (he_workflow \<circ> hc_latest) (hg_items page)"] 4(1)
      by (auto simp: Inr wp_rules runs_out_def runs_inv_def split: sum.splits)
  qed (simp add: wp_rules)
qed simp_all

lemma runs_for_ok:
  "vwp (runs_for env viewer limit) (\<lambda>r db' l'. \<forall>out. r = Inr out \<longrightarrow> (\<exists>dismissed d1 d2.
     dismissed_ids env viewer db l = (Inr dismissed, db, l @ d1) \<and> l' = l @ d2 \<and>
     runs_out env (resolve_limit limit) dismissed l' out)) db l"
proof -
  obtain r db' l1 where d: "dismissed_ids env viewer db l = (r, db', l1)" by (metis prod_cases3)
  then have read: "\<exists>d1. l1 = l @ d1" "db' = db" using vreadsE [OF vreads_dismissed_ids] by metis+
  show ?thesis
  proof (cases r)
    case (Inr dismissed)
    let ?turn = "runs_round env (resolve_limit limit) dismissed"
    have "wp (andthen (live_by_workflow env) (\<lambda>live. looping (paging ?turn (start_listing live is_run_satellite))))
      (\<lambda>r l'. \<forall>out. r = Inr out \<longrightarrow> runs_out env (resolve_limit limit) dismissed l' out) l1"
    proof (rule wp_bind [OF reads_live_by_workflow live_by_workflow_ok])
      fix live d assume "live_ok (l1 @ d) live"
      then have "runs_inv env dismissed (l1 @ d) (start_listing live is_run_satellite)"
        by (simp add: runs_inv_def) (simp add: start_listing_def)
      then show "wp (looping (paging ?turn (start_listing live is_run_satellite)))
          (\<lambda>r l'. \<forall>out. r = Inr out \<longrightarrow> runs_out env (resolve_limit limit) dismissed l' out) (l1 @ d)"
        by (rule wp_paging [where I = "\<lambda>v l. runs_inv env dismissed l v", rotated])
          (auto intro: wp_mono [OF runs_round_ok] split: sum.splits)
    qed simp
    moreover obtain r2 l2 where go: "andthen (live_by_workflow env) (\<lambda>live.
        looping (paging ?turn (start_listing live is_run_satellite))) l1 = (r2, l2)" by fastforce
    ultimately have "\<forall>out. r2 = Inr out \<longrightarrow> runs_out env (resolve_limit limit) dismissed l2 out" by (simp add: wp_def)
    moreover have run: "runs_for env viewer limit db l = (r2, db, l2)"
      using d read(2) Inr go by (simp add: runs_for_def vthen_def vdo_def)
    moreover obtain d2 where "l2 = l @ d2" using vreadsE [OF vreads_runs_for run] by metis
    ultimately show ?thesis using d read Inr by (auto simp: vwp_def)
  qed (use d in \<open>simp add: vwp_def runs_for_def vthen_def\<close>)
qed

text \<open>One turn of the listing of fleets.\<close>

abbreviation hidden_fleet :: "hub_env \<Rightarrow> dismissal_set \<Rightarrow> overview_fleet \<Rightarrow> bool" where
  "hidden_fleet env dismissed f \<equiv>
     has_dismissed dismissed kind_fleet (of_id f) (fleet_revision (hv_hash env) (hv_digest env) (hv_stamp env) f)"

definition fleets_inv :: "hub_env \<Rightarrow> dismissal_set \<Rightarrow> hub_ev list \<Rightarrow> overview_fleet listing \<Rightarrow> bool" where
  "fleets_inv env dismissed l v =
     (listing_ok of_id (hidden_fleet env dismissed) v \<and> live_ok l (ls_live v) \<and>
      (\<forall>f \<in> set (ls_items v). of_running f \<longrightarrow> confirmed l (of_id f)))"

definition fleets_out :: "hub_env \<Rightarrow> int \<Rightarrow> dismissal_set \<Rightarrow> hub_ev list \<Rightarrow> overview_fleet list \<Rightarrow> bool" where
  "fleets_out env limit dismissed l out =
     (shown_ok limit of_started of_id (hidden_fleet env dismissed) out \<and>
      (\<forall>f \<in> set out. of_running f \<longrightarrow> confirmed l (of_id f)))"

lemma build_fleet_facts:
  "wp (build_fleet env parent tree live plan) (\<lambda>r l'. \<forall>f. r = Inr f \<longrightarrow>
     of_id f = he_workflow (rc_execution parent) \<and> of_running f = hub_running (rc_execution parent)) l"
  unfolding build_fleet_def Let_def
  by (auto simp: wp_rules intro!: wp_all split: sum.split)

lemma fleets_from_facts:
  "wp (fleets_from env trees live plans cs) (\<lambda>r l'. \<forall>fs. r = Inr fs \<longrightarrow>
     map of_id fs = map (he_workflow \<circ> rc_execution) cs \<and> map of_running fs = map (hub_running \<circ> rc_execution) cs) l"
proof (induction env trees live plans cs arbitrary: l rule: fleets_from.induct)
  case (2 env trees live plans c cs)
  let ?wid = "he_workflow (rc_execution c)"
  show ?case
    unfolding fleets_from.simps Let_def
    by (rule wp_bind [OF reads_build_fleet build_fleet_facts], rule wp_bind [OF reads_fleets_from])
      (auto simp: wp_rules intro: wp_mono [OF 2])
qed (simp add: wp_rules)

lemma running_fleets_confirmed:
  assumes "map of_id fs = map (he_workflow \<circ> rc_execution) cs" "map of_running fs = map (hub_running \<circ> rc_execution) cs"
    and "chains_ok l cs" "f \<in> set fs" "of_running f"
  shows "confirmed l (of_id f)"
proof -
  obtain i where i: "i < length fs" "f = fs ! i" using assms(4) by (auto simp: in_set_conv_nth)
  have "length fs = length cs" using arg_cong [OF assms(1), of length] by simp
  with i have "i < length cs" "of_id f = he_workflow (rc_execution (cs ! i))" "of_running f = hub_running (rc_execution (cs ! i))"
    using arg_cong [OF assms(1), of "\<lambda>xs. xs ! i"] arg_cong [OF assms(2), of "\<lambda>xs. xs ! i"] by auto
  with assms(3,5) show ?thesis by (auto simp: chains_ok_def)
qed

lemma fleets_round_ok:
  assumes "fleets_inv env dismissed l v"
  shows "wp (fleets_round env limit dismissed v) (\<lambda>r l'. case r of Inl e \<Rightarrow> True
     | Inr (Inl out) \<Rightarrow> fleets_out env limit dismissed l' out | Inr (Inr v') \<Rightarrow> fleets_inv env dismissed l' v') l"
  unfolding fleets_round_def Let_def
proof (rule wp_page, goal_cases)
  case 1
  then show ?case using assms by (simp add: fleets_inv_def)
next
  case (4 page d live' cs)
  let ?fresh = "unseen_chains (ls_seen v) cs"
  have fresh: "chains_ok (l @ d) ?fresh" using 4(2) unseen_chains_subset unfolding chains_ok_def by fast
  show ?case
  proof (rule wp_bind [where P = "\<lambda>_ _. True", OF reads_plans_for], simp add: wp_run, goal_cases)
    case (1 plans d')
    show ?case
    proof (rule wp_bind [OF reads_fleets_from fleets_from_facts], goal_cases)
      case (1 fs d'')
      let ?l = "((l @ d) @ d') @ d''"
      let ?v = "v\<lparr>ls_live := live', ls_items := ls_items v @ filter (\<lambda>f. \<not> hidden_fleet env dismissed f) fs,
         ls_seen := ls_seen v \<union> chain_ids ?fresh,
         ls_visible := ls_visible v \<union> of_id ` set (filter (\<lambda>f. \<not> hidden_fleet env dismissed f) fs)\<rparr>"
      have ok: "listing_ok of_id (hidden_fleet env dismissed) ?v"
        using assms 1 by (intro listing_add) (simp_all add: fleets_inv_def)
      have "confirmed ?l (of_id f)" if "f \<in> set fs" "of_running f" for f
        using running_fleets_confirmed [OF _ _ fresh that] 1 by (blast intro: confirmed_mono)
      then have "\<forall>f \<in> set (ls_items ?v). of_running f \<longrightarrow> confirmed ?l (of_id f)"
        using assms confirmed_mono [of l _ "d @ d' @ d''"] by (auto simp: fleets_inv_def)
      moreover have "live_ok ?l live'" using 4(1) live_ok_mono by blast
      ultimately show ?case
        using next_page_ok [OF ok, of limit of_started "map (he_workflow \<circ> hc_latest \<circ> ht_chain) (hg_items page)" "hg_next page"]
          next_page_set [where limit = limit and at = of_started and nm = of_id and v = ?v and cursor = "hg_next page"
            and ids = "map (he_workflow \<circ> hc_latest \<circ> ht_chain) (hg_items page)"]
        by (auto simp: wp_rules fleets_out_def fleets_inv_def split: sum.splits)
    qed simp
  qed simp
qed simp_all

lemma fleets_for_ok:
  "vwp (fleets_for env viewer limit) (\<lambda>r db' l'. \<forall>out. r = Inr out \<longrightarrow> (\<exists>dismissed d1 d2.
     dismissed_ids env viewer db l = (Inr dismissed, db, l @ d1) \<and> l' = l @ d2 \<and>
     fleets_out env (resolve_limit limit) dismissed l' out)) db l"
proof -
  obtain r db' l1 where d: "dismissed_ids env viewer db l = (r, db', l1)" by (metis prod_cases3)
  then have read: "\<exists>d1. l1 = l @ d1" "db' = db" using vreadsE [OF vreads_dismissed_ids] by metis+
  show ?thesis
  proof (cases r)
    case (Inr dismissed)
    let ?turn = "fleets_round env (resolve_limit limit) dismissed"
    have "wp (andthen (live_by_workflow env) (\<lambda>live. looping (paging ?turn (start_listing live is_fleet))))
      (\<lambda>r l'. \<forall>out. r = Inr out \<longrightarrow> fleets_out env (resolve_limit limit) dismissed l' out) l1"
    proof (rule wp_bind [OF reads_live_by_workflow live_by_workflow_ok])
      fix live d assume "live_ok (l1 @ d) live"
      then have "fleets_inv env dismissed (l1 @ d) (start_listing live is_fleet)"
        by (simp add: fleets_inv_def) (simp add: start_listing_def)
      then show "wp (looping (paging ?turn (start_listing live is_fleet)))
          (\<lambda>r l'. \<forall>out. r = Inr out \<longrightarrow> fleets_out env (resolve_limit limit) dismissed l' out) (l1 @ d)"
        by (rule wp_paging [where I = "\<lambda>v l. fleets_inv env dismissed l v", rotated])
          (auto intro: wp_mono [OF fleets_round_ok] split: sum.splits)
    qed simp
    moreover obtain r2 l2 where go: "andthen (live_by_workflow env) (\<lambda>live.
        looping (paging ?turn (start_listing live is_fleet))) l1 = (r2, l2)" by fastforce
    ultimately have "\<forall>out. r2 = Inr out \<longrightarrow> fleets_out env (resolve_limit limit) dismissed l2 out" by (simp add: wp_def)
    moreover have run: "fleets_for env viewer limit db l = (r2, db, l2)"
      using d read(2) Inr go by (simp add: fleets_for_def vthen_def vdo_def)
    moreover obtain d2 where "l2 = l @ d2" using vreadsE [OF vreads_fleets_for run] by metis
    ultimately show ?thesis using d read Inr by (auto simp: vwp_def)
  qed (use d in \<open>simp add: vwp_def fleets_for_def vthen_def\<close>)
qed

section \<open>What a dismissal writes\<close>

lemma reads_current_revision [intro!]: "vreads (current_revision env kind item)"
  unfolding current_revision_def by auto

lemma reads_check_target [intro!]: "reads (check_target kind item)"
  unfolding check_target_def by auto

lemma same_dismissal_key:
  "same_dismissal a b \<longleftrightarrow> (ds_viewer a, ds_kind a, ds_item a) = (ds_viewer b, ds_kind b, ds_item b)"
  by (simp add: same_dismissal_def)

lemma redismissed_simps [simp]:
  "ds_viewer (redismissed d r) = ds_viewer r" "ds_kind (redismissed d r) = ds_kind r"
  "ds_item (redismissed d r) = ds_item r" "ds_revision (redismissed d r) = ds_revision d"
  by (simp_all add: redismissed_def)

lemma upsert_dismissal_facts:
  assumes "upsert_dismissal d rows = (s, rows')"
  shows "s \<in> set rows'" and "same_dismissal d s" and "ds_revision s = ds_revision d"
    and "filter (\<lambda>r. \<not> same_dismissal d r) rows' = filter (\<lambda>r. \<not> same_dismissal d r) rows"
    and "set (map (\<lambda>d. (ds_viewer d, ds_kind d, ds_item d)) rows') \<subseteq>
      insert (ds_viewer d, ds_kind d, ds_item d) (set (map (\<lambda>d. (ds_viewer d, ds_kind d, ds_item d)) rows))"
    and "distinct (map (\<lambda>d. (ds_viewer d, ds_kind d, ds_item d)) rows) \<Longrightarrow>
      distinct (map (\<lambda>d. (ds_viewer d, ds_kind d, ds_item d)) rows')"
proof -
  let ?key = "\<lambda>d. (ds_viewer d, ds_kind d, ds_item d)"
  have "s \<in> set rows' \<and> same_dismissal d s \<and> ds_revision s = ds_revision d \<and>
    filter (\<lambda>r. \<not> same_dismissal d r) rows' = filter (\<lambda>r. \<not> same_dismissal d r) rows \<and>
    set (map ?key rows') \<subseteq> insert (?key d) (set (map ?key rows)) \<and>
    (distinct (map ?key rows) \<longrightarrow> distinct (map ?key rows'))"
    using assms
  proof (induction rows arbitrary: rows')
    case (Cons r rows)
    show ?case
    proof (cases "same_dismissal d r")
      case True
      then show ?thesis using Cons.prems by (auto simp: same_dismissal_def image_iff)
    next
      case False
      with Cons.prems obtain rows2 where u: "upsert_dismissal d rows = (s, rows2)" "rows' = r # rows2"
        by (auto simp: map_prod_def split: prod.splits)
      from Cons.IH [OF u(1)] False u(2) show ?thesis
        by (auto simp: same_dismissal_key)
    qed
  qed (auto simp: same_dismissal_def)
  then show "s \<in> set rows'" "same_dismissal d s" "ds_revision s = ds_revision d"
    "filter (\<lambda>r. \<not> same_dismissal d r) rows' = filter (\<lambda>r. \<not> same_dismissal d r) rows"
    "set (map ?key rows') \<subseteq> insert (?key d) (set (map ?key rows))"
    "distinct (map ?key rows) \<Longrightarrow> distinct (map ?key rows')" by blast+
qed

definition dismisses :: "hub_db \<Rightarrow> dismissal \<Rightarrow> hub_db \<Rightarrow> bool" where
  "dismisses db d db' =
     (hd_places db' = hd_places db \<and> hd_launches db' = hd_launches db \<and>
      filter (\<lambda>r. \<not> same_dismissal d r) (hd_dismissals db') = filter (\<lambda>r. \<not> same_dismissal d r) (hd_dismissals db) \<and>
      (\<exists>s \<in> set (hd_dismissals db'). same_dismissal d s \<and> ds_revision s = ds_revision d))"

lemma pg_dismiss_facts:
  assumes "hub_db_ok db" "ds_kind d \<in> {kind_fleet, kind_run}" "pg_dismiss w d db = (r, db')"
  shows "hub_db_ok db' \<and> (db' = db \<and> \<not> is_ok r \<or> dismisses db d db') \<and>
    (\<forall>s. r = Inr s \<longrightarrow> s \<in> set (hd_dismissals db') \<and> same_dismissal d s \<and> ds_revision s = ds_revision d)"
proof -
  obtain s rows where u: "upsert_dismissal d (hd_dismissals db) = (s, rows)" by fastforce
  note f = upsert_dismissal_facts [OF u]
  have "ds_kind x \<in> {kind_fleet, kind_run}" if "x \<in> set rows" for x
  proof -
    have "(ds_viewer x, ds_kind x, ds_item x) \<in>
        insert (ds_viewer d, ds_kind d, ds_item d) (set (map (\<lambda>d. (ds_viewer d, ds_kind d, ds_item d)) (hd_dismissals db)))"
      using f(5) that by (metis (no_types, lifting) image_eqI in_mono list.set_map)
    then show ?thesis using assms(1,2) unfolding hub_db_ok_def by auto
  qed
  then have ok': "hub_db_ok (db\<lparr>hd_dismissals := rows\<rparr>)"
    using f(6) assms(1) by (simp add: hub_db_ok_def)
  have new: "dismisses db d (db\<lparr>hd_dismissals := rows\<rparr>)"
    unfolding dismisses_def using f(1-4) by (simp, blast)
  have run: "pg_dismiss w d db = (case w of Applied \<Rightarrow> (Inr s, db\<lparr>hd_dismissals := rows\<rparr>)
      | Refused x \<Rightarrow> (Inl (StoreDown ''record the dismissal'' x), db)
      | Lost x \<Rightarrow> (Inl (StoreDown ''record the dismissal'' x), db\<lparr>hd_dismissals := rows\<rparr>))"
    using u by (simp add: pg_dismiss_def returning_def split: write_fault.split)
  show ?thesis
  proof (cases w)
    case Applied
    with run assms(3) have "r = Inr s" "db' = db\<lparr>hd_dismissals := rows\<rparr>" by simp_all
    with ok' new f(1-3) show ?thesis by simp
  next
    case (Refused x)
    with run assms(1,3) show ?thesis by auto
  next
    case (Lost x)
    with run assms(3) have "\<not> is_ok r" "db' = db\<lparr>hd_dismissals := rows\<rparr>" by auto
    with ok' new show ?thesis by (auto simp: is_ok_iff)
  qed
qed

lemma dismiss_for_facts:
  assumes ok: "hub_db_ok db" and run: "dismiss_for env viewer kind item expected db l = (r, db', l')"
  shows "hub_db_ok db' \<and>
    (db' = db \<and> \<not> is_ok r \<or> (\<exists>l0 now. current_revision env kind item db l = (Inr expected, db, l0) \<and>
       dismisses db \<lparr>ds_viewer = viewer, ds_kind = kind, ds_item = item, ds_revision = expected, ds_at = now\<rparr> db')) \<and>
    (\<forall>s. r = Inr s \<longrightarrow> s \<in> set (hd_dismissals db') \<and> ds_viewer s = viewer \<and> ds_kind s = kind \<and>
       ds_item s = item \<and> ds_revision s = expected)"
proof (cases "validate_dismissal_target kind item = Inr () \<and> expected \<noteq> []")
  case False
  then have "db' = db \<and> \<not> is_ok r"
    using run by (cases "validate_dismissal_target kind item")
      (auto simp: dismiss_for_def vthen_def vdo_def check_target_def lift_def vfail_def)
  then show ?thesis using ok by (auto simp: is_ok_iff)
next
  case True
  then have kinds: "kind \<in> {kind_fleet, kind_run}"
    by (auto simp: validate_dismissal_target_def valid_item_kind_def item_kinds_def split: if_splits sum.splits)
  obtain c db1 l1 where c: "current_revision env kind item db l = (c, db1, l1)" by (metis prod_cases3)
  have db1: "db1 = db" using vreadsE [OF reads_current_revision c] by metis
  note step = run [unfolded dismiss_for_def vthen_def vdo_def check_target_def lift_def]
  show ?thesis
  proof (cases "c = Inr expected")
    case False
    then have "db' = db \<and> \<not> is_ok r"
      using step True c db1 by (auto simp: vfail_def split: sum.splits if_splits)
    then show ?thesis using ok by (auto simp: is_ok_iff)
  next
    case match: True
    define d where "d = \<lparr>ds_viewer = viewer, ds_kind = kind, ds_item = item, ds_revision = expected, ds_at = hv_now env l1\<rparr>"
    obtain q db2 where pg: "pg_dismiss (hv_store env l1) d db = (q, db2)" by fastforce
    have res: "db' = db2 \<and> r = (case q of Inl e \<Rightarrow> Inl (HubUnavailable ''record the dismissal'' (CauseStore e)) | Inr x \<Rightarrow> Inr x)"
      using step True c db1 match pg
      by (auto simp: asking_def stored_def vmap_error_def statement_def Let_def d_def split: sum.splits)
    have kd: "ds_kind d \<in> {kind_fleet, kind_run}" using kinds by (simp add: d_def)
    from pg_dismiss_facts [OF ok kd pg] res c db1 match show ?thesis
      by (auto simp: d_def is_ok_iff same_dismissal_def split: sum.splits)
  qed
qed

section \<open>Pages of active work\<close>

lemma active_cursor_round_trip:
  assumes "phase = executions_phase \<or> phase = schedules_phase"
  shows "decode_active_cursor (encode_active_cursor phase source) = Inr (phase, source)"
  using assms by (auto simp: decode_active_cursor_def encode_active_cursor_def)

lemma active_items_at:
  "set (concat (map active_execution es)) \<subseteq>
     {i. ai_running i \<and> ai_location i = UnknownPlace \<and> (\<exists>e \<in> set es. hub_running e \<and> (is_fleet e \<or> is_run_satellite e) \<and> ai_id i = he_workflow e)}"
  by (auto simp: active_execution_def split: if_splits)

lemma active_work_items:
  "wp (active_work env limit cursor) (\<lambda>r l'. \<forall>items nxt. r = Inr (items, nxt) \<longrightarrow>
     (\<forall>i \<in> set items. ai_location i = UnknownPlace) \<and>
     (nxt = [] \<or> (\<exists>phase source. decode_active_cursor nxt = Inr (phase, source) \<and>
        (phase = executions_phase \<longrightarrow> source \<noteq> [] \<and> is_ok (decode_active_cursor cursor) \<and>
           fst (projr (decode_active_cursor cursor)) = executions_phase)))) l"
proof (cases "decode_active_cursor cursor")
  case (Inl e)
  then show ?thesis by (simp add: active_work_def wp_rules Let_def)
next
  case (Inr p)
  obtain phase source where p: "p = (phase, source)" by fastforce
  show ?thesis
  proof (cases "phase = schedules_phase")
    case True
    then show ?thesis using Inr p
      by (auto simp: Let_def active_work_def active_schedules_def ask_page_def wp_rules active_cursor_round_trip
          executions_phase_def schedules_phase_def split: sum.splits port_fault.splits)
  next
    case False
    have phase: "phase = executions_phase"
      using Inr p False by (auto simp: decode_active_cursor_def split: list.splits if_splits)
    have "\<forall>i \<in> set (concat (map active_execution es)). ai_location i = UnknownPlace" for es
      using active_items_at by fastforce
    then show ?thesis using Inr p False phase
      by (auto simp: Let_def active_work_def ask_page_def wp_rules active_cursor_round_trip schedules_phase_def executions_phase_def
          split: sum.splits port_fault.splits)
  qed
qed

text \<open>
  Of every page of active work, no item says where it runs; an execution is listed only when it runs
  and is a fleet or a run of its own; and the cursors go from the executions to the schedules and
  never back.
\<close>

theorem active_work_pages:
  assumes "active_work env limit cursor l = (Inr (items, nxt), l')"
  shows "(\<forall>i \<in> set items. ai_location i = UnknownPlace) \<and>
    (nxt = [] \<or> (\<exists>phase source. decode_active_cursor nxt = Inr (phase, source) \<and>
       (phase = executions_phase \<longrightarrow> source \<noteq> [] \<and>
          (\<exists>source0. decode_active_cursor cursor = Inr (executions_phase, source0)))))"
proof -
  have "(\<forall>i \<in> set items. ai_location i = UnknownPlace) \<and>
     (nxt = [] \<or> (\<exists>phase source. decode_active_cursor nxt = Inr (phase, source) \<and>
        (phase = executions_phase \<longrightarrow> source \<noteq> [] \<and> is_ok (decode_active_cursor cursor) \<and>
           fst (projr (decode_active_cursor cursor)) = executions_phase)))"
    using active_work_items [of env limit cursor l] assms by (simp add: wp_def)
  then show ?thesis by (cases "decode_active_cursor cursor") auto
qed

section \<open>A hub to run on\<close>

definition sample_execution :: hub_execution where
  "sample_execution =
     \<lparr>he_workflow = ''develop-1'', he_run = ''r1'', he_first_run = ''r1'', he_class = ClassDevelop,
      he_outcome = OutcomeRunning, he_label = ''fix it'', he_started = 5, he_ended = 0, he_tokens = 3,
      he_schedule = [], he_parent = [], he_detached = False, he_plan = [], he_nodes = [], he_instructions = [],
      he_place = \<lparr>rp_directory = ''/src/app'', rp_repository = [], rp_ref = []\<rparr>, he_waiting = 0\<rparr>"

definition sample_chain :: hub_chain where
  "sample_chain = \<lparr>hc_latest = sample_execution, hc_started = 4, hc_iterations = 2, hc_tokens = 9\<rparr>"

text \<open>One run that is recorded and, by what the orchestrator lists, going on or not.\<close>

definition sample_env :: "hub_execution list \<Rightarrow> hub_env" where
  "sample_env live =
     \<lparr>hv_running = (\<lambda>_ _. Inr live),
      hv_running_page = (\<lambda>_ _ _. Inr (live, [])),
      hv_execution = (\<lambda>_ _. Inl PortNoExecution),
      hv_executions = (\<lambda>_ _. Inr Map.empty),
      hv_run_chains = (\<lambda>_ _. Inr \<lparr>hg_items = [sample_chain], hg_required = [], hg_next = NoCursor\<rparr>),
      hv_fleet_trees = (\<lambda>_ _. Inr \<lparr>hg_items = [], hg_required = [], hg_next = NoCursor\<rparr>),
      hv_actions = (\<lambda>_ _ _. Inr Map.empty),
      hv_plans = (\<lambda>_ _. Inr Map.empty),
      hv_schedules = (\<lambda>_ _. Inr []),
      hv_schedule_page = (\<lambda>_ _ _. Inr ([], [])),
      hv_inspect = (\<lambda>dir _. Inr \<lparr>rp_directory = dir, rp_repository = [], rp_ref = []\<rparr>),
      hv_start = (\<lambda>_ _. Inr ()),
      hv_store = (\<lambda>_. Applied),
      hv_now = (\<lambda>_. 7),
      hv_digest = (\<lambda>x. x), hv_hash = (\<lambda>x. x), hv_stamp = (\<lambda>n. itoa (int n)), hv_uuid_of = (\<lambda>x. x)\<rparr>"

definition empty_hub :: hub_db where
  "empty_hub = \<lparr>hd_dismissals = [], hd_places = [], hd_launches = []\<rparr>"

definition sample_revision :: string where
  "sample_revision = (case hub_run (sample_env [sample_execution]) ''develop-1'' empty_hub [] of
     (Inr r, _, _) \<Rightarrow> run_revision (\<lambda>x. x) (\<lambda>x. x) (\<lambda>n. itoa (int n)) r | _ \<Rightarrow> [])"

lemma empty_hub_ok [simp]: "hub_db_ok empty_hub"
  by (simp add: hub_db_ok_def empty_hub_def)

lemma sample_listing:
  "map_prod (map_sum id (map or_id)) fst (runs_for (sample_env [sample_execution]) ''ann'' 0 empty_hub []) =
     (Inr [''develop-1''], empty_hub)"
  by code_simp

lemma sample_dismissal:
  "map_prod id fst (dismiss_for (sample_env [sample_execution]) ''ann'' kind_run ''develop-1'' sample_revision empty_hub []) =
     (Inr \<lparr>ds_viewer = ''ann'', ds_kind = kind_run, ds_item = ''develop-1'', ds_revision = sample_revision, ds_at = 7\<rparr>,
      empty_hub\<lparr>hd_dismissals := [\<lparr>ds_viewer = ''ann'', ds_kind = kind_run, ds_item = ''develop-1'',
        ds_revision = sample_revision, ds_at = 7\<rparr>]\<rparr>)"
  by code_simp

section \<open>Properties\<close>

text \<open>
  C22: A viewer's listing of runs reads and changes nothing.  It is never longer than its bounded
  limit, names no run twice, is ordered newest first, hides every run whose present state this
  viewer dismissed, and calls a run running only when the orchestrator said so during this very
  listing: what the record alone believes to be running is asked for or reported as failed.
\<close>

theorem listing_shows_what_is_going_on:
  assumes "hub_db_ok db" "runs_for env viewer limit db l = (Inr out, db', l')"
  shows "db' = db \<and> 0 < resolve_limit limit \<and> resolve_limit limit \<le> 200 \<and> length out \<le> nat (resolve_limit limit) \<and>
    distinct (map or_id out) \<and> sorted_wrt (\<lambda>a b. \<not> started_before or_started or_id b a) out \<and>
    (\<forall>r \<in> set out. or_running r \<longrightarrow> confirmed l' (or_id r)) \<and>
    (\<forall>r \<in> set out. \<forall>d \<in> set (hd_dismissals db).
       ds_viewer d = viewer \<and> ds_kind d = kind_run \<and> ds_item d = or_id r \<longrightarrow>
       ds_revision d \<noteq> run_revision (hv_hash env) (hv_digest env) (hv_stamp env) r)"
proof -
  have db: "db' = db" using vreadsE [OF vreads_runs_for assms(2)] by metis
  obtain dismissed d1 where d: "dismissed_ids env viewer db l = (Inr dismissed, db, l @ d1)"
    and out: "runs_out env (resolve_limit limit) dismissed l' out"
    using runs_for_ok [where env = env and viewer = viewer and limit = limit and db = db and l = l] assms(2) by (auto simp: vwp_def)
  have "\<not> hidden_run env dismissed r" if "r \<in> set out" for r
    using out that by (simp add: runs_out_def shown_ok_def)
  moreover have "0 < resolve_limit limit \<and> resolve_limit limit \<le> 200"
    by (simp add: resolve_limit_def default_hub_limit_def max_hub_limit_def)
  ultimately show ?thesis
    using db out has_dismissed_at [OF assms(1) d] unfolding runs_out_def shown_ok_def by metis
qed

theorem listing_shows_what_is_going_on_witness:
  "\<exists>out db' l'. runs_for (sample_env [sample_execution]) ''ann'' 0 empty_hub [] = (Inr out, db', l') \<and>
     map or_id out = [''develop-1''] \<and> db' = empty_hub \<and> length out \<le> nat (resolve_limit 0)"
proof -
  obtain out db' l' where run: "runs_for (sample_env [sample_execution]) ''ann'' 0 empty_hub [] = (Inr out, db', l')"
      "map or_id out = [''develop-1'']"
    using sample_listing by (cases "runs_for (sample_env [sample_execution]) ''ann'' 0 empty_hub []")
      (auto simp: map_sum_def split: sum.splits)
  from listing_shows_what_is_going_on [OF empty_hub_ok run(1)]
  have "db' = empty_hub" "length out \<le> nat (resolve_limit 0)" by simp_all
  with run show ?thesis by (intro exI conjI)
qed

text \<open>
  The same for a viewer's listing of fleets, whose items are built from plans and node
  executions.
\<close>

theorem fleet_listing_shows_what_is_going_on:
  assumes "hub_db_ok db" "fleets_for env viewer limit db l = (Inr out, db', l')"
  shows "db' = db \<and> length out \<le> nat (resolve_limit limit) \<and>
    distinct (map of_id out) \<and> sorted_wrt (\<lambda>a b. \<not> started_before of_started of_id b a) out \<and>
    (\<forall>f \<in> set out. of_running f \<longrightarrow> confirmed l' (of_id f)) \<and>
    (\<forall>f \<in> set out. \<forall>d \<in> set (hd_dismissals db).
       ds_viewer d = viewer \<and> ds_kind d = kind_fleet \<and> ds_item d = of_id f \<longrightarrow>
       ds_revision d \<noteq> fleet_revision (hv_hash env) (hv_digest env) (hv_stamp env) f)"
proof -
  have db: "db' = db" using vreadsE [OF vreads_fleets_for assms(2)] by metis
  obtain dismissed d1 where d: "dismissed_ids env viewer db l = (Inr dismissed, db, l @ d1)"
    and out: "fleets_out env (resolve_limit limit) dismissed l' out"
    using fleets_for_ok [where env = env and viewer = viewer and limit = limit and db = db and l = l] assms(2) by (auto simp: vwp_def)
  have "\<not> hidden_fleet env dismissed f" if "f \<in> set out" for f
    using out that by (simp add: fleets_out_def shown_ok_def)
  then show ?thesis
    using db out has_dismissed_at [OF assms(1) d] unfolding fleets_out_def shown_ok_def by metis
qed

text \<open>
  A dismissal is written only for the state that was seen: the item was read when the request
  was made, and its revision then was the one the caller sent.  It replaces at most this viewer's
  own row for this item; every other row, of this and of any other viewer, stays, and so do the
  places and the launches, even when the store's answer is lost.
\<close>

theorem dismissal_is_of_the_seen_state:
  assumes "hub_db_ok db" "dismiss_for env viewer kind item expected db l = (r, db', l')"
  shows "hub_db_ok db' \<and>
    (db' = db \<or> (\<exists>l0. current_revision env kind item db l = (Inr expected, db, l0) \<and>
       hd_places db' = hd_places db \<and> hd_launches db' = hd_launches db \<and>
       filter (\<lambda>d. (ds_viewer d, ds_kind d, ds_item d) \<noteq> (viewer, kind, item)) (hd_dismissals db') =
       filter (\<lambda>d. (ds_viewer d, ds_kind d, ds_item d) \<noteq> (viewer, kind, item)) (hd_dismissals db))) \<and>
    (\<forall>s. r = Inr s \<longrightarrow> s \<in> set (hd_dismissals db') \<and> ds_viewer s = viewer \<and> ds_item s = item \<and> ds_revision s = expected)"
proof -
  have key: "(\<lambda>d. \<not> same_dismissal \<lparr>ds_viewer = viewer, ds_kind = kind, ds_item = item, ds_revision = expected, ds_at = now\<rparr> d) =
      (\<lambda>d. (ds_viewer d, ds_kind d, ds_item d) \<noteq> (viewer, kind, item))" for now
    by (auto simp: same_dismissal_def fun_eq_iff)
  show ?thesis using dismiss_for_facts [OF assms] unfolding dismisses_def key by blast
qed

theorem dismissal_is_of_the_seen_state_witness:
  "\<exists>s db' l'. dismiss_for (sample_env [sample_execution]) ''ann'' kind_run ''develop-1'' sample_revision empty_hub [] =
     (Inr s, db', l') \<and> s \<in> set (hd_dismissals db') \<and> ds_revision s = sample_revision \<and> hub_db_ok db'"
proof -
  obtain s db' l' where run: "dismiss_for (sample_env [sample_execution]) ''ann'' kind_run ''develop-1'' sample_revision
      empty_hub [] = (Inr s, db', l')"
    using sample_dismissal
    by (cases "dismiss_for (sample_env [sample_execution]) ''ann'' kind_run ''develop-1'' sample_revision empty_hub []") auto
  from dismissal_is_of_the_seen_state [OF empty_hub_ok run] run show ?thesis by blast
qed

text \<open>
  C23: Dismissing and listing together: once a run's state is dismissed, no later listing of this
  viewer shows the run in that state, whatever the orchestrator and the record answer by then; the
  run comes back only with another revision.
\<close>

theorem dismissed_state_stays_hidden:
  assumes "hub_db_ok db" "dismiss_for env viewer kind_run item expected db l = (Inr s, db', l')"
    and "runs_for env' viewer limit db' l1 = (Inr out, db'', l2)" "r \<in> set out" "or_id r = item"
  shows "run_revision (hv_hash env') (hv_digest env') (hv_stamp env') r \<noteq> expected"
proof -
  from dismiss_for_facts [OF assms(1,2)] have ok: "hub_db_ok db'"
    and s: "s \<in> set (hd_dismissals db')" "ds_viewer s = viewer" "ds_kind s = kind_run" "ds_item s = item" "ds_revision s = expected"
    by auto
  obtain dismissed d1 where d: "dismissed_ids env' viewer db' l1 = (Inr dismissed, db', l1 @ d1)"
    and out: "runs_out env' (resolve_limit limit) dismissed l2 out"
    using runs_for_ok [where env = env' and viewer = viewer and limit = limit and db = db' and l = l1] assms(3) by (auto simp: vwp_def)
  have "has_dismissed dismissed kind_run item expected" using has_dismissed_at [OF ok d s(1-4)] s(5) by simp
  moreover have "\<not> hidden_run env' dismissed r" using out assms(4) by (simp add: runs_out_def shown_ok_def)
  ultimately show ?thesis using assms(5) by auto
qed

definition settled_execution :: hub_execution where
  "settled_execution = sample_execution\<lparr>he_outcome := OutcomeSucceeded, he_ended := 9\<rparr>"

theorem dismissed_state_stays_hidden_witness:
  "\<exists>s db' l' out db'' l2 r.
     dismiss_for (sample_env [sample_execution]) ''ann'' kind_run ''develop-1'' sample_revision empty_hub [] = (Inr s, db', l') \<and>
     runs_for (sample_env [settled_execution]) ''ann'' 0 db' [] = (Inr out, db'', l2) \<and> r \<in> set out \<and> or_id r = ''develop-1'' \<and>
     run_revision (\<lambda>x. x) (\<lambda>x. x) (\<lambda>n. itoa (int n)) r \<noteq> sample_revision"
proof -
  let ?db = "empty_hub\<lparr>hd_dismissals := [\<lparr>ds_viewer = ''ann'', ds_kind = kind_run, ds_item = ''develop-1'',
    ds_revision = sample_revision, ds_at = 7\<rparr>]\<rparr>"
  obtain s l' where run: "dismiss_for (sample_env [sample_execution]) ''ann'' kind_run ''develop-1'' sample_revision
      empty_hub [] = (Inr s, ?db, l')"
    using sample_dismissal
    by (cases "dismiss_for (sample_env [sample_execution]) ''ann'' kind_run ''develop-1'' sample_revision empty_hub []") auto
  have "map_sum id (map or_id) (fst (runs_for (sample_env [settled_execution]) ''ann'' 0 ?db [])) = Inr [''develop-1'']"
    by code_simp
  then obtain out db'' l2 where list: "runs_for (sample_env [settled_execution]) ''ann'' 0 ?db [] = (Inr out, db'', l2)"
      "map or_id out = [''develop-1'']"
    by (cases "runs_for (sample_env [settled_execution]) ''ann'' 0 ?db []") (auto simp: map_sum_def split: sum.splits)
  obtain r where r: "out = [r]" "or_id r = ''develop-1''" using list(2) by auto
  from dismissed_state_stays_hidden [OF empty_hub_ok run list(1)] r have
    "run_revision (hv_hash (sample_env [settled_execution])) (hv_digest (sample_env [settled_execution]))
       (hv_stamp (sample_env [settled_execution])) r \<noteq> sample_revision" by simp
  then have "run_revision (\<lambda>x. x) (\<lambda>x. x) (\<lambda>n. itoa (int n)) r \<noteq> sample_revision"
    by (simp add: sample_env_def)
  with run list r show ?thesis by fastforce
qed

end
