(* ===== verification/Hub_Places.thy ===== *)
theory Hub_Places
  imports Hub_Overview
begin

text \<open>
  The places an operator registers and the work started from the hub
  (\<open>agenthub/placeregistry.go\<close>, \<open>agenthub/launch.go\<close>).

  Two Go maps keyed by a place's identity, the observed places and what runs in each, are finite
  maps.  A kind of work that can be started is the string the request carries.  The error of a
  refused request names the rule that refused it.
\<close>

section \<open>Registered places\<close>

definition validate_place_directory :: "string \<Rightarrow> hub_error + unit" where
  "validate_place_directory dir =
     (if dir = [] then Inl (HubRequest ''the directory is required'')
      else if trim_space dir \<noteq> dir then Inl (HubRequest ''the directory must not be padded with whitespace'')
      else if \<not> valid_utf8 dir then Inl (HubRequest ''the directory is not valid text'')
      else if rune_count dir > max_location_path then Inl (HubRequest ''the directory is too long'')
      else if has_control dir then Inl (HubRequest ''the directory contains control characters'')
      else if \<not> has_prefix dir ''/'' then Inl (HubRequest ''the directory must be an absolute path'')
      else if path_clean dir \<noteq> dir then Inl (HubRequest ''the directory must be written plainly'')
      else Inr ())"

record registered_place =
  rd_location :: location
  rd_at :: nat
  rd_by :: string

definition place_from :: "registration \<Rightarrow> hub_error + registered_place" where
  "place_from g =
     (case recorded_location (rg_place g) of
        Inl x \<Rightarrow> Inl (HubBadPlace x)
      | Inr loc \<Rightarrow> Inr \<lparr>rd_location = loc, rd_at = rg_at g, rd_by = rg_by g\<rparr>)"

fun places_from :: "registration list \<Rightarrow> hub_error + registered_place list" where
  "places_from [] = Inr []"
| "places_from (g # gs) = rbind (place_from g) (\<lambda>p. rbind (places_from gs) (\<lambda>ps. Inr (p # ps)))"

definition registered_places :: "hub_env \<Rightarrow> registered_place list hub_body" where
  "registered_places env =
     vthen (stored env ''read the registered places'' pg_registrations) (\<lambda>gs.
     vthen (vdo (lift (places_from gs))) (\<lambda>ps.
     vret (sort_key (location_id (hv_digest env) \<circ> rd_location) ps)))"

definition register_place :: "hub_env \<Rightarrow> string \<Rightarrow> string \<Rightarrow> registered_place hub_body" where
  "register_place env dir by' =
     vthen (vdo (lift (validate_place_directory dir))) (\<lambda>_.
     vthen (vdo (attempt (perform (hv_inspect env dir) (HbInspect dir)))) (\<lambda>probed.
       case probed of
         Inl PortNoDirectory \<Rightarrow> vfail HubNoSuchDirectory
       | Inl PortNotRepository \<Rightarrow> vfail HubNotARepository
       | Inl f \<Rightarrow> vfail (HubUnavailable (''inspect '' @ dir) (CausePort f))
       | Inr facts \<Rightarrow>
           if \<not> place_recorded facts then vfail HubNotARepository
           else vthen (vdo (asking (hv_now env))) (\<lambda>now.
             vthen (stored env ''register the place'' (\<lambda>w. pg_register w
               \<lparr>rg_place = facts, rg_at = now, rg_by = by'\<rparr>)) (\<lambda>row'.
             vdo (lift (place_from row'))))))"

section \<open>What is known to run where\<close>

record known_work =
  kw_places :: "(string, location) fmap"
  kw_running :: "(string, string) fmap"

definition nothing_known :: known_work where
  "nothing_known = \<lparr>kw_places = fmempty, kw_running = fmempty\<rparr>"

definition remember :: "(string \<Rightarrow> string) \<Rightarrow> location \<Rightarrow> string \<Rightarrow> bool \<Rightarrow> known_work \<Rightarrow> known_work" where
  "remember digest place item running w =
     \<lparr>kw_places = fold (\<lambda>p. fmupd (location_id digest p) p) (place # ancestors place) (kw_places w),
      kw_running = (if running \<and> fmlookup (kw_running w) (location_id digest place) = None
                    then fmupd (location_id digest place) item (kw_running w) else kw_running w)\<rparr>"

definition running_in :: "known_work \<Rightarrow> string \<Rightarrow> string option" where
  "running_in w pid = fmlookup (kw_running w) pid"

definition remember_run :: "(string \<Rightarrow> string) \<Rightarrow> overview_run \<Rightarrow> known_work \<Rightarrow> known_work" where
  "remember_run digest r = remember digest (or_location r) (or_id r) (or_running r)"

definition remember_fleet :: "(string \<Rightarrow> string) \<Rightarrow> overview_fleet \<Rightarrow> known_work \<Rightarrow> known_work" where
  "remember_fleet digest f w =
     fold (\<lambda>n. remember digest (on_location n) (of_id f @ '' ('' @ on_id n @ '')'') (on_status n = InProgress))
       (of_nodes f) (remember digest (of_location f) (of_id f) (of_running f) w)"

definition remember_schedule :: "(string \<Rightarrow> string) \<Rightarrow> overview_schedule \<Rightarrow> known_work \<Rightarrow> known_work" where
  "remember_schedule digest s = remember digest (sd_location s) (sd_id s) (sd_running s > 0)"

definition known_work :: "hub_env \<Rightarrow> known_work hub_body" where
  "known_work env =
     vthen (hub_runs env max_hub_limit) (\<lambda>runs.
     vthen (hub_fleets env max_hub_limit) (\<lambda>fleets.
     vthen (vdo (hub_schedules env max_hub_limit)) (\<lambda>schedules.
     vret (fold (remember_schedule (hv_digest env)) schedules
       (fold (remember_fleet (hv_digest env)) fleets
         (fold (remember_run (hv_digest env)) runs nothing_known))))))"

text \<open>The places that can be named: observed ones and registered ones, with their ancestors.\<close>

definition add_known :: "(string \<Rightarrow> string) \<Rightarrow> location \<Rightarrow> (string, registered_place) fmap \<Rightarrow> (string, registered_place) fmap" where
  "add_known digest loc m =
     fold (\<lambda>p m. if location_kind p \<noteq> location_unknown \<and> fmlookup m (location_id digest p) = None
                 then fmupd (location_id digest p) \<lparr>rd_location = p, rd_at = 0, rd_by = []\<rparr> m else m)
       (loc # ancestors loc) m"

definition known_places :: "hub_env \<Rightarrow> registered_place list hub_body" where
  "known_places env =
     vthen (registered_places env) (\<lambda>registered.
     vthen (known_work env) (\<lambda>observed.
     let m = fold (add_known (hv_digest env)) (map_values (kw_places observed)) fmempty;
         m' = fold (\<lambda>p m. fmupd (location_id (hv_digest env) (rd_location p)) p
                      (add_known (hv_digest env) (rd_location p) m)) registered m in
     vret (sort_key (location_id (hv_digest env) \<circ> rd_location) (map_values m'))))"

section \<open>Starting work\<close>

definition start_develop :: string where "start_develop = ''develop''"
definition start_review :: string where "start_review = ''review''"

definition start_kinds :: "string list" where "start_kinds = [start_develop, start_review]"

definition max_request_id :: nat where "max_request_id = 200"
definition max_prompt :: nat where "max_prompt = 10000"

record start_request =
  sq_request :: string
  sq_kind :: string
  sq_place :: string
  sq_prompt :: string
  sq_worktree :: bool
  sq_by :: string

record started_work =
  sk_run :: string
  sk_kind :: string
  sk_location :: location
  sk_prompt :: string
  sk_at :: nat
  sk_by :: string

definition validate_request_id :: "string \<Rightarrow> hub_error + unit" where
  "validate_request_id rid =
     (if rid = [] then Inl (HubRequest ''a request id is required'')
      else if rune_count rid > max_request_id then Inl (HubRequest ''the request id is too long'')
      else if trim_space rid \<noteq> rid then Inl (HubRequest ''the request id must not be padded with whitespace'')
      else if has_control rid then Inl (HubRequest ''the request id contains control characters'')
      else Inr ())"

definition validate_start_kind :: "start_request \<Rightarrow> hub_error + unit" where
  "validate_start_kind q =
     (if sq_kind q = start_develop then
        (if blank (sq_prompt q) then Inl (HubRequest ''a develop pass needs a prompt'') else Inr ())
      else if sq_kind q = start_review then
        (if sq_prompt q \<noteq> [] then Inl (HubRequest ''a review pass takes no prompt'')
         else if sq_worktree q then Inl (HubRequest ''a review pass runs in the selected working tree'')
         else Inr ())
      else Inl (HubRequest ''this kind cannot be started here''))"

definition validate_start_request :: "start_request \<Rightarrow> hub_error + unit" where
  "validate_start_request q =
     rbind (validate_request_id (sq_request q)) (\<lambda>_.
     rbind (validate_start_kind q) (\<lambda>_.
       if rune_count (sq_prompt q) > max_prompt then Inl (HubRequest ''the prompt is too long'')
       else if \<not> valid_utf8 (sq_prompt q) then Inl (HubRequest ''the prompt is not valid text'')
       else if sq_place q = [] then Inl (HubRequest ''the place to work in is required'')
       else Inr ()))"

definition class_of :: "string \<Rightarrow> work_class" where
  "class_of kind =
     (if kind = start_develop then ClassDevelop else if kind = start_review then ClassReview else NoClass)"

definition started_from :: "launch \<Rightarrow> location \<Rightarrow> started_work" where
  "started_from launch place =
     \<lparr>sk_run = la_workflow launch, sk_kind = la_kind launch, sk_location = place, sk_prompt = la_prompt launch,
      sk_at = la_at launch, sk_by = la_by launch\<rparr>"

definition already_started :: "hub_env \<Rightarrow> string \<Rightarrow> started_work option hub_body" where
  "already_started env rid =
     vthen (vlook (statement env (\<lambda>w. pg_launch_of w rid))) (\<lambda>r.
       case r of
         Inl NoSuchItem \<Rightarrow> vret None
       | Inl e \<Rightarrow> vfail (HubUnavailable ''read what this request started'' (CauseStore e))
       | Inr launch \<Rightarrow>
           (case recorded_location (la_place launch) of
              Inl x \<Rightarrow> vfail (HubBadPlace x)
            | Inr loc \<Rightarrow> vret (Some (started_from launch loc))))"

definition place_to_work_in :: "hub_env \<Rightarrow> string \<Rightarrow> known_work \<Rightarrow> location hub_body" where
  "place_to_work_in env pid known =
     vthen (registered_places env) (\<lambda>registered.
       case find (\<lambda>p. location_id (hv_digest env) (rd_location p) = pid) registered of
         Some p \<Rightarrow> vret (rd_location p)
       | None \<Rightarrow>
           (case fmlookup (kw_places known) pid of
              Some loc \<Rightarrow> vret loc
            | None \<Rightarrow> vfail (HubNoPlace pid)))"

text \<open>The second half of a start: submitting the work and recording it.\<close>

definition submit_work :: "hub_env \<Rightarrow> start_request \<Rightarrow> location \<Rightarrow> string \<Rightarrow> string \<Rightarrow> started_work hub_body" where
  "submit_work env q place dir wid =
     (let spec = \<lparr>ss_workflow = wid, ss_kind = sq_kind q, ss_directory = dir, ss_prompt = sq_prompt q,
                  ss_worktree = sq_worktree q, ss_by = sq_by q\<rparr> in
      vthen (vdo (ask ''start the work'' (hv_start env spec) (HbStart spec))) (\<lambda>_.
      vthen (vdo (asking (hv_now env))) (\<lambda>now.
      vthen (stored env ''record the start'' (\<lambda>w. pg_launch w
          \<lparr>la_request = sq_request q, la_workflow = wid, la_kind = sq_kind q,
           la_place = \<lparr>rp_directory = dir, rp_repository = [], rp_ref = []\<rparr>, la_prompt = sq_prompt q,
           la_at = now, la_by = sq_by q\<rparr>)) (\<lambda>row'.
      vret (started_from row' place)))))"

definition start_work :: "hub_env \<Rightarrow> start_request \<Rightarrow> started_work hub_body" where
  "start_work env q =
     vthen (vdo (lift (validate_start_request q))) (\<lambda>_.
     vthen (already_started env (sq_request q)) (\<lambda>earlier.
       case earlier of
         Some w \<Rightarrow> vret w
       | None \<Rightarrow>
           vthen (known_work env) (\<lambda>known.
           vthen (place_to_work_in env (sq_place q) known) (\<lambda>place.
             case place_directory place of
               None \<Rightarrow> vfail (HubNoTree (location_label place))
             | Some dir \<Rightarrow>
                 (case running_in known (location_id (hv_digest env) place) of
                    Some item \<Rightarrow> vfail (HubPlaceIsBusy item (location_label place))
                  | None \<Rightarrow>
                      (case for_request (hv_uuid_of env) (class_of (sq_kind q)) (sq_request q) of
                         None \<Rightarrow> vfail (HubNoConvention (sq_kind q))
                       | Some wid \<Rightarrow> submit_work env q place dir wid))))))"

section \<open>Reading what is known\<close>

lemma vreads_registered_places [intro!]: "vreads (registered_places env)"
  unfolding registered_places_def using selects(2) by auto

lemma vreads_hub_runs [intro!]: "vreads (hub_runs env limit)"
  unfolding hub_runs_def by auto

lemma vreads_hub_fleets [intro!]: "vreads (hub_fleets env limit)"
  unfolding hub_fleets_def by auto

lemma vreads_known_work [intro!]: "vreads (known_work env)"
  unfolding known_work_def by auto

lemma vreads_already_started [intro!]: "vreads (already_started env rid)"
  unfolding already_started_def using selects(3)
  by (auto split: sum.split store_error.split)

lemma vreads_place_to_work_in [intro!]: "vreads (place_to_work_in env pid known)"
  unfolding place_to_work_in_def by (auto split: option.split)

lemma places_from_at: "places_from gs = Inr ps \<Longrightarrow> p \<in> set ps \<Longrightarrow> \<exists>g \<in> set gs. place_from g = Inr p"
  by (induction gs arbitrary: ps) (auto simp: rbind_eq_Inr)

lemma registered_places_at:
  assumes "registered_places env db l = (Inr ps, db', l')" "p \<in> set ps"
  shows "\<exists>g \<in> set (hd_places db). recorded_location (rg_place g) = Inr (rd_location p)"
proof -
  obtain qs where "places_from (sort_key registration_key (hd_places db)) = Inr qs" "set ps = set qs"
    using assms(1)
    by (auto simp: registered_places_def vthen_def vret_def vdo_def lift_def stored_def vmap_error_def statement_def
        pg_registrations_def returning_def Let_def split: prod.splits sum.splits write_fault.splits)
  with places_from_at [of "sort_key registration_key (hd_places db)" qs p] assms(2)
  obtain g where "g \<in> set (hd_places db)" "place_from g = Inr p" by auto
  then show ?thesis
    by (intro bexI [of _ g]; cases "recorded_location (rg_place g)") (auto simp: place_from_def)
qed

text \<open>
  \<open>workable\<close>: a place the hub may start work in: it is registered, or some work was observed in it
  or under it.
\<close>

definition workable :: "hub_env \<Rightarrow> hub_db \<Rightarrow> known_work \<Rightarrow> location \<Rightarrow> bool" where
  "workable env db known place =
     ((\<exists>g \<in> set (hd_places db). recorded_location (rg_place g) = Inr place) \<or>
      fmlookup (kw_places known) (location_id (hv_digest env) place) = Some place)"

definition places_keyed :: "(string \<Rightarrow> string) \<Rightarrow> known_work \<Rightarrow> bool" where
  "places_keyed digest w = (\<forall>k p. fmlookup (kw_places w) k = Some p \<longrightarrow> location_id digest p = k)"

lemma keyed_places_fold:
  "\<forall>k p. fmlookup m k = Some p \<longrightarrow> location_id digest p = k \<Longrightarrow>
   fmlookup (fold (\<lambda>p. fmupd (location_id digest p) p) xs m) k = Some p \<Longrightarrow> location_id digest p = k"
proof (induction xs arbitrary: m)
  case (Cons x xs)
  have "\<forall>k p. fmlookup (fmupd (location_id digest x) x m) k = Some p \<longrightarrow> location_id digest p = k"
    using Cons.prems(1) by simp
  from Cons.IH [OF this] Cons.prems(2) show ?case by simp
qed simp

lemma remember_keyed: "places_keyed digest w \<Longrightarrow> places_keyed digest (remember digest place item running w)"
  unfolding places_keyed_def remember_def known_work.simps using keyed_places_fold [of "kw_places w" digest] by (intro allI impI)

lemma fold_places_keyed:
  "(\<And>x w. places_keyed digest w \<Longrightarrow> places_keyed digest (f x w)) \<Longrightarrow> places_keyed digest w \<Longrightarrow> places_keyed digest (fold f xs w)"
  by (induction xs arbitrary: w) auto

lemma known_work_keyed:
  assumes "known_work env db l = (Inr known, db', l')"
  shows "places_keyed (hv_digest env) known"
proof -
  have none: "places_keyed digest nothing_known" for digest
    by (simp add: places_keyed_def nothing_known_def)
  have "places_keyed digest (fold (remember_run digest) runs nothing_known)" for digest runs
    by (rule fold_places_keyed [OF _ none]) (simp add: remember_run_def remember_keyed)
  then have "places_keyed digest (fold (remember_fleet digest) fleets (fold (remember_run digest) runs nothing_known))" for digest fleets runs
    by (rule fold_places_keyed [rotated]) (auto simp: remember_fleet_def intro!: fold_places_keyed remember_keyed)
  then have "places_keyed digest (fold (remember_schedule digest) schedules
      (fold (remember_fleet digest) fleets (fold (remember_run digest) runs nothing_known)))" for digest schedules fleets runs
    by (rule fold_places_keyed [rotated]) (simp add: remember_schedule_def remember_keyed)
  then show ?thesis
    using assms by (auto simp: known_work_def vthen_def vret_def vdo_def split: prod.splits sum.splits)
qed

lemma place_to_work_in_workable:
  assumes "place_to_work_in env pid known db l = (Inr place, db', l')" "places_keyed (hv_digest env) known"
  shows "workable env db known place \<and> location_id (hv_digest env) place = pid"
proof -
  obtain r db1 l1 where reg: "registered_places env db l = (r, db1, l1)" by (metis prod_cases3)
  then obtain ps where ps: "r = Inr ps" using assms(1) by (cases r) (auto simp: place_to_work_in_def vthen_def)
  show ?thesis
  proof (cases "find (\<lambda>p. location_id (hv_digest env) (rd_location p) = pid) ps")
    case (Some p)
    then have "place = rd_location p" using assms(1) reg ps by (simp add: place_to_work_in_def vthen_def vret_def)
    moreover have "location_id (hv_digest env) (rd_location p) = pid" "p \<in> set ps"
      using Some by (auto simp: find_Some_iff)
    ultimately show ?thesis using registered_places_at [OF reg [unfolded ps]] by (auto simp: workable_def)
  next
    case None
    then have "fmlookup (kw_places known) pid = Some place"
      using assms(1) reg ps by (auto simp: place_to_work_in_def vthen_def vret_def vfail_def split: option.splits)
    with assms(2) show ?thesis by (auto simp: workable_def places_keyed_def)
  qed
qed

section \<open>What a start does\<close>

abbreviation launch_at :: "hub_db \<Rightarrow> string \<Rightarrow> launch option" where
  "launch_at db rid \<equiv> find (\<lambda>r. la_request r = rid) (hd_launches db)"

lemma already_started_some:
  assumes "already_started env rid db l = (Inr (Some w), db', l')"
  shows "\<exists>la loc. launch_at db rid = Some la \<and> w = started_from la loc"
  using assms
  by (auto simp: already_started_def vthen_def vlook_def statement_def Let_def pg_launch_of_def returning_def vret_def
      vfail_def split: prod.splits sum.splits store_error.splits write_fault.splits option.splits)

lemma already_started_none:
  assumes "already_started env rid db l = (Inr None, db', l')"
  shows "find (\<lambda>r. la_request r = rid) (hd_launches db) = None"
  using assms
  by (auto simp: already_started_def vthen_def vlook_def statement_def Let_def pg_launch_of_def returning_def vret_def
      vfail_def split: prod.splits sum.splits store_error.splits write_fault.splits option.splits)

text \<open>How far a start went: it only read, or it submitted this work and then tried to record it.\<close>

definition submitted :: "hub_env \<Rightarrow> start_request \<Rightarrow> hub_db \<Rightarrow> hub_ev list \<Rightarrow> hub_ev list \<Rightarrow> start_spec \<Rightarrow> bool" where
  "submitted env q db l m spec =
     (validate_start_request q = Inr () \<and> find (\<lambda>la. la_request la = sq_request q) (hd_launches db) = None \<and>
      for_request (hv_uuid_of env) (class_of (sq_kind q)) (sq_request q) = Some (ss_workflow spec) \<and>
      ss_kind spec = sq_kind q \<and> ss_prompt spec = sq_prompt q \<and> ss_worktree spec = sq_worktree q \<and> ss_by spec = sq_by q \<and>
      (\<exists>known place l0 l1. known_work env db l0 = (Inr known, db, l1) \<and> extends l l0 \<and> extends l1 m \<and>
        ((\<exists>g \<in> set (hd_places db). recorded_location (rg_place g) = Inr place) \<or>
         fmlookup (kw_places known) (sq_place q) = Some place) \<and>
        location_id (hv_digest env) place = sq_place q \<and> place_directory place = Some (ss_directory spec) \<and>
        running_in known (sq_place q) = None))"

lemma start_work_cases:
  assumes "start_work env q db l = (r, db', l')"
  obtains d where "db' = db" "l' = l @ d" "list_all read_event d"
      "is_ok r \<Longrightarrow> \<exists>la loc. launch_at db (sq_request q) = Some la \<and> r = Inr (started_from la loc)"
  | d spec a rest where "l' = l @ d @ [HbStart spec a] @ rest" "list_all read_event d" "list_all read_event rest"
      "submitted env q db l (l @ d) spec" "\<not> is_ok a" "db' = db" "\<not> is_ok r"
  | d spec w place now row' where "l' = l @ d @ [HbStart spec (Inr ()), HbStore w]" "list_all read_event d"
      "submitted env q db l (l @ d) spec"
      "pg_launch w \<lparr>la_request = sq_request q, la_workflow = ss_workflow spec, la_kind = sq_kind q,
         la_place = \<lparr>rp_directory = ss_directory spec, rp_repository = [], rp_ref = []\<rparr>, la_prompt = sq_prompt q,
         la_at = now, la_by = sq_by q\<rparr> db = (row', db')"
      "r = (case row' of Inl e \<Rightarrow> Inl (HubUnavailable ''record the start'' (CauseStore e)) | Inr k \<Rightarrow> Inr (started_from k place))"
proof (cases "validate_start_request q")
  case (Inl e)
  then have "db' = db" "l' = l @ []" "\<not> is_ok r"
    using assms by (auto simp: start_work_def vthen_def vdo_def lift_def is_ok_def)
  then show ?thesis using that(1) [of "[]"] by simp
next
  case valid: (Inr u)
  obtain r1 db1 l1 where a: "already_started env (sq_request q) db l = (r1, db1, l1)" by (metis prod_cases3)
  from vreadsE [OF vreads_already_started a] obtain d1 where d1: "db1 = db" "l1 = l @ d1" "list_all read_event d1" .
  note step = assms [unfolded start_work_def vthen_def vdo_def lift_def]
  consider (stop) "r1 \<noteq> Inr None" | (fresh) "r1 = Inr None" by blast
  then show ?thesis
  proof cases
    case stop
    then have "db' = db \<and> l' = l @ d1 \<and> (is_ok r \<longrightarrow> (\<exists>w. r1 = Inr (Some w) \<and> r = Inr w))"
      using step valid a d1 by (auto simp: vret_def is_ok_def split: sum.splits option.splits)
    with d1(3) already_started_some [of env "sq_request q" db l _ db1 l1] a show ?thesis using that(1) by blast
  next
    case fresh
    obtain r2 db2 l2 where k: "known_work env db l1 = (r2, db2, l2)" by (metis prod_cases3)
    from vreadsE [OF vreads_known_work k] obtain d2 where d2: "db2 = db" "l2 = l1 @ d2" "list_all read_event d2" .
    show ?thesis
    proof (cases r2)
      case (Inl e)
      then have "db' = db \<and> l' = l @ d1 @ d2 \<and> \<not> is_ok r" using step valid a d1 fresh k d2 by auto
      with d1(3) d2(3) show ?thesis using that(1) [of "d1 @ d2"] by simp
    next
      case known: (Inr known)
      obtain r3 db3 l3 where p: "place_to_work_in env (sq_place q) known db l2 = (r3, db3, l3)" by (metis prod_cases3)
      from vreadsE [OF vreads_place_to_work_in p] obtain d3 where d3: "db3 = db" "l3 = l2 @ d3" "list_all read_event d3" .
      let ?d = "d1 @ d2 @ d3"
      have reads: "list_all read_event ?d" and l3: "l3 = l @ ?d" using d1 d2 d3 by simp_all
      note done' = step [unfolded valid, simplified, unfolded a, simplified, unfolded fresh d1(1), simplified,
          unfolded k, simplified, unfolded known d2(1), simplified, unfolded p, simplified, unfolded d3(1)]
      show ?thesis
      proof (cases "\<exists>place dir wid. r3 = Inr place \<and> place_directory place = Some dir \<and>
          running_in known (location_id (hv_digest env) place) = None \<and>
          for_request (hv_uuid_of env) (class_of (sq_kind q)) (sq_request q) = Some wid")
        case False
        then have "db' = db \<and> l' = l @ ?d \<and> \<not> is_ok r"
          using done' l3 by (auto simp: vfail_def split: sum.splits option.splits)
        with reads show ?thesis using that(1) by blast
      next
        case True
        then obtain place dir wid where go: "r3 = Inr place" "place_directory place = Some dir"
            "running_in known (location_id (hv_digest env) place) = None"
            "for_request (hv_uuid_of env) (class_of (sq_kind q)) (sq_request q) = Some wid" by blast
        define spec where "spec = \<lparr>ss_workflow = wid, ss_kind = sq_kind q, ss_directory = dir, ss_prompt = sq_prompt q,
            ss_worktree = sq_worktree q, ss_by = sq_by q\<rparr>"
        from place_to_work_in_workable [OF p [unfolded go(1)] known_work_keyed [OF k [unfolded known]]]
        have place: "workable env db known place" "location_id (hv_digest env) place = sq_place q" by auto
        have sub: "submitted env q db l (l @ ?d) spec"
          unfolding submitted_def
          by (intro conjI, insert valid already_started_none [OF a [unfolded fresh]] go(4), simp_all add: spec_def,
              rule exI [of _ known], rule exI [of _ place], rule exI [of _ l1], rule exI [of _ l2])
            (use go place k known d1(2) d2(1,2) in \<open>auto simp: workable_def extends_def\<close>)
        have run: "submit_work env q place dir wid db l3 = (r, db', l')"
          using done' go by simp
        show ?thesis
        proof (cases "hv_start env spec l3")
          case (Inl f)
          then have "l' = l @ ?d @ [HbStart spec (Inl f)] @ [] \<and> db' = db \<and> \<not> is_ok r"
            using run l3 by (auto simp: submit_work_def Let_def spec_def [symmetric] vthen_def vdo_def ask_def on_error_def
                perform_def is_ok_iff)
          with reads sub show ?thesis using that(2) [of ?d spec "Inl f" "[]"] by simp
        next
          case (Inr ok)
          let ?l4 = "l3 @ [HbStart spec (Inr ())]"
          obtain row' db4 where pg: "pg_launch (hv_store env ?l4) \<lparr>la_request = sq_request q, la_workflow = wid, la_kind = sq_kind q,
              la_place = \<lparr>rp_directory = dir, rp_repository = [], rp_ref = []\<rparr>, la_prompt = sq_prompt q,
              la_at = hv_now env ?l4, la_by = sq_by q\<rparr> db = (row', db4)" by fastforce
          have "l' = l @ ?d @ [HbStart spec (Inr ()), HbStore (hv_store env ?l4)] \<and> db' = db4 \<and>
            r = (case row' of Inl e \<Rightarrow> Inl (HubUnavailable ''record the start'' (CauseStore e)) | Inr k \<Rightarrow> Inr (started_from k place))"
            using run l3 Inr pg by (auto simp: submit_work_def Let_def spec_def [symmetric] vthen_def vdo_def ask_def
                on_error_def perform_def asking_def stored_def vmap_error_def statement_def vret_def split: sum.splits)
          with reads sub pg show ?thesis
            using that(3) [of ?d spec "hv_store env ?l4" "hv_now env ?l4" row' place] by (auto simp: spec_def)
        qed
      qed
    qed
  qed
qed

section \<open>Every operation of the hub\<close>

text \<open>
  \<open>served u db db'\<close>: the service took its tables from \<open>db\<close> to \<open>db'\<close> by any number of requests, each
  with answers and faults of its own; \<open>u\<close> is the UUID function, the same throughout.  The reads are
  left out: they leave the tables as they are.
\<close>

inductive served :: "(string \<Rightarrow> string) \<Rightarrow> hub_db \<Rightarrow> hub_db \<Rightarrow> bool" for u where
  idle: "served u db db"
| start: "served u db db1 \<Longrightarrow> hv_uuid_of env = u \<Longrightarrow> start_work env q db1 l = (r, db2, l') \<Longrightarrow> served u db db2"
| register: "served u db db1 \<Longrightarrow> register_place env dir by' db1 l = (r, db2, l') \<Longrightarrow> served u db db2"
| dismiss: "served u db db1 \<Longrightarrow> dismiss_for env viewer kind item expected db1 l = (r, db2, l') \<Longrightarrow> served u db db2"
| undismiss: "served u db db1 \<Longrightarrow> undismiss_for env viewer kind item db1 l = (r, db2, l') \<Longrightarrow> served u db db2"

definition minted :: "(string \<Rightarrow> string) \<Rightarrow> hub_db \<Rightarrow> bool" where
  "minted u db =
     (\<forall>r \<in> set (hd_launches db). for_request u (class_of (la_kind r)) (la_request r) = Some (la_workflow r))"

abbreviation registration_at :: "hub_db \<Rightarrow> string \<Rightarrow> registration option" where
  "registration_at db dir \<equiv> find (\<lambda>g. registration_key g = dir) (hd_places db)"

definition keeps_rows :: "hub_db \<Rightarrow> hub_db \<Rightarrow> bool" where
  "keeps_rows db db' =
     ((\<forall>k y. launch_at db k = Some y \<longrightarrow> launch_at db' k = Some y) \<and>
      (\<forall>k y. registration_at db k = Some y \<longrightarrow> registration_at db' k = Some y))"

lemma keeps_rows_refl [simp]: "keeps_rows db db"
  by (simp add: keeps_rows_def)

lemma keeps_rows_trans: "keeps_rows db db1 \<Longrightarrow> keeps_rows db1 db2 \<Longrightarrow> keeps_rows db db2"
  by (simp add: keeps_rows_def)

text \<open>One write to the launches.\<close>

lemma first_row_cases:
  assumes "first_row key x rows = (y, rows')"
  shows "rows' = rows \<and> y \<in> set rows \<and> key y = key x \<or> rows' = rows @ [x] \<and> y = x \<and> key x \<notin> key ` set rows"
  using assms by (auto simp: first_row_def find_Some_iff find_None_iff split: option.splits)

lemma pg_launch_cases:
  assumes "pg_launch w la db = (row', db')"
  shows "db' = db \<or> hd_launches db' = hd_launches db @ [launch_row la] \<and> hd_places db' = hd_places db \<and>
    hd_dismissals db' = hd_dismissals db \<and> la_request la \<notin> la_request ` set (hd_launches db) \<and>
    la_workflow la \<notin> la_workflow ` set (hd_launches db)"
proof -
  have dup: "la_workflow la \<notin> la_workflow ` set (hd_launches db)"
    if "\<not> list_ex (\<lambda>r. la_workflow r = la_workflow la \<and> la_request r \<noteq> la_request la) (hd_launches db) \<or>
        list_ex (\<lambda>r. la_request r = la_request la) (hd_launches db)"
      "la_request la \<notin> la_request ` set (hd_launches db)"
    using that unfolding list_ex_iff image_iff by auto
  obtain top rows where f: "first_row la_request (launch_row la) (hd_launches db) = (top, rows)" by fastforce
  from first_row_cases [OF f] dup show ?thesis
    using assms f by (auto simp: pg_launch_def returning_def split: write_fault.splits if_splits)
qed

lemma pg_register_cases:
  assumes "pg_register w g db = (row', db')"
  shows "db' = db \<or> hd_places db' = hd_places db @ [registration_row g] \<and> hd_launches db' = hd_launches db \<and>
    hd_dismissals db' = hd_dismissals db \<and> registration_key g \<notin> registration_key ` set (hd_places db)"
proof -
  obtain top rows where f: "first_row registration_key (registration_row g) (hd_places db) = (top, rows)" by fastforce
  from first_row_cases [OF f] show ?thesis
    using assms f by (auto simp: pg_register_def returning_def split: write_fault.splits)
qed

lemma start_work_keeps:
  assumes "hub_db_ok db" "minted (hv_uuid_of env) db" "start_work env q db l = (r, db', l')"
  shows "hub_db_ok db' \<and> minted (hv_uuid_of env) db' \<and> keeps_rows db db'"
proof (rule start_work_cases [OF assms(3)], goal_cases)
  case (3 d spec w place now row')
  from pg_launch_cases [OF 3(4)] show ?case
  proof
    assume "db' = db"
    with assms(1,2) show ?thesis by simp
  next
    assume new: "hd_launches db' = hd_launches db @ [launch_row \<lparr>la_request = sq_request q, la_workflow = ss_workflow spec,
        la_kind = sq_kind q, la_place = \<lparr>rp_directory = ss_directory spec, rp_repository = [], rp_ref = []\<rparr>,
        la_prompt = sq_prompt q, la_at = now, la_by = sq_by q\<rparr>] \<and> hd_places db' = hd_places db \<and>
      hd_dismissals db' = hd_dismissals db \<and>
      la_request \<lparr>la_request = sq_request q, la_workflow = ss_workflow spec,
        la_kind = sq_kind q, la_place = \<lparr>rp_directory = ss_directory spec, rp_repository = [], rp_ref = []\<rparr>,
        la_prompt = sq_prompt q, la_at = now, la_by = sq_by q\<rparr> \<notin> la_request ` set (hd_launches db) \<and>
      la_workflow \<lparr>la_request = sq_request q, la_workflow = ss_workflow spec,
        la_kind = sq_kind q, la_place = \<lparr>rp_directory = ss_directory spec, rp_repository = [], rp_ref = []\<rparr>,
        la_prompt = sq_prompt q, la_at = now, la_by = sq_by q\<rparr> \<notin> la_workflow ` set (hd_launches db)"
    have mint: "for_request (hv_uuid_of env) (class_of (sq_kind q)) (sq_request q) = Some (ss_workflow spec)"
      using 3(3) by (simp add: submitted_def)
    show ?thesis
    proof (intro conjI)
      show "hub_db_ok db'" using assms(1) new by (simp add: hub_db_ok_def)
      show "minted (hv_uuid_of env) db'" using assms(2) new mint by (simp add: minted_def launch_row_def)
      show "keeps_rows db db'" using new by (simp add: keeps_rows_def find_append)
    qed
  qed
qed (use assms in auto)

lemma register_place_pg:
  assumes "register_place env dir by' db l = (r, db', l')"
  shows "db' = db \<and> \<not> is_ok r \<or> (\<exists>facts w now row'. validate_place_directory dir = Inr () \<and>
    hv_inspect env dir l = Inr facts \<and> place_recorded facts \<and>
    pg_register w \<lparr>rg_place = facts, rg_at = now, rg_by = by'\<rparr> db = (row', db') \<and>
    r = (case row' of Inl e \<Rightarrow> Inl (HubUnavailable ''register the place'' (CauseStore e)) | Inr g \<Rightarrow> place_from g))"
proof (cases "validate_place_directory dir")
  case (Inl e)
  then show ?thesis using assms by (auto simp: register_place_def vthen_def vdo_def lift_def is_ok_def)
next
  case ok: (Inr u)
  note step = assms [unfolded register_place_def vthen_def vdo_def lift_def attempt_def perform_def, unfolded ok, simplified]
  show ?thesis
  proof (cases "hv_inspect env dir l")
    case (Inl f)
    then show ?thesis using step by (cases f) (auto simp: vfail_def is_ok_def)
  next
    case (Inr facts)
    show ?thesis
    proof (cases "place_recorded facts")
      case False
      then show ?thesis using step Inr by (auto simp: vfail_def is_ok_def)
    next
      case True
      let ?l = "l @ [HbInspect dir (Inr facts)]"
      obtain row' db4 where "pg_register (hv_store env ?l) \<lparr>rg_place = facts, rg_at = hv_now env ?l, rg_by = by'\<rparr> db = (row', db4)"
        by fastforce
      moreover from this have "db' = db4 \<and>
          r = (case row' of Inl e \<Rightarrow> Inl (HubUnavailable ''register the place'' (CauseStore e)) | Inr g \<Rightarrow> place_from g)"
        using step Inr True by (auto simp: asking_def stored_def vmap_error_def statement_def Let_def split: sum.splits)
      ultimately show ?thesis using ok Inr True by auto
    qed
  qed
qed

lemma register_place_keeps:
  assumes "hub_db_ok db" "minted u db" "register_place env dir by' db l = (r, db', l')"
  shows "hub_db_ok db' \<and> minted u db' \<and> keeps_rows db db'"
proof -
  consider "db' = db" | facts w now row' where
    "pg_register w \<lparr>rg_place = facts, rg_at = now, rg_by = by'\<rparr> db = (row', db')"
    using register_place_pg [OF assms(3)] by blast
  then show ?thesis
  proof cases
    case 2
    from pg_register_cases [OF 2] assms(1,2) show ?thesis
      by (auto simp: hub_db_ok_def minted_def keeps_rows_def find_append image_iff)
  qed (use assms in simp)
qed

lemma dismiss_for_keeps:
  assumes "hub_db_ok db" "minted u db" "dismiss_for env viewer kind item expected db l = (r, db', l')"
  shows "hub_db_ok db' \<and> minted u db' \<and> keeps_rows db db'"
  using dismiss_for_facts [OF assms(1,3)] assms(2) by (auto simp: dismisses_def minted_def keeps_rows_def)

lemma pg_undismiss_rows:
  "snd (pg_undismiss w viewer kind item db) = db \<or>
   snd (pg_undismiss w viewer kind item db) = db\<lparr>hd_dismissals := filter (\<lambda>d. \<not> (ds_viewer d = viewer \<and> ds_kind d = kind \<and> ds_item d = item)) (hd_dismissals db)\<rparr>"
  by (simp add: pg_undismiss_def returning_def Let_def split: write_fault.split)

lemma undismiss_for_db:
  assumes "undismiss_for env viewer kind item db l = (r, db', l')"
  shows "db' = db \<or> db' = db\<lparr>hd_dismissals := filter (\<lambda>d. \<not> (ds_viewer d = viewer \<and> ds_kind d = kind \<and> ds_item d = item)) (hd_dismissals db)\<rparr>"
proof (cases "validate_dismissal_target kind item")
  case (Inl e)
  then show ?thesis using assms by (simp add: undismiss_for_def vthen_def vdo_def check_target_def lift_def)
next
  case (Inr u)
  obtain q db4 where pg: "pg_undismiss (hv_store env l) viewer kind item db = (q, db4)" by fastforce
  with Inr have "db' = snd (pg_undismiss (hv_store env l) viewer kind item db)"
    using assms by (cases q) (simp_all add: undismiss_for_def vthen_def vdo_def check_target_def lift_def vmap_error_def
        statement_def Let_def)
  then show ?thesis using pg_undismiss_rows [of "hv_store env l" viewer kind item db] by (simp only:)
qed

lemma undismiss_for_keeps:
  assumes "hub_db_ok db" "minted u db" "undismiss_for env viewer kind item db l = (r, db', l')"
  shows "hub_db_ok db' \<and> minted u db' \<and> keeps_rows db db'"
proof (rule disjE [OF undismiss_for_db [OF assms(3)]])
  assume "db' = db"
  with assms(1,2) show ?thesis by simp
next
  assume db: "db' = db\<lparr>hd_dismissals := filter (\<lambda>d. \<not> (ds_viewer d = viewer \<and> ds_kind d = kind \<and> ds_item d = item))
    (hd_dismissals db)\<rparr>"
  have rows: "hd_places db' = hd_places db" "hd_launches db' = hd_launches db"
    "hd_dismissals db' = filter (\<lambda>d. \<not> (ds_viewer d = viewer \<and> ds_kind d = kind \<and> ds_item d = item)) (hd_dismissals db)"
    using db by simp_all
  let ?key = "\<lambda>d. (ds_viewer d, ds_kind d, ds_item d)"
  have "distinct (map (\<lambda>d. (ds_viewer d, ds_kind d, ds_item d)) (hd_dismissals db'))"
    unfolding rows by (rule distinct_map_filter [OF conjunct1 [OF assms(1) [unfolded hub_db_ok_def]]])
  moreover have "set (hd_dismissals db') \<subseteq> set (hd_dismissals db)" unfolding rows by auto
  then have "\<forall>d \<in> set (hd_dismissals db'). ds_kind d \<in> {kind_fleet, kind_run}"
    using assms(1) unfolding hub_db_ok_def by (meson subsetD)
  ultimately have "hub_db_ok db'" using assms(1) unfolding hub_db_ok_def rows(1,2) by (intro conjI) (elim conjE, assumption)+
  moreover have "minted u db'" using assms(2) unfolding minted_def rows .
  moreover have "keeps_rows db db'" unfolding keeps_rows_def rows by simp
  ultimately show ?thesis by (intro conjI)
qed

lemma served_keeps:
  "served u db db' \<Longrightarrow> hub_db_ok db \<Longrightarrow> minted u db \<Longrightarrow> hub_db_ok db' \<and> minted u db' \<and> keeps_rows db db'"
proof (induction rule: served.induct)
  case (start db db1 env q l r db2 l')
  then show ?case using start_work_keeps keeps_rows_trans by metis
next
  case (register db db1 env dir by' l r db2 l')
  then show ?case using register_place_keeps keeps_rows_trans by metis
next
  case (dismiss db db1 env viewer kind item expected l r db2 l')
  then show ?case using dismiss_for_keeps keeps_rows_trans by metis
next
  case (undismiss db db1 env viewer kind item l r db2 l')
  then show ?case using undismiss_for_keeps keeps_rows_trans by metis
qed simp

lemma already_started_again:
  assumes "launch_at db rid = Some la" "already_started env rid db l = (r, db', l')"
  shows "\<not> is_ok r \<or> (\<exists>loc. r = Inr (Some (started_from la loc)))"
  using assms
  by (auto simp: already_started_def vthen_def vlook_def statement_def Let_def pg_launch_of_def returning_def vret_def
      vfail_def is_ok_def split: prod.splits sum.splits store_error.splits write_fault.splits option.splits)

text \<open>A start that answers leaves the launch it describes in the tables, under the request.\<close>

lemma start_work_answers:
  assumes "start_work env q db l = (Inr s, db', l')"
  shows "\<exists>la loc. launch_at db' (sq_request q) = Some la \<and> s = started_from la loc"
proof (rule start_work_cases [OF assms], goal_cases)
  case (1 d)
  then show ?case by auto
next
  case (2 d spec a rest)
  then show ?case by simp
next
  case (3 d spec w place now row')
  then obtain la where la: "row' = Inr la" "s = started_from la place" by (cases row') auto
  from launches.answers [OF 3(4) [unfolded la(1)]] la(2) show ?case by auto
qed

section \<open>A place to start in\<close>

definition sample_request :: start_request where
  "sample_request = \<lparr>sq_request = ''req-1'', sq_kind = start_review, sq_place = location_id (\<lambda>x. x) (DirectoryPlace ''/src/app'' None),
     sq_prompt = [], sq_worktree = False, sq_by = ''ann''\<rparr>"

definition sample_hub :: hub_db where
  "sample_hub = empty_hub\<lparr>hd_places := [\<lparr>rg_place = \<lparr>rp_directory = ''/src/app'', rp_repository = [], rp_ref = []\<rparr>,
     rg_at = 7, rg_by = ''ann''\<rparr>]\<rparr>"

definition sample_launch :: launch where
  "sample_launch = \<lparr>la_request = ''req-1'', la_workflow = ''review-review'' @ [CHR 0x00] @ ''req-1'', la_kind = start_review,
     la_place = \<lparr>rp_directory = ''/src/app'', rp_repository = [], rp_ref = []\<rparr>, la_prompt = [], la_at = 7, la_by = ''ann''\<rparr>"

lemma sample_register:
  "map_prod id fst (register_place (sample_env []) ''/src/app'' ''ann'' empty_hub []) =
     (Inr \<lparr>rd_location = DirectoryPlace ''/src/app'' None, rd_at = 7, rd_by = ''ann''\<rparr>, sample_hub)"
  by code_simp

lemma sample_start:
  "map_prod id fst (start_work (sample_env []) sample_request sample_hub []) =
     (Inr (started_from sample_launch (DirectoryPlace ''/src/app'' None)), sample_hub\<lparr>hd_launches := [sample_launch]\<rparr>)"
  by code_simp

text \<open>
  While the recorded run goes on in the place, a start there is refused; once the local operator
  has dismissed the state the run is in, it is not: what is known to run is read from that
  operator's own listing, which no longer shows it.
\<close>

lemma running_place_is_busy:
  "fst (start_work (sample_env [sample_execution]) sample_request sample_hub []) = Inl (HubPlaceIsBusy ''develop-1'' ''app'')"
  by code_simp

lemma dismissed_run_is_not_busy:
  "fst (start_work (sample_env [sample_execution]) sample_request (sample_hub\<lparr>hd_dismissals :=
     [\<lparr>ds_viewer = local_viewer, ds_kind = kind_run, ds_item = ''develop-1'', ds_revision = sample_revision, ds_at = 7\<rparr>]\<rparr>) []) =
   Inr (started_from sample_launch (DirectoryPlace ''/src/app'' None))"
  by code_simp

lemma register_place_row:
  assumes "register_place env dir by' db l = (Inr p, db', l')"
  shows "\<exists>facts g. validate_place_directory dir = Inr () \<and> hv_inspect env dir l = Inr facts \<and> place_recorded facts \<and>
    registration_at db' (rp_directory facts) = Some g \<and> place_from g = Inr p"
proof -
  obtain facts w now row' where f: "validate_place_directory dir = Inr ()" "hv_inspect env dir l = Inr facts" "place_recorded facts"
    and pg: "pg_register w \<lparr>rg_place = facts, rg_at = now, rg_by = by'\<rparr> db = (row', db')"
    and r: "Inr p = (case row' of Inl e \<Rightarrow> Inl (HubUnavailable ''register the place'' (CauseStore e)) | Inr g \<Rightarrow> place_from g)"
    using register_place_pg [OF assms] by auto
  obtain g where g: "row' = Inr g" "place_from g = Inr p" using r by (cases row') auto
  from places.answers [OF pg [unfolded g(1)]] f g(2) show ?thesis by (auto simp: registration_key_def)
qed

lemma registered_directory:
  assumes "place_from g = Inr p" "rp_directory (rg_place g) \<noteq> []"
  shows "place_directory (rd_location p) = Some (rp_directory (rg_place g))"
  using assms
  by (auto simp: place_from_def recorded_location_def new_directory_location_def rbind_eq_Inr
      split: sum.splits if_splits option.splits)

section \<open>Properties\<close>

text \<open>
  C24: Whatever requests the hub served, with whatever answers and faults, its tables stay sound:
  a viewer has one dismissal for an item, and only of a fleet or a run; a directory is registered
  once; a request started at most one execution and an execution belongs to one request, with the
  identity minted from the request and the kind of work, so that readers classify it as that kind.
\<close>

theorem hub_tables_stay_sound:
  assumes "served u empty_hub db"
  shows "hub_db_ok db \<and> (\<forall>la \<in> set (hd_launches db).
    for_request u (class_of (la_kind la)) (la_request la) = Some (la_workflow la) \<and>
    classify is_uuid (la_workflow la) = class_of (la_kind la))"
proof -
  have "minted u empty_hub" by (simp add: minted_def empty_hub_def)
  from served_keeps [OF assms empty_hub_ok this] show ?thesis
    using classify_for_request unfolding minted_def by metis
qed

lemma sample_served: "served (\<lambda>x. x) empty_hub (sample_hub\<lparr>hd_launches := [sample_launch]\<rparr>)"
proof -
  obtain r l1 where r: "register_place (sample_env []) ''/src/app'' ''ann'' empty_hub [] = (r, sample_hub, l1)"
    using sample_register by (cases "register_place (sample_env []) ''/src/app'' ''ann'' empty_hub []") auto
  obtain s l2 where s: "start_work (sample_env []) sample_request sample_hub [] = (s, sample_hub\<lparr>hd_launches := [sample_launch]\<rparr>, l2)"
    using sample_start by (cases "start_work (sample_env []) sample_request sample_hub []") auto
  have "hv_uuid_of (sample_env []) = (\<lambda>x. x)" by (simp add: sample_env_def)
  from served.start [OF served.register [OF served.idle r] this s] show ?thesis .
qed

theorem hub_tables_stay_sound_witness:
  "hub_db_ok (sample_hub\<lparr>hd_launches := [sample_launch]\<rparr>) \<and> classify (\<lambda>_. False) (la_workflow sample_launch) = ClassReview"
proof -
  from hub_tables_stay_sound [OF sample_served, of "\<lambda>_. False"]
  have "hub_db_ok (sample_hub\<lparr>hd_launches := [sample_launch]\<rparr>)"
    "classify (\<lambda>_. False) (la_workflow sample_launch) = class_of (la_kind sample_launch)" by simp_all
  moreover have "class_of (la_kind sample_launch) = ClassReview"
    by (simp add: class_of_def sample_launch_def start_review_def start_develop_def)
  ultimately show ?thesis by simp
qed

text \<open>
  C5: What a start may submit.  Either it only reads and changes nothing, or it submits exactly
  one piece of work: for a valid request that had started nothing, under the identity minted for
  it, with the request's own kind, prompt and options, in the directory of the place it names, a
  place that is registered or was observed, and in which nothing was known to run.  A launch is
  recorded only for work whose submission succeeded.
\<close>

theorem start_is_guarded:
  assumes "start_work env q db l = (r, db', l')"
  shows "(\<exists>d. db' = db \<and> l' = l @ d \<and> list_all read_event d) \<or>
    (\<exists>d a spec rest. l' = l @ d @ [HbStart spec a] @ rest \<and> list_all read_event (d @ rest) \<and>
      (db' \<noteq> db \<longrightarrow> a = Inr () \<and> (\<exists>la. hd_launches db' = hd_launches db @ [la] \<and> la_workflow la = ss_workflow spec \<and>
         rp_directory (la_place la) = ss_directory spec \<and> la_by la = sq_by q)) \<and>
      validate_start_request q = Inr () \<and> find (\<lambda>la. la_request la = sq_request q) (hd_launches db) = None \<and>
      for_request (hv_uuid_of env) (class_of (sq_kind q)) (sq_request q) = Some (ss_workflow spec) \<and>
      ss_kind spec = sq_kind q \<and> ss_prompt spec = sq_prompt q \<and> ss_worktree spec = sq_worktree q \<and> ss_by spec = sq_by q \<and>
      (\<exists>known place l0 l1. known_work env db l0 = (Inr known, db, l1) \<and> extends l l0 \<and> extends l1 (l @ d) \<and>
        ((\<exists>g \<in> set (hd_places db). recorded_location (rg_place g) = Inr place) \<or>
         fmlookup (kw_places known) (sq_place q) = Some place) \<and>
        location_id (hv_digest env) place = sq_place q \<and> place_directory place = Some (ss_directory spec) \<and>
        running_in known (sq_place q) = None))"
  using assms
proof (cases rule: start_work_cases)
  case (1 d)
  then show ?thesis by blast
next
  case (2 d spec a rest)
  show ?thesis
    by (rule disjI2, rule exI [of _ d], rule exI [of _ a], rule exI [of _ spec], rule exI [of _ rest])
      (use 2 in \<open>simp add: submitted_def\<close>)
next
  case (3 d spec w place now row')
  from pg_launch_cases [OF 3(4)] have
    "db' \<noteq> db \<longrightarrow> (\<exists>la. hd_launches db' = hd_launches db @ [la] \<and> la_workflow la = ss_workflow spec \<and>
       rp_directory (la_place la) = ss_directory spec \<and> la_by la = sq_by q)"
    by (auto simp: launch_row_def)
  note new = this
  show ?thesis
    by (rule disjI2, rule exI [of _ d], rule exI [of _ "Inr ()"], rule exI [of _ spec], rule exI [of _ "[HbStore w]"])
      (use 3(1-3) new in \<open>simp add: submitted_def\<close>)
qed

theorem start_is_guarded_witness:
  "\<exists>r db' l'. start_work (sample_env []) sample_request sample_hub [] = (r, db', l') \<and> db' \<noteq> sample_hub \<and>
     find (\<lambda>la. la_request la = ''req-1'') (hd_launches sample_hub) = None \<and> validate_start_request sample_request = Inr ()"
proof -
  obtain r l' where run: "start_work (sample_env []) sample_request sample_hub [] = (r, sample_hub\<lparr>hd_launches := [sample_launch]\<rparr>, l')"
    using sample_start by (cases "start_work (sample_env []) sample_request sample_hub []") auto
  have changed: "sample_hub\<lparr>hd_launches := [sample_launch]\<rparr> \<noteq> sample_hub" by (simp add: sample_hub_def empty_hub_def)
  have "sq_request sample_request = ''req-1''" by (simp add: sample_request_def)
  with start_is_guarded [OF run] changed run show ?thesis by auto
qed

text \<open>
  C6: The same request is one run.  Once a request was answered, asking again under the same
  identity submits nothing and changes nothing, whatever was asked of the hub in between and
  whatever else the repeated request carries; an answer names the same execution, kind, prompt,
  time and principal as the first.
\<close>

theorem repeated_request_is_one_run:
  assumes "hub_db_ok db" "minted u db" "hv_uuid_of env = u"
    and "start_work env q db l = (Inr s, db1, l1)" "served u db1 db2"
    and "sq_request q2 = sq_request q" "start_work env2 q2 db2 l2 = (r, db3, l3)"
  shows "db3 = db2 \<and> (\<exists>d. l3 = l2 @ d \<and> list_all read_event d) \<and>
    (\<forall>s2. r = Inr s2 \<longrightarrow> s2 = s\<lparr>sk_location := sk_location s2\<rparr>)"
proof -
  have db1: "hub_db_ok db1" "minted u db1" using start_work_keeps [OF assms(1) _ assms(4)] assms(2,3) by auto
  obtain la loc where la: "launch_at db1 (sq_request q) = Some la" "s = started_from la loc"
    using start_work_answers [OF assms(4)] by blast
  have at: "launch_at db2 (sq_request q2) = Some la"
    using served_keeps [OF assms(5) db1] la(1) assms(6) by (simp add: keeps_rows_def)
  show ?thesis
    using assms(7)
  proof (cases rule: start_work_cases)
    case (1 d)
    then show ?thesis using at la(2) by (auto simp: started_from_def)
  next
    case (2 d spec a rest)
    then show ?thesis using at by (simp add: submitted_def)
  next
    case (3 d spec w place now row')
    then show ?thesis using at by (simp add: submitted_def)
  qed
qed

theorem repeated_request_is_one_run_witness:
  "\<exists>s db1 l1 r db3 l3. start_work (sample_env []) sample_request sample_hub [] = (Inr s, db1, l1) \<and>
     start_work (sample_env [sample_execution]) sample_request db1 [] = (r, db3, l3) \<and> db3 = db1 \<and> list_all read_event l3"
proof -
  obtain s db1 l1 where run: "start_work (sample_env []) sample_request sample_hub [] = (Inr s, db1, l1)"
    using sample_start by (cases "start_work (sample_env []) sample_request sample_hub []") auto
  obtain r db3 l3 where again: "start_work (sample_env [sample_execution]) sample_request db1 [] = (r, db3, l3)"
    by (metis prod_cases3)
  have "hub_db_ok sample_hub" "minted (\<lambda>x. x) sample_hub"
    by (simp_all add: hub_db_ok_def sample_hub_def empty_hub_def minted_def)
  moreover have "hv_uuid_of (sample_env []) = (\<lambda>x. x)" by (simp add: sample_env_def)
  ultimately have "db3 = db1 \<and> (\<exists>d. l3 = [] @ d \<and> list_all read_event d)"
    using repeated_request_is_one_run [OF _ _ _ run served.idle refl again] by blast
  with run again show ?thesis by auto
qed

text \<open>
  A place is registered as what the probe found, never as what was typed, and once: any later
  registration that ends at the same working tree, by whoever, returns the first one with its time
  and principal, whatever was asked of the hub in between.
\<close>

theorem registering_again_is_the_same:
  assumes "hub_db_ok db" "minted u db"
    and "register_place env dir by1 db l = (Inr p, db1, l1)" "served u db1 db2"
    and "register_place env2 dir2 by2 db2 l2 = (Inr p2, db3, l3)"
  shows "\<exists>facts facts2. hv_inspect env dir l = Inr facts \<and> hv_inspect env2 dir2 l2 = Inr facts2 \<and>
    (rp_directory facts \<noteq> [] \<longrightarrow> place_directory (rd_location p) = Some (rp_directory facts)) \<and>
    (rp_directory facts2 = rp_directory facts \<longrightarrow> p2 = p)"
proof -
  obtain facts g where g: "hv_inspect env dir l = Inr facts" "registration_at db1 (rp_directory facts) = Some g" "place_from g = Inr p"
    using register_place_row [OF assms(3)] by blast
  obtain facts2 g2 where g2: "hv_inspect env2 dir2 l2 = Inr facts2" "registration_at db3 (rp_directory facts2) = Some g2"
      "place_from g2 = Inr p2"
    using register_place_row [OF assms(5)] by blast
  have db1: "hub_db_ok db1" "minted u db1" using register_place_keeps [OF assms(1,2,3)] by auto
  from served_keeps [OF assms(4) db1] have db2: "hub_db_ok db2" "minted u db2" "keeps_rows db1 db2" by auto
  from register_place_keeps [OF db2(1,2) assms(5)] have "keeps_rows db1 db3" using db2(3) keeps_rows_trans by blast
  then have "registration_at db3 (rp_directory facts) = Some g" using g(2) by (simp add: keeps_rows_def)
  then have same: "rp_directory facts2 = rp_directory facts \<longrightarrow> p2 = p" using g(3) g2(2,3) by auto
  have "rp_directory (rg_place g) = rp_directory facts"
    using g(2) by (auto simp: find_Some_iff registration_key_def)
  with registered_directory [OF g(3)] g(1) g2(1) same show ?thesis by auto
qed

theorem registering_again_is_the_same_witness:
  "\<exists>p db1 l1 p2 db3 l3. register_place (sample_env []) ''/src/app'' ''ann'' empty_hub [] = (Inr p, db1, l1) \<and>
     register_place (sample_env []) ''/src/app'' ''bob'' db1 [] = (Inr p2, db3, l3) \<and> p2 = p"
proof -
  obtain p l1 where run: "register_place (sample_env []) ''/src/app'' ''ann'' empty_hub [] = (Inr p, sample_hub, l1)"
    using sample_register by (cases "register_place (sample_env []) ''/src/app'' ''ann'' empty_hub []") auto
  have "is_ok (fst (register_place (sample_env []) ''/src/app'' ''bob'' sample_hub []))" by code_simp
  then obtain p2 db3 l3 where again: "register_place (sample_env []) ''/src/app'' ''bob'' sample_hub [] = (Inr p2, db3, l3)"
    by (cases "register_place (sample_env []) ''/src/app'' ''bob'' sample_hub []") (auto simp: is_ok_iff)
  have "minted (\<lambda>x. x) empty_hub" by (simp add: minted_def empty_hub_def)
  from registering_again_is_the_same [OF empty_hub_ok this run served.idle again]
  have "p2 = p" by (auto simp: sample_env_def)
  with run again show ?thesis by blast
qed

end
