(* ===== verification/Steering_Service.thy ===== *)
theory Steering_Service
  imports Steering_Store
begin

text \<open>
  The service an operator's surface drives (\<open>internal/steering/service.go\<close>), and the durable
  wait itself (\<open>SessionWorkflow\<close> of \<open>workflow.go\<close>).

  The service's state is the store and the decisions handed to the waiting sessions so far.
  Every call of a port may fault; the faults are arguments of the operation.  The facts that
  matter about the store come from the interpretation \<open>ps\<close> of the port.

  The wait is a step relation: signals arrive at any time, the loop receives one or its
  reminder timer fires, and once a decision has won the queue is drained.
\<close>

section \<open>The service\<close>

record svc =
  sv_db :: steering_db
  sv_sent :: "(string \<times> decision) list"

definition unavailable :: "string \<Rightarrow> steering_error \<Rightarrow> steering_error" where
  "unavailable what e = (case e of NoSuchSession _ \<Rightarrow> e | _ \<Rightarrow> SteeringUnavailable what e)"

definition svc_waiting :: "string option \<Rightarrow> svc \<Rightarrow> steering_error + session list" where
  "svc_waiting fault st =
     (case waiting_sessions fault (sv_db st) of
        Inl e \<Rightarrow> Inl (unavailable ''read the waiting steering sessions'' e)
      | Inr ss \<Rightarrow> Inr ss)"

definition svc_conversation ::
  "string option \<Rightarrow> string option \<Rightarrow> string \<Rightarrow> svc \<Rightarrow> steering_error + conversation" where
  "svc_conversation fault fault' sid st =
     (case read_session fault sid (sv_db st) of
        Inl e \<Rightarrow> Inl (unavailable ''read the steering session'' e)
      | Inr s \<Rightarrow>
          (case read_messages fault' sid 0 (sv_db st) of
             Inl e \<Rightarrow> Inl (unavailable ''read the steering conversation'' e)
           | Inr ms \<Rightarrow> Inr \<lparr>cv_session = s, cv_messages = ms\<rparr>))"

text \<open>Validated, recorded, and only then delivered.\<close>

definition decide ::
  "string option \<Rightarrow> string option \<Rightarrow> string option \<Rightarrow> nat \<Rightarrow> string \<Rightarrow> decision \<Rightarrow> svc \<Rightarrow>
   (steering_error + session) \<times> svc" where
  "decide read_fault write_fault signal_fault now sid d st =
     (if trim_space sid = [] then (Inl DecisionWithoutSession, st)
      else case read_session read_fault sid (sv_db st) of
        Inl e \<Rightarrow> (Inl (unavailable ''read the steering session'' e), st)
      | Inr s \<Rightarrow>
          (case round_validate (se_round s) d of
             Inl e \<Rightarrow> (Inl e, st)
           | Inr _ \<Rightarrow>
               (case record_decision write_fault sid d now (sv_db st) of
                  (Inl e, db') \<Rightarrow>
                    (Inl (unavailable ''record the steering decision'' e), st\<lparr>sv_db := db'\<rparr>)
                | (Inr recorded, db') \<Rightarrow>
                    (case signal_fault of
                       Some e \<Rightarrow> (Inl (NotDelivered e), st\<lparr>sv_db := db'\<rparr>)
                     | None \<Rightarrow>
                         (Inr recorded,
                          st\<lparr>sv_db := db', sv_sent := sv_sent st @ [(sid, se_decision recorded)]\<rparr>)))))"

record question_request =
  qr_text :: string
  qr_principal :: string
  qr_finish :: bool

text \<open>
  \<open>questioner\<close> runs one agent turn for a session, the operator's sequence number and the
  finish flag; it may change the store and may fail.  \<^const>\<open>None\<close> is a service without one.
\<close>

definition question ::
  "(string \<Rightarrow> nat \<Rightarrow> bool \<Rightarrow> steering_db \<Rightarrow> string option \<times> steering_db) option \<Rightarrow>
   string option \<Rightarrow> string option \<Rightarrow> nat \<Rightarrow> string \<Rightarrow> question_request \<Rightarrow> svc \<Rightarrow>
   (steering_error + conversation) \<times> svc" where
  "question questioner read_fault write_fault now sid req st =
     (if trim_space sid = [] \<or> trim_space (qr_text req) = [] then (Inl IncompleteQuestion, st)
      else if trim_space (qr_principal req) = [] then (Inl AnonymousQuestion, st)
      else case questioner of
        None \<Rightarrow> (Inl (QuestioningUnavailable []), st)
      | Some run \<Rightarrow>
          (case read_session read_fault sid (sv_db st) of
             Inl e \<Rightarrow> (Inl (unavailable ''read the steering session'' e), st)
           | Inr s \<Rightarrow>
               if \<not> session_waiting s then (Inl NoLongerWaiting, st)
               else
                 (case append_message write_fault now
                    \<lparr>ms_session = sid, ms_sequence = 0, ms_role = ''operator'',
                     ms_author = qr_principal req, ms_text = qr_text req, ms_tokens = 0,
                     ms_at = now\<rparr> (sv_db st) of
                    (Inl e, db') \<Rightarrow>
                      (Inl (unavailable ''record the operator's answer'' e), st\<lparr>sv_db := db'\<rparr>)
                  | (Inr m, db') \<Rightarrow>
                      (case run sid (ms_sequence m) (qr_finish req) db' of
                         (Some e, db'') \<Rightarrow> (Inl (QuestioningUnavailable e), st\<lparr>sv_db := db''\<rparr>)
                       | (None, db'') \<Rightarrow>
                           (let st' = st\<lparr>sv_db := db''\<rparr> in
                            (svc_conversation None None sid st', st'))))))"

text \<open>Everything that writes to the store while a session lives.\<close>

datatype svc_op =
    OpDecide "string option" "string option" "string option" nat string decision
  | OpGuidance "string option" string string
  | OpOpen "string option" nat session
  | OpClose "string option" string decision nat
  | OpAppend "string option" nat message

fun run_op :: "svc_op \<Rightarrow> svc \<Rightarrow> svc" where
  "run_op (OpDecide fr fw fs now sid d) st = snd (decide fr fw fs now sid d st)"
| "run_op (OpGuidance f sid g) st = st\<lparr>sv_db := snd (set_guidance f sid g (sv_db st))\<rparr>"
| "run_op (OpOpen f now s) st = st\<lparr>sv_db := snd (open_session f now s (sv_db st))\<rparr>"
| "run_op (OpClose f sid d at) st = st\<lparr>sv_db := snd (close_session f sid d at (sv_db st))\<rparr>"
| "run_op (OpAppend f now m) st = st\<lparr>sv_db := snd (append_message f now m (sv_db st))\<rparr>"

definition run_ops :: "svc_op list \<Rightarrow> svc \<Rightarrow> svc" where
  "run_ops ops st = fold run_op ops st"

definition empty_svc :: svc where
  "empty_svc = \<lparr>sv_db = \<lparr>sd_sessions = [], sd_messages = [], sd_events = []\<rparr>, sv_sent = []\<rparr>"

section \<open>Facts\<close>

lemma empty_svc_inv: "steering_inv (sv_db empty_svc)"
  by (simp add: empty_svc_def steering_inv_def)

lemma read_session_look: "read_session f sid db = Inr s \<Longrightarrow> pg_look db sid = Some s"
  by (auto simp: read_session_def pg_look_def split: option.splits)

lemma validate_decision_made: "is_ok (validate_decision d) \<Longrightarrow> made d"
  by (auto simp: validate_decision_def valid_choice_def choices_def made_def split: if_splits)

lemma round_validate_ok:
  "round_validate r d = Inr u \<Longrightarrow> is_ok (validate_decision d) \<and> made d"
  using validate_decision_made by (auto simp: round_validate_def rbind_eq_Inr)

text \<open>What a call of \<open>decide\<close> did to the store and to the deliveries.\<close>

lemma decide_cases:
  assumes dec: "decide fr fw fs now sid d st = (x, st')"
  obtains (unchanged) "st' = st" "\<not> is_ok x"
    | (failed) db' e where "record_decision fw sid d now (sv_db st) = (e, db')"
        "st' = st\<lparr>sv_db := db'\<rparr>" "\<not> is_ok x"
    | (delivered) db' s where "record_decision fw sid d now (sv_db st) = (Inr s, db')" "x = Inr s"
        "st' = st\<lparr>sv_db := db', sv_sent := sv_sent st @ [(sid, se_decision s)]\<rparr>"
        "is_ok (validate_decision d)" "made d"
proof (cases "trim_space sid = []")
  case True
  then show thesis using dec unchanged by (auto simp: decide_def)
next
  case sid: False
  show thesis
  proof (cases "read_session fr sid (sv_db st)")
    case (Inl e)
    then show thesis using dec sid unchanged by (auto simp: decide_def)
  next
    case read: (Inr s)
    show thesis
    proof (cases "round_validate (se_round s) d")
      case (Inl e)
      then show thesis using dec sid read unchanged by (auto simp: decide_def)
    next
      case valid: (Inr u)
      obtain y db' where r: "record_decision fw sid d now (sv_db st) = (y, db')" by fastforce
      note ok = round_validate_ok [OF valid]
      show thesis
      proof (cases y)
        case (Inl e)
        then show thesis using dec sid read valid r failed by (auto simp: decide_def)
      next
        case (Inr s')
        then show thesis
          using dec sid read valid r failed delivered ok
          by (cases fs) (auto simp: decide_def)
      qed
    qed
  qed
qed

lemma decide_keeps:
  assumes "steering_inv (sv_db st)" "decide fr fw fs now sid d st = (x, st')"
  shows "steering_inv (sv_db st') \<and> keeps_decisions pg_look (sv_db st) (sv_db st')"
  using assms(2)
proof (cases rule: decide_cases)
  case (failed db' e)
  then show ?thesis using ps.record_keeps [OF assms(1) failed(1)] by simp
next
  case (delivered db' s)
  then show ?thesis using ps.record_keeps [OF assms(1) delivered(1)] by simp
qed (use assms in simp)

lemma run_op_keeps:
  assumes "steering_inv (sv_db st)"
  shows "steering_inv (sv_db (run_op p st)) \<and> keeps_decisions pg_look (sv_db st) (sv_db (run_op p st))"
proof (cases p)
  case (OpDecide fr fw fs now sid d)
  then show ?thesis using decide_keeps [OF assms] by (metis prod.collapse run_op.simps(1))
next
  case (OpGuidance f sid g)
  then show ?thesis
    using ps.guide_keeps [OF assms, of f sid g] by (cases "set_guidance f sid g (sv_db st)") simp
next
  case (OpOpen f now s)
  then show ?thesis
    using ps.open_keeps [OF assms, of f now s] by (cases "open_session f now s (sv_db st)") simp
next
  case (OpClose f sid d at)
  then show ?thesis
    using ps.close_keeps [OF assms, of f sid d at] by (cases "close_session f sid d at (sv_db st)") simp
next
  case (OpAppend f now m)
  then show ?thesis
    using ps.append_keeps [OF assms, of f now m] by (cases "append_message f now m (sv_db st)") simp
qed

lemma run_ops_keeps:
  "steering_inv (sv_db st) \<Longrightarrow>
   steering_inv (sv_db (run_ops ops st)) \<and> keeps_decisions pg_look (sv_db st) (sv_db (run_ops ops st))"
proof (induction ops arbitrary: st)
  case Nil
  then show ?case by (simp add: run_ops_def)
next
  case (Cons p ops)
  have "steering_inv (sv_db (run_op p st)) \<and> keeps_decisions pg_look (sv_db st) (sv_db (run_op p st))"
    using run_op_keeps [OF Cons.prems] .
  with Cons.IH [of "run_op p st"] show ?case
    by (simp add: run_ops_def) (metis keeps_decisions_trans)
qed

text \<open>Every delivered decision is the recorded one.\<close>

definition sent_ok :: "svc \<Rightarrow> bool" where
  "sent_ok st =
     (\<forall>sid d. (sid, d) \<in> set (sv_sent st) \<longrightarrow>
        (\<exists>s. pg_look (sv_db st) sid = Some s \<and> made d \<and> se_decision s = d))"

lemma sent_ok_keep:
  assumes "sent_ok st" "keeps_decisions pg_look (sv_db st) (sv_db st')" "sv_sent st' = sv_sent st"
  shows "sent_ok st'"
  unfolding sent_ok_def
proof (intro allI impI)
  fix sid d assume "(sid, d) \<in> set (sv_sent st')"
  then have "(sid, d) \<in> set (sv_sent st)" using assms(3) by simp
  with assms(1) obtain s where "pg_look (sv_db st) sid = Some s" "made d" "se_decision s = d"
    unfolding sent_ok_def by blast
  with assms(2) show "\<exists>s. pg_look (sv_db st') sid = Some s \<and> made d \<and> se_decision s = d"
    unfolding keeps_decisions_def by metis
qed

lemma run_op_sent:
  assumes "steering_inv (sv_db st)" "sent_ok st"
  shows "sent_ok (run_op p st)"
proof (cases "sv_sent (run_op p st) = sv_sent st")
  case True
  with sent_ok_keep [OF assms(2)] run_op_keeps [OF assms(1)] show ?thesis by blast
next
  case False
  then obtain fr fw fs now sid d where p: "p = OpDecide fr fw fs now sid d"
    by (cases p) auto
  obtain x st' where e: "decide fr fw fs now sid d st = (x, st')" by fastforce
  from e show ?thesis
  proof (cases rule: decide_cases)
    case (delivered db' s)
    let ?mid = "st\<lparr>sv_db := db'\<rparr>"
    have "sent_ok ?mid"
      using ps.record_keeps [OF assms(1) delivered(1)] by (intro sent_ok_keep [OF assms(2)]) auto
    moreover have "pg_look db' sid = Some s \<and> made (se_decision s)"
      using ps.recorded_is_made [OF assms(1) delivered(1,4,5)] .
    ultimately show ?thesis using p e delivered by (auto simp: sent_ok_def)
  qed (use p e False in auto)
qed

lemma run_ops_sent: "steering_inv (sv_db st) \<Longrightarrow> sent_ok st \<Longrightarrow> sent_ok (run_ops ops st)"
proof (induction ops arbitrary: st)
  case Nil
  then show ?case by (simp add: run_ops_def)
next
  case (Cons p ops)
  have "steering_inv (sv_db (run_op p st))" using run_op_keeps [OF Cons.prems(1)] by simp
  moreover have "sent_ok (run_op p st)" by (rule run_op_sent [OF Cons.prems])
  ultimately show ?case using Cons.IH [of "run_op p st"] by (simp add: run_ops_def)
qed

lemma decide_first:
  assumes "steering_inv (sv_db st)" "decide fr fw fs now sid d st = (Inr s, st1)"
  shows "pg_look (sv_db st1) sid = Some s \<and> made (se_decision s)"
  using assms(2)
proof (cases rule: decide_cases)
  case (delivered db' s')
  then show ?thesis using ps.recorded_is_made [OF assms(1) delivered(1,4,5)] by simp
qed auto

lemma decide_again:
  assumes "steering_inv (sv_db st)" "pg_look (sv_db st) sid = Some s" "made (se_decision s)"
    and "decide fr fw fs now sid d st = (Inr s', st')"
  shows "se_decision s' = se_decision s"
  using assms(4)
proof (cases rule: decide_cases)
  case (delivered db' r)
  then show ?thesis
    using ps.first_decision_wins [OF assms(1,2,3) _ assms(1) delivered(1)] by simp
qed auto

section \<open>The durable wait\<close>

text \<open>
  \<open>sx_queue\<close> is the signal channel, \<open>sx_arrived\<close> every signal that ever arrived, in order.
  The loop is \<open>Waiting\<close> until a decision is made, then \<open>Draining\<close>, and \<open>Settled\<close> once nothing
  is queued.  \<open>sx_reminder\<close> counts the notices sent after the first.
\<close>

datatype wait_phase = Waiting | Draining | Settled

record wait_state =
  sx_phase :: wait_phase
  sx_queue :: "decision list"
  sx_arrived :: "decision list"
  sx_decision :: decision
  sx_reminder :: nat

definition wait_init :: wait_state where
  "wait_init = \<lparr>sx_phase = Waiting, sx_queue = [], sx_arrived = [], sx_decision = no_decision,
     sx_reminder = 0\<rparr>"

definition accepts :: "string \<Rightarrow> decision \<Rightarrow> bool" where
  "accepts round d = (made d \<and> is_ok (round_validate round d))"

inductive wait_step :: "string \<Rightarrow> wait_state \<Rightarrow> wait_state \<Rightarrow> bool" for round where
  arrive: "sx_phase s \<noteq> Settled \<Longrightarrow>
    wait_step round s (s\<lparr>sx_queue := sx_queue s @ [d], sx_arrived := sx_arrived s @ [d]\<rparr>)"
| remind: "sx_phase s = Waiting \<Longrightarrow> wait_step round s (s\<lparr>sx_reminder := Suc (sx_reminder s)\<rparr>)"
| refuse: "sx_phase s = Waiting \<Longrightarrow> sx_queue s = d # q \<Longrightarrow> \<not> accepts round d \<Longrightarrow>
    wait_step round s (s\<lparr>sx_queue := q\<rparr>)"
| accept: "sx_phase s = Waiting \<Longrightarrow> sx_queue s = d # q \<Longrightarrow> accepts round d \<Longrightarrow>
    wait_step round s (s\<lparr>sx_queue := q, sx_decision := d, sx_phase := Draining\<rparr>)"
| drop: "sx_phase s = Draining \<Longrightarrow> sx_queue s = d # q \<Longrightarrow> wait_step round s (s\<lparr>sx_queue := q\<rparr>)"
| settle: "sx_phase s = Draining \<Longrightarrow> sx_queue s = [] \<Longrightarrow>
    wait_step round s (s\<lparr>sx_phase := Settled\<rparr>)"

inductive_cases wait_stepE: "wait_step round s t"

inductive wait_reach :: "string \<Rightarrow> wait_state \<Rightarrow> bool" for round where
  start: "wait_reach round wait_init"
| step: "wait_reach round s \<Longrightarrow> wait_step round s t \<Longrightarrow> wait_reach round t"

text \<open>The notice of the n-th reminder.\<close>

definition waiting_notice :: "string \<Rightarrow> string \<Rightarrow> string \<Rightarrow> nat \<Rightarrow> nat \<Rightarrow> notice" where
  "waiting_notice sid item recipient reminder now =
     \<lparr>nt_id = sid @ '':waiting:'' @ itoa (int reminder), nt_kind = ''steering'',
      nt_recipient = recipient, nt_session = sid, nt_created = now,
      nt_title = (if 0 < reminder then ''Review guidance is still waiting''
                  else ''Review guidance is waiting''),
      nt_body = (if 0 < reminder then
          ''Reminder '' @ itoa (int reminder) @ '': a review round is still waiting for an operator decision.''
        else ''A review round is waiting for an operator decision.''),
      nt_url = ''/#/runs/'' @ item, nt_webhook_body = []\<rparr>"

text \<open>While waiting, everything received so far was refused; afterwards the first accepted won.\<close>

definition wait_inv :: "string \<Rightarrow> wait_state \<Rightarrow> bool" where
  "wait_inv round s =
     (if sx_phase s = Waiting then
        sx_decision s = no_decision \<and>
        (\<exists>p. sx_arrived s = p @ sx_queue s \<and> (\<forall>d \<in> set p. \<not> accepts round d))
      else find (accepts round) (sx_arrived s) = Some (sx_decision s))"

lemma find_append_Some: "find P xs = Some x \<Longrightarrow> find P (xs @ ys) = Some x"
  by (induction xs) (auto split: if_splits)

lemma find_refused: "\<forall>d \<in> set p. \<not> P d \<Longrightarrow> find P (p @ ys) = find P ys"
  by (induction p) auto

lemma wait_step_inv [keeps]: "wait_step round s t \<Longrightarrow> wait_inv round s \<Longrightarrow> wait_inv round t"
proof (induction rule: wait_step.induct)
  case (arrive s d)
  then show ?case by (auto simp: wait_inv_def find_append_Some)
next
  case (refuse s d q)
  then obtain p where "sx_arrived s = p @ d # q" "\<forall>d \<in> set p. \<not> accepts round d"
    by (auto simp: wait_inv_def)
  then have "sx_arrived s = (p @ [d]) @ q" "\<forall>d \<in> set (p @ [d]). \<not> accepts round d"
    using refuse by auto
  with refuse show ?case unfolding wait_inv_def by fastforce
next
  case (accept s d q)
  then show ?case by (auto simp: wait_inv_def find_refused)
qed (auto simp: wait_inv_def)

lemma wait_reach_inv: "wait_reach round s \<Longrightarrow> wait_inv round s"
proof (induction rule: wait_reach.induct)
  case start
  show ?case by (simp add: wait_inv_def wait_init_def)
next
  case (step s t)
  from wait_step_inv [OF step(2,3)] show ?case .
qed

text \<open>The loop alone empties the queue and settles, once an acceptable decision is queued.\<close>

lemma drain_settles:
  "sx_phase s = Draining \<Longrightarrow> \<exists>t. (wait_step round)\<^sup>*\<^sup>* s t \<and> sx_phase t = Settled \<and>
     sx_decision t = sx_decision s"
proof (induction "sx_queue s" arbitrary: s)
  case Nil
  then have "wait_step round s (s\<lparr>sx_phase := Settled\<rparr>)" by (intro settle) auto
  then show ?case by (intro exI [of _ "s\<lparr>sx_phase := Settled\<rparr>"]) auto
next
  case (Cons d q)
  let ?s = "s\<lparr>sx_queue := q\<rparr>"
  have "wait_step round s ?s" using Cons.prems Cons.hyps(2) [symmetric] by (rule drop)
  moreover obtain t where "(wait_step round)\<^sup>*\<^sup>* ?s t" "sx_phase t = Settled" "sx_decision t = sx_decision ?s"
    using Cons.hyps(1) [of ?s] Cons.prems by auto
  ultimately show ?case by (intro exI [of _ t]) (auto intro: converse_rtranclp_into_rtranclp)
qed

lemma wait_settles:
  "sx_phase s = Waiting \<Longrightarrow> find (accepts round) (sx_queue s) = Some d \<Longrightarrow>
   \<exists>t. (wait_step round)\<^sup>*\<^sup>* s t \<and> sx_phase t = Settled \<and> sx_decision t = d"
proof (induction "sx_queue s" arbitrary: s)
  case (Cons e q)
  show ?case
  proof (cases "accepts round e")
    case True
    then have e: "e = d" using Cons by (auto simp flip: Cons.hyps(2))
    let ?s = "s\<lparr>sx_queue := q, sx_decision := e, sx_phase := Draining\<rparr>"
    have "wait_step round s ?s" using Cons.prems(1) Cons.hyps(2) [symmetric] True by (rule accept)
    moreover obtain t where "(wait_step round)\<^sup>*\<^sup>* ?s t" "sx_phase t = Settled" "sx_decision t = e"
      using drain_settles [of ?s] by auto
    ultimately show ?thesis
      using e by (intro exI [of _ t]) (auto intro: converse_rtranclp_into_rtranclp)
  next
    case False
    let ?s = "s\<lparr>sx_queue := q\<rparr>"
    have "wait_step round s ?s" using Cons.prems(1) Cons.hyps(2) [symmetric] False by (rule refuse)
    moreover have "find (accepts round) (sx_queue ?s) = Some d"
      using Cons.prems(2) False by (simp flip: Cons.hyps(2))
    then obtain t where "(wait_step round)\<^sup>*\<^sup>* ?s t" "sx_phase t = Settled" "sx_decision t = d"
      using Cons.hyps(1) [of ?s] Cons.prems(1) by auto
    ultimately show ?thesis by (intro exI [of _ t]) (auto intro: converse_rtranclp_into_rtranclp)
  qed
qed simp

section \<open>Properties\<close>

text \<open>
  C28: A decision is final.  Once an operator's decision on a session was recorded and
  delivered, every later decision on that session that succeeds returns and delivers the very
  same decision, whatever was done to the store in between and whatever it tries to decide.
\<close>

theorem decision_is_final:
  assumes "steering_inv (sv_db st)"
    and "decide fr fw fs now sid d st = (Inr s, st1)"
    and "decide fr' fw' fs' now' sid d' (run_ops ops st1) = (Inr s', st2)"
  shows "se_decision s' = se_decision s"
proof -
  have i: "steering_inv (sv_db st1)" using decide_keeps [OF assms(1,2)] by simp
  have m: "pg_look (sv_db st1) sid = Some s" "made (se_decision s)"
    using decide_first [OF assms(1,2)] by auto
  have k: "steering_inv (sv_db (run_ops ops st1))"
      "keeps_decisions pg_look (sv_db st1) (sv_db (run_ops ops st1))"
    using run_ops_keeps [OF i] by auto
  from k(2) m obtain s1 where "pg_look (sv_db (run_ops ops st1)) sid = Some s1"
      "se_decision s1 = se_decision s"
    unfolding keeps_decisions_def by metis
  with decide_again [OF k(1) _ _ assms(3)] m(2) show ?thesis by metis
qed

definition ask_session :: session where
  "ask_session = \<lparr>se_id = ''s'', se_item = ''i'', se_round = round_local_review, se_material = [],
     se_place = no_place, se_guidance = [], se_opened = 1, se_state = [], se_decision = no_decision,
     se_decided_at = 0\<rparr>"

definition asked :: svc where
  "asked = run_ops [OpOpen None 1 ask_session] empty_svc"

definition skip_it :: decision where
  "skip_it = \<lparr>dc_choice = choice_skip, dc_guidance = [], dc_principal = ''ann''\<rparr>"

definition stop_it :: decision where
  "stop_it = \<lparr>dc_choice = choice_stop, dc_guidance = [], dc_principal = ''bob''\<rparr>"

lemma asked_inv: "steering_inv (sv_db asked)"
  using run_ops_keeps [OF empty_svc_inv] by (simp add: asked_def)

theorem decision_is_final_witness:
  "\<exists>s st1 s' st2. decide None None None 2 ''s'' skip_it asked = (Inr s, st1) \<and>
     decide None None None 3 ''s'' stop_it (run_ops [OpGuidance None ''s'' ''x''] st1) = (Inr s', st2) \<and>
     dc_choice (se_decision s') = choice_skip"
proof -
  have e: "is_ok (fst (decide None None None 2 ''s'' skip_it asked))" by code_simp
  have f: "is_ok (fst (decide None None None 3 ''s'' stop_it
      (run_ops [OpGuidance None ''s'' ''x''] (snd (decide None None None 2 ''s'' skip_it asked)))))"
    by code_simp
  have g: "(case fst (decide None None None 2 ''s'' skip_it asked) of
      Inr s \<Rightarrow> dc_choice (se_decision s) = choice_skip | Inl _ \<Rightarrow> False)" by code_simp
  obtain s st1 where d1: "decide None None None 2 ''s'' skip_it asked = (Inr s, st1)"
      "dc_choice (se_decision s) = choice_skip"
    using e g by (cases "decide None None None 2 ''s'' skip_it asked") (auto simp: is_ok_iff)
  obtain s' st2 where d2: "decide None None None 3 ''s'' stop_it
      (run_ops [OpGuidance None ''s'' ''x''] st1) = (Inr s', st2)"
    using f d1
    by (cases "decide None None None 3 ''s'' stop_it (run_ops [OpGuidance None ''s'' ''x''] st1)")
      (auto simp: is_ok_iff)
  from decision_is_final [OF asked_inv d1(1) d2] d1 d2 show ?thesis by metis
qed

text \<open>
  Recorded before delivered: whatever sequence of decisions, drafts, openings, settlements
  and messages is run, with whatever faults, every decision ever handed to a waiting session
  is a real one and is exactly what the store holds for that session.
\<close>

theorem deliveries_are_recorded:
  assumes "(sid, d) \<in> set (sv_sent (run_ops ops empty_svc))"
  shows "\<exists>s. pg_look (sv_db (run_ops ops empty_svc)) sid = Some s \<and> made d \<and> se_decision s = d"
proof -
  have "sent_ok empty_svc" by (simp add: sent_ok_def empty_svc_def)
  from run_ops_sent [OF empty_svc_inv this] assms show ?thesis unfolding sent_ok_def by blast
qed

theorem deliveries_are_recorded_witness:
  "\<exists>s. pg_look (sv_db (run_ops [OpOpen None 1 ask_session, OpDecide None None None 2 ''s'' skip_it]
      empty_svc)) ''s'' = Some s \<and> made skip_it \<and> se_decision s = skip_it"
proof -
  have "(''s'', skip_it) \<in> set (sv_sent (run_ops [OpOpen None 1 ask_session,
      OpDecide None None None 2 ''s'' skip_it] empty_svc))"
    by code_simp
  from deliveries_are_recorded [OF this] show ?thesis .
qed

text \<open>
  In every reachable state of the durable wait, the decision it holds is the first one to
  have arrived that is acceptable for its round; while none has, it holds none and waits.
\<close>

theorem first_valid_decision_wins:
  assumes "wait_reach round s"
  shows "(sx_phase s = Waiting \<and> sx_decision s = no_decision \<and>
      find (accepts round) (sx_arrived s) = find (accepts round) (sx_queue s)) \<or>
    find (accepts round) (sx_arrived s) = Some (sx_decision s)"
  using wait_reach_inv [OF assms] by (auto simp: wait_inv_def find_refused split: if_splits)

lemma arrived_skip: "wait_reach round_local_review (wait_init\<lparr>sx_queue := [skip_it], sx_arrived := [skip_it]\<rparr>)"
proof -
  have "wait_step round_local_review wait_init
      (wait_init\<lparr>sx_queue := sx_queue wait_init @ [skip_it], sx_arrived := sx_arrived wait_init @ [skip_it]\<rparr>)"
    by (rule arrive) (simp add: wait_init_def)
  from wait_reach.step [OF wait_reach.start this] show ?thesis by (simp add: wait_init_def)
qed

theorem first_valid_decision_wins_witness:
  "find (accepts round_local_review) [skip_it] = Some skip_it \<and>
   sx_decision (wait_init\<lparr>sx_queue := [skip_it], sx_arrived := [skip_it]\<rparr>) = no_decision"
proof
  show a: "find (accepts round_local_review) [skip_it] = Some skip_it" by code_simp
  have "no_decision \<noteq> skip_it" by code_simp
  with first_valid_decision_wins [OF arrived_skip] a
  show "sx_decision (wait_init\<lparr>sx_queue := [skip_it], sx_arrived := [skip_it]\<rparr>) = no_decision"
    by (auto simp: wait_init_def)
qed

text \<open>
  The wait does not outlast its answer: from any state that is waiting with an acceptable
  decision in its queue, the loop's own steps lead to the settled state, holding the first
  acceptable one, however many refused signals stand before it and repeats behind it.
\<close>

theorem wait_ends_with_answer:
  assumes "sx_phase s = Waiting" "find (accepts round) (sx_queue s) = Some d"
  shows "\<exists>t. (wait_step round)\<^sup>*\<^sup>* s t \<and> sx_phase t = Settled \<and> sx_decision t = d"
  using assms by (rule wait_settles)

theorem wait_ends_with_answer_witness:
  "\<exists>t. (wait_step round_pass_limit)\<^sup>*\<^sup>* (wait_init\<lparr>sx_queue := [skip_it, stop_it, stop_it]\<rparr>) t \<and>
     sx_phase t = Settled \<and> sx_decision t = stop_it"
proof (rule wait_ends_with_answer)
  show "sx_phase (wait_init\<lparr>sx_queue := [skip_it, stop_it, stop_it]\<rparr>) = Waiting"
    by (simp add: wait_init_def)
  show "find (accepts round_pass_limit) (sx_queue (wait_init\<lparr>sx_queue := [skip_it, stop_it, stop_it]\<rparr>)) =
      Some stop_it"
    by code_simp
qed

text \<open>
  Nothing in the decision path looks at the session's state: a session recorded as
  abandoned, because its loop ended unanswered, still takes a valid decision, is marked
  decided, and the decision is delivered to the loop that is gone.
\<close>

theorem abandoned_session_takes_decision:
  assumes "pg_look (sv_db st) sid = Some s" "se_state s = state_abandoned"
    and "\<not> made (se_decision s)" "trim_space sid \<noteq> []" "round_validate (se_round s) d = Inr ()"
  shows "\<exists>s' st'. decide None None None now sid d st = (Inr s', st') \<and>
    se_state s' = state_decided \<and> sv_sent st' = sv_sent st @ [(sid, stored_form d)]"
proof -
  obtain r where r: "find_row (sv_db st) sid = Some r" "s = scan_session r"
    using assms(1) by (auto simp: pg_look_def)
  have c: "sw_choice r = []" using assms(3) r by (simp add: scan_session_def made_def)
  have "is_ok (validate_decision d)" using round_validate_ok [OF assms(5)] by simp
  from scan_decided [OF this] r c assms(4,5) show ?thesis
    by (simp add: decide_def read_session_def record_decision_def)
      (simp add: scan_session_def decide_row_def)
qed

theorem abandoned_session_takes_decision_witness:
  "\<exists>s' st'. decide None None None 9 ''s'' skip_it
      (run_ops [OpOpen None 1 ask_session, OpClose None ''s'' no_decision 5] empty_svc) = (Inr s', st') \<and>
     se_state s' = state_decided"
proof -
  let ?st = "run_ops [OpOpen None 1 ask_session, OpClose None ''s'' no_decision 5] empty_svc"
  have l: "(case pg_look (sv_db ?st) ''s'' of None \<Rightarrow> False | Some s \<Rightarrow> se_state s = state_abandoned \<and>
      \<not> made (se_decision s) \<and> round_validate (se_round s) skip_it = Inr ())"
    by code_simp
  then obtain s where "pg_look (sv_db ?st) ''s'' = Some s" "se_state s = state_abandoned"
      "\<not> made (se_decision s)" "round_validate (se_round s) skip_it = Inr ()"
    by (auto split: option.splits)
  moreover have "trim_space ''s'' \<noteq> []" by code_simp
  ultimately show ?thesis using abandoned_session_takes_decision by blast
qed

end
