(* ===== verification/Identity_Store.thy ===== *)
theory Identity_Store
  imports Exec_Store Workflow_Vars
begin

text \<open>
  Who a request is made by (\<open>identity/identity.go\<close>) and the tables that remember it
  (\<open>identity/identitypg/identitypg.go\<close>): principals, sessions and sign-ins in flight.

  Times are naturals with 0 for Go's zero time.  SHA-256 and the URL parser are parameters.  A
  statement is run with a \<open>write_fault\<close>: applied, refused, or applied with its answer lost; a fault
  is reported under the last step of the operation, where the code names each step.  The columns
  \<open>first_seen_at\<close> and \<open>last_seen_at\<close>, which no query reads, are left out.

  Other requests use the same tables at the same time, so the statements are also data: the tables
  are what a sequence of statements makes of them, in whatever order the requests interleave.
\<close>

section \<open>Principals and what is remembered of them\<close>

definition local_issuer :: string where "local_issuer = ''urn:temporal-agents:static-token''"

record person =
  ip_issuer :: string
  ip_subject :: string
  ip_name :: string
  ip_email :: string

definition principal_id :: "person \<Rightarrow> string" where
  "principal_id p = ip_issuer p @ ''|'' @ ip_subject p"

definition valid_principal :: "person \<Rightarrow> bool" where
  "valid_principal p = (\<not> blank (ip_issuer p) \<and> \<not> blank (ip_subject p))"

definition display_name :: "person \<Rightarrow> string" where
  "display_name p =
     (case filter (\<lambda>s. s \<noteq> []) (map trim_space [ip_name p, ip_email p, ip_subject p]) of
        [] \<Rightarrow> [] | s # _ \<Rightarrow> s)"

record id_tokens =
  it_access :: string
  it_refresh :: string
  it_expires :: nat

definition tokens_expired :: "nat \<Rightarrow> id_tokens \<Rightarrow> bool" where
  "tokens_expired now t = (it_expires t \<noteq> 0 \<and> \<not> now < it_expires t)"

record id_session =
  is_hash :: string
  is_principal :: person
  is_issued :: nat
  is_expires :: nat
  is_tokens :: id_tokens

definition session_expired :: "nat \<Rightarrow> id_session \<Rightarrow> bool" where
  "session_expired now s = (\<not> now < is_expires s)"

record sign_in =
  gn_hash :: string
  gn_state :: string
  gn_nonce :: string
  gn_verifier :: string
  gn_return :: string
  gn_started :: nat
  gn_expires :: nat

definition sign_in_expired :: "nat \<Rightarrow> sign_in \<Rightarrow> bool" where
  "sign_in_expired now p = (\<not> now < gn_expires p)"

section \<open>Where a browser may be sent\<close>

definition default_return_path :: string where "default_return_path = ''/''"

definition safe_return_path :: "string \<Rightarrow> string" where
  "safe_return_path candidate =
     (let path = trim_space candidate in
      if path = [] then default_return_path
      else if \<not> has_prefix path ''/'' then default_return_path
      else if has_prefix path ''//'' \<or> has_prefix path [CHR ''/'', CHR 0x5C] then default_return_path
      else if list_ex (\<lambda>c. c \<in> set [CHR 0x0D, CHR 0x0A, CHR 0x00]) path then default_return_path
      else path)"

text \<open>What the code reads of a parsed URL; \<open>pu_user\<close> says whether there are credentials.\<close>

record parsed_url =
  pu_scheme :: string
  pu_opaque :: string
  pu_user :: bool
  pu_host :: string
  pu_hostname :: string
  pu_path :: string
  pu_query :: string
  pu_force_query :: bool
  pu_fragment :: string

type_synonym url_parser = "string \<Rightarrow> parsed_url option"

definition parse_browser_origin :: "url_parser \<Rightarrow> string \<Rightarrow> string option" where
  "parse_browser_origin parse raw =
     (let trimmed = trim_space raw in
      if trimmed = [] \<or> trimmed = ''*'' \<or> map lower_char trimmed = ''null'' then None
      else case parse trimmed of
        None \<Rightarrow> None
      | Some u \<Rightarrow>
          if pu_scheme u \<noteq> ''http'' \<and> pu_scheme u \<noteq> ''https'' \<or> pu_host u = [] \<or> pu_hostname u = [] \<or>
             pu_user u \<or> pu_opaque u \<noteq> [] \<or> pu_path u \<noteq> [] \<and> pu_path u \<noteq> ''/'' \<or> pu_query u \<noteq> [] \<or>
             pu_force_query u \<or> pu_fragment u \<noteq> []
          then None else Some (pu_scheme u @ ''://'' @ pu_host u))"

text \<open>A return target is the validated text; \<open>None\<close> is the error, for which callers take the default.\<close>

definition new_return_target :: "url_parser \<Rightarrow> string list \<Rightarrow> string \<Rightarrow> string option" where
  "new_return_target parse allowed candidate =
     (let target = trim_space candidate in
      if has_prefix target ''/'' then (if safe_return_path target = target then Some target else None)
      else case parse target of
        None \<Rightarrow> None
      | Some u \<Rightarrow>
          if pu_scheme u = [] \<or> pu_opaque u \<noteq> [] \<or> pu_user u \<or> pu_host u = [] then None
          else (case parse_browser_origin parse (pu_scheme u @ ''://'' @ pu_host u) of
                  None \<Rightarrow> None
                | Some origin \<Rightarrow> if origin \<in> set allowed then Some target else None))"

definition return_or_default :: "string option \<Rightarrow> string" where
  "return_or_default t = (case t of None \<Rightarrow> default_return_path | Some v \<Rightarrow> if v = [] then default_return_path else v)"

section \<open>The tables\<close>

record session_row =
  sr_hash :: string
  sr_issuer :: string
  sr_subject :: string
  sr_issued :: nat
  sr_expires :: nat
  sr_access :: string
  sr_refresh :: string
  sr_token_expires :: "nat option"

record id_db =
  id_persons :: "person list"
  id_sessions :: "session_row list"
  id_pending :: "sign_in list"

datatype id_store_error = IdDown string exec_fault | NoIdSession | NoPendingSignIn | NoPerson | IdRejected string

definition nullable_time :: "nat \<Rightarrow> nat option" where
  "nullable_time t = (if t = 0 then None else Some t)"

definition same_person :: "string \<Rightarrow> string \<Rightarrow> person \<Rightarrow> bool" where
  "same_person issuer subject p = (ip_issuer p = issuer \<and> ip_subject p = subject)"

fun upsert_person :: "person \<Rightarrow> person list \<Rightarrow> person list" where
  "upsert_person p [] = [p]"
| "upsert_person p (q # qs) =
     (if same_person (ip_issuer p) (ip_subject p) q then p # qs else q # upsert_person p qs)"

definition session_row_of :: "id_session \<Rightarrow> session_row" where
  "session_row_of s =
     \<lparr>sr_hash = is_hash s, sr_issuer = ip_issuer (is_principal s), sr_subject = ip_subject (is_principal s),
      sr_issued = is_issued s, sr_expires = is_expires s, sr_access = it_access (is_tokens s),
      sr_refresh = it_refresh (is_tokens s), sr_token_expires = nullable_time (it_expires (is_tokens s))\<rparr>"

definition session_of :: "session_row \<Rightarrow> person \<Rightarrow> id_session" where
  "session_of r p =
     \<lparr>is_hash = sr_hash r, is_principal = p, is_issued = sr_issued r, is_expires = sr_expires r,
      is_tokens = \<lparr>it_access = sr_access r, it_refresh = sr_refresh r,
        it_expires = (case sr_token_expires r of None \<Rightarrow> 0 | Some t \<Rightarrow> t)\<rparr>\<rparr>"

definition set_tokens :: "id_tokens \<Rightarrow> session_row \<Rightarrow> session_row" where
  "set_tokens t r = r\<lparr>sr_access := it_access t, sr_refresh := it_refresh t, sr_token_expires := nullable_time (it_expires t)\<rparr>"

definition unique_key :: exec_fault where "unique_key = OtherFault ''23505''"

definition id_running ::
  "write_fault \<Rightarrow> string \<Rightarrow> (id_db \<Rightarrow> (id_store_error + 'a) \<times> id_db) \<Rightarrow> id_db \<Rightarrow> (id_store_error + 'a) \<times> id_db" where
  "id_running w what stmt db =
     (case w of
        Applied \<Rightarrow> stmt db
      | Refused f \<Rightarrow> (Inl (IdDown what f), db)
      | Lost f \<Rightarrow> (Inl (IdDown what f), snd (stmt db)))"

definition upsert_principal :: "write_fault \<Rightarrow> person \<Rightarrow> id_db \<Rightarrow> (id_store_error + unit) \<times> id_db" where
  "upsert_principal w p db =
     (if \<not> valid_principal p then (Inl (IdRejected ''a principal needs both an issuer and a subject''), db)
      else id_running w ''record the principal'' (\<lambda>db. (Inr (), db\<lparr>id_persons := upsert_person p (id_persons db)\<rparr>)) db)"

definition find_principal :: "write_fault \<Rightarrow> string \<Rightarrow> string \<Rightarrow> id_db \<Rightarrow> (id_store_error + person) \<times> id_db" where
  "find_principal w issuer subject =
     id_running w ''read the principal'' (\<lambda>db.
       (case find (same_person issuer subject) (id_persons db) of None \<Rightarrow> Inl NoPerson | Some p \<Rightarrow> Inr p, db))"

text \<open>
  One transaction: the principal and the session, both or neither.  A fault ends it in one of its
  four steps; the answer that can be lost is the commit's.
\<close>

definition create_session :: "write_fault \<Rightarrow> id_session \<Rightarrow> id_db \<Rightarrow> (id_store_error + unit) \<times> id_db" where
  "create_session w s db =
     (if is_hash s = [] then (Inl (IdRejected ''a session needs a token hash''), db)
      else if \<not> valid_principal (is_principal s) then (Inl (IdRejected ''a session needs a principal''), db)
      else id_running w ''commit the session'' (\<lambda>db.
        if is_hash s \<in> sr_hash ` set (id_sessions db) then (Inl (IdDown ''record the session'' unique_key), db)
        else (Inr (), db\<lparr>id_persons := upsert_person (is_principal s) (id_persons db),
                       id_sessions := id_sessions db @ [session_row_of s]\<rparr>)) db)"

definition find_session :: "write_fault \<Rightarrow> string \<Rightarrow> id_db \<Rightarrow> (id_store_error + id_session) \<times> id_db" where
  "find_session w h db =
     (if h = [] then (Inl NoIdSession, db)
      else id_running w ''read the session'' (\<lambda>db.
        (case find (\<lambda>r. sr_hash r = h) (id_sessions db) of
           None \<Rightarrow> Inl NoIdSession
         | Some r \<Rightarrow>
             (case find (same_person (sr_issuer r) (sr_subject r)) (id_persons db) of
                None \<Rightarrow> Inl NoIdSession
              | Some p \<Rightarrow> Inr (session_of r p)), db)) db)"

definition update_session_tokens :: "write_fault \<Rightarrow> string \<Rightarrow> id_tokens \<Rightarrow> id_db \<Rightarrow> (id_store_error + unit) \<times> id_db" where
  "update_session_tokens w h t =
     id_running w ''renew the session's tokens'' (\<lambda>db.
       (if list_ex (\<lambda>r. sr_hash r = h) (id_sessions db) then Inr () else Inl NoIdSession,
        db\<lparr>id_sessions := map (\<lambda>r. if sr_hash r = h then set_tokens t r else r) (id_sessions db)\<rparr>))"

definition end_session :: "write_fault \<Rightarrow> string \<Rightarrow> id_db \<Rightarrow> (id_store_error + unit) \<times> id_db" where
  "end_session w h =
     id_running w ''end the session'' (\<lambda>db.
       (if list_ex (\<lambda>r. sr_hash r = h) (id_sessions db) then Inr () else Inl NoIdSession,
        db\<lparr>id_sessions := filter (\<lambda>r. sr_hash r \<noteq> h) (id_sessions db)\<rparr>))"

definition delete_expired_sessions :: "write_fault \<Rightarrow> nat \<Rightarrow> id_db \<Rightarrow> (id_store_error + nat) \<times> id_db" where
  "delete_expired_sessions w before_at =
     id_running w ''sweep the expired sessions'' (\<lambda>db.
       (Inr (length (filter (\<lambda>r. sr_expires r \<le> before_at) (id_sessions db))),
        db\<lparr>id_sessions := filter (\<lambda>r. \<not> sr_expires r \<le> before_at) (id_sessions db)\<rparr>))"

definition start_sign_in :: "write_fault \<Rightarrow> sign_in \<Rightarrow> id_db \<Rightarrow> (id_store_error + unit) \<times> id_db" where
  "start_sign_in w p db =
     (if gn_hash p = [] then (Inl (IdRejected ''a pending sign-in needs a token hash''), db)
      else id_running w ''start the sign-in'' (\<lambda>db.
        if gn_hash p \<in> gn_hash ` set (id_pending db) then (Inl (IdDown ''start the sign-in'' unique_key), db)
        else (Inr (), db\<lparr>id_pending := id_pending db @ [p]\<rparr>)) db)"

definition take_pending_sign_in :: "write_fault \<Rightarrow> string \<Rightarrow> id_db \<Rightarrow> (id_store_error + sign_in) \<times> id_db" where
  "take_pending_sign_in w h db =
     (if h = [] then (Inl NoPendingSignIn, db)
      else id_running w ''take the pending sign-in'' (\<lambda>db.
        (case find (\<lambda>p. gn_hash p = h) (id_pending db) of None \<Rightarrow> Inl NoPendingSignIn | Some p \<Rightarrow> Inr p,
         db\<lparr>id_pending := filter (\<lambda>p. gn_hash p \<noteq> h) (id_pending db)\<rparr>)) db)"

definition delete_expired_sign_ins :: "write_fault \<Rightarrow> nat \<Rightarrow> id_db \<Rightarrow> (id_store_error + nat) \<times> id_db" where
  "delete_expired_sign_ins w before_at =
     id_running w ''sweep the abandoned sign-ins'' (\<lambda>db.
       (Inr (length (filter (\<lambda>p. gn_expires p \<le> before_at) (id_pending db))),
        db\<lparr>id_pending := filter (\<lambda>p. \<not> gn_expires p \<le> before_at) (id_pending db)\<rparr>))"

section \<open>Statements as data\<close>

text \<open>
  The statements a request can run.  What a sequence of them makes of the tables is a \<open>fold\<close>, so a
  property of every sequence is one of every interleaving of requests.
\<close>

datatype id_stmt =
    UpsertPerson person
  | FindPerson string string
  | CreateSession id_session
  | FindSession string
  | RenewSession string id_tokens
  | EndSession string
  | SweepSessions nat
  | StartSignIn sign_in
  | TakeSignIn string
  | SweepSignIns nat

type_synonym id_run = "write_fault \<times> id_stmt"

fun run_stmt :: "id_run \<Rightarrow> id_db \<Rightarrow> id_db" where
  "run_stmt (w, UpsertPerson p) db = snd (upsert_principal w p db)"
| "run_stmt (w, FindPerson i s) db = snd (find_principal w i s db)"
| "run_stmt (w, CreateSession s) db = snd (create_session w s db)"
| "run_stmt (w, FindSession h) db = snd (find_session w h db)"
| "run_stmt (w, RenewSession h t) db = snd (update_session_tokens w h t db)"
| "run_stmt (w, EndSession h) db = snd (end_session w h db)"
| "run_stmt (w, SweepSessions t) db = snd (delete_expired_sessions w t db)"
| "run_stmt (w, StartSignIn p) db = snd (start_sign_in w p db)"
| "run_stmt (w, TakeSignIn h) db = snd (take_pending_sign_in w h db)"
| "run_stmt (w, SweepSignIns t) db = snd (delete_expired_sign_ins w t db)"

definition run_stmts :: "id_run list \<Rightarrow> id_db \<Rightarrow> id_db" where
  "run_stmts = fold run_stmt"

lemma run_stmts_simps [simp]:
  "run_stmts [] db = db"
  "run_stmts (s # ss) db = run_stmts ss (run_stmt s db)"
  "run_stmts (ss @ ss') db = run_stmts ss' (run_stmts ss db)"
  by (simp_all add: run_stmts_def)

lemmas id_operations =
  upsert_principal_def find_principal_def create_session_def find_session_def update_session_tokens_def
  end_session_def delete_expired_sessions_def start_sign_in_def take_pending_sign_in_def
  delete_expired_sign_ins_def id_running_def

text \<open>Reads leave the tables alone.\<close>

lemma finds_leave [simp]:
  "snd (find_session w h db) = db" "snd (find_principal w i s db) = db"
  by (simp_all add: id_operations split: write_fault.split)

section \<open>Records that are used up\<close>

text \<open>
  The contract of a table whose records are put under a key and taken away again: a record that is
  taken is gone, and it is only there again when one is put.  \<open>count_along\<close> counts the steps of a
  sequence that do something, each in the state it runs in.
\<close>

fun count_along :: "('op \<Rightarrow> 'db \<Rightarrow> bool) \<Rightarrow> ('op \<Rightarrow> 'db \<Rightarrow> 'db) \<Rightarrow> 'op list \<Rightarrow> 'db \<Rightarrow> nat" where
  "count_along P run [] db = 0"
| "count_along P run (op # ops) db = (if P op db then 1 else 0) + count_along P run ops (run op db)"

lemma count_along_append [simp]:
  "count_along P run (ops @ ops') db = count_along P run ops db + count_along P run ops' (fold run ops db)"
  by (induction ops arbitrary: db) auto

locale used_up =
  fixes holds :: "string \<Rightarrow> 'db \<Rightarrow> bool"
    and run :: "'op \<Rightarrow> 'db \<Rightarrow> 'db"
    and puts :: "string \<Rightarrow> 'op \<Rightarrow> bool"
    and takes :: "string \<Rightarrow> 'op \<Rightarrow> 'db \<Rightarrow> bool"
  assumes taken_is_gone: "takes h op db \<Longrightarrow> holds h db \<and> \<not> holds h (run op db)"
    and only_put: "holds h (run op db) \<Longrightarrow> holds h db \<or> puts h op"
begin

lemma takes_are_paid:
  "count_along (takes h) run ops db + (if holds h (fold run ops db) then 1 else 0)
   \<le> (if holds h db then 1 else 0) + length (filter (puts h) ops)"
proof (induction ops arbitrary: db)
  case Nil
  then show ?case by simp
next
  case (Cons op ops)
  have "(if takes h op db then 1 else 0) + (if holds h (run op db) then 1 else 0)
      \<le> (if holds h db then 1 else 0) + (if puts h op then 1 else (0::nat))"
    using taken_is_gone [of h op db] only_put [of h op db] by auto
  with Cons [of "run op db"] show ?case by auto
qed

lemma stays_gone:
  assumes "\<not> holds h db" and "list_all (\<lambda>op. \<not> puts h op) ops"
  shows "\<not> holds h (fold run ops db)"
  using assms
proof (induction ops arbitrary: db)
  case (Cons op ops)
  then show ?case using only_put [of h op db] by auto
qed simp

lemma not_taken_again:
  assumes "\<not> holds h db" and "list_all (\<lambda>op. \<not> puts h op) ops"
  shows "count_along (takes h) run ops db = 0"
proof -
  have "filter (puts h) ops = []" using assms(2) by (simp add: list_all_iff filter_empty_conv)
  with takes_are_paid [of h ops db] assms(1) show ?thesis by simp
qed

end

definition holds_sign_in :: "string \<Rightarrow> id_db \<Rightarrow> bool" where
  "holds_sign_in h db = list_ex (\<lambda>p. gn_hash p = h) (id_pending db)"

definition holds_session :: "string \<Rightarrow> id_db \<Rightarrow> bool" where
  "holds_session h db = list_ex (\<lambda>r. sr_hash r = h) (id_sessions db)"

fun starts_sign_in :: "string \<Rightarrow> id_run \<Rightarrow> bool" where
  "starts_sign_in h (w, StartSignIn p) = (gn_hash p = h)"
| "starts_sign_in h _ = False"

fun takes_sign_in :: "string \<Rightarrow> id_run \<Rightarrow> id_db \<Rightarrow> bool" where
  "takes_sign_in h (w, TakeSignIn h') db = (h' = h \<and> \<not> isl (fst (take_pending_sign_in w h' db)))"
| "takes_sign_in h _ db = False"

fun creates_session :: "string \<Rightarrow> id_run \<Rightarrow> bool" where
  "creates_session h (w, CreateSession s) = (is_hash s = h)"
| "creates_session h _ = False"

fun ends_session :: "string \<Rightarrow> id_run \<Rightarrow> id_db \<Rightarrow> bool" where
  "ends_session h (w, EndSession h') db = (h' = h \<and> \<not> isl (fst (end_session w h' db)))"
| "ends_session h _ db = False"

lemma find_in: "find P xs = Some x \<Longrightarrow> x \<in> set xs \<and> P x"
  by (induction xs) (auto split: if_splits)

lemma holds_sign_in_run:
  "holds_sign_in h (run_stmt op db) \<Longrightarrow> holds_sign_in h db \<or> starts_sign_in h op"
  by (cases op; cases "snd op")
    (auto simp: id_operations holds_sign_in_def list_ex_iff split: write_fault.splits if_splits)

lemma holds_session_run:
  "holds_session h (run_stmt op db) \<Longrightarrow> holds_session h db \<or> creates_session h op"
  by (cases op; cases "snd op")
    (auto simp: id_operations holds_session_def session_row_of_def set_tokens_def list_ex_iff
      split: write_fault.splits if_splits)

interpretation sign_ins: used_up holds_sign_in run_stmt starts_sign_in takes_sign_in
proof
  fix h op db
  assume "takes_sign_in h op db"
  then show "holds_sign_in h db \<and> \<not> holds_sign_in h (run_stmt op db)"
    by (cases op; cases "snd op")
      (auto simp: id_operations holds_sign_in_def list_ex_iff find_None_iff
        split: write_fault.splits if_splits option.splits dest!: find_in)
qed (rule holds_sign_in_run)

interpretation sessions: used_up holds_session run_stmt creates_session ends_session
proof
  fix h op db
  assume "ends_session h op db"
  then show "holds_session h db \<and> \<not> holds_session h (run_stmt op db)"
    by (cases op; cases "snd op")
      (auto simp: id_operations holds_session_def list_ex_iff split: write_fault.splits if_splits)
qed (rule holds_session_run)

section \<open>What the tables keep\<close>

text \<open>
  The keys are keys, a principal has both parts of its identity, and every session names a principal
  that is recorded, so the join that reads a session finds one.
\<close>

definition id_db_ok :: "id_db \<Rightarrow> bool" where
  "id_db_ok db =
     (distinct (map sr_hash (id_sessions db)) \<and> distinct (map gn_hash (id_pending db)) \<and>
      distinct (map (\<lambda>p. (ip_issuer p, ip_subject p)) (id_persons db)) \<and>
      list_all valid_principal (id_persons db) \<and>
      list_all (\<lambda>r. sr_hash r \<noteq> []) (id_sessions db) \<and> list_all (\<lambda>p. gn_hash p \<noteq> []) (id_pending db) \<and>
      list_all (\<lambda>r. list_ex (same_person (sr_issuer r) (sr_subject r)) (id_persons db)) (id_sessions db))"

definition person_key :: "person \<Rightarrow> string \<times> string" where
  "person_key p = (ip_issuer p, ip_subject p)"

lemma upsert_keys:
  "map person_key (upsert_person p ps) =
   (if person_key p \<in> person_key ` set ps then map person_key ps else map person_key ps @ [person_key p])"
  by (induction ps) (auto simp: person_key_def same_person_def)

lemma upsert_all: "list_all P ps \<Longrightarrow> P p \<Longrightarrow> list_all P (upsert_person p ps)"
  by (induction ps) auto

lemma knows_person: "list_ex (same_person i s) ps \<longleftrightarrow> (i, s) \<in> set (map person_key ps)"
  by (induction ps) (auto simp: same_person_def person_key_def)

lemma knows_upsert:
  "list_ex (same_person i s) (upsert_person p ps) \<longleftrightarrow> same_person i s p \<or> list_ex (same_person i s) ps"
  by (auto simp: knows_person upsert_keys same_person_def person_key_def)

lemma distinct_filter_map: "distinct (map f xs) \<Longrightarrow> distinct (map f (filter P xs))"
  by (induction xs) auto

lemma id_db_ok_alt:
  "id_db_ok db =
     (distinct (map sr_hash (id_sessions db)) \<and> distinct (map gn_hash (id_pending db)) \<and>
      distinct (map person_key (id_persons db)) \<and> list_all valid_principal (id_persons db) \<and>
      list_all (\<lambda>r. sr_hash r \<noteq> []) (id_sessions db) \<and> list_all (\<lambda>p. gn_hash p \<noteq> []) (id_pending db) \<and>
      list_all (\<lambda>r. list_ex (same_person (sr_issuer r) (sr_subject r)) (id_persons db)) (id_sessions db))"
  by (simp add: id_db_ok_def person_key_def [abs_def])

lemma ok_upsert:
  assumes "id_db_ok db" "valid_principal p"
  shows "id_db_ok (db\<lparr>id_persons := upsert_person p (id_persons db)\<rparr>)"
proof -
  have "list_all valid_principal (upsert_person p (id_persons db))"
    using assms by (simp add: id_db_ok_alt upsert_all)
  with assms show ?thesis by (auto simp: id_db_ok_alt upsert_keys knows_upsert list_all_iff)
qed

lemma ok_sessions:
  assumes "id_db_ok db"
  shows "id_db_ok (db\<lparr>id_sessions := filter P (id_sessions db)\<rparr>)"
    and "id_db_ok (db\<lparr>id_pending := filter Q (id_pending db)\<rparr>)"
  using assms by (auto simp: id_db_ok_alt distinct_filter_map list_all_iff)

lemma ok_renew:
  assumes "id_db_ok db"
  shows "id_db_ok (db\<lparr>id_sessions := map (\<lambda>r. if sr_hash r = h then set_tokens t r else r) (id_sessions db)\<rparr>)"
proof -
  let ?f = "\<lambda>r. if sr_hash r = h then set_tokens t r else r"
  have same: "sr_hash (?f r) = sr_hash r" "sr_issuer (?f r) = sr_issuer r" "sr_subject (?f r) = sr_subject r" for r
    by (simp_all add: set_tokens_def)
  then have "map sr_hash (map ?f rs) = map sr_hash rs" for rs by simp
  moreover have "list_all P (map ?f rs) \<longleftrightarrow> list_all (P \<circ> ?f) rs" for P rs by (simp add: list.pred_map)
  ultimately show ?thesis using assms same by (simp add: id_db_ok_alt comp_def)
qed

lemma ok_create:
  assumes "id_db_ok db" "valid_principal (is_principal s)" "is_hash s \<noteq> []" "is_hash s \<notin> sr_hash ` set (id_sessions db)"
  shows "id_db_ok (db\<lparr>id_persons := upsert_person (is_principal s) (id_persons db),
     id_sessions := id_sessions db @ [session_row_of s]\<rparr>)"
  using ok_upsert [OF assms(1,2)] assms(3,4)
  by (auto simp: id_db_ok_alt session_row_of_def knows_upsert same_person_def)

lemma ok_start:
  assumes "id_db_ok db" "gn_hash p \<noteq> []" "gn_hash p \<notin> gn_hash ` set (id_pending db)"
  shows "id_db_ok (db\<lparr>id_pending := id_pending db @ [p]\<rparr>)"
  using assms by (auto simp: id_db_ok_alt)

lemma ok_run_stmt: "id_db_ok db \<Longrightarrow> id_db_ok (run_stmt op db)"
  by (cases op; cases "snd op")
    (auto simp: id_operations ok_upsert ok_sessions ok_renew ok_create ok_start split: write_fault.splits)

lemma ok_run_stmts: "id_db_ok db \<Longrightarrow> id_db_ok (run_stmts ops db)"
  by (induction ops arbitrary: db) (auto intro: ok_run_stmt)

text \<open>The keys of the three tables stay keys, every stored principal has an issuer and a subject, and
  every session names a principal that is recorded, whatever statements the requests run, in whatever
  order, and whichever of them fail or lose their answer.\<close>

theorem id_tables_stay_sound:
  assumes "id_db_ok db"
  shows "id_db_ok (run_stmts ops db)"
  using assms by (rule ok_run_stmts)

lemma distinct_find:
  "distinct (map f xs) \<Longrightarrow> x \<in> set xs \<Longrightarrow> find (\<lambda>y. f y = f x) xs = Some x"
  by (induction xs) (auto simp: rev_image_eqI)

lemma find_upserted:
  "find (same_person (ip_issuer p) (ip_subject p)) (upsert_person p ps) = Some p"
  by (induction ps) (auto simp: same_person_def)

text \<open>In sound tables a session that is there is read: the join finds its principal.\<close>

lemma session_is_read:
  assumes ok: "id_db_ok db" and "holds_session h db"
  shows "\<exists>s. find_session Applied h db = (Inr s, db) \<and> is_hash s = h"
proof -
  from assms(2) obtain r where r: "find (\<lambda>r. sr_hash r = h) (id_sessions db) = Some r"
    by (cases "find (\<lambda>r. sr_hash r = h) (id_sessions db)")
      (auto simp: holds_session_def list_ex_iff find_None_iff)
  from find_in [OF this] have in_table: "r \<in> set (id_sessions db)" and h: "sr_hash r = h" by simp_all
  with ok have "list_ex (same_person (sr_issuer r) (sr_subject r)) (id_persons db)" and "h \<noteq> []"
    by (auto simp: id_db_ok_def list_all_iff)
  then obtain p where "find (same_person (sr_issuer r) (sr_subject r)) (id_persons db) = Some p"
    by (cases "find (same_person (sr_issuer r) (sr_subject r)) (id_persons db)")
      (auto simp: list_ex_iff find_None_iff)
  with r h \<open>h \<noteq> []\<close> show ?thesis by (simp add: find_session_def id_running_def session_of_def)
qed

text \<open>Round trip of a session: after a session is created, reading it by its token's hash gives the very
  session that was written, its principal with the names just disclosed and its tokens included; a
  token with no stated expiry comes back as having none.\<close>

theorem created_session_is_read_back:
  assumes "create_session Applied s db = (Inr (), db')"
  shows "find_session Applied (is_hash s) db' = (Inr s, db')"
proof -
  from assms have h: "is_hash s \<noteq> []" and new: "is_hash s \<notin> sr_hash ` set (id_sessions db)"
    and db': "db' = db\<lparr>id_persons := upsert_person (is_principal s) (id_persons db),
        id_sessions := id_sessions db @ [session_row_of s]\<rparr>"
    by (auto simp: create_session_def id_running_def split: if_splits)
  have "find (\<lambda>r. sr_hash r = is_hash s) (id_sessions db) = None"
    using new by (simp add: find_None_iff image_iff) metis
  then have row: "find (\<lambda>r. sr_hash r = is_hash s) (id_sessions db') = Some (session_row_of s)"
    by (simp add: db' find_append session_row_of_def)
  have same: "session_of (session_row_of s) (is_principal s) = s"
    by (simp add: session_of_def session_row_of_def nullable_time_def)
  have person: "find (same_person (sr_issuer (session_row_of s)) (sr_subject (session_row_of s))) (id_persons db')
      = Some (is_principal s)"
    by (simp add: db' session_row_of_def find_upserted)
  show ?thesis using h by (simp add: find_session_def id_running_def row person same)
qed

definition operator :: person where
  "operator = \<lparr>ip_issuer = ''https://id'', ip_subject = ''1'', ip_name = ''Op'', ip_email = []\<rparr>"

definition empty_id_db :: id_db where
  "empty_id_db = \<lparr>id_persons = [], id_sessions = [], id_pending = []\<rparr>"

definition example_session :: id_session where
  "example_session = \<lparr>is_hash = ''h'', is_principal = operator, is_issued = 5, is_expires = 17,
     is_tokens = \<lparr>it_access = ''a'', it_refresh = [], it_expires = 0\<rparr>\<rparr>"

lemma valid_operator [simp]: "valid_principal operator"
  by code_simp

theorem id_tables_stay_sound_witness:
  "id_db_ok (run_stmts [(Applied, CreateSession example_session), (Applied, CreateSession example_session)] empty_id_db)"
  by (rule id_tables_stay_sound) (simp add: id_db_ok_def empty_id_db_def)

theorem created_session_is_read_back_witness:
  "fst (find_session Applied ''h'' (snd (create_session Applied example_session empty_id_db))) = Inr example_session"
proof -
  have "create_session Applied example_session empty_id_db =
      (Inr (), snd (create_session Applied example_session empty_id_db))"
    by (simp add: create_session_def id_running_def example_session_def empty_id_db_def)
  from created_session_is_read_back [OF this] show ?thesis by (simp add: example_session_def)
qed

end
