(* ===== verification/Identity.thy ===== *)
theory Identity
  imports Identity_Store
begin

text \<open>
  Signing in and being recognised: \<open>identity/service.go\<close> (the sign-in sequence, sessions) and
  \<open>identity/credential.go\<close> (the static token, the chain of authenticators), over the ports of
  \<open>identity/ports.go\<close>.

  An operation is a body over the identity tables.  Other requests run at the same time: before
  every statement of its own, an operation lets the statements in \<open>ie_others\<close> happen, whichever and
  however many they are.  An event \<open>IdDid\<close> holds the statements in the order they ran, the others'
  first and the operation's own last, so \<open>history\<close> is what everybody did to the tables.  The clock,
  the random tokens, the faults and the provider's answers are functions of the log so far; SHA-256
  and the URL parser are parameters.  Durations and times are in nanoseconds.
\<close>

section \<open>The ports\<close>

datatype provider_fault = ProviderDown string | ProviderRefused string

record auth_request =
  ar_state :: string
  ar_nonce :: string
  ar_verifier :: string
  ar_redirect :: string

record exchange_request =
  ex_code :: string
  ex_nonce :: string
  ex_verifier :: string
  ex_redirect :: string

datatype id_ev =
    IdDid "id_run list"
  | IdMint "string + string"
  | IdAuthUrl auth_request "provider_fault + string"
  | IdExchange exchange_request "provider_fault + (person \<times> id_tokens)"
  | IdRefresh string "provider_fault + id_tokens"

record id_env =
  ie_others :: "id_ev list \<Rightarrow> id_run list"
  ie_fault :: "id_ev list \<Rightarrow> write_fault"
  ie_now :: "id_ev list \<Rightarrow> nat"
  ie_mint :: "id_ev list \<Rightarrow> string + string"
  ie_auth_url :: "auth_request \<Rightarrow> id_ev list \<Rightarrow> provider_fault + string"
  ie_exchange :: "exchange_request \<Rightarrow> id_ev list \<Rightarrow> provider_fault + (person \<times> id_tokens)"
  ie_refresh :: "string \<Rightarrow> id_ev list \<Rightarrow> provider_fault + id_tokens"
  ie_sign_out_url :: "string \<Rightarrow> string"
  ie_hash :: "string \<Rightarrow> string"
  ie_parse :: url_parser

datatype id_error =
    Unauthenticated
  | SignInFailed string
  | ProviderUnavailable string
  | IdStoreError id_store_error
  | MintFailed string string

type_synonym 'a id_body = "(id_ev, id_db, id_error, 'a) body"

fun fault_text :: "provider_fault \<Rightarrow> string" where
  "fault_text (ProviderDown m) = m"
| "fault_text (ProviderRefused m) = m"

section \<open>Statements among those of others\<close>

definition running :: "id_env \<Rightarrow> id_stmt \<Rightarrow> (write_fault \<Rightarrow> id_db \<Rightarrow> (id_store_error + 'a) \<times> id_db) \<Rightarrow>
   (id_ev, id_db, id_store_error, 'a) body" where
  "running env st stmt db l =
     (let w = ie_fault env l; others = ie_others env l in
      case stmt w (run_stmts others db) of (r, db') \<Rightarrow> (r, db', l @ [IdDid (others @ [(w, st)])]))"

lemma vwp_running [wp_rules]:
  "vwp (running env st stmt) Q db l \<longleftrightarrow>
   Q (fst (stmt (ie_fault env l) (run_stmts (ie_others env l) db)))
     (snd (stmt (ie_fault env l) (run_stmts (ie_others env l) db)))
     (l @ [IdDid (ie_others env l @ [(ie_fault env l, st)])])"
  by (simp add: vwp_def running_def Let_def split_def)

definition kept_in :: "id_env \<Rightarrow> id_stmt \<Rightarrow> (write_fault \<Rightarrow> id_db \<Rightarrow> (id_store_error + 'a) \<times> id_db) \<Rightarrow> 'a id_body" where
  "kept_in env st stmt = vmap_error IdStoreError (running env st stmt)"

definition mint :: "id_env \<Rightarrow> string \<Rightarrow> string id_body" where
  "mint env what = vdo (on_error (MintFailed what) (perform (ie_mint env) IdMint))"

lemma vwp_mint [wp_rules]:
  "vwp (mint env what) Q db l \<longleftrightarrow>
   Q (case ie_mint env l of Inl e \<Rightarrow> Inl (MintFailed what e) | Inr t \<Rightarrow> Inr t) db (l @ [IdMint (ie_mint env l)])"
  by (simp add: mint_def wp_rules split: sum.split)

fun ran_in :: "id_ev \<Rightarrow> id_run list" where
  "ran_in (IdDid sts) = sts"
| "ran_in _ = []"

definition history :: "id_ev list \<Rightarrow> id_run list" where
  "history l = concat (map ran_in l)"

lemma history_simps [simp]:
  "history [] = []" "history (e # l) = ran_in e @ history l" "history (l @ l') = history l @ history l'"
  by (simp_all add: history_def)

text \<open>\<open>follows m\<close>: the body appends to its log, and the tables are what the statements in it made of them.\<close>

definition follows :: "(id_ev, id_db, 'e, 'a) body \<Rightarrow> bool" where
  "follows m = (\<forall>db l. \<exists>d. snd (m db l) = (run_stmts (history d) db, l @ d))"

lemma followsE:
  assumes "follows m" "m db l = (r, db', l')"
  obtains d where "db' = run_stmts (history d) db" "l' = l @ d"
  using assms by (metis follows_def snd_conv prod.inject)

lemma follows_basic [intro!]: "follows (vret x)" "follows (vfail e)"
  by (simp_all add: follows_def vret_def vfail_def)

lemma follows_then [intro!]:
  assumes "follows m" and "\<And>x. follows (f x)"
  shows "follows (vthen m f)"
  unfolding follows_def
proof (intro allI)
  fix db l
  obtain r db' l' where m: "m db l = (r, db', l')" by (metis prod_cases3)
  from followsE [OF assms(1) m] obtain d where d: "db' = run_stmts (history d) db" "l' = l @ d" .
  show "\<exists>d. snd (vthen m f db l) = (run_stmts (history d) db, l @ d)"
  proof (cases r)
    case (Inl e)
    then show ?thesis using m d by (simp add: vthen_def)
  next
    case (Inr x)
    obtain r' db'' l'' where f: "f x db' l' = (r', db'', l'')" by (metis prod_cases3)
    from followsE [OF assms(2) f] obtain d' where "db'' = run_stmts (history d') db'" "l'' = l' @ d'" .
    then have "snd (vthen m f db l) = (run_stmts (history (d @ d')) db, l @ (d @ d'))"
      using m d f Inr by (simp add: vthen_def)
    then show ?thesis by blast
  qed
qed

lemma follows_look [intro!]: "follows m \<Longrightarrow> follows (vlook m)"
  by (simp add: follows_def vlook_def split_def)

lemma map_error_leaves: "snd (vmap_error g m db l) = snd (m db l)"
  by (simp add: vmap_error_def split: prod.split sum.split)

lemma follows_map_error [intro!]: "follows m \<Longrightarrow> follows (vmap_error g m)"
  by (simp add: follows_def map_error_leaves)

lemma follows_running [intro]:
  assumes "\<And>w db. snd (stmt w db) = run_stmt (w, st) db"
  shows "follows (running env st stmt)"
  unfolding follows_def
proof (intro allI exI)
  fix db l
  show "snd (running env st stmt db l) =
      (run_stmts (history [IdDid (ie_others env l @ [(ie_fault env l, st)])]) db,
       l @ [IdDid (ie_others env l @ [(ie_fault env l, st)])])"
    by (simp add: running_def Let_def split_def assms)
qed

lemma follows_kept_in [intro]: "(\<And>w db. snd (stmt w db) = run_stmt (w, st) db) \<Longrightarrow> follows (kept_in env st stmt)"
  unfolding kept_in_def by (intro follows_map_error follows_running)

lemma follows_asking [intro!]: "follows (vdo (asking f))"
  unfolding follows_def vdo_def asking_def by (intro allI exI [of _ "[]"]) simp

lemma follows_perform:
  assumes "\<And>r. ran_in (ev r) = []"
  shows "follows (vdo (perform ans ev))" and "follows (vdo (on_error g (perform ans ev)))"
proof -
  have "snd (vdo (perform ans ev) db l) = (run_stmts (history [ev (ans l)]) db, l @ [ev (ans l)])"
    and "snd (vdo (on_error g (perform ans ev)) db l) = (run_stmts (history [ev (ans l)]) db, l @ [ev (ans l)])" for db l
    by (simp_all add: vdo_def on_error_def perform_def assms split: prod.split sum.split)
  then show "follows (vdo (perform ans ev))" and "follows (vdo (on_error g (perform ans ev)))"
    unfolding follows_def by blast+
qed

lemma follows_calls [intro!]:
  "follows (mint env what)"
  "follows (vdo (on_error g (perform (ie_auth_url env q) (IdAuthUrl q))))"
  "follows (vdo (on_error h (perform (ie_exchange env x) (IdExchange x))))"
  "follows (vdo (perform (ie_refresh env t) (IdRefresh t)))"
  unfolding mint_def by (rule follows_perform, simp)+

section \<open>The service\<close>

definition default_session_life :: nat where "default_session_life = 12 * 3600 * 1000000000"
definition default_sign_in_life :: nat where "default_sign_in_life = 10 * 60 * 1000000000"

text \<open>What a service is built from; the four booleans say which ports were supplied.\<close>

record id_dependencies =
  dq_provider :: bool
  dq_sessions :: bool
  dq_principals :: bool
  dq_pending :: bool
  dq_redirect :: string
  dq_origins :: "string list"
  dq_session_life :: int
  dq_sign_in_life :: int

record id_service =
  ik_redirect :: string
  ik_origins :: "string list"
  ik_session_life :: nat
  ik_sign_in_life :: nat

fun parse_origins :: "url_parser \<Rightarrow> string list \<Rightarrow> string + string list" where
  "parse_origins parse [] = Inr []"
| "parse_origins parse (c # cs) =
     (case parse_browser_origin parse c of
        None \<Rightarrow> Inl (''invalid browser origin '' @ c)
      | Some origin \<Rightarrow> (case parse_origins parse cs of Inl e \<Rightarrow> Inl e | Inr os \<Rightarrow> Inr (origin # os)))"

definition new_service :: "url_parser \<Rightarrow> id_dependencies \<Rightarrow> string + id_service" where
  "new_service parse d =
     (if \<not> dq_provider d then Inl ''an identity provider is required''
      else if \<not> dq_sessions d then Inl ''a session store is required''
      else if \<not> dq_principals d then Inl ''a principal store is required''
      else if \<not> dq_pending d then Inl ''a pending sign-in store is required''
      else if dq_redirect d = [] then Inl ''the redirect URI is required''
      else case parse_origins parse (dq_origins d) of
        Inl e \<Rightarrow> Inl e
      | Inr os \<Rightarrow> Inr \<lparr>ik_redirect = dq_redirect d, ik_origins = os,
          ik_session_life = (if dq_session_life d \<le> 0 then default_session_life else nat (dq_session_life d)),
          ik_sign_in_life = (if dq_sign_in_life d \<le> 0 then default_sign_in_life else nat (dq_sign_in_life d))\<rparr>)"

record started_sign_in =
  su_url :: string
  su_token :: string
  su_expires :: nat

definition mint_sign_in_secrets :: "id_env \<Rightarrow> (string \<times> string \<times> string \<times> string) id_body" where
  "mint_sign_in_secrets env =
     vthen (mint env ''mint a sign-in secret'') (\<lambda>request.
     vthen (mint env ''mint a sign-in secret'') (\<lambda>state.
     vthen (mint env ''mint a sign-in secret'') (\<lambda>nonce.
     vthen (mint env ''mint a sign-in secret'') (\<lambda>verifier.
     vret (request, state, nonce, verifier)))))"

definition begin_sign_in :: "id_env \<Rightarrow> id_service \<Rightarrow> string \<Rightarrow> started_sign_in id_body" where
  "begin_sign_in env sv return_to =
     vthen (mint_sign_in_secrets env) (\<lambda>(request, state, nonce, verifier).
     vthen (vdo (asking (ie_now env))) (\<lambda>now.
     let pending = \<lparr>gn_hash = ie_hash env request, gn_state = state, gn_nonce = nonce, gn_verifier = verifier,
           gn_return = return_or_default (new_return_target (ie_parse env) (ik_origins sv) return_to),
           gn_started = now, gn_expires = now + ik_sign_in_life sv\<rparr>;
         q = \<lparr>ar_state = state, ar_nonce = nonce, ar_verifier = verifier, ar_redirect = ik_redirect sv\<rparr>
     in vthen (vdo (on_error (\<lambda>f. ProviderUnavailable (fault_text f)) (perform (ie_auth_url env q) (IdAuthUrl q)))) (\<lambda>url.
     vthen (kept_in env (StartSignIn pending) (\<lambda>w. start_sign_in w pending)) (\<lambda>_.
     vret \<lparr>su_url = url, su_token = request, su_expires = gn_expires pending\<rparr>))))"

record callback =
  kb_token :: string
  kb_state :: string
  kb_code :: string
  kb_error :: string

record grant =
  gr_token :: string
  gr_principal :: person
  gr_expires :: nat
  gr_return :: string

definition take_sign_in :: "id_env \<Rightarrow> string \<Rightarrow> sign_in id_body" where
  "take_sign_in env h =
     vmap_error (\<lambda>e. if e = NoPendingSignIn then SignInFailed [] else IdStoreError e)
       (running env (TakeSignIn h) (\<lambda>w. take_pending_sign_in w h))"

definition grant_session :: "id_env \<Rightarrow> id_service \<Rightarrow> sign_in \<Rightarrow> person \<Rightarrow> id_tokens \<Rightarrow> grant id_body" where
  "grant_session env sv pending p tokens =
     vthen (kept_in env (UpsertPerson p) (\<lambda>w. upsert_principal w p)) (\<lambda>_.
     vthen (mint env ''mint a session token'') (\<lambda>token.
     vthen (vdo (asking (ie_now env))) (\<lambda>now.
     let session = \<lparr>is_hash = ie_hash env token, is_principal = p, is_issued = now,
           is_expires = now + ik_session_life sv, is_tokens = tokens\<rparr>
     in vthen (kept_in env (CreateSession session) (\<lambda>w. create_session w session)) (\<lambda>_.
     vret \<lparr>gr_token = token, gr_principal = p, gr_expires = is_expires session,
       gr_return = return_or_default (new_return_target (ie_parse env) (ik_origins sv) (gn_return pending))\<rparr>))))"

definition exchange_code :: "id_env \<Rightarrow> id_service \<Rightarrow> sign_in \<Rightarrow> string \<Rightarrow> (person \<times> id_tokens) id_body" where
  "exchange_code env sv pending code =
     (let x = \<lparr>ex_code = code, ex_nonce = gn_nonce pending, ex_verifier = gn_verifier pending, ex_redirect = ik_redirect sv\<rparr>
      in vdo (on_error (\<lambda>f. SignInFailed (fault_text f)) (perform (ie_exchange env x) (IdExchange x))))"

definition complete_sign_in :: "id_env \<Rightarrow> id_service \<Rightarrow> callback \<Rightarrow> grant id_body" where
  "complete_sign_in env sv cb =
     (if kb_token cb = [] \<or> kb_state cb = [] then vfail (SignInFailed [])
      else vthen (take_sign_in env (ie_hash env (kb_token cb))) (\<lambda>pending.
        vthen (vdo (asking (ie_now env))) (\<lambda>now.
        if sign_in_expired now pending then vfail (SignInFailed [])
        else if gn_state pending \<noteq> kb_state cb then vfail (SignInFailed [])
        else if kb_error cb \<noteq> [] \<or> kb_code cb = [] then vfail (SignInFailed ''the provider returned no usable code'')
        else vthen (exchange_code env sv pending (kb_code cb)) (\<lambda>(p, tokens).
          if \<not> valid_principal p then vfail (SignInFailed ''the provider disclosed no stable subject'')
          else grant_session env sv pending p tokens))))"

record credential =
  kr_authorization :: string
  kr_session :: string

definition no_credential :: "credential \<Rightarrow> bool" where
  "no_credential c = (kr_authorization c = [] \<and> kr_session c = [])"

text \<open>A session is ended without looking at how that went.\<close>

definition end_anyway :: "id_env \<Rightarrow> string \<Rightarrow> unit id_body" where
  "end_anyway env h = vthen (vlook (running env (EndSession h) (\<lambda>w. end_session w h))) (\<lambda>_. vret ())"

definition renew_session :: "id_env \<Rightarrow> id_session \<Rightarrow> unit id_body" where
  "renew_session env s =
     (if it_refresh (is_tokens s) = [] then vthen (end_anyway env (is_hash s)) (\<lambda>_. vfail Unauthenticated)
      else vthen (vlook (vdo (perform (ie_refresh env (it_refresh (is_tokens s))) (IdRefresh (it_refresh (is_tokens s)))))) (\<lambda>r.
        case r of
          Inl (ProviderDown m) \<Rightarrow> vfail (ProviderUnavailable m)
        | Inl (ProviderRefused m) \<Rightarrow> vthen (end_anyway env (is_hash s)) (\<lambda>_. vfail Unauthenticated)
        | Inr tokens \<Rightarrow> kept_in env (RenewSession (is_hash s) tokens) (\<lambda>w. update_session_tokens w (is_hash s) tokens)))"

definition read_session :: "id_env \<Rightarrow> string \<Rightarrow> id_session id_body" where
  "read_session env h =
     vmap_error (\<lambda>e. if e = NoIdSession then Unauthenticated else IdStoreError e)
       (running env (FindSession h) (\<lambda>w. find_session w h))"

definition authenticate_session :: "id_env \<Rightarrow> credential \<Rightarrow> person id_body" where
  "authenticate_session env c =
     (if kr_session c = [] then vfail Unauthenticated
      else let h = ie_hash env (kr_session c) in
        vthen (read_session env h) (\<lambda>s.
        vthen (vdo (asking (ie_now env))) (\<lambda>now.
        if session_expired now s then vthen (end_anyway env h) (\<lambda>_. vfail Unauthenticated)
        else if tokens_expired now (is_tokens s) then vthen (renew_session env s) (\<lambda>_. vret (is_principal s))
        else vret (is_principal s))))"

definition sign_out :: "id_env \<Rightarrow> string \<Rightarrow> unit id_body" where
  "sign_out env token =
     (if token = [] then vret ()
      else vthen (vlook (running env (EndSession (ie_hash env token)) (\<lambda>w. end_session w (ie_hash env token)))) (\<lambda>r.
        case r of Inl e \<Rightarrow> if e = NoIdSession then vret () else vfail (IdStoreError e) | Inr _ \<Rightarrow> vret ()))"

definition sign_out_url :: "id_env \<Rightarrow> string \<Rightarrow> string" where
  "sign_out_url env return_to = ie_sign_out_url env return_to"

text \<open>The counts are returned together with the error, as the code's three results are.\<close>

definition purge_expired :: "id_env \<Rightarrow> (nat \<times> nat \<times> id_error option) id_body" where
  "purge_expired env =
     vthen (vdo (asking (ie_now env))) (\<lambda>now.
     vthen (vlook (running env (SweepSessions now) (\<lambda>w. delete_expired_sessions w now))) (\<lambda>a.
     case a of Inl e \<Rightarrow> vret (0, 0, Some (IdStoreError e))
     | Inr m \<Rightarrow> vthen (vlook (running env (SweepSignIns now) (\<lambda>w. delete_expired_sign_ins w now))) (\<lambda>b.
         case b of Inl e \<Rightarrow> vret (m, 0, Some (IdStoreError e)) | Inr n \<Rightarrow> vret (m, n, None))))"

section \<open>Credentials\<close>

definition static_token_subject :: string where "static_token_subject = ''automation''"
definition bearer_prefix :: string where "bearer_prefix = ''Bearer ''"

record static_token =
  tk_want :: string
  tk_principal :: person

definition new_static_token :: "(string \<Rightarrow> string) \<Rightarrow> string \<Rightarrow> string + static_token" where
  "new_static_token digest token =
     (if blank token then Inl ''the static token must not be empty''
      else Inr \<lparr>tk_want = digest (bearer_prefix @ token),
        tk_principal = \<lparr>ip_issuer = local_issuer, ip_subject = static_token_subject, ip_name = ''Automation'', ip_email = []\<rparr>\<rparr>)"

definition authenticate_token :: "id_env \<Rightarrow> static_token \<Rightarrow> credential \<Rightarrow> person id_body" where
  "authenticate_token env t c =
     (if ie_hash env (kr_authorization c) \<noteq> tk_want t then vfail Unauthenticated else vret (tk_principal t))"

type_synonym authenticator = "credential \<Rightarrow> person id_body"

fun authenticate_chain :: "authenticator list \<Rightarrow> credential \<Rightarrow> person id_body" where
  "authenticate_chain [] c = vfail Unauthenticated"
| "authenticate_chain (a # as) c =
     vthen (vlook (a c)) (\<lambda>r.
       case r of
         Inr p \<Rightarrow> vret p
       | Inl e \<Rightarrow> if e = Unauthenticated then authenticate_chain as c else vfail e)"

section \<open>Every operation follows its statements\<close>

lemma follows_statements [intro!]:
  "follows (running env (UpsertPerson p) (\<lambda>w. upsert_principal w p))"
  "follows (running env (CreateSession s) (\<lambda>w. create_session w s))"
  "follows (running env (FindSession h) (\<lambda>w. find_session w h))"
  "follows (running env (RenewSession h t) (\<lambda>w. update_session_tokens w h t))"
  "follows (running env (EndSession h) (\<lambda>w. end_session w h))"
  "follows (running env (SweepSessions at) (\<lambda>w. delete_expired_sessions w at))"
  "follows (running env (StartSignIn g) (\<lambda>w. start_sign_in w g))"
  "follows (running env (TakeSignIn h) (\<lambda>w. take_pending_sign_in w h))"
  "follows (running env (SweepSignIns at) (\<lambda>w. delete_expired_sign_ins w at))"
  by (rule follows_running, simp)+

lemma follows_kept [intro!]:
  "follows (kept_in env (UpsertPerson p) (\<lambda>w. upsert_principal w p))"
  "follows (kept_in env (CreateSession s) (\<lambda>w. create_session w s))"
  "follows (kept_in env (RenewSession h t) (\<lambda>w. update_session_tokens w h t))"
  "follows (kept_in env (StartSignIn g) (\<lambda>w. start_sign_in w g))"
  unfolding kept_in_def by auto

lemma follows_begin: "follows (begin_sign_in env sv r)"
  unfolding begin_sign_in_def mint_sign_in_secrets_def Let_def by (auto split: prod.split)

lemma follows_complete: "follows (complete_sign_in env sv cb)"
  unfolding complete_sign_in_def take_sign_in_def exchange_code_def grant_session_def Let_def
  by (auto split: prod.split)

lemma follows_end_anyway [intro!]: "follows (end_anyway env h)"
  unfolding end_anyway_def by auto

lemma follows_renew [intro!]: "follows (renew_session env s)"
  unfolding renew_session_def by (auto split: sum.split provider_fault.split)

lemma follows_authenticate: "follows (authenticate_session env c)"
  unfolding authenticate_session_def read_session_def Let_def by auto

lemma follows_sign_out: "follows (sign_out env t)"
  unfolding sign_out_def by (auto split: sum.split)

lemma follows_purge: "follows (purge_expired env)"
  unfolding purge_expired_def by (auto split: sum.split)

section \<open>What a run that succeeded did\<close>

named_theorems ran \<open>what a body that returned a value did, step by step\<close>

lemma ran_then [ran]:
  "vthen m f s l = (Inr y, s', l') \<longleftrightarrow> (\<exists>x s1 l1. m s l = (Inr x, s1, l1) \<and> f x s1 l1 = (Inr y, s', l'))"
  by (auto simp: vthen_def split: prod.splits sum.splits)

lemma ran_basic [ran]:
  "vret x s l = (Inr y, s', l') \<longleftrightarrow> y = x \<and> s' = s \<and> l' = l"
  "vfail e s l = (Inr y, s', l') \<longleftrightarrow> False"
  "vdo (asking f) s l = (Inr y, s', l') \<longleftrightarrow> y = f l \<and> s' = s \<and> l' = l"
  by (auto simp: vret_def vfail_def vdo_def asking_def)

lemma ran_look [ran]: "vlook m s l = (Inr r, s', l') \<longleftrightarrow> m s l = (r, s', l')"
  by (auto simp: vlook_def split: prod.splits)

lemma ran_map_error [ran]: "vmap_error g m s l = (Inr y, s', l') \<longleftrightarrow> m s l = (Inr y, s', l')"
  by (auto simp: vmap_error_def split: prod.splits sum.splits)

lemma ran_perform [ran]:
  "vdo (perform ans ev) s l = (r, s', l') \<longleftrightarrow> r = ans l \<and> s' = s \<and> l' = l @ [ev (ans l)]"
  "vdo (on_error g (perform ans ev)) s l = (Inr y, s', l') \<longleftrightarrow> ans l = Inr y \<and> s' = s \<and> l' = l @ [ev (ans l)]"
  by (auto simp: vdo_def on_error_def perform_def split: sum.splits)

lemma ran_running:
  "running env st stmt s l = (r, s', l') \<longleftrightarrow>
   stmt (ie_fault env l) (run_stmts (ie_others env l) s) = (r, s') \<and>
   l' = l @ [IdDid (ie_others env l @ [(ie_fault env l, st)])]"
  by (auto simp: running_def Let_def split: prod.splits)

lemma id_running_Inr: "id_running w what stmt db = (Inr x, db') \<Longrightarrow> w = Applied \<and> stmt db = (Inr x, db')"
  by (cases w) (auto simp: id_running_def)

lemma statement_applied:
  "take_pending_sign_in w h db = (Inr p, db') \<Longrightarrow> w = Applied \<and> gn_hash p = h"
  "find_session w h db = (Inr s, db') \<Longrightarrow> w = Applied"
  "upsert_principal w q db = (Inr u, db') \<Longrightarrow> w = Applied \<and> valid_principal q"
  "create_session w s db = (Inr u, db') \<Longrightarrow> w = Applied"
  "update_session_tokens w h t db = (Inr u, db') \<Longrightarrow> w = Applied"
  by (auto simp: id_operations split: if_splits write_fault.splits option.splits dest: find_in)

lemma ran_take:
  "take_sign_in env h s l = (Inr p, s', l') \<longleftrightarrow>
   (\<exists>others. others = ie_others env l \<and> ie_fault env l = Applied \<and> gn_hash p = h \<and>
      take_pending_sign_in Applied h (run_stmts others s) = (Inr p, s') \<and>
      l' = l @ [IdDid (others @ [(Applied, TakeSignIn h)])])"
  unfolding take_sign_in_def ran ran_running
  using statement_applied(1) [of "ie_fault env l" h "run_stmts (ie_others env l) s" p s'] by auto

lemma ran_kept:
  assumes "\<And>w db db'. stmt w db = (Inr x, db') \<Longrightarrow> w = Applied"
  shows "kept_in env st stmt s l = (Inr x, s', l') \<longleftrightarrow>
    ie_fault env l = Applied \<and> stmt Applied (run_stmts (ie_others env l) s) = (Inr x, s') \<and>
    l' = l @ [IdDid (ie_others env l @ [(Applied, st)])]"
  unfolding kept_in_def ran ran_running using assms by (metis (no_types, lifting))

lemma ran_mint: "mint env what s l = (Inr t, s', l') \<longleftrightarrow> ie_mint env l = Inr t \<and> s' = s \<and> l' = l @ [IdMint (Inr t)]"
  unfolding mint_def ran by auto

lemma ran_exchange:
  "exchange_code env sv p code s l = (Inr y, s', l') \<longleftrightarrow>
   (\<exists>x. x = \<lparr>ex_code = code, ex_nonce = gn_nonce p, ex_verifier = gn_verifier p, ex_redirect = ik_redirect sv\<rparr> \<and>
     ie_exchange env x l = Inr y \<and> s' = s \<and> l' = l @ [IdExchange x (Inr y)])"
  unfolding exchange_code_def Let_def ran by auto

lemma ran_grant:
  assumes "grant_session env sv p who tokens s l = (Inr g, s', l')"
  shows "\<exists>o2 o3 t. gr_principal g = who \<and> is_principal t = who \<and> is_tokens t = tokens \<and>
     is_hash t = ie_hash env (gr_token g) \<and> is_expires t = gr_expires g \<and> gr_expires g = is_issued t + ik_session_life sv \<and>
     gr_return g = return_or_default (new_return_target (ie_parse env) (ik_origins sv) (gn_return p)) \<and>
     l' = l @ [IdDid (o2 @ [(Applied, UpsertPerson who)]), IdMint (Inr (gr_token g)), IdDid (o3 @ [(Applied, CreateSession t)])]"
proof -
  from assms obtain token s1 l1 where
    up: "kept_in env (UpsertPerson who) (\<lambda>w. upsert_principal w who) s l = (Inr (), s1, l1)"
    and tok: "ie_mint env l1 = Inr token"
    and rest: "(let session = \<lparr>is_hash = ie_hash env token, is_principal = who, is_issued = ie_now env (l1 @ [IdMint (Inr token)]),
           is_expires = ie_now env (l1 @ [IdMint (Inr token)]) + ik_session_life sv, is_tokens = tokens\<rparr>
       in vthen (kept_in env (CreateSession session) (\<lambda>w. create_session w session)) (\<lambda>_.
       vret \<lparr>gr_token = token, gr_principal = who, gr_expires = is_expires session,
         gr_return = return_or_default (new_return_target (ie_parse env) (ik_origins sv) (gn_return p))\<rparr>))
       s1 (l1 @ [IdMint (Inr token)]) = (Inr g, s', l')"
    unfolding grant_session_def ran ran_mint by auto
  let ?now = "ie_now env (l1 @ [IdMint (Inr token)])"
  let ?t = "\<lparr>is_hash = ie_hash env token, is_principal = who, is_issued = ?now,
           is_expires = ?now + ik_session_life sv, is_tokens = tokens\<rparr>"
  have l1: "l1 = l @ [IdDid (ie_others env l @ [(Applied, UpsertPerson who)])]"
    using up by (simp add: ran_kept [OF statement_applied(3) [THEN conjunct1]])
  from rest have l': "l' = l1 @ [IdMint (Inr token)] @
        [IdDid (ie_others env (l1 @ [IdMint (Inr token)]) @ [(Applied, CreateSession ?t)])]"
    and g: "g = \<lparr>gr_token = token, gr_principal = who, gr_expires = ?now + ik_session_life sv,
         gr_return = return_or_default (new_return_target (ie_parse env) (ik_origins sv) (gn_return p))\<rparr>"
    unfolding Let_def ran by (auto simp: ran_kept [OF statement_applied(4)])
  show ?thesis
    by (rule exI [of _ "ie_others env l"], rule exI [of _ "ie_others env (l1 @ [IdMint (Inr token)])"],
        rule exI [of _ ?t]) (simp add: g l' l1)
qed

section \<open>A sign-in is bound, and used once\<close>

fun asks_provider :: "id_ev \<Rightarrow> bool" where
  "asks_provider (IdExchange _ _) = True"
| "asks_provider _ = False"

text \<open>
  \<open>bound_to env cb db l p\<close>: the callback \<open>cb\<close>, arriving at log \<open>l\<close>, takes the sign-in \<open>p\<close> its request
  token names, in time, with the state that sign-in was started with, and brings a code.
\<close>

definition take_event :: "id_env \<Rightarrow> callback \<Rightarrow> id_ev list \<Rightarrow> id_ev" where
  "take_event env cb l = IdDid (ie_others env l @ [(Applied, TakeSignIn (ie_hash env (kb_token cb)))])"

definition bound_to :: "id_env \<Rightarrow> callback \<Rightarrow> id_db \<Rightarrow> id_ev list \<Rightarrow> sign_in \<Rightarrow> bool" where
  "bound_to env cb db l p =
     (fst (take_pending_sign_in Applied (ie_hash env (kb_token cb)) (run_stmts (ie_others env l) db)) = Inr p \<and>
      gn_hash p = ie_hash env (kb_token cb) \<and> kb_token cb \<noteq> [] \<and> kb_state cb \<noteq> [] \<and> gn_state p = kb_state cb \<and>
      \<not> sign_in_expired (ie_now env (l @ [take_event env cb l])) p \<and> kb_error cb = [] \<and> kb_code cb \<noteq> [])"

definition exchange_of :: "id_service \<Rightarrow> callback \<Rightarrow> sign_in \<Rightarrow> exchange_request" where
  "exchange_of sv cb p =
     \<lparr>ex_code = kb_code cb, ex_nonce = gn_nonce p, ex_verifier = gn_verifier p, ex_redirect = ik_redirect sv\<rparr>"

lemma grant_session_asks_nothing:
  "vwp (grant_session env sv p who tokens) (\<lambda>r s' l'. \<exists>d. l' = l @ d \<and> filter asks_provider d = []) s l"
  by (simp add: grant_session_def kept_in_def wp_rules Let_def split: sum.split)

lemma exchange_then_quiet:
  "vwp (vthen (exchange_code env sv p code) (\<lambda>(who, tokens).
       if \<not> valid_principal who then vfail (SignInFailed m) else grant_session env sv p who tokens))
     (\<lambda>r s' l'. \<exists>a d. l' = l @ IdExchange \<lparr>ex_code = code, ex_nonce = gn_nonce p, ex_verifier = gn_verifier p,
        ex_redirect = ik_redirect sv\<rparr> a # d \<and> filter asks_provider d = []) s l"
proof -
  let ?x = "\<lparr>ex_code = code, ex_nonce = gn_nonce p, ex_verifier = gn_verifier p, ex_redirect = ik_redirect sv\<rparr>"
  have "vwp (grant_session env sv p who tokens)
      (\<lambda>r s' l'. \<exists>a d. l' = l @ IdExchange ?x a # d \<and> filter asks_provider d = []) s (l @ [IdExchange ?x b])" for who tokens b
    by (rule vwp_mono [OF grant_session_asks_nothing]) auto
  then show ?thesis
    by (simp add: exchange_code_def wp_rules Let_def split: sum.split prod.split)
qed

lemma bound_step:
  assumes "take_sign_in env (ie_hash env (kb_token cb)) db l = (Inr p, db1, l1)"
  shows "l1 = l @ [take_event env cb l]"
    and "fst (take_pending_sign_in Applied (ie_hash env (kb_token cb)) (run_stmts (ie_others env l) db)) = Inr p"
    and "gn_hash p = ie_hash env (kb_token cb)"
  using assms by (auto simp: ran_take take_event_def)

text \<open>What completing a callback does: it fails with nothing asked of the provider, or it is bound.\<close>

lemma complete_cases:
  "vwp (complete_sign_in env sv cb)
     (\<lambda>r db' l'. (\<exists>e d. r = Inl e \<and> l' = l @ d \<and> filter asks_provider d = []) \<or>
        (\<exists>p a d. bound_to env cb db l p \<and> l' = l @ take_event env cb l # IdExchange (exchange_of sv cb p) a # d \<and>
           filter asks_provider d = [])) db l"
proof (cases "kb_token cb = [] \<or> kb_state cb = []")
  case True
  then show ?thesis by (simp add: complete_sign_in_def wp_rules)
next
  case False
  obtain r1 db1 l1 where t: "take_sign_in env (ie_hash env (kb_token cb)) db l = (r1, db1, l1)"
    by (metis prod_cases3)
  have t': "vwp (take_sign_in env (ie_hash env (kb_token cb))) Q db l \<longleftrightarrow> Q r1 db1 l1" for Q
    by (simp add: vwp_def t)
  show ?thesis
  proof (cases r1)
    case (Inl e)
    have "l1 = l @ [IdDid (ie_others env l @ [(ie_fault env l, TakeSignIn (ie_hash env (kb_token cb)))])]"
      using t by (auto simp: take_sign_in_def vmap_error_def running_def Let_def split: prod.splits sum.splits)
    with False Inl show ?thesis by (simp add: complete_sign_in_def vwp_then t')
  next
    case (Inr p)
    note b = bound_step [OF t [unfolded Inr]]
    let ?m = "vthen (exchange_code env sv p (kb_code cb)) (\<lambda>(who, tokens).
        if \<not> valid_principal who then vfail (SignInFailed ''the provider disclosed no stable subject'')
        else grant_session env sv p who tokens)"
    let ?Q = "\<lambda>r db' l'. (\<exists>e d. r = Inl e \<and> l' = l @ d \<and> filter asks_provider d = []) \<or>
        (\<exists>p a d. bound_to env cb db l p \<and> l' = l @ take_event env cb l # IdExchange (exchange_of sv cb p) a # d \<and>
           filter asks_provider d = [])"
    have quiet: "?Q (Inl e) db1 l1" for e :: id_error by (simp add: b take_event_def)
    have go: "vwp ?m ?Q db1 l1" if "bound_to env cb db l p"
      by (rule vwp_mono [OF exchange_then_quiet]) (use that in \<open>auto simp: b exchange_of_def\<close>)
    show ?thesis
      using False b(2,3) quiet go
      by (simp add: complete_sign_in_def vwp_then t' Inr wp_rules bound_to_def b(1))
  qed
qed

text \<open>C11: The provider is asked to exchange a code at most once per callback, and only after the callback has
  consumed the pending sign-in its own token names, unexpired and with the state that sign-in was started
  with; it is asked with that sign-in's nonce and verifier.  A replayed, late, unbound or refused
  callback costs no exchange.\<close>

theorem provider_is_asked_for_a_bound_callback:
  assumes "complete_sign_in env sv cb db l = (r, db', l @ d)" and "IdExchange x a \<in> set d"
  shows "\<exists>p. bound_to env cb db l p \<and> x = exchange_of sv cb p \<and> hd d = take_event env cb l \<and>
    length (filter asks_provider d) = 1"
proof -
  have "(\<exists>e d'. r = Inl e \<and> l @ d = l @ d' \<and> filter asks_provider d' = []) \<or>
        (\<exists>p a d'. bound_to env cb db l p \<and> l @ d = l @ take_event env cb l # IdExchange (exchange_of sv cb p) a # d' \<and>
           filter asks_provider d' = [])"
    using complete_cases [of env sv cb l db] assms(1) by (simp add: vwp_def)
  moreover have False if "filter asks_provider d = []"
    using that assms(2) by (auto simp: filter_empty_conv)
  ultimately obtain p a' d' where p: "bound_to env cb db l p"
    and d: "d = take_event env cb l # IdExchange (exchange_of sv cb p) a' # d'" "filter asks_provider d' = []"
    by auto
  have "x = exchange_of sv cb p"
    using assms(2) d by (auto simp: take_event_def filter_empty_conv)
  with p d show ?thesis by (auto simp: take_event_def)
qed

lemma granted_exchange:
  assumes "complete_sign_in env sv cb db l = (Inr g, db', l')"
  shows "\<exists>p tokens o2 o3 s. bound_to env cb db l p \<and> valid_principal (gr_principal g) \<and>
    l' = l @ [take_event env cb l, IdExchange (exchange_of sv cb p) (Inr (gr_principal g, tokens)),
      IdDid (o2 @ [(Applied, UpsertPerson (gr_principal g))]), IdMint (Inr (gr_token g)),
      IdDid (o3 @ [(Applied, CreateSession s)])] \<and>
    is_hash s = ie_hash env (gr_token g) \<and> is_principal s = gr_principal g \<and> is_tokens s = tokens \<and>
    is_expires s = gr_expires g \<and> gr_expires g = is_issued s + ik_session_life sv"
proof -
  have some: "kb_token cb \<noteq> []" "kb_state cb \<noteq> []"
    using assms by (auto simp: complete_sign_in_def vfail_def split: if_splits)
  with assms obtain p db1 l1 where t: "take_sign_in env (ie_hash env (kb_token cb)) db l = (Inr p, db1, l1)"
    and rest: "\<not> sign_in_expired (ie_now env l1) p" "gn_state p = kb_state cb" "kb_error cb = []" "kb_code cb \<noteq> []"
    and ex: "vthen (exchange_code env sv p (kb_code cb)) (\<lambda>(who, tokens).
        if \<not> valid_principal who then vfail (SignInFailed ''the provider disclosed no stable subject'')
        else grant_session env sv p who tokens) db1 l1 = (Inr g, db', l')"
    unfolding complete_sign_in_def by (auto simp: ran split: if_splits)
  note b = bound_step [OF t]
  have bound: "bound_to env cb db l p" using b some rest by (simp add: bound_to_def)
  from ex obtain who tokens where w: "valid_principal who"
    and g: "grant_session env sv p who tokens db1 (l1 @ [IdExchange (exchange_of sv cb p) (Inr (who, tokens))]) = (Inr g, db', l')"
    by (auto simp: ran ran_exchange exchange_of_def split: if_splits)
  from ran_grant [OF g] obtain o2 o3 s where s: "gr_principal g = who" "is_principal s = who" "is_tokens s = tokens"
      "is_hash s = ie_hash env (gr_token g)" "is_expires s = gr_expires g" "gr_expires g = is_issued s + ik_session_life sv"
    and l': "l' = (l1 @ [IdExchange (exchange_of sv cb p) (Inr (who, tokens))]) @ [IdDid (o2 @ [(Applied, UpsertPerson who)]),
      IdMint (Inr (gr_token g)), IdDid (o3 @ [(Applied, CreateSession s)])]" by blast
  show ?thesis
    by (rule exI [of _ p], rule exI [of _ tokens], rule exI [of _ o2], rule exI [of _ o3], rule exI [of _ s])
      (simp add: bound w s l' b)
qed

text \<open>A session is granted only to a bound callback whose code the provider exchanged for a valid principal:
  the grant's principal is the one of that exchange, it is recorded, the session stored is under the hash of
  the token handed out, belongs to that principal with the exchanged tokens, and ends one session lifetime
  after it was issued.\<close>

theorem grant_is_of_the_exchange:
  assumes "complete_sign_in env sv cb db l = (Inr g, db', l')"
  shows "\<exists>p tokens o2 o3 s. bound_to env cb db l p \<and> valid_principal (gr_principal g) \<and>
    l' = l @ [take_event env cb l, IdExchange (exchange_of sv cb p) (Inr (gr_principal g, tokens)),
      IdDid (o2 @ [(Applied, UpsertPerson (gr_principal g))]), IdMint (Inr (gr_token g)),
      IdDid (o3 @ [(Applied, CreateSession s)])] \<and>
    is_hash s = ie_hash env (gr_token g) \<and> is_principal s = gr_principal g \<and> is_tokens s = tokens \<and>
    is_expires s = gr_expires g \<and> gr_expires g = is_issued s + ik_session_life sv"
  by (rule granted_exchange [OF assms])

text \<open>C10: A pending sign-in is used once.  If a callback was granted a session, then among all the takes of its
  sign-in, by this request, by the others that ran during it and by any that come later, exactly one
  succeeded, as long as nobody starts another sign-in under the same hash.  Two callbacks racing on one
  browser token are therefore never both completed.\<close>

theorem sign_in_is_used_once:
  assumes "complete_sign_in env sv cb db l = (Inr g, db', l @ d)"
    and "list_all (\<lambda>op. \<not> starts_sign_in (ie_hash env (kb_token cb)) op) (history d @ later)"
  shows "count_along (takes_sign_in (ie_hash env (kb_token cb))) run_stmt (history d @ later) db = 1 \<and>
    \<not> holds_sign_in (ie_hash env (kb_token cb)) (run_stmts (history d @ later) db)"
proof -
  let ?h = "ie_hash env (kb_token cb)"
  from granted_exchange [OF assms(1)] obtain p d' where b: "bound_to env cb db l p"
    and d: "d = take_event env cb l # d'" by auto
  let ?o = "ie_others env l" and ?t = "(Applied, TakeSignIn ?h)"
  let ?rest = "history d' @ later"
  have split: "history d @ later = ?o @ ?t # ?rest" by (simp add: d take_event_def)
  have took: "takes_sign_in ?h ?t (fold run_stmt ?o db)"
    using b by (simp add: bound_to_def run_stmts_def)
  then have one: "count_along (takes_sign_in ?h) run_stmt (history d @ later) db \<ge> 1"
    by (simp add: split)
  have "filter (starts_sign_in ?h) (history d @ later) = []"
    using assms(2) by (simp add: filter_empty_conv list_all_iff)
  with sign_ins.takes_are_paid [of ?h "history d @ later" db]
  have paid: "count_along (takes_sign_in ?h) run_stmt (history d @ later) db +
      (if holds_sign_in ?h (fold run_stmt (history d @ later) db) then 1 else 0) \<le> 1"
    by (auto split: if_splits)
  with one show ?thesis by (auto simp: run_stmts_def split: if_splits)
qed

section \<open>Where a browser is sent\<close>

text \<open>
  What the code promises of a target: a path of this application, in the code's own sense, or an
  absolute URL without credentials whose origin, as the URL parser reads it, was configured.
\<close>

definition application_path :: "string \<Rightarrow> bool" where
  "application_path t =
     (has_prefix t ''/'' \<and> \<not> has_prefix t ''//'' \<and> \<not> has_prefix t [CHR ''/'', CHR 0x5C] \<and>
      list_all (\<lambda>c. c \<notin> set [CHR 0x0D, CHR 0x0A, CHR 0x00]) t)"

definition configured_url :: "url_parser \<Rightarrow> string list \<Rightarrow> string \<Rightarrow> bool" where
  "configured_url parse allowed t =
     (case parse t of
        None \<Rightarrow> False
      | Some u \<Rightarrow> \<not> pu_user u \<and> pu_opaque u = [] \<and> pu_host u \<noteq> [] \<and>
          (case parse_browser_origin parse (pu_scheme u @ ''://'' @ pu_host u) of
             None \<Rightarrow> False | Some origin \<Rightarrow> origin \<in> set allowed))"

lemma safe_path_kept: "safe_return_path t = t \<Longrightarrow> application_path t"
  by (auto simp: safe_return_path_def application_path_def default_return_path_def Let_def list_ex_iff
      list_all_iff has_prefix_def split: if_splits)

lemma safe_path_is_safe: "application_path (safe_return_path t)"
  by (auto simp: safe_return_path_def application_path_def default_return_path_def Let_def list_ex_iff
      list_all_iff has_prefix_def)

lemma target_allowed:
  "new_return_target parse allowed c = Some t \<Longrightarrow> application_path t \<or> configured_url parse allowed t"
  by (auto simp: new_return_target_def configured_url_def Let_def dest: safe_path_kept
      split: if_splits option.splits)

lemma return_allowed:
  "application_path (return_or_default (new_return_target parse allowed c)) \<or>
   configured_url parse allowed (return_or_default (new_return_target parse allowed c))"
  using target_allowed [of parse allowed c]
  by (auto simp: return_or_default_def default_return_path_def application_path_def has_prefix_def split: option.split)

text \<open>A sign-in sends the browser to a path of this application or to a URL on an origin the operator
  configured, and nowhere else, whatever the request asked for and whatever the table held.\<close>

theorem grant_goes_where_allowed:
  assumes "complete_sign_in env sv cb db l = (Inr g, db', l')"
  shows "application_path (gr_return g) \<or> configured_url (ie_parse env) (ik_origins sv) (gr_return g)"
proof -
  from assms obtain p who tokens s1 l1 where "grant_session env sv p who tokens s1 l1 = (Inr g, db', l')"
    unfolding complete_sign_in_def by (auto simp: ran split: if_splits)
  from ran_grant [OF this] have "gr_return g = return_or_default (new_return_target (ie_parse env) (ik_origins sv) (gn_return p))"
    by blast
  then show ?thesis using return_allowed by simp
qed

text \<open>
  A browser drops tabs when it reads a URL, so a slash, a tab and a second slash are a
  scheme-relative URL to it; the code takes them for a path.
\<close>

definition without_tabs :: "string \<Rightarrow> string" where
  "without_tabs t = filter (\<lambda>c. c \<noteq> CHR 0x09) t"

theorem tab_hides_a_host:
  "let t = CHR ''/'' # CHR 0x09 # ''/evil.example'' in
   new_return_target (\<lambda>_. None) [] t = Some t \<and> has_prefix (without_tabs t) ''//''"
  by code_simp

section \<open>Being recognised\<close>

lemma ran_read_session:
  "read_session env h s l = (Inr x, s', l') \<longleftrightarrow>
   ie_fault env l = Applied \<and> find_session Applied h (run_stmts (ie_others env l) s) = (Inr x, s') \<and>
   l' = l @ [IdDid (ie_others env l @ [(Applied, FindSession h)])]"
  unfolding read_session_def ran ran_running
  using statement_applied(2) [of "ie_fault env l" h "run_stmts (ie_others env l) s" x s'] by auto

text \<open>A renewal that succeeded asked the provider, was given tokens, and wrote them to a session still there.\<close>

lemma ran_renew:
  assumes "renew_session env x s l = (Inr u, s', l')"
  shows "\<exists>tokens. ie_refresh env (it_refresh (is_tokens x)) l = Inr tokens \<and> it_refresh (is_tokens x) \<noteq> [] \<and>
    (\<exists>o2. l' = l @ [IdRefresh (it_refresh (is_tokens x)) (Inr tokens), IdDid (o2 @ [(Applied, RenewSession (is_hash x) tokens)])])"
proof -
  from assms have r: "it_refresh (is_tokens x) \<noteq> []"
    unfolding renew_session_def by (auto simp: ran split: if_splits)
  show ?thesis
  proof (cases "ie_refresh env (it_refresh (is_tokens x)) l")
    case (Inl f)
    with assms r show ?thesis unfolding renew_session_def by (cases f) (auto simp: ran)
  next
    case (Inr tokens)
    with assms r show ?thesis
      unfolding renew_session_def
      by (auto simp: ran ran_kept [OF statement_applied(5)])
  qed
qed

definition read_session_event :: "id_env \<Rightarrow> credential \<Rightarrow> id_ev list \<Rightarrow> id_ev" where
  "read_session_event env c l = IdDid (ie_others env l @ [(Applied, FindSession (ie_hash env (kr_session c)))])"

text \<open>C12: A session cookie is accepted only for a session that the store held under the cookie's hash when it was
  read and that has not reached its own expiry; if its provider tokens had expired, only after the provider
  renewed them and the renewal was written to the session.  The answer is that session's principal.\<close>

theorem cookie_is_accepted_for_a_live_session:
  assumes "authenticate_session env c db l = (Inr p, db', l')"
  shows "\<exists>s d. l' = l @ read_session_event env c l # d \<and>
    find_session Applied (ie_hash env (kr_session c)) (run_stmts (ie_others env l) db) =
      (Inr s, run_stmts (ie_others env l) db) \<and>
    p = is_principal s \<and> \<not> session_expired (ie_now env (l @ [read_session_event env c l])) s \<and>
    (if tokens_expired (ie_now env (l @ [read_session_event env c l])) (is_tokens s)
     then \<exists>tokens o2. d = [IdRefresh (it_refresh (is_tokens s)) (Inr tokens),
         IdDid (o2 @ [(Applied, RenewSession (is_hash s) tokens)])]
     else d = [])"
proof -
  let ?h = "ie_hash env (kr_session c)"
  let ?l1 = "l @ [read_session_event env c l]"
  let ?db1 = "run_stmts (ie_others env l) db"
  from assms obtain s where f: "find_session Applied ?h ?db1 = (Inr s, ?db1)"
    and live: "\<not> session_expired (ie_now env ?l1) s"
    and rest: "(if tokens_expired (ie_now env ?l1) (is_tokens s) then vthen (renew_session env s) (\<lambda>_. vret (is_principal s))
        else vret (is_principal s)) ?db1 ?l1 = (Inr p, db', l')"
    unfolding authenticate_session_def Let_def read_session_event_def
    by (auto simp: ran ran_read_session split: if_splits) (metis finds_leave(1) snd_conv)+
  show ?thesis
  proof (cases "tokens_expired (ie_now env ?l1) (is_tokens s)")
    case True
    with rest obtain u s2 where r: "renew_session env s ?db1 ?l1 = (Inr u, s2, l')" and p: "p = is_principal s"
      by (auto simp: ran)
    from ran_renew [OF r] obtain tokens o2 where
      "l' = ?l1 @ [IdRefresh (it_refresh (is_tokens s)) (Inr tokens), IdDid (o2 @ [(Applied, RenewSession (is_hash s) tokens)])]"
      by blast
    with f live p True show ?thesis
      by (intro exI [of _ s] exI [of _ "[IdRefresh (it_refresh (is_tokens s)) (Inr tokens),
          IdDid (o2 @ [(Applied, RenewSession (is_hash s) tokens)])]"]) auto
  next
    case False
    with rest f live show ?thesis by (intro exI [of _ s] exI [of _ "[]"]) (auto simp: ran)
  qed
qed

lemma not_held_not_found:
  assumes "\<not> holds_session h db"
  shows "fst (find_session w h db) = Inl NoIdSession \<or> (\<exists>what f. fst (find_session w h db) = Inl (IdDown what f))"
proof -
  have "find (\<lambda>r. sr_hash r = h) (id_sessions db) = None"
    using assms by (auto simp: holds_session_def list_ex_iff find_None_iff)
  then show ?thesis by (cases w) (auto simp: find_session_def id_running_def)
qed

lemma signed_out_is_gone:
  assumes "sign_out env t db l = (Inr u, db1, l1)" and "t \<noteq> []"
  shows "\<not> holds_session (ie_hash env t) db1"
proof -
  let ?h = "ie_hash env t"
  obtain r db2 where e: "end_session (ie_fault env l) ?h (run_stmts (ie_others env l) db) = (r, db2)" by fastforce
  with assms have "db2 = db1 \<and> (r = Inl NoIdSession \<or> \<not> isl r)"
    by (cases r) (auto simp: sign_out_def vthen_def vlook_def running_def Let_def vret_def vfail_def split: if_splits)
  with e show ?thesis
    by (cases "ie_fault env l") (auto simp: end_session_def id_running_def holds_session_def list_ex_iff)
qed

text \<open>C13: Signing out takes effect at once and for good: once it has answered, the session's cookie is refused in
  every later request, whatever other requests did in meantime and do meanwhile, unless a new session is
  created under the same hash.  The only other answer is that the store cannot be read.\<close>

theorem signed_out_cookie_is_refused:
  assumes "sign_out env (kr_session c) db l = (Inr u, db1, l1)" and "kr_session c \<noteq> []"
    and "ie_hash env' = ie_hash env"
    and "authenticate_session env' c (run_stmts meantime db1) l2 = (r, db3, l2 @ d)"
    and "list_all (\<lambda>op. \<not> creates_session (ie_hash env (kr_session c)) op) (meantime @ history d)"
  shows "r = Inl Unauthenticated \<or> (\<exists>what f. r = Inl (IdStoreError (IdDown what f)))"
proof -
  let ?h = "ie_hash env (kr_session c)" and ?o = "ie_others env' l2" and ?w = "ie_fault env' l2"
  have start: "\<exists>d'. l2 @ d = l2 @ IdDid (?o @ [(?w, FindSession ?h)]) # d'"
  proof -
    have "vwp (authenticate_session env' c)
        (\<lambda>r s' l'. \<exists>d'. l' = l2 @ IdDid (?o @ [(?w, FindSession ?h)]) # d') (run_stmts meantime db1) l2"
      using assms(2)
      by (simp add: authenticate_session_def Let_def read_session_def end_anyway_def renew_session_def kept_in_def wp_rules
          assms(3) split: sum.split provider_fault.split)
    then show ?thesis using assms(4) by (simp add: vwp_def)
  qed
  then have quiet: "list_all (\<lambda>op. \<not> creates_session ?h op) (meantime @ ?o)"
    using assms(5) by auto
  have "\<not> holds_session ?h (fold run_stmt (meantime @ ?o) db1)"
    by (rule sessions.stays_gone [OF signed_out_is_gone [OF assms(1,2)] quiet])
  then have "\<not> holds_session ?h (run_stmts ?o (run_stmts meantime db1))" by (simp add: run_stmts_def)
  from not_held_not_found [OF this, of ?w]
  show ?thesis
    using assms(2,3,4)
    by (auto simp: authenticate_session_def Let_def vthen_def read_session_def vmap_error_def running_def
        split: prod.splits)
qed

section \<open>Several credentials\<close>

text \<open>A chain answers what one of its authenticators answers: everyone before it said that the credential is
  not accepted, and unless the answer is that nobody accepts it, it is that authenticator's own, a
  principal or a failure such as a store that is down.  Nobody after it is asked.\<close>

theorem chain_answer_is_of_one:
  assumes "authenticate_chain as c db l = (r, db', l')" and "r \<noteq> Inl Unauthenticated"
  shows "\<exists>before a after db1 l1. as = before @ a # after \<and>
    authenticate_chain before c db l = (Inl Unauthenticated, db1, l1) \<and> a c db1 l1 = (r, db', l')"
  using assms
proof (induction as arbitrary: db l)
  case Nil
  then show ?case by (simp add: vfail_def)
next
  case (Cons a as)
  obtain ra db1 l1 where a: "a c db l = (ra, db1, l1)" by (metis prod_cases3)
  show ?case
  proof (cases "ra = Inl Unauthenticated")
    case True
    then have "authenticate_chain as c db1 l1 = (r, db', l')"
      using Cons.prems(1) a by (simp add: vthen_def vlook_def)
    from Cons.IH [OF this Cons.prems(2)] obtain before a' after db2 l2 where
      "as = before @ a' # after" "authenticate_chain before c db1 l1 = (Inl Unauthenticated, db2, l2)" "a' c db2 l2 = (r, db', l')"
      by blast
    then show ?thesis
      using a True by (intro exI [of _ "a # before"] exI [of _ a'] exI [of _ after]) (simp add: vthen_def vlook_def)
  next
    case False
    then have "a c db l = (r, db', l')"
      using Cons.prems(1) a by (cases ra) (auto simp: vthen_def vlook_def vret_def vfail_def)
    then show ?thesis by (intro exI [of _ "[]"] exI [of _ a] exI [of _ as]) (simp add: vfail_def)
  qed
qed

text \<open>The static token accepts exactly the header \<open>Bearer\<close> followed by the configured token, as the
  automation principal, and reads no table; an empty token is refused when it is configured.  The
  digest is only asked not to collide on the header at hand.\<close>

theorem static_token_is_exact:
  assumes "new_static_token (ie_hash env) token = Inr t"
    and "ie_hash env (kr_authorization c) = ie_hash env (bearer_prefix @ token) \<Longrightarrow>
      kr_authorization c = bearer_prefix @ token"
  shows "\<not> blank token \<and>
    authenticate_token env t c db l =
      (if kr_authorization c = bearer_prefix @ token then Inr (tk_principal t) else Inl Unauthenticated, db, l) \<and>
    principal_id (tk_principal t) = ''urn:temporal-agents:static-token|automation''"
  using assms
  by (auto simp: new_static_token_def authenticate_token_def vret_def vfail_def principal_id_def local_issuer_def
      static_token_subject_def split: if_splits)

section \<open>Starting\<close>

text \<open>A started sign-in is recorded before its browser leaves: the row has the hash of the token handed out,
  the very state, nonce and verifier the provider's URL was asked for, ends one sign-in lifetime after it
  began, and returns somewhere allowed.\<close>

theorem started_sign_in_is_recorded:
  assumes "begin_sign_in env sv return_to db l = (Inr started, db', l')"
  shows "\<exists>p o1 l0. p \<in> set (id_pending db') \<and> gn_hash p = ie_hash env (su_token started) \<and>
    l' = l0 @ [IdAuthUrl \<lparr>ar_state = gn_state p, ar_nonce = gn_nonce p, ar_verifier = gn_verifier p, ar_redirect = ik_redirect sv\<rparr>
          (Inr (su_url started)), IdDid (o1 @ [(Applied, StartSignIn p)])] \<and>
    gn_expires p = gn_started p + ik_sign_in_life sv \<and> su_expires started = gn_expires p \<and>
    (application_path (gn_return p) \<or> configured_url (ie_parse env) (ik_origins sv) (gn_return p))"
proof -
  have up: "start_sign_in w p db = (Inr u, db1) \<Longrightarrow> w = Applied" for w p db db1 and u :: unit
    by (cases w) (auto simp: start_sign_in_def id_running_def split: if_splits)
  from assms obtain request state nonce verifier now l0 o1 p where p: "p = \<lparr>gn_hash = ie_hash env request, gn_state = state, gn_nonce = nonce,
        gn_verifier = verifier, gn_return = return_or_default (new_return_target (ie_parse env) (ik_origins sv) return_to),
        gn_started = now, gn_expires = now + ik_sign_in_life sv\<rparr>"
    and st: "start_sign_in Applied p (run_stmts o1 db) = (Inr (), db')"
    and l': "l' = l0 @ [IdAuthUrl \<lparr>ar_state = state, ar_nonce = nonce, ar_verifier = verifier, ar_redirect = ik_redirect sv\<rparr>
        (Inr (su_url started)), IdDid (o1 @ [(Applied, StartSignIn p)])]"
    and s: "su_token started = request" "su_expires started = gn_expires p"
    unfolding begin_sign_in_def mint_sign_in_secrets_def Let_def
    by (auto simp: ran ran_mint ran_kept [OF up])
  from st have "p \<in> set (id_pending db')"
    by (auto simp: start_sign_in_def id_running_def split: if_splits)
  then show ?thesis
    using p l' s return_allowed [of "ie_parse env" "ik_origins sv" return_to]
    by (intro exI [of _ p] exI [of _ o1] exI [of _ l0]) simp
qed

lemma origins_are_origins:
  "parse_origins parse cs = Inr os \<Longrightarrow> list_all2 (\<lambda>c o'. parse_browser_origin parse c = Some o') cs os"
  by (induction cs arbitrary: os) (auto split: option.splits sum.splits)

text \<open>A service is only built complete: every port supplied, a callback address of its own, both lifetimes
  positive, and every allowed origin the canonical form of one configured; one origin that does not parse
  refuses the whole configuration.\<close>

theorem service_is_built_complete:
  assumes "new_service parse d = Inr sv"
  shows "dq_provider d \<and> dq_sessions d \<and> dq_principals d \<and> dq_pending d \<and> ik_redirect sv \<noteq> [] \<and>
    0 < ik_session_life sv \<and> 0 < ik_sign_in_life sv \<and>
    list_all2 (\<lambda>c o'. parse_browser_origin parse c = Some o') (dq_origins d) (ik_origins sv)"
  using assms
  by (auto simp: new_service_def default_session_life_def default_sign_in_life_def
      intro: origins_are_origins split: if_splits sum.splits)

section \<open>Sweeping\<close>

text \<open>The sweep removes exactly what no request would honour any more: afterwards no session and no pending
  sign-in in the tables has reached its expiry, every other one is still there, and the counts are of the
  rows removed.\<close>

theorem sweep_removes_the_expired:
  assumes "purge_expired env db l = (Inr (m, n, None), db', l')" and "ie_others env = (\<lambda>_. [])"
  shows "id_sessions db' = filter (\<lambda>r. ie_now env l < sr_expires r) (id_sessions db) \<and>
    id_pending db' = filter (\<lambda>p. \<not> sign_in_expired (ie_now env l) p) (id_pending db) \<and>
    m = length (id_sessions db) - length (id_sessions db') \<and> n = length (id_pending db) - length (id_pending db')"
proof -
  have cnt: "length (filter P xs) = length xs - length (filter (\<lambda>x. \<not> P x) xs)" for P :: "'x \<Rightarrow> bool" and xs
    using sum_length_filter_compl [of P xs] by simp
  show ?thesis
    using assms cnt [of "\<lambda>r. sr_expires r \<le> ie_now env l" "id_sessions db"]
      cnt [of "\<lambda>p. gn_expires p \<le> ie_now env l" "id_pending db"]
    by (cases "ie_fault env l"; cases "ie_fault env (l @ [IdDid [(Applied, SweepSessions (ie_now env l))]])")
      (auto simp: purge_expired_def vthen_def vlook_def vret_def vdo_def asking_def running_def
        delete_expired_sessions_def delete_expired_sign_ins_def id_running_def sign_in_expired_def not_le)
qed

section \<open>Concrete runs\<close>

definition calm_env :: id_env where
  "calm_env = \<lparr>ie_others = (\<lambda>_. []), ie_fault = (\<lambda>_. Applied), ie_now = (\<lambda>_. 100),
     ie_mint = (\<lambda>l. Inr (replicate (length l + 1) (CHR ''t''))),
     ie_auth_url = (\<lambda>_ _. Inr ''https://id/auth''),
     ie_exchange = (\<lambda>x _. if ex_code x = ''code''
        then Inr (operator, \<lparr>it_access = ''a'', it_refresh = ''r'', it_expires = 100\<rparr>) else Inl (ProviderRefused ''no'')),
     ie_refresh = (\<lambda>_ _. Inr \<lparr>it_access = ''b'', it_refresh = ''r'', it_expires = 900\<rparr>),
     ie_sign_out_url = (\<lambda>_. []), ie_hash = (\<lambda>s. s), ie_parse = (\<lambda>_. None)\<rparr>"

definition calm_service :: id_service where
  "calm_service = \<lparr>ik_redirect = ''https://hub/cb'', ik_origins = [], ik_session_life = 1000, ik_sign_in_life = 50\<rparr>"

definition calm_start :: "(id_error + started_sign_in) \<times> id_db \<times> id_ev list" where
  "calm_start = begin_sign_in calm_env calm_service ''/work'' empty_id_db []"

definition calm_callback :: callback where
  "calm_callback = \<lparr>kb_token = ''t'', kb_state = ''tt'', kb_code = ''code'', kb_error = []\<rparr>"

definition calm_finish :: "(id_error + grant) \<times> id_db \<times> id_ev list" where
  "calm_finish = complete_sign_in calm_env calm_service calm_callback (fst (snd calm_start)) []"

definition calm_cookie :: credential where
  "calm_cookie = \<lparr>kr_authorization = [], kr_session = ''tttt''\<rparr>"

lemma returned: "\<not> isl (fst run) \<Longrightarrow> run = (Inr (projr (fst run)), fst (snd run), [] @ snd (snd run))"
  by (cases run; cases "fst run") auto

lemma calm_runs: "\<not> isl (fst calm_start)" "\<not> isl (fst calm_finish)"
  by code_simp+


lemmas calm_start_run = returned [OF calm_runs(1), unfolded calm_start_def]
lemmas calm_finish_run = returned [OF calm_runs(2), unfolded calm_finish_def]

theorem provider_is_asked_for_a_bound_callback_witness:
  "\<exists>p. bound_to calm_env calm_callback (fst (snd calm_start)) [] p \<and> gn_nonce p = ''ttt'' \<and>
     length (filter asks_provider (snd (snd calm_finish))) = 1"
proof -
  have "IdExchange \<lparr>ex_code = ''code'', ex_nonce = ''ttt'', ex_verifier = ''tttt'', ex_redirect = ''https://hub/cb''\<rparr>
      (Inr (operator, \<lparr>it_access = ''a'', it_refresh = ''r'', it_expires = 100\<rparr>)) \<in> set (snd (snd calm_finish))"
    by code_simp
  from provider_is_asked_for_a_bound_callback [OF calm_finish_run this [unfolded calm_finish_def]]
  show ?thesis by (auto simp: exchange_of_def calm_finish_def)
qed

theorem grant_is_of_the_exchange_witness:
  "valid_principal (gr_principal (projr (fst calm_finish)))"
  using grant_is_of_the_exchange [OF calm_finish_run] unfolding calm_finish_def by blast

theorem sign_in_is_used_once_witness:
  "count_along (takes_sign_in ''t'') run_stmt
     (history (snd (snd calm_finish)) @ [(Applied, TakeSignIn ''t'')]) (fst (snd calm_start)) = 1"
proof -
  have "list_all (\<lambda>op. \<not> starts_sign_in (ie_hash calm_env (kb_token calm_callback)) op)
      (history (snd (snd calm_finish)) @ [(Applied, TakeSignIn ''t'')])"
    by code_simp
  from sign_in_is_used_once [OF calm_finish_run this [unfolded calm_finish_def]]
  show ?thesis by (simp add: calm_env_def calm_callback_def calm_finish_def)
qed

theorem grant_goes_where_allowed_witness:
  "application_path (gr_return (projr (fst calm_finish))) \<or>
   configured_url (\<lambda>_. None) [] (gr_return (projr (fst calm_finish)))"
  using grant_goes_where_allowed [OF calm_finish_run]
  by (simp add: calm_finish_def calm_env_def calm_service_def)

definition calm_visit :: "(id_error + person) \<times> id_db \<times> id_ev list" where
  "calm_visit = authenticate_session calm_env calm_cookie (fst (snd calm_finish)) []"

definition calm_farewell :: "(id_error + unit) \<times> id_db \<times> id_ev list" where
  "calm_farewell = sign_out calm_env (kr_session calm_cookie) (fst (snd calm_finish)) []"

definition calm_revisit :: "(id_error + person) \<times> id_db \<times> id_ev list" where
  "calm_revisit = authenticate_session calm_env calm_cookie (run_stmts [] (fst (snd calm_farewell))) []"

definition calm_sweep :: "(id_error + nat \<times> nat \<times> id_error option) \<times> id_db \<times> id_ev list" where
  "calm_sweep = purge_expired calm_env (fst (snd calm_start)) []"

lemma calm_visits: "\<not> isl (fst calm_visit)" "\<not> isl (fst calm_farewell)" "isl (fst calm_revisit)"
  by code_simp+

theorem cookie_is_accepted_for_a_live_session_witness:
  "\<exists>s. projr (fst calm_visit) = is_principal s \<and> \<not> session_expired 100 s"
  using cookie_is_accepted_for_a_live_session [OF returned [OF calm_visits(1), unfolded calm_visit_def]]
  by (auto simp: calm_visit_def calm_env_def)

theorem signed_out_cookie_is_refused_witness:
  "fst calm_revisit = Inl Unauthenticated \<or> (\<exists>what f. fst calm_revisit = Inl (IdStoreError (IdDown what f)))"
proof -
  have out: "sign_out calm_env (kr_session calm_cookie) (fst (snd calm_finish)) []
      = (Inr (projr (fst calm_farewell)), fst (snd calm_farewell), [] @ snd (snd calm_farewell))"
    unfolding calm_farewell_def [symmetric] by (rule returned [OF calm_visits(2)])
  have cookie: "kr_session calm_cookie \<noteq> []" by (simp add: calm_cookie_def)
  have again: "authenticate_session calm_env calm_cookie (run_stmts [] (fst (snd calm_farewell))) []
      = (fst calm_revisit, fst (snd calm_revisit), [] @ snd (snd calm_revisit))"
    by (simp add: calm_revisit_def)
  have quiet: "list_all (\<lambda>op. \<not> creates_session (ie_hash calm_env (kr_session calm_cookie)) op)
      ([] @ history (snd (snd calm_revisit)))" by code_simp
  show ?thesis by (rule signed_out_cookie_is_refused [OF out cookie refl again quiet])
qed

theorem started_sign_in_is_recorded_witness:
  "\<exists>p. p \<in> set (id_pending (fst (snd calm_start))) \<and> gn_hash p = su_token (projr (fst calm_start))"
proof -
  have h: "ie_hash calm_env = (\<lambda>s. s)" by (simp add: calm_env_def)
  from started_sign_in_is_recorded [OF calm_start_run] show ?thesis
    unfolding calm_start_def h by blast
qed

theorem chain_answer_is_of_one_witness:
  "\<exists>a \<in> {\<lambda>_. vfail Unauthenticated, \<lambda>_. vret operator}. a calm_cookie empty_id_db [] = (Inr operator, empty_id_db, [])"
proof -
  have "authenticate_chain [\<lambda>_. vfail Unauthenticated, \<lambda>_. vret operator] calm_cookie empty_id_db []
      = (Inr operator, empty_id_db, [])"
    by (simp add: vthen_def vlook_def vfail_def vret_def)
  from chain_answer_is_of_one [OF this] show ?thesis
    by (auto simp: vfail_def vret_def)
qed

theorem static_token_is_exact_witness:
  "fst (authenticate_token calm_env (projr (new_static_token (\<lambda>s. s) ''key''))
     \<lparr>kr_authorization = ''Bearer key'', kr_session = []\<rparr> empty_id_db []) =
   Inr (tk_principal (projr (new_static_token (\<lambda>s. s) ''key'')))"
proof -
  let ?c = "\<lparr>kr_authorization = ''Bearer key'', kr_session = []\<rparr>"
  have "\<not> isl (new_static_token (\<lambda>s. s) ''key'')" by code_simp
  then have "new_static_token (ie_hash calm_env) ''key'' = Inr (projr (new_static_token (\<lambda>s. s) ''key''))"
    by (simp add: calm_env_def)
  from static_token_is_exact [OF this, of ?c empty_id_db "[]"] show ?thesis
    by (simp add: bearer_prefix_def calm_env_def)
qed

theorem service_is_built_complete_witness:
  "0 < ik_session_life (projr (new_service (\<lambda>_. None) \<lparr>dq_provider = True, dq_sessions = True, dq_principals = True,
     dq_pending = True, dq_redirect = ''https://hub/cb'', dq_origins = [], dq_session_life = 0, dq_sign_in_life = 0\<rparr>))"
proof -
  let ?d = "\<lparr>dq_provider = True, dq_sessions = True, dq_principals = True, dq_pending = True,
     dq_redirect = ''https://hub/cb'', dq_origins = [], dq_session_life = 0, dq_sign_in_life = 0\<rparr>"
  have "new_service (\<lambda>_. None) ?d = Inr (projr (new_service (\<lambda>_. None) ?d))"
    by (simp add: new_service_def)
  from service_is_built_complete [OF this] show ?thesis by blast
qed

theorem sweep_removes_the_expired_witness:
  "id_pending (fst (snd calm_sweep)) = id_pending (fst (snd calm_start))"
proof -
  have "fst calm_sweep = Inr (0, 0, None)" by code_simp
  then have "purge_expired calm_env (fst (snd calm_start)) [] = (Inr (0, 0, None), fst (snd calm_sweep), snd (snd calm_sweep))"
    by (simp add: calm_sweep_def prod_eq_iff)
  from sweep_removes_the_expired [OF this] have "id_pending (fst (snd calm_sweep)) =
      filter (\<lambda>p. \<not> sign_in_expired 100 p) (id_pending (fst (snd calm_start)))"
    by (simp add: calm_env_def)
  also have "\<dots> = id_pending (fst (snd calm_start))" by code_simp
  finally show ?thesis .
qed

text \<open>
  Another tab signs out while the provider renews the session's tokens: the request fails with the
  store's own error, not as unauthenticated, so a chain stops there and reports a failure.
\<close>

definition racing_env :: id_env where
  "racing_env = calm_env\<lparr>ie_others := (\<lambda>l. if l = [] then [] else [(Applied, EndSession ''tttt'')])\<rparr>"

theorem renewal_of_an_ended_session_is_an_error:
  "fst (authenticate_chain [authenticate_session racing_env] calm_cookie (fst (snd calm_finish)) []) =
   Inl (IdStoreError NoIdSession)"
  by code_simp

end
