(* ===== verification/Migrations.thy ===== *)
theory Migrations
  imports Exec_Store Workflow_Vars
begin

text \<open>
  Bringing a schema up to date (\<open>pgmigrate/pgmigrate.go\<close>) and saying what it is at
  (\<open>schema/schema.go\<close>).

  The database is the tracking table, absent until it is created, and the rest of the schema, on
  which a migration's SQL acts by the parameter \<open>exec\<close>.  One migration is one transaction, so it is
  one step; other processes' transactions may run before every one of this process, although the
  advisory lock keeps them out, so the facts about the table do not rest on the lock.
\<close>

section \<open>What a schema is at\<close>

record schema_state =
  ss_namespace :: string
  ss_applied :: "string list"
  ss_required :: "string list"
  ss_missing :: "string list"

definition no_version :: string where "no_version = ''none''"

definition schema_version :: "schema_state \<Rightarrow> string" where
  "schema_version s = (if ss_applied s = [] then no_version else last (ss_applied s))"

definition required_version :: "schema_state \<Rightarrow> string" where
  "required_version s = (if ss_required s = [] then no_version else last (ss_required s))"

definition up_to_date :: "schema_state \<Rightarrow> bool" where
  "up_to_date s = (ss_missing s = [])"

definition recorded_name :: "string \<Rightarrow> string \<Rightarrow> string" where
  "recorded_name namespace name = (if namespace = [] then name else namespace @ ''/'' @ name)"

definition owned_name :: "string \<Rightarrow> string \<Rightarrow> string option" where
  "owned_name namespace recorded =
     (if namespace = [] then if contains recorded ''/'' then None else Some recorded
      else strip_prefix (namespace @ ''/'') recorded)"

text \<open>The recorded names are a set in the code; here a list without repeats.\<close>

definition new_state :: "string \<Rightarrow> string list \<Rightarrow> string list \<Rightarrow> schema_state" where
  "new_state namespace required recorded =
     \<lparr>ss_namespace = namespace,
      ss_applied = sort_strings (List.map_filter (owned_name namespace) recorded),
      ss_required = required,
      ss_missing = filter (\<lambda>n. recorded_name namespace n \<notin> set recorded) required\<rparr>"

text \<open>A directory entry is a name and whether it is a directory.\<close>

definition migration_names :: "(string \<times> bool) list \<Rightarrow> string list" where
  "migration_names entries = sort_strings (map fst (filter (\<lambda>e. \<not> snd e) entries))"

section \<open>One migration\<close>

record 's mg_db =
  mg_table :: "string list option"
  mg_schema :: 's

datatype mg_error = MgFailed string string

text \<open>Where the transaction of a migration fails, if it does; a lost commit took place.\<close>

datatype tx_fault = TxFine | TxBegin string | TxRecord string | TxBody string | TxCommit string | TxCommitLost string

type_synonym 's sql = "string \<Rightarrow> 's \<Rightarrow> 's option"

definition commit_migration :: "tx_fault \<Rightarrow> string \<Rightarrow> 's mg_db \<Rightarrow> 's mg_db \<Rightarrow> (mg_error + unit) \<times> 's mg_db" where
  "commit_migration f name db db' =
     (case f of
        TxCommit e \<Rightarrow> (Inl (MgFailed (''commit migration '' @ name) e), db)
      | TxCommitLost e \<Rightarrow> (Inl (MgFailed (''commit migration '' @ name) e), db')
      | _ \<Rightarrow> (Inr (), db'))"

definition run_body :: "'s sql \<Rightarrow> tx_fault \<Rightarrow> string \<Rightarrow> string \<Rightarrow> string list \<Rightarrow> 's mg_db \<Rightarrow> (mg_error + unit) \<times> 's mg_db" where
  "run_body exec f name body rows db =
     (case f of
        TxBody e \<Rightarrow> (Inl (MgFailed (''apply migration '' @ name) e), db)
      | _ \<Rightarrow> (case exec body (mg_schema db) of
          None \<Rightarrow> (Inl (MgFailed (''apply migration '' @ name) ''the statement failed''), db)
        | Some s \<Rightarrow> commit_migration f name db \<lparr>mg_table = Some (rows @ [name]), mg_schema = s\<rparr>))"

definition apply_migration :: "'s sql \<Rightarrow> tx_fault \<Rightarrow> string \<Rightarrow> string \<Rightarrow> 's mg_db \<Rightarrow> (mg_error + unit) \<times> 's mg_db" where
  "apply_migration exec f name body db =
     (case f of
        TxBegin e \<Rightarrow> (Inl (MgFailed (''begin migration '' @ name) e), db)
      | TxRecord e \<Rightarrow> (Inl (MgFailed (''record migration '' @ name) e), db)
      | _ \<Rightarrow> (case mg_table db of
          None \<Rightarrow> (Inl (MgFailed (''record migration '' @ name) ''undefined table''), db)
        | Some rows \<Rightarrow> if name \<in> set rows then (Inr (), db) else run_body exec f name body rows db))"

section \<open>A whole run\<close>

type_synonym tx = "tx_fault \<times> string \<times> string"

fun run_tx :: "'s sql \<Rightarrow> tx \<Rightarrow> 's mg_db \<Rightarrow> 's mg_db" where
  "run_tx exec (f, name, body) db = snd (apply_migration exec f name body db)"

definition run_txs :: "'s sql \<Rightarrow> tx list \<Rightarrow> 's mg_db \<Rightarrow> 's mg_db" where
  "run_txs exec = fold (run_tx exec)"

datatype mg_ev = MgLock bool | MgTable write_fault | MgFile string | MgTxs "tx list" | MgUnlock bool | MgReleased | MgClosed

record 's mg_env =
  me_exec :: "'s sql"
  me_acquire :: "mg_ev list \<Rightarrow> string option"
  me_lock :: "mg_ev list \<Rightarrow> string option"
  me_table :: "mg_ev list \<Rightarrow> write_fault"
  me_entries :: "string + (string \<times> bool) list"
  me_file :: "string \<Rightarrow> string + string"
  me_tx :: "mg_ev list \<Rightarrow> tx_fault"
  me_others :: "mg_ev list \<Rightarrow> tx list"
  me_unlock :: "mg_ev list \<Rightarrow> bool"

type_synonym ('s, 'a) mg_body = "(mg_ev, 's mg_db, mg_error, 'a) body"

fun fault_name :: "exec_fault \<Rightarrow> string" where
  "fault_name UndefinedTable = ''42P01''"
| "fault_name (OtherFault e) = e"

definition made_table :: "'s mg_db \<Rightarrow> 's mg_db" where
  "made_table db = (case mg_table db of None \<Rightarrow> db\<lparr>mg_table := Some []\<rparr> | Some _ \<Rightarrow> db)"

definition create_table :: "'s mg_env \<Rightarrow> ('s, unit) mg_body" where
  "create_table env db l =
     (case me_table env l of
        Applied \<Rightarrow> (Inr (), made_table db, l @ [MgTable Applied])
      | Refused e \<Rightarrow> (Inl (MgFailed ''create schema_migrations table'' (fault_name e)), db, l @ [MgTable (Refused e)])
      | Lost e \<Rightarrow> (Inl (MgFailed ''create schema_migrations table'' (fault_name e)), made_table db, l @ [MgTable (Lost e)]))"

definition embedded_names :: "'s mg_env \<Rightarrow> ('s, string list) mg_body" where
  "embedded_names env =
     (case me_entries env of
        Inl e \<Rightarrow> vfail (MgFailed ''read embedded migrations'' e)
      | Inr entries \<Rightarrow> vret (migration_names entries))"

definition read_body :: "'s mg_env \<Rightarrow> string \<Rightarrow> ('s, string) mg_body" where
  "read_body env name db l =
     (case me_file env name of
        Inl e \<Rightarrow> (Inl (MgFailed (''read migration '' @ name) e), db, l @ [MgFile name])
      | Inr b \<Rightarrow> (Inr b, db, l @ [MgFile name]))"

definition transact :: "'s mg_env \<Rightarrow> string \<Rightarrow> string \<Rightarrow> ('s, unit) mg_body" where
  "transact env name body db l =
     (let f = me_tx env l; others = me_others env l in
      case apply_migration (me_exec env) f name body (run_txs (me_exec env) others db) of
        (r, db') \<Rightarrow> (r, db', l @ [MgTxs (others @ [(f, name, body)])]))"

fun apply_each :: "'s mg_env \<Rightarrow> string \<Rightarrow> string list \<Rightarrow> ('s, unit) mg_body" where
  "apply_each env ns [] = vret ()"
| "apply_each env ns (n # ns') =
     vthen (read_body env n) (\<lambda>b. vthen (transact env (recorded_name ns n) b) (\<lambda>_. apply_each env ns ns'))"

definition migrate_locked :: "'s mg_env \<Rightarrow> string \<Rightarrow> ('s, unit) mg_body" where
  "migrate_locked env ns =
     vthen (create_table env) (\<lambda>_. vthen (embedded_names env) (\<lambda>names. apply_each env ns names))"

definition release_connection :: "'s mg_env \<Rightarrow> bool \<Rightarrow> mg_ev list \<Rightarrow> mg_ev list" where
  "release_connection env locked l =
     (if \<not> locked then l @ [MgReleased]
      else if me_unlock env l then l @ [MgUnlock True, MgReleased] else l @ [MgUnlock False, MgClosed])"

definition migrate :: "'s mg_env \<Rightarrow> string \<Rightarrow> ('s, unit) mg_body" where
  "migrate env ns db l =
     (case me_acquire env l of
        Some e \<Rightarrow> (Inl (MgFailed ''acquire a connection to migrate on'' e), db, l)
      | None \<Rightarrow> (case me_lock env l of
          Some e \<Rightarrow> (Inl (MgFailed ''take the migration lock'' e), db, release_connection env False (l @ [MgLock False]))
        | None \<Rightarrow> (case migrate_locked env ns db (l @ [MgLock True]) of
            (r, db', l') \<Rightarrow> (r, db', release_connection env True l'))))"

text \<open>Reading the tracking table; a table that is not there is nothing recorded, not an error.\<close>

definition recorded_names :: "exec_fault option \<Rightarrow> 's mg_db \<Rightarrow> mg_error + string list" where
  "recorded_names f db =
     (case (case mg_table db of None \<Rightarrow> Some UndefinedTable | Some _ \<Rightarrow> f) of
        Some UndefinedTable \<Rightarrow> Inr []
      | Some (OtherFault e) \<Rightarrow> Inl (MgFailed ''read the applied migrations'' e)
      | None \<Rightarrow> Inr (case mg_table db of None \<Rightarrow> [] | Some rows \<Rightarrow> rows))"

definition inspect :: "exec_fault option \<Rightarrow> string + (string \<times> bool) list \<Rightarrow> string \<Rightarrow> 's mg_db \<Rightarrow> mg_error + schema_state" where
  "inspect f entries ns db =
     (case entries of
        Inl e \<Rightarrow> Inl (MgFailed ''read embedded migrations'' e)
      | Inr es \<Rightarrow> rbind (recorded_names f db) (\<lambda>recorded. Inr (new_state ns (migration_names es) recorded)))"

section \<open>The record and the schema move together\<close>

definition recorded_rows :: "'s mg_db \<Rightarrow> string list" where
  "recorded_rows db = (case mg_table db of None \<Rightarrow> [] | Some rows \<Rightarrow> rows)"

fun run_bodies :: "'s sql \<Rightarrow> string list \<Rightarrow> 's \<Rightarrow> 's option" where
  "run_bodies exec [] s = Some s"
| "run_bodies exec (b # bs) s = (case exec b s of None \<Rightarrow> None | Some s' \<Rightarrow> run_bodies exec bs s')"

lemma run_bodies_append:
  "run_bodies exec (bs @ cs) s = (case run_bodies exec bs s of None \<Rightarrow> None | Some s' \<Rightarrow> run_bodies exec cs s')"
  by (induction bs arbitrary: s) (auto split: option.split)

text \<open>\<open>grown exec db done db'\<close>: from \<open>db\<close> to \<open>db'\<close> the migrations in \<open>done\<close> were recorded and ran, each once.\<close>

definition grown :: "'s sql \<Rightarrow> 's mg_db \<Rightarrow> (string \<times> string) list \<Rightarrow> 's mg_db \<Rightarrow> bool" where
  "grown exec db done db' =
     (recorded_rows db' = recorded_rows db @ map fst done \<and> run_bodies exec (map snd done) (mg_schema db) = Some (mg_schema db') \<and>
      (mg_table db = None \<longrightarrow> done = []))"

lemma grown_refl [simp]: "grown exec db [] db"
  by (simp add: grown_def)

lemma grown_trans: "grown exec db xs db1 \<Longrightarrow> grown exec db1 ys db2 \<Longrightarrow> mg_table db = None \<longrightarrow> mg_table db1 = None \<Longrightarrow> grown exec db (xs @ ys) db2"
  by (auto simp: grown_def run_bodies_append)

lemma run_body_cases:
  "(snd (run_body exec f name body rows db) = db \<and> (fst (run_body exec f name body rows db) \<noteq> Inr ())) \<or>
   (\<exists>s. exec body (mg_schema db) = Some s \<and> snd (run_body exec f name body rows db) = \<lparr>mg_table = Some (rows @ [name]), mg_schema = s\<rparr>)"
  by (auto simp: run_body_def commit_migration_def split: tx_fault.split option.split)

text \<open>A transaction that answered well left the name recorded; any transaction records at most its own.\<close>

lemma apply_cases:
  obtains (same) "snd (apply_migration exec f name body db) = db"
      "fst (apply_migration exec f name body db) = Inr () \<Longrightarrow> name \<in> set (recorded_rows db)"
  | (ran) rows s where "mg_table db = Some rows" "name \<notin> set rows" "exec body (mg_schema db) = Some s"
      "snd (apply_migration exec f name body db) = \<lparr>mg_table = Some (rows @ [name]), mg_schema = s\<rparr>"
proof (cases "mg_table db")
  case None
  then show ?thesis by (intro same) (auto simp: apply_migration_def split: tx_fault.splits)
next
  case (Some rows)
  show ?thesis
  proof (cases "name \<in> set rows")
    case True
    with Some show ?thesis
      by (intro same) (auto simp: apply_migration_def recorded_rows_def split: tx_fault.splits)
  next
    case False
    consider (out) e where "apply_migration exec f name body db = (Inl e, db)"
      | (body) "apply_migration exec f name body db = run_body exec f name body rows db"
      using Some False by (cases f) (auto simp: apply_migration_def)
    then show ?thesis
    proof cases
      case out
      then show ?thesis by (intro same) auto
    next
      case body
      with run_body_cases [of exec f name body rows db] Some False show ?thesis
        by (auto intro: same ran)
    qed
  qed
qed

lemma grown_apply:
  "\<exists>done. grown exec db done (snd (apply_migration exec f name body db)) \<and> set done \<subseteq> {(name, body)}"
proof (cases rule: apply_cases [of exec f name body db])
  case same
  then show ?thesis by (intro exI [of _ "[]"]) simp
next
  case (ran rows s)
  then show ?thesis by (intro exI [of _ "[(name, body)]"]) (auto simp: grown_def recorded_rows_def)
qed

lemma apply_keeps_table: "mg_table (snd (apply_migration exec f name body db)) = None \<longleftrightarrow> mg_table db = None"
  by (cases rule: apply_cases [of exec f name body db]) auto

lemma run_txs_simps [simp]:
  "run_txs exec [] db = db" "run_txs exec (t # ts) db = run_txs exec ts (run_tx exec t db)"
  "run_txs exec (ts @ ts') db = run_txs exec ts' (run_txs exec ts db)"
  by (simp_all add: run_txs_def)

lemma grown_txs:
  "\<exists>done. grown exec db done (run_txs exec txs db) \<and> set done \<subseteq> snd ` set txs"
proof (induction txs arbitrary: db)
  case Nil
  then show ?case by (intro exI [of _ "[]"]) simp
next
  case (Cons t txs)
  obtain f name body where t: "t = (f, name, body)" by (cases t)
  obtain d1 where d1: "grown exec db d1 (run_tx exec t db)" "set d1 \<subseteq> {(name, body)}"
    using grown_apply [of exec db f name body] t by auto
  from Cons obtain d2 where d2: "grown exec (run_tx exec t db) d2 (run_txs exec txs (run_tx exec t db))"
    "set d2 \<subseteq> snd ` set txs" by blast
  have "mg_table db = None \<longrightarrow> mg_table (run_tx exec t db) = None" using t apply_keeps_table [of exec f name body db] by simp
  from grown_trans [OF d1(1) d2(1) this] have "grown exec db (d1 @ d2) (run_txs exec (t # txs) db)" by simp
  moreover have "set (d1 @ d2) \<subseteq> snd ` set (t # txs)" using d1(2) d2(2) t by auto
  ultimately show ?case by blast
qed

lemma distinct_apply:
  "distinct (recorded_rows db) \<Longrightarrow> distinct (recorded_rows (snd (apply_migration exec f name body db)))"
  by (cases rule: apply_cases [of exec f name body db]) (auto simp: recorded_rows_def)

lemma distinct_txs: "distinct (recorded_rows db) \<Longrightarrow> distinct (recorded_rows (run_txs exec txs db))"
  by (induction txs arbitrary: db) (auto simp: distinct_apply)

text \<open>The tracking table and the schema never disagree: whatever transactions the starting processes run, in
  whatever order and wherever each fails or loses the answer to its commit, the rows that were added name
  exactly the migrations whose bodies made the schema, in the order they ran, each once.\<close>

theorem schema_is_what_is_recorded:
  assumes "distinct (recorded_rows db)"
  shows "\<exists>done. set done \<subseteq> snd ` set txs \<and>
    recorded_rows (run_txs exec txs db) = recorded_rows db @ map fst done \<and>
    distinct (recorded_rows (run_txs exec txs db)) \<and>
    run_bodies exec (map snd done) (mg_schema db) = Some (mg_schema (run_txs exec txs db))"
  using grown_txs [of exec db txs] distinct_txs [OF assms] by (auto simp: grown_def)

section \<open>What a run does\<close>

lemma rows_only_grow: "set (recorded_rows db) \<subseteq> set (recorded_rows (run_txs exec txs db))"
  using grown_txs [of exec db txs] by (auto simp: grown_def)

lemma applied_is_recorded:
  "apply_migration exec f name body db = (Inr (), db') \<Longrightarrow> name \<in> set (recorded_rows db')"
  by (cases rule: apply_cases [of exec f name body db]) (auto simp: recorded_rows_def)

lemma transact_alone:
  "transact env n b db l = (r, db', l') \<longleftrightarrow>
   apply_migration (me_exec env) (me_tx env l) n b (run_txs (me_exec env) (me_others env l) db) = (r, db') \<and>
   l' = l @ [MgTxs (me_others env l @ [(me_tx env l, n, b)])]"
  by (auto simp: transact_def Let_def split: prod.splits)

lemma apply_each_records:
  assumes "apply_each env ns names db l = (Inr (), db', l')"
  shows "set (recorded_rows db) \<union> set (map (recorded_name ns) names) \<subseteq> set (recorded_rows db')"
  using assms
proof (induction names arbitrary: db l)
  case Nil
  then show ?case by (simp add: vret_def)
next
  case (Cons n names)
  from Cons.prems obtain b l1 db2 l2 where
    t: "transact env (recorded_name ns n) b db l1 = (Inr (), db2, l2)"
    and rest: "apply_each env ns names db2 l2 = (Inr (), db', l')"
    by (auto simp: vthen_def read_body_def split: prod.splits sum.splits)
  from t have "recorded_name ns n \<in> set (recorded_rows db2)" and "set (recorded_rows db) \<subseteq> set (recorded_rows db2)"
    using rows_only_grow [of db "me_exec env" "me_others env l1"]
      rows_only_grow [of _ "me_exec env" "[(me_tx env l1, recorded_name ns n, b)]"]
    by (auto simp: transact_alone dest: applied_is_recorded) (metis (no_types, lifting) snd_conv subsetD)
  with Cons.IH [OF rest] show ?case by auto
qed

lemma migrate_ok:
  assumes "migrate env ns db l = (Inr (), db', l')"
  obtains es db1 l1 l2 where "me_entries env = Inr es" "apply_each env ns (migration_names es) db1 l1 = (Inr (), db', l2)"
  using assms
  by (auto simp: migrate_def migrate_locked_def embedded_names_def vthen_def vfail_def vret_def
      split: option.splits prod.splits sum.splits)

text \<open>A run that reports success leaves the schema up to date: what is inspected afterwards misses no
  migration this binary carries, whatever other processes did during the run.\<close>

theorem migrate_brings_up_to_date:
  assumes "migrate env ns db l = (Inr (), db', l')"
  shows "\<exists>s. inspect None (me_entries env) ns db' = Inr s \<and> up_to_date s \<and> ss_namespace s = ns"
proof -
  from migrate_ok [OF assms] obtain es db1 l1 l2 where es: "me_entries env = Inr es"
    and a: "apply_each env ns (migration_names es) db1 l1 = (Inr (), db', l2)" .
  have rows: "set (map (recorded_name ns) (migration_names es)) \<subseteq> set (recorded_rows db')"
    using apply_each_records [OF a] by simp
  have "recorded_names None db' = Inr (recorded_rows db')"
    by (simp add: recorded_names_def recorded_rows_def split: option.split)
  moreover have "up_to_date (new_state ns (migration_names es) (recorded_rows db'))"
    using rows by (auto simp: up_to_date_def new_state_def filter_empty_conv)
  ultimately show ?thesis
    using es by (simp add: inspect_def rbind_def new_state_def)
qed

text \<open>One process alone: what it adds, in order.\<close>

lemma apply_missing:
  assumes "mg_table db = Some rows"
  shows "recorded_rows (snd (apply_migration exec f name body db)) =
    rows @ (if snd (apply_migration exec f name body db) = db then [] else [name])"
    and "mg_table (snd (apply_migration exec f name body db)) \<noteq> None"
    and "name \<in> set rows \<Longrightarrow> snd (apply_migration exec f name body db) = db"
    and "name \<notin> set rows \<Longrightarrow> fst (apply_migration exec f name body db) = Inr () \<Longrightarrow>
      recorded_rows (snd (apply_migration exec f name body db)) = rows @ [name]"
  using assms by (cases rule: apply_cases [of exec f name body db]; auto simp: recorded_rows_def)+

lemma apply_each_in_order:
  assumes "me_others env = (\<lambda>_. [])" and "apply_each env ns names db l = (r, db', l')"
    and "mg_table db = Some rows" and "distinct (map (recorded_name ns) names)"
  shows "\<exists>k. recorded_rows db' = rows @ take k (filter (\<lambda>n. n \<notin> set rows) (map (recorded_name ns) names)) \<and>
    (r = Inr () \<longrightarrow> k = length (filter (\<lambda>n. n \<notin> set rows) (map (recorded_name ns) names)))"
  using assms(2-)
proof (induction names arbitrary: db l rows)
  case Nil
  then show ?case by (simp add: vret_def recorded_rows_def)
next
  case (Cons n names)
  let ?n = "recorded_name ns n"
  show ?case
  proof (cases "me_file env n")
    case (Inl e)
    then have "db' = db" "r \<noteq> Inr ()"
      using Cons.prems(1) by (auto simp: vthen_def read_body_def)
    then show ?thesis using Cons.prems(2) by (intro exI [of _ 0]) (simp add: recorded_rows_def)
  next
    case (Inr b)
    let ?l = "l @ [MgFile n]"
    obtain r1 db1 where a: "apply_migration (me_exec env) (me_tx env ?l) ?n b db = (r1, db1)" by fastforce
    note am = apply_missing [OF Cons.prems(2), where exec = "me_exec env" and f = "me_tx env ?l" and name = ?n and body = b, unfolded a fst_conv snd_conv]
    show ?thesis
    proof (cases r1)
      case (Inl e)
      then have d: "db' = db1" "r \<noteq> Inr ()"
        using Cons.prems(1) Inr a assms(1)
        by (auto simp: vthen_def read_body_def transact_def Let_def)
      show ?thesis
      proof (cases "db1 = db")
        case True
        with d Cons.prems(2) show ?thesis by (intro exI [of _ 0]) (simp add: recorded_rows_def)
      next
        case False
        with am(1,3) d show ?thesis by (intro exI [of _ 1]) auto
      qed
    next
      case ok: (Inr u)
      then have rest: "apply_each env ns names db1 (?l @ [MgTxs [(me_tx env ?l, ?n, b)]]) = (r, db', l')"
        using Cons.prems(1) Inr a assms(1) by (simp add: vthen_def read_body_def transact_def Let_def)
      let ?rows = "if ?n \<in> set rows then rows else rows @ [?n]"
      have rows1: "mg_table db1 = Some ?rows"
      proof (cases "?n \<in> set rows")
        case True
        with am(3) Cons.prems(2) show ?thesis by simp
      next
        case False
        with am(2,4) ok show ?thesis by (auto simp: recorded_rows_def split: option.splits)
      qed
      have dis: "distinct (map (recorded_name ns) names)" and nin: "?n \<notin> set (map (recorded_name ns) names)"
        using Cons.prems(3) by auto
      have same: "filter (\<lambda>m. m \<notin> set ?rows) (map (recorded_name ns) names) =
          filter (\<lambda>m. m \<notin> set rows) (map (recorded_name ns) names)"
        using nin by (auto intro!: filter_cong)
      from Cons.IH [OF rest rows1 dis] obtain k where
        k: "recorded_rows db' = ?rows @ take k (filter (\<lambda>m. m \<notin> set rows) (map (recorded_name ns) names))"
        "r = Inr () \<longrightarrow> k = length (filter (\<lambda>m. m \<notin> set rows) (map (recorded_name ns) names))"
        unfolding same by blast
      show ?thesis
        using k by (cases "?n \<in> set rows") (auto intro: exI [of _ k] exI [of _ "Suc k"])
    qed
  qed
qed

lemma made_table_rows [simp]: "recorded_rows (made_table db) = recorded_rows db"
  by (simp add: made_table_def recorded_rows_def split: option.split)

lemma made_table_some: "mg_table (made_table db) = Some (recorded_rows db)"
  by (simp add: made_table_def recorded_rows_def split: option.split)

lemma missing_rows:
  "map (recorded_name ns) (ss_missing (new_state ns names rows)) =
   filter (\<lambda>n. n \<notin> set rows) (map (recorded_name ns) names)"
  by (simp add: new_state_def filter_map comp_def)

text \<open>How far a run gets before it is in the hands of the migrations themselves.\<close>

lemma migrate_cases:
  assumes "migrate env ns db l = (r, db', l')"
  obtains (out) e where "r = Inl e" "db' = db \<or> db' = made_table db"
  | (ran) es l1 l2 where "me_entries env = Inr es"
      "apply_each env ns (migration_names es) (made_table db) l1 = (r, db', l2)"
  using assms
  by (auto simp: migrate_def migrate_locked_def create_table_def embedded_names_def vthen_def vfail_def vret_def
      split: option.splits prod.splits sum.splits write_fault.splits)


lemma apply_each_idle:
  assumes "me_others env = (\<lambda>_. [])" and "apply_each env ns names db l = (r, db', l')"
    and "mg_table db = Some rows" and "set (map (recorded_name ns) names) \<subseteq> set rows"
  shows "db' = db"
  using assms(2-)
proof (induction names arbitrary: l)
  case Nil
  then show ?case by (simp add: vret_def)
next
  case (Cons n names)
  have same: "snd (apply_migration (me_exec env) f (recorded_name ns n) b db) = db" for f b
    using apply_missing(3) [OF Cons.prems(2)] Cons.prems(3) by simp
  obtain r1 db1 l1 where x: "vthen (read_body env n) (transact env (recorded_name ns n)) db l = (r1, db1, l1)"
    by (metis prod_cases3)
  have "db1 = db"
    using x same assms(1)
    by (auto simp: vthen_def read_body_def transact_def Let_def split: sum.splits prod.splits) (metis snd_conv)+
  have go: "db' = db" if "apply_each env ns names db l0 = (r, db', l')" for l0
    by (rule Cons.IH [OF that Cons.prems(2)]) (use Cons.prems(3) in simp)
  with \<open>db1 = db\<close> Cons.prems(1) x show ?case
    by (auto simp: vthen_def read_body_def split: sum.splits prod.splits)
qed

text \<open>Running again is free: on a database that misses nothing a run changes nothing, neither the table nor
  the schema, however it ends.\<close>

theorem migrate_again_changes_nothing:
  assumes "me_others env = (\<lambda>_. [])" and "mg_table db \<noteq> None"
    and "inspect None (me_entries env) ns db = Inr s" and "up_to_date s"
    and "migrate env ns db l = (r, db', l')"
  shows "db' = db"
proof -
  obtain rows where rows: "mg_table db = Some rows" using assms(2) by blast
  then have same: "made_table db = db" by (simp add: made_table_def)
  show ?thesis
    using assms(5)
  proof (cases rule: migrate_cases)
    case (out e)
    then show ?thesis using same by auto
  next
    case (ran es l1 l2)
    have "s = new_state ns (migration_names es) rows"
      using assms(3) ran(1) rows by (auto simp: inspect_def rbind_def recorded_names_def)
    then have "set (map (recorded_name ns) (migration_names es)) \<subseteq> set rows"
      using assms(4) by (auto simp: up_to_date_def new_state_def filter_empty_conv)
    from apply_each_idle [OF assms(1) ran(2) [unfolded same] rows this] show ?thesis .
  qed
qed

section \<open>The lock\<close>

fun under_lock :: "mg_ev \<Rightarrow> bool" where
  "under_lock (MgTable _) = True"
| "under_lock (MgFile _) = True"
| "under_lock (MgTxs _) = True"
| "under_lock _ = False"

lemma vwp_under_lock:
  "vwp (apply_each env ns names) (\<lambda>r s' l'. \<exists>d. l' = l @ d \<and> list_all under_lock d) db l"
proof (induction names arbitrary: db l)
  case Nil
  then show ?case by (simp add: wp_rules)
next
  case (Cons n names)
  show ?case
  proof (cases "me_file env n")
    case (Inl e)
    then show ?thesis by (simp add: vwp_def vthen_def read_body_def)
  next
    case (Inr b)
    obtain r1 db1 where a: "transact env (recorded_name ns n) b db (l @ [MgFile n]) =
        (r1, db1, l @ [MgFile n] @ [MgTxs (me_others env (l @ [MgFile n]) @ [(me_tx env (l @ [MgFile n]), recorded_name ns n, b)])])"
      by (auto simp: transact_def Let_def split_def)
    have "vwp (apply_each env ns names)
        (\<lambda>r s' l'. \<exists>d. l' = l @ d \<and> list_all under_lock d) db1
        (l @ [MgFile n] @ [MgTxs (me_others env (l @ [MgFile n]) @ [(me_tx env (l @ [MgFile n]), recorded_name ns n, b)])])"
      by (rule vwp_mono [OF Cons.IH]) auto
    then show ?thesis
      using Inr a by (cases r1) (auto simp: vwp_def vthen_def read_body_def)
  qed
qed

lemma locked_part:
  assumes "migrate_locked env ns db l = (r, db', l')"
  shows "\<exists>d. l' = l @ d \<and> list_all under_lock d"
proof -
  have ct: "\<exists>w. snd (snd (create_table env db l)) = l @ [MgTable w]"
    by (cases "me_table env l") (auto simp: create_table_def)
  obtain r1 db1 w where c: "create_table env db l = (r1, db1, l @ [MgTable w])"
    using ct by (metis prod.collapse)
  have go: "vwp (apply_each env ns names) (\<lambda>r s' l'. \<exists>d. l' = l @ d \<and> list_all under_lock d) db1 (l @ [MgTable w])" for names
    by (rule vwp_mono [OF vwp_under_lock]) auto
  have each: "\<exists>d. l'' = l @ d \<and> list_all under_lock d"
    if "apply_each env ns names db1 (l @ [MgTable w]) = (r', db'', l'')" for names r' db'' l''
  proof -
    from go [of names] that show ?thesis by (simp add: vwp_def)
  qed
  show ?thesis
    using assms c
    by (cases r1) (auto simp: migrate_locked_def vthen_def embedded_names_def vfail_def vret_def
        split: sum.splits prod.splits dest: each)
qed

text \<open>Everything a run does to the database it does between taking the lock and giving it back, and the
  connection goes back to the pool only without the lock: if the unlock is not confirmed, the connection is
  closed instead.\<close>

theorem lock_is_given_back:
  assumes "migrate env ns db l = (r, db', l')"
  shows "l' = l \<or> l' = l @ [MgLock False, MgReleased] \<or>
    (\<exists>d. list_all under_lock d \<and>
      (l' = l @ MgLock True # d @ [MgUnlock True, MgReleased] \<or> l' = l @ MgLock True # d @ [MgUnlock False, MgClosed]))"
proof (cases "me_acquire env l")
  case (Some e)
  with assms show ?thesis by (simp add: migrate_def)
next
  case None
  show ?thesis
  proof (cases "me_lock env l")
    case (Some e)
    with None assms show ?thesis by (simp add: migrate_def release_connection_def)
  next
    case open_: None
    obtain r1 db1 l1 where m: "migrate_locked env ns db (l @ [MgLock True]) = (r1, db1, l1)" by (metis prod_cases3)
    from locked_part [OF m] obtain d where "l1 = (l @ [MgLock True]) @ d" "list_all under_lock d" by blast
    with None open_ m assms show ?thesis
      by (cases "me_unlock env l1") (auto simp: migrate_def release_connection_def)
  qed
qed

section \<open>Namespaces\<close>

text \<open>A migration is recognised by the namespace that recorded it and by no other, as long as namespaces have
  no slash: adapters that number their files alike do not see each other's.\<close>

theorem namespaces_are_apart:
  assumes "CHR ''/'' \<notin> set ns" and "CHR ''/'' \<notin> set ns'" and "CHR ''/'' \<notin> set n"
  shows "owned_name ns (recorded_name ns' n) = (if ns = ns' then Some n else None)"
proof -
  have slash: "contains (a @ ''/'' @ b) ''/''" for a b by (auto simp: contains_iff)
  have none: "\<not> contains n ''/''" using assms(3) contains_set [of n "''/''"] by auto
  have pre: "strip_prefix (a @ ''/'') (b @ ''/'' @ c) = (if a = b then Some c else None)"
    if "CHR ''/'' \<notin> set a" "CHR ''/'' \<notin> set b" for a b c :: string
  proof (cases "strip_prefix (a @ ''/'') (b @ ''/'' @ c)")
    case None
    then show ?thesis by (metis append.assoc option.distinct(1) strip_prefix_append)
  next
    case (Some t)
    then have "b @ CHR ''/'' # c = a @ CHR ''/'' # t" by (simp add: strip_prefix_Some)
    then have "cut_at (CHR ''/'') (b @ CHR ''/'' # c) = cut_at (CHR ''/'') (a @ CHR ''/'' # t)" by simp
    then have "b = a \<and> c = t" using that by simp
    then show ?thesis using Some by simp
  qed
  have bare: "strip_prefix (ns @ ''/'') n = None"
    using assms(3) by (cases "strip_prefix (ns @ ''/'') n") (auto simp: strip_prefix_Some)
  show ?thesis
    using slash [of ns' n] none bare pre [OF assms(1,2), of n]
    by (auto simp: owned_name_def recorded_name_def)
qed

section \<open>A concrete run\<close>

definition plain_env :: "string list mg_env" where
  "plain_env = \<lparr>me_exec = (\<lambda>b s. Some (s @ [b])), me_acquire = (\<lambda>_. None), me_lock = (\<lambda>_. None), me_table = (\<lambda>_. Applied),
     me_entries = Inr [(''0002_b.sql'', False), (''0001_a.sql'', False), (''old'', True)],
     me_file = (\<lambda>n. Inr (''run '' @ n)), me_tx = (\<lambda>_. TxFine), me_others = (\<lambda>_. []), me_unlock = (\<lambda>_. True)\<rparr>"

definition fresh_db :: "string list mg_db" where
  "fresh_db = \<lparr>mg_table = None, mg_schema = []\<rparr>"

definition plain_run :: "(mg_error + unit) \<times> string list mg_db \<times> mg_ev list" where
  "plain_run = migrate plain_env ''hub'' fresh_db []"

lemma plain_run_ok: "migrate plain_env ''hub'' fresh_db [] = (Inr (), fst (snd plain_run), snd (snd plain_run))"
proof -
  have "fst plain_run = Inr ()" by code_simp
  then show ?thesis by (simp add: plain_run_def prod_eq_iff)
qed

theorem schema_is_what_is_recorded_witness:
  "let db = \<lparr>mg_table = Some [''0''], mg_schema = [''w'']\<rparr>;
       db' = run_txs (\<lambda>b s. Some (s @ [b])) [(TxFine, ''1'', ''x''), (TxFine, ''1'', ''x'')] db
   in \<exists>ns. recorded_rows db' = ''0'' # ns \<and> distinct (recorded_rows db')"
proof -
  let ?db = "\<lparr>mg_table = Some [''0''], mg_schema = [''w'']\<rparr>"
  have rows: "recorded_rows ?db = [''0'']" by (simp add: recorded_rows_def)
  then have "distinct (recorded_rows ?db)" by simp
  from schema_is_what_is_recorded [OF this, of "[(TxFine, ''1'', ''x''), (TxFine, ''1'', ''x'')]" "\<lambda>b s. Some (s @ [b])"]
  show ?thesis unfolding Let_def rows append_Cons append_Nil by blast
qed

theorem migrate_brings_up_to_date_witness:
  "\<exists>s. inspect None (me_entries plain_env) ''hub'' (fst (snd plain_run)) = Inr s \<and> up_to_date s"
  using migrate_brings_up_to_date [OF plain_run_ok] by blast


theorem migrate_again_changes_nothing_witness:
  "fst (snd (migrate plain_env ''hub'' (fst (snd plain_run)) [])) = fst (snd plain_run)"
proof -
  obtain s where s: "inspect None (me_entries plain_env) ''hub'' (fst (snd plain_run)) = Inr s" "up_to_date s"
    using migrate_brings_up_to_date [OF plain_run_ok] by blast
  have "mg_table (fst (snd plain_run)) \<noteq> None" by code_simp
  moreover have "me_others plain_env = (\<lambda>_. [])" by (simp add: plain_env_def)
  ultimately show ?thesis
    using migrate_again_changes_nothing [OF _ _ s, of "[]"] by (metis prod.collapse)
qed

end
