(* ===== verification/Http_Server.thy ===== *)
theory Http_Server
  imports Identity
begin

text \<open>
  The posture every response of the API is served under: problem documents
  (\<open>httpapi/problem.go\<close>), the middleware chain (\<open>httpapi/middleware.go\<close>, and \<open>buildHandler\<close> in
  \<open>httpapi/httpapi.go\<close>), and the half of \<open>httpapi/auth.go\<close> that resolves credentials and guards
  against other sites.

  A handler is a function of the request, of what its context carries, of the headers set so far and
  of the world \<open>'w\<close> it acts on (the core, the stores, the rate limiters, the log), which stays
  abstract: what the server itself needs of it are the functions of \<open>http_env\<close>.  It answers with
  a reply, or panics before it has written anything, leaving the headers it had set.  A header that
  is set replaces the one before it, a header that is added stands beside it.  The streams' own
  writing is not modelled, and the address parser of IPv6 is a parameter.
\<close>

section \<open>Problems\<close>

datatype problem_code =
    InvalidRequest | NotFoundCode | MethodNotAllowed | UnsupportedMediaType | RequestTooLarge | StateChangedCode
  | NotAPlace | PlaceIsBusyCode | InvalidPrompt | AuthenticationRequired | SignInFailedCode | CrossSiteRequest
  | TooManyRequests | DependencyUnavailable | TimeoutCode | InternalError

fun code_text :: "problem_code \<Rightarrow> string" where
  "code_text InvalidRequest = ''invalid-request''"
| "code_text NotFoundCode = ''not-found''"
| "code_text MethodNotAllowed = ''method-not-allowed''"
| "code_text UnsupportedMediaType = ''unsupported-media-type''"
| "code_text RequestTooLarge = ''request-too-large''"
| "code_text StateChangedCode = ''state-changed''"
| "code_text NotAPlace = ''not-a-place''"
| "code_text PlaceIsBusyCode = ''place-is-busy''"
| "code_text InvalidPrompt = ''invalid-prompt''"
| "code_text AuthenticationRequired = ''authentication-required''"
| "code_text SignInFailedCode = ''sign-in-failed''"
| "code_text CrossSiteRequest = ''cross-site-request''"
| "code_text TooManyRequests = ''too-many-requests''"
| "code_text DependencyUnavailable = ''dependency-unavailable''"
| "code_text TimeoutCode = ''timeout''"
| "code_text InternalError = ''internal-error''"

fun code_title :: "problem_code \<Rightarrow> string" where
  "code_title InvalidRequest = ''The request is invalid''"
| "code_title NotFoundCode = ''No such resource''"
| "code_title MethodNotAllowed = ''The method is not allowed on this resource''"
| "code_title UnsupportedMediaType = ''The request body'' @ CHR 0x27 # ''s media type is not supported''"
| "code_title RequestTooLarge = ''The request body is too large''"
| "code_title StateChangedCode = ''The item changed before dismissal''"
| "code_title NotAPlace = ''The hub cannot work in that directory''"
| "code_title PlaceIsBusyCode = ''Work is already running in that place''"
| "code_title InvalidPrompt = ''The prompt override is invalid''"
| "code_title AuthenticationRequired = ''Authentication is required''"
| "code_title SignInFailedCode = ''The sign-in could not be completed''"
| "code_title CrossSiteRequest = ''The request came from another site''"
| "code_title TooManyRequests = ''Too many requests''"
| "code_title DependencyUnavailable = ''A dependency is unavailable''"
| "code_title TimeoutCode = ''The request took too long''"
| "code_title InternalError = ''The server failed to handle the request''"

fun code_status :: "problem_code \<Rightarrow> nat" where
  "code_status InvalidRequest = 400"
| "code_status NotFoundCode = 404"
| "code_status MethodNotAllowed = 405"
| "code_status UnsupportedMediaType = 415"
| "code_status RequestTooLarge = 413"
| "code_status StateChangedCode = 409"
| "code_status NotAPlace = 422"
| "code_status PlaceIsBusyCode = 409"
| "code_status InvalidPrompt = 422"
| "code_status AuthenticationRequired = 401"
| "code_status SignInFailedCode = 400"
| "code_status CrossSiteRequest = 403"
| "code_status TooManyRequests = 429"
| "code_status DependencyUnavailable = 503"
| "code_status TimeoutCode = 504"
| "code_status InternalError = 500"

record problem_document =
  pd_type :: string
  pd_title :: string
  pd_status :: nat
  pd_detail :: string
  pd_instance :: string
  pd_request :: string
  pd_conflicting :: string

section \<open>Requests and replies\<close>

text \<open>
  What the server reads of a request.  \<open>hr_segments\<close> are the unescaped segments of the path, an empty
  last one for a trailing slash, and \<open>hr_escaped\<close> is the path as it was written.  \<open>hr_query\<close> is the
  parsed query, absent when it does not parse; an absent header is the empty string, an absent cookie
  \<open>None\<close>.
\<close>

record http_request =
  hr_method :: string
  hr_segments :: "string list"
  hr_escaped :: string
  hr_host :: string
  hr_origin :: string
  hr_fetch_site :: string
  hr_authorization :: string
  hr_session :: "string option"
  hr_sign_in :: "string option"
  hr_if_none_match :: string
  hr_query :: "(string \<times> string) list option"
  hr_content_type :: string
  hr_body :: string

definition hr_path :: "http_request \<Rightarrow> string" where
  "hr_path r = concat (map (\<lambda>s. CHR ''/'' # s) (hr_segments r))"

type_synonym headers = "(string \<times> string) list"

definition set_header :: "string \<Rightarrow> string \<Rightarrow> headers \<Rightarrow> headers" where
  "set_header k v h = filter (\<lambda>p. fst p \<noteq> k) h @ [(k, v)]"

definition add_header :: "string \<Rightarrow> string \<Rightarrow> headers \<Rightarrow> headers" where
  "add_header k v h = h @ [(k, v)]"

datatype 'd http_body = NoBody | ProblemBody problem_document | PlainText string | LinkPage string | Document 'd

record 'd reply =
  rp_status :: nat
  rp_headers :: headers
  rp_body :: "'d http_body"

record http_context =
  hc_request_id :: string
  hc_principal :: "person option"
  hc_bounded :: bool

datatype 'd outcome_of_handler = Replied "'d reply" | Panicked headers

type_synonym ('d, 'w) handler = "http_request \<Rightarrow> http_context \<Rightarrow> headers \<Rightarrow> 'w \<Rightarrow> 'd outcome_of_handler \<times> 'w"

record access_line =
  al_request :: string
  al_method :: string
  al_path :: string
  al_status :: nat

record 'w http_env =
  hq_uuid :: "'w \<Rightarrow> string \<times> 'w"
  hq_allow :: "'w \<Rightarrow> bool \<times> 'w"
  hq_authenticate :: "credential \<Rightarrow> 'w \<Rightarrow> (id_error + person) \<times> 'w"
  hq_access :: "access_line \<Rightarrow> 'w \<Rightarrow> 'w"
  hq_is_ip :: "string \<Rightarrow> bool"

text \<open>\<open>hs_deprecated\<close> and \<open>hs_sunset\<close> hold the header's text; \<open>hs_authenticates\<close> is that there is an authenticator.\<close>

record http_server =
  hs_base :: string
  hs_hosts :: "string list"
  hs_origins :: "string list"
  hs_authenticates :: bool
  hs_limited :: bool
  hs_secure :: bool
  hs_retry_after :: nat
  hs_deprecated :: "string option"
  hs_sunset :: "string option"

definition answered :: "nat \<Rightarrow> headers \<Rightarrow> 'd http_body \<Rightarrow> 'w \<Rightarrow> 'd outcome_of_handler \<times> 'w" where
  "answered status h b w = (Replied \<lparr>rp_status = status, rp_headers = h, rp_body = b\<rparr>, w)"

definition problem_type_uri :: "http_server \<Rightarrow> problem_code \<Rightarrow> string" where
  "problem_type_uri sv code = hs_base sv @ ''/problems/'' @ code_text code"

definition problem_of :: "http_server \<Rightarrow> http_request \<Rightarrow> http_context \<Rightarrow> problem_code \<Rightarrow> string \<Rightarrow> string \<Rightarrow> problem_document" where
  "problem_of sv r cx code detail conflicting =
     \<lparr>pd_type = problem_type_uri sv code, pd_title = code_title code, pd_status = code_status code,
      pd_detail = detail, pd_instance = hr_escaped r, pd_request = hc_request_id cx, pd_conflicting = conflicting\<rparr>"

text \<open>The length of the body is not modelled, as the bodies are documents and not bytes.\<close>

definition write_problem_about :: "http_server \<Rightarrow> problem_code \<Rightarrow> string \<Rightarrow> string \<Rightarrow> ('d, 'w) handler" where
  "write_problem_about sv code detail conflicting r cx h w =
     (let h1 = (if code = DependencyUnavailable \<or> code = TooManyRequests
                then set_header ''Retry-After'' (itoa_nat (hs_retry_after sv)) h else h);
          h2 = set_header ''Cache-Control'' ''no-store'' (set_header ''Content-Type'' ''application/problem+json'' h1)
      in answered (code_status code) h2
           (if hr_method r = ''HEAD'' then NoBody else ProblemBody (problem_of sv r cx code detail conflicting)) w)"

definition write_problem :: "http_server \<Rightarrow> problem_code \<Rightarrow> string \<Rightarrow> ('d, 'w) handler" where
  "write_problem sv code detail = write_problem_about sv code detail []"

text \<open>\<open>http.Error\<close>.\<close>

definition plain_error :: "nat \<Rightarrow> string \<Rightarrow> ('d, 'w) handler" where
  "plain_error status text r cx h w =
     answered status (set_header ''X-Content-Type-Options'' ''nosniff''
       (set_header ''Content-Type'' ''text/plain; charset=utf-8'' h)) (PlainText text) w"

section \<open>Middleware\<close>

type_synonym ('d, 'w) middleware = "('d, 'w) handler \<Rightarrow> ('d, 'w) handler"

definition with_request_id :: "'w http_env \<Rightarrow> ('d, 'w) middleware" where
  "with_request_id env next r cx h w =
     (case hq_uuid env w of (rid, w') \<Rightarrow>
        next r (cx\<lparr>hc_request_id := rid\<rparr>) (set_header ''X-Request-Id'' rid h) w')"

definition in_quotes :: "string \<Rightarrow> string" where
  "in_quotes s = CHR 0x27 # s @ [CHR 0x27]"

definition strict_policy :: string where
  "strict_policy = ''default-src '' @ in_quotes ''none'' @ ''; frame-ancestors '' @ in_quotes ''none'' @
     ''; base-uri '' @ in_quotes ''none''"

definition security_headers :: "('d, 'w) middleware" where
  "security_headers next r cx h =
     next r cx
       (set_header ''Content-Security-Policy'' strict_policy
       (set_header ''X-Frame-Options'' ''DENY''
       (set_header ''Cross-Origin-Resource-Policy'' ''same-origin''
       (set_header ''Referrer-Policy'' ''no-referrer''
       (set_header ''X-Content-Type-Options'' ''nosniff'' h)))))"

definition recover_panics :: "http_server \<Rightarrow> ('d, 'w) middleware" where
  "recover_panics sv next r cx h w =
     (case next r cx h w of
        (Replied p, w') \<Rightarrow> (Replied p, w')
      | (Panicked h', w') \<Rightarrow> write_problem sv InternalError [] r cx h' w')"

definition with_timeout :: "http_server \<Rightarrow> ('d, 'w) middleware" where
  "with_timeout sv next r cx =
     (if has_suffix (hr_path r) ''/events'' \<or> hr_path r = hs_base sv @ ''/places/directory-picker''
      then next r cx else next r (cx\<lparr>hc_bounded := True\<rparr>))"

definition rate_limit :: "http_server \<Rightarrow> 'w http_env \<Rightarrow> ('d, 'w) middleware" where
  "rate_limit sv env next r cx h w =
     (if \<not> hs_limited sv then next r cx h w
      else case hq_allow env w of
        (True, w') \<Rightarrow> next r cx h w'
      | (False, w') \<Rightarrow> write_problem sv TooManyRequests ''the request rate exceeds what this server accepts'' r cx h w')"

text \<open>\<open>net.SplitHostPort\<close>, of which only the host is used.\<close>

definition split_host_port :: "string \<Rightarrow> string option" where
  "split_host_port s =
     (case cut_at (CHR '':'') (rev s) of
        None \<Rightarrow> None
      | Some (port, before) \<Rightarrow>
          let front = rev before in
          if has_prefix s ''['' then
            (case cut_at (CHR '']'') (drop 1 s) of
               None \<Rightarrow> None
             | Some (host, rest) \<Rightarrow>
                 if rest = [] \<or> rest \<noteq> CHR '':'' # rev port then None
                 else if CHR ''['' \<in> set host \<or> CHR ''['' \<in> set rest \<or> CHR '']'' \<in> set rest then None
                 else Some host)
          else if CHR '':'' \<in> set front \<or> CHR ''['' \<in> set s \<or> CHR '']'' \<in> set s then None
          else Some front)"

definition canonical_host :: "(string \<Rightarrow> bool) \<Rightarrow> string \<Rightarrow> string" where
  "canonical_host is_ip value =
     (let host = trim_space value;
          finish = (\<lambda>h. let l = map lower_char h in if has_suffix l ''.'' then butlast l else l) in
      case split_host_port host of
        Some h \<Rightarrow> finish h
      | None \<Rightarrow>
          if has_prefix host ''['' \<and> has_suffix host '']'' then finish (butlast (drop 1 host))
          else if length (filter (\<lambda>c. c = CHR '':'') host) > 1 \<and> \<not> is_ip host then []
          else finish host)"

definition require_host :: "http_server \<Rightarrow> 'w http_env \<Rightarrow> ('d, 'w) middleware" where
  "require_host sv env next r =
     (if canonical_host (hq_is_ip env) (hr_host r) \<notin> set (hs_hosts sv) then plain_error 403 ''invalid host'' r else next r)"

definition cors_headers :: "string \<Rightarrow> headers \<Rightarrow> headers" where
  "cors_headers origin h =
     set_header ''Access-Control-Max-Age'' ''600''
     (set_header ''Access-Control-Expose-Headers'' ''ETag, Link, X-Request-Id, Retry-After, Deprecation, Sunset''
     (set_header ''Access-Control-Allow-Headers'' ''Authorization, Content-Type, If-None-Match''
     (set_header ''Access-Control-Allow-Methods'' ''GET, POST, PUT, PATCH, DELETE, OPTIONS''
     (add_header ''Vary'' ''Origin''
     (set_header ''Access-Control-Allow-Credentials'' ''true''
     (set_header ''Access-Control-Allow-Origin'' origin h))))))"

definition cors :: "http_server \<Rightarrow> ('d, 'w) middleware" where
  "cors sv next r cx h =
     (if hr_origin r \<noteq> [] \<and> hr_origin r \<notin> set (hs_origins sv) then plain_error 403 ''invalid origin'' r cx h
      else let h' = (if hr_origin r \<noteq> [] then cors_headers (hr_origin r) h else h) in
        if hr_method r = ''OPTIONS'' then answered 204 h' NoBody else next r cx h')"

definition deprecation_headers :: "http_server \<Rightarrow> headers \<Rightarrow> headers" where
  "deprecation_headers sv h =
     (let h1 = (case hs_deprecated sv of None \<Rightarrow> h
            | Some at \<Rightarrow> add_header ''Link'' (''<'' @ hs_base sv @ ''>; rel='' @ dq @ ''deprecation'' @ dq @ ''; type='' @ dq @ ''application/json'' @ dq)
                (set_header ''Deprecation'' at h))
      in case hs_sunset sv of None \<Rightarrow> h1 | Some at \<Rightarrow> set_header ''Sunset'' at h1)"

definition deprecation :: "http_server \<Rightarrow> ('d, 'w) middleware" where
  "deprecation sv next r cx h = next r cx (deprecation_headers sv h)"

text \<open>The line is written once there is an answer; a panic is already an answer where this runs.\<close>

definition access_log :: "'w http_env \<Rightarrow> ('d, 'w) middleware" where
  "access_log env next r cx h w =
     (case next r cx h w of
        (Replied p, w') \<Rightarrow> (Replied p, hq_access env \<lparr>al_request = hc_request_id cx, al_method = hr_method r,
           al_path = hr_escaped r, al_status = rp_status p\<rparr> w')
      | (Panicked h', w') \<Rightarrow> (Panicked h', w'))"

section \<open>Who asks, and from where\<close>

definition session_cookie_name :: string where "session_cookie_name = ''agent_hub_session''"
definition sign_in_cookie_name :: string where "sign_in_cookie_name = ''agent_hub_sign_in''"

definition credential_from :: "http_request \<Rightarrow> credential" where
  "credential_from r = \<lparr>kr_authorization = hr_authorization r,
     kr_session = (case hr_session r of None \<Rightarrow> [] | Some v \<Rightarrow> v)\<rparr>"

definition is_public_route :: "http_server \<Rightarrow> string \<Rightarrow> bool" where
  "is_public_route sv path =
     (\<not> has_prefix path (hs_base sv) \<or>
      path \<in> set (map (\<lambda>p. hs_base sv @ p) [''/auth/sign-in'', ''/auth/callback'', ''/health'']))"

definition refuse_credential :: "http_server \<Rightarrow> id_error \<Rightarrow> ('d, 'w) handler" where
  "refuse_credential sv e r cx h =
     (if e \<noteq> Unauthenticated then
        write_problem sv DependencyUnavailable ''the credential could not be checked; try again'' r cx h
      else write_problem sv AuthenticationRequired
        (''sign in at '' @ hs_base sv @ ''/auth/sign-in, or send the configured bearer token'') r cx
        (add_header ''Link'' (''<'' @ hs_base sv @ ''/auth/sign-in>; rel='' @ dq @ ''authenticate'' @ dq)
        (set_header ''WWW-Authenticate'' (''Bearer realm='' @ dq @ ''agent-hub'' @ dq) h)))"

definition authenticate_request :: "http_server \<Rightarrow> 'w http_env \<Rightarrow> ('d, 'w) middleware" where
  "authenticate_request sv env next r cx h w =
     (if \<not> hs_authenticates sv \<or> is_public_route sv (hr_path r) then next r cx h w
      else case hq_authenticate env (credential_from r) w of
        (Inl e, w') \<Rightarrow> refuse_credential sv e r cx h w'
      | (Inr p, w') \<Rightarrow> next r (cx\<lparr>hc_principal := Some p\<rparr>) h w')"

definition principal_from :: "http_context \<Rightarrow> person option" where
  "principal_from cx = (case hc_principal cx of None \<Rightarrow> None | Some p \<Rightarrow> if valid_principal p then Some p else None)"

definition mutates :: "string \<Rightarrow> bool" where
  "mutates method = (method \<in> set [''POST'', ''PUT'', ''PATCH'', ''DELETE''])"

definition same_site :: "http_server \<Rightarrow> http_request \<Rightarrow> bool" where
  "same_site sv r =
     (let site = map lower_char (trim_space (hr_fetch_site r)) in
      site \<in> set [[], ''same-origin'', ''none''] \<or> site = ''same-site'' \<and> hr_origin r \<in> set (hs_origins sv))"

definition require_same_site :: "http_server \<Rightarrow> ('d, 'w) middleware" where
  "require_same_site sv next r =
     (if \<not> mutates (hr_method r) \<or> same_site sv r then next r
      else write_problem sv CrossSiteRequest ''a change must be requested by this application, from this site'' r)"

section \<open>The chain\<close>

definition guarded :: "http_server \<Rightarrow> 'w http_env \<Rightarrow> ('d, 'w) middleware" where
  "guarded sv env mux =
     require_host sv env (cors sv (authenticate_request sv env (require_same_site sv (rate_limit sv env (with_timeout sv mux)))))"

definition build_handler :: "http_server \<Rightarrow> 'w http_env \<Rightarrow> ('d, 'w) middleware" where
  "build_handler sv env mux =
     with_request_id env (access_log env (security_headers (recover_panics sv (deprecation sv (guarded sv env mux)))))"

section \<open>Which requests reach a handler\<close>

lemma write_problem_simp:
  "write_problem sv code detail r cx h w = write_problem_about sv code detail [] r cx h w"
  by (simp add: write_problem_def)

text \<open>What stands between the chain and the handlers: a refusal, or the context, headers and world they see.\<close>

definition past_limits :: "http_server \<Rightarrow> 'w http_env \<Rightarrow> http_request \<Rightarrow> 'w \<Rightarrow> bool \<times> 'w" where
  "past_limits sv env r w =
     (if mutates (hr_method r) \<and> \<not> same_site sv r then (False, w)
      else if \<not> hs_limited sv then (True, w) else hq_allow env w)"

definition past_credential :: "http_server \<Rightarrow> 'w http_env \<Rightarrow> http_request \<Rightarrow> 'w \<Rightarrow> (id_error + person option) \<times> 'w" where
  "past_credential sv env r w =
     (if \<not> hs_authenticates sv \<or> is_public_route sv (hr_path r) then (Inr None, w)
      else case hq_authenticate env (credential_from r) w of (Inl e, w') \<Rightarrow> (Inl e, w') | (Inr p, w') \<Rightarrow> (Inr (Some p), w'))"

definition past_origin :: "http_server \<Rightarrow> 'w http_env \<Rightarrow> http_request \<Rightarrow> bool" where
  "past_origin sv env r =
     (canonical_host (hq_is_ip env) (hr_host r) \<in> set (hs_hosts sv) \<and>
      (hr_origin r = [] \<or> hr_origin r \<in> set (hs_origins sv)) \<and> hr_method r \<noteq> ''OPTIONS'')"

definition seen_context :: "http_server \<Rightarrow> http_request \<Rightarrow> person option \<Rightarrow> http_context \<Rightarrow> http_context" where
  "seen_context sv r p cx =
     (let cx1 = (case p of None \<Rightarrow> cx | Some q \<Rightarrow> cx\<lparr>hc_principal := Some q\<rparr>) in
      if has_suffix (hr_path r) ''/events'' \<or> hr_path r = hs_base sv @ ''/places/directory-picker''
      then cx1 else cx1\<lparr>hc_bounded := True\<rparr>)"

definition seen_headers :: "http_request \<Rightarrow> headers \<Rightarrow> headers" where
  "seen_headers r h = (if hr_origin r \<noteq> [] then cors_headers (hr_origin r) h else h)"

lemma past_credential_anonymous:
  "past_credential sv env r w = (Inr None, w') \<Longrightarrow> w' = w \<and> (\<not> hs_authenticates sv \<or> is_public_route sv (hr_path r))"
  by (auto simp: past_credential_def split: if_splits prod.splits sum.splits)

lemma limits_admit:
  assumes "past_limits sv env r w = (True, w2)"
  shows "require_same_site sv (rate_limit sv env n) r cx h w = n r cx h w2"
  using assms by (auto simp: past_limits_def require_same_site_def rate_limit_def split: if_splits)

lemma credential_admits:
  assumes "past_credential sv env r w = (Inr p, w1)"
  shows "authenticate_request sv env n r cx h w = n r (case p of None \<Rightarrow> cx | Some q \<Rightarrow> cx\<lparr>hc_principal := Some q\<rparr>) h w1"
proof (cases "\<not> hs_authenticates sv \<or> is_public_route sv (hr_path r)")
  case True
  with assms show ?thesis by (auto simp: past_credential_def authenticate_request_def)
next
  case False
  obtain a w' where "hq_authenticate env (credential_from r) w = (a, w')" by fastforce
  with False assms show ?thesis by (cases a) (auto simp: past_credential_def authenticate_request_def)
qed

lemma guarded_admits:
  assumes "past_origin sv env r" and "past_credential sv env r w = (Inr p, w1)" and "past_limits sv env r w1 = (True, w2)"
  shows "guarded sv env mux r cx h w = mux r (seen_context sv r p cx) (seen_headers r h) w2"
proof -
  have "guarded sv env mux r cx h w =
      authenticate_request sv env (require_same_site sv (rate_limit sv env (with_timeout sv mux))) r cx (seen_headers r h) w"
    using assms(1) by (auto simp: guarded_def require_host_def cors_def past_origin_def seen_headers_def Let_def)
  also have "\<dots> = with_timeout sv mux r (case p of None \<Rightarrow> cx | Some q \<Rightarrow> cx\<lparr>hc_principal := Some q\<rparr>) (seen_headers r h) w2"
    by (simp add: credential_admits [OF assms(2)] limits_admit [OF assms(3)])
  also have "\<dots> = mux r (seen_context sv r p cx) (seen_headers r h) w2"
    by (simp add: with_timeout_def seen_context_def Let_def)
  finally show ?thesis .
qed

lemma limits_refuse:
  assumes "past_limits sv env r w = (False, w2)"
  shows "require_same_site sv (rate_limit sv env (with_timeout sv mux)) r cx h w =
    require_same_site sv (rate_limit sv env (with_timeout sv mux')) r cx h w"
  using assms by (auto simp: past_limits_def require_same_site_def rate_limit_def split: if_splits)

lemma credential_refuses:
  assumes "(\<exists>e w1. past_credential sv env r w = (Inl e, w1)) \<or>
    (\<exists>p w1 w2. past_credential sv env r w = (Inr p, w1) \<and> past_limits sv env r w1 = (False, w2))"
  shows "authenticate_request sv env (require_same_site sv (rate_limit sv env (with_timeout sv mux))) r cx h w =
    authenticate_request sv env (require_same_site sv (rate_limit sv env (with_timeout sv mux'))) r cx h w"
proof (cases "\<not> hs_authenticates sv \<or> is_public_route sv (hr_path r)")
  case True
  then have "past_credential sv env r w = (Inr None, w)" by (simp add: past_credential_def)
  with assms obtain w2 where "past_limits sv env r w = (False, w2)" by auto
  from limits_refuse [OF this] True show ?thesis by (simp add: authenticate_request_def)
next
  case False
  obtain a w1 where a: "hq_authenticate env (credential_from r) w = (a, w1)" by fastforce
  show ?thesis
  proof (cases a)
    case (Inl e)
    with False a show ?thesis by (simp add: authenticate_request_def)
  next
    case (Inr p)
    then have "past_credential sv env r w = (Inr (Some p), w1)" using False a by (simp add: past_credential_def)
    with assms obtain w2 where "past_limits sv env r w1 = (False, w2)" by auto
    from limits_refuse [OF this] False a Inr show ?thesis by (simp add: authenticate_request_def)
  qed
qed

lemma guarded_refuses:
  assumes "\<not> past_origin sv env r \<or> (\<exists>e w1. past_credential sv env r w = (Inl e, w1)) \<or>
    (\<exists>p w1 w2. past_credential sv env r w = (Inr p, w1) \<and> past_limits sv env r w1 = (False, w2))"
  shows "guarded sv env mux r cx h w = guarded sv env mux' r cx h w"
proof (cases "past_origin sv env r")
  case True
  with assms credential_refuses [of sv env r w mux _ _ mux'] show ?thesis
    by (simp add: guarded_def require_host_def cors_def Let_def)
next
  case False
  then show ?thesis by (auto simp: past_origin_def guarded_def require_host_def cors_def Let_def)
qed

lemma handled_requests:
  assumes "build_handler sv env mux r cx h w \<noteq> build_handler sv env mux' r cx h w"
    and "w0 = snd (hq_uuid env w)"
  shows "canonical_host (hq_is_ip env) (hr_host r) \<in> set (hs_hosts sv) \<and>
    (hr_origin r = [] \<or> hr_origin r \<in> set (hs_origins sv)) \<and> hr_method r \<noteq> ''OPTIONS'' \<and>
    (mutates (hr_method r) \<longrightarrow> same_site sv r) \<and>
    (hs_authenticates sv \<longrightarrow> is_public_route sv (hr_path r) \<or>
      (\<exists>p w1. hq_authenticate env (credential_from r) w0 = (Inr p, w1)))"
proof -
  obtain rid where u: "hq_uuid env w = (rid, w0)" using assms(2) by (metis prod.collapse)
  have "\<exists>cx' h'. guarded sv env mux r cx' h' w0 \<noteq> guarded sv env mux' r cx' h' w0"
  proof (rule ccontr)
    assume "\<not> ?thesis"
    then have "guarded sv env mux r cx' h' w0 = guarded sv env mux' r cx' h' w0" for cx' h' by blast
    with assms(1) u show False
      by (simp add: build_handler_def with_request_id_def access_log_def security_headers_def recover_panics_def deprecation_def Let_def)
  qed
  then obtain cx' h' where "guarded sv env mux r cx' h' w0 \<noteq> guarded sv env mux' r cx' h' w0" by blast
  with guarded_refuses [of sv env r w0 mux cx' h' mux']
  have o: "past_origin sv env r" and c: "\<not> (\<exists>e w1. past_credential sv env r w0 = (Inl e, w1))"
    and l: "\<not> (\<exists>p w1 w2. past_credential sv env r w0 = (Inr p, w1) \<and> past_limits sv env r w1 = (False, w2))" by blast+
  from c obtain p w1 where p: "past_credential sv env r w0 = (Inr p, w1)"
    by (metis old.sum.exhaust prod.collapse)
  with l have "past_limits sv env r w1 \<noteq> (False, w1)" by blast
  then have site: "mutates (hr_method r) \<longrightarrow> same_site sv r"
    unfolding past_limits_def by (metis (full_types))
  have cred: "hs_authenticates sv \<longrightarrow> is_public_route sv (hr_path r) \<or>
      (\<exists>p w1. hq_authenticate env (credential_from r) w0 = (Inr p, w1))"
    using p by (auto simp: past_credential_def split: if_splits prod.splits sum.splits)
  show ?thesis using o site cred by (auto simp: past_origin_def)
qed

text \<open>C14: Only an admitted request can be acted on: if what the server answers or does to the world depends on its
  handlers at all, then the request named an allowed host, came from no origin or a listed one, is no
  preflight, carried a credential that was accepted unless its route is public or the server has no
  authenticator, and, if it changes something, was not made by another site.\<close>

theorem only_admitted_requests_are_handled:
  assumes "build_handler sv env mux r cx h w \<noteq> build_handler sv env mux' r cx h w"
    and "w0 = snd (hq_uuid env w)"
  shows "canonical_host (hq_is_ip env) (hr_host r) \<in> set (hs_hosts sv) \<and>
    (hr_origin r = [] \<or> hr_origin r \<in> set (hs_origins sv)) \<and> hr_method r \<noteq> ''OPTIONS'' \<and>
    (mutates (hr_method r) \<longrightarrow> same_site sv r) \<and>
    (hs_authenticates sv \<longrightarrow> is_public_route sv (hr_path r) \<or>
      (\<exists>p w1. hq_authenticate env (credential_from r) w0 = (Inr p, w1)))"
  by (rule handled_requests [OF assms])

text \<open>A request that presents an accepted credential is handled exactly as the handlers would on their own,
  under the principal its credential resolved to and nobody else: the chain adds the headers of the
  request's origin and the time budget, and changes nothing else.\<close>

theorem handler_sees_the_resolved_principal:
  assumes "past_origin sv env r" and "hs_authenticates sv" and "\<not> is_public_route sv (hr_path r)"
    and "hq_authenticate env (credential_from r) w = (Inr p, w1)" and "past_limits sv env r w1 = (True, w2)"
  shows "guarded sv env mux r cx h w = mux r (seen_context sv r (Some p) cx) (seen_headers r h) w2 \<and>
    hc_principal (seen_context sv r (Some p) cx) = Some p"
proof
  have "past_credential sv env r w = (Inr (Some p), w1)"
    using assms(2,3,4) by (simp add: past_credential_def)
  from guarded_admits [OF assms(1) this assms(5)]
  show "guarded sv env mux r cx h w = mux r (seen_context sv r (Some p) cx) (seen_headers r h) w2" .
  show "hc_principal (seen_context sv r (Some p) cx) = Some p" by (simp add: seen_context_def Let_def)
qed

text \<open>A credential that is not accepted is answered 401 with the place to sign in, and one that could not be
  checked 503; neither answer says anything of what failed, so a caller learns nothing from comparing them.\<close>

theorem refusals_tell_nothing:
  assumes "past_origin sv env r" and "past_credential sv env r w = (Inl e, w1)"
  shows "\<exists>p. guarded sv env mux r cx h w = (Replied p, w1) \<and>
    rp_status p = (if e = Unauthenticated then 401 else 503) \<and>
    (\<forall>e' w0 w1'. past_credential sv env r w0 = (Inl e', w1') \<and> (e' = Unauthenticated \<longleftrightarrow> e = Unauthenticated) \<longrightarrow>
       guarded sv env mux r cx h w0 = (Replied p, w1'))"
proof -
  have run: "guarded sv env mux r cx h w0 = refuse_credential sv e' r cx (seen_headers r h) w1'"
    if "past_credential sv env r w0 = (Inl e', w1')" for e' w0 w1'
    using assms(1) that
    by (auto simp: guarded_def require_host_def cors_def authenticate_request_def past_origin_def past_credential_def
        seen_headers_def Let_def split: if_splits prod.splits sum.splits)
  show ?thesis
    using run [OF assms(2)] run
    by (auto simp: refuse_credential_def write_problem_def write_problem_about_def answered_def Let_def)
qed

section \<open>What every answer has\<close>

definition header_values :: "string \<Rightarrow> headers \<Rightarrow> string list" where
  "header_values k h = map snd (filter (\<lambda>p. fst p = k) h)"

lemma header_values_set [simp]:
  "header_values k (set_header k' v h) = (if k = k' then [v] else header_values k h)"
  by (induction h) (auto simp: set_header_def header_values_def)

lemma header_values_add [simp]:
  "header_values k (add_header k' v h) = header_values k h @ (if k = k' then [v] else [])"
  by (simp add: add_header_def header_values_def)

text \<open>The headers that constrain what an answer may be used for.\<close>

definition hardening :: headers where
  "hardening = [(''X-Content-Type-Options'', ''nosniff''), (''Referrer-Policy'', ''no-referrer''),
     (''Cross-Origin-Resource-Policy'', ''same-origin''), (''X-Frame-Options'', ''DENY'')]"

definition hardened :: "headers \<Rightarrow> bool" where
  "hardened h = list_all (\<lambda>(k, v). header_values k h = [v]) hardening"

fun headers_of :: "'d outcome_of_handler \<Rightarrow> headers" where
  "headers_of (Replied p) = rp_headers p"
| "headers_of (Panicked h) = h"

definition stays_hardened :: "('d, 'w) handler \<Rightarrow> bool" where
  "stays_hardened hn = (\<forall>r cx h w. hardened h \<longrightarrow> hardened (headers_of (fst (hn r cx h w))))"

lemma hardened_set:
  "hardened h \<Longrightarrow> k \<notin> fst ` set hardening \<Longrightarrow> hardened (set_header k v h)"
  by (auto simp: hardened_def hardening_def)

lemma hardened_add:
  "hardened h \<Longrightarrow> k \<notin> fst ` set hardening \<Longrightarrow> hardened (add_header k v h)"
  by (auto simp: hardened_def hardening_def)

lemma hardened_problem: "stays_hardened (write_problem_about sv code detail c)"
  by (auto simp: stays_hardened_def write_problem_about_def answered_def Let_def hardened_def hardening_def)

lemma hardened_write_problem: "stays_hardened (write_problem sv code detail)"
  unfolding write_problem_def by (rule hardened_problem)

lemma hardened_plain: "stays_hardened (plain_error n t)"
  by (auto simp: stays_hardened_def plain_error_def answered_def hardened_def hardening_def)

lemma hardened_cors: "hardened h \<Longrightarrow> hardened (cors_headers o' h)"
  by (simp add: cors_headers_def hardened_def hardening_def)

lemma hardened_refusal: "stays_hardened (refuse_credential sv e)"
  unfolding stays_hardened_def refuse_credential_def write_problem_def write_problem_about_def answered_def Let_def
  by (auto simp: hardened_def hardening_def)

lemma stays_hardenedD: "stays_hardened hn \<Longrightarrow> hardened h \<Longrightarrow> hardened (headers_of (fst (hn r cx h w)))"
  by (simp add: stays_hardened_def)

lemma hardened_deprecation: "hardened h \<Longrightarrow> hardened (deprecation_headers sv h)"
  by (simp add: deprecation_headers_def hardened_def hardening_def Let_def split: option.split)

lemmas hardened_replies =
  stays_hardenedD [OF hardened_plain] stays_hardenedD [OF hardened_write_problem] stays_hardenedD [OF hardened_refusal]
  hardened_cors

lemma hardened_require_host: "stays_hardened n \<Longrightarrow> stays_hardened (require_host sv env n)"
  by (auto simp: stays_hardened_def require_host_def intro: hardened_replies)

lemma hardened_cors_layer:
  assumes "stays_hardened n"
  shows "stays_hardened (cors sv n)"
  unfolding stays_hardened_def
  by (auto simp: cors_def Let_def answered_def intro: hardened_replies stays_hardenedD [OF assms])

lemma hardened_authenticate:
  assumes "stays_hardened n"
  shows "stays_hardened (authenticate_request sv env n)"
  unfolding stays_hardened_def
  by (auto simp: authenticate_request_def intro: hardened_replies stays_hardenedD [OF assms] split: prod.split sum.split)

lemma hardened_same_site: "stays_hardened n \<Longrightarrow> stays_hardened (require_same_site sv n)"
  by (auto simp: stays_hardened_def require_same_site_def intro: hardened_replies)

lemma hardened_rate_limit:
  assumes "stays_hardened n"
  shows "stays_hardened (rate_limit sv env n)"
  unfolding stays_hardened_def
  by (auto simp: rate_limit_def intro: hardened_replies stays_hardenedD [OF assms] split: prod.split bool.split)

lemma hardened_timeout: "stays_hardened n \<Longrightarrow> stays_hardened (with_timeout sv n)"
  by (simp add: stays_hardened_def with_timeout_def)

lemma hardened_guarded: "stays_hardened mux \<Longrightarrow> stays_hardened (guarded sv env mux)"
  unfolding guarded_def
  by (intro hardened_require_host hardened_cors_layer hardened_authenticate hardened_same_site hardened_rate_limit
      hardened_timeout)

text \<open>Every request gets exactly one answer, whatever the handlers do, a panic included, and one line in the
  access log with its identifier and its status.  The answer bears the headers that constrain its use,
  unless a handler itself takes them away.\<close>

theorem every_request_is_answered:
  assumes "stays_hardened mux"
  shows "\<exists>p w'. build_handler sv env mux r cx h w =
      (Replied p, hq_access env \<lparr>al_request = fst (hq_uuid env w), al_method = hr_method r, al_path = hr_escaped r,
         al_status = rp_status p\<rparr> w') \<and> hardened (rp_headers p)"
proof -
  obtain rid w0 where u: "hq_uuid env w = (rid, w0)" by fastforce
  let ?cx = "cx\<lparr>hc_request_id := rid\<rparr>"
  define inner where "inner = security_headers (recover_panics sv (deprecation sv (guarded sv env mux)))"
  have "\<exists>p w'. inner r ?cx (set_header ''X-Request-Id'' rid h) w0 = (Replied p, w') \<and> hardened (rp_headers p)"
  proof -
    let ?h = "set_header ''Content-Security-Policy'' strict_policy (set_header ''X-Frame-Options'' ''DENY''
       (set_header ''Cross-Origin-Resource-Policy'' ''same-origin'' (set_header ''Referrer-Policy'' ''no-referrer''
       (set_header ''X-Content-Type-Options'' ''nosniff'' (set_header ''X-Request-Id'' rid h)))))"
    have hard: "hardened ?h" by (simp add: hardened_def hardening_def)
    define h' where "h' = deprecation_headers sv ?h"
    have h': "hardened h'" unfolding h'_def by (rule hardened_deprecation [OF hard])
    have run: "deprecation sv (guarded sv env mux) r ?cx ?h w0 = guarded sv env mux r ?cx h' w0"
      by (simp add: deprecation_def h'_def)
    obtain res w' where g: "guarded sv env mux r ?cx h' w0 = (res, w')" by fastforce
    with stays_hardenedD [OF hardened_guarded [OF assms] h', of sv env r ?cx w0] have res: "hardened (headers_of res)" by simp
    show ?thesis
    proof (cases res)
      case (Replied p)
      with g run res show ?thesis by (simp add: inner_def security_headers_def recover_panics_def)
    next
      case (Panicked h'')
      have "hardened (headers_of (fst (write_problem sv InternalError [] r ?cx h'' w')))"
        using stays_hardenedD [OF hardened_write_problem] res Panicked by simp
      with Panicked g run show ?thesis
        by (simp add: inner_def security_headers_def recover_panics_def write_problem_def write_problem_about_def
            answered_def Let_def)
    qed
  qed
  then show ?thesis
    using u by (auto simp: build_handler_def with_request_id_def access_log_def inner_def)
qed

section \<open>A request through the chain\<close>

definition demo_site :: http_server where
  "demo_site = \<lparr>hs_base = ''/api/v1'', hs_hosts = [''hub.local''], hs_origins = [''https://hub.local''], hs_authenticates = True,
     hs_limited = True, hs_secure = True, hs_retry_after = 5, hs_deprecated = None, hs_sunset = None\<rparr>"

definition demo_person :: person where
  "demo_person = \<lparr>ip_issuer = ''https://id'', ip_subject = ''ann'', ip_name = ''Ann'', ip_email = []\<rparr>"

definition demo_front :: "'w http_env" where
  "demo_front = \<lparr>hq_uuid = (\<lambda>w. (''request-1'', w)), hq_allow = (\<lambda>w. (True, w)),
     hq_authenticate = (\<lambda>c w. (if kr_session c = ''token'' then Inr demo_person else Inl Unauthenticated, w)),
     hq_access = (\<lambda>_ w. w), hq_is_ip = (\<lambda>_. False)\<rparr>"

definition demo_ask :: "string \<Rightarrow> string list \<Rightarrow> string \<Rightarrow> http_request" where
  "demo_ask method segments token = \<lparr>hr_method = method, hr_segments = segments, hr_escaped = concat (map (\<lambda>s. CHR ''/'' # s) segments),
     hr_host = ''hub.local:8443'', hr_origin = [], hr_fetch_site = ''same-origin'', hr_authorization = [],
     hr_session = Some token, hr_sign_in = None, hr_if_none_match = [], hr_query = Some [], hr_content_type = ''application/json'',
     hr_body = []\<rparr>"

definition demo_context :: http_context where
  "demo_context = \<lparr>hc_request_id = [], hc_principal = None, hc_bounded = False\<rparr>"

definition answer_with :: "nat \<Rightarrow> (unit, 'w) handler" where
  "answer_with n r cx h w = answered n h NoBody w"

fun status_of_answer :: "'d outcome_of_handler \<Rightarrow> nat option" where
  "status_of_answer (Replied p) = Some (rp_status p)"
| "status_of_answer (Panicked h) = None"

lemma demo_served:
  "status_of_answer (fst (build_handler demo_site demo_front (answer_with n) (demo_ask ''POST'' [''api'', ''v1'', ''runs''] ''token'') demo_context [] ())) = Some n"
  by code_simp

theorem only_admitted_requests_are_handled_witness:
  "same_site demo_site (demo_ask ''POST'' [''api'', ''v1'', ''runs''] ''token'') \<and>
   (\<exists>p w1. hq_authenticate demo_front (credential_from (demo_ask ''POST'' [''api'', ''v1'', ''runs''] ''token'')) () = (Inr p, w1))"
proof -
  let ?r = "demo_ask ''POST'' [''api'', ''v1'', ''runs''] ''token''"
  have differ: "build_handler demo_site demo_front (answer_with 201) ?r demo_context [] () \<noteq>
      build_handler demo_site demo_front (answer_with 404) ?r demo_context [] ()"
    using demo_served [of 201] demo_served [of 404] by auto
  have "() = snd (hq_uuid demo_front ())" by simp
  from only_admitted_requests_are_handled [OF differ this] show ?thesis
    by (simp add: demo_ask_def mutates_def demo_site_def is_public_route_def hr_path_def)
qed

text \<open>The same request with a credential nobody accepts is refused before any handler.\<close>

lemma demo_refused:
  "status_of_answer (fst (build_handler demo_site demo_front (answer_with n) (demo_ask ''POST'' [''api'', ''v1'', ''runs''] ''guess'') demo_context [] ())) = Some 401"
  by code_simp

end
