(* ===== verification/Http_Documents.thy ===== *)
theory Http_Documents
  imports Hub_Places Instructions
begin

text \<open>
  The documents the API publishes: the resources of \<open>httpapi/dto.go\<close> and their projections from the
  core's model.

  A nullable field is an option; a field that is left out when it is empty is here the empty value.
  A time is rendered by a parameter (RFC 3339 in UTC).  The fraction of a plan that is done is kept in
  thousandths and rounded in exact arithmetic.  JSON's encoding is a parameter of whoever writes a
  document.
\<close>

section \<open>Envelopes\<close>

record 'a collection =
  cl_items :: "'a list"
  cl_count :: nat
  cl_limit :: int

definition new_collection :: "'a list \<Rightarrow> int \<Rightarrow> 'a collection" where
  "new_collection items limit = \<lparr>cl_items = items, cl_count = length items, cl_limit = limit\<rparr>"

definition timestamp :: "(nat \<Rightarrow> string) \<Rightarrow> nat \<Rightarrow> string option" where
  "timestamp stamp t = (if t = 0 then None else Some (stamp t))"

section \<open>Places\<close>

record location_resource =
  lx_id :: string
  lx_kind :: string
  lx_label :: string
  lx_parent :: "string option"
  lx_directory :: string
  lx_ref :: string

definition or_empty :: "string option \<Rightarrow> string" where
  "or_empty v = (case v of None \<Rightarrow> [] | Some s \<Rightarrow> s)"

definition location_resource_of :: "(string \<Rightarrow> string) \<Rightarrow> location \<Rightarrow> location_resource" where
  "location_resource_of digest l =
     \<lparr>lx_id = location_id digest l, lx_kind = location_kind l, lx_label = location_label l,
      lx_parent = map_option (location_id digest) (place_parent l),
      lx_directory = or_empty (place_directory l), lx_ref = or_empty (place_ref l)\<rparr>"

definition locations_from :: "(string \<Rightarrow> string) \<Rightarrow> location_registry \<Rightarrow> location_resource list" where
  "locations_from digest g = map (location_resource_of digest) (lr_locations g)"

text \<open>
  The registry of the places a response refers to.  That there is none would be a loop that does not
  end; \<open>new_registry_ok\<close> excludes it.
\<close>

definition published_locations :: "(string \<Rightarrow> string) \<Rightarrow> location list \<Rightarrow> location_resource list" where
  "published_locations digest ls =
     (case new_location_registry digest ls of None \<Rightarrow> [] | Some g \<Rightarrow> locations_from digest g)"

record 'a located_collection =
  lc_items :: "'a list"
  lc_count :: nat
  lc_limit :: int
  lc_locations :: "location_resource list"

definition new_located_collection :: "'a list \<Rightarrow> int \<Rightarrow> location_resource list \<Rightarrow> 'a located_collection" where
  "new_located_collection items limit locations =
     \<lparr>lc_items = items, lc_count = length items, lc_limit = limit, lc_locations = locations\<rparr>"

section \<open>Active work\<close>

record active_resource =
  ax_id :: string
  ax_type :: string
  ax_status :: work_status
  ax_running :: bool
  ax_location :: string

record active_collection =
  ac_items :: "active_resource list"
  ac_count :: nat
  ac_limit :: int
  ac_next :: "string option"
  ac_locations :: "location_resource list"

definition active_from :: "(string \<Rightarrow> string) \<Rightarrow> active_item \<Rightarrow> active_resource" where
  "active_from digest i =
     \<lparr>ax_id = ai_id i, ax_type = ai_type i, ax_status = ai_status i, ax_running = ai_running i,
      ax_location = location_id digest (ai_location i)\<rparr>"

definition new_active_collection :: "active_resource list \<Rightarrow> int \<Rightarrow> string \<Rightarrow> location_resource list \<Rightarrow> active_collection" where
  "new_active_collection items limit following locations =
     \<lparr>ac_items = items, ac_count = length items, ac_limit = limit,
      ac_next = (if following = [] then None else Some following), ac_locations = locations\<rparr>"

section \<open>Fleets\<close>

record node_execution_resource =
  nx_workflow :: string
  nx_run :: string
  nx_started :: "string option"
  nx_ended :: "string option"
  nx_tokens :: int

record fleet_node_resource =
  fn_x_id :: string
  fn_x_label :: string
  fn_x_prompt :: string
  fn_x_depends_on :: "string list"
  fn_x_status :: work_status
  fn_x_location :: string
  fn_x_execution :: "node_execution_resource option"

record progress_resource =
  px_done :: nat
  px_total :: nat
  px_thousandths :: nat

record fleet_resource =
  fx_id :: string
  fx_kind :: string
  fx_label :: string
  fx_status :: work_status
  fx_progress :: progress_resource
  fx_plan :: string
  fx_started :: "string option"
  fx_ended :: "string option"
  fx_dismissible :: bool
  fx_revision :: string
  fx_location :: string
  fx_up_next :: "fleet_node_resource list"
  fx_nodes :: "fleet_node_resource list"
  fx_locations :: "location_resource list"

text \<open>What the projections need besides the model.\<close>

record projecting =
  pj_digest :: "string \<Rightarrow> string"
  pj_hash :: "string \<Rightarrow> string"
  pj_revision_time :: "nat \<Rightarrow> string"
  pj_time :: "nat \<Rightarrow> string"

definition node_resource_of :: "projecting \<Rightarrow> overview_node \<Rightarrow> fleet_node_resource" where
  "node_resource_of pj n =
     \<lparr>fn_x_id = on_id n, fn_x_label = on_id n, fn_x_prompt = on_prompt n, fn_x_depends_on = on_depends_on n,
      fn_x_status = on_status n, fn_x_location = location_id (pj_digest pj) (on_location n),
      fn_x_execution = map_option (\<lambda>e. \<lparr>nx_workflow = ne_workflow e, nx_run = ne_run e,
        nx_started = timestamp (pj_time pj) (ne_started e), nx_ended = timestamp (pj_time pj) (ne_ended e),
        nx_tokens = ne_tokens e\<rparr>) (on_execution n)\<rparr>"

definition nodes_from :: "projecting \<Rightarrow> overview_node list \<Rightarrow> fleet_node_resource list" where
  "nodes_from pj = map (node_resource_of pj)"

definition thousandths :: "progress \<Rightarrow> nat" where
  "thousandths p = (if pg_total p = 0 then 0 else (2000 * pg_done p + pg_total p) div (2 * pg_total p))"

definition progress_from :: "progress \<Rightarrow> progress_resource" where
  "progress_from p = \<lparr>px_done = pg_done p, px_total = pg_total p, px_thousandths = thousandths p\<rparr>"

definition fleet_from :: "projecting \<Rightarrow> overview_fleet \<Rightarrow> bool \<Rightarrow> fleet_resource \<times> location list" where
  "fleet_from pj f with_nodes =
     (let waiting = up_next (of_nodes f);
          referred = (if with_nodes then of_nodes f else waiting);
          locations = of_location f # map on_location referred
      in (\<lparr>fx_id = of_id f, fx_kind = kind_fleet, fx_label = of_goal f, fx_status = of_status f,
           fx_progress = progress_from (of_progress f), fx_plan = of_plan_id f,
           fx_started = timestamp (pj_time pj) (of_started f), fx_ended = timestamp (pj_time pj) (of_ended f),
           fx_dismissible = True,
           fx_revision = fleet_revision (pj_hash pj) (pj_digest pj) (pj_revision_time pj) f,
           fx_location = location_id (pj_digest pj) (of_location f),
           fx_up_next = nodes_from pj waiting,
           fx_nodes = (if with_nodes then nodes_from pj (of_nodes f) else []),
           fx_locations = (if with_nodes then published_locations (pj_digest pj) locations else [])\<rparr>,
          locations))"

definition fleet_collection :: "projecting \<Rightarrow> int \<Rightarrow> overview_fleet list \<Rightarrow> fleet_resource located_collection" where
  "fleet_collection pj limit fs =
     (let projected = map (\<lambda>f. fleet_from pj f False) fs in
      new_located_collection (map fst projected) limit
        (published_locations (pj_digest pj) (concat (map snd projected))))"

section \<open>Runs and schedules\<close>

record run_resource =
  rx_id :: string
  rx_kind :: string
  rx_type :: string
  rx_label :: string
  rx_status :: work_status
  rx_started :: "string option"
  rx_ended :: "string option"
  rx_iterations :: nat
  rx_tokens :: int
  rx_dismissible :: bool
  rx_revision :: string
  rx_location :: string
  rx_started_by :: string
  rx_instructions :: "instruction_use list"
  rx_locations :: "location_resource list"

definition run_from :: "projecting \<Rightarrow> overview_run \<Rightarrow> bool \<Rightarrow> run_resource" where
  "run_from pj r with_registry =
     \<lparr>rx_id = or_id r, rx_kind = kind_run, rx_type = or_type r, rx_label = or_label r, rx_status = or_status r,
      rx_started = timestamp (pj_time pj) (or_started r), rx_ended = timestamp (pj_time pj) (or_ended r),
      rx_iterations = or_iterations r, rx_tokens = or_tokens r, rx_dismissible = True,
      rx_revision = run_revision (pj_hash pj) (pj_digest pj) (pj_revision_time pj) r,
      rx_location = location_id (pj_digest pj) (or_location r),
      rx_started_by = (if with_registry then or_started_by r else []),
      rx_instructions = (if with_registry then or_instructions r else []),
      rx_locations = (if with_registry then published_locations (pj_digest pj) [or_location r] else [])\<rparr>"

definition run_collection :: "projecting \<Rightarrow> int \<Rightarrow> overview_run list \<Rightarrow> run_resource located_collection" where
  "run_collection pj limit rs =
     new_located_collection (map (\<lambda>r. run_from pj r False) rs) limit
       (published_locations (pj_digest pj) (map or_location rs))"

record schedule_resource =
  cx_id :: string
  cx_kind :: string
  cx_label :: string
  cx_spec :: string
  cx_status :: work_status
  cx_paused :: bool
  cx_running :: int
  cx_last_run :: "string option"
  cx_next_run :: "string option"
  cx_dismissible :: bool
  cx_location :: string

definition schedule_resource_of :: "projecting \<Rightarrow> overview_schedule \<Rightarrow> schedule_resource" where
  "schedule_resource_of pj s =
     \<lparr>cx_id = sd_id s, cx_kind = kind_schedule, cx_label = sd_label s, cx_spec = sd_spec s, cx_status = sd_status s,
      cx_paused = sd_paused s, cx_running = sd_running s, cx_last_run = timestamp (pj_time pj) (sd_last_run s),
      cx_next_run = timestamp (pj_time pj) (sd_next_run s), cx_dismissible = False,
      cx_location = location_id (pj_digest pj) (sd_location s)\<rparr>"

definition schedule_collection :: "projecting \<Rightarrow> int \<Rightarrow> overview_schedule list \<Rightarrow> schedule_resource located_collection" where
  "schedule_collection pj limit ss =
     new_located_collection (map (schedule_resource_of pj) ss) limit
       (published_locations (pj_digest pj) (map sd_location ss))"

record dismissal_resource =
  mx_id :: string
  mx_kind :: string
  mx_item :: string
  mx_at :: "string option"

definition dismissal_from :: "projecting \<Rightarrow> dismissal \<Rightarrow> dismissal_resource" where
  "dismissal_from pj d =
     \<lparr>mx_id = dismissal_id d, mx_kind = ds_kind d, mx_item = ds_item d, mx_at = timestamp (pj_time pj) (ds_at d)\<rparr>"

section \<open>Registered places and started work\<close>

record place_resource =
  qx_location :: string
  qx_at :: "string option"
  qx_by :: string
  qx_locations :: "location_resource list"

definition place_resource_of :: "projecting \<Rightarrow> registered_place \<Rightarrow> bool \<Rightarrow> place_resource" where
  "place_resource_of pj p standalone =
     \<lparr>qx_location = location_id (pj_digest pj) (rd_location p), qx_at = timestamp (pj_time pj) (rd_at p), qx_by = rd_by p,
      qx_locations = (if standalone then published_locations (pj_digest pj) [rd_location p] else [])\<rparr>"

definition place_collection :: "projecting \<Rightarrow> registered_place list \<Rightarrow> place_resource located_collection" where
  "place_collection pj ps =
     new_located_collection (map (\<lambda>p. place_resource_of pj p False) ps) (int (length ps))
       (published_locations (pj_digest pj) (map rd_location ps))"

record started_resource =
  kx_id :: string
  kx_kind :: string
  kx_type :: string
  kx_label :: string
  kx_location :: string
  kx_at :: "string option"
  kx_by :: string
  kx_locations :: "location_resource list"

definition run_type_of :: "string \<Rightarrow> string" where
  "run_type_of kind =
     (if kind = start_develop then ''develop'' else if kind = start_review then ''review'' else ''run'')"

definition started_work_from :: "projecting \<Rightarrow> started_work \<Rightarrow> started_resource" where
  "started_work_from pj s =
     \<lparr>kx_id = sk_run s, kx_kind = kind_run, kx_type = run_type_of (sk_kind s), kx_label = sk_prompt s,
      kx_location = location_id (pj_digest pj) (sk_location s), kx_at = timestamp (pj_time pj) (sk_at s),
      kx_by = sk_by s, kx_locations = published_locations (pj_digest pj) [sk_location s]\<rparr>"

section \<open>Settings and prompts\<close>

record setting_resource =
  zx_key :: string
  zx_purpose :: string
  zx_enabled :: bool
  zx_source :: string
  zx_version :: nat

definition setting_purposes :: "(string \<times> string) list" where
  "setting_purposes = [(key_steering_enabled,
     ''Stop a review round for the operator to steer it, instead of building '' @
     ''on the review'' @ CHR 0x27 # ''s findings straight away.'')]"

definition setting_from :: "setting_value \<Rightarrow> setting_resource" where
  "setting_from v =
     \<lparr>zx_key = sv_key v, zx_purpose = or_empty (map_of setting_purposes (sv_key v)), zx_enabled = sv_enabled v,
      zx_source = scope_kind (sv_scope v), zx_version = sv_version v\<rparr>"

record insert_resource =
  ix_name :: string
  ix_action :: string
  ix_purpose :: string

record prompt_resource =
  wx_key :: string
  wx_purpose :: string
  wx_effective :: string
  wx_inherited :: string
  wx_source :: string
  wx_inherited_from :: string
  wx_version :: nat
  wx_inherited_version :: nat
  wx_overridden :: bool
  wx_model :: string
  wx_inherited_model :: string
  wx_model_source :: string
  wx_inherited_model_source :: string
  wx_model_version :: nat
  wx_inherited_model_version :: nat
  wx_model_overridden :: bool
  wx_system :: string
  wx_required :: "insert_resource list"
  wx_advanced :: bool
  wx_max_length :: nat
  wx_model_max_length :: nat

definition required_inserts :: "instruction_spec \<Rightarrow> insert_resource list" where
  "required_inserts spec =
     map (\<lambda>i. \<lparr>ix_name = in_name i, ix_action = insert_action i, ix_purpose = in_purpose i\<rparr>)
       (filter in_required (is_inserts spec))"

definition prompt_from :: "configured \<Rightarrow> prompt_resource" where
  "prompt_from c =
     \<lparr>wx_key = is_key (cf_spec c), wx_purpose = is_purpose (cf_spec c),
      wx_effective = iv_text (cf_effective c), wx_inherited = iv_text (cf_inherited c),
      wx_source = scope_kind (iv_scope (cf_effective c)), wx_inherited_from = scope_kind (iv_scope (cf_inherited c)),
      wx_version = iv_version (cf_effective c), wx_inherited_version = iv_version (cf_inherited c),
      wx_overridden = cf_overridden c,
      wx_model = mv_text (cf_effective_model c), wx_inherited_model = mv_text (cf_inherited_model c),
      wx_model_source = scope_kind (mv_scope (cf_effective_model c)),
      wx_inherited_model_source = scope_kind (mv_scope (cf_inherited_model c)),
      wx_model_version = mv_version (cf_effective_model c),
      wx_inherited_model_version = mv_version (cf_inherited_model c),
      wx_model_overridden = cf_model_overridden c, wx_system = is_system (cf_spec c),
      wx_required = required_inserts (cf_spec c), wx_advanced = is_advanced (cf_spec c),
      wx_max_length = max_text_length, wx_model_max_length = max_model_length\<rparr>"

section \<open>Every document, and what it refers to\<close>

record principal_resource =
  hx_id :: string
  hx_issuer :: string
  hx_subject :: string
  hx_name :: string
  hx_email :: string

datatype document =
    ActiveWorkDoc active_collection
  | FleetsDoc "fleet_resource located_collection"
  | FleetDoc fleet_resource
  | RunsDoc "run_resource located_collection"
  | RunDoc run_resource
  | SchedulesDoc "schedule_resource located_collection"
  | DismissalsDoc "dismissal_resource collection"
  | DismissalDoc dismissal_resource
  | PlacesDoc "place_resource located_collection"
  | PlaceDoc place_resource
  | StartedDoc started_resource
  | DirectoryDoc string
  | SettingsDoc "setting_resource collection"
  | PromptsDoc "prompt_resource collection"
  | SessionDoc principal_resource
  | HealthDoc string string "(string \<times> string) list"
  | DescriptionDoc string

definition fleet_references :: "fleet_resource \<Rightarrow> string list" where
  "fleet_references f = fx_location f # map fn_x_location (fx_up_next f @ fx_nodes f)"

fun references :: "document \<Rightarrow> string list" where
  "references (ActiveWorkDoc c) = map ax_location (ac_items c)"
| "references (FleetsDoc c) = concat (map fleet_references (lc_items c))"
| "references (FleetDoc f) = fleet_references f"
| "references (RunsDoc c) = map rx_location (lc_items c)"
| "references (RunDoc r) = [rx_location r]"
| "references (SchedulesDoc c) = map cx_location (lc_items c)"
| "references (PlacesDoc c) = map qx_location (lc_items c)"
| "references (PlaceDoc p) = [qx_location p]"
| "references (StartedDoc s) = [kx_location s]"
| "references _ = []"

text \<open>The registry of a document, if it has one.\<close>

fun registry_in :: "document \<Rightarrow> location_resource list option" where
  "registry_in (ActiveWorkDoc c) = Some (ac_locations c)"
| "registry_in (FleetsDoc c) = Some (lc_locations c)"
| "registry_in (FleetDoc f) = Some (fx_locations f)"
| "registry_in (RunsDoc c) = Some (lc_locations c)"
| "registry_in (RunDoc r) = Some (rx_locations r)"
| "registry_in (SchedulesDoc c) = Some (lc_locations c)"
| "registry_in (PlacesDoc c) = Some (lc_locations c)"
| "registry_in (PlaceDoc p) = Some (qx_locations p)"
| "registry_in (StartedDoc s) = Some (kx_locations s)"
| "registry_in _ = None"

text \<open>A registry a client draws in one pass: no identity twice, each parent before its children.\<close>

definition drawable :: "location_resource list \<Rightarrow> bool" where
  "drawable ls =
     (let ids = map lx_id ls in
      distinct ids \<and> unknown_location_id \<in> set ids \<and>
      (\<forall>j < length ls. \<forall>p. lx_parent (ls ! j) = Some p \<longrightarrow> (\<exists>i < j. ids ! i = p)))"

definition self_contained :: "document \<Rightarrow> bool" where
  "self_contained d =
     (case registry_in d of
        None \<Rightarrow> references d = []
      | Some ls \<Rightarrow> drawable ls \<and> set (references d) \<subseteq> lx_id ` set ls)"

lemma lx_simps [simp]:
  "lx_id (location_resource_of digest l) = location_id digest l"
  "lx_parent (location_resource_of digest l) = map_option (location_id digest) (place_parent l)"
  by (simp_all add: location_resource_of_def)

lemma published_ok:
  "drawable (published_locations digest ls) \<and> location_id digest ` set ls \<subseteq> lx_id ` set (published_locations digest ls)"
proof -
  obtain g where g: "new_location_registry digest ls = Some g" "registry_ok digest g"
      "\<forall>l \<in> set (considered ls). registry_contains g (location_id digest l)"
    using new_registry_ok [of digest ls] by blast
  let ?ids = "map (location_id digest) (lr_locations g)"
  have p: "published_locations digest ls = map (location_resource_of digest) (lr_locations g)"
    by (simp add: published_locations_def g(1) locations_from_def)
  have ids: "map lx_id (published_locations digest ls) = ?ids" by (simp add: p)
  have d: "distinct ?ids" and u: "unknown_location_id \<in> set ?ids"
    and par: "\<And>j q. j < length ?ids \<Longrightarrow> place_parent (lr_locations g ! j) = Some q \<Longrightarrow> \<exists>i < j. ?ids ! i = location_id digest q"
    using g(2) unfolding registry_ok_def Let_def by blast+
  have "\<exists>i < j. ?ids ! i = q"
    if j: "j < length (published_locations digest ls)" and q: "lx_parent (published_locations digest ls ! j) = Some q" for j q
  proof -
    have len: "j < length (lr_locations g)" using j p by simp
    then have "map_option (location_id digest) (place_parent (lr_locations g ! j)) = Some q" using q p by simp
    then obtain q' where "place_parent (lr_locations g ! j) = Some q'" "location_id digest q' = q" by blast
    with par [of j q'] len show ?thesis by simp
  qed
  with d u have "drawable (published_locations digest ls)"
    unfolding drawable_def Let_def ids by blast
  moreover have "location_id digest l \<in> lx_id ` set (published_locations digest ls)" if "l \<in> set ls" for l
  proof -
    have idx: "\<forall>nid k. lr_index g nid = Some k \<longleftrightarrow> k < length ?ids \<and> ?ids ! k = nid"
      using g(2) unfolding registry_ok_def Let_def by (rule conjE) simp
    from g(3) considered_refl [OF that] obtain k where "lr_index g (location_id digest l) = Some k"
      by (auto simp: registry_contains_def)
    then have "k < length ?ids" "?ids ! k = location_id digest l" using idx by simp_all
    then have "location_id digest l \<in> set ?ids" using nth_mem [of k ?ids] by simp
    then show ?thesis unfolding ids [symmetric] by simp
  qed
  ultimately show ?thesis by blast
qed

lemma published_drawable [simp]: "drawable (published_locations digest ls)"
  using published_ok by blast

lemma published_refers:
  "l \<in> set ls \<Longrightarrow> location_id digest l \<in> lx_id ` set (published_locations digest ls)"
  using published_ok by blast

lemma up_next_nodes: "n \<in> set (up_next nodes) \<Longrightarrow> n \<in> set nodes"
  by (auto simp: up_next_def)

lemma fleet_refers:
  "set (fleet_references (fst (fleet_from pj f b))) \<subseteq> location_id (pj_digest pj) ` set (snd (fleet_from pj f b))"
  by (auto simp: fleet_references_def fleet_from_def nodes_from_def node_resource_of_def Let_def dest: up_next_nodes)

text \<open>Each kind of document the handlers build.\<close>

named_theorems contained \<open>the documents the handlers build are self-contained\<close>

lemma contained_fleets [contained]: "self_contained (FleetsDoc (fleet_collection pj limit fs))"
proof -
  have "set (fleet_references (fst (fleet_from pj f False))) \<subseteq>
      lx_id ` set (published_locations (pj_digest pj) (concat (map (\<lambda>f. snd (fleet_from pj f False)) fs)))"
    if "f \<in> set fs" for f
    using fleet_refers [of pj f False] that by (fastforce intro!: published_refers)
  then show ?thesis
    by (simp add: self_contained_def fleet_collection_def new_located_collection_def Let_def comp_def UN_subset_iff)
qed

lemma contained_fleet [contained]: "self_contained (FleetDoc (fst (fleet_from pj f True)))"
proof -
  have "fx_locations (fst (fleet_from pj f True)) = published_locations (pj_digest pj) (snd (fleet_from pj f True))"
    by (simp add: fleet_from_def Let_def)
  then show ?thesis
    using fleet_refers [of pj f True] by (fastforce simp: self_contained_def intro!: published_refers)
qed

lemma contained_runs [contained]: "self_contained (RunsDoc (run_collection pj limit rs))"
  by (auto simp: self_contained_def run_collection_def new_located_collection_def run_from_def intro!: published_refers)

lemma contained_run [contained]: "self_contained (RunDoc (run_from pj r True))"
  by (simp add: self_contained_def run_from_def published_refers)

lemma contained_schedules [contained]: "self_contained (SchedulesDoc (schedule_collection pj limit ss))"
  by (auto simp: self_contained_def schedule_collection_def new_located_collection_def schedule_resource_of_def
      intro!: published_refers)

lemma contained_places [contained]: "self_contained (PlacesDoc (place_collection pj ps))"
  by (auto simp: self_contained_def place_collection_def new_located_collection_def place_resource_of_def
      intro!: published_refers)

lemma contained_place [contained]: "self_contained (PlaceDoc (place_resource_of pj p True))"
  by (simp add: self_contained_def place_resource_of_def published_refers)

lemma contained_started [contained]: "self_contained (StartedDoc (started_work_from pj s))"
  by (simp add: self_contained_def started_work_from_def published_refers)

lemma contained_active [contained]:
  "self_contained (ActiveWorkDoc (new_active_collection (map (active_from digest) items) limit following
     (published_locations digest (map ai_location items))))"
  by (auto simp: self_contained_def new_active_collection_def active_from_def intro!: published_refers)

lemma contained_plain [contained]:
  "self_contained (DismissalsDoc c)" "self_contained (DismissalDoc m)" "self_contained (DirectoryDoc t)"
  "self_contained (SettingsDoc sc)" "self_contained (PromptsDoc pc)" "self_contained (SessionDoc q)"
  "self_contained (HealthDoc st v cs)" "self_contained (DescriptionDoc t)"
  by (simp_all add: self_contained_def)

section \<open>Progress\<close>

lemma thousandths_bound: "pg_done p \<le> pg_total p \<Longrightarrow> thousandths p \<le> 1000"
proof -
  assume le: "pg_done p \<le> pg_total p"
  show ?thesis
  proof (cases "pg_total p = 0")
    case False
    have "(2000 * pg_done p + pg_total p) div (2 * pg_total p) < 1001"
      using le False by (simp add: div_less_iff_less_mult)
    then show ?thesis by (simp add: thousandths_def)
  qed (simp add: thousandths_def)
qed

end
