(* ===== verification/Prompt_Config.thy ===== *)
theory Prompt_Config
  imports Http_Documents
begin

text \<open>
  Editing the governed instructions for the installation or for one place
  (\<open>promptconfig/service.go\<close>), with the adapter that finds the place among the hub's known ones
  (\<open>promptconfig/hubplaces/hubplaces.go\<close>).

  The state is the hub's tables and the configuration's; an operation reads the first to find out
  which scope is meant and then makes one call on the second, whose fault the environment chooses.
\<close>

section \<open>The service\<close>

datatype prompt_cause = CauseHub hub_error | CauseInstruction instruction_error | CauseWiring string

datatype prompt_error =
    NoPromptPlace string
  | PromptsUnavailable prompt_cause
  | PromptRefused instruction_error

text \<open>What is wired: the service's configuration and its store, its places, and the registry behind them.\<close>

record prompt_env =
  pv_configured :: bool
  pv_store :: bool
  pv_places :: bool
  pv_registry :: bool
  pv_hub :: hub_env
  pv_engine :: template_engine
  pv_hash :: "string \<Rightarrow> string"
  pv_fault :: "hub_ev list \<Rightarrow> string option"

type_synonym prompt_state = "hub_db \<times> scoped_db"
type_synonym 'a prompt_body = "(hub_ev, prompt_state, prompt_error, 'a) body"

datatype lookup_fault = LookupMissing string | LookupFailed prompt_cause

definition find_place :: "prompt_env \<Rightarrow> string \<Rightarrow> (hub_ev, hub_db, lookup_fault, string \<times> string) body" where
  "find_place env pid =
     (if \<not> pv_registry env then vfail (LookupFailed (CauseWiring ''known place lookup is not configured''))
      else vthen (vmap_error (\<lambda>e. LookupFailed (CauseHub e)) (known_places (pv_hub env))) (\<lambda>ps.
        case find (\<lambda>p. location_id (hv_digest (pv_hub env)) (rd_location p) = pid) ps of
          None \<Rightarrow> vfail (LookupMissing pid)
        | Some p \<Rightarrow> (case place_directory (rd_location p) of
            None \<Rightarrow> vfail (LookupMissing pid)
          | Some d \<Rightarrow> vret (d, case place_parent (rd_location p) of None \<Rightarrow> [] | Some q \<Rightarrow> or_empty (place_directory q)))))"

definition prompt_target :: "prompt_env \<Rightarrow> string \<Rightarrow> (hub_ev, hub_db, prompt_error, target) body" where
  "prompt_target env pid =
     (if \<not> pv_configured env then vfail (PromptsUnavailable (CauseWiring ''instruction configuration is not configured''))
      else if pid = [] then vret global_target
      else if \<not> pv_places env then vfail (PromptsUnavailable (CauseWiring ''place lookup is not configured''))
      else vthen (vmap_error (\<lambda>e. case e of LookupMissing p \<Rightarrow> NoPromptPlace p | LookupFailed c \<Rightarrow> PromptsUnavailable c)
             (find_place env pid)) (\<lambda>(directory, repository).
        if directory = [] then vfail (NoPromptPlace pid) else vret (place_target directory repository)))"

definition on_hub :: "(hub_ev, hub_db, 'e, 'a) body \<Rightarrow> (hub_ev, prompt_state, 'e, 'a) body" where
  "on_hub m st l = (case m (fst st) l of (r, h, l') \<Rightarrow> (r, (h, snd st), l'))"

definition on_config :: "prompt_env \<Rightarrow> (string option \<Rightarrow> scoped_db \<Rightarrow> ('e + 'a) \<times> scoped_db) \<Rightarrow> (hub_ev, prompt_state, 'e, 'a) body" where
  "on_config env f st l = (case f (pv_fault env l) (snd st) of (r, c) \<Rightarrow> (r, (fst st, c), l))"

fun invalid_text :: "instruction_error \<Rightarrow> bool" where
  "invalid_text (InvalidModelText k) = True"
| "invalid_text (ModelNotOnePattern k) = True"
| "invalid_text (ModelWhitespace k) = True"
| "invalid_text (EmptyInstruction k) = True"
| "invalid_text (InstructionNotText k) = True"
| "invalid_text (InstructionTooLong k n) = True"
| "invalid_text (NotATemplate k e) = True"
| "invalid_text (NotRenderable k e) = True"
| "invalid_text (MissingInsert k i) = True"
| "invalid_text (SystemInsert k i) = True"
| "invalid_text _ = False"

fun unknown_key :: "instruction_error \<Rightarrow> bool" where
  "unknown_key (UnknownInstruction k) = True"
| "unknown_key _ = False"

text \<open>Everything but a refusal is passed on as unavailable, its cause as text.\<close>

definition refused_save :: "instruction_error \<Rightarrow> prompt_error" where
  "refused_save e = (if invalid_text e \<or> unknown_key e then PromptRefused e else PromptsUnavailable (CauseInstruction e))"

definition refused_reset :: "instruction_error \<Rightarrow> prompt_error" where
  "refused_reset e = (if unknown_key e then PromptRefused e else PromptsUnavailable (CauseInstruction e))"

definition prompt_catalogue :: "prompt_env \<Rightarrow> string \<Rightarrow> configured list prompt_body" where
  "prompt_catalogue env pid =
     vthen (on_hub (prompt_target env pid)) (\<lambda>t.
       vmap_error (\<lambda>e. PromptsUnavailable (CauseInstruction e))
         (on_config env (\<lambda>fault c. (config_catalogue (pv_store env) (pv_hash env) fault t c, c))))"

definition set_prompt :: "prompt_env \<Rightarrow> string \<Rightarrow> string \<Rightarrow> string \<Rightarrow> string \<Rightarrow> scoped_record prompt_body" where
  "set_prompt env pid key txt by' =
     vthen (on_hub (prompt_target env pid)) (\<lambda>t.
       vmap_error refused_save (on_config env (\<lambda>fault. config_set (pv_store env) (pv_engine env) (pv_hash env) fault t key txt by')))"

definition set_prompt_model :: "prompt_env \<Rightarrow> string \<Rightarrow> string \<Rightarrow> string \<Rightarrow> string \<Rightarrow> scoped_record prompt_body" where
  "set_prompt_model env pid key model by' =
     vthen (on_hub (prompt_target env pid)) (\<lambda>t.
       vmap_error refused_save (on_config env (\<lambda>fault. config_set_model (pv_store env) (pv_hash env) fault t key model by')))"

definition reset_prompt :: "prompt_env \<Rightarrow> string \<Rightarrow> string \<Rightarrow> unit prompt_body" where
  "reset_prompt env pid key =
     vthen (on_hub (prompt_target env pid)) (\<lambda>t.
       vmap_error refused_reset (on_config env (\<lambda>fault. config_reset (pv_store env) fault t key)))"

definition reset_prompt_model :: "prompt_env \<Rightarrow> string \<Rightarrow> string \<Rightarrow> unit prompt_body" where
  "reset_prompt_model env pid key =
     vthen (on_hub (prompt_target env pid)) (\<lambda>t.
       vmap_error refused_reset (on_config env (\<lambda>fault. config_reset_model (pv_store env) fault t key)))"

section \<open>What an operation may touch\<close>

lemma vreads_map_error [intro!]:
  assumes "vreads m"
  shows "vreads (vmap_error g m)"
  unfolding vreads_def
proof (intro allI)
  fix db l
  obtain r db' l' where m: "m db l = (r, db', l')" by (metis prod_cases3)
  from vreadsE [OF assms m] obtain d where "db' = db" "l' = l @ d" "list_all read_event d" .
  then show "\<exists>d. snd (vmap_error g m db l) = (db, l @ d) \<and> list_all read_event d"
    using m by (cases r) (simp_all add: vmap_error_def)
qed

lemma vreads_known_places [intro!]: "vreads (known_places env)"
  unfolding known_places_def Let_def by auto

lemma vreads_find_place [intro!]: "vreads (find_place env pid)"
  unfolding find_place_def by (auto split: option.split)

lemma vreads_prompt_target [intro!]: "vreads (prompt_target env pid)"
  unfolding prompt_target_def by auto

text \<open>The scope an operation is about: the installation, or the directory of a known place.\<close>

definition scope_of_place :: "prompt_env \<Rightarrow> hub_db \<Rightarrow> hub_ev list \<Rightarrow> string \<Rightarrow> target \<Rightarrow> bool" where
  "scope_of_place env h l pid t =
     (if pid = [] then t = global_target
      else \<exists>ps p d repository. fst (known_places (pv_hub env) h l) = Inr ps \<and> p \<in> set ps \<and>
        location_id (hv_digest (pv_hub env)) (rd_location p) = pid \<and> place_directory (rd_location p) = Some d \<and> d \<noteq> [] \<and>
        t = place_target d repository)"

lemma scope_of_place_operator: "scope_of_place env h l pid t \<Longrightarrow> operator_target t"
  by (auto simp: scope_of_place_def operator_target_def split: if_splits)

lemma target_of:
  assumes "prompt_target env pid h l = (Inr t, h', l')"
  shows "h' = h" "scope_of_place env h l pid t"
proof -
  from vreadsE [OF vreads_prompt_target assms] show "h' = h" by blast
  show "scope_of_place env h l pid t"
  proof (cases "pid = []")
    case True
    with assms show ?thesis by (auto simp: prompt_target_def scope_of_place_def vret_def vfail_def split: if_splits)
  next
    case False
    with assms obtain d rep where f: "find_place env pid h l = (Inr (d, rep), h', l')" "d \<noteq> []" "t = place_target d rep"
      by (auto simp: prompt_target_def vthen_def vmap_error_def vret_def vfail_def split: if_splits prod.splits sum.splits)
    then obtain ps p where "fst (known_places (pv_hub env) h l) = Inr ps"
        "find (\<lambda>p. location_id (hv_digest (pv_hub env)) (rd_location p) = pid) ps = Some p"
        "place_directory (rd_location p) = Some d"
      by (auto simp: find_place_def vthen_def vmap_error_def vret_def vfail_def split: if_splits prod.splits sum.splits option.splits)
    moreover from this(2) have "p \<in> set ps" "location_id (hv_digest (pv_hub env)) (rd_location p) = pid"
      by (auto simp: find_Some_iff)
    ultimately show ?thesis using f False unfolding scope_of_place_def by auto
  qed
qed

lemma prompt_run:
  "vthen (on_hub (prompt_target env pid)) (\<lambda>t. vmap_error g (on_config env (f t))) (h, c) l =
   (case prompt_target env pid h l of
      (Inl e, h', l') \<Rightarrow> (Inl e, (h', c), l')
    | (Inr t, h', l') \<Rightarrow> (case f t (pv_fault env l') c of
        (Inl x, c') \<Rightarrow> (Inl (g x), (h', c'), l')
      | (Inr y, c') \<Rightarrow> (Inr y, (h', c'), l')))"
  by (auto simp: vthen_def on_hub_def vmap_error_def on_config_def split: prod.split sum.split)

section \<open>Properties\<close>

text \<open>C30: Saving an instruction for a place saves it for exactly the directory of the known place it named, or
  for the installation when it named none: the catalogue of that target then has the text, as an
  override, no other scope points anywhere else than before, and the hub's own tables are untouched.\<close>

theorem prompt_is_saved_where_named:
  assumes "db_inv c" and "pv_store env" and "set_prompt env pid key txt by' (h, c) l = (Inr r, (h', c'), l')"
  shows "h' = h \<and> (\<exists>t. scope_of_place env h l pid t \<and>
    (\<exists>items i. config_catalogue True (pv_hash env) None t c' = Inr items \<and> catalogue_value items key = Some i \<and>
       iv_text (cf_effective i) = txt \<and> cf_overridden i) \<and>
    (\<forall>k s. s \<noteq> tg_scope t \<longrightarrow> pg_point c' k s = pg_point c k s))"
proof -
  from assms(3) obtain t where t: "prompt_target env pid h l = (Inr t, h', l')"
      and s: "config_set (pv_store env) (pv_engine env) (pv_hash env) (pv_fault env l') t key txt by' c = (Inr r, c')"
    unfolding set_prompt_def prompt_run by (auto split: prod.splits sum.splits)
  note tg = target_of [OF t]
  from config_set_ok [OF s] obtain spec where sp: "validate_target t = Inr ()" "instruction_spec_for key = Some spec"
      and st: "pg_set (pv_hash env) (pv_fault env l') key (tg_scope t) txt by' c = (Inr r, c')" by blast
  obtain ss where sc: "tg_scopes t = tg_scope t # ss"
    using operator_target_shape [OF scope_of_place_operator [OF tg(2)]] by metis
  have key: "is_key spec = key" "key \<in> set catalogue_keys"
    using spec_for_in [OF sp(2)] spec_key_in_catalogue by auto
  have put: "sr_text r = txt" "record_for key (tg_scope t) r"
    using pg.put_ok [OF assms(1) st] pg.point_for [of c' key "tg_scope t" r] by auto
  have w: "winner (pg_current c' catalogue_keys (tg_scopes t)) key (tg_scopes t) = Some r"
    unfolding sc(1) by (rule pg.winner_after_put [OF assms(1) st key(2)])
  obtain items where items: "config_catalogue True (pv_hash env) None t c' = Inr items"
      "catalogue_value items key = Some (configured_item (pv_hash env) t (pg_current c' catalogue_keys (tg_scopes t)) spec)"
    using config_catalogue_value [OF sp] by blast
  have i: "iv_text (cf_effective (configured_item (pv_hash env) t (pg_current c' catalogue_keys (tg_scopes t)) spec)) = txt \<and>
      cf_overridden (configured_item (pv_hash env) t (pg_current c' catalogue_keys (tg_scopes t)) spec)"
    using put w by (auto simp: configured_item_def instruction_resolve_one_def Let_def key(1) record_for_def)
  have "pg_point c' k s' = pg_point c k s'" if "s' \<noteq> tg_scope t" for k s'
    using set_elsewhere [OF assms(1), of "tg_scope t" s' "pv_hash env" "pv_fault env l'" key "txt" by' k] st that by simp
  with tg items i show ?thesis by blast
qed

text \<open>A request that names a place the hub does not know changes nothing, whatever it asks.\<close>

theorem unknown_place_changes_no_prompt:
  assumes "fst (known_places (pv_hub env) h l) = Inr ps"
    and "\<forall>p \<in> set ps. location_id (hv_digest (pv_hub env)) (rd_location p) \<noteq> pid" and "pid \<noteq> []"
  shows "\<exists>e. fst (set_prompt env pid key txt by' (h, c) l) = Inl e \<and>
    fst (snd (set_prompt env pid key txt by' (h, c) l)) = (h, c) \<and>
    fst (snd (set_prompt_model env pid key txt by' (h, c) l)) = (h, c) \<and>
    fst (snd (reset_prompt env pid key (h, c) l)) = (h, c) \<and>
    fst (snd (reset_prompt_model env pid key (h, c) l)) = (h, c)"
proof -
  have "\<not> scope_of_place env h l pid t" for t
    using assms by (auto simp: scope_of_place_def)
  moreover obtain r h' l' where run: "prompt_target env pid h l = (r, h', l')" by (metis prod_cases3)
  ultimately obtain e where "r = Inl e"
    using target_of(2) [of env pid h l _ h' l'] by (cases r) blast+
  moreover have "h' = h" using vreadsE [OF vreads_prompt_target run] by blast
  ultimately show ?thesis using run
    unfolding set_prompt_def set_prompt_model_def reset_prompt_def reset_prompt_model_def prompt_run by simp
qed

section \<open>Saving for the installation\<close>

definition demo_prompts :: prompt_env where
  "demo_prompts = \<lparr>pv_configured = True, pv_store = True, pv_places = True, pv_registry = True, pv_hub = sample_env [],
     pv_engine = field_engine, pv_hash = (\<lambda>t. t), pv_fault = (\<lambda>_. None)\<rparr>"

lemma demo_text_valid:
  "rbind (config_guard True global_target key_review_perform) (\<lambda>spec. validate_instruction field_engine spec ''Look.'') = Inr ()"
  by code_simp

theorem prompt_is_saved_where_named_witness:
  "\<exists>r c' l' items i. set_prompt demo_prompts [] key_review_perform ''Look.'' ''ann'' (sample_hub, empty_db) [] = (Inr r, (sample_hub, c'), l') \<and>
     config_catalogue True (\<lambda>t. t) None global_target c' = Inr items \<and>
     catalogue_value items key_review_perform = Some i \<and> iv_text (cf_effective i) = ''Look.''"
proof -
  have target: "prompt_target demo_prompts [] sample_hub [] = (Inr global_target, sample_hub, [])"
    by (simp add: prompt_target_def demo_prompts_def vret_def)
  have "\<exists>r c' l'. set_prompt demo_prompts [] key_review_perform ''Look.'' ''ann'' (sample_hub, empty_db) [] = (Inr r, (sample_hub, c'), l')"
    unfolding set_prompt_def prompt_run target
    using demo_text_valid by (simp add: demo_prompts_def config_set_def pg_set_def append_and_point_def store_result_def Let_def)
  then obtain r c' l' where run: "set_prompt demo_prompts [] key_review_perform ''Look.'' ''ann'' (sample_hub, empty_db) [] = (Inr r, (sample_hub, c'), l')"
    by blast
  have "pv_store demo_prompts" by (simp add: demo_prompts_def)
  from prompt_is_saved_where_named [OF empty_db_inv this run] run show ?thesis
    by (auto simp: scope_of_place_def demo_prompts_def)
qed

end
