(* ===== verification/Http_Resources.thy ===== *)
theory Http_Resources
  imports Http_Server Prompt_Config Steering_Service
begin

text \<open>
  The API's resources: routing and the handlers (\<open>httpapi/httpapi.go\<close>, the handlers of
  \<open>auth.go\<close>, \<open>steering.go\<close>, \<open>notifications.go\<close>, \<open>spec.go\<close>), what they write and read over the wire
  (\<open>middleware.go\<close>) and how failures of the core become problem documents.

  A handler acts on the tables of the hub, of identity, of the configuration and of steering, through
  the services modelled before, and on a log of everything else it asks.  Parameters are what
  is outside the program or stands for bytes: the JSON encoder and decoders, the entity tag's hash,
  the media type and base64 parsers, the wording of an error, the notification inbox, the native
  folder picker, the multiplexer's redirect of a path that is not clean.  Of the event streams and
  the files of the application bundle only the status and the headers appear, as parameters; their
  bytes are not modelled.
\<close>

section \<open>The world of a request\<close>

record inbox_item =
  nt_id :: string
  nt_kind :: string
  nt_title :: string
  nt_body :: string
  nt_url :: string
  nt_session :: string
  nt_at :: nat
  nt_read :: bool

datatype web_ev =
    WbAttempt bool
  | WbPick "string + string option"
  | WbCheck string bool
  | WbConfig "string option"
  | WbSteering "string option"
  | WbInboxList string int "string + inbox_item list"
  | WbInboxUnread string "string + nat"
  | WbInboxRead string string "string option"
  | WbInboxReadAll string "string option"
  | WbInboxClear string "string option"
  | WbStream string

record web =
  wb_hub :: hub_db
  wb_hub_log :: "hub_ev list"
  wb_id :: id_db
  wb_id_log :: "id_ev list"
  wb_config :: scoped_db
  wb_steering :: svc
  wb_log :: "web_ev list"

text \<open>What the strict decoder makes of a body of at most so many bytes.\<close>

datatype 'a decoded = BodyOf 'a | BodyTrailing | BodyTooLarge | BodyMalformed string

record dismissal_body =
  zd_kind :: string
  zd_item :: string
  zd_revision :: string

record start_body =
  zs_request :: string
  zs_kind :: string
  zs_place :: string
  zs_prompt :: string
  zs_worktree :: bool

record decision_body =
  zv_choice :: string
  zv_guidance :: string

record question_body =
  zq_text :: string
  zq_finish :: bool

record session_resource =
  yx_id :: string
  yx_item :: string
  yx_round :: string
  yx_state :: string
  yx_since :: "string option"
  yx_location :: string
  yx_material :: string
  yx_guidance :: string
  yx_decision :: string
  yx_decided_at :: "string option"
  yx_decided_by :: string
  yx_tokens :: int
  yx_contributors :: "string list"
  yx_messages :: "message list"
  yx_locations :: "location_resource list"

record notification_collection =
  nc_items :: "inbox_item list"
  nc_count :: nat
  nc_limit :: int
  nc_unread :: nat

text \<open>The documents of every resource.  A message and an inbox item are published field by field.\<close>

datatype api_document =
    Published document
  | SessionsDoc "session_resource located_collection"
  | SteeringDoc session_resource
  | NotificationsDoc notification_collection

record web_codec =
  co_encode :: "api_document \<Rightarrow> string option"
  co_digest :: "string \<Rightarrow> string"
  co_media_type :: "string \<Rightarrow> string option"
  co_cursor :: "string \<Rightarrow> string option"
  co_cursor_text :: "string \<Rightarrow> string"
  co_query_text :: "(string \<times> string) list \<Rightarrow> string"
  co_dismissal :: "nat \<Rightarrow> string \<Rightarrow> dismissal_body decoded"
  co_start :: "nat \<Rightarrow> string \<Rightarrow> start_body decoded"
  co_place :: "nat \<Rightarrow> string \<Rightarrow> string decoded"
  co_prompt :: "nat \<Rightarrow> string \<Rightarrow> string decoded"
  co_model :: "nat \<Rightarrow> string \<Rightarrow> string decoded"
  co_decision :: "nat \<Rightarrow> string \<Rightarrow> decision_body decoded"
  co_question :: "nat \<Rightarrow> string \<Rightarrow> question_body decoded"

text \<open>Which of the optional parts a deployment has.\<close>

record web_parts =
  wp_start :: bool
  wp_places :: bool
  wp_picker :: bool
  wp_settings :: bool
  wp_prompts :: bool
  wp_notifications :: bool
  wp_steering :: bool
  wp_sign_in :: bool

record inbox_port =
  ix_list :: "string \<Rightarrow> int \<Rightarrow> web_ev list \<Rightarrow> string + inbox_item list"
  ix_unread :: "string \<Rightarrow> web_ev list \<Rightarrow> string + nat"
  ix_mark_read :: "string \<Rightarrow> string \<Rightarrow> web_ev list \<Rightarrow> string option"
  ix_mark_all :: "string \<Rightarrow> web_ev list \<Rightarrow> string option"
  ix_clear :: "string \<Rightarrow> web_ev list \<Rightarrow> string option"

record web_env =
  we_hub :: hub_env
  we_id :: id_env
  we_service :: id_service
  we_prompts :: prompt_env
  we_questioner :: "(string \<Rightarrow> nat \<Rightarrow> bool \<Rightarrow> steering_db \<Rightarrow> string option \<times> steering_db) option"
  we_inbox :: inbox_port
  we_codec :: web_codec
  we_parts :: web_parts
  we_time :: "nat \<Rightarrow> string"
  we_now :: "web_ev list \<Rightarrow> nat"
  we_fault :: "web_ev list \<Rightarrow> string option"
  we_deadline :: "string \<Rightarrow> bool"
  we_wording :: "hub_error \<Rightarrow> string"
  we_text_wording :: "instruction_error \<Rightarrow> string"
  we_decision_wording :: "steering_error \<Rightarrow> string"
  we_attempt :: "web_ev list \<Rightarrow> bool"
  we_pick :: "web_ev list \<Rightarrow> string + string option"
  we_checks :: "(string \<times> (web_ev list \<Rightarrow> bool)) list"
  we_max_body :: nat
  we_moved :: "http_request \<Rightarrow> string option"
  we_static :: "string \<Rightarrow> string"
  we_schema :: "string \<Rightarrow> string option"
  we_stream :: "string \<Rightarrow> http_request \<Rightarrow> http_context \<Rightarrow> headers \<Rightarrow> web_ev list \<Rightarrow> nat \<times> headers"
  we_assets :: "(http_request \<Rightarrow> headers \<Rightarrow> nat \<times> headers) option"

type_synonym web_handler = "(api_document, web) handler"

definition told :: "web_ev \<Rightarrow> web \<Rightarrow> web" where
  "told e w = w\<lparr>wb_log := wb_log w @ [e]\<rparr>"

definition projected :: "web_env \<Rightarrow> projecting" where
  "projected env = \<lparr>pj_digest = hv_digest (we_hub env), pj_hash = hv_hash (we_hub env),
     pj_revision_time = hv_stamp (we_hub env), pj_time = we_time env\<rparr>"

section \<open>Writing\<close>

definition schema_uri :: "http_server \<Rightarrow> string \<Rightarrow> string" where
  "schema_uri sv model = hs_base sv @ ''/schemas/'' @ model"

definition entity_tag :: "web_env \<Rightarrow> string \<Rightarrow> string" where
  "entity_tag env body = dq @ co_digest (we_codec env) body @ dq"

definition matches_entity_tag :: "string \<Rightarrow> string \<Rightarrow> bool" where
  "matches_entity_tag header tag =
     (header \<noteq> [] \<and>
      list_ex (\<lambda>c. let t = trim_space c in t = ''*'' \<or> t = tag \<or> trim_prefix ''W/'' t = tag) (split_at (CHR '','') header))"

definition described_by :: "http_server \<Rightarrow> string \<Rightarrow> string" where
  "described_by sv model = ''<'' @ schema_uri sv model @ ''>; rel='' @ dq @ ''describedby'' @ dq @ ''; type='' @ dq @ ''application/schema+json'' @ dq"

definition write_json :: "http_server \<Rightarrow> web_env \<Rightarrow> nat \<Rightarrow> string \<Rightarrow> api_document \<Rightarrow> web_handler" where
  "write_json sv env status model d r cx h w =
     (case co_encode (we_codec env) d of
        None \<Rightarrow> write_problem sv InternalError [] r cx h w
      | Some body \<Rightarrow>
          let tag = entity_tag env body;
              h1 = set_header ''Content-Type'' ''application/json; charset=utf-8'' h;
              h2 = (if model = [] then h1 else add_header ''Link'' (described_by sv model) h1);
              h3 = set_header ''Cache-Control'' ''no-cache'' (set_header ''ETag'' tag h2)
          in if hr_method r = ''GET'' \<and> matches_entity_tag (hr_if_none_match r) tag then Http_Server.answered 304 h3 NoBody w
             else Http_Server.answered status h3 (if hr_method r = ''HEAD'' then NoBody else Document d) w)"

definition write_static :: "web_env \<Rightarrow> string \<Rightarrow> string \<Rightarrow> web_handler" where
  "write_static env media body r cx h w =
     (let tag = entity_tag env body;
          h' = set_header ''Cache-Control'' ''public, max-age=300'' (set_header ''ETag'' tag (set_header ''Content-Type'' media h))
      in if matches_entity_tag (hr_if_none_match r) tag then Http_Server.answered 304 h' NoBody w
         else Http_Server.answered 200 h' (if hr_method r = ''HEAD'' then NoBody else Document (Published (DescriptionDoc body))) w)"

definition no_content :: web_handler where
  "no_content r cx h w = Http_Server.answered 204 h NoBody w"

text \<open>\<open>http.Redirect\<close>.\<close>

definition hex_escape :: "string \<Rightarrow> string" where
  "hex_escape s = concat (map (\<lambda>c. if byte_in 128 255 c then [CHR ''%'', hex_digit (of_char c div 16), hex_digit (of_char c mod 16)] else [c]) s)"

definition cleaned_path :: "string \<Rightarrow> string" where
  "cleaned_path p =
     (let c = path_clean p in if has_suffix p ''/'' \<and> \<not> has_suffix c ''/'' then c @ ''/'' else c)"

definition redirect_location :: "url_parser \<Rightarrow> http_request \<Rightarrow> string \<Rightarrow> string" where
  "redirect_location parse r url =
     (case parse url of
        None \<Rightarrow> hex_escape url
      | Some u \<Rightarrow>
          if pu_scheme u \<noteq> [] \<or> pu_host u \<noteq> [] then hex_escape url
          else let old = (if hr_path r = [] then ''/'' else hr_path r);
                   full = (if has_prefix url ''/'' then url
                           else rev (dropWhile (\<lambda>c. c \<noteq> CHR ''/'') (rev old)) @ url)
               in hex_escape (case cut_at (CHR ''?'') full of
                    None \<Rightarrow> cleaned_path full
                  | Some (p, q) \<Rightarrow> cleaned_path p @ ''?'' @ q))"

definition redirected :: "nat \<Rightarrow> string \<Rightarrow> web_handler" where
  "redirected status url r cx h w =
     (let html = (list_all (\<lambda>p. fst p \<noteq> ''Content-Type'') h \<and> (hr_method r = ''GET'' \<or> hr_method r = ''HEAD''));
          h1 = set_header ''Location'' url h;
          h2 = (if html then set_header ''Content-Type'' ''text/html; charset=utf-8'' h1 else h1)
      in Http_Server.answered status h2 (if html \<and> hr_method r = ''GET'' then LinkPage url else NoBody) w)"

section \<open>Reading\<close>

definition is_json :: "web_env \<Rightarrow> string \<Rightarrow> bool" where
  "is_json env header =
     (case co_media_type (we_codec env) header of None \<Rightarrow> False | Some m \<Rightarrow> map lower_char m = ''application/json'')"

definition decode_json :: "http_server \<Rightarrow> web_env \<Rightarrow> (nat \<Rightarrow> string \<Rightarrow> 'a decoded) \<Rightarrow> ('a \<Rightarrow> web_handler) \<Rightarrow> web_handler" where
  "decode_json sv env dec k r =
     (if \<not> is_json env (hr_content_type r) then write_problem sv UnsupportedMediaType ''send the body as application/json'' r
      else case dec (we_max_body env) (hr_body r) of
        BodyTooLarge \<Rightarrow> write_problem sv RequestTooLarge (''the body must be at most '' @ itoa_nat (we_max_body env) @ '' bytes'') r
      | BodyMalformed e \<Rightarrow> write_problem sv InvalidRequest (''the body is not a valid document: '' @ e) r
      | BodyTrailing \<Rightarrow> write_problem sv InvalidRequest ''the body must carry exactly one JSON document'' r
      | BodyOf x \<Rightarrow> k x r)"

definition query_values :: "string \<Rightarrow> (string \<times> string) list \<Rightarrow> string list" where
  "query_values k q = map snd (filter (\<lambda>p. fst p = k) q)"

definition query_get :: "string \<Rightarrow> (string \<times> string) list \<Rightarrow> string" where
  "query_get k q = (case query_values k q of [] \<Rightarrow> [] | v # _ \<Rightarrow> v)"

definition parse_query :: "http_server \<Rightarrow> ((string \<times> string) list \<Rightarrow> web_handler) \<Rightarrow> web_handler" where
  "parse_query sv k r =
     (case hr_query r of None \<Rightarrow> write_problem sv InvalidRequest ''query is invalid'' r | Some q \<Rightarrow> k q r)"

text \<open>\<open>strconv.Atoi\<close>.\<close>

definition atoi :: "string \<Rightarrow> int option" where
  "atoi s =
     (let (neg, digits) = (case s of
            c # rest \<Rightarrow> if c = CHR ''-'' then (True, rest) else if c = CHR ''+'' then (False, rest) else (False, s)
          | [] \<Rightarrow> (False, []))
      in if digits = [] \<or> \<not> list_all is_digit digits then None
         else if neg then (if digits_value digits > max_int64 + 1 then None else Some (- int (digits_value digits)))
         else if digits_value digits > max_int64 then None else Some (int (digits_value digits)))"

definition parse_limit :: "http_server \<Rightarrow> web_env \<Rightarrow> string \<Rightarrow> (int \<Rightarrow> web_handler) \<Rightarrow> web_handler" where
  "parse_limit sv env parameter k r =
     (let raw = trim_space parameter in
      if raw = [] then k default_hub_limit r
      else case atoi raw of
        None \<Rightarrow> write_problem sv InvalidRequest ''limit must be a whole number'' r
      | Some v \<Rightarrow> (case validate_limit v of
          Inl e \<Rightarrow> write_problem sv InvalidRequest (we_wording env e) r
        | Inr limit \<Rightarrow> k limit r))"

definition limit_param :: "http_server \<Rightarrow> web_env \<Rightarrow> (int \<Rightarrow> web_handler) \<Rightarrow> web_handler" where
  "limit_param sv env k =
     parse_query sv (\<lambda>q r.
       if length (query_values ''limit'' q) > 1 then write_problem sv InvalidRequest ''query parameter is repeated'' r
       else parse_limit sv env (query_get ''limit'' q) k r)"

definition max_cursor_bytes :: nat where "max_cursor_bytes = 4096"

definition active_work_query :: "http_server \<Rightarrow> web_env \<Rightarrow> (int \<Rightarrow> string \<Rightarrow> web_handler) \<Rightarrow> web_handler" where
  "active_work_query sv env k =
     parse_query sv (\<lambda>q r.
       if length (query_values ''limit'' q) > 1 \<or> length (query_values ''cursor'' q) > 1 then
         write_problem sv InvalidRequest ''query parameter is repeated'' r
       else parse_limit sv env (query_get ''limit'' q) (\<lambda>limit r.
         let raw = trim_space (query_get ''cursor'' q) in
         if raw = [] then
           (if query_values ''cursor'' q \<noteq> [] then write_problem sv InvalidRequest ''cursor is invalid'' r else k limit [] r)
         else case co_cursor (we_codec env) raw of
           None \<Rightarrow> write_problem sv InvalidRequest ''cursor is invalid'' r
         | Some c \<Rightarrow> if c = [] \<or> length c > max_cursor_bytes then write_problem sv InvalidRequest ''cursor is invalid'' r
                    else k limit c r) r)"

definition next_page_uri :: "web_env \<Rightarrow> http_request \<Rightarrow> string \<Rightarrow> string" where
  "next_page_uri env r cursor =
     (if cursor = [] then []
      else let q = (case hr_query r of None \<Rightarrow> [] | Some q \<Rightarrow> q) in
        hr_path r @ ''?'' @ co_query_text (we_codec env)
          (filter (\<lambda>p. fst p \<noteq> ''cursor'') q @ [(''cursor'', co_cursor_text (we_codec env) cursor)]))"

section \<open>Failures of the core\<close>

text \<open>A failure as a problem document: its kind, the detail and the conflicting run.\<close>

type_synonym failure = "problem_code \<times> string \<times> string"

definition over_time :: failure where
  "over_time = (TimeoutCode, ''the request exceeded the server'' @ CHR 0x27 # ''s time budget'', [])"

definition cause_text :: "hub_cause \<Rightarrow> string option" where
  "cause_text c =
     (case c of
        CausePort (PortDown e) \<Rightarrow> Some e
      | CauseStore (StoreDown what (OtherFault e)) \<Rightarrow> Some e
      | _ \<Rightarrow> None)"

definition unavailable_failure :: "web_env \<Rightarrow> hub_error \<Rightarrow> hub_cause \<Rightarrow> failure" where
  "unavailable_failure env e c =
     (case c of
        CauseStore NoSuchItem \<Rightarrow> (NotFoundCode, ''no such resource'', [])
      | CausePort PortNoDirectory \<Rightarrow> (NotAPlace, we_wording env e, [])
      | CausePort PortNotRepository \<Rightarrow> (NotAPlace, we_wording env e, [])
      | CausePort (PortInvalid m) \<Rightarrow> (InvalidRequest, we_wording env e, [])
      | _ \<Rightarrow> if (case cause_text c of None \<Rightarrow> False | Some t \<Rightarrow> we_deadline env t) then over_time
             else (DependencyUnavailable, ''a source this answer needs could not be reached'', []))"

text \<open>A listing that does not end is ended by the request's time budget.\<close>

definition hub_failure :: "web_env \<Rightarrow> hub_error \<Rightarrow> failure" where
  "hub_failure env e =
     (case e of
        HubNotFound \<Rightarrow> (NotFoundCode, ''no such resource'', [])
      | HubStateChanged \<Rightarrow>
          (StateChangedCode, ''the item changed after it was shown; review its current state before dismissing it'', [])
      | HubPlaceIsBusy run place \<Rightarrow> (PlaceIsBusyCode, we_wording env e, run)
      | HubNoSuchDirectory \<Rightarrow> (NotAPlace, we_wording env e, [])
      | HubNotARepository \<Rightarrow> (NotAPlace, we_wording env e, [])
      | HubUnavailable what c \<Rightarrow> unavailable_failure env e c
      | HubBadPlace x \<Rightarrow> (InternalError, [], [])
      | HubNoConvention x \<Rightarrow> (InternalError, [], [])
      | HubEndless \<Rightarrow> over_time
      | _ \<Rightarrow> (InvalidRequest, we_wording env e, []))"

definition write_failure :: "http_server \<Rightarrow> failure \<Rightarrow> web_handler" where
  "write_failure sv f = (case f of (code, detail, conflicting) \<Rightarrow> write_problem_about sv code detail conflicting)"

definition write_service_problem :: "http_server \<Rightarrow> web_env \<Rightarrow> hub_error \<Rightarrow> web_handler" where
  "write_service_problem sv env e = write_failure sv (hub_failure env e)"

text \<open>A failure the transport cannot classify, of which only a deadline is told.\<close>

definition unclassified :: "web_env \<Rightarrow> string \<Rightarrow> failure" where
  "unclassified env t = (if we_deadline env t then over_time else (InternalError, [], []))"

definition prompt_failure :: "web_env \<Rightarrow> prompt_error \<Rightarrow> failure" where
  "prompt_failure env e =
     (case e of
        PromptRefused x \<Rightarrow> if invalid_text x then (InvalidPrompt, we_text_wording env x, [])
                           else (NotFoundCode, ''no such prompt configuration resource'', [])
      | NoPromptPlace p \<Rightarrow> (NotFoundCode, ''no such prompt configuration resource'', [])
      | PromptsUnavailable c \<Rightarrow> (DependencyUnavailable, ''prompt configuration could not be reached'', []))"

fun setting_fault_text :: "setting_error \<Rightarrow> string" where
  "setting_fault_text (SettingStoreError (StoreFault t)) = t"
| "setting_fault_text _ = []"

definition sign_in_failure :: "http_server \<Rightarrow> web_env \<Rightarrow> id_error \<Rightarrow> failure" where
  "sign_in_failure sv env e =
     (case e of
        SignInFailed x \<Rightarrow> (SignInFailedCode, ''start again at '' @ hs_base sv @ ''/auth/sign-in'', [])
      | ProviderUnavailable x \<Rightarrow> (DependencyUnavailable, ''the identity provider could not be reached'', [])
      | IdStoreError (IdDown what (OtherFault t)) \<Rightarrow> unclassified env t
      | MintFailed what t \<Rightarrow> unclassified env t
      | _ \<Rightarrow> (InternalError, [], []))"

fun invalid_decision :: "steering_error \<Rightarrow> bool" where
  "invalid_decision (UnknownChoice c) = True"
| "invalid_decision (UnexpectedGuidance c) = True"
| "invalid_decision MissingGuidance = True"
| "invalid_decision GuidanceNotText = True"
| "invalid_decision (GuidanceTooLong n) = True"
| "invalid_decision (NotAPassLimitDecision c) = True"
| "invalid_decision (NotAReviewDecision c) = True"
| "invalid_decision DecisionWithoutSession = True"
| "invalid_decision _ = False"

text \<open>A turn that cannot be appended is none of the classified kinds.\<close>

definition steering_failure :: "web_env \<Rightarrow> steering_error \<Rightarrow> failure" where
  "steering_failure env e =
     (case e of
        NoSuchSession s \<Rightarrow> (NotFoundCode, ''no such steering session'', [])
      | QuestioningUnavailable x \<Rightarrow>
          (DependencyUnavailable, ''questioning is unavailable; type guidance directly, skip, or stop'', [])
      | SteeringUnavailable what x \<Rightarrow>
          (DependencyUnavailable, ''the decision was not completed and nothing was resumed; send it again'', [])
      | NotDelivered x \<Rightarrow>
          (DependencyUnavailable, ''the decision was not completed and nothing was resumed; send it again'', [])
      | SteeringFault t \<Rightarrow> unclassified env t
      | _ \<Rightarrow> if invalid_decision e then (InvalidRequest, we_decision_wording env e, []) else (InternalError, [], []))"

section \<open>Calling the services\<close>

definition from_hub :: "http_server \<Rightarrow> web_env \<Rightarrow> 'a hub_body \<Rightarrow> ('a \<Rightarrow> web_handler) \<Rightarrow> web_handler" where
  "from_hub sv env b k r cx h w =
     (case b (wb_hub w) (wb_hub_log w) of (res, db, l) \<Rightarrow>
        let w' = w\<lparr>wb_hub := db, wb_hub_log := l\<rparr> in
        case res of Inl e \<Rightarrow> write_service_problem sv env e r cx h w' | Inr x \<Rightarrow> k x r cx h w')"

definition from_id :: "http_server \<Rightarrow> (id_error \<Rightarrow> failure) \<Rightarrow> 'a id_body \<Rightarrow> ('a \<Rightarrow> web_handler) \<Rightarrow> web_handler" where
  "from_id sv failed b k r cx h w =
     (case b (wb_id w) (wb_id_log w) of (res, db, l) \<Rightarrow>
        let w' = w\<lparr>wb_id := db, wb_id_log := l\<rparr> in
        case res of Inl e \<Rightarrow> write_failure sv (failed e) r cx h w' | Inr x \<Rightarrow> k x r cx h w')"

definition from_prompts :: "http_server \<Rightarrow> web_env \<Rightarrow> 'a prompt_body \<Rightarrow> ('a \<Rightarrow> web_handler) \<Rightarrow> web_handler" where
  "from_prompts sv env b k r cx h w =
     (case b (wb_hub w, wb_config w) (wb_hub_log w) of (res, (db, c), l) \<Rightarrow>
        let w' = w\<lparr>wb_hub := db, wb_hub_log := l, wb_config := c\<rparr> in
        case res of Inl e \<Rightarrow> write_failure sv (prompt_failure env e) r cx h w' | Inr x \<Rightarrow> k x r cx h w')"

text \<open>Each call of steering's store may fail on its own: so many faults are drawn in turn.\<close>

fun faults :: "web_env \<Rightarrow> nat \<Rightarrow> web_ev list \<Rightarrow> string option list \<times> web_ev list" where
  "faults env 0 l = ([], l)"
| "faults env (Suc n) l = (case faults env n (l @ [WbSteering (we_fault env l)]) of (fs, l') \<Rightarrow> (we_fault env l # fs, l'))"

definition from_steering :: "http_server \<Rightarrow> web_env \<Rightarrow> nat \<Rightarrow> (string option list \<Rightarrow> svc \<Rightarrow> (steering_error + 'a) \<times> svc) \<Rightarrow>
   ('a \<Rightarrow> web_handler) \<Rightarrow> web_handler" where
  "from_steering sv env n b k r cx h w =
     (case faults env n (wb_log w) of (fs, l) \<Rightarrow>
        (case b fs (wb_steering w) of (res, s) \<Rightarrow>
           let w' = w\<lparr>wb_steering := s, wb_log := l\<rparr> in
           case res of Inl e \<Rightarrow> write_failure sv (steering_failure env e) r cx h w' | Inr x \<Rightarrow> k x r cx h w'))"

section \<open>Who is asking\<close>

definition viewer_of :: "http_context \<Rightarrow> string" where
  "viewer_of cx = (case principal_from cx of Some p \<Rightarrow> principal_id p | None \<Rightarrow> ''local-operator'')"

definition attributed_to :: "http_context \<Rightarrow> string" where
  "attributed_to cx = (case principal_from cx of Some p \<Rightarrow> principal_id p | None \<Rightarrow> [])"

section \<open>Work\<close>

type_synonym resource_handler = "(string \<times> string) list \<Rightarrow> web_handler"

definition path_value :: "string \<Rightarrow> (string \<times> string) list \<Rightarrow> string" where
  "path_value k ids = or_empty (map_of ids k)"

definition handle_active_work :: "http_server \<Rightarrow> web_env \<Rightarrow> resource_handler" where
  "handle_active_work sv env ids =
     active_work_query sv env (\<lambda>limit cursor.
       from_hub sv env (vdo (active_work (we_hub env) limit cursor)) (\<lambda>(items, following) r.
         write_json sv env 200 ''active-work-collection.v1''
           (Published (ActiveWorkDoc (new_active_collection (map (active_from (hv_digest (we_hub env))) items) limit
             (next_page_uri env r following) (published_locations (hv_digest (we_hub env)) (map ai_location items))))) r))"

definition handle_fleets :: "http_server \<Rightarrow> web_env \<Rightarrow> resource_handler" where
  "handle_fleets sv env ids =
     limit_param sv env (\<lambda>limit r cx.
       from_hub sv env (fleets_for (we_hub env) (viewer_of cx) limit) (\<lambda>fs.
         write_json sv env 200 ''fleet-collection.v1'' (Published (FleetsDoc (fleet_collection (projected env) limit fs)))) r cx)"

definition handle_fleet :: "http_server \<Rightarrow> web_env \<Rightarrow> resource_handler" where
  "handle_fleet sv env ids =
     from_hub sv env (vdo (hub_fleet (we_hub env) (path_value ''id'' ids))) (\<lambda>f.
       write_json sv env 200 ''fleet.v1'' (Published (FleetDoc (fst (fleet_from (projected env) f True)))))"

definition handle_runs :: "http_server \<Rightarrow> web_env \<Rightarrow> resource_handler" where
  "handle_runs sv env ids =
     limit_param sv env (\<lambda>limit r cx.
       from_hub sv env (runs_for (we_hub env) (viewer_of cx) limit) (\<lambda>rs.
         write_json sv env 200 ''run-collection.v1'' (Published (RunsDoc (run_collection (projected env) limit rs)))) r cx)"

definition handle_start_work :: "http_server \<Rightarrow> web_env \<Rightarrow> resource_handler" where
  "handle_start_work sv env ids =
     decode_json sv env (co_start (we_codec env)) (\<lambda>b r cx.
       from_hub sv env (start_work (we_hub env) \<lparr>sq_request = zs_request b, sq_kind = zs_kind b, sq_place = zs_place b,
           sq_prompt = zs_prompt b, sq_worktree = zs_worktree b, sq_by = attributed_to cx\<rparr>) (\<lambda>s r cx h.
         write_json sv env 201 ''started-work.v1'' (Published (StartedDoc (started_work_from (projected env) s))) r cx
           (set_header ''Location'' (hs_base sv @ ''/runs/'' @ sk_run s) h)) r cx)"

definition handle_run :: "http_server \<Rightarrow> web_env \<Rightarrow> resource_handler" where
  "handle_run sv env ids =
     from_hub sv env (hub_run (we_hub env) (path_value ''id'' ids)) (\<lambda>run.
       write_json sv env 200 ''run.v1'' (Published (RunDoc (run_from (projected env) run True))))"

definition handle_schedules :: "http_server \<Rightarrow> web_env \<Rightarrow> resource_handler" where
  "handle_schedules sv env ids =
     limit_param sv env (\<lambda>limit.
       from_hub sv env (vdo (hub_schedules (we_hub env) limit)) (\<lambda>ss.
         write_json sv env 200 ''schedule-collection.v1'' (Published (SchedulesDoc (schedule_collection (projected env) limit ss)))))"

definition handle_dismissals :: "http_server \<Rightarrow> web_env \<Rightarrow> resource_handler" where
  "handle_dismissals sv env ids r cx =
     from_hub sv env (dismissals_for (we_hub env) (viewer_of cx)) (\<lambda>ds.
       write_json sv env 200 ''dismissal-collection.v1''
         (Published (DismissalsDoc (new_collection (map (dismissal_from (projected env)) ds) (int (length ds)))))) r cx"

definition handle_dismiss :: "http_server \<Rightarrow> web_env \<Rightarrow> resource_handler" where
  "handle_dismiss sv env ids =
     decode_json sv env (co_dismissal (we_codec env)) (\<lambda>b r cx.
       if zd_revision b = [] then write_service_problem sv env HubRevisionRequired r cx
       else from_hub sv env (dismiss_for (we_hub env) (viewer_of cx) (zd_kind b) (zd_item b) (zd_revision b)) (\<lambda>d r cx h.
         write_json sv env 201 ''dismissal.v1'' (Published (DismissalDoc (dismissal_from (projected env) d))) r cx
           (set_header ''Location'' (hs_base sv @ ''/dismissals/'' @ dismissal_id d) h)) r cx)"

definition handle_undismiss :: "http_server \<Rightarrow> web_env \<Rightarrow> resource_handler" where
  "handle_undismiss sv env ids r cx =
     (case parse_dismissal_id (path_value ''id'' ids) of
        Inl e \<Rightarrow> write_problem sv InvalidRequest (we_wording env (HubItem e)) r cx
      | Inr (kind, item) \<Rightarrow> from_hub sv env (undismiss_for (we_hub env) (viewer_of cx) kind item) (\<lambda>_. no_content) r cx)"

section \<open>Places\<close>

definition handle_places :: "http_server \<Rightarrow> web_env \<Rightarrow> resource_handler" where
  "handle_places sv env ids =
     from_hub sv env (known_places (we_hub env)) (\<lambda>ps.
       write_json sv env 200 ''place-collection.v1'' (Published (PlacesDoc (place_collection (projected env) ps))))"

definition handle_register_place :: "http_server \<Rightarrow> web_env \<Rightarrow> resource_handler" where
  "handle_register_place sv env ids =
     decode_json sv env (co_place (we_codec env)) (\<lambda>directory r cx.
       from_hub sv env (register_place (we_hub env) directory (attributed_to cx)) (\<lambda>p.
         write_json sv env 201 ''place.v1'' (Published (PlaceDoc (place_resource_of (projected env) p True)))) r cx)"

definition handle_pick_directory :: "http_server \<Rightarrow> web_env \<Rightarrow> resource_handler" where
  "handle_pick_directory sv env ids r cx h w =
     (let a = we_pick env (wb_log w); w' = told (WbPick a) w in
      case a of
        Inl e \<Rightarrow> write_problem sv DependencyUnavailable ''The native folder picker is unavailable on this hub.'' r cx h w'
      | Inr None \<Rightarrow> no_content r cx h w'
      | Inr (Some d) \<Rightarrow> (case validate_place_directory d of
          Inl e \<Rightarrow> write_problem sv InternalError [] r cx h w'
        | Inr _ \<Rightarrow> write_json sv env 200 ''directory-selection.v1'' (Published (DirectoryDoc d)) r cx h w'))"

section \<open>Settings and prompts\<close>

definition handle_settings :: "http_server \<Rightarrow> web_env \<Rightarrow> resource_handler" where
  "handle_settings sv env ids r cx h w =
     (let f = we_fault env (wb_log w); w' = told (WbConfig f) w in
      case settings_everywhere (pv_hash (we_prompts env)) (Some (pg_reader f (wb_config w))) of
        Inl e \<Rightarrow> write_failure sv (unclassified env (setting_fault_text e)) r cx h w'
      | Inr vs \<Rightarrow> write_json sv env 200 ''setting-collection.v1''
          (Published (SettingsDoc (new_collection (map setting_from vs) (int (length vs))))) r cx h w')"

definition prompt_location :: "http_server \<Rightarrow> (string \<Rightarrow> web_handler) \<Rightarrow> web_handler" where
  "prompt_location sv k =
     parse_query sv (\<lambda>q r.
       case find (\<lambda>p. fst p \<noteq> ''locationId'') q of
         Some (key, v) \<Rightarrow> write_problem sv InvalidRequest (''unknown query parameter: '' @ key) r
       | None \<Rightarrow> if length (query_values ''locationId'' q) > 1 then write_problem sv InvalidRequest ''locationId must be supplied once'' r
                else k (query_get ''locationId'' q) r)"

definition handle_prompts :: "http_server \<Rightarrow> web_env \<Rightarrow> resource_handler" where
  "handle_prompts sv env ids =
     prompt_location sv (\<lambda>pid. from_prompts sv env (prompt_catalogue (we_prompts env) pid) (\<lambda>cs.
       write_json sv env 200 ''prompt-collection.v1''
         (Published (PromptsDoc (new_collection (map prompt_from cs) (int (length cs)))))))"

definition handle_set_prompt :: "http_server \<Rightarrow> web_env \<Rightarrow> resource_handler" where
  "handle_set_prompt sv env ids =
     prompt_location sv (\<lambda>pid. decode_json sv env (co_prompt (we_codec env)) (\<lambda>text' r cx.
       from_prompts sv env (set_prompt (we_prompts env) pid (path_value ''key'' ids) text' (attributed_to cx)) (\<lambda>_. no_content) r cx))"

definition handle_reset_prompt :: "http_server \<Rightarrow> web_env \<Rightarrow> resource_handler" where
  "handle_reset_prompt sv env ids =
     prompt_location sv (\<lambda>pid.
       from_prompts sv env (reset_prompt (we_prompts env) pid (path_value ''key'' ids)) (\<lambda>_. no_content))"

definition handle_set_prompt_model :: "http_server \<Rightarrow> web_env \<Rightarrow> resource_handler" where
  "handle_set_prompt_model sv env ids =
     prompt_location sv (\<lambda>pid. decode_json sv env (co_model (we_codec env)) (\<lambda>model r cx.
       from_prompts sv env (set_prompt_model (we_prompts env) pid (path_value ''key'' ids) model (attributed_to cx)) (\<lambda>_. no_content) r cx))"

definition handle_reset_prompt_model :: "http_server \<Rightarrow> web_env \<Rightarrow> resource_handler" where
  "handle_reset_prompt_model sv env ids =
     prompt_location sv (\<lambda>pid.
       from_prompts sv env (reset_prompt_model (we_prompts env) pid (path_value ''key'' ids)) (\<lambda>_. no_content))"

section \<open>The inbox\<close>

definition inbox_failure :: "web_env \<Rightarrow> string \<Rightarrow> failure" where
  "inbox_failure env t = unclassified env t"

definition handle_notifications :: "http_server \<Rightarrow> web_env \<Rightarrow> resource_handler" where
  "handle_notifications sv env ids =
     limit_param sv env (\<lambda>limit r cx h w.
       let who = viewer_of cx; a = ix_list (we_inbox env) who limit (wb_log w); w1 = told (WbInboxList who limit a) w in
       case a of
         Inl e \<Rightarrow> write_failure sv (inbox_failure env e) r cx h w1
       | Inr items \<Rightarrow>
           let b = ix_unread (we_inbox env) who (wb_log w1); w2 = told (WbInboxUnread who b) w1 in
           (case b of
              Inl e \<Rightarrow> write_failure sv (inbox_failure env e) r cx h w2
            | Inr unread \<Rightarrow> write_json sv env 200 ''notification-collection.v1'' (NotificationsDoc
                \<lparr>nc_items = items, nc_count = length items, nc_limit = limit, nc_unread = unread\<rparr>) r cx h w2))"

definition inbox_change :: "http_server \<Rightarrow> web_env \<Rightarrow> (web_ev list \<Rightarrow> string option) \<Rightarrow> (string option \<Rightarrow> web_ev) \<Rightarrow> web_handler" where
  "inbox_change sv env change ev r cx h w =
     (let a = change (wb_log w); w' = told (ev a) w in
      case a of Some e \<Rightarrow> write_failure sv (inbox_failure env e) r cx h w' | None \<Rightarrow> no_content r cx h w')"

definition handle_notification_read :: "http_server \<Rightarrow> web_env \<Rightarrow> resource_handler" where
  "handle_notification_read sv env ids r cx =
     inbox_change sv env (ix_mark_read (we_inbox env) (viewer_of cx) (path_value ''id'' ids))
       (WbInboxRead (viewer_of cx) (path_value ''id'' ids)) r cx"

definition handle_mark_all_read :: "http_server \<Rightarrow> web_env \<Rightarrow> resource_handler" where
  "handle_mark_all_read sv env ids r cx =
     inbox_change sv env (ix_mark_all (we_inbox env) (viewer_of cx)) (WbInboxReadAll (viewer_of cx)) r cx"

definition handle_clear_read :: "http_server \<Rightarrow> web_env \<Rightarrow> resource_handler" where
  "handle_clear_read sv env ids r cx =
     inbox_change sv env (ix_clear (we_inbox env) (viewer_of cx)) (WbInboxClear (viewer_of cx)) r cx"

section \<open>Signing in and out\<close>

definition allow_sign_in :: "http_server \<Rightarrow> web_env \<Rightarrow> web_handler \<Rightarrow> web_handler" where
  "allow_sign_in sv env k r cx h w =
     (let a = \<not> hs_limited sv \<or> we_attempt env (wb_log w); w' = told (WbAttempt a) w in
      if a then k r cx h w' else write_problem sv TooManyRequests ''too many sign-in attempts; wait and try again'' r cx h w')"

definition sign_in_cookie_path :: "http_server \<Rightarrow> string" where
  "sign_in_cookie_path sv = hs_base sv @ ''/auth''"

text \<open>A cookie as \<open>http.SetCookie\<close> writes it, with what it drops of a value and what it quotes.\<close>

definition cookie_value :: "string \<Rightarrow> string" where
  "cookie_value v =
     (let s = filter (\<lambda>c. byte_in 32 126 c \<and> c \<notin> {CHR 0x22, CHR '';'', CHR 0x5C}) v in
      if list_ex (\<lambda>c. c = CHR '' '' \<or> c = CHR '','') s then dq @ s @ dq else s)"

definition cookie_text :: "http_server \<Rightarrow> string \<Rightarrow> string \<Rightarrow> string \<Rightarrow> int \<Rightarrow> string" where
  "cookie_text sv name value path max_age =
     name @ ''='' @ cookie_value value @ ''; Path='' @ path @
     (if max_age > 0 then ''; Max-Age='' @ itoa max_age else if max_age < 0 then ''; Max-Age=0'' else []) @
     ''; HttpOnly'' @ (if hs_secure sv then ''; Secure'' else []) @ ''; SameSite=Lax''"

text \<open>Times are in nanoseconds; what is left of a second is cut off.\<close>

definition cookie_seconds :: "nat \<Rightarrow> nat \<Rightarrow> int" where
  "cookie_seconds expires now = (if expires < now + 1000000000 then 1 else int ((expires - now) div 1000000000))"

definition give_cookie :: "http_server \<Rightarrow> string \<Rightarrow> string \<Rightarrow> string \<Rightarrow> int \<Rightarrow> headers \<Rightarrow> headers" where
  "give_cookie sv name value path seconds = add_header ''Set-Cookie'' (cookie_text sv name value path seconds)"

definition expire_cookie :: "http_server \<Rightarrow> string \<Rightarrow> string \<Rightarrow> headers \<Rightarrow> headers" where
  "expire_cookie sv name path = add_header ''Set-Cookie'' (cookie_text sv name [] path (- 1))"

definition go_to :: "web_env \<Rightarrow> string \<Rightarrow> web_handler" where
  "go_to env url r = redirected 303 (redirect_location (ie_parse (we_id env)) r url) r"

definition handle_sign_in :: "http_server \<Rightarrow> web_env \<Rightarrow> resource_handler" where
  "handle_sign_in sv env ids =
     allow_sign_in sv env (parse_query sv (\<lambda>q.
       from_id sv (sign_in_failure sv env) (begin_sign_in (we_id env) (we_service env) (query_get ''return'' q)) (\<lambda>s r cx h w.
         go_to env (su_url s) r cx (give_cookie sv sign_in_cookie_name (su_token s) (sign_in_cookie_path sv)
           (cookie_seconds (su_expires s) (we_now env (wb_log w))) h) w)))"

definition callback_of :: "http_request \<Rightarrow> (string \<times> string) list \<Rightarrow> callback" where
  "callback_of r q = \<lparr>kb_token = or_empty (hr_sign_in r), kb_state = query_get ''state'' q, kb_code = query_get ''code'' q,
     kb_error = query_get ''error'' q\<rparr>"

definition handle_callback :: "http_server \<Rightarrow> web_env \<Rightarrow> resource_handler" where
  "handle_callback sv env ids =
     allow_sign_in sv env (parse_query sv (\<lambda>q r cx h.
       from_id sv (sign_in_failure sv env) (complete_sign_in (we_id env) (we_service env) (callback_of r q)) (\<lambda>g r cx h w.
         go_to env (gr_return g) r cx (give_cookie sv session_cookie_name (gr_token g) ''/''
           (cookie_seconds (gr_expires g) (we_now env (wb_log w))) h) w)
         r cx (expire_cookie sv sign_in_cookie_name (sign_in_cookie_path sv) h)))"

definition principal_resource_of :: "person \<Rightarrow> principal_resource" where
  "principal_resource_of p = \<lparr>hx_id = principal_id p, hx_issuer = ip_issuer p, hx_subject = ip_subject p,
     hx_name = display_name p, hx_email = ip_email p\<rparr>"

definition handle_session :: "http_server \<Rightarrow> web_env \<Rightarrow> resource_handler" where
  "handle_session sv env ids r cx =
     (case principal_from cx of
        None \<Rightarrow> write_problem sv AuthenticationRequired ''this request carries no identity'' r cx
      | Some p \<Rightarrow> write_json sv env 200 ''session.v1'' (Published (SessionDoc (principal_resource_of p))) r cx)"

definition handle_sign_out :: "http_server \<Rightarrow> web_env \<Rightarrow> resource_handler" where
  "handle_sign_out sv env ids =
     allow_sign_in sv env (\<lambda>r.
       from_id sv (\<lambda>_. (DependencyUnavailable, ''the session could not be ended; try again'', []))
         (sign_out (we_id env) (or_empty (hr_session r))) (\<lambda>_ r cx h.
           no_content r cx (expire_cookie sv session_cookie_name ''/'' h)) r)"

section \<open>Steering\<close>

text \<open>A session without its detail, with the place it refers to.\<close>

definition session_from :: "projecting \<Rightarrow> session \<Rightarrow> bool \<Rightarrow> location_error + (session_resource \<times> location)" where
  "session_from pj s detail =
     rbind (recorded_location \<lparr>rp_directory = pl_directory (se_place s), rp_repository = pl_repository (se_place s), rp_ref = []\<rparr>)
       (\<lambda>loc. Inr (\<lparr>yx_id = se_id s, yx_item = se_item s, yx_round = se_round s, yx_state = se_state s,
          yx_since = timestamp (pj_time pj) (se_opened s), yx_location = location_id (pj_digest pj) loc,
          yx_material = (if detail then se_material s else []), yx_guidance = (if detail then se_guidance s else []),
          yx_decision = dc_choice (se_decision s), yx_decided_at = timestamp (pj_time pj) (se_decided_at s),
          yx_decided_by = dc_principal (se_decision s), yx_tokens = 0, yx_contributors = [], yx_messages = [],
          yx_locations = []\<rparr>, loc))"

definition conversation_from :: "projecting \<Rightarrow> conversation \<Rightarrow> location_error + session_resource" where
  "conversation_from pj c =
     rbind (session_from pj (cv_session c) True) (\<lambda>(s, loc).
       Inr (s\<lparr>yx_tokens := conversation_tokens c, yx_contributors := contributors c, yx_messages := cv_messages c,
         yx_locations := published_locations (pj_digest pj) [loc]\<rparr>))"

fun sessions_from :: "projecting \<Rightarrow> session list \<Rightarrow> location_error + (session_resource \<times> location) list" where
  "sessions_from pj [] = Inr []"
| "sessions_from pj (s # ss) = rbind (session_from pj s False) (\<lambda>x. rbind (sessions_from pj ss) (\<lambda>xs. Inr (x # xs)))"

text \<open>A place that cannot be expressed is a defect here, as in the hub's own readings.\<close>

definition write_session :: "http_server \<Rightarrow> web_env \<Rightarrow> location_error + session_resource \<Rightarrow> web_handler" where
  "write_session sv env s =
     (case s of
        Inl x \<Rightarrow> write_service_problem sv env (HubBadPlace x)
      | Inr d \<Rightarrow> write_json sv env 200 ''steering-session.v1'' (SteeringDoc d))"

definition handle_steering_sessions :: "http_server \<Rightarrow> web_env \<Rightarrow> resource_handler" where
  "handle_steering_sessions sv env ids =
     from_steering sv env 1 (\<lambda>fs s. (svc_waiting (fs ! 0) s, s)) (\<lambda>ss.
       case sessions_from (projected env) ss of
         Inl x \<Rightarrow> write_service_problem sv env (HubBadPlace x)
       | Inr xs \<Rightarrow> write_json sv env 200 ''steering-session-collection.v1'' (SessionsDoc
           (new_located_collection (map fst xs) (int (length xs)) (published_locations (hv_digest (we_hub env)) (map snd xs)))))"

definition handle_steering_session :: "http_server \<Rightarrow> web_env \<Rightarrow> resource_handler" where
  "handle_steering_session sv env ids =
     from_steering sv env 2 (\<lambda>fs s. (svc_conversation (fs ! 0) (fs ! 1) (path_value ''id'' ids) s, s)) (\<lambda>c.
       write_session sv env (conversation_from (projected env) c))"

definition handle_steering_question :: "http_server \<Rightarrow> web_env \<Rightarrow> resource_handler" where
  "handle_steering_question sv env ids =
     decode_json sv env (co_question (we_codec env)) (\<lambda>b r cx h w.
       from_steering sv env 2 (\<lambda>fs. question (we_questioner env) (fs ! 0) (fs ! 1) (we_now env (wb_log w)) (path_value ''id'' ids)
           \<lparr>qr_text = zq_text b, qr_principal = attributed_to cx, qr_finish = zq_finish b\<rparr>) (\<lambda>c.
         write_session sv env (conversation_from (projected env) c)) r cx h w)"

definition handle_steering_decision :: "http_server \<Rightarrow> web_env \<Rightarrow> resource_handler" where
  "handle_steering_decision sv env ids =
     decode_json sv env (co_decision (we_codec env)) (\<lambda>b r cx h w.
       from_steering sv env 3 (\<lambda>fs. decide (fs ! 0) (fs ! 1) (fs ! 2) (we_now env (wb_log w)) (path_value ''id'' ids)
           \<lparr>dc_choice = zv_choice b, dc_guidance = zv_guidance b, dc_principal = attributed_to cx\<rparr>) (\<lambda>s.
         write_session sv env (rbind (session_from (projected env) s True) (\<lambda>x. Inr (fst x)))) r cx h w)"

section \<open>The API's own description, and health\<close>

text \<open>The text of the entry point, the specification, the indexes and the catalogue is a parameter.\<close>

definition handle_description :: "http_server \<Rightarrow> web_env \<Rightarrow> string \<Rightarrow> string \<Rightarrow> resource_handler" where
  "handle_description sv env model name ids = write_json sv env 200 model (Published (DescriptionDoc (we_static env name)))"

definition handle_static :: "web_env \<Rightarrow> string \<Rightarrow> string \<Rightarrow> resource_handler" where
  "handle_static env media name ids = write_static env media (we_static env name)"

definition handle_schema :: "http_server \<Rightarrow> web_env \<Rightarrow> resource_handler" where
  "handle_schema sv env ids =
     (case we_schema env (path_value ''model'' ids) of
        None \<Rightarrow> write_problem sv NotFoundCode (''no such model; the available models are listed at '' @ hs_base sv @ ''/schemas'')
      | Some body \<Rightarrow> write_static env ''application/schema+json'' body)"

definition problem_codes :: "problem_code list" where
  "problem_codes = [InvalidRequest, NotFoundCode, MethodNotAllowed, UnsupportedMediaType, RequestTooLarge, StateChangedCode,
     NotAPlace, PlaceIsBusyCode, InvalidPrompt, AuthenticationRequired, SignInFailedCode, CrossSiteRequest,
     TooManyRequests, DependencyUnavailable, TimeoutCode, InternalError]"

definition handle_problem_type :: "http_server \<Rightarrow> web_env \<Rightarrow> resource_handler" where
  "handle_problem_type sv env ids =
     (case find (\<lambda>c. code_text c = path_value ''code'' ids) problem_codes of
        None \<Rightarrow> write_problem sv NotFoundCode (''no such problem type; they are listed at '' @ hs_base sv @ ''/problems'')
      | Some c \<Rightarrow> write_json sv env 200 [] (Published (DescriptionDoc (we_static env (''problem '' @ code_text c)))))"

definition api_version :: string where "api_version = ''1''"

fun run_checks :: "(string \<times> (web_ev list \<Rightarrow> bool)) list \<Rightarrow> web_ev list \<Rightarrow> (string \<times> string) list \<times> web_ev list" where
  "run_checks [] l = ([], l)"
| "run_checks ((name, check) # cs) l =
     (let ok = check l in case run_checks cs (l @ [WbCheck name ok]) of
        (rs, l') \<Rightarrow> ((name, if ok then ''pass'' else ''fail'') # rs, l'))"

definition handle_health :: "http_server \<Rightarrow> web_env \<Rightarrow> resource_handler" where
  "handle_health sv env ids r cx h w =
     (case run_checks (we_checks env) (wb_log w) of (results, l) \<Rightarrow>
        let failed = list_ex (\<lambda>p. snd p = ''fail'') results;
            d = Published (HealthDoc (if failed then ''fail'' else ''pass'') api_version results);
            w' = w\<lparr>wb_log := l\<rparr> in
        case co_encode (we_codec env) d of
          None \<Rightarrow> write_problem sv InternalError [] r cx h w'
        | Some _ \<Rightarrow> Http_Server.answered (if failed then 503 else 200)
            (set_header ''Cache-Control'' ''no-store'' (set_header ''Content-Type'' ''application/health+json'' h))
            (if hr_method r = ''HEAD'' then NoBody else Document d) w')"

definition handle_stream :: "web_env \<Rightarrow> string \<Rightarrow> resource_handler" where
  "handle_stream env name ids r cx h w = (case we_stream env name r cx h (wb_log w) of
       (status, h') \<Rightarrow> Http_Server.answered status h' NoBody (told (WbStream name) w))"

section \<open>Routing\<close>

datatype seg = Lit string | Wild string

fun match_pattern :: "seg list \<Rightarrow> string list \<Rightarrow> (string \<times> string) list option" where
  "match_pattern [] [] = Some []"
| "match_pattern (Lit p # ps) (s # ss) = (if p = s then match_pattern ps ss else None)"
| "match_pattern (Wild n # ps) (s # ss) = (if s = [] then None else map_option (\<lambda>m. (n, s) # m) (match_pattern ps ss))"
| "match_pattern _ _ = None"

record resource =
  rs_pattern :: "seg list"
  rs_methods :: "(string \<times> resource_handler) list"

definition base_segments :: "http_server \<Rightarrow> seg list" where
  "base_segments sv = map Lit (split_at (CHR ''/'') (drop 1 (hs_base sv)))"

definition under_base :: "http_server \<Rightarrow> seg list \<Rightarrow> (string \<times> resource_handler) list \<Rightarrow> resource" where
  "under_base sv p ms = \<lparr>rs_pattern = base_segments sv @ p, rs_methods = ms\<rparr>"

definition run_collection_methods :: "http_server \<Rightarrow> web_env \<Rightarrow> (string \<times> resource_handler) list" where
  "run_collection_methods sv env =
     (''GET'', handle_runs sv env) # (if wp_start (we_parts env) then [(''POST'', handle_start_work sv env)] else [])"

definition core_resources :: "http_server \<Rightarrow> web_env \<Rightarrow> resource list" where
  "core_resources sv env =
     [under_base sv [] [(''GET'', handle_description sv env ''service-description.v1'' ''description'')],
      under_base sv [Lit ''openapi.json''] [(''GET'', handle_static env ''application/vnd.oai.openapi+json;version=3.1'' ''openapi'')],
      under_base sv [Lit ''schemas''] [(''GET'', handle_description sv env [] ''schemas'')],
      under_base sv [Lit ''schemas'', Wild ''model''] [(''GET'', handle_schema sv env)],
      under_base sv [Lit ''problems''] [(''GET'', handle_description sv env [] ''problems'')],
      under_base sv [Lit ''problems'', Wild ''code''] [(''GET'', handle_problem_type sv env)],
      under_base sv [Lit ''health''] [(''GET'', handle_health sv env)],
      under_base sv [Lit ''active-work''] [(''GET'', handle_active_work sv env)],
      under_base sv [Lit ''fleets''] [(''GET'', handle_fleets sv env)],
      under_base sv [Lit ''fleets'', Wild ''id''] [(''GET'', handle_fleet sv env)],
      under_base sv [Lit ''runs''] (run_collection_methods sv env),
      under_base sv [Lit ''runs'', Wild ''id''] [(''GET'', handle_run sv env)],
      under_base sv [Lit ''schedules''] [(''GET'', handle_schedules sv env)],
      under_base sv [Lit ''dismissals''] [(''GET'', handle_dismissals sv env), (''POST'', handle_dismiss sv env)],
      under_base sv [Lit ''dismissals'', Wild ''id''] [(''DELETE'', handle_undismiss sv env)],
      \<lparr>rs_pattern = [Lit ''.well-known'', Lit ''api-catalog''],
       rs_methods = [(''GET'', handle_static env ''application/linkset+json'' ''catalog'')]\<rparr>]"

definition place_resources :: "http_server \<Rightarrow> web_env \<Rightarrow> resource list" where
  "place_resources sv env =
     (if wp_places (we_parts env) then
        under_base sv [Lit ''places''] [(''GET'', handle_places sv env), (''POST'', handle_register_place sv env)] #
        (if wp_picker (we_parts env) then
           [under_base sv [Lit ''places'', Lit ''directory-picker''] [(''POST'', handle_pick_directory sv env)]] else [])
      else [])"

definition config_resources :: "http_server \<Rightarrow> web_env \<Rightarrow> resource list" where
  "config_resources sv env =
     (if wp_settings (we_parts env) then [under_base sv [Lit ''settings''] [(''GET'', handle_settings sv env)]] else []) @
     (if wp_prompts (we_parts env) then
        [under_base sv [Lit ''prompts''] [(''GET'', handle_prompts sv env)],
         under_base sv [Lit ''prompts'', Wild ''key''] [(''PUT'', handle_set_prompt sv env), (''DELETE'', handle_reset_prompt sv env)],
         under_base sv [Lit ''prompts'', Wild ''key'', Lit ''model'']
           [(''PUT'', handle_set_prompt_model sv env), (''DELETE'', handle_reset_prompt_model sv env)]] else [])"

definition inbox_resources :: "http_server \<Rightarrow> web_env \<Rightarrow> resource list" where
  "inbox_resources sv env =
     (if wp_notifications (we_parts env) then
        [under_base sv [Lit ''notifications''] [(''GET'', handle_notifications sv env)],
         under_base sv [Lit ''notifications'', Lit ''read''] [(''POST'', handle_mark_all_read sv env), (''DELETE'', handle_clear_read sv env)],
         under_base sv [Lit ''notifications'', Wild ''id'', Lit ''read''] [(''POST'', handle_notification_read sv env)]] else [])"

definition steering_resources :: "http_server \<Rightarrow> web_env \<Rightarrow> resource list" where
  "steering_resources sv env =
     (if wp_steering (we_parts env) then
        [under_base sv [Lit ''steering'', Lit ''sessions''] [(''GET'', handle_steering_sessions sv env)],
         under_base sv [Lit ''steering'', Lit ''sessions'', Wild ''id''] [(''GET'', handle_steering_session sv env)],
         under_base sv [Lit ''steering'', Lit ''sessions'', Wild ''id'', Lit ''events''] [(''GET'', handle_stream env ''conversation'')],
         under_base sv [Lit ''events''] [(''GET'', handle_stream env ''hub'')],
         under_base sv [Lit ''steering'', Lit ''sessions'', Wild ''id'', Lit ''question''] [(''POST'', handle_steering_question sv env)],
         under_base sv [Lit ''steering'', Lit ''sessions'', Wild ''id'', Lit ''decision''] [(''POST'', handle_steering_decision sv env)]] else [])"

definition auth_resources :: "http_server \<Rightarrow> web_env \<Rightarrow> resource list" where
  "auth_resources sv env =
     (if wp_sign_in (we_parts env) then
        [under_base sv [Lit ''auth'', Lit ''sign-in''] [(''GET'', handle_sign_in sv env)],
         under_base sv [Lit ''auth'', Lit ''callback''] [(''GET'', handle_callback sv env)],
         under_base sv [Lit ''auth'', Lit ''session''] [(''GET'', handle_session sv env), (''DELETE'', handle_sign_out sv env)]] else [])"

definition resources :: "http_server \<Rightarrow> web_env \<Rightarrow> resource list" where
  "resources sv env = core_resources sv env @ place_resources sv env @ config_resources sv env @
     inbox_resources sv env @ steering_resources sv env @ auth_resources sv env"

text \<open>No two patterns match one path, so the first that matches is the multiplexer's choice.\<close>

fun route :: "resource list \<Rightarrow> string list \<Rightarrow> (resource \<times> (string \<times> string) list) option" where
  "route [] ss = None"
| "route (res # rest) ss = (case match_pattern (rs_pattern res) ss of Some ids \<Rightarrow> Some (res, ids) | None \<Rightarrow> route rest ss)"

definition offered :: "resource \<Rightarrow> string" where
  "offered res =
     (let ms = map fst (rs_methods res) in
      join '', '' (sort_strings (ms @ (if ''GET'' \<in> set ms then [''HEAD''] else []))))"

definition asked_method :: "http_request \<Rightarrow> string" where
  "asked_method r = (if hr_method r = ''HEAD'' then ''GET'' else hr_method r)"

definition dispatch :: "http_server \<Rightarrow> resource \<Rightarrow> resource_handler" where
  "dispatch sv res ids r cx h =
     (case map_of (rs_methods res) (asked_method r) of
        None \<Rightarrow> write_problem sv MethodNotAllowed (''this resource offers: '' @ offered res) r cx
          (set_header ''Allow'' (offered res) h)
      | Some hn \<Rightarrow> hn ids r cx h)"

definition root_handler :: "http_server \<Rightarrow> web_env \<Rightarrow> web_handler" where
  "root_handler sv env r cx h w =
     (case we_assets env of
        None \<Rightarrow> write_problem sv NotFoundCode
          (''this server publishes a JSON API at '' @ hs_base sv @ '' and no static assets are configured'') r cx h w
      | Some serve \<Rightarrow> (case serve r h of (status, h') \<Rightarrow> Http_Server.answered status h' NoBody w))"

fun literals :: "seg list \<Rightarrow> string list" where
  "literals (Lit s # ps) = s # literals ps"
| "literals (Wild _ # ps) = literals ps"
| "literals [] = []"

definition below_base :: "http_server \<Rightarrow> http_request \<Rightarrow> bool" where
  "below_base sv r =
     (let b = literals (base_segments sv) in
      length b < length (hr_segments r) \<and> take (length b) (hr_segments r) = b)"

definition api_mux :: "http_server \<Rightarrow> web_env \<Rightarrow> web_handler" where
  "api_mux sv env r cx h w =
     (case we_moved env r of
        Some target \<Rightarrow> redirected 301 target r cx h w
      | None \<Rightarrow> (case route (resources sv env) (hr_segments r) of
          Some (res, ids) \<Rightarrow> dispatch sv res ids r cx h w
        | None \<Rightarrow> if below_base sv r then write_problem sv NotFoundCode ''no such endpoint'' r cx h w
                  else root_handler sv env r cx h w))"

text \<open>The server: the chain around the multiplexer.\<close>

definition api_server :: "http_server \<Rightarrow> web http_env \<Rightarrow> web_env \<Rightarrow> web_handler" where
  "api_server sv around env = build_handler sv around (api_mux sv env)"

end
