(* ===== verification/Http_Api.thy ===== *)
theory Http_Api
  imports Http_Resources
begin

text \<open>
  What holds of the whole API: facts about every handler, put together over the routing table.

  A fact about a handler is a predicate on what it answers and does; each way a handler is built (a
  body read, a service called, a document written) has one rule for it, so that the predicate
  follows handler by handler and resource by resource.
\<close>

section \<open>Every document is self-contained\<close>

fun complete :: "api_document \<Rightarrow> bool" where
  "complete (Published d) = self_contained d"
| "complete (SessionsDoc c) = (drawable (lc_locations c) \<and> yx_location ` set (lc_items c) \<subseteq> lx_id ` set (lc_locations c))"
| "complete (SteeringDoc s) = (yx_locations s = [] \<or> drawable (yx_locations s) \<and> yx_location s \<in> lx_id ` set (yx_locations s))"
| "complete (NotificationsDoc c) = (nc_count c = length (nc_items c))"

definition complete_reply :: "api_document outcome_of_handler \<Rightarrow> bool" where
  "complete_reply o' = (\<forall>p d. o' = Replied p \<longrightarrow> rp_body p = Document d \<longrightarrow> complete d)"

definition publishes :: "web_handler \<Rightarrow> bool" where
  "publishes hn = (\<forall>r cx h w. complete_reply (fst (hn r cx h w)))"

named_theorems publishing \<open>handlers that only publish self-contained documents\<close>

lemma publishesI: "(\<And>r cx h w. complete_reply (fst (hn r cx h w))) \<Longrightarrow> publishes hn"
  by (simp add: publishes_def)

lemma publishesD: "publishes hn \<Longrightarrow> complete_reply (fst (hn r cx h w))"
  by (simp add: publishes_def)

lemma complete_reply_simps [simp]:
  "complete_reply (fst (write_problem_about sv c d x r cx h w))"
  "complete_reply (fst (write_problem sv c d r cx h w))"
  "complete_reply (fst (write_failure sv f r cx h w))"
  "complete_reply (fst (write_service_problem sv env e r cx h w))"
  "complete_reply (fst (no_content r cx h w))"
  "complete_reply (fst (redirected n url r cx h w))"
  "complete_reply (fst (Http_Server.answered n h NoBody w))"
  by (auto simp: complete_reply_def write_problem_def write_problem_about_def Http_Server.answered_def Let_def write_failure_def
      write_service_problem_def no_content_def redirected_def split: prod.splits if_splits)

lemma complete_static [simp]: "complete_reply (fst (write_static env media body r cx h w))"
  by (auto simp: complete_reply_def write_static_def Http_Server.answered_def Let_def self_contained_def split: if_splits)

lemma complete_json: "complete d \<Longrightarrow> complete_reply (fst (write_json sv env status model d r cx h w))"
  by (auto simp: complete_reply_def write_json_def write_problem_def write_problem_about_def Http_Server.answered_def Let_def
      split: option.splits if_splits)

lemma publishes_json [publishing]: "complete d \<Longrightarrow> publishes (write_json sv env status model d)"
  by (simp add: publishes_def complete_json)

lemma publishes_basic [publishing]:
  "publishes (write_problem sv c d)" "publishes (write_problem_about sv c d x)" "publishes (write_failure sv f)"
  "publishes (write_service_problem sv env e)" "publishes no_content" "publishes (write_static env media body)"
  by (simp_all add: publishes_def)

lemma publishes_hub: "(\<And>x r cx h w. complete_reply (fst (k x r cx h w))) \<Longrightarrow> complete_reply (fst (from_hub sv env b k r cx h w))"
  by (auto simp: from_hub_def Let_def split: prod.split sum.split)

lemma publishes_id: "(\<And>x r cx h w. complete_reply (fst (k x r cx h w))) \<Longrightarrow> complete_reply (fst (from_id sv g b k r cx h w))"
  by (auto simp: from_id_def Let_def split: prod.split sum.split)

lemma publishes_prompts: "(\<And>x r cx h w. complete_reply (fst (k x r cx h w))) \<Longrightarrow> complete_reply (fst (from_prompts sv env b k r cx h w))"
  by (auto simp: from_prompts_def Let_def split: prod.split sum.split)

lemma publishes_steering: "(\<And>x r cx h w. complete_reply (fst (k x r cx h w))) \<Longrightarrow> complete_reply (fst (from_steering sv env n b k r cx h w))"
  by (auto simp: from_steering_def Let_def split: prod.split sum.split)

lemma publishes_decode: "(\<And>x r cx h w. complete_reply (fst (k x r cx h w))) \<Longrightarrow> complete_reply (fst (decode_json sv env dec k r cx h w))"
  by (auto simp: decode_json_def split: decoded.split)

lemma publishes_query: "(\<And>x r cx h w. complete_reply (fst (k x r cx h w))) \<Longrightarrow> complete_reply (fst (parse_query sv k r cx h w))"
  by (auto simp: parse_query_def split: option.split)

lemma publishes_parse_limit: "(\<And>x r cx h w. complete_reply (fst (k x r cx h w))) \<Longrightarrow> complete_reply (fst (parse_limit sv env s k r cx h w))"
  by (auto simp: parse_limit_def Let_def split: option.split sum.split)

lemma publishes_limit: "(\<And>x r cx h w. complete_reply (fst (k x r cx h w))) \<Longrightarrow> complete_reply (fst (limit_param sv env k r cx h w))"
  unfolding limit_param_def by (rule publishes_query) (auto intro: publishes_parse_limit)

lemma publishes_active_query:
  "(\<And>x c r cx h w. complete_reply (fst (k x c r cx h w))) \<Longrightarrow> complete_reply (fst (active_work_query sv env k r cx h w))"
  unfolding active_work_query_def
  by (rule publishes_query) (auto simp: Let_def intro!: publishes_parse_limit split: option.split)

lemma publishes_location: "(\<And>x r cx h w. complete_reply (fst (k x r cx h w))) \<Longrightarrow> complete_reply (fst (prompt_location sv k r cx h w))"
  unfolding prompt_location_def by (rule publishes_query) (auto split: option.split)

lemma publishes_allow: "(\<And>r cx h w. complete_reply (fst (k r cx h w))) \<Longrightarrow> complete_reply (fst (allow_sign_in sv env k r cx h w))"
  by (simp add: allow_sign_in_def Let_def)

lemmas publish_rules = publishes_hub publishes_id publishes_prompts publishes_steering publishes_decode publishes_query
  publishes_limit publishes_active_query publishes_location publishes_allow complete_json

lemma publishes_work [publishing]:
  "publishes (handle_active_work sv env ids)" "publishes (handle_fleets sv env ids)" "publishes (handle_fleet sv env ids)"
  "publishes (handle_runs sv env ids)" "publishes (handle_start_work sv env ids)" "publishes (handle_run sv env ids)"
  "publishes (handle_schedules sv env ids)" "publishes (handle_dismissals sv env ids)" "publishes (handle_dismiss sv env ids)"
  unfolding handle_active_work_def handle_fleets_def handle_fleet_def handle_runs_def handle_start_work_def handle_run_def
    handle_schedules_def handle_dismissals_def handle_dismiss_def
  by (auto intro!: publishesI publish_rules simp: contained)

lemma publishes_undismiss [publishing]: "publishes (handle_undismiss sv env ids)"
  unfolding handle_undismiss_def by (rule publishesI) (auto intro!: publish_rules split: sum.split)

lemma publishes_places [publishing]:
  "publishes (handle_places sv env ids)" "publishes (handle_register_place sv env ids)" "publishes (handle_pick_directory sv env ids)"
  unfolding handle_places_def handle_register_place_def handle_pick_directory_def Let_def
  by (auto intro!: publishesI publish_rules simp: contained split: sum.split option.split)

lemma publishes_config [publishing]:
  "publishes (handle_settings sv env ids)" "publishes (handle_prompts sv env ids)" "publishes (handle_set_prompt sv env ids)"
  "publishes (handle_reset_prompt sv env ids)" "publishes (handle_set_prompt_model sv env ids)"
  "publishes (handle_reset_prompt_model sv env ids)"
  unfolding handle_settings_def handle_prompts_def handle_set_prompt_def handle_reset_prompt_def handle_set_prompt_model_def
    handle_reset_prompt_model_def Let_def
  by (auto intro!: publishesI publish_rules simp: contained split: sum.split)

lemma publishes_inbox [publishing]:
  "publishes (handle_notifications sv env ids)" "publishes (handle_notification_read sv env ids)"
  "publishes (handle_mark_all_read sv env ids)" "publishes (handle_clear_read sv env ids)"
  unfolding handle_notifications_def handle_notification_read_def handle_mark_all_read_def handle_clear_read_def
    inbox_change_def Let_def
  by (auto intro!: publishesI publish_rules split: sum.split option.split)

lemma publishes_auth [publishing]:
  "publishes (handle_sign_in sv env ids)" "publishes (handle_callback sv env ids)" "publishes (handle_session sv env ids)"
  "publishes (handle_sign_out sv env ids)"
  unfolding handle_sign_in_def handle_callback_def handle_session_def handle_sign_out_def go_to_def
  by (auto intro!: publishesI publish_rules simp: contained split: option.split)

lemma session_from_refers:
  "session_from pj s b = Inr (x, loc) \<Longrightarrow> yx_location x = location_id (pj_digest pj) loc \<and> yx_locations x = []"
  by (auto simp: session_from_def rbind_eq_Inr)

lemma sessions_from_refer:
  "sessions_from pj ss = Inr xs \<Longrightarrow> (x, loc) \<in> set xs \<Longrightarrow> yx_location x = location_id (pj_digest pj) loc"
  by (induction ss arbitrary: xs) (auto simp: rbind_eq_Inr dest: session_from_refers)

lemma complete_session: "session_from pj s b = Inr (d, loc) \<Longrightarrow> complete (SteeringDoc d)"
  by (auto dest: session_from_refers)

lemma complete_conversation: "conversation_from pj c = Inr x \<Longrightarrow> complete (SteeringDoc x)"
  by (auto simp: conversation_from_def rbind_eq_Inr published_refers dest!: session_from_refers)

lemma complete_sessions:
  assumes "sessions_from pj ss = Inr xs"
  shows "complete (SessionsDoc (new_located_collection (map fst xs) n (published_locations (pj_digest pj) (map snd xs))))"
  by (auto simp: new_located_collection_def sessions_from_refer [OF assms] image_iff intro!: published_refers [unfolded image_iff])
    (metis image_eqI snd_conv)

lemma complete_write_session:
  "(\<And>d. s = Inr d \<Longrightarrow> complete (SteeringDoc d)) \<Longrightarrow> complete_reply (fst (write_session sv env s r cx h w))"
  by (auto simp: write_session_def intro!: complete_json simp del: complete.simps split: sum.split)

lemma projected_digest [simp]: "pj_digest (projected env) = hv_digest (we_hub env)"
  by (simp add: projected_def)

lemma publishes_steering_handlers [publishing]:
  "publishes (handle_steering_session sv env ids)" "publishes (handle_steering_question sv env ids)"
  "publishes (handle_steering_decision sv env ids)"
  unfolding handle_steering_session_def handle_steering_question_def handle_steering_decision_def
  by (rule publishesI, rule publishes_steering, rule complete_write_session, erule complete_conversation)
    (rule publishesI, (rule publishes_decode publishes_steering complete_write_session)+,
      auto simp del: complete.simps simp: rbind_eq_Inr intro: complete_conversation complete_session)+

lemma publishes_steering_sessions [publishing]: "publishes (handle_steering_sessions sv env ids)"
  unfolding handle_steering_sessions_def
  by (rule publishesI, rule publishes_steering)
    (auto simp del: complete.simps split: sum.split intro!: complete_json dest: complete_sessions)

lemma publishes_description [publishing]:
  "publishes (handle_description sv env model name ids)" "publishes (handle_static env media name ids)"
  "publishes (handle_schema sv env ids)" "publishes (handle_problem_type sv env ids)" "publishes (handle_stream env name ids)"
  unfolding handle_description_def handle_static_def handle_schema_def handle_problem_type_def handle_stream_def
  by (auto intro!: publishesI complete_json simp: contained split: option.split prod.split)

lemma publishes_health [publishing]: "publishes (handle_health sv env ids)"
  unfolding handle_health_def
  by (rule publishesI) (auto simp: complete_reply_def Http_Server.answered_def Let_def contained write_problem_def write_problem_about_def
      split: prod.splits option.splits if_splits)

section \<open>Put together over the routing table\<close>

definition every_handler :: "(web_handler \<Rightarrow> bool) \<Rightarrow> resource \<Rightarrow> bool" where
  "every_handler P res = (\<forall>(m, hn) \<in> set (rs_methods res). \<forall>ids. P (hn ids))"

lemma every_handler_base [simp]:
  "every_handler P (under_base sv p ms) = (\<forall>(m, hn) \<in> set ms. \<forall>ids. P (hn ids))"
  by (simp add: every_handler_def under_base_def)

lemma resources_publish: "list_all (every_handler publishes) (resources sv env)"
  by (simp add: resources_def core_resources_def place_resources_def config_resources_def inbox_resources_def
      steering_resources_def auth_resources_def run_collection_methods_def publishing every_handler_def [of publishes "\<lparr>rs_pattern = a, rs_methods = b\<rparr>" for a b])

lemma route_in: "route rs ss = Some (res, ids) \<Longrightarrow> res \<in> set rs \<and> match_pattern (rs_pattern res) ss = Some ids"
  by (induction rs) (auto split: option.splits)

lemma dispatch_publishes:
  assumes "every_handler publishes res"
  shows "complete_reply (fst (dispatch sv res ids r cx h w))"
  using assms publishesD
  by (auto simp: dispatch_def every_handler_def split: option.split dest!: map_of_SomeD)

lemma mux_publishes: "complete_reply (fst (api_mux sv env r cx h w))"
proof -
  have "complete_reply (fst (dispatch sv res ids r cx h w))" if "route (resources sv env) (hr_segments r) = Some (res, ids)" for res ids
    using route_in [OF that] resources_publish by (auto simp: list_all_iff intro!: dispatch_publishes)
  then show ?thesis
    by (auto simp: api_mux_def root_handler_def split: option.split prod.split)
qed

section \<open>Readings leave everything as it was\<close>

text \<open>From \<open>w\<close> to \<open>w'\<close> no table changed, and of the hub's ports only readings were asked: no work was started.\<close>

definition untouched :: "web \<Rightarrow> web \<Rightarrow> bool" where
  "untouched w w' =
     (wb_hub w' = wb_hub w \<and> wb_id w' = wb_id w \<and> wb_config w' = wb_config w \<and> wb_steering w' = wb_steering w \<and>
      (\<exists>d. wb_hub_log w' = wb_hub_log w @ d \<and> list_all read_event d))"

lemma untouched_refl [simp]: "untouched w w"
  by (simp add: untouched_def)

lemma untouched_trans: "untouched w w1 \<Longrightarrow> untouched w1 w2 \<Longrightarrow> untouched w w2"
  by (auto simp: untouched_def)

lemma untouched_log [simp]: "untouched w (w'\<lparr>wb_log := l\<rparr>) = untouched w w'" "untouched w (told e w') = untouched w w'"
  by (simp_all add: untouched_def told_def)

lemma world_kept [simp]:
  "snd (write_problem_about sv c d x r cx h w) = w" "snd (write_problem sv c d r cx h w) = w"
  "snd (write_failure sv f r cx h w) = w" "snd (write_service_problem sv env e r cx h w) = w"
  "snd (no_content r cx h w) = w" "snd (redirected n url r cx h w) = w"
  "snd (Http_Server.answered n h b w) = w" "snd (write_static env media body r cx h w) = w"
  "snd (write_json sv env status model d' r cx h w) = w" "snd (write_session sv env s r cx h w) = w"
  by (auto simp: write_problem_def write_problem_about_def Http_Server.answered_def Let_def write_failure_def
      write_service_problem_def no_content_def redirected_def write_static_def write_json_def write_session_def
      split: prod.splits option.splits sum.splits)

lemma untouched_hub:
  assumes "vreads b" and "\<And>x r cx h w. untouched w (snd (k x r cx h w))"
  shows "untouched w (snd (from_hub sv env b k r cx h w))"
proof -
  obtain res db l where b: "b (wb_hub w) (wb_hub_log w) = (res, db, l)" by (metis prod_cases3)
  from vreadsE [OF assms(1) b] obtain d where "db = wb_hub w" "l = wb_hub_log w @ d" "list_all read_event d" .
  then have "untouched w (w\<lparr>wb_hub := db, wb_hub_log := l\<rparr>)" by (simp add: untouched_def)
  from untouched_trans [OF this] assms(2) show ?thesis
    by (auto simp: from_hub_def b Let_def split: sum.split)
qed

lemma untouched_steering:
  assumes "\<And>fs s. snd (b fs s) = s" and "\<And>x r cx h w. untouched w (snd (k x r cx h w))"
  shows "untouched w (snd (from_steering sv env n b k r cx h w))"
proof -
  obtain fs l where f: "faults env n (wb_log w) = (fs, l)" by fastforce
  obtain res s where b: "b fs (wb_steering w) = (res, s)" by fastforce
  then have "s = wb_steering w" using assms(1) by (metis snd_conv)
  then have "untouched w (w\<lparr>wb_steering := s, wb_log := l\<rparr>)" by (simp add: untouched_def)
  from untouched_trans [OF this] assms(2) show ?thesis
    by (auto simp: from_steering_def f b Let_def split: sum.split)
qed

lemma untouched_catalogue:
  assumes "\<And>x r cx h w. untouched w (snd (k x r cx h w))"
  shows "untouched w (snd (from_prompts sv env (prompt_catalogue penv pid) k r cx h w))"
proof -
  obtain t db l where t: "prompt_target penv pid (wb_hub w) (wb_hub_log w) = (t, db, l)" by (metis prod_cases3)
  from vreadsE [OF vreads_prompt_target t] obtain d where "db = wb_hub w" "l = wb_hub_log w @ d" "list_all read_event d" .
  then have u: "untouched w (w\<lparr>wb_hub := db, wb_hub_log := l, wb_config := wb_config w\<rparr>)" by (simp add: untouched_def)
  have "prompt_catalogue penv pid (wb_hub w, wb_config w) (wb_hub_log w) =
      (fst (prompt_catalogue penv pid (wb_hub w, wb_config w) (wb_hub_log w)), (db, wb_config w), l)"
    by (cases t) (simp_all add: prompt_catalogue_def prompt_run t split: sum.split)
  then obtain res where "prompt_catalogue penv pid (wb_hub w, wb_config w) (wb_hub_log w) = (res, (db, wb_config w), l)" by blast
  then show ?thesis
    using untouched_trans [OF u] assms u by (auto simp: from_prompts_def Let_def split: sum.split)
qed

lemma untouched_query:
  "(\<And>x r cx h w. untouched w (snd (k x r cx h w))) \<Longrightarrow> untouched w (snd (parse_query sv k r cx h w))"
  by (auto simp: parse_query_def split: option.split)

lemma untouched_parse_limit:
  "(\<And>x r cx h w. untouched w (snd (k x r cx h w))) \<Longrightarrow> untouched w (snd (parse_limit sv env s k r cx h w))"
  by (auto simp: parse_limit_def Let_def split: option.split sum.split)

lemma untouched_limit:
  "(\<And>x r cx h w. untouched w (snd (k x r cx h w))) \<Longrightarrow> untouched w (snd (limit_param sv env k r cx h w))"
  unfolding limit_param_def by (rule untouched_query) (auto intro: untouched_parse_limit)

lemma untouched_active_query:
  "(\<And>x c r cx h w. untouched w (snd (k x c r cx h w))) \<Longrightarrow> untouched w (snd (active_work_query sv env k r cx h w))"
  unfolding active_work_query_def
  by (rule untouched_query) (auto simp: Let_def intro!: untouched_parse_limit split: option.split)

lemma untouched_location:
  "(\<And>x r cx h w. untouched w (snd (k x r cx h w))) \<Longrightarrow> untouched w (snd (prompt_location sv k r cx h w))"
  unfolding prompt_location_def by (rule untouched_query) (auto split: option.split)

lemmas untouched_rules = untouched_hub untouched_steering untouched_catalogue untouched_limit untouched_active_query untouched_location

definition quiet :: "web_handler \<Rightarrow> bool" where
  "quiet hn = (\<forall>r cx h w. untouched w (snd (hn r cx h w)))"

lemma quietI: "(\<And>r cx h w. untouched w (snd (hn r cx h w))) \<Longrightarrow> quiet hn"
  by (simp add: quiet_def)

named_theorems quiet_handlers \<open>handlers that only read\<close>

lemma vreads_active_work [intro!]: "vreads (vdo (active_work env limit cursor))"
  by (auto simp: active_work_def active_schedules_def ask_page_def Let_def intro!: reads_on_error reads_perform
      split: prod.split)

lemma vreads_dismissals_for [intro!]: "vreads (dismissals_for env viewer)"
  unfolding dismissals_for_def
  by (intro vreads_then vreads_stored vreads_basic) (simp add: pg_dismissals_def returning_def split: write_fault.split)

lemma quiet_work [quiet_handlers]:
  "quiet (handle_active_work sv env ids)" "quiet (handle_fleets sv env ids)" "quiet (handle_fleet sv env ids)"
  "quiet (handle_runs sv env ids)" "quiet (handle_run sv env ids)"
  "quiet (handle_schedules sv env ids)" "quiet (handle_dismissals sv env ids)" "quiet (handle_places sv env ids)"
  unfolding handle_active_work_def handle_fleets_def handle_fleet_def handle_runs_def handle_run_def
    handle_schedules_def handle_dismissals_def handle_places_def
  by (auto intro!: quietI untouched_rules)

lemma quiet_config [quiet_handlers]: "quiet (handle_prompts sv env ids)" "quiet (handle_settings sv env ids)"
  unfolding handle_prompts_def handle_settings_def Let_def
  by (auto intro!: quietI untouched_rules split: sum.split)

lemma quiet_inbox [quiet_handlers]: "quiet (handle_notifications sv env ids)"
  unfolding handle_notifications_def Let_def
  by (auto intro!: quietI untouched_limit split: sum.split)

lemma quiet_steering [quiet_handlers]: "quiet (handle_steering_sessions sv env ids)" "quiet (handle_steering_session sv env ids)"
  unfolding handle_steering_sessions_def handle_steering_session_def
  by (auto intro!: quietI untouched_steering split: sum.split)

lemma quiet_rest [quiet_handlers]:
  "quiet (handle_session sv env ids)" "quiet (handle_description sv env model name ids)" "quiet (handle_static env media name ids)"
  "quiet (handle_schema sv env ids)" "quiet (handle_problem_type sv env ids)" "quiet (handle_stream env name ids)"
  "quiet (handle_health sv env ids)"
  unfolding handle_session_def handle_description_def handle_static_def handle_schema_def handle_problem_type_def
    handle_stream_def handle_health_def Let_def
  by (auto intro!: quietI split: option.split prod.split)

text \<open>The resources whose reading is more than a reading: the two a browser signs in by.\<close>

definition signs_in :: "http_server \<Rightarrow> resource \<Rightarrow> bool" where
  "signs_in sv res = (rs_pattern res \<in> {base_segments sv @ [Lit ''auth'', Lit ''sign-in''], base_segments sv @ [Lit ''auth'', Lit ''callback'']})"

definition reads_quietly :: "resource \<Rightarrow> bool" where
  "reads_quietly res = (\<forall>hn ids. map_of (rs_methods res) ''GET'' = Some hn \<longrightarrow> quiet (hn ids))"

lemma reads_quietly_base [simp]:
  "reads_quietly (under_base sv p ms) = (\<forall>hn ids. map_of ms ''GET'' = Some hn \<longrightarrow> quiet (hn ids))"
  by (simp add: reads_quietly_def under_base_def)

lemma resources_read_quietly: "res \<in> set (resources sv env) \<Longrightarrow> signs_in sv res \<or> reads_quietly res"
proof -
  have "list_all (\<lambda>res. signs_in sv res \<or> reads_quietly res) (resources sv env)"
    by (simp add: resources_def core_resources_def place_resources_def config_resources_def inbox_resources_def
        steering_resources_def auth_resources_def run_collection_methods_def quiet_handlers signs_in_def
        reads_quietly_def [of "\<lparr>rs_pattern = a, rs_methods = b\<rparr>" for a b] under_base_def [of sv "[Lit ''auth'', Lit x]" for x])
  then show "res \<in> set (resources sv env) \<Longrightarrow> ?thesis" by (simp add: list_all_iff)
qed

lemma match_literals: "match_pattern (map Lit xs) ss = Some ids \<Longrightarrow> ss = xs"
  by (induction xs arbitrary: ss ids) (case_tac ss, auto split: if_splits)+

lemma base_literals: "base_segments sv @ map Lit xs = map Lit (literals (base_segments sv) @ xs)"
proof -
  have "literals (map Lit ys) = ys" for ys by (induction ys) auto
  then show ?thesis by (simp add: base_segments_def)
qed


section \<open>What the chain leaves of an answer\<close>

lemma complete_refusals [simp]:
  "complete_reply (fst (plain_error n t r cx h w))" "complete_reply (fst (refuse_credential sv e r cx h w))"
  by (auto simp: complete_reply_def plain_error_def Http_Server.answered_def refuse_credential_def write_problem_def
      write_problem_about_def Let_def split: if_splits)

lemma publishes_plain: "publishes (plain_error n t)" "publishes (refuse_credential sv e)"
  by (simp_all add: publishes_def)

lemma publishes_host: "publishes n \<Longrightarrow> publishes (require_host sv env n)"
  by (auto simp: publishes_def require_host_def)

lemma publishes_cors:
  assumes "publishes n"
  shows "publishes (cors sv n)"
  unfolding publishes_def
  by (auto simp: cors_def Let_def intro: publishesD [OF assms])

lemma publishes_authenticated:
  assumes "publishes n"
  shows "publishes (authenticate_request sv env n)"
  unfolding publishes_def
  by (auto simp: authenticate_request_def intro: publishesD [OF assms] split: prod.split sum.split)

lemma publishes_same_site: "publishes n \<Longrightarrow> publishes (require_same_site sv n)"
  by (auto simp: publishes_def require_same_site_def)

lemma publishes_limited:
  assumes "publishes n"
  shows "publishes (rate_limit sv env n)"
  unfolding publishes_def
  by (auto simp: rate_limit_def intro: publishesD [OF assms] split: prod.split bool.split)

lemma publishes_timed: "publishes n \<Longrightarrow> publishes (with_timeout sv n)"
  by (simp add: publishes_def with_timeout_def)

lemma publishes_guarded: "publishes n \<Longrightarrow> publishes (guarded sv around n)"
  unfolding guarded_def
  by (intro publishes_host publishes_cors publishes_authenticated publishes_same_site publishes_limited publishes_timed)

fun answered_whole :: "api_document outcome_of_handler \<Rightarrow> bool" where
  "answered_whole (Replied p) = (case rp_body p of Document d \<Rightarrow> complete d | _ \<Rightarrow> True)"
| "answered_whole (Panicked h) = False"

lemma whole_problem: "answered_whole (fst (write_problem sv InternalError [] r cx h w))"
  by (simp add: write_problem_def write_problem_about_def Let_def Http_Server.answered_def)

lemma recovered_answer:
  assumes "publishes hn"
  shows "answered_whole (fst (recover_panics sv hn r cx h w))"
proof (cases "hn r cx h w")
  case (Pair o' w')
  show ?thesis
  proof (cases o')
    case (Replied p)
    then show ?thesis using publishesD [OF assms, of r cx h w] Pair
      by (auto simp: recover_panics_def complete_reply_def split: http_body.split)
  next
    case (Panicked h')
    then show ?thesis using Pair by (simp add: recover_panics_def whole_problem)
  qed
qed

lemma logged_answer: "answered_whole (fst (n r cx h w)) \<Longrightarrow> answered_whole (fst (access_log around n r cx h w))"
  by (cases "n r cx h w", cases "fst (n r cx h w)") (simp_all add: access_log_def)


section \<open>What a stranger can reach\<close>

definition base_path :: string where "base_path = ''/api/v1''"

definition all_tails :: "seg list list" where
  "all_tails =
     ([] # map (\<lambda>s. [Lit s]) [''openapi.json'', ''schemas'', ''problems'', ''health'', ''active-work'', ''fleets'', ''runs'', ''schedules'',
        ''dismissals'', ''places'', ''settings'', ''prompts'', ''notifications'', ''events''] @
      [[Lit ''schemas'', Wild ''model''], [Lit ''problems'', Wild ''code''], [Lit ''fleets'', Wild ''id''], [Lit ''runs'', Wild ''id''],
       [Lit ''dismissals'', Wild ''id''], [Lit ''places'', Lit ''directory-picker''], [Lit ''prompts'', Wild ''key''],
       [Lit ''prompts'', Wild ''key'', Lit ''model''], [Lit ''notifications'', Lit ''read''],
       [Lit ''notifications'', Wild ''id'', Lit ''read''], [Lit ''steering'', Lit ''sessions''],
       [Lit ''steering'', Lit ''sessions'', Wild ''id''], [Lit ''steering'', Lit ''sessions'', Wild ''id'', Lit ''events''],
       [Lit ''steering'', Lit ''sessions'', Wild ''id'', Lit ''question''], [Lit ''steering'', Lit ''sessions'', Wild ''id'', Lit ''decision''],
       [Lit ''auth'', Lit ''sign-in''], [Lit ''auth'', Lit ''callback''], [Lit ''auth'', Lit ''session'']])"

definition all_patterns :: "http_server \<Rightarrow> seg list list" where
  "all_patterns sv = [Lit ''.well-known'', Lit ''api-catalog''] # map (\<lambda>p. base_segments sv @ p) all_tails"

lemma resource_patterns: "res \<in> set (resources sv env) \<Longrightarrow> rs_pattern res \<in> set (all_patterns sv)"
proof -
  have "list_all (\<lambda>res. rs_pattern res \<in> set (all_patterns sv)) (resources sv env)"
    by (simp add: resources_def core_resources_def place_resources_def config_resources_def inbox_resources_def
        steering_resources_def auth_resources_def under_base_def all_patterns_def all_tails_def)
  then show "res \<in> set (resources sv env) \<Longrightarrow> ?thesis" by (simp add: list_all_iff)
qed

lemma base_of: "hs_base sv = base_path \<Longrightarrow> base_segments sv = [Lit ''api'', Lit ''v1'']"
  by (simp add: base_segments_def base_path_def)

fun beneath :: "string list \<Rightarrow> string" where
  "beneath [] = []"
| "beneath (s # ss) = CHR ''/'' # s @ beneath ss"

lemma hr_path_beneath: "hr_path r = beneath (hr_segments r)"
proof -
  have "concat (map (\<lambda>s. CHR ''/'' # s) ss) = beneath ss" for ss by (induction ss) auto
  then show ?thesis by (simp add: hr_path_def)
qed

definition open_patterns :: "seg list list" where
  "open_patterns = [[Lit ''health''], [Lit ''auth'', Lit ''sign-in''], [Lit ''auth'', Lit ''callback'']]"

lemma match_Lit: "match_pattern (Lit p # ps) ss = Some ids \<longleftrightarrow> (\<exists>rest. ss = p # rest \<and> match_pattern ps rest = Some ids)"
  by (cases ss) auto

lemma match_Wild:
  "match_pattern (Wild n # ps) ss = Some ids \<longleftrightarrow> (\<exists>s rest m. ss = s # rest \<and> s \<noteq> [] \<and> match_pattern ps rest = Some m \<and> ids = (n, s) # m)"
  by (cases ss) auto

lemma match_Nil: "match_pattern [] ss = Some ids \<longleftrightarrow> ss = [] \<and> ids = []"
  by (cases ss) auto

lemma beneath_cases: "beneath rest = CHR ''/'' # t \<Longrightarrow> \<exists>s ss. rest = s # ss \<and> t = s @ beneath ss"
  by (cases rest) auto

lemma open_tail_health: "beneath rest = ''/health'' \<Longrightarrow> list_all (\<lambda>q. match_pattern q rest = Some ids \<longrightarrow> q \<in> set open_patterns) all_tails"
  by (simp add: all_tails_def open_patterns_def match_Lit match_Wild match_Nil del: imp_conjL) auto

lemma open_tail_sign_in:
  "beneath rest = ''/auth/sign-in'' \<Longrightarrow> list_all (\<lambda>q. match_pattern q rest = Some ids \<longrightarrow> q \<in> set open_patterns) all_tails"
  by (simp add: all_tails_def open_patterns_def match_Lit match_Wild match_Nil del: imp_conjL) auto

lemma open_tail_callback:
  "beneath rest = ''/auth/callback'' \<Longrightarrow> list_all (\<lambda>q. match_pattern q rest = Some ids \<longrightarrow> q \<in> set open_patterns) all_tails"
  by (simp add: all_tails_def open_patterns_def match_Lit match_Wild match_Nil del: imp_conjL) auto

lemma only_open_tails:
  assumes "beneath rest \<in> {''/auth/sign-in'', ''/auth/callback'', ''/health''}"
  shows "\<forall>q \<in> set all_tails. match_pattern q rest = Some ids \<longrightarrow> q \<in> set open_patterns"
  using assms open_tail_health [of rest ids] open_tail_sign_in [of rest ids] open_tail_callback [of rest ids]
  unfolding list_all_iff by blast

lemma open_only:
  assumes base: "hs_base sv = base_path" and p: "p \<in> set (all_patterns sv)" and m: "match_pattern p (hr_segments r) = Some ids"
    and pub: "is_public_route sv (hr_path r)"
  shows "p = [Lit ''.well-known'', Lit ''api-catalog''] \<or> p \<in> (\<lambda>q. base_segments sv @ q) ` set open_patterns"
proof (cases "p = [Lit ''.well-known'', Lit ''api-catalog'']")
  case False
  with p obtain q where q: "q \<in> set all_tails" "p = base_segments sv @ q" by (auto simp: all_patterns_def)
  then obtain rest where rest: "hr_segments r = ''api'' # ''v1'' # rest" "match_pattern q rest = Some ids"
    using m by (auto simp: base_of [OF base] match_Lit)
  then have path: "hr_path r = ''/api/v1'' @ beneath rest" by (simp add: hr_path_beneath)
  moreover have "has_prefix (''/api/v1'' @ beneath rest) ''/api/v1''" by (rule has_prefix_append)
  ultimately have "beneath rest \<in> {''/auth/sign-in'', ''/auth/callback'', ''/health''}"
    using pub base by (auto simp: is_public_route_def base_path_def)
  from only_open_tails [OF this, of ids] q rest(2) show ?thesis by blast
qed simp

section \<open>A hub to ask\<close>

definition demo_codec :: web_codec where
  "demo_codec = \<lparr>co_encode = (\<lambda>_. Some ''{}''), co_digest = (\<lambda>s. s), co_media_type = (\<lambda>s. Some s),
     co_cursor = (\<lambda>s. Some s), co_cursor_text = (\<lambda>s. s), co_query_text = (\<lambda>_. []),
     co_dismissal = (\<lambda>_ _. BodyMalformed []),
     co_start = (\<lambda>_ b. BodyOf \<lparr>zs_request = b, zs_kind = start_review, zs_place = [], zs_prompt = [], zs_worktree = False\<rparr>),
     co_place = (\<lambda>_ b. BodyOf b), co_prompt = (\<lambda>_ b. BodyOf b), co_model = (\<lambda>_ b. BodyOf b),
     co_decision = (\<lambda>_ _. BodyMalformed []), co_question = (\<lambda>_ b. BodyOf \<lparr>zq_text = b, zq_finish = False\<rparr>)\<rparr>"

definition demo_parts :: web_parts where
  "demo_parts = \<lparr>wp_start = True, wp_places = True, wp_picker = True, wp_settings = True, wp_prompts = True,
     wp_notifications = True, wp_steering = True, wp_sign_in = True\<rparr>"

definition demo_inbox :: inbox_port where
  "demo_inbox = \<lparr>ix_list = (\<lambda>_ _ _. Inr []), ix_unread = (\<lambda>_ _. Inr 0), ix_mark_read = (\<lambda>_ _ _. None),
     ix_mark_all = (\<lambda>_ _. None), ix_clear = (\<lambda>_ _. None)\<rparr>"

definition demo_web_env :: web_env where
  "demo_web_env = \<lparr>we_hub = sample_env [], we_id = calm_env, we_service = calm_service, we_prompts = demo_prompts,
     we_questioner = None, we_inbox = demo_inbox, we_codec = demo_codec, we_parts = demo_parts,
     we_time = (\<lambda>n. itoa (int n)), we_now = (\<lambda>_. 100), we_fault = (\<lambda>_. None), we_deadline = (\<lambda>_. False),
     we_wording = (\<lambda>_. []), we_text_wording = (\<lambda>_. []), we_decision_wording = (\<lambda>_. []), we_attempt = (\<lambda>_. True),
     we_pick = (\<lambda>_. Inr None), we_checks = [(''store'', \<lambda>_. True)], we_max_body = 1024, we_moved = (\<lambda>_. None),
     we_static = (\<lambda>_. ''{}''), we_schema = (\<lambda>_. None), we_stream = (\<lambda>_ _ _ h _. (200, h)), we_assets = None\<rparr>"

definition demo_web :: web where
  "demo_web = \<lparr>wb_hub = sample_hub, wb_hub_log = [], wb_id = empty_id_db, wb_id_log = [], wb_config = empty_db,
     wb_steering = \<lparr>sv_db = \<lparr>sd_sessions = [], sd_messages = [], sd_events = []\<rparr>, sv_sent = []\<rparr>, wb_log = []\<rparr>"


end
