(* ===== verification/Http_Access.thy ===== *)
theory Http_Access
  imports Http_Api
begin

text \<open>
  The whole way of a request: what a stranger can reach, what a failure tells, and what work a request
  starts and in whose name.
\<close>

section \<open>The authenticator a hub is served with\<close>

definition web_authenticate :: "authenticator list \<Rightarrow> credential \<Rightarrow> web \<Rightarrow> (id_error + person) \<times> web" where
  "web_authenticate as c w =
     (case authenticate_chain as c (wb_id w) (wb_id_log w) of
        (r, db, l) \<Rightarrow> (r, w\<lparr>wb_id := db, wb_id_log := l\<rparr>))"

text \<open>The automation token when one is configured is asked first, then the sessions.\<close>

definition hub_authenticators :: "web_env \<Rightarrow> static_token option \<Rightarrow> authenticator list" where
  "hub_authenticators env token =
     (case token of None \<Rightarrow> [] | Some t \<Rightarrow> [authenticate_token (we_id env) t]) @
     (if wp_sign_in (we_parts env) then [authenticate_session (we_id env)] else [])"

section \<open>What a stranger can reach\<close>

lemma route_is_listed: "route (resources sv env) ss = Some (res, ids) \<Longrightarrow>
    rs_pattern res \<in> set (all_patterns sv) \<and> match_pattern (rs_pattern res) ss = Some ids"
  using route_in resource_patterns by blast

definition open_resources :: "seg list list" where
  "open_resources = [[Lit ''.well-known'', Lit ''api-catalog''], [Lit ''api'', Lit ''v1'', Lit ''health''],
     [Lit ''api'', Lit ''v1'', Lit ''auth'', Lit ''sign-in''], [Lit ''api'', Lit ''v1'', Lit ''auth'', Lit ''callback'']]"

text \<open>C16: Whoever presents no accepted credential reaches four resources only: the catalogue of the API, its health,
  and the two a sign-in goes through.  If what the server answers such a request, or does for it, depends on
  the resource it is routed to at all, then the resource is one of the four.\<close>

theorem strangers_reach_the_sign_in_only:
  assumes "hs_base sv = base_path" and "hs_authenticates sv"
    and "\<forall>p w1. hq_authenticate around (credential_from r) (snd (hq_uuid around w)) \<noteq> (Inr p, w1)"
    and "route (resources sv env) (hr_segments r) = Some (res, ids)"
    and "api_server sv around env r cx h w \<noteq> build_handler sv around other r cx h w"
  shows "rs_pattern res \<in> set open_resources"
proof -
  have "is_public_route sv (hr_path r)"
    using handled_requests [OF assms(5) [unfolded api_server_def] refl] assms(2,3) by blast
  with route_is_listed [OF assms(4)] open_only [OF assms(1), of "rs_pattern res" r ids] show ?thesis
    by (auto simp: base_of [OF assms(1)] open_patterns_def open_resources_def)
qed

definition no_endpoint :: web_handler where
  "no_endpoint r cx h w = Http_Server.answered 404 h NoBody w"

abbreviation demo_probe :: http_request where
  "demo_probe \<equiv> demo_ask ''GET'' [''api'', ''v1'', ''health''] []"

lemma demo_host: "canonical_host (\<lambda>_. False) ''hub.local:8443'' = ''hub.local''"
  by code_simp

lemma demo_probe_admitted:
  "guarded demo_site demo_front mux demo_probe cx h w = mux demo_probe (seen_context demo_site demo_probe None cx) (seen_headers demo_probe h) w"
proof (rule guarded_admits)
  show "past_origin demo_site demo_front demo_probe"
    using demo_host by (simp add: past_origin_def demo_site_def demo_front_def demo_ask_def)
  show "past_credential demo_site demo_front demo_probe w = (Inr None, w)"
    by (simp add: past_credential_def is_public_route_def demo_site_def demo_ask_def hr_path_def)
  show "past_limits demo_site demo_front demo_probe w = (True, w)"
    by (simp add: past_limits_def mutates_def demo_ask_def demo_site_def demo_front_def)
qed

lemma demo_probe_answer:
  assumes "\<And>cx h. status_of_answer (fst (mux demo_probe cx h w)) = Some n"
  shows "status_of_answer (fst (build_handler demo_site demo_front mux demo_probe cx h w)) = Some n"
proof -
  have uuid: "hq_uuid demo_front w = (''request-1'', w)" by (simp add: demo_front_def)
  define h' where "h' = deprecation_headers demo_site"
  define cx' where "cx' = seen_context demo_site demo_probe None"
  have "\<exists>p w'. mux demo_probe cx h w = (Replied p, w') \<and> rp_status p = n" for cx h
    using assms [of cx h] by (cases "mux demo_probe cx h w"; cases "fst (mux demo_probe cx h w)") auto
  then obtain p w' where "\<And>cx h. mux demo_probe cx h w = (Replied (p cx h), w' cx h)" "\<And>cx h. rp_status (p cx h) = n"
    by metis
  then show ?thesis
    unfolding build_handler_def with_request_id_def access_log_def security_headers_def recover_panics_def deprecation_def
      demo_probe_admitted uuid
    by (simp add: Let_def)
qed

lemma demo_health_route:
  "route (resources demo_site demo_web_env) [''api'', ''v1'', ''health''] =
     Some (under_base demo_site [Lit ''health''] [(''GET'', handle_health demo_site demo_web_env)], [])"
  by (simp add: resources_def core_resources_def under_base_def base_of demo_site_def base_path_def)

lemma demo_health:
  "status_of_answer (fst (api_mux demo_site demo_web_env demo_probe cx h demo_web)) = Some 200"
  using demo_health_route
  by (simp add: api_mux_def demo_ask_def dispatch_def asked_method_def under_base_def handle_health_def demo_web_env_def demo_codec_def
      demo_web_def Http_Server.answered_def Let_def)

theorem strangers_reach_the_sign_in_only_witness:
  "[Lit ''api'', Lit ''v1'', Lit ''health''] \<in> set open_resources"
proof -
  have base: "hs_base demo_site = base_path" and auth: "hs_authenticates demo_site"
    by (simp_all add: demo_site_def base_path_def)
  have refused: "\<forall>p w1. hq_authenticate demo_front (credential_from demo_probe) (snd (hq_uuid demo_front demo_web)) \<noteq> (Inr p, w1)"
    by (simp add: demo_front_def credential_from_def demo_ask_def)
  have rt: "route (resources demo_site demo_web_env) (hr_segments demo_probe) =
      Some (under_base demo_site [Lit ''health''] [(''GET'', handle_health demo_site demo_web_env)], [])"
    using demo_health_route by (simp add: demo_ask_def)
  have "status_of_answer (fst (api_server demo_site demo_front demo_web_env demo_probe demo_context [] demo_web)) = Some 200"
    unfolding api_server_def by (rule demo_probe_answer) (rule demo_health)
  moreover have "status_of_answer (fst (build_handler demo_site demo_front no_endpoint demo_probe demo_context [] demo_web)) = Some 404"
    by (rule demo_probe_answer) (simp add: no_endpoint_def Http_Server.answered_def)
  ultimately have "api_server demo_site demo_front demo_web_env demo_probe demo_context [] demo_web \<noteq>
      build_handler demo_site demo_front no_endpoint demo_probe demo_context [] demo_web"
    by auto
  from strangers_reach_the_sign_in_only [OF base auth refused rt this] show ?thesis
    by (simp add: under_base_def base_of [OF base])
qed

section \<open>What a failure tells\<close>

definition own_fault :: "problem_code \<Rightarrow> bool" where
  "own_fault c = (500 \<le> code_status c)"

definition plainly :: "failure \<Rightarrow> string list \<Rightarrow> bool" where
  "plainly f known = (own_fault (fst f) \<longrightarrow> f = over_time \<or> f = (InternalError, [], []) \<or> (\<exists>t. known = [t] \<and> f = (DependencyUnavailable, t, [])))"

lemma plain_failures_agree:
  assumes "plainly f [t]" "plainly g [t]" "own_fault (fst f)" "fst f = fst g"
  shows "f = g"
  using assms by (auto simp: plainly_def over_time_def)

lemma plain_over_time [simp]: "plainly over_time ts"
  by (simp add: plainly_def)

lemma plain_unclassified [simp]: "plainly (unclassified env t) ts"
  by (simp add: plainly_def unclassified_def)

lemma plain_dependency [simp]: "plainly (DependencyUnavailable, t, []) [t]"
  by (simp add: plainly_def)

lemma plain_internal [simp]: "plainly (InternalError, [], []) ts"
  by (simp add: plainly_def)

lemma plain_others [simp]: "code_status c < 500 \<Longrightarrow> plainly (c, t) ts"
  by (simp add: plainly_def own_fault_def)

lemma hub_plain: "plainly (hub_failure env e) [''a source this answer needs could not be reached'']"
proof (cases e)
  case (HubUnavailable what c)
  then show ?thesis
    by (auto simp: hub_failure_def unavailable_failure_def split: hub_cause.split port_fault.split store_error.split)
qed (auto simp: hub_failure_def)

lemma prompt_plain: "plainly (prompt_failure env e) [''prompt configuration could not be reached'']"
  by (cases e) (auto simp: prompt_failure_def)

lemma sign_in_plain: "plainly (sign_in_failure sv env e) [''the identity provider could not be reached'']"
  by (auto simp: sign_in_failure_def split: id_error.split id_store_error.split exec_fault.split)

text \<open>What failed inside is not told.  Two failures of the server's own, a source down, a time budget used
  up, a defect, that are of the same kind are answered in the same words, whatever failed and however: the
  hub's, the prompts' and sign-in's alike.\<close>

theorem own_failures_tell_only_their_kind:
  "(own_fault (fst (hub_failure env e)) \<and> fst (hub_failure env e) = fst (hub_failure env' e') \<longrightarrow>
      hub_failure env e = hub_failure env' e') \<and>
   (own_fault (fst (prompt_failure env x)) \<and> fst (prompt_failure env x) = fst (prompt_failure env' x') \<longrightarrow>
      prompt_failure env x = prompt_failure env' x') \<and>
   (own_fault (fst (sign_in_failure sv env y)) \<and> fst (sign_in_failure sv env y) = fst (sign_in_failure sv env' y') \<longrightarrow>
      sign_in_failure sv env y = sign_in_failure sv env' y')"
  by (intro conjI impI; elim conjE; rule plain_failures_agree; (rule hub_plain prompt_plain sign_in_plain | assumption))

section \<open>Starting work\<close>

lemma started_by:
  assumes "start_work env q db l = (r, db', l')" "la \<in> set (hd_launches db')" "la \<notin> set (hd_launches db)"
  shows "la_by la = sq_by q \<and> la_request la = sq_request q"
proof (rule start_work_cases [OF assms(1)], goal_cases)
  case (3 d spec w place now row')
  from pg_launch_cases [OF 3(4)] assms(2,3) show ?case by (auto simp: launch_row_def)
qed (use assms(2,3) in auto)

lemma problem_is_not_created: "rp_status p = 201 \<Longrightarrow> write_problem_about sv code detail c r cx h w \<noteq> (Replied p, w')"
  by (cases code) (auto simp: write_problem_about_def Let_def Http_Server.answered_def)

lemma failure_is_not_created: "rp_status p = 201 \<Longrightarrow> write_failure sv f r cx h w \<noteq> (Replied p, w')"
  by (cases f) (simp add: write_failure_def problem_is_not_created)

text \<open>C18: Work started through the API is its requester's.  An answer that says it was created names, as the place
  where the run is found, the launch the tables hold under the request's identity; and whatever launch the request
  added is recorded in the name of the principal its credential resolved to.\<close>

theorem work_is_started_as_its_requester:
  assumes "handle_start_work sv env ids r cx h w = (Replied p, w')" and "rp_status p = 201"
  shows "\<exists>b la. co_start (we_codec env) (we_max_body env) (hr_body r) = BodyOf b \<and>
    launch_at (wb_hub w') (zs_request b) = Some la \<and>
    header_values ''Location'' (rp_headers p) = [hs_base sv @ ''/runs/'' @ la_workflow la] \<and>
    (\<forall>x \<in> set (hd_launches (wb_hub w')) - set (hd_launches (wb_hub w)).
       la_by x = attributed_to cx \<and> la_request x = zs_request b)"
proof -
  note nc = problem_is_not_created [OF assms(2)] failure_is_not_created [OF assms(2)]
  from assms(1) obtain b where b: "co_start (we_codec env) (we_max_body env) (hr_body r) = BodyOf b"
    unfolding handle_start_work_def decode_json_def by (auto simp: write_problem_def nc split: if_splits decoded.splits)
  define q where "q = \<lparr>sq_request = zs_request b, sq_kind = zs_kind b, sq_place = zs_place b,
           sq_prompt = zs_prompt b, sq_worktree = zs_worktree b, sq_by = attributed_to cx\<rparr>"
  obtain res db l where run: "start_work (we_hub env) q (wb_hub w) (wb_hub_log w) = (res, db, l)" by (metis prod_cases3)
  from assms(1) b run obtain s where s: "res = Inr s"
      and w: "write_json sv env 201 ''started-work.v1'' (Published (StartedDoc (started_work_from (projected env) s))) r cx
           (set_header ''Location'' (hs_base sv @ ''/runs/'' @ sk_run s) h) (w\<lparr>wb_hub := db, wb_hub_log := l\<rparr>) = (Replied p, w')"
    unfolding handle_start_work_def decode_json_def from_hub_def
    by (auto simp: write_problem_def write_service_problem_def nc Let_def q_def [symmetric] split: if_splits sum.splits)
  from start_work_answers [OF run [unfolded s]] obtain la loc where la: "launch_at db (sq_request q) = Some la" "s = started_from la loc"
    by blast
  from w have p: "wb_hub w' = db" "header_values ''Location'' (rp_headers p) = [hs_base sv @ ''/runs/'' @ sk_run s]"
    by (auto simp: write_json_def write_problem_def Http_Server.answered_def nc Let_def split: option.splits if_splits)
  have "la_by x = attributed_to cx \<and> la_request x = zs_request b" if "x \<in> set (hd_launches db) - set (hd_launches (wb_hub w))" for x
    using started_by [OF run] that by (auto simp: q_def)
  with b la p show ?thesis by (auto simp: q_def started_from_def)
qed

definition demo_place :: string where
  "demo_place = location_id (\<lambda>x. x) (DirectoryPlace ''/src/app'' None)"

definition demo_start_env :: web_env where
  "demo_start_env = demo_web_env\<lparr>we_codec := demo_codec\<lparr>co_start := (\<lambda>_ b. BodyOf \<lparr>zs_request = ''req-1'', zs_kind = start_review,
     zs_place = demo_place, zs_prompt = [], zs_worktree = False\<rparr>)\<rparr>\<rparr>"

definition demo_signed_in :: http_context where
  "demo_signed_in = demo_context\<lparr>hc_principal := Some demo_person\<rparr>"

definition demo_post :: http_request where
  "demo_post = demo_ask ''POST'' [''api'', ''v1'', ''runs''] ''token''"

lemma demo_start:
  "map_prod id fst (start_work (sample_env []) (sample_request\<lparr>sq_by := attributed_to demo_signed_in\<rparr>) sample_hub []) =
     (Inr (started_from (sample_launch\<lparr>la_by := attributed_to demo_signed_in\<rparr>) (DirectoryPlace ''/src/app'' None)),
      sample_hub\<lparr>hd_launches := [sample_launch\<lparr>la_by := attributed_to demo_signed_in\<rparr>]\<rparr>)"
  by code_simp

theorem work_is_started_as_its_requester_witness:
  "\<exists>p w' x. handle_start_work demo_site demo_start_env [] demo_post demo_signed_in [] demo_web = (Replied p, w') \<and>
     hd_launches (wb_hub w') = [x] \<and> la_by x = principal_id demo_person"
proof -
  obtain l where run: "start_work (sample_env []) (sample_request\<lparr>sq_by := attributed_to demo_signed_in\<rparr>) sample_hub [] =
     (Inr (started_from (sample_launch\<lparr>la_by := attributed_to demo_signed_in\<rparr>) (DirectoryPlace ''/src/app'' None)),
      sample_hub\<lparr>hd_launches := [sample_launch\<lparr>la_by := attributed_to demo_signed_in\<rparr>]\<rparr>, l)"
    using demo_start by (cases "start_work (sample_env []) (sample_request\<lparr>sq_by := attributed_to demo_signed_in\<rparr>) sample_hub []") auto
  have json: "is_json demo_start_env ''application/json''"
    by (simp add: is_json_def demo_start_env_def demo_web_env_def demo_codec_def) code_simp
  have q: "\<lparr>sq_request = ''req-1'', sq_kind = start_review, sq_place = demo_place,
      sq_prompt = [], sq_worktree = False, sq_by = attributed_to demo_signed_in\<rparr> =
      sample_request\<lparr>sq_by := attributed_to demo_signed_in\<rparr>" by (simp add: sample_request_def demo_place_def)
  have env: "co_start (we_codec demo_start_env) = (\<lambda>_ b. BodyOf \<lparr>zs_request = ''req-1'', zs_kind = start_review,
     zs_place = demo_place, zs_prompt = [], zs_worktree = False\<rparr>)"
    "we_hub demo_start_env = sample_env []" "co_encode (we_codec demo_start_env) = (\<lambda>_. Some ''{}'')"
    by (simp_all add: demo_start_env_def demo_web_env_def demo_codec_def)
  have web: "wb_hub demo_web = sample_hub" "wb_hub_log demo_web = []" by (simp_all add: demo_web_def)
  obtain p w' where a: "handle_start_work demo_site demo_start_env [] demo_post demo_signed_in [] demo_web = (Replied p, w')"
      "rp_status p = 201" "hd_launches (wb_hub w') = [sample_launch\<lparr>la_by := attributed_to demo_signed_in\<rparr>]"
    using run by (auto simp: handle_start_work_def decode_json_def json env from_hub_def web q write_json_def Http_Server.answered_def Let_def
        demo_post_def demo_ask_def)
  have who: "attributed_to demo_signed_in = principal_id demo_person" by code_simp
  have "sample_launch\<lparr>la_by := attributed_to demo_signed_in\<rparr> \<in> set (hd_launches (wb_hub w')) - set (hd_launches (wb_hub demo_web))"
    using a(3) by (simp add: web sample_hub_def empty_hub_def)
  with work_is_started_as_its_requester [OF a(1,2)] a(1,3) who show ?thesis by auto
qed


end
