(* ===== verification/Http_Streams.thy ===== *)
theory Http_Streams
  imports Http_Api
begin

text \<open>
  The two event streams: how many may be open at once, where a stream starts, and the loop that polls
  the store, writes what is new and asks again whether the credential is still good.  The connection
  is a parameter: how many frames it takes in a round, and when the client goes away.
\<close>

section \<open>How many streams may be open\<close>

record stream_limiter =
  sl_principals :: "string \<Rightarrow> int"
  sl_sessions :: "string \<Rightarrow> int"
  sl_principal_limit :: int
  sl_session_limit :: int

definition new_stream_limiter :: "int \<Rightarrow> int \<Rightarrow> stream_limiter" where
  "new_stream_limiter p s = \<lparr>sl_principals = (\<lambda>_. 0), sl_sessions = (\<lambda>_. 0), sl_principal_limit = p, sl_session_limit = s\<rparr>"

definition count_by :: "int \<Rightarrow> string \<Rightarrow> string \<Rightarrow> stream_limiter \<Rightarrow> stream_limiter" where
  "count_by n who session l =
     l\<lparr>sl_principals := (sl_principals l)(who := sl_principals l who + n),
       sl_sessions := (if session \<noteq> [] then (sl_sessions l)(session := sl_sessions l session + n) else sl_sessions l)\<rparr>"

definition acquire :: "string \<Rightarrow> string \<Rightarrow> stream_limiter \<Rightarrow> stream_limiter option" where
  "acquire who session l =
     (if sl_principal_limit l \<le> sl_principals l who \<or> session \<noteq> [] \<and> sl_session_limit l \<le> sl_sessions l session then None
      else Some (count_by 1 who session l))"

definition release :: "string \<Rightarrow> string \<Rightarrow> stream_limiter \<Rightarrow> stream_limiter" where
  "release who session l = count_by (- 1) who session l"

text \<open>Streams open and end in any order; each ends once, where its handler returns.\<close>

type_synonym open_streams = "(string \<times> string) list"

inductive stream_step :: "stream_limiter \<times> open_streams \<Rightarrow> stream_limiter \<times> open_streams \<Rightarrow> bool" where
  opened: "acquire p s l = Some l' \<Longrightarrow> stream_step (l, os) (l', (p, s) # os)"
| ended: "(p, s) \<in> set os \<Longrightarrow> stream_step (l, os) (release p s l, remove1 (p, s) os)"

inductive streams_reach :: "stream_limiter \<Rightarrow> stream_limiter \<times> open_streams \<Rightarrow> bool" for l0 where
  start: "streams_reach l0 (l0, [])"
| step: "streams_reach l0 a \<Longrightarrow> stream_step a b \<Longrightarrow> streams_reach l0 b"

definition open_for :: "open_streams \<Rightarrow> string \<Rightarrow> nat" where
  "open_for os p = length (filter (\<lambda>x. fst x = p) os)"

definition open_on :: "open_streams \<Rightarrow> string \<Rightarrow> nat" where
  "open_on os s = length (filter (\<lambda>x. snd x = s) os)"

lemma filter_remove1:
  "x \<in> set xs \<Longrightarrow> length (filter P xs) = length (filter P (remove1 x xs)) + (if P x then 1 else 0)"
  by (induction xs) auto

definition counted :: "int \<Rightarrow> int \<Rightarrow> stream_limiter \<times> open_streams \<Rightarrow> bool" where
  "counted pl sl x = (case x of (l, os) \<Rightarrow> sl_principal_limit l = pl \<and> sl_session_limit l = sl \<and>
     (\<forall>p. sl_principals l p = int (open_for os p) \<and> int (open_for os p) \<le> pl) \<and>
     (\<forall>s. s \<noteq> [] \<longrightarrow> sl_sessions l s = int (open_on os s) \<and> int (open_on os s) \<le> sl))"

lemma step_counted: "stream_step a b \<Longrightarrow> counted pl sl a \<Longrightarrow> counted pl sl b"
proof (induction rule: stream_step.induct)
  case (opened p s l l' os)
  then show ?case
    by (auto simp: acquire_def count_by_def counted_def open_for_def open_on_def split: if_splits)
next
  case (ended p s os l)
  have os: "open_for os q = open_for (remove1 (p, s) os) q + (if q = p then 1 else 0)"
    "open_on os t = open_on (remove1 (p, s) os) t + (if t = s then 1 else 0)" for q t
    using filter_remove1 [OF ended(1)] by (auto simp: open_for_def open_on_def)
  have l: "sl_principal_limit l = pl" "sl_session_limit l = sl" "sl_principals l q = int (open_for os q)" "int (open_for os q) \<le> pl"
    "t \<noteq> [] \<Longrightarrow> sl_sessions l t = int (open_on os t) \<and> int (open_on os t) \<le> sl" for q t
    using ended(2) by (auto simp: counted_def)
  have "sl_principals (release p s l) q = int (open_for (remove1 (p, s) os) q) \<and> int (open_for (remove1 (p, s) os) q) \<le> pl" for q
    using l(3,4) [of q] os(1) [of q] by (auto simp: release_def count_by_def)
  moreover have "sl_sessions (release p s l) t = int (open_on (remove1 (p, s) os) t) \<and> int (open_on (remove1 (p, s) os) t) \<le> sl"
    if "t \<noteq> []" for t
    using l(5) [OF that] os(2) [of t] that by (auto simp: release_def count_by_def)
  ultimately show ?case using l(1,2) by (simp add: counted_def release_def count_by_def)
qed

text \<open>C39: However streams open and end, no principal ever has more than its share of them open and no session
  either; the counts are those of the streams that are open, so none is lost or counted twice, and a stream
  is refused only when the principal or the session has its share open.\<close>

theorem stream_limits_hold:
  assumes "0 \<le> pl" "0 \<le> sl" and "streams_reach (new_stream_limiter pl sl) (l, os)"
  shows "int (open_for os p) \<le> pl \<and> (s \<noteq> [] \<longrightarrow> int (open_on os s) \<le> sl) \<and>
    (acquire p s l = None \<longleftrightarrow> int (open_for os p) = pl \<or> s \<noteq> [] \<and> int (open_on os s) = sl)"
proof -
  have "counted pl sl (l, os)"
    using assms(3)
  proof (induction "(l, os)" arbitrary: l os rule: streams_reach.induct)
    case start
    then show ?case using assms(1,2) by (simp add: counted_def new_stream_limiter_def open_for_def open_on_def)
  next
    case (step a)
    then show ?case using step_counted by (cases a) blast
  qed
  then have c: "sl_principal_limit l = pl" "sl_session_limit l = sl" "sl_principals l p = int (open_for os p)" "int (open_for os p) \<le> pl"
      "s \<noteq> [] \<Longrightarrow> sl_sessions l s = int (open_on os s) \<and> int (open_on os s) \<le> sl"
    by (auto simp: counted_def)
  then show ?thesis by (cases "s = []") (auto simp: acquire_def)
qed

theorem stream_limits_hold_witness:
  "\<exists>l. streams_reach (new_stream_limiter 4 2) (l, [(''ann'', ''s''), (''ann'', ''s'')]) \<and> acquire ''ben'' ''s'' l = None \<and>
     acquire ''ben'' [] l \<noteq> None"
proof -
  let ?l0 = "new_stream_limiter 4 2"
  obtain l1 where l1: "acquire ''ann'' ''s'' ?l0 = Some l1" by (simp add: acquire_def new_stream_limiter_def)
  then obtain l2 where l2: "acquire ''ann'' ''s'' l1 = Some l2" by (auto simp: acquire_def new_stream_limiter_def count_by_def)
  have reach: "streams_reach ?l0 (l2, [(''ann'', ''s''), (''ann'', ''s'')])"
    by (rule streams_reach.step [OF streams_reach.step [OF streams_reach.start stream_step.opened [OF l1]] stream_step.opened [OF l2]])
  have "acquire ''ben'' ''s'' l2 = None" "acquire ''ben'' [] l2 \<noteq> None"
    using stream_limits_hold [OF _ _ reach, of "''ben''" "''s''"] stream_limits_hold [OF _ _ reach, of "''ben''" "[]"]
    by (auto simp: open_on_def open_for_def)
  with reach show ?thesis by blast
qed

section \<open>Where a stream starts\<close>

text \<open>\<open>strconv.ParseInt\<close> is \<open>atoi\<close> here: both read 64 bits.  The arguments are what \<open>after\<close> and \<open>Last-Event-ID\<close> say.\<close>

definition stream_position :: "string \<Rightarrow> string \<Rightarrow> string + nat" where
  "stream_position after last_event =
     (let v = (if trim_space after = [] then trim_space last_event else trim_space after) in
      if v = [] then Inr 0
      else case atoi v of
        None \<Rightarrow> Inl ''the stream position must be a non-negative integer''
      | Some n \<Rightarrow> if n < 0 then Inl ''the stream position must be a non-negative integer'' else Inr (nat n))"

definition stream_owner :: "http_context \<Rightarrow> string" where
  "stream_owner cx = (case principal_from cx of Some p \<Rightarrow> principal_id p | None \<Rightarrow> ''anonymous'')"

definition begin_stream :: "http_server \<Rightarrow> string \<Rightarrow> stream_limiter \<Rightarrow> http_request \<Rightarrow> http_context \<Rightarrow> headers \<Rightarrow> 'w \<Rightarrow>
   ('d outcome_of_handler \<times> 'w) + (headers \<times> stream_limiter)" where
  "begin_stream sv session l r cx h w =
     (case acquire (stream_owner cx) session l of
        None \<Rightarrow> Inl (write_problem sv TooManyRequests ''too many event streams are already open for this credential'' r cx h w)
      | Some l' \<Rightarrow> Inr (set_header ''X-Accel-Buffering'' ''no'' (set_header ''Cache-Control'' ''no-cache''
          (set_header ''Content-Type'' ''text/event-stream'' h)), l'))"

section \<open>The loop\<close>

text \<open>
  One round of the loop: the store as it is then and its fault, how many frames the connection still takes, and
  what ends the wait: the client goes away, or the ticker, after which the credential is asked again.
\<close>

datatype pulse = ClientGone | Ticked "id_error + person"

record stream_round =
  ro_store :: steering_db
  ro_fault :: "string option"
  ro_room :: "nat option"
  ro_pulse :: pulse

datatype 'a frame = Item 'a | StreamError string | AuthExpired

datatype stream_end = StillOpen | WentAway | WriteFailed | ReadFailed | Expired

definition credential_valid :: "http_server \<Rightarrow> id_error + person \<Rightarrow> bool" where
  "credential_valid sv answer = (\<not> hs_authenticates sv \<or> \<not> isl answer)"

text \<open>A frame that cannot be written ends the stream; the position is that of the last one written.\<close>

fun send_items :: "('a \<Rightarrow> nat) \<Rightarrow> nat option \<Rightarrow> nat \<Rightarrow> 'a list \<Rightarrow> 'a list \<times> nat \<times> bool" where
  "send_items sq room pos [] = ([], pos, True)"
| "send_items sq room pos (x # xs) =
     (if room = Some 0 then ([], pos, False)
      else case send_items sq (map_option (\<lambda>n. n - 1) room) (sq x) xs of (ys, p, ok) \<Rightarrow> (x # ys, p, ok))"

fun stream_loop :: "(steering_db \<Rightarrow> string option \<Rightarrow> nat \<Rightarrow> steering_error + 'a list) \<Rightarrow> ('a \<Rightarrow> nat) \<Rightarrow> http_server \<Rightarrow> string \<Rightarrow>
   nat \<Rightarrow> stream_round list \<Rightarrow> 'a frame list \<times> nat \<times> stream_end" where
  "stream_loop rd sq sv detail pos [] = ([], pos, StillOpen)"
| "stream_loop rd sq sv detail pos (r # rs) =
     (case rd (ro_store r) (ro_fault r) pos of
        Inl e \<Rightarrow> ([StreamError detail], pos, ReadFailed)
      | Inr xs \<Rightarrow>
          (case send_items sq (ro_room r) pos xs of (ys, p, ok) \<Rightarrow>
             if \<not> ok then (map Item ys, p, WriteFailed)
             else case ro_pulse r of
               ClientGone \<Rightarrow> (map Item ys, p, WentAway)
             | Ticked a \<Rightarrow>
                 if credential_valid sv a
                 then (case stream_loop rd sq sv detail p rs of (zs, p', e) \<Rightarrow> (map Item ys @ zs, p', e))
                 else (map Item ys @ [AuthExpired], p, Expired)))"

definition stream_batch_size :: int where "stream_batch_size = 100"

definition svc_messages :: "string \<Rightarrow> steering_db \<Rightarrow> string option \<Rightarrow> nat \<Rightarrow> steering_error + message list" where
  "svc_messages sid db flaw after =
     (case read_messages flaw sid after db of
        Inl e \<Rightarrow> Inl (unavailable ''read the steering conversation'' e)
      | Inr ms \<Rightarrow> Inr ms)"

definition svc_events :: "int \<Rightarrow> steering_db \<Rightarrow> string option \<Rightarrow> nat \<Rightarrow> steering_error + steering_event list" where
  "svc_events limit db flaw after =
     (case read_events flaw after limit db of
        Inl e \<Rightarrow> Inl (unavailable ''read hub events'' e)
      | Inr es \<Rightarrow> Inr es)"

definition conversation_events :: "http_server \<Rightarrow> string \<Rightarrow> nat \<Rightarrow> stream_round list \<Rightarrow> message frame list \<times> nat \<times> stream_end" where
  "conversation_events sv sid = stream_loop (svc_messages sid) ms_sequence sv ''the conversation is unavailable''"

definition hub_events :: "http_server \<Rightarrow> nat \<Rightarrow> stream_round list \<Rightarrow> steering_event frame list \<times> nat \<times> stream_end" where
  "hub_events sv = stream_loop (svc_events stream_batch_size) ev_sequence sv ''hub events are unavailable''"

fun items :: "'a frame list \<Rightarrow> 'a list" where
  "items [] = []"
| "items (Item x # fs) = x # items fs"
| "items (StreamError d # fs) = items fs"
| "items (AuthExpired # fs) = items fs"

lemma items_append [simp]: "items (fs @ gs) = items fs @ items gs"
  by (induction fs rule: items.induct) auto

lemma items_map [simp]: "items (map Item xs) = xs"
  by (induction xs) auto

section \<open>A feed\<close>

text \<open>
  What a store promises a stream: what it holds is numbered upwards and only grows at its end, and a reading
  after a position is a first part of what lies beyond it.
\<close>

locale feed =
  fixes rd :: "steering_db \<Rightarrow> string option \<Rightarrow> nat \<Rightarrow> steering_error + 'a list"
    and sq :: "'a \<Rightarrow> nat"
    and held :: "steering_db \<Rightarrow> 'a list"
    and grown :: "steering_db \<Rightarrow> steering_db \<Rightarrow> bool"
  assumes numbered: "grown a b \<Longrightarrow> sorted_wrt (<) (map sq (held b))"
    and extended: "grown a b \<Longrightarrow> \<exists>more. held b = held a @ more"
    and read: "grown a b \<Longrightarrow> rd a f pos = Inr xs \<Longrightarrow> \<exists>n. xs = take n (filter (\<lambda>x. pos < sq x) (held a))"
begin

definition between :: "nat \<Rightarrow> nat \<Rightarrow> 'a list \<Rightarrow> 'a list" where
  "between lo hi xs = filter (\<lambda>x. lo < sq x \<and> sq x \<le> hi) xs"

lemma between_split: "lo \<le> mid \<Longrightarrow> mid \<le> hi \<Longrightarrow> sorted_wrt (<) (map sq xs) \<Longrightarrow> between lo hi xs = between lo mid xs @ between mid hi xs"
proof (induction xs)
  case (Cons x xs)
  have "filter (\<lambda>x. lo < sq x \<and> sq x \<le> mid) xs = []" if "mid < sq x"
    using Cons.prems(3) that by (auto simp: filter_empty_conv)
  with Cons show ?case by (cases "sq x \<le> mid") (simp_all add: between_def)
qed (simp add: between_def)

lemma take_to_last:
  assumes "sorted_wrt (<) (map sq zs)" "take n zs \<noteq> []"
  shows "take n zs = filter (\<lambda>x. sq x \<le> sq (last (take n zs))) zs"
proof -
  let ?l = "last (take n zs)"
  have s: "sorted_wrt (<) (map sq (take n zs @ drop n zs))" using assms(1) by simp
  have up: "sq x \<le> sq ?l" if "x \<in> set (take n zs)" for x
  proof -
    have "take n zs = butlast (take n zs) @ [?l]" using assms(2) by simp
    then have "sorted_wrt (<) (map sq (butlast (take n zs) @ [?l]))" "x \<in> set (butlast (take n zs) @ [?l])"
      using s that by (simp_all only: map_append sorted_wrt_append)
    then show ?thesis by (auto simp: sorted_wrt_append)
  qed
  have down: "\<not> sq x \<le> sq ?l" if "x \<in> set (drop n zs)" for x
    using s that last_in_set [OF assms(2)] by (auto simp only: map_append sorted_wrt_append set_map not_le)
  have "filter (\<lambda>x. sq x \<le> sq ?l) (take n zs @ drop n zs) = take n zs"
    unfolding filter_append using up down by (simp add: filter_id_conv filter_empty_conv)
  then show ?thesis by simp
qed

lemma take_is_between:
  assumes "sorted_wrt (<) (map sq xs)" and "ys = take n (filter (\<lambda>x. pos < sq x) xs)"
    and "p = (if ys = [] then pos else sq (last ys))"
  shows "pos \<le> p \<and> ys = between pos p xs"
proof (cases "ys = []")
  case True
  then show ?thesis using assms(3) by (simp add: between_def)
next
  case False
  let ?zs = "filter (\<lambda>x. pos < sq x) xs"
  have "sorted_wrt (<) (map sq ?zs)" using assms(1) by (simp add: sorted_wrt_map sorted_wrt_filter)
  from take_to_last [OF this] False assms(2) have "ys = filter (\<lambda>x. sq x \<le> sq (last ys)) ?zs" by metis
  moreover have "last ys \<in> set ?zs" using False assms(2) by (meson in_set_takeD last_in_set)
  ultimately show ?thesis using False assms(3) by (auto simp: between_def conj_commute)
qed

lemma send_takes: "\<exists>n. fst (send_items sq room pos xs) = take n xs \<and>
    fst (snd (send_items sq room pos xs)) = (if take n xs = [] then pos else sq (last (take n xs))) \<and>
    (snd (snd (send_items sq room pos xs)) \<longrightarrow> take n xs = xs)"
proof (induction sq room pos xs rule: send_items.induct)
  case (2 sq room pos x xs)
  show ?case
  proof (cases "room = Some 0")
    case True
    then show ?thesis by (intro exI [of _ 0]) simp
  next
    case False
    with 2 obtain n where "fst (send_items sq (map_option (\<lambda>n. n - 1) room) (sq x) xs) = take n xs"
        "fst (snd (send_items sq (map_option (\<lambda>n. n - 1) room) (sq x) xs)) = (if take n xs = [] then sq x else sq (last (take n xs)))"
        "snd (snd (send_items sq (map_option (\<lambda>n. n - 1) room) (sq x) xs)) \<longrightarrow> take n xs = xs" by blast
    with False show ?thesis by (intro exI [of _ "Suc n"]) (auto split: prod.split)
  qed
qed simp

lemma numbered_before: "grown a b \<Longrightarrow> sorted_wrt (<) (map sq (held a))"
  using numbered [of a b] extended [of a b] by (auto simp: sorted_wrt_append)

lemma between_grown:
  assumes "grown a b" and "p = pos \<or> p \<in> sq ` set (held a)"
  shows "between pos p (held b) = between pos p (held a)"
proof -
  obtain more where b: "held b = held a @ more" using extended [OF assms(1)] by blast
  have up: "sq y < sq x" if "x \<in> set more" "y \<in> set (held a)" for x y
    using that numbered [OF assms(1)] by (auto simp: b sorted_wrt_append)
  have "\<not> (pos < sq x \<and> sq x \<le> p)" if "x \<in> set more" for x
    using assms(2) up [OF that] by (auto simp: not_le)
  then have "between pos p more = []" by (simp add: between_def filter_empty_conv)
  then show ?thesis by (simp add: b between_def)
qed

text \<open>What a round writes is exactly what lies between the position it found and the one it leaves.\<close>

lemma round_sends:
  assumes "grown a b" "rd a f pos = Inr xs" "send_items sq room pos xs = (ys, p, ok)"
  shows "pos \<le> p \<and> ys = between pos p (held b)"
proof -
  obtain n where n: "xs = take n (filter (\<lambda>x. pos < sq x) (held a))" using read [OF assms(1,2)] by blast
  obtain m where m: "ys = take m xs" "p = (if take m xs = [] then pos else sq (last (take m xs)))"
    using send_takes [of room pos xs] assms(3) by auto
  have ys: "ys = take (min m n) (filter (\<lambda>x. pos < sq x) (held a))" using n m(1) by (simp add: min.commute)
  have p: "p = (if ys = [] then pos else sq (last ys))" using m by simp
  note sent = take_is_between [OF numbered_before [OF assms(1)] ys p]
  have "set ys \<subseteq> set (held a)" using sent by (auto simp: between_def)
  then have "p = pos \<or> p \<in> sq ` set (held a)" using p last_in_set [of ys] by (cases "ys = []") (simp, metis imageI subsetD)
  from between_grown [OF assms(1) this] sent show ?thesis by simp
qed

text \<open>What a stream writes, over all its rounds, is what lies between where it started and where it stands.\<close>

lemma stream_sends:
  assumes "\<forall>r \<in> set rs. grown (ro_store r) b" and "rs \<noteq> [] \<or> sorted_wrt (<) (map sq (held b))"
    and "stream_loop rd sq sv detail pos rs = (fs, p, e)"
  shows "pos \<le> p \<and> items fs = between pos p (held b)"
  using assms
proof (induction rs arbitrary: pos fs p e)
  case Nil
  then show ?case by (auto simp: between_def)
next
  case (Cons r rs)
  then have g: "grown (ro_store r) b" by simp
  show ?case
  proof (cases "rd (ro_store r) (ro_fault r) pos")
    case (Inl x)
    with Cons.prems(3) show ?thesis by (auto simp: between_def)
  next
    case (Inr xs)
    obtain ys q ok where s: "send_items sq (ro_room r) pos xs = (ys, q, ok)" by (metis prod_cases3)
    note sent = round_sends [OF g Inr s]
    show ?thesis
    proof (cases "ok \<and> (\<exists>a. ro_pulse r = Ticked a \<and> credential_valid sv a)")
      case False
      with Cons.prems(3) Inr s sent show ?thesis by (auto split: pulse.splits if_splits)
    next
      case True
      obtain zs p' e' where z: "stream_loop rd sq sv detail q rs = (zs, p', e')" by (metis prod_cases3)
      have rest: "q \<le> p' \<and> items zs = between q p' (held b)"
        using Cons.IH [OF _ _ z] Cons.prems(1) numbered [OF g] by auto
      have "fs = map Item ys @ zs" "p = p'" using Cons.prems(3) Inr s True z by auto
      with sent rest between_split [of pos q p' "held b"] numbered [OF g] show ?thesis by auto
    qed
  qed
qed

end

text \<open>A feed without batches: a reading is all there is beyond a position.\<close>

locale whole_feed = feed +
  assumes whole: "grown a b \<Longrightarrow> rd a f pos = Inr xs \<Longrightarrow> xs = filter (\<lambda>x. pos < sq x) (held a)"
begin

lemma open_is_caught_up:
  assumes "\<forall>r \<in> set rs. grown (ro_store r) b" and "stream_loop rd sq sv detail pos rs = (fs, p, StillOpen)" and "rs \<noteq> []"
  shows "\<forall>x \<in> set (held (ro_store (last rs))). sq x \<le> p"
  using assms
proof (induction rs arbitrary: pos fs)
  case (Cons r rs)
  then have g: "grown (ro_store r) b" by simp
  from Cons.prems(2) obtain xs ys q where xs: "rd (ro_store r) (ro_fault r) pos = Inr xs"
      and s: "send_items sq (ro_room r) pos xs = (ys, q, True)"
    by (auto split: sum.splits prod.splits if_splits)
  with Cons.prems(2) obtain zs where z: "stream_loop rd sq sv detail q rs = (zs, p, StillOpen)"
    by (auto split: pulse.splits if_splits prod.splits)
  show ?case
  proof (cases "rs = []")
    case True
    have "ys = xs" using send_takes [of "ro_room r" pos xs] s by auto
    with round_sends [OF g xs s] have "xs = between pos p (held b)" "pos \<le> p" using z True by auto
    then have "sq x \<le> p" if "x \<in> set xs" for x using that by (auto simp: between_def)
    with whole [OF g xs] \<open>pos \<le> p\<close> True show ?thesis by (auto simp: not_less dest: order_trans) (meson le_trans not_less)
  next
    case False
    with Cons.IH [OF _ z] Cons.prems(1) show ?thesis by simp
  qed
qed simp

end

section \<open>The messages of a session\<close>

definition session_messages :: "string \<Rightarrow> steering_db \<Rightarrow> message list" where
  "session_messages sid db = filter (\<lambda>m. ms_session m = sid) (sd_messages db)"

definition messages_numbered :: "steering_db \<Rightarrow> bool" where
  "messages_numbered db = (\<forall>sid. sorted_wrt (<) (map ms_sequence (session_messages sid db)))"

text \<open>From one state of the store to a later one messages are only appended.\<close>

definition messages_grow :: "steering_db \<Rightarrow> steering_db \<Rightarrow> bool" where
  "messages_grow a b = (messages_numbered b \<and> (\<exists>more. sd_messages b = sd_messages a @ more))"

lemma sort_key_sorted: "sorted (map f xs) \<Longrightarrow> sort_key f xs = xs"
  by (induction xs) (auto simp: insort_is_Cons)

lemma numbers_sorted: "sorted_wrt (<) (xs :: nat list) \<Longrightarrow> sorted xs"
  by (induction xs) auto

interpretation conversation: whole_feed "svc_messages sid" ms_sequence "session_messages sid" messages_grow for sid
proof
  show "messages_grow a b \<Longrightarrow> sorted_wrt (<) (map ms_sequence (session_messages sid b))" for a b
    by (simp add: messages_grow_def messages_numbered_def)
  show "messages_grow a b \<Longrightarrow> \<exists>more. session_messages sid b = session_messages sid a @ more" for a b
    by (auto simp: messages_grow_def session_messages_def)
  show whole: "xs = filter (\<lambda>x. pos < ms_sequence x) (session_messages sid a)"
    if "messages_grow a b" "svc_messages sid a f pos = Inr xs" for a b f pos xs
  proof -
    from that(1) have "sorted_wrt (<) (map ms_sequence (session_messages sid a))"
      by (auto simp: messages_grow_def messages_numbered_def session_messages_def sorted_wrt_append)
    then have "sorted (map ms_sequence (filter (\<lambda>x. pos < ms_sequence x) (session_messages sid a)))"
      by (intro sorted_filter numbers_sorted)
    with that(2) show ?thesis
      by (auto simp: svc_messages_def read_messages_def rbind_eq_Inr session_messages_def filter_filter conj_commute sort_key_sorted
          split: sum.splits)
  qed
  show "\<exists>n. xs = take n (filter (\<lambda>x. pos < ms_sequence x) (session_messages sid a))"
    if "messages_grow a b" "svc_messages sid a f pos = Inr xs" for a b f pos xs
    using whole [OF that] by (metis take_all order_refl)
qed

lemma numbered_start: "messages_numbered \<lparr>sd_sessions = ss, sd_messages = [], sd_events = es\<rparr>"
  by (simp add: messages_numbered_def session_messages_def)

lemma append_grows:
  assumes "messages_numbered db"
  shows "messages_grow db (snd (append_message f now m db))"
proof (cases "\<exists>m'. append_message f now m db = (Inr m', db\<lparr>sd_messages := sd_messages db @ [m']\<rparr>) \<and> ms_session m' = ms_session m \<and>
    ms_sequence m' = Suc (foldr max (map ms_sequence (session_messages (ms_session m) db)) 0)")
  case True
  then obtain m' where m: "snd (append_message f now m db) = db\<lparr>sd_messages := sd_messages db @ [m']\<rparr>" "ms_session m' = ms_session m"
      "ms_sequence m' = Suc (foldr max (map ms_sequence (session_messages (ms_session m) db)) 0)" by auto
  have "ms_sequence x < ms_sequence m'" if "x \<in> set (session_messages (ms_session m) db)" for x
    using foldr_max_ge [of "ms_sequence x" "map ms_sequence (session_messages (ms_session m) db)"] that m(3) by simp
  with assms m show ?thesis
    by (auto simp: messages_grow_def messages_numbered_def session_messages_def sorted_wrt_append)
next
  case False
  then have "snd (append_message f now m db) = db"
    by (auto simp: append_message_def session_messages_def Let_def split: sum.splits option.splits)
  with assms show ?thesis by (simp add: messages_grow_def)
qed

lemma same_messages_grow: "messages_numbered a \<Longrightarrow> sd_messages b = sd_messages a \<Longrightarrow> messages_grow a b"
  by (simp add: messages_grow_def messages_numbered_def session_messages_def)

lemma updates_keep_messages [simp]:
  "sd_messages (update_row sid f db) = sd_messages db" "sd_messages (add_event ty sid item at db) = sd_messages db"
  by (simp_all add: update_row_def add_event_def)

text \<open>Everything that writes to the store only adds turns, each numbered past those before it.\<close>

lemma operations_grow:
  assumes "messages_numbered (sv_db st)"
  shows "messages_grow (sv_db st) (sv_db (run_op op st))"
proof (cases op)
  case (OpAppend f now m)
  then show ?thesis using append_grows [OF assms] by simp
next
  case (OpDecide fr fw fs now sid d)
  have "sd_messages (snd (record_decision fw sid d now db)) = sd_messages db" for db
    by (auto simp: record_decision_def Let_def split: option.splits sum.splits if_splits)
  then have "sd_messages (sv_db (snd (decide fr fw fs now sid d st))) = sd_messages (sv_db st)"
    by (auto simp: decide_def split: sum.splits option.splits prod.splits) (metis snd_conv)+
  with assms OpDecide show ?thesis by (simp add: same_messages_grow)
next
  case (OpGuidance f sid g)
  have "sd_messages (snd (set_guidance f sid g db)) = sd_messages db" for db
    by (auto simp: set_guidance_def split: option.splits if_splits sum.splits)
  with assms OpGuidance show ?thesis by (simp add: same_messages_grow)
next
  case (OpOpen f now s)
  have "sd_messages (snd (open_session f now s db)) = sd_messages db" for db
    by (auto simp: open_session_def Let_def split: option.splits if_splits sum.splits)
  with assms OpOpen show ?thesis by (simp add: same_messages_grow)
next
  case (OpClose f sid d now)
  have "sd_messages (snd (close_session f sid d now db)) = sd_messages db" for db
    by (auto simp: close_session_def Let_def split: option.splits if_splits sum.splits)
  with assms OpClose show ?thesis by (simp add: same_messages_grow)
qed

section \<open>What a client receives\<close>

text \<open>C19: A client that watches a conversation and, whenever its connection breaks, comes back with the number of the
  last turn it got, receives every turn of the session beyond the point it began at, in order, none twice and
  none left out, up to the one it stands at: however the rounds fell, whatever failed, and however many
  turns were appended meanwhile.  While the stream is open, nothing is left of what the last round found.\<close>

theorem conversation_arrives_whole:
  assumes "\<forall>r \<in> set (rs1 @ rs2). messages_grow (ro_store r) final" and "messages_numbered final"
    and "conversation_events sv sid pos rs1 = (fs1, p1, e1)" and "conversation_events sv sid p1 rs2 = (fs2, p2, e2)"
  shows "items fs1 @ items fs2 = filter (\<lambda>m. pos < ms_sequence m \<and> ms_sequence m \<le> p2) (session_messages sid final) \<and>
    (e2 = StillOpen \<and> rs2 \<noteq> [] \<longrightarrow> (\<forall>m \<in> set (session_messages sid (ro_store (last rs2))). ms_sequence m \<le> p2))"
proof -
  have g: "\<forall>r \<in> set rs1. messages_grow (ro_store r) final" "\<forall>r \<in> set rs2. messages_grow (ro_store r) final"
    using assms(1) by auto
  have s: "sorted_wrt (<) (map ms_sequence (session_messages sid final))" using assms(2) by (simp add: messages_numbered_def)
  note run = assms(3,4) [unfolded conversation_events_def]
  have one: "pos \<le> p1 \<and> items fs1 = conversation.between pos p1 (session_messages sid final)"
    using conversation.stream_sends [OF g(1) _ run(1)] s by blast
  have two: "p1 \<le> p2 \<and> items fs2 = conversation.between p1 p2 (session_messages sid final)"
    using conversation.stream_sends [OF g(2) _ run(2)] s by blast
  have "items fs1 @ items fs2 = conversation.between pos p2 (session_messages sid final)"
    using one two conversation.between_split [OF _ _ s] by metis
  moreover have "\<forall>m \<in> set (session_messages sid (ro_store (last rs2))). ms_sequence m \<le> p2" if "e2 = StillOpen" "rs2 \<noteq> []"
    using conversation.open_is_caught_up [OF g(2) _ that(2)] run(2) that(1) by blast
  ultimately show ?thesis by (auto simp: conversation.between_def)
qed

definition demo_turn :: "nat \<Rightarrow> message" where
  "demo_turn n = \<lparr>ms_session = ''s'', ms_sequence = n, ms_role = ''agent'', ms_author = ''ann'', ms_text = ''Hm.'', ms_tokens = 1, ms_at = n\<rparr>"

definition demo_talk :: "message list \<Rightarrow> steering_db" where
  "demo_talk ms = \<lparr>sd_sessions = [\<lparr>sw_id = ''s'', sw_item = ''develop-1'', sw_round = round_pass_limit, sw_material = [],
     sw_directory = ''/src/app'', sw_repository = [], sw_guidance = [], sw_opened = 1, sw_state = state_waiting, sw_choice = [],
     sw_principal = [], sw_decided_at = None\<rparr>], sd_messages = ms, sd_events = []\<rparr>"

definition demo_round :: "steering_db \<Rightarrow> nat option \<Rightarrow> stream_round" where
  "demo_round db room = \<lparr>ro_store = db, ro_fault = None, ro_room = room, ro_pulse = Ticked (Inr demo_person)\<rparr>"

lemma demo_streams:
  "conversation_events demo_site ''s'' 0 [demo_round (demo_talk [demo_turn 1]) None, demo_round (demo_talk [demo_turn 1, demo_turn 2, demo_turn 3]) (Some 1)] =
     ([Item (demo_turn 1), Item (demo_turn 2)], 2, WriteFailed)"
  "conversation_events demo_site ''s'' 2 [demo_round (demo_talk [demo_turn 1, demo_turn 2, demo_turn 3]) None] = ([Item (demo_turn 3)], 3, StillOpen)"
  by code_simp+

theorem conversation_arrives_whole_witness:
  "items [Item (demo_turn 1), Item (demo_turn 2)] @ items [Item (demo_turn 3)] =
     filter (\<lambda>m. 0 < ms_sequence m \<and> ms_sequence m \<le> 3) (session_messages ''s'' (demo_talk [demo_turn 1, demo_turn 2, demo_turn 3]))"
proof -
  let ?final = "demo_talk [demo_turn 1, demo_turn 2, demo_turn 3]"
  have n: "messages_numbered ?final"
    by (auto simp: messages_numbered_def session_messages_def demo_talk_def demo_turn_def)
  then have "\<forall>r \<in> set ([demo_round (demo_talk [demo_turn 1]) None, demo_round ?final (Some 1)] @ [demo_round ?final None]).
      messages_grow (ro_store r) ?final"
    by (simp add: messages_grow_def demo_round_def demo_talk_def)
  from conversation_arrives_whole [OF this n demo_streams] show ?thesis by simp
qed

text \<open>
  The hub's events are a feed too, as long as they become visible in the order of their numbers.  A number is
  drawn when the event is inserted and the event becomes visible when its transaction commits, so another
  transaction can commit a later number first: then a stream passes the earlier one by.
\<close>

definition events_grow :: "steering_db \<Rightarrow> steering_db \<Rightarrow> bool" where
  "events_grow a b = (sorted_wrt (<) (map ev_sequence (sd_events b)) \<and> (\<exists>more. sd_events b = sd_events a @ more))"

interpretation hub: feed "svc_events limit" ev_sequence sd_events events_grow for limit
proof
  show "\<exists>n. xs = take n (filter (\<lambda>x. pos < ev_sequence x) (sd_events a))"
    if "events_grow a b" "svc_events limit a f pos = Inr xs" for a b f pos xs
  proof -
    from that(1) have "sorted_wrt (<) (map ev_sequence (sd_events a))" by (auto simp: events_grow_def sorted_wrt_append)
    then have "sorted (map ev_sequence (filter (\<lambda>x. pos < ev_sequence x) (sd_events a)))"
      by (intro sorted_filter numbers_sorted)
    with that(2) show ?thesis
      by (auto simp: svc_events_def read_events_def Let_def sort_key_sorted split: sum.splits option.splits if_splits)
  qed
qed (auto simp: events_grow_def)

lemma hub_events_arrive_in_order:
  assumes "\<forall>r \<in> set rs. events_grow (ro_store r) final" "rs \<noteq> []" "hub_events sv pos rs = (fs, p, e)"
  shows "items fs = filter (\<lambda>x. pos < ev_sequence x \<and> ev_sequence x \<le> p) (sd_events final)"
  using hub.stream_sends [OF assms(1) _ assms(3) [unfolded hub_events_def]] assms(2) by (simp add: hub.between_def)

definition demo_event :: "nat \<Rightarrow> steering_event" where
  "demo_event n = \<lparr>ev_sequence = n, ev_type = ''opened'', ev_session = ''s'', ev_item = ''develop-1'', ev_at = n\<rparr>"

lemma late_event_is_passed_by:
  "hub_events demo_site 0 [demo_round ((demo_talk [])\<lparr>sd_events := [demo_event 2]\<rparr>) None,
     demo_round ((demo_talk [])\<lparr>sd_events := [demo_event 2, demo_event 1]\<rparr>) None] = ([Item (demo_event 2)], 2, StillOpen)"
  by code_simp

text \<open>A stream outlives its credential by one round at most: the first answer that it is not accepted ends it.\<close>

lemma expired_stream_ends:
  assumes "\<not> credential_valid sv a" "ro_pulse r = Ticked a"
  shows "stream_loop rd sq sv detail pos (rs @ r # others) = stream_loop rd sq sv detail pos (rs @ [r])"
  using assms(1)
proof (induction rs arbitrary: pos)
  case Nil
  then show ?case by (simp add: assms(2) split: sum.split prod.split)
next
  case (Cons x xs)
  then show ?case by (simp split: sum.split prod.split pulse.split)
qed


end
