(* ===== verification/Spec2Isabelle.thy ===== *)
theory Spec2Isabelle
  imports Pilot_Loop Hub_Places Steering_Service Scoped_Config Identity Migrations Http_Access Http_Streams
begin

text \<open>
  A verification development of \<^verbatim>\<open>temporal-agents\<close>: workflows that let a coding agent develop, review and
  pilot changes, a fleet that runs a plan of such developments, the durable record of what ran, and the
  hub, a service an operator watches and steers the work through.  File names are under
  \<^verbatim>\<open>src/internal/\<close>; a definition has the name of the function it models where Isabelle allows it.

  \<^bold>\<open>How the program is put together.\<close>  A fleet is planned (an agent writes a plan, which is parsed and checked),
  stored, and run: its nodes become develop workflows, layer by layer, seeded from the branches of the nodes
  they depend on.  A develop workflow makes a branch or a working tree, lets the agent work, and hands over
  to the local review loop or to a pull request and the pilot loop.  The loops run one pass per workflow and
  continue as new; where they cannot go on they pause and ask the operator through a steering session.
  Every workflow writes its row of the execution record, best effort, and notifies.  The hub reads that
  record, the plans and what Temporal says is live, folds iterations into chains, derives statuses, hides what
  each viewer dismissed, knows the places work runs at, and starts work on request.  The HTTP server wraps all
  of it: who may ask, which resource answers, what the answer looks like.

  \<^bold>\<open>How it is modelled.\<close>  Go strings are byte lists, Go maps are maps or association lists, errors are values of
  a sum type with one constructor for each case the code tells apart.  Whatever the program does not
  determine is a parameter: what git, GitHub, the agent, Temporal and the identity provider answer, the
  clock, random tokens, faults of the store, JSON codecs, \<^verbatim>\<open>text/template\<close>, SHA-256, UUIDs, and the parsers of URLs,
  media types and IP addresses.  Code that calls such ports is a function on the log of the events so far; an
  answer is a function of that log, so it may depend on everything that happened before
  (\<^verbatim>\<open>Effects\<close>; \<^verbatim>\<open>Workflow_Vars\<close> adds the variables that deferred functions read).  Tables are lists of rows
  and a statement a function on them, with a fault that says whether it was refused or applied although the
  answer was lost.

  \<^bold>\<open>The theories.\<close>
  \<^item> \<^verbatim>\<open>Prelude\<close>: strings, trimming, splitting, decimal numbers, generic lemmas.  \<^verbatim>\<open>Effects\<close>, \<^verbatim>\<open>Workflow_Vars\<close>:
    the two shapes of effectful code with their rules.  \<^verbatim>\<open>Workflow_Base\<close>, \<^verbatim>\<open>Exec_Record\<close>: \<^verbatim>\<open>wfrecord\<close>, \<^verbatim>\<open>wfnotify\<close>,
    \<^verbatim>\<open>wfplace\<close> and the vocabulary of \<^verbatim>\<open>execstore\<close>.
  \<^item> \<^verbatim>\<open>Fleet_Graph\<close>, \<^verbatim>\<open>Fleet_Text\<close> (\<^verbatim>\<open>fleet/domain.go\<close>), \<^verbatim>\<open>Fleet_Planning\<close> (\<^verbatim>\<open>fleet/activities.go\<close>, \<^verbatim>\<open>FleetPlanWorkflow\<close>),
    \<^verbatim>\<open>Fleet_Run\<close> (\<^verbatim>\<open>FleetWorkflow\<close>, \<^verbatim>\<open>fleet/recording.go\<close>): the validator accepts exactly the well-formed acyclic plans,
    layers respect every dependency, a run starts a node only after its dependencies succeeded and accounts
    for every node, planning touches only its clone.
  \<^item> \<^verbatim>\<open>Branch_Names\<close>, \<^verbatim>\<open>Review_Data\<close>, \<^verbatim>\<open>Review_Activities\<close>, \<^verbatim>\<open>Review_Flow\<close>, \<^verbatim>\<open>Flow_Events\<close>, \<^verbatim>\<open>Review_Loop\<close>, \<^verbatim>\<open>Pilot_Loop\<close>,
    \<^verbatim>\<open>Develop_Flow\<close>: \<^verbatim>\<open>codereview\<close>.  Working trees stay in their directory, the loops end and say truly how, work
    is committed before it is pushed and pushed before it is announced, every run settles its row.
  \<^item> \<^verbatim>\<open>Exec_Rows\<close>, \<^verbatim>\<open>Exec_Store\<close>: the execution record and its Postgres adapter, refined to an abstract record; a
    settled run stays settled and paging reads every chain once.
  \<^item> \<^verbatim>\<open>Scoped_Config\<close>, \<^verbatim>\<open>Settings\<close>, \<^verbatim>\<open>Instructions\<close>, \<^verbatim>\<open>Prompt_Config\<close>: \<^verbatim>\<open>scoped\<close>, \<^verbatim>\<open>setting\<close>, \<^verbatim>\<open>instruction\<close>, \<^verbatim>\<open>promptconfig\<close>;
    versions never change, the nearest scope wins, saving for a place changes that place only.
  \<^item> \<^verbatim>\<open>Steering_Store\<close>, \<^verbatim>\<open>Steering_Service\<close>: sessions, their messages, decisions and the wait for one; the first valid
    decision is final.
  \<^item> \<^verbatim>\<open>Locations\<close>, \<^verbatim>\<open>Work_Ids\<close>, \<^verbatim>\<open>Work_Status\<close>, \<^verbatim>\<open>Hub_Records\<close>, \<^verbatim>\<open>Hub_Store\<close>, \<^verbatim>\<open>Hub_Chains\<close>, \<^verbatim>\<open>Hub_Overview\<close>, \<^verbatim>\<open>Hub_Places\<close>:
    \<^verbatim>\<open>agenthub\<close>, \<^verbatim>\<open>wfid\<close>.  Derived statuses are the one solution of the rules, dismissed states stay hidden until they
    change, a request starts at most one run, and never in a place where one is known to run.
  \<^item> \<^verbatim>\<open>Identity_Store\<close>, \<^verbatim>\<open>Identity\<close>: signing in and sessions, with the statements of other requests interleaved at every
    step; a sign-in is used once, a cookie is accepted for a live session only and never after its sign-out.
  \<^item> \<^verbatim>\<open>Migrations\<close>: \<^verbatim>\<open>schema\<close>, \<^verbatim>\<open>pgmigrate\<close>.
  \<^item> \<^verbatim>\<open>Http_Server\<close> (problem documents and the middleware chain), \<^verbatim>\<open>Http_Documents\<close> (\<^verbatim>\<open>dto.go\<close>), \<^verbatim>\<open>Http_Resources\<close> (the
    handlers, the routing table), \<^verbatim>\<open>Http_Api\<close> and \<^verbatim>\<open>Http_Access\<close> (what holds of every handler), \<^verbatim>\<open>Http_Streams\<close> (the event
    streams): \<^verbatim>\<open>httpapi\<close>.  What is not admitted reaches no handler, readings change nothing, every answer carries
    the places it refers to, a stranger reaches the sign-in and the health only.

  \<^bold>\<open>Interfaces.\<close>  The laws a component relies on are locales, each interpreted on the code's model in the theory
  that provides it: the port of the scoped store, of the steering store, of the execution store and of the tables
  of the hub and of identity.

  \<^bold>\<open>Loops.\<close>  Recursion that follows the data is by \<^theory_text>\<open>fun\<close>.  A loop that may not end is a partial function whose
  \<open>None\<close> is not returning, and theorems show it returns where it does: the depth of a plan's nodes
  and the registry of places (\<^verbatim>\<open>new_registry_ok\<close>).  The hub pages through listings until
  they end; a listing that never ends is the error \<^verbatim>\<open>HubEndless\<close>, which the HTTP layer answers as its time budget
  does.  The fuel of a scan is the length of what it scans.

  \<^bold>\<open>Not modelled.\<close>  The command line (\<^verbatim>\<open>src/*.go\<close>): flags, printing and wiring.  The adapters that run other programs or
  speak to other services (\<^verbatim>\<open>gitcli\<close>, \<^verbatim>\<open>ghcli\<close>, \<^verbatim>\<open>piagent\<close>, \<^verbatim>\<open>hubclient\<close>, \<^verbatim>\<open>hostpicker\<close>, \<^verbatim>\<open>hubtemporal\<close>, \<^verbatim>\<open>hubplace\<close>, \<^verbatim>\<open>oidcprovider\<close>,
  the webhook) are ports, because what they do is decided outside.  The inbox and the agent's questioning are
  ports too.  The texts of the API's specification and the files of the web application are parameters.  Test
  support, the web client and the deployment files are left aside.
\<close>

end
